(* ===== verification/Prelude.thy ===== *)
theory Prelude
  imports Main "HOL-Library.AList" "HOL-Library.Multiset"
begin

text \<open>
  Shared material: the collections of facts the component proofs simplify with, generic
  lemmas on lists, and the model of Python's dictionaries.

  A dictionary keeps the order in which its keys were first inserted, and the scripts
  iterate over dictionaries, so it is an association list with distinct keys: assignment
  replaces in place or appends (\<open>AList.update\<close>), \<open>pop\<close> removes (\<open>AList.delete\<close>).
  The locale \<open>ordered_dict\<close> is the interface the components use; it is interpreted on
  these operations at the end.
\<close>

named_theorems py_str_simps \<open>evaluation of string operations\<close>
named_theorems dict_simps \<open>laws of dictionary operations\<close>

subsection \<open>Errors\<close>

text \<open>The exceptions that the modelled code can raise.\<close>

datatype py_error =
    ValueError | KeyError | IndexError | AssertionError | ZeroDivisionError
  | AttributeError | UnboundLocalError | GenericError | OverflowError | TypeError
  | FileNotFoundError | FileExistsError | NotADirectoryError | IsADirectoryError | PermissionError
  | WafError | SystemExit int

type_synonym 'a result = "py_error + 'a"

text \<open>Sequencing of computations that may raise.\<close>

definition bindR :: "'a result \<Rightarrow> ('a \<Rightarrow> 'b result) \<Rightarrow> 'b result" where
  "bindR r f = (case r of Inl e \<Rightarrow> Inl e | Inr x \<Rightarrow> f x)"

lemma bindR_simps [simp]:
  "bindR (Inl e) f = Inl e"
  "bindR (Inr x) f = f x"
  by (simp_all add: bindR_def)

lemma bindR_eq_Inr: "bindR r f = Inr y \<longleftrightarrow> (\<exists>x. r = Inr x \<and> f x = Inr y)"
  by (cases r) auto

lemma bindR_assoc: "bindR (bindR r f) g = bindR r (\<lambda>x. bindR (f x) g)"
  by (cases r) simp_all

subsection \<open>Loops that may raise\<close>

text \<open>A loop whose body may raise.\<close>

fun foldR :: "('a \<Rightarrow> 's \<Rightarrow> 's result) \<Rightarrow> 'a list \<Rightarrow> 's \<Rightarrow> 's result" where
  "foldR f [] s = Inr s"
| "foldR f (x # xs) s = bindR (f x s) (foldR f xs)"

text \<open>A loop that collects the results of a body that may raise.\<close>

definition mapR :: "('a \<Rightarrow> 'b result) \<Rightarrow> 'a list \<Rightarrow> 'b list result" where
  "mapR f xs = foldR (\<lambda>x ys. bindR (f x) (\<lambda>y. Inr (ys @ [y]))) xs []"

lemma foldR_append: "foldR f (xs @ ys) s = bindR (foldR f xs s) (foldR f ys)"
proof (induction xs arbitrary: s)
  case (Cons x xs)
  then show ?case by (cases "f x s") simp_all
qed simp

text \<open>When the body either raises or takes the pure step, the loop is the pure fold, and it
  completes exactly when no element makes the body raise.\<close>

lemma foldR_pure:
  assumes "\<And>x s. f x s = (if ok x then Inr (g x s) else Inl (e x))"
  shows "foldR f xs s = Inr s' \<longleftrightarrow> (\<forall>x\<in>set xs. ok x) \<and> s' = fold g xs s"
  by (induction xs arbitrary: s) (auto simp: assms)

lemma foldR_raises:
  assumes "\<And>x s. f x s = (if ok x then Inr (g x s) else Inl e)"
  shows "\<exists>x\<in>set xs. \<not> ok x \<Longrightarrow> foldR f xs s = Inl e"
  by (induction xs arbitrary: s) (auto simp: assms)

lemma foldR_returns:
  "(\<And>x s. x \<in> set xs \<Longrightarrow> \<exists>s'. f x s = Inr s') \<Longrightarrow> \<exists>s'. foldR f xs s = Inr s'"
proof (induction xs arbitrary: s)
  case (Cons x xs)
  then obtain s1 where "f x s = Inr s1" by fastforce
  then show ?case using Cons by simp
qed simp

lemma mapR_Inr: "(\<And>x. x \<in> set xs \<Longrightarrow> f x = Inr (g x)) \<Longrightarrow> mapR f xs = Inr (map g xs)"
proof -
  assume f: "\<And>x. x \<in> set xs \<Longrightarrow> f x = Inr (g x)"
  have "foldR (\<lambda>x ys. bindR (f x) (\<lambda>y. Inr (ys @ [y]))) xs acc = Inr (acc @ map g xs)" for acc
    using f by (induction xs arbitrary: acc) auto
  then show ?thesis by (simp add: mapR_def)
qed

lemma mapR_Nil [simp]: "mapR f [] = Inr []"
  by (simp add: mapR_def)

lemma mapR_Cons: "mapR f (x # xs) = bindR (f x) (\<lambda>y. bindR (mapR f xs) (\<lambda>ys. Inr (y # ys)))"
proof -
  have "foldR (\<lambda>x ys. bindR (f x) (\<lambda>y. Inr (ys @ [y]))) xs acc =
      bindR (foldR (\<lambda>x ys. bindR (f x) (\<lambda>y. Inr (ys @ [y]))) xs []) (\<lambda>ys. Inr (acc @ ys))" for acc
  proof (induction xs rule: rev_induct)
    case (snoc x xs)
    then show ?case
      by (cases "foldR (\<lambda>x ys. bindR (f x) (\<lambda>y. Inr (ys @ [y]))) xs []"; cases "f x") (simp_all add: foldR_append)
  qed simp
  from this [of "[y]" for y] show ?thesis
    by (cases "f x") (simp_all add: mapR_def)
qed

lemma mapR_cong: "(\<And>x. x \<in> set xs \<Longrightarrow> f x = g x) \<Longrightarrow> mapR f xs = mapR g xs"
  by (induction xs) (simp_all add: mapR_Cons)

lemma mapR_list_all2: "mapR f xs = Inr ys \<Longrightarrow> list_all2 (\<lambda>x y. f x = Inr y) xs ys"
  by (induction xs arbitrary: ys) (auto simp: mapR_Cons bindR_eq_Inr)

subsection \<open>Lists\<close>

lemma length_filter_pos: "x \<in> set xs \<Longrightarrow> P x \<Longrightarrow> 0 < length (filter P xs)"
  by (induction xs) auto

lemma sort_key_Nil: "sort_key f xs = [] \<longleftrightarrow> xs = []"
  by (metis length_0_conv length_sort)

lemma last_take_Suc: "i < length xs \<Longrightarrow> last (take (Suc i) xs) = xs ! i"
  by (simp add: take_Suc_conv_app_nth)

lemma sum_list_map_filter_split:
  fixes f :: "'a \<Rightarrow> int"
  shows "sum_list (map f xs) = sum_list (map f (filter P xs)) + sum_list (map f (filter (\<lambda>x. \<not> P x) xs))"
  by (induction xs) auto

lemma dropWhile_takeWhile_neq_Nil: "dropWhile P xs \<noteq> [] \<Longrightarrow> \<not> P (hd (dropWhile P xs))"
  by (simp add: hd_dropWhile)

text \<open>\<open>xs[i]\<close>: a negative index counts from the end, an index out of range raises.\<close>

definition py_idx :: "'a list \<Rightarrow> int \<Rightarrow> 'a result" where
  "py_idx xs i = (if 0 \<le> i \<and> i < int (length xs) then Inr (xs ! nat i)
     else if - int (length xs) \<le> i \<and> i < 0 then Inr (xs ! nat (int (length xs) + i))
     else Inl IndexError)"

lemma py_idx_nth [simp]: "i < length xs \<Longrightarrow> py_idx xs (int i) = Inr (xs ! i)"
  by (simp add: py_idx_def)

subsection \<open>Ordered dictionaries\<close>

type_synonym ('k, 'v) dict = "('k \<times> 'v) list"

definition dict_wf :: "('k, 'v) dict \<Rightarrow> bool" where
  "dict_wf d \<longleftrightarrow> distinct (map fst d)"

definition dget :: "('k, 'v) dict \<Rightarrow> 'k \<Rightarrow> 'v option" where
  "dget d k = map_of d k"

definition dset :: "'k \<Rightarrow> 'v \<Rightarrow> ('k, 'v) dict \<Rightarrow> ('k, 'v) dict" where
  "dset k v d = AList.update k v d"

definition dpop :: "'k \<Rightarrow> ('k, 'v) dict \<Rightarrow> ('k, 'v) dict" where
  "dpop k d = filter (\<lambda>p. fst p \<noteq> k) d"

definition dkeys :: "('k, 'v) dict \<Rightarrow> 'k list" where
  "dkeys d = map fst d"

definition dget_default :: "('k, 'v) dict \<Rightarrow> 'k \<Rightarrow> 'v \<Rightarrow> 'v" where
  "dget_default d k v = (case dget d k of Some w \<Rightarrow> w | None \<Rightarrow> v)"

text \<open>
  The contract of a dictionary: what a lookup returns after an assignment or a removal,
  and that a new key goes to the end of the iteration order.
\<close>

locale ordered_dict =
  fixes lookup :: "'d \<Rightarrow> 'k \<Rightarrow> 'v option"
    and upd :: "'k \<Rightarrow> 'v \<Rightarrow> 'd \<Rightarrow> 'd"
    and del :: "'k \<Rightarrow> 'd \<Rightarrow> 'd"
    and keys :: "'d \<Rightarrow> 'k list"
    and emp :: "'d"
    and wf :: "'d \<Rightarrow> bool"
  assumes lookup_emp: "lookup emp k = None"
    and lookup_upd: "lookup (upd k v d) k' = (if k' = k then Some v else lookup d k')"
    and lookup_del: "lookup (del k d) k' = (if k' = k then None else lookup d k')"
    and keys_emp: "keys emp = []"
    and keys_upd: "keys (upd k v d) = (if k \<in> set (keys d) then keys d else keys d @ [k])"
    and keys_del: "keys (del k d) = filter (\<lambda>x. x \<noteq> k) (keys d)"
    and set_keys: "set (keys d) = {k. lookup d k \<noteq> None}"
    and wf_keys: "wf d \<longleftrightarrow> distinct (keys d)"
begin

lemma wf_emp: "wf emp"
  by (simp add: wf_keys keys_emp)

lemma wf_upd: "wf d \<Longrightarrow> wf (upd k v d)"
  by (simp add: wf_keys keys_upd)

lemma wf_del: "wf d \<Longrightarrow> wf (del k d)"
  by (simp add: wf_keys keys_del)

text \<open>A run of assignments: the last one to a key wins, whatever came before.\<close>

lemma lookup_fold_upd:
  "lookup (fold (\<lambda>p. upd (fst p) (snd p)) ps d) k =
     (case map_of (rev ps) k of Some v \<Rightarrow> Some v | None \<Rightarrow> lookup d k)"
  by (induction ps arbitrary: d)
     (auto simp: lookup_upd map_add_def split: option.splits)

lemma wf_fold_upd: "wf d \<Longrightarrow> wf (fold (\<lambda>p. upd (fst p) (snd p)) ps d)"
  by (induction ps arbitrary: d) (auto simp: wf_upd)

lemma set_keys_fold_upd:
  "set (keys (fold (\<lambda>p. upd (fst p) (snd p)) ps d)) = set (keys d) \<union> fst ` set ps"
  by (induction ps arbitrary: d) (auto simp: keys_upd)

lemma keys_fold_upd_fresh:
  "distinct (map fst ps) \<Longrightarrow> fst ` set ps \<inter> set (keys d) = {} \<Longrightarrow>
   keys (fold (\<lambda>p. upd (fst p) (snd p)) ps d) = keys d @ map fst ps"
  by (induction ps arbitrary: d) (auto simp: keys_upd)

end

lemma map_fst_update: "map fst (AList.update k v d) =
    (if k \<in> fst ` set d then map fst d else map fst d @ [k])"
  by (induction d) auto

interpretation pyd: ordered_dict dget dset dpop dkeys "[]" dict_wf
proof (unfold_locales, goal_cases)
  case (2 k v d k') show ?case by (simp add: dget_def dset_def update_conv')
next
  case (3 k d k') show ?case by (induction d) (auto simp: dget_def dpop_def)
next
  case (5 k v d) show ?case by (simp add: dkeys_def dset_def map_fst_update)
next
  case (6 k d) show ?case by (induction d) (auto simp: dkeys_def dpop_def)
next
  case (7 d) show ?case by (induction d) (auto simp: dkeys_def dget_def)
qed (auto simp: dget_def dkeys_def dict_wf_def)

lemmas dict_laws [dict_simps] =
  pyd.lookup_emp pyd.lookup_upd pyd.lookup_del pyd.keys_emp pyd.wf_emp

text \<open>
  Two idioms of the scripts: \<open>defaultdict(list)\<close> with \<open>d[k].append(x)\<close>, and a counter
  with \<open>d[k] += n\<close>. Their laws are proved once over the interface.
\<close>

definition dappend :: "'k \<Rightarrow> 'x \<Rightarrow> ('k, 'x list) dict \<Rightarrow> ('k, 'x list) dict" where
  "dappend k x d = dset k (dget_default d k [] @ [x]) d"

definition dadd :: "'k \<Rightarrow> int \<Rightarrow> ('k, int) dict \<Rightarrow> ('k, int) dict" where
  "dadd k n d = dset k (dget_default d k 0 + n) d"

locale list_dict = ordered_dict lookup upd del keys emp wf
  for lookup :: "'d \<Rightarrow> 'k \<Rightarrow> 'x list option"
    and upd :: "'k \<Rightarrow> 'x list \<Rightarrow> 'd \<Rightarrow> 'd"
    and del :: "'k \<Rightarrow> 'd \<Rightarrow> 'd"
    and keys :: "'d \<Rightarrow> 'k list"
    and emp :: "'d"
    and wf :: "'d \<Rightarrow> bool" +
  fixes append :: "'k \<Rightarrow> 'x \<Rightarrow> 'd \<Rightarrow> 'd"
  assumes append_eq: "append k x d = upd k ((case lookup d k of None \<Rightarrow> [] | Some l \<Rightarrow> l) @ [x]) d"
begin

lemma lookup_append:
  "lookup (append k x d) k' =
     (if k' = k then Some ((case lookup d k of None \<Rightarrow> [] | Some l \<Rightarrow> l) @ [x]) else lookup d k')"
  by (simp add: append_eq lookup_upd)

text \<open>Grouping a list of pairs: each key holds its values, in the order of the list.\<close>

lemma lookup_group:
  "(case lookup (fold (\<lambda>p. append (fst p) (snd p)) ps d) k of None \<Rightarrow> [] | Some l \<Rightarrow> l) =
   (case lookup d k of None \<Rightarrow> [] | Some l \<Rightarrow> l) @ map snd (filter (\<lambda>p. fst p = k) ps)"
  by (induction ps arbitrary: d) (auto simp: lookup_append)

lemma keys_append: "set (keys (append k x d)) = insert k (set (keys d))"
  by (auto simp: append_eq keys_upd)

lemma set_keys_group:
  "set (keys (fold (\<lambda>p. append (fst p) (snd p)) ps d)) = set (keys d) \<union> fst ` set ps"
  by (induction ps arbitrary: d) (auto simp: keys_append)

lemma wf_group: "wf d \<Longrightarrow> wf (fold (\<lambda>p. append (fst p) (snd p)) ps d)"
  by (induction ps arbitrary: d) (auto simp: append_eq wf_upd)

end

locale counter_dict = ordered_dict lookup upd del keys emp wf
  for lookup :: "'d \<Rightarrow> 'k \<Rightarrow> int option"
    and upd :: "'k \<Rightarrow> int \<Rightarrow> 'd \<Rightarrow> 'd"
    and del :: "'k \<Rightarrow> 'd \<Rightarrow> 'd"
    and keys :: "'d \<Rightarrow> 'k list"
    and emp :: "'d"
    and wf :: "'d \<Rightarrow> bool" +
  fixes add :: "'k \<Rightarrow> int \<Rightarrow> 'd \<Rightarrow> 'd"
  assumes add_eq: "add k n d = upd k ((case lookup d k of None \<Rightarrow> 0 | Some m \<Rightarrow> m) + n) d"
begin

lemma lookup_add:
  "lookup (add k n d) k' =
     (if k' = k then Some ((case lookup d k of None \<Rightarrow> 0 | Some m \<Rightarrow> m) + n) else lookup d k')"
  by (simp add: add_eq lookup_upd)

text \<open>Counting the elements of a list: each key holds its number of occurrences.\<close>

lemma lookup_count:
  "(case lookup (fold (\<lambda>k. add k 1) ks d) k of None \<Rightarrow> 0 | Some m \<Rightarrow> m) =
   (case lookup d k of None \<Rightarrow> 0 | Some m \<Rightarrow> m) + int (count_list ks k)"
  by (induction ks arbitrary: d) (auto simp: lookup_add)

lemma set_keys_count: "set (keys (fold (\<lambda>k. add k 1) ks d)) = set (keys d) \<union> set ks"
  by (induction ks arbitrary: d) (auto simp: add_eq keys_upd)

lemma wf_count: "wf d \<Longrightarrow> wf (fold (\<lambda>k. add k 1) ks d)"
  by (induction ks arbitrary: d) (auto simp: add_eq wf_upd)

end

interpretation pyl: list_dict dget dset dpop dkeys "[]" dict_wf dappend
  by unfold_locales (simp add: dappend_def dget_default_def)

interpretation pyc: counter_dict dget dset dpop dkeys "[]" dict_wf dadd
  by unfold_locales (simp add: dadd_def dget_default_def)

lemma dset_fresh: "k \<notin> set (dkeys d) \<Longrightarrow> dset k v d = d @ [(k, v)]"
  by (induction d) (auto simp: dset_def dkeys_def)

lemma fold_dset_fresh:
  "distinct (map fst ps) \<Longrightarrow> fst ` set ps \<inter> set (dkeys d) = {} \<Longrightarrow>
   fold (\<lambda>p. dset (fst p) (snd p)) ps d = d @ ps"
  by (induction ps arbitrary: d) (auto simp: dset_fresh dkeys_def)

lemma dset_Nil [simp]: "dset k v [] = [(k, v)]"
  by (simp add: dset_def)

lemma dset_Cons [simp]: "dset k v ((k', w) # d) = (if k' = k then (k, v) # d else (k', w) # dset k v d)"
  by (simp add: dset_def)

lemma dict_wf_Cons: "dict_wf ((k, v) # d) \<longleftrightarrow> k \<notin> set (dkeys d) \<and> dict_wf d"
  by (simp add: dict_wf_def dkeys_def)

lemma in_dkeys: "k \<in> set (dkeys d) \<longleftrightarrow> (\<exists>v. dget d k = Some v)"
  by (simp add: pyd.set_keys)

lemma dget_default_group:
  "dget_default (fold (\<lambda>p. dappend (fst p) (snd p)) ps d) k [] =
   dget_default d k [] @ map snd (filter (\<lambda>p. fst p = k) ps)"
  using pyl.lookup_group [of ps d k] by (simp add: dget_default_def)

lemma dget_default_count:
  "dget_default (fold (\<lambda>k. dadd k 1) ks d) k 0 = dget_default d k 0 + int (count_list ks k)"
  using pyc.lookup_count [of ks d k] by (simp add: dget_default_def)

lemma dget_default_Nil [simp]: "dget_default [] k v = v"
  by (simp add: dget_default_def dict_simps)

lemma dget_default_dset [simp]:
  "dget_default (dset k v d) k' w = (if k' = k then v else dget_default d k' w)"
  by (simp add: dget_default_def dict_simps)

lemma dget_default_dpop [simp]:
  "dget_default (dpop k d) k' w = (if k' = k then w else dget_default d k' w)"
  by (simp add: dget_default_def dict_simps)

text \<open>A sum over a grouping grows by what one more value adds to its group.\<close>

lemma sum_dappend:
  fixes f :: "'x list \<Rightarrow> int"
  assumes "\<And>xs. f (xs @ [x]) = f xs + c" "f [] = 0"
  shows "sum_list (map (\<lambda>p. f (snd p)) (dappend k x d)) = sum_list (map (\<lambda>p. f (snd p)) d) + c"
proof (induction d)
  case (Cons p d)
  obtain k' v where p: "p = (k', v)" by fastforce
  show ?case
  proof (cases "k' = k")
    case True
    then show ?thesis using assms(1) by (simp add: p dappend_def dget_default_def dget_def)
  next
    case False
    then have "dget_default (p # d) k [] = dget_default d k []" by (simp add: p dget_default_def dget_def)
    then show ?thesis using Cons False by (simp add: p dappend_def)
  qed
next
  case Nil
  have "f [x] = c" using assms(1) [of "[]"] assms(2) by simp
  then show ?case by (simp add: dappend_def)
qed

subsection \<open>Printed lines\<close>

text \<open>What a script writes: a line on its standard output or on its error stream.\<close>

datatype outline = Out string | Err string

end
