(* ===== verification/PyStr.thy ===== *)
theory PyStr
  imports Prelude "HOL-Library.Char_ord"
begin

text \<open>
  Python's string operations, as the scripts use them: \<open>strip\<close>, \<open>split\<close> without and with a
  separator, \<open>join\<close>, \<open>startswith\<close>, \<open>endswith\<close>, \<open>replace\<close>, the decimal text of an
  integer and \<open>int(text)\<close>. A string is a list of characters with code points below 256
  (Latin-1); the traces are ASCII.
\<close>

subsection \<open>White space, strip and split\<close>

text \<open>\<open>str.isspace\<close> on code points below 256: TAB to CR, FS to US, space, NEL and NBSP.\<close>

definition py_ws :: "char \<Rightarrow> bool" where
  "py_ws c = (let n = (of_char c :: nat) in
     (9 \<le> n \<and> n \<le> 13) \<or> (28 \<le> n \<and> n \<le> 32) \<or> n = 133 \<or> n = 160)"

definition lstrip :: "string \<Rightarrow> string" where
  "lstrip s = dropWhile py_ws s"

definition rstrip :: "string \<Rightarrow> string" where
  "rstrip s = rev (dropWhile py_ws (rev s))"

definition strip :: "string \<Rightarrow> string" where
  "strip s = rstrip (lstrip s)"

text \<open>\<open>s.split()\<close>: the maximal runs of characters that are not white space.\<close>

fun split_go :: "string \<Rightarrow> string \<Rightarrow> string list" where
  "split_go acc [] = (if acc = [] then [] else [rev acc])"
| "split_go acc (c # cs) =
     (if py_ws c then (if acc = [] then split_go [] cs else rev acc # split_go [] cs)
      else split_go (c # acc) cs)"

definition split_ws :: "string \<Rightarrow> string list" where
  "split_ws s = split_go [] s"

text \<open>\<open>s.split(c, 1)\<close> for a one-character separator that occurs: the text before the first
  occurrence and the text after it; \<open>None\<close> when it does not occur.\<close>

fun split_once :: "char \<Rightarrow> string \<Rightarrow> (string \<times> string) option" where
  "split_once c [] = None"
| "split_once c (x # xs) =
     (if x = c then Some ([], xs)
      else (case split_once c xs of None \<Rightarrow> None | Some (a, b) \<Rightarrow> Some (x # a, b)))"

text \<open>\<open>s.split(c)\<close> for a one-character separator: never empty.\<close>

fun split_char :: "char \<Rightarrow> string \<Rightarrow> string list" where
  "split_char c [] = [[]]"
| "split_char c (x # xs) =
     (if x = c then [] # split_char c xs
      else (case split_char c xs of [] \<Rightarrow> [[x]] | p # ps \<Rightarrow> (x # p) # ps))"

fun join :: "string \<Rightarrow> string list \<Rightarrow> string" where
  "join sep [] = []"
| "join sep [x] = x"
| "join sep (x # y # ys) = x @ sep @ join sep (y # ys)"

definition startswith :: "string \<Rightarrow> string \<Rightarrow> bool" where
  "startswith s p = (take (length p) s = p)"

definition endswith :: "string \<Rightarrow> string \<Rightarrow> bool" where
  "endswith s p = (length p \<le> length s \<and> drop (length s - length p) s = p)"

lemma split_go_nonws:
  "\<forall>c\<in>set t. \<not> py_ws c \<Longrightarrow> split_go acc (t @ s) = split_go (rev t @ acc) s"
  by (induction t arbitrary: acc) auto

lemma split_go_token_end:
  "\<forall>c\<in>set t. \<not> py_ws c \<Longrightarrow> t \<noteq> [] \<Longrightarrow> split_go [] t = [t]"
  using split_go_nonws [of t "[]" "[]"] by simp

lemma split_go_token_ws:
  "\<forall>c\<in>set t. \<not> py_ws c \<Longrightarrow> t \<noteq> [] \<Longrightarrow> py_ws w \<Longrightarrow>
   split_go [] (t @ w # s) = t # split_go [] s"
  using split_go_nonws [of t "[]" "w # s"] by simp

text \<open>A token: not empty, no white space.\<close>

definition is_token :: "string \<Rightarrow> bool" where
  "is_token t \<longleftrightarrow> t \<noteq> [] \<and> (\<forall>c\<in>set t. \<not> py_ws c)"

lemma py_ws_space: "py_ws CHR '' ''"
  by (simp add: py_ws_def)

lemma split_ws_join:
  "\<forall>t\<in>set ts. is_token t \<Longrightarrow> split_ws (join '' '' ts) = ts"
proof (induction ts rule: induct_list012)
  case (2 x)
  then show ?case by (simp add: split_ws_def is_token_def split_go_token_end)
next
  case (3 x y ys)
  then have "split_go [] (x @ CHR '' '' # join '' '' (y # ys)) = x # split_go [] (join '' '' (y # ys))"
    by (intro split_go_token_ws) (auto simp: is_token_def py_ws_space)
  moreover have "split_go [] (join '' '' (y # ys)) = y # ys"
    using 3 by (simp add: split_ws_def)
  ultimately show ?case by (simp add: split_ws_def)
qed (simp add: split_ws_def)

lemma split_go_tokens:
  "\<forall>c\<in>set acc. \<not> py_ws c \<Longrightarrow> \<forall>t\<in>set (split_go acc s). is_token t"
proof (induction s arbitrary: acc)
  case Nil
  then show ?case by (simp add: is_token_def)
next
  case (Cons c cs)
  show ?case
  proof (cases "py_ws c")
    case True
    moreover have "acc \<noteq> [] \<Longrightarrow> is_token (rev acc)"
      using Cons.prems by (simp add: is_token_def)
    ultimately show ?thesis using Cons.IH [of "[]"] by simp
  next
    case False
    then show ?thesis using Cons.IH [of "c # acc"] Cons.prems by simp
  qed
qed

lemma split_ws_tokens: "t \<in> set (split_ws s) \<Longrightarrow> is_token t"
  using split_go_tokens [of "[]" s] by (simp add: split_ws_def)

lemma split_once_None: "split_once c s = None \<longleftrightarrow> c \<notin> set s"
  by (induction s) (auto split: option.splits)

lemma split_once_append [simp]: "c \<notin> set a \<Longrightarrow> split_once c (a @ c # b) = Some (a, b)"
  by (induction a) auto

lemma split_once_SomeD: "split_once c s = Some (a, b) \<Longrightarrow> c \<notin> set a \<and> s = a @ c # b"
  by (induction s arbitrary: a) (auto split: if_splits option.splits)

lemma split_once_Some: "split_once c s = Some (a, b) \<longleftrightarrow> c \<notin> set a \<and> s = a @ c # b"
  using split_once_SomeD by fastforce

lemma split_char_Nil [simp]: "split_char c s \<noteq> []"
  by (induction s) (auto split: list.splits)

lemma split_char_token: "c \<notin> set s \<Longrightarrow> split_char c s = [s]"
  by (induction s) (auto split: list.splits)

lemma split_char_append: "c \<notin> set a \<Longrightarrow> split_char c (a @ c # b) = a # split_char c b"
  by (induction a) (auto split: list.splits)

lemma startswith_append [simp]: "startswith (p @ s) p"
  by (simp add: startswith_def)

lemma strip_token: "is_token t \<Longrightarrow> strip t = t"
proof -
  assume t: "is_token t"
  then have "\<not> py_ws (hd t)" and "\<not> py_ws (hd (rev t))"
    by (auto simp: is_token_def hd_rev)
  then have "dropWhile py_ws t = t" and "dropWhile py_ws (rev t) = rev t"
    by (simp_all add: dropWhile_eq_self_iff)
  then show ?thesis by (simp add: strip_def lstrip_def rstrip_def)
qed

text \<open>Splitting ignores white space at either end.\<close>

lemma split_go_dropWhile: "split_go [] (dropWhile py_ws s) = split_go [] s"
  by (induction s) auto

lemma split_go_all_ws: "\<forall>c\<in>set s. py_ws c \<Longrightarrow> split_go acc s = (if acc = [] then [] else [rev acc])"
  by (induction s arbitrary: acc) auto

lemma split_go_ws_end: "\<forall>c\<in>set w. py_ws c \<Longrightarrow> split_go acc (s @ w) = split_go acc s"
  by (induction acc s rule: split_go.induct) (auto simp: split_go_all_ws)

lemma rstrip_decomp: "\<exists>w. (\<forall>c\<in>set w. py_ws c) \<and> s = rstrip s @ w"
proof -
  have "rev s = takeWhile py_ws (rev s) @ dropWhile py_ws (rev s)" by simp
  then have "s = rstrip s @ rev (takeWhile py_ws (rev s))"
    by (metis rev_append rev_rev_ident rstrip_def)
  moreover have "\<forall>c\<in>set (rev (takeWhile py_ws (rev s))). py_ws c"
    by (auto dest: set_takeWhileD)
  ultimately show ?thesis by blast
qed

lemma split_ws_strip: "split_ws (strip s) = split_ws s"
proof -
  obtain w where w: "\<forall>c\<in>set w. py_ws c" "lstrip s = rstrip (lstrip s) @ w"
    using rstrip_decomp by blast
  have "split_go [] (strip s) = split_go [] (rstrip (lstrip s) @ w)"
    using w(1) by (simp add: strip_def split_go_ws_end)
  also have "\<dots> = split_go [] (lstrip s)" using w(2) by simp
  also have "\<dots> = split_go [] s" by (simp add: lstrip_def split_go_dropWhile)
  finally show ?thesis by (simp add: split_ws_def)
qed

lemma strip_eq_Nil: "strip s = [] \<longleftrightarrow> split_ws s = []"
proof
  assume "strip s = []"
  then show "split_ws s = []" using split_ws_strip [of s] by (simp add: split_ws_def)
next
  assume e: "split_ws s = []"
  show "strip s = []"
  proof (rule ccontr)
    assume n: "strip s \<noteq> []"
    then have l: "lstrip s \<noteq> []" by (auto simp: strip_def rstrip_def)
    then obtain c cs where c: "lstrip s = c # cs" "\<not> py_ws c"
      by (metis lstrip_def hd_dropWhile list.collapse)
    have "split_go [c] cs \<noteq> []"
    proof -
      have "acc \<noteq> [] \<Longrightarrow> split_go acc cs \<noteq> []" for acc
        by (induction cs arbitrary: acc) auto
      then show ?thesis by simp
    qed
    then have "split_go [] (lstrip s) \<noteq> []" using c by simp
    then show False using e by (simp add: split_ws_def lstrip_def split_go_dropWhile)
  qed
qed

subsection \<open>Replacement\<close>

text \<open>\<open>s.replace(old, new)\<close> for a text \<open>old\<close> that is not empty: occurrences from the left,
  not overlapping. (With an empty \<open>old\<close>, which no caller passes, \<open>s\<close> is unchanged here.)\<close>

function replace :: "string \<Rightarrow> string \<Rightarrow> string \<Rightarrow> string" where
  "replace old new [] = []"
| "replace old new (c # cs) =
     (if old \<noteq> [] \<and> startswith (c # cs) old
      then new @ replace old new (drop (length old) (c # cs))
      else c # replace old new cs)"
  by pat_completeness auto
termination
  by (relation "measure (\<lambda>(old, new, s). length s)") (auto simp: length_greater_0_conv [symmetric] simp del: length_greater_0_conv)

lemma replace_char: "replace [a] new s = concat (map (\<lambda>c. if c = a then new else [c]) s)"
  by (induction s) (auto simp: startswith_def)

text \<open>\<open>\w\<close> of a regular expression: letters and digits of all alphabets, and the underscore.\<close>

definition re_word :: "char \<Rightarrow> bool" where
  "re_word c = (let n = (of_char c :: nat) in c = CHR ''_'' \<or> (48 \<le> n \<and> n \<le> 57) \<or> (65 \<le> n \<and> n \<le> 90)
     \<or> (97 \<le> n \<and> n \<le> 122) \<or> n \<in> {170, 178, 179, 181, 185, 186, 188, 189, 190} \<or> (192 \<le> n \<and> n \<noteq> 215 \<and> n \<noteq> 247))"

subsection \<open>Paths\<close>

text \<open>\<open>os.path.join\<close> of two parts and \<open>os.path.basename\<close>.\<close>

definition path_join :: "string \<Rightarrow> string \<Rightarrow> string" where
  "path_join a b = (if startswith b ''/'' then b else if a = [] \<or> endswith a ''/'' then a @ b else a @ ''/'' @ b)"

definition basename :: "string \<Rightarrow> string" where
  "basename s = rev (takeWhile (\<lambda>c. c \<noteq> CHR ''/'') (rev s))"

end
