(* ===== verification/PyInt.thy ===== *)
theory PyInt
  imports PyStr
begin

text \<open>
  The decimal text of an integer (\<open>str(n)\<close>) and its parser \<open>int(text)\<close>: surrounding white
  space, an optional sign, ASCII digits with single underscores between digits; everything
  else is a ValueError, which is \<open>None\<close> here. CPython's limit of 4300 digits is left out.
\<close>

definition is_digit :: "char \<Rightarrow> bool" where
  "is_digit c = (let n = (of_char c :: int) in 48 \<le> n \<and> n \<le> 57)"

definition dval :: "char \<Rightarrow> int" where
  "dval c = of_char c - 48"

definition digit_char :: "int \<Rightarrow> char" where
  "digit_char n = char_of (48 + n)"

text \<open>The digits of a number that is not negative.\<close>

function show_nat :: "int \<Rightarrow> string" where
  "show_nat n = (if n < 10 then [digit_char n] else show_nat (n div 10) @ [digit_char (n mod 10)])"
  by pat_completeness auto
termination
  by (relation "measure nat") auto

declare show_nat.simps [simp del]

definition show_int :: "int \<Rightarrow> string" where
  "show_int i = (if i < 0 then CHR ''-'' # show_nat (- i) else show_nat i)"

text \<open>The digits after the first one.\<close>

fun dig_tail :: "int \<Rightarrow> string \<Rightarrow> int option" where
  "dig_tail n [] = Some n"
| "dig_tail n (c # cs) =
     (if is_digit c then dig_tail (10 * n + dval c) cs
      else if c = CHR ''_'' then
        (case cs of [] \<Rightarrow> None
         | d # ds \<Rightarrow> if is_digit d then dig_tail (10 * n + dval d) ds else None)
      else None)"

fun py_nat :: "string \<Rightarrow> int option" where
  "py_nat [] = None"
| "py_nat (c # cs) = (if is_digit c then dig_tail (dval c) cs else None)"

definition py_int :: "string \<Rightarrow> int option" where
  "py_int s = (case strip s of
       [] \<Rightarrow> None
     | c # cs \<Rightarrow>
         if c = CHR ''-'' then map_option uminus (py_nat cs)
         else if c = CHR ''+'' then py_nat cs
         else py_nat (c # cs))"

subsection \<open>Round trip\<close>

lemma of_char_digit_char: "0 \<le> n \<Longrightarrow> n < 10 \<Longrightarrow> (of_char (digit_char n) :: int) = 48 + n"
  by (simp add: digit_char_def of_char_of)

lemma is_digit_digit_char [simp]: "0 \<le> n \<Longrightarrow> n < 10 \<Longrightarrow> is_digit (digit_char n)"
  by (simp add: is_digit_def of_char_digit_char)

lemma dval_digit_char [simp]: "0 \<le> n \<Longrightarrow> n < 10 \<Longrightarrow> dval (digit_char n) = n"
  by (simp add: dval_def of_char_digit_char)

lemma show_nat_digits: "0 \<le> n \<Longrightarrow> \<forall>c\<in>set (show_nat n). is_digit c"
proof (induction n rule: show_nat.induct)
  case (1 n)
  then show ?case by (subst show_nat.simps) auto
qed

lemma show_nat_nonempty [simp]: "show_nat n \<noteq> []"
  by (subst show_nat.simps) simp

lemma of_char_int_nat: "(of_char c :: int) = int (of_char c)"
  by (simp add: of_nat_of_char)

lemma digits_not_ws: "is_digit c \<Longrightarrow> \<not> py_ws c"
  by (auto simp: is_digit_def py_ws_def Let_def of_char_int_nat)

lemma minus_not_ws: "\<not> py_ws CHR ''-''"
  by (simp add: py_ws_def)

lemma minus_not_digit: "\<not> is_digit CHR ''-''"
  by (simp add: is_digit_def)

lemma plus_not_digit: "\<not> is_digit CHR ''+''"
  by (simp add: is_digit_def)

lemma dig_tail_digits:
  "\<forall>c\<in>set s. is_digit c \<Longrightarrow> dig_tail n s = Some (foldl (\<lambda>a c. 10 * a + dval c) n s)"
  by (induction s arbitrary: n) auto

lemma py_nat_digits:
  "\<forall>c\<in>set s. is_digit c \<Longrightarrow> s \<noteq> [] \<Longrightarrow> py_nat s = Some (foldl (\<lambda>a c. 10 * a + dval c) 0 s)"
  by (cases s) (auto simp: dig_tail_digits)

lemma foldl_show_nat: "0 \<le> n \<Longrightarrow> foldl (\<lambda>a c. 10 * a + dval c) 0 (show_nat n) = n"
proof (induction n rule: show_nat.induct)
  case (1 n)
  then show ?case by (subst show_nat.simps) auto
qed

lemma py_nat_show_nat: "0 \<le> n \<Longrightarrow> py_nat (show_nat n) = Some n"
  using py_nat_digits [OF show_nat_digits show_nat_nonempty, of n] by (simp add: foldl_show_nat)

lemma show_int_token: "is_token (show_int i)"
  using show_nat_digits [of i] show_nat_digits [of "- i"] digits_not_ws minus_not_ws
  by (auto simp: show_int_def is_token_def)

lemma py_int_show_int [simp]: "py_int (show_int i) = Some i"
proof -
  have s: "strip (show_int i) = show_int i"
    by (rule strip_token) (rule show_int_token)
  show ?thesis
  proof (cases "i < 0")
    case True
    then have "show_int i = CHR ''-'' # show_nat (- i)" by (simp add: show_int_def)
    then show ?thesis using s True by (simp add: py_int_def py_nat_show_nat)
  next
    case False
    obtain c cs where c: "show_nat i = c # cs" by (meson list.exhaust show_nat_nonempty)
    then have "is_digit c" using show_nat_digits [of i] False by simp
    then have "c \<noteq> CHR ''-''" "c \<noteq> CHR ''+''"
      using minus_not_digit plus_not_digit by auto
    moreover have "py_nat (c # cs) = Some i"
      using py_nat_show_nat [of i] c False by (simp del: py_nat.simps)
    ultimately show ?thesis using s c False
      by (simp add: py_int_def show_int_def del: py_nat.simps)
  qed
qed

lemma eq_not_digit: "\<not> is_digit CHR ''=''"
  by (simp add: is_digit_def)

lemma eq_not_in_show_int: "CHR ''='' \<notin> set (show_int i)"
  using show_nat_digits [of i] show_nat_digits [of "- i"] eq_not_digit by (auto simp: show_int_def)

lemma show_nat_list_all: "0 \<le> n \<Longrightarrow> list_all is_digit (show_nat n)"
  using show_nat_digits by (simp add: list_all_iff)

lemma py_int_show_nat: "0 \<le> n \<Longrightarrow> py_int (show_nat n) = Some n"
  using py_int_show_int [of n] by (simp add: show_int_def)

end
