(* ===== verification/PyFloat.thy ===== *)
theory PyFloat
  imports Complex_Main PyInt
begin

text \<open>
  Python's floats: IEEE binary64. A finite float is its exact rational value; every
  arithmetic operation computes the exact result and rounds it to the nearest
  representable number, ties to even, with gradual underflow and overflow to infinity.
  The sign of zero is not kept: no modelled code looks at it other than by printing.
  Conversion of an integer of 1024 bits or more gives infinity where CPython raises an
  OverflowError.
\<close>

datatype pyfloat = Fin rat | PInf | NInf | NaN

subsection \<open>Rounding\<close>

definition pow2 :: "int \<Rightarrow> rat" where
  "pow2 e = (if 0 \<le> e then 2 ^ nat e else 1 / 2 ^ nat (- e))"

function nlog2 :: "int \<Rightarrow> int" where
  "nlog2 n = (if n < 2 then 0 else nlog2 (n div 2) + 1)"
  by pat_completeness auto
termination
  by (relation "measure nat") auto

declare nlog2.simps [simp del]

text \<open>The exponent of the leading binary digit of a positive number.\<close>

definition rat_ilog2 :: "rat \<Rightarrow> int" where
  "rat_ilog2 x = (if 1 \<le> x then nlog2 \<lfloor>x\<rfloor> else - (nlog2 (\<lceil>1 / x\<rceil> - 1) + 1))"

definition round_half_even :: "rat \<Rightarrow> int" where
  "round_half_even q = (let f = \<lfloor>q\<rfloor>; r = q - of_int f in
     if r < 1 / 2 then f else if 1 / 2 < r then f + 1 else if even f then f else f + 1)"

text \<open>The exponent of the last place of a positive number: 53 binary digits, at least -1074.\<close>

definition ulp_exp :: "rat \<Rightarrow> int" where
  "ulp_exp x = max (-1074) (rat_ilog2 x - 52)"

definition rnd_pos :: "rat \<Rightarrow> rat" where
  "rnd_pos x = of_int (round_half_even (x / pow2 (ulp_exp x))) * pow2 (ulp_exp x)"

definition rnd :: "rat \<Rightarrow> rat" where
  "rnd x = (if x = 0 then 0 else if 0 < x then rnd_pos x else - rnd_pos (- x))"

text \<open>The first power of two beyond the range, with its digits for evaluation.\<close>

definition huge :: rat where
  "huge = 2 ^ 1024"

lemma huge_code [code]: "huge = 0x10000000000000000000000000000000000000000000000000000000000000000000000000000000000000000000000000000000000000000000000000000000000000000000000000000000000000000000000000000000000000000000000000000000000000000000000000000000000000000000000000000000000000000"
  by (simp add: huge_def)

definition to_float :: "rat \<Rightarrow> pyfloat" where
  "to_float x = (let y = rnd x in
     if huge \<le> y then PInf else if y \<le> - huge then NInf else Fin y)"

definition float_of_int :: "int \<Rightarrow> pyfloat" where
  "float_of_int n = to_float (of_int n)"

subsection \<open>Arithmetic and comparison\<close>

fun fneg :: "pyfloat \<Rightarrow> pyfloat" where
  "fneg (Fin x) = Fin (- x)"
| "fneg PInf = NInf"
| "fneg NInf = PInf"
| "fneg NaN = NaN"

fun fadd :: "pyfloat \<Rightarrow> pyfloat \<Rightarrow> pyfloat" where
  "fadd (Fin x) (Fin y) = to_float (x + y)"
| "fadd NaN _ = NaN"
| "fadd _ NaN = NaN"
| "fadd PInf NInf = NaN"
| "fadd NInf PInf = NaN"
| "fadd PInf _ = PInf"
| "fadd NInf _ = NInf"
| "fadd _ PInf = PInf"
| "fadd _ NInf = NInf"

definition fsub :: "pyfloat \<Rightarrow> pyfloat \<Rightarrow> pyfloat" where
  "fsub a b = fadd a (fneg b)"

definition finf :: "bool \<Rightarrow> pyfloat" where
  "finf neg = (if neg then NInf else PInf)"

fun fmul :: "pyfloat \<Rightarrow> pyfloat \<Rightarrow> pyfloat" where
  "fmul (Fin x) (Fin y) = to_float (x * y)"
| "fmul NaN _ = NaN"
| "fmul _ NaN = NaN"
| "fmul (Fin x) b = (if x = 0 then NaN else finf ((x < 0) \<noteq> (b = NInf)))"
| "fmul a (Fin y) = (if y = 0 then NaN else finf ((y < 0) \<noteq> (a = NInf)))"
| "fmul a b = finf ((a = NInf) \<noteq> (b = NInf))"

text \<open>The quotient by a divisor that is not zero, and \<open>a / b\<close>, which raises on zero.\<close>

fun fquot :: "pyfloat \<Rightarrow> pyfloat \<Rightarrow> pyfloat" where
  "fquot (Fin x) (Fin y) = to_float (x / y)"
| "fquot NaN _ = NaN"
| "fquot _ NaN = NaN"
| "fquot (Fin x) _ = Fin 0"
| "fquot a (Fin y) = finf ((a = NInf) \<noteq> (y < 0))"
| "fquot _ _ = NaN"

definition fdiv :: "pyfloat \<Rightarrow> pyfloat \<Rightarrow> pyfloat result" where
  "fdiv a b = (if b = Fin 0 then Inl ZeroDivisionError else Inr (fquot a b))"

text \<open>\<open>m / n\<close> on two integers rounds the exact quotient once; the divisor is not zero.\<close>

definition int_quot :: "int \<Rightarrow> int \<Rightarrow> pyfloat" where
  "int_quot m n = to_float (of_int m / of_int n)"

fun flt :: "pyfloat \<Rightarrow> pyfloat \<Rightarrow> bool" where
  "flt (Fin x) (Fin y) = (x < y)"
| "flt NaN _ = False"
| "flt _ NaN = False"
| "flt a b = (a \<noteq> b \<and> (a = NInf \<or> b = PInf))"

definition feq :: "pyfloat \<Rightarrow> pyfloat \<Rightarrow> bool" where
  "feq a b \<longleftrightarrow> a \<noteq> NaN \<and> a = b"

definition fle :: "pyfloat \<Rightarrow> pyfloat \<Rightarrow> bool" where
  "fle a b \<longleftrightarrow> flt a b \<or> feq a b"

text \<open>\<open>max(a, b)\<close> and \<open>min(a, b)\<close> keep the first argument unless the second is better.\<close>

definition fmax :: "pyfloat \<Rightarrow> pyfloat \<Rightarrow> pyfloat" where
  "fmax a b = (if flt a b then b else a)"

definition fmin :: "pyfloat \<Rightarrow> pyfloat \<Rightarrow> pyfloat" where
  "fmin a b = (if flt b a then b else a)"

fun is_finite :: "pyfloat \<Rightarrow> bool" where
  "is_finite (Fin _) = True"
| "is_finite _ = False"

fun fval :: "pyfloat \<Rightarrow> rat" where
  "fval (Fin x) = x"
| "fval _ = 0"

text \<open>\<open>int(x)\<close> truncates; \<open>math.floor\<close>, \<open>math.ceil\<close> and \<open>round\<close> give integers too. Each raises
  on infinities (OverflowError) and nan (ValueError).\<close>

fun float_to_int :: "(rat \<Rightarrow> int) \<Rightarrow> pyfloat \<Rightarrow> int result" where
  "float_to_int f (Fin x) = Inr (f x)"
| "float_to_int f NaN = Inl ValueError"
| "float_to_int f _ = Inl OverflowError"

definition trunc :: "rat \<Rightarrow> int" where
  "trunc x = (if 0 \<le> x then \<lfloor>x\<rfloor> else \<lceil>x\<rceil>)"

abbreviation fint :: "pyfloat \<Rightarrow> int result" where
  "fint \<equiv> float_to_int trunc"

abbreviation fround :: "pyfloat \<Rightarrow> int result" where
  "fround \<equiv> float_to_int round_half_even"

text \<open>\<open>sum\<close> of floats, from the left, starting at the integer 0 (CPython up to 3.11; later
  versions compensate the rounding errors).\<close>

definition fsum :: "pyfloat list \<Rightarrow> pyfloat" where
  "fsum xs = foldl fadd (Fin 0) xs"

subsection \<open>Text\<close>

text \<open>\<open>f"{x:.kf}"\<close>: the exact value rounded to \<open>k\<close> decimals, half to even.\<close>

definition zero_pad :: "nat \<Rightarrow> string \<Rightarrow> string" where
  "zero_pad k s = replicate (k - length s) (CHR ''0'') @ s"

definition fmt_dec :: "nat \<Rightarrow> int \<Rightarrow> string" where
  "fmt_dec k n = (if k = 0 then show_nat n
     else show_nat (n div 10 ^ k) @ ''.'' @ zero_pad k (show_nat (n mod 10 ^ k)))"

fun fmt_fixed :: "nat \<Rightarrow> pyfloat \<Rightarrow> string" where
  "fmt_fixed k (Fin x) =
     (if x < 0 then ''-'' else []) @ fmt_dec k (round_half_even (\<bar>x\<bar> * 10 ^ k))"
| "fmt_fixed k PInf = ''inf''"
| "fmt_fixed k NInf = ''-inf''"
| "fmt_fixed k NaN = ''nan''"

text \<open>\<open>float(text)\<close>: sign, then inf, infinity or nan in any case, or digits with an optional
  fraction and exponent (at least one digit before the exponent); single underscores may
  stand between digits. The value read is rounded once. A ValueError is \<open>None\<close>.\<close>

fun take_digs :: "int \<Rightarrow> nat \<Rightarrow> string \<Rightarrow> int \<times> nat \<times> string" where
  "take_digs n k [] = (n, k, [])"
| "take_digs n k (c # cs) =
     (if is_digit c then take_digs (10 * n + dval c) (Suc k) cs
      else if c = CHR ''_'' \<and> 0 < k \<and> (case cs of [] \<Rightarrow> False | d # ds \<Rightarrow> is_digit d)
      then take_digs n k cs
      else (n, k, c # cs))"

definition lower_char :: "char \<Rightarrow> char" where
  "lower_char c = (let n = (of_char c :: nat) in if 65 \<le> n \<and> n \<le> 90 then char_of (n + 32) else c)"

definition parse_exp :: "string \<Rightarrow> int option" where
  "parse_exp s = (case s of [] \<Rightarrow> Some 0
     | e # es \<Rightarrow> if lower_char e \<noteq> CHR ''e'' then None
         else let (neg, ds) = (case es of [] \<Rightarrow> (False, [])
                  | c # cs \<Rightarrow> if c = CHR ''-'' then (True, cs) else if c = CHR ''+'' then (False, cs)
                             else (False, c # cs));
                  (n, k, rest) = take_digs 0 0 ds
              in if k = 0 \<or> rest \<noteq> [] then None else Some (if neg then - n else n))"

definition pow10 :: "int \<Rightarrow> rat" where
  "pow10 e = (if 0 \<le> e then 10 ^ nat e else 1 / 10 ^ nat (- e))"

definition parse_ufloat :: "string \<Rightarrow> (bool \<Rightarrow> pyfloat) option" where
  "parse_ufloat s =
     (let l = map lower_char s in
      if l = ''inf'' \<or> l = ''infinity'' then Some finf
      else if l = ''nan'' then Some (\<lambda>_. NaN)
      else let (n, k, r1) = take_digs 0 0 s;
               (m, j, r2) = (case r1 of [] \<Rightarrow> (n, 0, r1)
                  | c # cs \<Rightarrow> if c = CHR ''.'' then
                       (let (f, i, r) = take_digs 0 0 cs in (n * 10 ^ i + f, i, r)) else (n, 0, r1))
           in if k + j = 0 then None
              else (case parse_exp r2 of None \<Rightarrow> None
                | Some e \<Rightarrow> let x = rat_of_int m * pow10 (e - int j) in
                    Some (\<lambda>neg. to_float (if neg then - x else x))))"

definition py_float :: "string \<Rightarrow> pyfloat option" where
  "py_float s = (case strip s of [] \<Rightarrow> None
     | c # cs \<Rightarrow>
         if c = CHR ''-'' then map_option (\<lambda>f. f True) (parse_ufloat cs)
         else if c = CHR ''+'' then map_option (\<lambda>f. f False) (parse_ufloat cs)
         else map_option (\<lambda>f. f False) (parse_ufloat (c # cs)))"

end
