(* ===== verification/PyFloatProps.thy ===== *)
theory PyFloatProps
  imports PyFloat
begin

text \<open>
  Facts about rounding that the component proofs need: it is monotone, odd, and exact on
  the integers up to \<open>2 ^ 53\<close>; so a quotient of counts lies where the exact one does.
\<close>

named_theorems rnd_facts \<open>facts about binary64 rounding\<close>

subsection \<open>Powers of two\<close>

lemma pow2_pos [simp]: "0 < pow2 e"
  by (simp add: pow2_def)

lemma pow2_neq_0 [simp]: "pow2 e \<noteq> 0"
  using pow2_pos [of e] by linarith

lemma pow2_powi: "pow2 e = 2 powi e"
  by (simp add: pow2_def power_int_def inverse_eq_divide power_one_over)

lemma pow2_add: "pow2 (a + b) = pow2 a * pow2 b"
  by (simp add: pow2_powi power_int_add)

lemma pow2_nat [simp]: "pow2 (int n) = 2 ^ n"
  by (simp add: pow2_def)

lemma pow2_mono: "a \<le> b \<Longrightarrow> pow2 a \<le> pow2 b"
  by (simp add: pow2_powi power_int_increasing)

lemma pow2_minus: "pow2 (- e) = 1 / pow2 e"
  by (simp add: pow2_powi power_int_minus inverse_eq_divide)

lemma pow2_less_imp: "pow2 a < pow2 b \<Longrightarrow> a < b"
  using pow2_mono [of b a] by linarith

subsection \<open>The leading digit\<close>

lemma nlog2_nonneg: "0 \<le> nlog2 n"
proof (induction n rule: nlog2.induct)
  case (1 n)
  then show ?case by (simp add: nlog2.simps [of n])
qed

lemma nlog2_bounds: "0 < n \<Longrightarrow> 2 ^ nat (nlog2 n) \<le> n \<and> n < 2 ^ Suc (nat (nlog2 n))"
proof (induction n rule: nlog2.induct)
  case (1 n)
  show ?case
  proof (cases "n < 2")
    case True
    with 1 show ?thesis by (simp add: nlog2.simps [of n])
  next
    case False
    then have "2 ^ nat (nlog2 (n div 2)) \<le> n div 2 \<and> n div 2 < 2 ^ Suc (nat (nlog2 (n div 2)))"
      using 1 by simp
    then have "2 * 2 ^ nat (nlog2 (n div 2)) \<le> n" "n < 2 * 2 ^ Suc (nat (nlog2 (n div 2)))"
      by linarith+
    moreover have "nat (nlog2 n) = Suc (nat (nlog2 (n div 2)))"
      using False nlog2_nonneg [of "n div 2"] by (simp add: nlog2.simps [of n] nat_add_distrib)
    ultimately show ?thesis by simp
  qed
qed

lemma pow2_nlog2:
  "pow2 (nlog2 n) = 2 ^ nat (nlog2 n)" "pow2 (nlog2 n + 1) = 2 ^ Suc (nat (nlog2 n))"
  using nlog2_nonneg [of n] by (simp_all add: pow2_def nat_add_distrib)

lemma rat_ilog2_ge1:
  assumes "1 \<le> x"
  shows "pow2 (rat_ilog2 x) \<le> x \<and> x < pow2 (rat_ilog2 x + 1)"
proof -
  let ?k = "nat (nlog2 \<lfloor>x\<rfloor>)"
  have "0 < \<lfloor>x\<rfloor>" using assms by simp
  then have "2 ^ ?k \<le> \<lfloor>x\<rfloor>" "\<lfloor>x\<rfloor> < 2 ^ Suc ?k" using nlog2_bounds by blast+
  then have "(2::rat) ^ ?k \<le> x" "x < 2 ^ Suc ?k"
    by (simp_all add: le_floor_iff floor_less_iff)
  then show ?thesis using assms by (simp add: rat_ilog2_def pow2_nlog2)
qed

lemma rat_ilog2_lt1:
  assumes "0 < x" "x < 1"
  shows "pow2 (rat_ilog2 x) \<le> x \<and> x < pow2 (rat_ilog2 x + 1)"
proof -
  let ?m = "\<lceil>1 / x\<rceil> - 1" let ?k = "nat (nlog2 ?m)"
  have "1 < 1 / x" using assms by simp
  then have "0 < ?m" by linarith
  then have "2 ^ ?k \<le> ?m" "?m < 2 ^ Suc ?k" using nlog2_bounds by blast+
  then have "(2::int) ^ ?k < \<lceil>1 / x\<rceil>" "\<lceil>1 / x\<rceil> \<le> (2::int) ^ Suc ?k" by auto
  then have b: "(2::rat) ^ ?k < 1 / x" "1 / x \<le> 2 ^ Suc ?k"
    by (simp_all add: less_ceiling_iff ceiling_le_iff)
  have e: "rat_ilog2 x = - (nlog2 ?m + 1)" using assms by (simp add: rat_ilog2_def)
  have "1 / 2 ^ Suc ?k \<le> x" using b(2) assms(1) by (simp add: field_simps)
  moreover have "x < 1 / 2 ^ ?k" using b(1) assms(1) by (simp add: field_simps)
  moreover have "pow2 (rat_ilog2 x) = 1 / 2 ^ Suc ?k"
    unfolding e pow2_minus pow2_nlog2 by simp
  moreover have "pow2 (rat_ilog2 x + 1) = 1 / 2 ^ ?k"
  proof -
    have "rat_ilog2 x + 1 = - nlog2 ?m" unfolding e by simp
    then show ?thesis by (simp only: pow2_minus pow2_nlog2)
  qed
  ultimately show ?thesis by simp
qed

lemma rat_ilog2_bounds:
  "0 < x \<Longrightarrow> pow2 (rat_ilog2 x) \<le> x \<and> x < pow2 (rat_ilog2 x + 1)"
  using rat_ilog2_ge1 rat_ilog2_lt1 by (cases "1 \<le> x") auto

lemma rat_ilog2_mono: "0 < x \<Longrightarrow> x \<le> y \<Longrightarrow> rat_ilog2 x \<le> rat_ilog2 y"
  using rat_ilog2_bounds [of x] rat_ilog2_bounds [of y]
    pow2_less_imp [of "rat_ilog2 x" "rat_ilog2 y + 1"] by linarith

lemma ulp_exp_mono: "0 < x \<Longrightarrow> x \<le> y \<Longrightarrow> ulp_exp x \<le> ulp_exp y"
  using rat_ilog2_mono [of x y] by (auto simp: ulp_exp_def)

subsection \<open>Rounding to an integer\<close>

lemma round_half_even_of_int [simp]: "round_half_even (of_int n) = n"
  by (simp add: round_half_even_def)

lemma round_half_even_floor:
  "\<lfloor>q\<rfloor> \<le> round_half_even q" "round_half_even q \<le> \<lfloor>q\<rfloor> + 1"
  by (simp_all add: round_half_even_def Let_def)

lemma round_half_even_ge: "of_int n \<le> q \<Longrightarrow> n \<le> round_half_even q"
  using round_half_even_floor(1) [of q] by (simp add: le_floor_iff [symmetric])

lemma round_half_even_mono: "p \<le> q \<Longrightarrow> round_half_even p \<le> round_half_even q"
proof (cases "\<lfloor>p\<rfloor> = \<lfloor>q\<rfloor>")
  case True
  assume "p \<le> q"
  with True show ?thesis by (auto simp: round_half_even_def Let_def)
next
  case False
  assume "p \<le> q"
  then have "\<lfloor>p\<rfloor> + 1 \<le> \<lfloor>q\<rfloor>" using False floor_mono [of p q] by linarith
  then show ?thesis
    using round_half_even_floor(2) [of p] round_half_even_floor(1) [of q] by linarith
qed

lemma round_half_even_le: "q \<le> of_int n \<Longrightarrow> round_half_even q \<le> n"
  using round_half_even_mono [of q "of_int n"] by simp

subsection \<open>Rounding to binary64\<close>

lemma rnd_pos_nonneg:
  assumes "0 < x"
  shows "0 \<le> rnd_pos x"
proof -
  have "0 \<le> x / pow2 (ulp_exp x)" by (rule divide_nonneg_pos) (use assms in simp_all)
  then have "0 \<le> round_half_even (x / pow2 (ulp_exp x))"
    using round_half_even_ge [of 0 "x / pow2 (ulp_exp x)"] by simp
  then show ?thesis unfolding rnd_pos_def by (intro mult_nonneg_nonneg) (simp_all add: less_imp_le)
qed

lemma rnd_pos_le_binade:
  assumes "0 < x"
  shows "rnd_pos x \<le> pow2 (ulp_exp x + 53)"
proof -
  have "x < pow2 (rat_ilog2 x + 1)" using rat_ilog2_bounds [OF assms] by blast
  also have "\<dots> \<le> pow2 (ulp_exp x + 53)" by (rule pow2_mono) (simp add: ulp_exp_def)
  also have "\<dots> = 2 ^ 53 * pow2 (ulp_exp x)" by (simp add: pow2_add pow2_def [of 53])
  finally have "x / pow2 (ulp_exp x) \<le> of_int (2 ^ 53)" by (simp add: divide_le_eq)
  then have "round_half_even (x / pow2 (ulp_exp x)) \<le> 2 ^ 53" by (rule round_half_even_le)
  then have "rat_of_int (round_half_even (x / pow2 (ulp_exp x))) \<le> 2 ^ 53"
    by (metis of_int_le_iff of_int_numeral of_int_power)
  then show ?thesis
    by (simp add: rnd_pos_def pow2_add pow2_def [of 53] mult_right_mono mult.commute)
qed

lemma rnd_pos_ge_binade:
  assumes "0 < x" "-1074 < ulp_exp x"
  shows "pow2 (ulp_exp x + 52) \<le> rnd_pos x"
proof -
  have e: "ulp_exp x = rat_ilog2 x - 52" using assms(2) by (simp add: ulp_exp_def split: if_splits)
  then have "pow2 (ulp_exp x + 52) \<le> x" using rat_ilog2_bounds [OF assms(1)] by simp
  then have "2 ^ 52 * pow2 (ulp_exp x) \<le> x" by (simp add: pow2_add pow2_def [of 52] mult.commute)
  then have "of_int (2 ^ 52) \<le> x / pow2 (ulp_exp x)" by (simp add: le_divide_eq)
  then have "2 ^ 52 \<le> round_half_even (x / pow2 (ulp_exp x))" by (rule round_half_even_ge)
  then have "2 ^ 52 \<le> rat_of_int (round_half_even (x / pow2 (ulp_exp x)))"
    by (metis of_int_le_iff of_int_numeral of_int_power)
  then show ?thesis
    by (simp add: rnd_pos_def pow2_add pow2_def [of 52] mult_right_mono mult.commute)
qed

lemma rnd_pos_mono:
  assumes "0 < x" "x \<le> y"
  shows "rnd_pos x \<le> rnd_pos y"
proof (cases "ulp_exp x = ulp_exp y")
  case True
  have "x / pow2 (ulp_exp y) \<le> y / pow2 (ulp_exp y)"
    using assms(2) by (simp add: divide_right_mono less_imp_le)
  then show ?thesis using True
    by (simp add: rnd_pos_def round_half_even_mono mult_right_mono less_imp_le)
next
  case False
  then have lt: "ulp_exp x + 1 \<le> ulp_exp y" using ulp_exp_mono [OF assms] by linarith
  then have "-1074 < ulp_exp y" by (simp add: ulp_exp_def)
  then have "pow2 (ulp_exp y + 52) \<le> rnd_pos y" using assms by (intro rnd_pos_ge_binade) auto
  moreover have "rnd_pos x \<le> pow2 (ulp_exp x + 53)" using assms(1) by (rule rnd_pos_le_binade)
  moreover have "pow2 (ulp_exp x + 53) \<le> pow2 (ulp_exp y + 52)" using lt by (intro pow2_mono) simp
  ultimately show ?thesis by linarith
qed

lemma rnd_0 [simp]: "rnd 0 = 0"
  by (simp add: rnd_def)

lemma rnd_minus [simp]: "rnd (- x) = - rnd x"
  by (simp add: rnd_def)

lemma rnd_mono [rnd_facts]: "x \<le> y \<Longrightarrow> rnd x \<le> rnd y"
  using rnd_pos_mono [of x y] rnd_pos_mono [of "- y" "- x"]
    rnd_pos_nonneg [of y] rnd_pos_nonneg [of "- x"]
  by (auto simp: rnd_def)

text \<open>Numbers with at most 53 significant bits above the smallest exponent are exact.\<close>

lemma rnd_pos_scaled:
  assumes "0 < x" "x = of_int m * pow2 k" "ulp_exp x \<le> k"
  shows "rnd_pos x = x"
proof -
  have "x / pow2 (ulp_exp x) = of_int m * pow2 (k - ulp_exp x)"
    using assms(2) by (simp add: pow2_powi power_int_diff)
  also have "\<dots> = of_int (m * 2 ^ nat (k - ulp_exp x))"
    using assms(3) by (simp add: pow2_def)
  finally have "round_half_even (x / pow2 (ulp_exp x)) = m * 2 ^ nat (k - ulp_exp x)"
    "x / pow2 (ulp_exp x) = of_int (m * 2 ^ nat (k - ulp_exp x))"
    by (simp_all only: round_half_even_of_int)
  then show ?thesis unfolding rnd_pos_def by (metis nonzero_eq_divide_eq pow2_neq_0)
qed

lemma rnd_int_pos:
  assumes "0 < n" "n \<le> 2 ^ 53"
  shows "rnd (of_int n) = of_int n"
proof -
  let ?x = "rat_of_int n"
  have pos: "0 < ?x" using assms(1) by simp
  have "rnd_pos ?x = ?x"
  proof (cases "n = 2 ^ 53")
    case True
    have "pow2 (rat_ilog2 ?x) \<le> ?x" using rat_ilog2_bounds [OF pos] by blast
    also have "\<dots> < pow2 54" using True by (simp add: pow2_def)
    finally have "rat_ilog2 ?x < 54" by (rule pow2_less_imp)
    then have "ulp_exp ?x \<le> 1" by (simp add: ulp_exp_def)
    moreover have "?x = of_int (2 ^ 52) * pow2 1" using True by (simp add: pow2_def)
    ultimately show ?thesis using pos by (intro rnd_pos_scaled) auto
  next
    case False
    then have "?x < 2 ^ 53" using assms(2) by (metis le_neq_trans of_int_less_iff of_int_numeral of_int_power)
    then have "pow2 (rat_ilog2 ?x) < pow2 53"
      using rat_ilog2_bounds [OF pos] by (simp add: pow2_def [of 53])
    then have "ulp_exp ?x \<le> 0" using pow2_less_imp [of "rat_ilog2 ?x" 53] by (simp add: ulp_exp_def)
    moreover have "?x = of_int n * pow2 0" by (simp add: pow2_def)
    ultimately show ?thesis using pos by (intro rnd_pos_scaled) auto
  qed
  then show ?thesis using pos by (simp add: rnd_def)
qed

lemma rnd_int [rnd_facts]: "\<bar>n\<bar> \<le> 2 ^ 53 \<Longrightarrow> rnd (of_int n) = of_int n"
  using rnd_int_pos [of n] rnd_int_pos [of "- n"]
  by (cases "n = 0"; cases "0 < n") auto

lemma rnd_1 [simp]: "rnd 1 = 1"
  using rnd_int [of 1] by simp

lemma rnd_between_ints:
  "of_int a \<le> x \<Longrightarrow> x \<le> of_int b \<Longrightarrow> \<bar>a\<bar> \<le> 2 ^ 53 \<Longrightarrow> \<bar>b\<bar> \<le> 2 ^ 53 \<Longrightarrow>
   of_int a \<le> rnd x \<and> rnd x \<le> of_int b"
  using rnd_mono [of "of_int a" x] rnd_mono [of x "of_int b"] by (simp add: rnd_int)

lemma to_float_between_ints:
  assumes "of_int a \<le> x" "x \<le> of_int b" "\<bar>a\<bar> \<le> 2 ^ 53" "\<bar>b\<bar> \<le> 2 ^ 53"
  shows "to_float x = Fin (rnd x)"
proof -
  have r: "of_int a \<le> rnd x" "rnd x \<le> of_int b" using rnd_between_ints [OF assms] by blast+
  have "(2::rat) ^ 53 < 2 ^ 1024" by simp
  moreover have "rat_of_int b \<le> 2 ^ 53" "- (2 ^ 53) \<le> rat_of_int a"
    using assms(3,4) by (metis abs_le_D1 of_int_le_iff of_int_numeral of_int_power)
       (metis abs_le_iff minus_le_iff of_int_le_iff of_int_minus of_int_numeral of_int_power assms(3))
  ultimately show ?thesis using r unfolding to_float_def huge_def Let_def by auto
qed

lemma float_of_int_exact [rnd_facts]: "\<bar>n\<bar> \<le> 2 ^ 53 \<Longrightarrow> float_of_int n = Fin (of_int n)"
  using to_float_between_ints [of n "of_int n" n] by (simp add: float_of_int_def rnd_int)

lemma round_half_even_error: "\<bar>of_int (round_half_even q) - q\<bar> \<le> 1 / 2"
proof -
  have "0 \<le> q - of_int \<lfloor>q\<rfloor>" "q - of_int \<lfloor>q\<rfloor> < 1" by linarith+
  then show ?thesis by (simp add: round_half_even_def Let_def abs_le_iff)
qed

lemma rnd_pos_error: "0 < x \<Longrightarrow> \<bar>rnd x - x\<bar> \<le> pow2 (ulp_exp x) / 2"
proof -
  assume x: "0 < x"
  let ?u = "pow2 (ulp_exp x)"
  have "rnd x - x = (of_int (round_half_even (x / ?u)) - x / ?u) * ?u"
    using x by (simp add: rnd_def rnd_pos_def left_diff_distrib)
  then have "\<bar>rnd x - x\<bar> = \<bar>of_int (round_half_even (x / ?u)) - x / ?u\<bar> * ?u"
    by (simp add: abs_mult abs_of_pos [OF pow2_pos])
  also have "\<dots> \<le> (1 / 2) * ?u"
    by (rule mult_right_mono [OF round_half_even_error]) (simp add: less_imp_le)
  finally show ?thesis by simp
qed

lemma rnd_error_bound:
  assumes "0 < x" "x < 2 ^ k" "k \<le> 53"
  shows "\<bar>rnd x - x\<bar> \<le> 2 ^ k / 2 ^ 54"
proof -
  have "pow2 (rat_ilog2 x) < pow2 (int k)" using rat_ilog2_bounds [OF assms(1)] assms(2) by simp
  then have "rat_ilog2 x < int k" by (rule pow2_less_imp)
  then have "ulp_exp x \<le> int k - 53" by (simp add: ulp_exp_def)
  then have "pow2 (ulp_exp x) \<le> pow2 (int k - 53)" by (rule pow2_mono)
  also have "pow2 (int k - 53) = 2 ^ k / 2 ^ 53" 
    by (simp add: pow2_powi power_int_diff)
  finally show ?thesis using rnd_pos_error [OF assms(1)] by simp
qed

lemma rnd_pos_pos:
  assumes "0 < n" "n \<le> 2 ^ 53" "1 / of_int n \<le> x"
  shows "0 < rnd x"
proof -
  have p: "0 < pow2 (- 53)" by simp
  have "rat_ilog2 (pow2 (-53)) < - 52"
    using rat_ilog2_bounds [OF p] by (intro pow2_less_imp) (simp add: pow2_def)
  then have "rnd_pos (pow2 (- 53)) = pow2 (- 53)"
    by (intro rnd_pos_scaled [of _ 1 "- 53"]) (auto simp: ulp_exp_def)
  then have "rnd (pow2 (- 53)) = pow2 (- 53)" by (simp add: rnd_def)
  moreover have "pow2 (- 53) \<le> x"
  proof -
    have "rat_of_int n \<le> 2 ^ 53" using assms(2) by (metis of_int_le_iff of_int_numeral of_int_power)
    then have "1 / 2 ^ 53 \<le> 1 / rat_of_int n" using assms(1) by (intro divide_left_mono) auto
    then show ?thesis using assms(3) by (simp add: pow2_def)
  qed
  ultimately show ?thesis using rnd_mono [of "pow2 (- 53)" x] p by linarith
qed

text \<open>Rounding a number with two decimals does not move it past an integer.\<close>

lemma rnd_hundredths:
  assumes "0 \<le> a" "a \<le> 2 ^ 40"
  shows "\<lfloor>rnd (of_int a / 100)\<rfloor> = a div 100 \<and>
    \<lceil>rnd (of_int a / 100)\<rceil> = (if 100 dvd a then a div 100 else a div 100 + 1)"
proof (cases "100 dvd a")
  case True
  then obtain k where k: "a = 100 * k" by auto
  then have "of_int a / 100 = (of_int k :: rat)" by simp
  moreover have "\<bar>k\<bar> \<le> 2 ^ 53" using k assms by simp
  ultimately show ?thesis using k rnd_int [of k] by simp
next
  case False
  let ?x = "rat_of_int a / 100" let ?q = "a div 100"
  have m: "1 \<le> a mod 100" "a mod 100 \<le> 99"
    using False by (simp_all add: dvd_eq_mod_eq_0 pos_mod_sign pos_mod_bound int_one_le_iff_zero_less order_le_neq_trans)
  have a: "a = 100 * ?q + a mod 100" by simp
  then have "?x = of_int ?q + of_int (a mod 100) / 100"
    by (metis (no_types, lifting) add_divide_distrib nonzero_mult_div_cancel_left of_int_add of_int_mult of_int_numeral zero_neq_numeral)
  moreover have "1 \<le> rat_of_int (a mod 100)" "rat_of_int (a mod 100) \<le> 99" using m by (simp, linarith)
  ultimately have x: "of_int ?q + 1 / 100 \<le> ?x" "?x \<le> of_int ?q + 99 / 100" by simp_all
  have "0 < a" using False assms(1) by (cases "a = 0") auto
  moreover have "rat_of_int a \<le> 2 ^ 40" using assms(2) by (metis of_int_le_iff of_int_numeral of_int_power)
  ultimately have "\<bar>rnd ?x - ?x\<bar> \<le> 2 ^ 41 / 2 ^ 54" by (intro rnd_error_bound) simp_all
  then have "\<bar>rnd ?x - ?x\<bar> < 1 / 100" by simp
  then have "of_int ?q < rnd ?x" "rnd ?x < of_int ?q + 1" using x by linarith+
  then have "\<lfloor>rnd ?x\<rfloor> = ?q" "\<lceil>rnd ?x\<rceil> = ?q + 1" by linarith+
  then show ?thesis using False by simp
qed

end
