(* ===== verification/TraceKV.thy ===== *)
theory TraceKV
  imports PyFloatProps
begin

text \<open>
  The key=value trace lines of the SIRD scripts: the parsers that every script carries a copy
  of, the packet-state counter (scripts/count_sird_pkt_state.py), and the row loaders that
  scripts/lab1_plot.py and scripts/plot_link_throughput.py build on them. A trace file is the
  list of lines that iterating over the open file yields, or \<open>None\<close> when it does not exist.
\<close>

type_synonym fields = "(string, string) dict"
type_synonym trace = "string list option"

subsection \<open>Parsers\<close>

text \<open>One token of a line: ignored without an equals sign, else split at the first one.\<close>

definition kv_step :: "string \<Rightarrow> fields \<Rightarrow> fields" where
  "kv_step tok f = (case split_once CHR ''='' tok of None \<Rightarrow> f | Some (k, v) \<Rightarrow> dset k v f)"

definition count_parse_fields :: "string \<Rightarrow> fields" where
  "count_parse_fields line = fold kv_step (split_ws (strip line)) []"

definition link_parse_fields :: "string \<Rightarrow> fields" where
  "link_parse_fields line = fold kv_step (split_ws (strip line)) []"

definition lab2_parse_kv_fields :: "string list \<Rightarrow> fields" where
  "lab2_parse_kv_fields tokens = fold kv_step tokens []"

definition t2t2_parse_kv_tokens :: "string list \<Rightarrow> fields" where
  "t2t2_parse_kv_tokens tokens = fold kv_step tokens []"

definition lab1_parse_kv_line :: "string \<Rightarrow> int option \<times> fields" where
  "lab1_parse_kv_line line = (case split_ws line of
       [] \<Rightarrow> (None, [])
     | t # parts \<Rightarrow> (case py_int t of None \<Rightarrow> (None, []) | Some time_ns \<Rightarrow> (Some time_ns, fold kv_step parts [])))"

definition sim1_parse_kv_line :: "string \<Rightarrow> int option \<times> fields" where
  "sim1_parse_kv_line line = (case split_ws line of
       [] \<Rightarrow> (None, [])
     | t # parts \<Rightarrow> (case py_int t of None \<Rightarrow> (None, []) | Some time_ns \<Rightarrow> (Some time_ns, fold kv_step parts [])))"

definition bucket_parse_kv_line :: "string \<Rightarrow> fields" where
  "bucket_parse_kv_line line = (case split_ws (strip line) of
       [] \<Rightarrow> []
     | t # parts \<Rightarrow> fold kv_step parts [(''time_ns'', t)])"

text \<open>What a list of tokens assigns, in order.\<close>

definition assignments :: "string list \<Rightarrow> (string \<times> string) list" where
  "assignments toks = List.map_filter (split_once CHR ''='') toks"

text \<open>The text the traces are written with.\<close>

definition render_kv :: "string \<times> string \<Rightarrow> string" where
  "render_kv p = fst p @ ''='' @ snd p"

definition render_line :: "int \<Rightarrow> (string \<times> string) list \<Rightarrow> string" where
  "render_line t kvs = join '' '' (show_int t # map render_kv kvs)"

lemma fold_kv_step:
  "fold kv_step toks d = fold (\<lambda>p. dset (fst p) (snd p)) (assignments toks) d"
  by (induction toks arbitrary: d)
     (auto simp: assignments_def kv_step_def map_filter_simps split: option.splits)

text \<open>A key holds the value of its last assignment.\<close>

lemma dget_fold_kv_step:
  "dget (fold kv_step toks []) k = map_of (rev (assignments toks)) k"
  by (simp add: fold_kv_step pyd.lookup_fold_upd dict_simps split: option.splits)

lemma wf_fold_kv_step: "dict_wf d \<Longrightarrow> dict_wf (fold kv_step toks d)"
  by (simp add: fold_kv_step pyd.wf_fold_upd)

lemma assignments_render:
  "\<forall>p\<in>set kvs. CHR ''='' \<notin> set (fst p) \<Longrightarrow> assignments (map render_kv kvs) = kvs"
  by (induction kvs) (auto simp: assignments_def map_filter_simps render_kv_def)

lemma render_kv_token:
  "is_token (render_kv p) \<longleftrightarrow> (\<forall>c\<in>set (fst p) \<union> set (snd p). \<not> py_ws c)"
  by (auto simp: is_token_def render_kv_def py_ws_def)

text \<open>C1: Parsing is the inverse of writing: a line that starts with a time and goes on with
  key=value fields, keys distinct and without an equals sign, nothing with white space in it,
  is read back as exactly that time and those fields in that order, by the parser of lab1 and
  by its copy in sim1.\<close>

theorem parse_kv_line_render:
  assumes "distinct (map fst kvs)"
    and "\<forall>p\<in>set kvs. CHR ''='' \<notin> set (fst p) \<and> (\<forall>c\<in>set (fst p) \<union> set (snd p). \<not> py_ws c)"
  shows "lab1_parse_kv_line (render_line t kvs) = (Some t, kvs)
       \<and> sim1_parse_kv_line (render_line t kvs) = (Some t, kvs)"
proof -
  have "\<forall>x\<in>set (show_int t # map render_kv kvs). is_token x"
    using assms(2) show_int_token by (auto simp: render_kv_token)
  then have "split_ws (render_line t kvs) = show_int t # map render_kv kvs"
    unfolding render_line_def by (rule split_ws_join)
  moreover have "fold kv_step (map render_kv kvs) [] = kvs"
    using assms by (simp add: fold_kv_step assignments_render fold_dset_fresh dkeys_def)
  ultimately show ?thesis by (simp add: lab1_parse_kv_line_def sim1_parse_kv_line_def)
qed

theorem parse_kv_line_render_witness:
  "lab1_parse_kv_line (render_line 1200 [(''queue'', ''q0''), (''packets'', ''3'')]) =
     (Some 1200, [(''queue'', ''q0''), (''packets'', ''3'')])"
proof -
  have "distinct (map fst [(''queue'', ''q0''), (''packets'', ''3'')])" by simp
  moreover have "\<forall>p\<in>set [(''queue'', ''q0''), (''packets'', ''3'')].
      CHR ''='' \<notin> set (fst p) \<and> (\<forall>c\<in>set (fst p) \<union> set (snd p). \<not> py_ws c)"
    by (simp add: py_ws_def)
  ultimately show ?thesis using parse_kv_line_render by blast
qed

lemma dget_bucket_fields:
  "dget (fold kv_step parts [(t, v)]) k =
     (case dget (fold kv_step parts []) k of Some w \<Rightarrow> Some w
      | None \<Rightarrow> if k = t then Some v else None)"
proof -
  have "\<And>k. dget [(t, v)] k = (if k = t then Some v else None)" by (simp add: dget_def)
  then show ?thesis
    unfolding dget_fold_kv_step by (simp add: fold_kv_step pyd.lookup_fold_upd split: option.splits)
qed

lemma bucket_shadow:
  assumes "lab1_parse_kv_line line = (Some t, f)"
  shows "dget (bucket_parse_kv_line line) k =
      (case dget f k of Some v \<Rightarrow> Some v
       | None \<Rightarrow> if k = ''time_ns'' then Some (hd (split_ws line)) else None)"
proof -
  from assms obtain t' parts where p: "split_ws line = t' # parts" "f = fold kv_step parts []"
    by (auto simp: lab1_parse_kv_line_def split: list.splits option.splits)
  then show ?thesis using dget_bucket_fields [of parts "''time_ns''" t' k]
    by (simp add: bucket_parse_kv_line_def split_ws_strip split: option.splits)
qed

lemma lab1_parse_kv_line_None: "lab1_parse_kv_line line = (None, f) \<Longrightarrow> f = []"
  by (auto simp: lab1_parse_kv_line_def split: list.splits option.splits)

text \<open>Every copy of the parser reads the same fields: a lookup gives the text after the
  first equals sign of the last token that assigns the key, and the token after the time in the
  two-sender script shadows the time only if it is called \<open>time_ns\<close>.\<close>

theorem kv_parsers_agree:
  "dget (count_parse_fields line) k = map_of (rev (assignments (split_ws line))) k
   \<and> link_parse_fields line = count_parse_fields line
   \<and> count_parse_fields line = lab2_parse_kv_fields (split_ws line)
   \<and> t2t2_parse_kv_tokens toks = lab2_parse_kv_fields toks
   \<and> sim1_parse_kv_line line = lab1_parse_kv_line line
   \<and> (case lab1_parse_kv_line line of
         (Some t, f) \<Rightarrow> dget (bucket_parse_kv_line line) k =
           (case dget f k of Some v \<Rightarrow> Some v
            | None \<Rightarrow> if k = ''time_ns'' then Some (hd (split_ws line)) else None)
       | (None, f) \<Rightarrow> f = [])"
  using bucket_shadow [of line _ _ k] lab1_parse_kv_line_None [of line]
  by (cases "lab1_parse_kv_line line"; cases "fst (lab1_parse_kv_line line)")
     (simp_all add: count_parse_fields_def link_parse_fields_def lab2_parse_kv_fields_def
       t2t2_parse_kv_tokens_def sim1_parse_kv_line_def lab1_parse_kv_line_def
       dget_fold_kv_step split_ws_strip)

end
