(* ===== verification/Stats.thy ===== *)
theory Stats
  imports PyFloatProps
begin

text \<open>
  The statistics the plotting scripts compute: empirical distribution functions, percentiles
  with linear interpolation, means and moving averages. Each script has its own copy, modelled
  as it is written; the theorems say what they share and how the copies differ.
\<close>

subsection \<open>Sorting floats\<close>

text \<open>\<open>sorted\<close> on floats: stable insertion by the comparison \<open><\<close>. Without nan this is the
  order every stable sort gives; with nan Python leaves the order to its algorithm.\<close>

fun finsert :: "pyfloat \<Rightarrow> pyfloat list \<Rightarrow> pyfloat list" where
  "finsert x [] = [x]"
| "finsert x (y # ys) = (if flt y x then y # finsert x ys else x # y # ys)"

definition fsort :: "pyfloat list \<Rightarrow> pyfloat list" where
  "fsort xs = foldr finsert xs []"

lemma finsert_Fin: "finsert (Fin x) (map Fin ys) = map Fin (insort x ys)"
  by (induction ys) auto

lemma fsort_Fin: "fsort (map Fin xs) = map Fin (sort xs)"
  by (induction xs) (simp_all add: fsort_def finsert_Fin)

lemma finite_list: "\<forall>v\<in>set vs. is_finite v \<Longrightarrow> map Fin (map fval vs) = vs"
proof (induction vs)
  case (Cons v vs)
  then show ?case by (cases v) auto
qed simp

lemma length_finsert [simp]: "length (finsert x xs) = Suc (length xs)"
  by (induction xs) auto

lemma length_fsort [simp]: "length (fsort xs) = length xs"
  by (induction xs) (simp_all add: fsort_def)

lemma mset_fsort [simp]: "mset (fsort xs) = mset xs"
proof -
  have "mset (finsert x ys) = add_mset x (mset ys)" for x ys
    by (induction ys) auto
  then show ?thesis by (induction xs) (simp_all add: fsort_def)
qed

lemma fsort_finite:
  "\<forall>v\<in>set vs. is_finite v \<Longrightarrow> fsort vs = map Fin (sort (map fval vs))"
  using fsort_Fin [of "map fval vs"] finite_list [of vs] by simp

text \<open>\<open>sorted(xs, key=...)\<close> with a float key.\<close>

fun finsert_by :: "('a \<Rightarrow> pyfloat) \<Rightarrow> 'a \<Rightarrow> 'a list \<Rightarrow> 'a list" where
  "finsert_by key x [] = [x]"
| "finsert_by key x (y # ys) = (if flt (key y) (key x) then y # finsert_by key x ys else x # y # ys)"

definition fsort_by :: "('a \<Rightarrow> pyfloat) \<Rightarrow> 'a list \<Rightarrow> 'a list" where
  "fsort_by key xs = foldr (finsert_by key) xs []"

lemma flt_finite: "is_finite a \<Longrightarrow> is_finite b \<Longrightarrow> flt a b \<longleftrightarrow> fval a < fval b"
  by (cases a; cases b) auto

lemma finsert_by_insort:
  "\<forall>y\<in>insert x (set ys). is_finite (key y) \<Longrightarrow> finsert_by key x ys = insort_key (\<lambda>y. fval (key y)) x ys"
  by (induction ys) (auto simp: flt_finite)

lemma fsort_by_sort_key:
  "\<forall>y\<in>set ys. is_finite (key y) \<Longrightarrow> fsort_by key ys = sort_key (\<lambda>y. fval (key y)) ys"
proof (induction ys)
  case (Cons y ys)
  then show ?case using finsert_by_insort [of y "fsort_by key ys" key] by (simp add: fsort_by_def)
qed (simp add: fsort_by_def)

subsection \<open>Distribution functions\<close>

definition steps_up :: "nat \<Rightarrow> pyfloat list" where
  "steps_up n = map (\<lambda>i. int_quot (int i + 1) (int n)) [0..<n]"

definition lab1_cdf_points :: "pyfloat list \<Rightarrow> pyfloat list \<times> pyfloat list" where
  "lab1_cdf_points values = (let xs = fsort (filter is_finite values) in
     if xs = [] then ([], []) else (xs, steps_up (length xs)))"

definition t2t2_cdf_xy :: "pyfloat list \<Rightarrow> pyfloat list \<times> pyfloat list" where
  "t2t2_cdf_xy values = (let vals = fsort values in (vals, steps_up (length vals)))"

definition figs_ecdf :: "pyfloat list \<Rightarrow> pyfloat list \<times> pyfloat list" where
  "figs_ecdf values = (if values = [] then ([], [])
     else let vals = fsort values in (vals, steps_up (length vals)))"

text \<open>The two scripts of sird-scenarios get their values sorted and do not sort again.\<close>

definition fig3_cdf_xy :: "pyfloat list \<Rightarrow> pyfloat list \<times> pyfloat list" where
  "fig3_cdf_xy vals = (if vals = [] then ([], []) else (vals, steps_up (length vals)))"

definition micro_cdf_xy :: "pyfloat list \<Rightarrow> pyfloat list \<times> pyfloat list" where
  "micro_cdf_xy values = (if values = [] then ([], []) else (values, steps_up (length values)))"

subsection \<open>Percentiles\<close>

text \<open>The rank is \<open>(n - 1) * pct / 100.0\<close> for an integer \<open>pct\<close> (every call passes one), and
  \<open>(n - 1) * q\<close> for a float \<open>q\<close>.\<close>

definition interpolate :: "pyfloat list \<Rightarrow> pyfloat \<Rightarrow> pyfloat result" where
  "interpolate xs rank =
     bindR (float_to_int floor rank) (\<lambda>low. bindR (float_to_int ceiling rank) (\<lambda>high.
       if low = high then py_idx xs low
       else let frac = fsub rank (float_of_int low) in
         bindR (py_idx xs low) (\<lambda>a. bindR (py_idx xs high) (\<lambda>b.
           Inr (fadd (fmul a (fsub (Fin 1) frac)) (fmul b frac))))))"

definition lab1_percentile :: "pyfloat list \<Rightarrow> int \<Rightarrow> pyfloat option result" where
  "lab1_percentile values pct = (let xs = fsort (filter is_finite values) in
     case xs of [] \<Rightarrow> Inr None
     | [x] \<Rightarrow> Inr (Some x)
     | _ \<Rightarrow> bindR (interpolate xs (fquot (float_of_int ((int (length xs) - 1) * pct)) (Fin 100)))
              (\<lambda>v. Inr (Some v)))"

definition sim1_percentile :: "pyfloat list \<Rightarrow> int \<Rightarrow> pyfloat option result" where
  "sim1_percentile values pct = (let xs = fsort (filter is_finite values) in
     case xs of [] \<Rightarrow> Inr None
     | [x] \<Rightarrow> Inr (Some x)
     | _ \<Rightarrow> bindR (interpolate xs (fquot (float_of_int ((int (length xs) - 1) * pct)) (Fin 100)))
              (\<lambda>v. Inr (Some v)))"

definition t2t2_percentile :: "pyfloat list \<Rightarrow> pyfloat \<Rightarrow> pyfloat result" where
  "t2t2_percentile values q = (case values of [] \<Rightarrow> Inr NaN
     | [x] \<Rightarrow> Inr x
     | _ \<Rightarrow> (let vals = fsort values in
         interpolate vals (fmul (float_of_int (int (length vals) - 1)) q)))"

definition figs_percentile :: "pyfloat list \<Rightarrow> pyfloat \<Rightarrow> pyfloat result" where
  "figs_percentile values p = (case values of [] \<Rightarrow> Inr NaN
     | [x] \<Rightarrow> Inr x
     | _ \<Rightarrow> (let vals = fsort values in
         interpolate vals (fmul (float_of_int (int (length vals) - 1)) p)))"

subsection \<open>Means and moving averages\<close>

definition fmean :: "pyfloat list \<Rightarrow> pyfloat" where
  "fmean xs = fquot (fsum xs) (float_of_int (int (length xs)))"

definition sim1_mean :: "pyfloat list \<Rightarrow> pyfloat option" where
  "sim1_mean values = (let xs = filter is_finite values in
     if xs = [] then None else Some (fmean xs))"

text \<open>The summary of a list of samples: mean, 95th and 99th percentile.\<close>

record summary =
  s_mean :: pyfloat
  s_p95 :: pyfloat
  s_p99 :: pyfloat

definition dec :: "int \<Rightarrow> int \<Rightarrow> pyfloat" where
  "dec n d = to_float (of_int n / of_int d)"

definition t2t2_summarize :: "pyfloat list \<Rightarrow> summary result" where
  "t2t2_summarize values = (if values = [] then Inr \<lparr>s_mean = NaN, s_p95 = NaN, s_p99 = NaN\<rparr>
     else bindR (t2t2_percentile values (dec 95 100)) (\<lambda>p95.
          bindR (t2t2_percentile values (dec 99 100)) (\<lambda>p99.
            Inr \<lparr>s_mean = fmean values, s_p95 = p95, s_p99 = p99\<rparr>)))"

text \<open>One pass with a queue of the last \<open>window\<close> values and their running sum.\<close>

fun lab2_ma_step :: "int \<Rightarrow> pyfloat \<Rightarrow> pyfloat list \<times> pyfloat \<times> pyfloat list \<Rightarrow>
    pyfloat list \<times> pyfloat \<times> pyfloat list" where
  "lab2_ma_step window v (queue, running, res) = (
     let queue = queue @ [v];
         running = fadd running v;
         (queue, running) = (if window < int (length queue)
            then (tl queue, fsub running (hd queue)) else (queue, running))
     in (queue, running, res @ [fquot running (float_of_int (int (length queue)))]))"

definition lab2_moving_average :: "pyfloat list \<Rightarrow> int \<Rightarrow> pyfloat list" where
  "lab2_moving_average values window = (if window \<le> 1 then values
     else snd (snd (fold (lab2_ma_step window) values ([], Fin 0, []))))"

fun fig4_ma_step :: "int \<Rightarrow> pyfloat \<Rightarrow> pyfloat list \<times> pyfloat \<times> pyfloat list \<Rightarrow>
    pyfloat list \<times> pyfloat \<times> pyfloat list" where
  "fig4_ma_step win v (q, s, out) = (
     let q = q @ [v];
         s = fadd s v;
         (q, s) = (if win < int (length q) then (tl q, fsub s (hd q)) else (q, s))
     in (q, s, out @ [fquot s (float_of_int (int (length q)))]))"

definition fig4_moving_average :: "pyfloat list \<Rightarrow> int \<Rightarrow> pyfloat list" where
  "fig4_moving_average values win = (if win \<le> 1 then values
     else snd (snd (fold (fig4_ma_step win) values ([], Fin 0, []))))"

subsection \<open>What the copies share\<close>

lemma steps_up_Fin:
  assumes "int n \<le> 2 ^ 53"
  shows "steps_up n = map (\<lambda>i. Fin (rnd (of_int (int i + 1) / of_int (int n)))) [0..<n]"
proof -
  have "int_quot (int i + 1) (int n) = Fin (rnd (of_int (int i + 1) / of_int (int n)))" if "i < n" for i
  proof -
    have "of_int (int i + 1) / rat_of_int (int n) \<le> 1" using that by (simp add: divide_le_eq)
    then show ?thesis unfolding int_quot_def by (intro to_float_between_ints [of 0 _ 1]) simp_all
  qed
  then show ?thesis by (simp add: steps_up_def)
qed

lemma steps_up_props:
  assumes "0 < n" "int n \<le> 2 ^ 53"
  shows "\<exists>ys. steps_up n = map Fin ys \<and> sorted ys \<and> (\<forall>y\<in>set ys. 0 < y \<and> y \<le> 1) \<and> last ys = 1 \<and> length ys = n"
proof (intro exI conjI ballI)
  let ?f = "\<lambda>i. rnd (of_int (int i + 1) / of_int (int n))" let ?ys = "map ?f [0..<n]"
  show "steps_up n = map Fin ?ys" using steps_up_Fin [OF assms(2)] by simp
  show "sorted ?ys"
    by (auto simp: sorted_iff_nth_mono intro!: rnd_mono divide_right_mono)
  show "last ?ys = 1" using assms(1) by (simp add: last_map)
  show "length ?ys = n" by simp
  fix y assume "y \<in> set ?ys"
  then obtain i where i: "i < n" "y = ?f i" by auto
  have "1 / of_int (int n) \<le> of_int (int i + 1) / rat_of_int (int n)"
    by (rule divide_right_mono) simp_all
  then show "0 < y" unfolding i(2) using assms by (intro rnd_pos_pos [of "int n"]) simp_all
  have "of_int (int i + 1) / rat_of_int (int n) \<le> 1" using i(1) by (simp add: divide_le_eq)
  then show "y \<le> 1" unfolding i(2) using rnd_mono by fastforce
qed

text \<open>A distribution plotted by any of the five scripts is one: the abscissas are the values
  in order, the ordinates go up from above 0 to exactly 1, and the copies agree: the two that
  do not sort give the same curve when their input is sorted first.\<close>

theorem cdf_is_distribution:
  assumes "vs \<noteq> []" "\<forall>v\<in>set vs. is_finite v" "int (length vs) \<le> 2 ^ 53"
  shows "\<exists>xs ys. lab1_cdf_points vs = (map Fin xs, map Fin ys)
    \<and> sorted xs \<and> mset (map Fin xs) = mset vs
    \<and> sorted ys \<and> length ys = length xs \<and> (\<forall>y\<in>set ys. 0 < y \<and> y \<le> 1) \<and> last ys = 1
    \<and> figs_ecdf vs = (map Fin xs, map Fin ys) \<and> t2t2_cdf_xy vs = (map Fin xs, map Fin ys)
    \<and> fig3_cdf_xy (map Fin xs) = (map Fin xs, map Fin ys)
    \<and> micro_cdf_xy (map Fin xs) = (map Fin xs, map Fin ys)"
proof -
  let ?xs = "sort (map fval vs)"
  have s: "fsort vs = map Fin ?xs" using assms(2) by (rule fsort_finite)
  obtain ys where ys: "steps_up (length vs) = map Fin ys" "sorted ys"
    "\<forall>y\<in>set ys. 0 < y \<and> y \<le> 1" "last ys = 1" "length ys = length vs"
    using steps_up_props [of "length vs"] assms(1,3) by auto
  have "mset (map Fin ?xs) = mset vs" using mset_fsort [of vs] s by simp
  moreover have "filter is_finite vs = vs" using assms(2) by simp
  moreover have "?xs \<noteq> []" using assms(1) by (metis length_0_conv length_map length_sort)
  ultimately show ?thesis using s ys assms(1)
    by - (rule exI [of _ ?xs], rule exI [of _ ys],
       simp add: lab1_cdf_points_def figs_ecdf_def t2t2_cdf_xy_def fig3_cdf_xy_def micro_cdf_xy_def)
qed

theorem cdf_is_distribution_witness:
  "\<exists>xs ys. lab1_cdf_points [Fin 3, Fin 1] = (map Fin xs, map Fin ys) \<and> last ys = 1"
  using cdf_is_distribution [of "[Fin 3, Fin 1]"] by auto

lemma float_ratio_100:
  assumes "0 \<le> a" "a \<le> 2 ^ 40"
  shows "fquot (float_of_int a) (Fin 100) = Fin (rnd (of_int a / 100))"
proof -
  have "float_of_int a = Fin (of_int a)" using assms by (intro float_of_int_exact) simp
  moreover have "rat_of_int a / 100 \<le> of_int (2 ^ 40)"
    using assms by (simp add: divide_le_eq)
  then have "to_float (rat_of_int a / 100) = Fin (rnd (of_int a / 100))"
    using assms by (intro to_float_between_ints [of 0 _ "2 ^ 40"]) simp_all
  ultimately show ?thesis by simp
qed

lemma div_100_bounds:
  fixes a l :: int
  assumes "a \<le> l * 100"
  shows "a div 100 \<le> l" "a mod 100 \<noteq> 0 \<longrightarrow> a div 100 < l"
proof -
  show le: "a div 100 \<le> l" using zdiv_mono1 [OF assms, of 100] by simp
  have "a mod 100 \<le> 0" if "a div 100 = l"
    using assms that div_mult_mod_eq [of a 100] by simp
  then show "a mod 100 \<noteq> 0 \<longrightarrow> a div 100 < l"
    using le pos_mod_sign [of 100 a] by (metis le_less order_antisym_conv zero_less_numeral)
qed

lemma interpolate_hundredths:
  assumes "0 \<le> pct" "pct \<le> 100" "xs \<noteq> []" "(int (length xs) - 1) * pct \<le> 2 ^ 40"
  defines "a \<equiv> (int (length xs) - 1) * pct"
  shows "interpolate xs (fquot (float_of_int a) (Fin 100)) =
    (if 100 dvd a then Inr (xs ! nat (a div 100))
     else let frac = fsub (Fin (rnd (of_int a / 100))) (float_of_int (a div 100)) in
       Inr (fadd (fmul (xs ! nat (a div 100)) (fsub (Fin 1) frac))
                 (fmul (xs ! nat (a div 100 + 1)) frac)))"
proof -
  have a0: "0 \<le> a" using assms(1,3) unfolding a_def by (cases xs) auto
  have "a \<le> (int (length xs) - 1) * 100"
    unfolding a_def using assms(2,3) by (intro mult_left_mono) (cases xs; simp)+
  then have low: "a div 100 \<le> int (length xs) - 1" and
    high: "a mod 100 \<noteq> 0 \<longrightarrow> a div 100 < int (length xs) - 1"
    by (rule div_100_bounds)+
  from high have high: "a mod 100 \<noteq> 0 \<Longrightarrow> a div 100 + 1 < int (length xs)" by linarith
  show ?thesis
    using rnd_hundredths [of a] float_ratio_100 [of a] a0 assms(4) low high
    by (simp add: interpolate_def py_idx_def Let_def a_def [symmetric] pos_imp_zdiv_nonneg_iff dvd_eq_mod_eq_0)
qed

lemma interpolate_hundredths_ex:
  assumes "0 \<le> pct" "pct \<le> 100" "xs \<noteq> []" "(int (length xs) - 1) * pct \<le> 2 ^ 40"
  shows "\<exists>v. interpolate xs (fquot (float_of_int ((int (length xs) - 1) * pct)) (Fin 100)) = Inr v
    \<and> (100 dvd (int (length xs) - 1) * pct \<longrightarrow> v = xs ! nat ((int (length xs) - 1) * pct div 100))"
  unfolding interpolate_hundredths [OF assms] by (simp add: Let_def)

text \<open>The rounding error of a number of any size, and a number that does not overflow.\<close>

lemma rnd_error_abs: "\<bar>x\<bar> < 2 ^ k \<Longrightarrow> \<bar>rnd x - x\<bar> \<le> 2 ^ k / 2 ^ 54"
proof -
  have pos: "\<bar>rnd x - x\<bar> \<le> 2 ^ k / 2 ^ 54" if "0 < x" "x < 2 ^ k" for x
  proof -
    have "pow2 (rat_ilog2 x) < pow2 (int k)" using rat_ilog2_bounds [OF that(1)] that(2) by simp
    then have "rat_ilog2 x < int k" by (rule pow2_less_imp)
    then have "ulp_exp x \<le> int k - 53" by (simp add: ulp_exp_def)
    then have "pow2 (ulp_exp x) \<le> pow2 (int k - 53)" by (rule pow2_mono)
    also have "pow2 (int k - 53) = 2 ^ k / 2 ^ 53" by (simp add: pow2_powi power_int_diff)
    finally show ?thesis using rnd_pos_error [OF that(1)] by simp
  qed
  assume "\<bar>x\<bar> < 2 ^ k"
  moreover have "\<bar>rnd x - x\<bar> = \<bar>rnd (- x) - (- x)\<bar>" by (simp add: abs_minus_commute)
  ultimately show ?thesis using pos [of x] pos [of "- x"] by (cases "x = 0"; cases "0 < x") (simp_all add: abs_less_iff)
qed

lemma to_float_small:
  assumes "\<bar>x\<bar> < 2 ^ k" "k \<le> 1010"
  shows "to_float x = Fin (rnd x)"
proof -
  have "(2::rat) ^ k / 2 ^ 54 \<le> 2 ^ k" by simp
  then have r: "\<bar>rnd x\<bar> < 2 * 2 ^ k" using rnd_error_abs [OF assms(1)] assms(1) by linarith
  have "(2::rat) ^ Suc k \<le> 2 ^ 1024" using assms(2) by (intro power_increasing) simp_all
  then have "2 * 2 ^ k \<le> huge" by (simp only: huge_def power_Suc)
  then have "\<not> huge \<le> rnd x" "\<not> rnd x \<le> - huge" using r by linarith+
  then show ?thesis by (simp add: to_float_def Let_def)
qed

text \<open>Two values mixed by a weight, as the percentiles do it, against the exact mixture.\<close>

lemma mix_error:
  assumes "\<bar>x\<bar> < 2 ^ e" "\<bar>y\<bar> < 2 ^ e" "e \<le> 1000" "0 \<le> t" "t < 1"
  shows "\<exists>w. fadd (fmul (Fin x) (fsub (Fin 1) (Fin (rnd t)))) (fmul (Fin y) (Fin (rnd t))) = Fin w
    \<and> \<bar>w - (x * (1 - t) + y * t)\<bar> \<le> 2 ^ e / 2 ^ 50"
proof -
  define M where "M = (2::rat) ^ e"
  have M: "0 < M" "\<bar>x\<bar> < M" "\<bar>y\<bar> < M" using assms by (simp_all add: M_def)
  define f g p r where "f = rnd t" and "g = rnd (1 - f)" and "p = rnd (x * g)" and "r = rnd (y * f)"
  have f: "0 \<le> f" "f \<le> 1" using rnd_between_ints [of 0 t 1] assms(4,5) by (simp_all add: f_def)
  have g: "0 \<le> g" "g \<le> 1" using rnd_between_ints [of 0 "1 - f" 1] f by (simp_all add: g_def)
  have ef: "\<bar>f - t\<bar> \<le> 1 / 2 ^ 54" using rnd_error_abs [of t 0] assms(4,5) by (simp add: f_def)
  have eg: "\<bar>g - (1 - f)\<bar> \<le> 2 / 2 ^ 54" using rnd_error_abs [of "1 - f" 1] f by (simp add: g_def)
  have weighted: "\<bar>z * u\<bar> < M" if "\<bar>z\<bar> < M" "0 \<le> u" "u \<le> 1" for z u
    using mult_left_le [OF that(3) abs_ge_zero [of z]] that by (simp add: abs_mult)
  have xg: "\<bar>x * g\<bar> < M" and yf: "\<bar>y * f\<bar> < M" using weighted M f g by blast+
  have ep: "\<bar>p - x * g\<bar> \<le> M / 2 ^ 54" and er: "\<bar>r - y * f\<bar> \<le> M / 2 ^ 54"
    using rnd_error_abs [of "x * g" e] rnd_error_abs [of "y * f" e] xg yf by (simp_all add: p_def r_def M_def)
  have small: "M / 2 ^ 54 \<le> M" using M(1) by simp
  have "\<bar>p\<bar> < 2 * M" "\<bar>r\<bar> < 2 * M" using ep er xg yf small by linarith+
  then have "\<bar>p + r\<bar> < M * 4" by linarith
  then have pr: "\<bar>p + r\<bar> < 2 ^ (e + 2)" by (simp add: power_add M_def)
  have es: "\<bar>rnd (p + r) - (p + r)\<bar> \<le> M * 4 / 2 ^ 54" using rnd_error_abs [OF pr] by (simp add: power_add M_def)
  have ok: "fsub (Fin 1) (Fin f) = Fin g" "fmul (Fin x) (Fin g) = Fin p" "fmul (Fin y) (Fin f) = Fin r"
    "fadd (Fin p) (Fin r) = Fin (rnd (p + r))"
    using to_float_between_ints [of 0 "1 - f" 1] f to_float_small [of "x * g" e] to_float_small [of "y * f" e] to_float_small [OF pr] xg yf assms(3)
    by (simp_all add: fsub_def g_def p_def r_def M_def)
  have scaled: "\<bar>z * d\<bar> \<le> M * c" if "\<bar>z\<bar> < M" "\<bar>d\<bar> \<le> c" for z d c
    unfolding abs_mult using that M(1) by (intro mult_mono) auto
  have xf: "\<bar>x * (g - (1 - f))\<bar> \<le> M * (2 / 2 ^ 54)" and xt: "\<bar>x * (f - t)\<bar> \<le> M * (1 / 2 ^ 54)"
    and yt: "\<bar>y * (f - t)\<bar> \<le> M * (1 / 2 ^ 54)" using scaled M(2,3) ef eg by blast+
  have split: "rnd (p + r) - (x * (1 - t) + y * t) = (rnd (p + r) - (p + r)) + (p - x * g) + (r - y * f)
      + x * (g - (1 - f)) - x * (f - t) + y * (f - t)" by (simp add: algebra_simps)
  have tri: "\<bar>a + b + c + d - h + k\<bar> \<le> \<bar>a\<bar> + \<bar>b\<bar> + \<bar>c\<bar> + \<bar>d\<bar> + \<bar>h\<bar> + \<bar>k\<bar>" for a b c d h k :: rat by linarith
  define U where "U = M / 2 ^ 54"
  have bounds: "\<bar>rnd (p + r) - (p + r)\<bar> \<le> 4 * U" "\<bar>p - x * g\<bar> \<le> U" "\<bar>r - y * f\<bar> \<le> U"
    "\<bar>x * (g - (1 - f))\<bar> \<le> 2 * U" "\<bar>x * (f - t)\<bar> \<le> U" "\<bar>y * (f - t)\<bar> \<le> U"
    using es ep er xf xt yt by (simp_all add: U_def)
  have "\<bar>rnd (p + r) - (x * (1 - t) + y * t)\<bar> \<le> 10 * U"
    unfolding split by (rule order_trans [OF tri]) (use bounds in linarith)
  also have "\<dots> \<le> M / 2 ^ 50" using M(1) by (simp add: U_def)
  finally show ?thesis using ok unfolding f_def [symmetric] by (simp add: M_def)
qed

text \<open>The value at a rank of a sorted list: the element at a whole rank, and else, up to the rounding of the
  arithmetic, the mixture of the two beside it, which lies between them up to that rounding.\<close>

definition at_rank :: "nat \<Rightarrow> rat list \<Rightarrow> rat \<Rightarrow> pyfloat \<Rightarrow> bool" where
  "at_rank e xs r v \<longleftrightarrow> 0 \<le> r \<and> nat \<lceil>r\<rceil> < length xs \<and>
     (if r = of_int \<lfloor>r\<rfloor> then v = Fin (xs ! nat \<lfloor>r\<rfloor>)
      else (let t = r - of_int \<lfloor>r\<rfloor>; d = 2 ^ e / 2 ^ 50 in
        is_finite v \<and> \<bar>fval v - (xs ! nat \<lfloor>r\<rfloor> * (1 - t) + xs ! nat \<lceil>r\<rceil> * t)\<bar> \<le> d
        \<and> xs ! nat \<lfloor>r\<rfloor> - d \<le> fval v \<and> fval v \<le> xs ! nat \<lceil>r\<rceil> + d))"

lemma interpolate_rank:
  assumes "sorted xs" "\<forall>x \<in> set xs. \<bar>x\<bar> < 2 ^ e" "e \<le> 1000" "0 \<le> r" "r \<le> of_int (int (length xs) - 1)" "xs \<noteq> []" "length xs \<le> 2 ^ 40"
  shows "\<exists>v. interpolate (map Fin xs) (Fin r) = Inr v \<and> at_rank e xs r v"
proof -
  have up: "\<lceil>r\<rceil> \<le> int (length xs) - 1" using assms(5) by (simp only: ceiling_le_iff)
  have low: "0 \<le> \<lfloor>r\<rfloor>" "\<lfloor>r\<rfloor> \<le> \<lceil>r\<rceil>" using assms(4) by (simp_all add: floor_le_ceiling)
  have in_list: "nat \<lfloor>r\<rfloor> < length xs" "nat \<lceil>r\<rceil> < length xs" using up low assms(6) by (cases xs; simp; linarith)+
  have idx: "py_idx (map Fin xs) \<lfloor>r\<rfloor> = Inr (Fin (xs ! nat \<lfloor>r\<rfloor>))" "py_idx (map Fin xs) \<lceil>r\<rceil> = Inr (Fin (xs ! nat \<lceil>r\<rceil>))"
    using low up in_list by (simp_all add: py_idx_def)
  show ?thesis
  proof (cases "r = of_int \<lfloor>r\<rfloor>")
    case True
    then have "\<lfloor>r\<rfloor> = \<lceil>r\<rceil>" by (metis ceiling_of_int)
    then show ?thesis using True idx(1) in_list assms(4) by (simp add: interpolate_def at_rank_def)
  next
    case False
    define t where "t = r - of_int \<lfloor>r\<rfloor>"
    have t: "0 \<le> t" "t < 1" unfolding t_def by linarith+
    have ne: "\<lfloor>r\<rfloor> \<noteq> \<lceil>r\<rceil>" using False by (metis ceiling_correct floor_correct antisym)
    define x y where "x = xs ! nat \<lfloor>r\<rfloor>" and "y = xs ! nat \<lceil>r\<rceil>"
    have xy: "\<bar>x\<bar> < 2 ^ e" "\<bar>y\<bar> < 2 ^ e" "x \<le> y"
      using assms(1,2) in_list nat_mono [OF low(2)] sorted_nth_mono [of xs "nat \<lfloor>r\<rfloor>" "nat \<lceil>r\<rceil>"] by (simp_all add: x_def y_def)
    obtain w where w: "fadd (fmul (Fin x) (fsub (Fin 1) (Fin (rnd t)))) (fmul (Fin y) (Fin (rnd t))) = Fin w"
      "\<bar>w - (x * (1 - t) + y * t)\<bar> \<le> 2 ^ e / 2 ^ 50" using mix_error [OF xy(1,2) assms(3) t] by blast
    have "int (length xs) \<le> 1099511627776" using assms(7) by simp
    then have "\<bar>\<lfloor>r\<rfloor>\<bar> \<le> 9007199254740992" using low up by linarith
    then have "\<bar>\<lfloor>r\<rfloor>\<bar> \<le> 2 ^ 53" by (simp only: power_numeral) simp
    then have "float_of_int \<lfloor>r\<rfloor> = Fin (of_int \<lfloor>r\<rfloor>)" by (rule float_of_int_exact)
    then have frac: "fsub (Fin r) (float_of_int \<lfloor>r\<rfloor>) = Fin (rnd t)"
      using to_float_between_ints [of 0 t 1] t by (simp add: fsub_def t_def)
    have "x * (1 - t) + y * t = x + (y - x) * t" by (simp add: algebra_simps)
    moreover have "(y - x) * t \<le> y - x" using t xy(3) by (intro mult_left_le) simp_all
    moreover have "0 \<le> (y - x) * t" using t xy(3) by (intro mult_nonneg_nonneg) simp_all
    ultimately have between: "x - 2 ^ e / 2 ^ 50 \<le> w" "w \<le> y + 2 ^ e / 2 ^ 50" using w(2) by linarith+
    have "interpolate (map Fin xs) (Fin r) = Inr (Fin w)"
      using ne idx w(1) by (simp add: interpolate_def frac x_def y_def)
    then show ?thesis using False in_list assms(4) w(2) between
      by (simp add: at_rank_def Let_def x_def y_def t_def)
  qed
qed

lemma sort_ends:
  fixes xs :: "'a::linorder list"
  assumes "xs \<noteq> []"
  shows "sort xs ! 0 = Min (set xs) \<and> sort xs ! (length xs - 1) = Max (set xs)"
proof
  have le: "i \<le> j \<Longrightarrow> j < length xs \<Longrightarrow> sort xs ! i \<le> sort xs ! j" for i j
    using sorted_nth_mono [of "sort xs" i j] by simp
  have mem: "i < length xs \<Longrightarrow> sort xs ! i \<in> set xs" for i
    using nth_mem [of i "sort xs"] by simp
  have ex: "x \<in> set xs \<Longrightarrow> \<exists>i < length xs. x = sort xs ! i" for x
    using in_set_conv_nth [of x "sort xs"] by auto
  show "sort xs ! 0 = Min (set xs)"
  proof (rule Min_eqI [symmetric])
    fix y assume "y \<in> set xs"
    then show "sort xs ! 0 \<le> y" using ex le by blast
  qed (use mem assms in auto)
  show "sort xs ! (length xs - 1) = Max (set xs)"
  proof (rule Max_eqI [symmetric])
    fix y assume "y \<in> set xs"
    then obtain i where i: "i < length xs" "y = sort xs ! i" using ex by blast
    show "y \<le> sort xs ! (length xs - 1)" unfolding i(2) using i(1) by (intro le) auto
  qed (use mem assms in auto)
qed

lemma case_list_long: "1 < length xs \<Longrightarrow> (case xs of [] \<Rightarrow> a | [x] \<Rightarrow> b x | _ \<Rightarrow> c) = c"
  by (cases xs; cases "tl xs") auto

lemma lab1_percentile_order:
  assumes "\<forall>v\<in>set vs. is_finite v" "0 \<le> pct" "pct \<le> 100" "1 < length vs"
    and "(int (length vs) - 1) * pct \<le> 2 ^ 40"
  shows "\<exists>v. lab1_percentile vs pct = Inr (Some v)
    \<and> sim1_percentile vs pct = Inr (Some v)
    \<and> (100 dvd (int (length vs) - 1) * pct \<longrightarrow>
         v = Fin (sort (map fval vs) ! nat ((int (length vs) - 1) * pct div 100)))
    \<and> (pct = 0 \<longrightarrow> v = Fin (Min (fval ` set vs)))
    \<and> (pct = 100 \<longrightarrow> v = Fin (Max (fval ` set vs)))"
proof -
  let ?xs = "sort (map fval vs)" let ?r = "(int (length vs) - 1) * pct"
  have s: "fsort (filter is_finite vs) = map Fin ?xs"
    using assms(1) fsort_finite [of vs] by simp
  have l: "length ?xs = length vs" by simp
  obtain x y zs where c: "?xs = x # y # zs" using assms(4)
    by (metis One_nat_def l length_Cons list.exhaust list.size(3) not_less_zero less_irrefl)
  have vne: "vs \<noteq> []" using assms(4) by auto
  have ne: "map Fin ?xs \<noteq> []" unfolding c by simp
  obtain v where v: "interpolate (map Fin ?xs) (fquot (float_of_int ?r) (Fin 100)) = Inr v"
    and d: "100 dvd ?r \<longrightarrow> v = map Fin ?xs ! nat (?r div 100)"
    using interpolate_hundredths_ex [of pct "map Fin ?xs", OF assms(2,3)] assms(5) ne
    unfolding length_map length_sort by blast
  have p: "lab1_percentile vs pct = Inr (Some v)" "sim1_percentile vs pct = Inr (Some v)"
    using v assms(4) by (simp_all add: lab1_percentile_def sim1_percentile_def Let_def s case_list_long)
  have ex: "v = Fin (?xs ! nat (?r div 100))" if "100 dvd ?r"
  proof -
    have "?r div 100 \<le> (int (length vs) - 1) * 100 div 100"
      using assms(3,4) by (intro zdiv_mono1 mult_left_mono) auto
    then have "nat (?r div 100) < length ?xs" using assms(4) by simp
    then show ?thesis using d that by simp
  qed
  have mn: "?xs ! 0 = Min (fval ` set vs)" and mx: "?xs ! (length vs - 1) = Max (fval ` set vs)"
    using sort_ends [of "map fval vs"] vne by simp_all
  show ?thesis using p ex mn mx assms(4) by (intro exI [of _ v]) (auto simp: nat_diff_distrib)
qed

lemma sorted_values:
  assumes "\<forall>v \<in> set vs. is_finite v \<and> \<bar>fval v\<bar> < 2 ^ e"
  shows "fsort vs = map Fin (sort (map fval vs))" "fsort (filter is_finite vs) = map Fin (sort (map fval vs))"
    "\<forall>x \<in> set (sort (map fval vs)). \<bar>x\<bar> < 2 ^ e"
  using assms fsort_finite [of vs] by (simp_all add: filter_id_conv [THEN iffD2])

text \<open>The rank of a percentile in hundredths, and of a fraction, stays in the list.\<close>

lemma hundredths_rank:
  assumes "0 \<le> pct" "pct \<le> 100" "1 < n" "n \<le> 2 ^ 33"
  shows "fquot (float_of_int ((int n - 1) * pct)) (Fin 100) = Fin (rnd (of_int ((int n - 1) * pct) / 100))"
    "0 \<le> rnd (of_int ((int n - 1) * pct) / 100)" "rnd (of_int ((int n - 1) * pct) / 100) \<le> of_int (int n - 1)"
    "100 dvd (int n - 1) * pct \<Longrightarrow> rnd (of_int ((int n - 1) * pct) / 100) = of_int ((int n - 1) * pct div 100)"
proof -
  let ?a = "(int n - 1) * pct"
  have n: "0 \<le> int n - 1" "int n - 1 \<le> 2 ^ 33" using assms(3,4) by simp_all
  have a0: "0 \<le> ?a" using n(1) assms(1) by simp
  have le: "?a \<le> (int n - 1) * 100" using n(1) assms(2) by (rule mult_left_mono [rotated])
  then have a1: "?a \<le> 2 ^ 40" using n(2) by simp
  show "fquot (float_of_int ?a) (Fin 100) = Fin (rnd (of_int ?a / 100))" by (rule float_ratio_100 [OF a0 a1])
  have "rat_of_int ?a \<le> of_int ((int n - 1) * 100)" using le by (simp only: of_int_le_iff)
  then have up: "rat_of_int ?a / 100 \<le> of_int (int n - 1)" by (simp add: divide_le_eq)
  have "0 \<le> rat_of_int ?a" using a0 by (simp only: of_int_0_le_iff)
  then have "of_int 0 \<le> rat_of_int ?a / 100" by simp
  then show "0 \<le> rnd (of_int ?a / 100)" "rnd (of_int ?a / 100) \<le> of_int (int n - 1)"
    using rnd_between_ints [of 0 "rat_of_int ?a / 100" "int n - 1"] up n by simp_all
  assume "100 dvd ?a"
  then obtain k where k: "?a = 100 * k" by auto
  then have "rat_of_int ?a / 100 = of_int k" by (metis nonzero_mult_div_cancel_left of_int_mult of_int_numeral zero_neq_numeral)
  moreover have "\<bar>k\<bar> \<le> 2 ^ 53" using k a0 a1 by simp
  ultimately show "rnd (of_int ?a / 100) = of_int (?a div 100)" using rnd_int [of k] k by simp
qed

lemma fraction_rank:
  assumes "0 \<le> q" "q \<le> 1" "1 < n" "n \<le> 2 ^ 33"
  shows "fmul (float_of_int (int n - 1)) (Fin q) = Fin (rnd (of_int (int n - 1) * q))"
    "0 \<le> rnd (of_int (int n - 1) * q)" "rnd (of_int (int n - 1) * q) \<le> of_int (int n - 1)"
    "rnd (of_int (int n - 1) * 1) = of_int (int n - 1)"
proof -
  have n: "0 \<le> int n - 1" "int n - 1 \<le> 2 ^ 33" using assms(3,4) by simp_all
  have m: "0 \<le> rat_of_int (int n - 1)" using n(1) by (simp only: of_int_0_le_iff)
  have b: "of_int 0 \<le> rat_of_int (int n - 1) * q" "rat_of_int (int n - 1) * q \<le> of_int (int n - 1)"
    using m assms(1,2) mult_left_le [of q "rat_of_int (int n - 1)"] by simp_all
  show "fmul (float_of_int (int n - 1)) (Fin q) = Fin (rnd (of_int (int n - 1) * q))"
    using to_float_between_ints [OF b] float_of_int_exact [of "int n - 1"] n by simp
  show "0 \<le> rnd (of_int (int n - 1) * q)" "rnd (of_int (int n - 1) * q) \<le> of_int (int n - 1)"
    using rnd_between_ints [OF b] n by simp_all
  show "rnd (of_int (int n - 1) * 1) = of_int (int n - 1)" using rnd_int [of "int n - 1"] n by simp
qed

lemma at_whole_rank: "at_rank e xs (of_int k) v \<Longrightarrow> v = Fin (xs ! nat k)"
  by (simp add: at_rank_def)

text \<open>C9: A percentile is the value at its rank in the sorted values, in each of the four scripts: lab1 and sim1 compute the
  same for \<open>pct\<close> hundredths, and t2t2 and the figures the same for a fraction \<open>q\<close>, on at least two finite values. No index
  leaves the list. At a whole rank it is the element there, so the 0th is the least value and the 100th the greatest;
  in between it is the mixture of the two neighbours up to the rounding of the floats, which is at most
  \<open>2 ^ -50\<close> of the bound on the values: a percentile may leave the interval of its neighbours by so much, and no more.\<close>

theorem percentile_rank:
  assumes "\<forall>v \<in> set vs. is_finite v \<and> \<bar>fval v\<bar> < 2 ^ e" "e \<le> 1000" "1 < length vs" "length vs \<le> 2 ^ 33"
    and "0 \<le> pct" "pct \<le> 100" "0 \<le> q" "q \<le> 1" "xs = sort (map fval vs)" "n = int (length vs) - 1"
  shows "\<exists>v w. lab1_percentile vs pct = Inr (Some v) \<and> sim1_percentile vs pct = Inr (Some v)
    \<and> t2t2_percentile vs (Fin q) = Inr w \<and> figs_percentile vs (Fin q) = Inr w
    \<and> at_rank e xs (rnd (of_int (n * pct) / 100)) v \<and> at_rank e xs (rnd (of_int n * q)) w
    \<and> (100 dvd n * pct \<longrightarrow> v = Fin (xs ! nat (n * pct div 100)))
    \<and> (pct = 0 \<longrightarrow> v = Fin (Min (fval ` set vs))) \<and> (pct = 100 \<longrightarrow> v = Fin (Max (fval ` set vs)))
    \<and> (q = 0 \<longrightarrow> w = Fin (Min (fval ` set vs))) \<and> (q = 1 \<longrightarrow> w = Fin (Max (fval ` set vs)))"
proof -
  note s = sorted_values [OF assms(1), folded assms(9)]
  have l: "length xs = length vs" "sorted xs" "xs \<noteq> []" "vs \<noteq> []" using assms(3) by (auto simp: assms(9) dest: arg_cong [of _ _ length])
  note h = hundredths_rank [OF assms(5,6,3,4), folded assms(10)] and f = fraction_rank [OF assms(7,8,3,4), folded assms(10)]
  have n: "of_int (int (length xs) - 1) = rat_of_int n" "length xs \<le> 2 ^ 40" using assms(4,10) l(1) by simp_all
  obtain v where v: "interpolate (map Fin xs) (Fin (rnd (of_int (n * pct) / 100))) = Inr v" "at_rank e xs (rnd (of_int (n * pct) / 100)) v"
    using interpolate_rank [OF l(2) s(3) assms(2) h(2) _ l(3) n(2)] h(3) n(1) by metis
  obtain w where w: "interpolate (map Fin xs) (Fin (rnd (of_int n * q))) = Inr w" "at_rank e xs (rnd (of_int n * q)) w"
    using interpolate_rank [OF l(2) s(3) assms(2) f(2) _ l(3) n(2)] f(3) n(1) by metis
  have long: "1 < length (map Fin xs)" "length (map Fin xs) = length vs" using assms(3) l(1) by simp_all
  have a: "lab1_percentile vs pct = Inr (Some v)" "sim1_percentile vs pct = Inr (Some v)"
    using v(1) h(1) by (simp_all only: lab1_percentile_def sim1_percentile_def Let_def s case_list_long [OF long(1)] long(2) assms(10) [symmetric] bindR_simps)
  have b: "t2t2_percentile vs (Fin q) = Inr w" "figs_percentile vs (Fin q) = Inr w"
    using w(1) f(1) by (simp_all only: t2t2_percentile_def figs_percentile_def Let_def s case_list_long [OF assms(3)] long(2) assms(10) [symmetric])
  have mn: "xs ! 0 = Min (fval ` set vs)" and mx: "xs ! nat n = Max (fval ` set vs)"
    using sort_ends [of "map fval vs"] l(4) assms(3) by (simp_all add: assms(9,10) nat_diff_distrib)
  have ex: "100 dvd n * pct \<longrightarrow> v = Fin (xs ! nat (n * pct div 100))"
    using v(2) h(4) at_whole_rank by metis
  have "q = 0 \<longrightarrow> w = Fin (xs ! 0)" using w(2) at_whole_rank [of e xs 0 w] by (cases "q = 0") simp_all
  moreover have "q = 1 \<longrightarrow> w = Fin (xs ! nat n)" using w(2) f(4) at_whole_rank [of e xs n w] by metis
  moreover have "pct = 0 \<longrightarrow> v = Fin (xs ! 0)" "pct = 100 \<longrightarrow> v = Fin (xs ! nat n)" using ex by simp_all
  ultimately show ?thesis using a b v(2) w(2) ex unfolding mn mx by blast
qed

theorem percentile_rank_witness:
  "\<exists>v w. lab1_percentile [Fin 3, Fin 1, Fin 7] 50 = Inr (Some v) \<and> v = Fin (sort [3, 1, 7] ! 1)
    \<and> t2t2_percentile [Fin 3, Fin 1, Fin 7] (Fin 1) = Inr w \<and> w = Fin (Max {3, 1, 7})"
  using percentile_rank [of "[Fin 3, Fin 1, Fin 7]" 3 50 1, OF _ _ _ _ _ _ _ _ refl refl] by fastforce

lemma fig4_ma_step_eq: "fig4_ma_step = lab2_ma_step"
  by (intro ext) (auto simp: Let_def)

abbreviation fints :: "int list \<Rightarrow> pyfloat list" where
  "fints ks \<equiv> map (\<lambda>k. Fin (of_int k)) ks"

text \<open>The values in the window that ends at position \<open>i\<close>.\<close>

definition win :: "nat \<Rightarrow> int list \<Rightarrow> nat \<Rightarrow> int list" where
  "win w ks i = drop (Suc i - w) (take (Suc i) ks)"

lemma fadd_ints: "\<bar>a + b\<bar> \<le> 2 ^ 53 \<Longrightarrow> fadd (Fin (of_int a)) (Fin (of_int b)) = Fin (of_int (a + b))"
  using float_of_int_exact [of "a + b"] by (simp add: float_of_int_def)

lemma fsub_ints: "\<bar>a - b\<bar> \<le> 2 ^ 53 \<Longrightarrow> fsub (Fin (of_int a)) (Fin (of_int b)) = Fin (of_int (a - b))"
  using fadd_ints [of a "- b"] by (simp add: fsub_def)

lemma fquot_ints: "\<bar>n\<bar> \<le> 2 ^ 53 \<Longrightarrow> fquot (Fin (of_int s)) (float_of_int n) = int_quot s n"
  by (simp add: float_of_int_exact int_quot_def)

lemma sum_list_bounds:
  fixes ks :: "int list"
  assumes "\<forall>k\<in>set ks. 0 \<le> k \<and> k \<le> m" "length ks \<le> n" "0 \<le> m"
  shows "0 \<le> sum_list ks \<and> sum_list ks \<le> int n * m"
proof -
  have "0 \<le> sum_list ks \<and> sum_list ks \<le> int (length ks) * m"
    using assms(1) by (induction ks) (auto simp: algebra_simps)
  moreover have "int (length ks) * m \<le> int n * m" using assms(2,3) by (simp add: mult_right_mono)
  ultimately show ?thesis by linarith
qed

lemma win_snoc: "i < length ks \<Longrightarrow> win w (ks @ [k]) i = win w ks i"
  by (simp add: win_def)

lemma ma_step:
  assumes "q @ [k] = x # q'" "length q = w" "1 < w" "\<bar>sum_list q + k\<bar> \<le> 2 ^ 53"
    "\<bar>sum_list q'\<bar> \<le> 2 ^ 53" "int w \<le> 2 ^ 53"
  shows "lab2_ma_step (int w) (Fin (of_int k)) (fints q, Fin (of_int (sum_list q)), r) =
    (fints q', Fin (of_int (sum_list q')), r @ [int_quot (sum_list q') (int w)])"
proof -
  have q: "fints q @ [Fin (of_int k)] = Fin (of_int x) # fints q'"
    using arg_cong [OF assms(1), of fints] by simp
  have l: "length q' = w" using arg_cong [OF assms(1), of length] assms(2) by simp
  have s: "sum_list q + k = x + sum_list q'" using arg_cong [OF assms(1), of sum_list] by simp
  have "fadd (Fin (of_int (sum_list q))) (Fin (of_int k)) = Fin (of_int (x + sum_list q'))"
    using fadd_ints [OF assms(4)] s by simp
  moreover have "fsub (Fin (of_int (x + sum_list q'))) (Fin (of_int x)) = Fin (of_int (sum_list q'))"
    using fsub_ints [of "x + sum_list q'" x] assms(5) by simp
  moreover have "fquot (Fin (of_int (sum_list q'))) (float_of_int (int w)) = int_quot (sum_list q') (int w)"
    using assms(6) by (intro fquot_ints) simp
  ultimately show ?thesis using q l by (simp add: Let_def)
qed

lemma ma_step_short:
  assumes "length q < w" "\<bar>sum_list q + k\<bar> \<le> 2 ^ 53" "int w \<le> 2 ^ 53"
  shows "lab2_ma_step (int w) (Fin (of_int k)) (fints q, Fin (of_int (sum_list q)), r) =
    (fints (q @ [k]), Fin (of_int (sum_list (q @ [k]))),
     r @ [int_quot (sum_list (q @ [k])) (int (Suc (length q)))])"
proof -
  have "fquot (Fin (of_int (sum_list q + k))) (float_of_int (int (Suc (length q)))) =
      int_quot (sum_list q + k) (int (Suc (length q)))"
    using assms(1,3) by (intro fquot_ints) simp
  then show ?thesis using fadd_ints [OF assms(2)] assms(1) by (simp add: Let_def)
qed

lemma ma_fold:
  assumes "1 < w" "\<forall>k\<in>set ks. 0 \<le> k \<and> k \<le> m" "int (Suc w) * m \<le> 2 ^ 53" "int w \<le> 2 ^ 53" "0 \<le> m"
  shows "fold (lab2_ma_step (int w)) (fints ks) ([], Fin 0, []) =
    (let q = drop (length ks - w) ks in
     (fints q, Fin (of_int (sum_list q)),
      map (\<lambda>i. int_quot (sum_list (win w ks i)) (int (min w (Suc i)))) [0..<length ks]))"
  using assms(2)
proof (induction ks rule: rev_induct)
  case (snoc k ks)
  let ?q = "drop (length ks - w) ks" let ?q' = "drop (Suc (length ks) - w) (ks @ [k])"
  have q: "\<forall>x\<in>set (?q @ [k]). 0 \<le> x \<and> x \<le> m" using snoc.prems by (auto dest: in_set_dropD)
  have "0 \<le> sum_list (?q @ [k]) \<and> sum_list (?q @ [k]) \<le> int (Suc w) * m"
    by (rule sum_list_bounds [OF q]) (use assms(5) in auto)
  then have b: "\<bar>sum_list ?q + k\<bar> \<le> 2 ^ 53" using assms(3) by simp
  have q': "\<forall>x\<in>set ?q'. 0 \<le> x \<and> x \<le> m" using snoc.prems in_set_dropD by fastforce
  have "0 \<le> sum_list ?q' \<and> sum_list ?q' \<le> int (Suc w) * m"
    by (rule sum_list_bounds [OF q']) (use assms(5) in auto)
  then have b': "\<bar>sum_list ?q'\<bar> \<le> 2 ^ 53" using assms(3) by simp
  have w: "win w (ks @ [k]) (length ks) = ?q'" by (simp add: win_def)
  have l: "length ?q' = min w (Suc (length ks))" by auto
  have IH: "fold (lab2_ma_step (int w)) (fints ks) ([], Fin 0, []) = (let q = ?q in
     (fints q, Fin (of_int (sum_list q)),
      map (\<lambda>i. int_quot (sum_list (win w ks i)) (int (min w (Suc i)))) [0..<length ks]))"
    using snoc by simp
  show ?case
  proof (cases "w \<le> length ks")
    case True
    then have e: "?q @ [k] = hd (?q @ [k]) # ?q'" using assms(1)
      by (cases ?q) (auto simp: Suc_diff_le drop_Suc tl_drop [symmetric])
    have "length ?q = w" using True by simp
    then have "lab2_ma_step (int w) (Fin (of_int k)) (fints ?q, Fin (of_int (sum_list ?q)), r) =
        (fints ?q', Fin (of_int (sum_list ?q')), r @ [int_quot (sum_list ?q') (int w)])" for r
      using ma_step [OF e] b b' assms(1,4) by blast
    then have "fold (lab2_ma_step (int w)) (fints (ks @ [k])) ([], Fin 0, []) =
        (fints ?q', Fin (of_int (sum_list ?q')),
         map (\<lambda>i. int_quot (sum_list (win w ks i)) (int (min w (Suc i)))) [0..<length ks]
           @ [int_quot (sum_list ?q') (int w)])"
      using IH by (simp only: map_append fold_append list.map fold_simps o_apply Let_def)
    then show ?thesis using True w
      by (simp add: Let_def win_snoc del: drop_append)
  next
    case False
    then have "fold (lab2_ma_step (int w)) (fints (ks @ [k])) ([], Fin 0, []) =
        (fints (?q @ [k]), Fin (of_int (sum_list (?q @ [k]))),
         map (\<lambda>i. int_quot (sum_list (win w ks i)) (int (min w (Suc i)))) [0..<length ks]
           @ [int_quot (sum_list (?q @ [k])) (int (Suc (length ?q)))])"
      using IH ma_step_short [of ?q w k] b assms(4)
      by (simp only: map_append fold_append list.map fold_simps o_apply Let_def) simp
    then show ?thesis using False w
      by (simp add: Let_def win_snoc del: drop_append)
  qed
qed simp

text \<open>On whole-numbered samples (packet and credit counts) the running sum of the moving
  average does not drift: every output is the correctly rounded quotient of the exact sum of
  the last \<open>window\<close> samples by their number, and both scripts give it.\<close>

theorem moving_average_exact:
  assumes "1 < w" "\<forall>k\<in>set ks. 0 \<le> k \<and> k \<le> m" "0 \<le> m" "int (Suc w) * m \<le> 2 ^ 53" "int w \<le> 2 ^ 53"
  shows "lab2_moving_average (fints ks) (int w) =
      map (\<lambda>i. int_quot (sum_list (drop (Suc i - w) (take (Suc i) ks))) (int (min w (Suc i)))) [0..<length ks]
    \<and> fig4_moving_average (fints ks) (int w) = lab2_moving_average (fints ks) (int w)"
  using ma_fold [OF assms(1,2,4,5,3)] assms(1)
  by (simp add: lab2_moving_average_def fig4_moving_average_def fig4_ma_step_eq Let_def win_def)

theorem moving_average_exact_witness:
  "lab2_moving_average (fints [3, 5, 9]) 2 = [int_quot 3 1, int_quot 8 2, int_quot 14 2]"
  using moving_average_exact [of 2 "[3, 5, 9]" 9] by simp

end
