(* ===== verification/TraceRows.thy ===== *)
theory TraceRows
  imports TraceKV Stats "HOL-Library.List_Lexorder" "HOL-Library.Monad_Syntax"
begin

text \<open>
  What the scripts make of the parsed lines: the packet-state counter
  (scripts/count_sird_pkt_state.py), the row loaders and windowed counters of
  scripts/lab1_plot.py, the per-link series of scripts/plot_link_throughput.py and the
  per-sender series of scripts/sird-scenarios/plot_2t1_sender_bucket.py. Strings are ordered
  by code points, as Python orders them.
\<close>

subsection \<open>count_sird_pkt_state.py\<close>

fun count_step :: "string \<Rightarrow> int \<times> int \<times> int \<Rightarrow> int \<times> int \<times> int" where
  "count_step raw_line (n_total, ce_count, csn_count) = (
     let line = strip raw_line in
     if line = [] then (n_total, ce_count, csn_count)
     else let fields = count_parse_fields line in
       (n_total + 1,
        if dget fields ''ce'' = Some ''1'' then ce_count + 1 else ce_count,
        if dget fields ''csn'' = Some ''1'' then csn_count + 1 else csn_count))"

definition ratio :: "int \<Rightarrow> int \<Rightarrow> pyfloat" where
  "ratio n n_total = (if n_total \<noteq> 0 then int_quot n n_total else Fin 0)"

text \<open>\<open>main\<close> with the path's text and the file: the exit code and what is printed.\<close>

definition count_main :: "string \<Rightarrow> trace \<Rightarrow> int \<times> outline list" where
  "count_main trace_path file = (case file of
       None \<Rightarrow> (1, [Err (''error: trace file not found: '' @ trace_path)])
     | Some lines \<Rightarrow>
         let (n_total, ce_count, csn_count) = fold count_step lines (0, 0, 0);
             ce_ratio = ratio ce_count n_total;
             csn_ratio = ratio csn_count n_total
         in (0, [Out (''trace_file: '' @ trace_path),
                 Out (''total_packets: '' @ show_int n_total),
                 Out (''ce_packets: '' @ show_int ce_count),
                 Out (''csn_packets: '' @ show_int csn_count),
                 Out (''ce_ratio: '' @ fmt_fixed 6 ce_ratio),
                 Out (''csn_ratio: '' @ fmt_fixed 6 csn_ratio)]))"

subsection \<open>plot_link_throughput.py\<close>

type_synonym point = "pyfloat \<times> pyfloat"
type_synonym curve = "string \<times> point list"

definition billion :: pyfloat where "billion = Fin 1000000000"
definition million :: pyfloat where "million = Fin 1000000"
definition thousand :: pyfloat where "thousand = Fin 1000"

text \<open>\<open>float(text)\<close> where a ValueError is not caught.\<close>

definition float_or_raise :: "string \<Rightarrow> pyfloat result" where
  "float_or_raise s = (case py_float s of Some x \<Rightarrow> Inr x | None \<Rightarrow> Inl ValueError)"

definition int_or_raise :: "string \<Rightarrow> int result" where
  "int_or_raise s = (case py_int s of Some x \<Rightarrow> Inr x | None \<Rightarrow> Inl ValueError)"

definition link_step :: "string \<Rightarrow> string \<Rightarrow> string \<Rightarrow> (string, point list) dict \<Rightarrow>
    (string, point list) dict result" where
  "link_step metric prefix raw_line series = (
     let line = strip raw_line in
     if line = [] then Inr series
     else bindR (float_or_raise (hd (split_ws line))) (\<lambda>time_ns.
       let fields = link_parse_fields line;
           link = dget_default fields ''link'' []
       in if link = [] then Inr series
          else if prefix \<noteq> [] \<and> \<not> startswith link prefix then Inr series
          else (case dget fields metric of None \<Rightarrow> Inr series
            | Some metric_value \<Rightarrow>
                bindR (float_or_raise metric_value) (\<lambda>v.
                  Inr (dappend link (fquot time_ns billion, v) series)))))"

text \<open>\<open>main\<close>, with the curves it plots; drawing is left out, and the output path, which only
  concerns the file name, is a parameter.\<close>

definition link_main :: "string \<Rightarrow> trace \<Rightarrow> string \<Rightarrow> string \<Rightarrow> string \<Rightarrow>
    (int \<times> outline list \<times> curve list) result" where
  "link_main trace_path file metric prefix out_path = (case file of
       None \<Rightarrow> Inr (1, [Err (''error: trace file not found: '' @ trace_path)], [])
     | Some lines \<Rightarrow> bindR (foldR (link_step metric prefix) lines []) (\<lambda>series.
         if series = [] then Inr (1, [Err ''error: no matching link series found''], [])
         else Inr (0,
           [Out (''trace_file: '' @ trace_path),
            Out (''series_count: '' @ show_int (int (length series))),
            Out (''metric: '' @ metric),
            Out (''output_png: '' @ out_path)],
           map (\<lambda>link. (link, dget_default series link [])) (sort (dkeys series)))))"

subsection \<open>plot_2t1_sender_bucket.py\<close>

record bucket_state =
  times_by_sender :: "(string, pyfloat list) dict"
  bucket_by_sender :: "(string, int list) dict"
  grant_events :: int
  data_events :: int

definition bucket_step :: "string \<Rightarrow> bucket_state \<Rightarrow> bucket_state result" where
  "bucket_step raw s = (let row = bucket_parse_kv_line raw in
     if row = [] then Inr s
     else let event = dget_default row ''event'' [];
              sender = dget_default row ''sender'' ''unknown''
       in bindR (int_or_raise (dget_default row ''time_ns'' ''0'')) (\<lambda>time_ns.
          bindR (int_or_raise (dget_default row ''senderGlobalAvailPkts'' ''0'')) (\<lambda>bucket.
            Inr \<lparr>times_by_sender = dappend sender (fquot (float_of_int time_ns) million) (times_by_sender s),
                 bucket_by_sender = dappend sender bucket (bucket_by_sender s),
                 grant_events = (if event = ''grant'' then grant_events s + 1 else grant_events s),
                 data_events = (if event = ''grant'' then data_events s
                   else if event = ''data'' then data_events s + 1 else data_events s)\<rparr>)))"

definition load_sender_bucket :: "string list \<Rightarrow> bucket_state result" where
  "load_sender_bucket lines = foldR bucket_step lines
     \<lparr>times_by_sender = [], bucket_by_sender = [], grant_events = 0, data_events = 0\<rparr>"

text \<open>\<open>main\<close>: the message it exits with, or the step curves, the summary text and the line
  printed.\<close>

definition bucket_main :: "string \<Rightarrow> trace \<Rightarrow> string \<Rightarrow>
    (string + (string \<times> pyfloat list \<times> int list) list \<times> string \<times> string) result" where
  "bucket_main trace_path file out_path = (case file of
       None \<Rightarrow> Inr (Inl (''Input trace not found: '' @ trace_path))
     | Some lines \<Rightarrow> bindR (load_sender_bucket lines) (\<lambda>s.
         if times_by_sender s = [] then Inr (Inl (''No parsable data in: '' @ trace_path))
         else Inr (Inr (
           map (\<lambda>sender. (sender, dget_default (times_by_sender s) sender [],
                                  dget_default (bucket_by_sender s) sender []))
               (sort (dkeys (times_by_sender s))),
           ''grants='' @ show_int (grant_events s) @ '', data='' @ show_int (data_events s),
           ''Saved figure: '' @ out_path))))"

subsection \<open>Loops that may raise\<close>

subsection \<open>The packet-state counter\<close>

definition is_record :: "string \<Rightarrow> bool" where
  "is_record raw_line \<longleftrightarrow> split_ws raw_line \<noteq> []"

definition marked :: "string \<Rightarrow> string \<Rightarrow> bool" where
  "marked k raw_line \<longleftrightarrow> map_of (rev (assignments (split_ws raw_line))) k = Some ''1''"

definition records :: "string list \<Rightarrow> string list" where
  "records lines = filter is_record lines"

lemma count_fields: "dget (count_parse_fields (strip line)) k = map_of (rev (assignments (split_ws line))) k"
  by (simp add: count_parse_fields_def dget_fold_kv_step split_ws_strip)

lemma fold_count_step:
  "fold count_step lines (a, b, c) =
     (a + int (length (records lines)),
      b + int (length (filter (marked ''ce'') (records lines))),
      c + int (length (filter (marked ''csn'') (records lines))))"
  by (induction lines arbitrary: a b c)
     (auto simp: records_def is_record_def marked_def count_fields strip_eq_Nil)

lemma ratio_unit:
  assumes "m \<le> n" "int n \<le> 2 ^ 53"
  shows "\<exists>r. ratio (int m) (int n) = Fin r \<and> 0 \<le> r \<and> r \<le> 1 \<and> (m = n \<and> 0 < n \<longrightarrow> r = 1)"
proof (cases "n = 0")
  case False
  let ?q = "of_int (int m) / rat_of_int (int n)"
  have "0 \<le> ?q" "?q \<le> 1" using assms(1) False by (simp_all add: divide_le_eq)
  then have "to_float ?q = Fin (rnd ?q)" "0 \<le> rnd ?q" "rnd ?q \<le> 1"
    using to_float_between_ints [of 0 ?q 1] rnd_between_ints [of 0 ?q 1] by simp_all
  then show ?thesis using False by (simp add: ratio_def int_quot_def)
qed (simp add: ratio_def)

text \<open>The counter of packet states: a missing trace is reported on the error stream with exit
  code 1; otherwise the exit code is 0 and the six lines give the path, the number of lines
  that are not blank, how many of them have \<open>ce\<close> (\<open>csn\<close>) last set to 1, and two ratios, which
  are floats between 0 and 1, also for an empty trace.\<close>

theorem count_main_counts:
  "count_main path None = (1, [Err (''error: trace file not found: '' @ path)])
   \<and> (let n = length (records lines); ce = length (filter (marked ''ce'') (records lines));
          csn = length (filter (marked ''csn'') (records lines)) in
      count_main path (Some lines) = (0,
        [Out (''trace_file: '' @ path), Out (''total_packets: '' @ show_int (int n)),
         Out (''ce_packets: '' @ show_int (int ce)), Out (''csn_packets: '' @ show_int (int csn)),
         Out (''ce_ratio: '' @ fmt_fixed 6 (ratio (int ce) (int n))),
         Out (''csn_ratio: '' @ fmt_fixed 6 (ratio (int csn) (int n)))])
      \<and> (int n \<le> 2 ^ 53 \<longrightarrow> (\<exists>r q. ratio (int ce) (int n) = Fin r \<and> 0 \<le> r \<and> r \<le> 1
           \<and> ratio (int csn) (int n) = Fin q \<and> 0 \<le> q \<and> q \<le> 1)))"
proof -
  let ?n = "length (records lines)"
  have "\<exists>r q. ratio (int (length (filter P (records lines)))) (int ?n) = Fin r \<and> 0 \<le> r \<and> r \<le> 1
      \<and> ratio (int (length (filter Q (records lines)))) (int ?n) = Fin q \<and> 0 \<le> q \<and> q \<le> 1"
    if "int ?n \<le> 2 ^ 53" for P Q
    using ratio_unit [OF length_filter_le that, of P] ratio_unit [OF length_filter_le that, of Q] by blast
  then show ?thesis by (simp add: count_main_def fold_count_step Let_def)
qed

theorem count_main_counts_witness:
  "records [''1 ce=1 csn=0'', '' '', ''2 ce=0 csn=1''] = [''1 ce=1 csn=0'', ''2 ce=0 csn=1'']
   \<and> snd (count_main ''t'' (Some [''1 ce=1 csn=0'', '' '', ''2 ce=0 csn=1''])) ! 2 = Out ''ce_packets: 1''"
proof -
  have r: "records [''1 ce=1 csn=0'', '' '', ''2 ce=0 csn=1''] = [''1 ce=1 csn=0'', ''2 ce=0 csn=1'']"
    by code_simp
  moreover have "int (length (filter (marked ''ce'') [''1 ce=1 csn=0'', ''2 ce=0 csn=1''])) = 1" by code_simp
  moreover have "show_int 1 = ''1''" by code_simp
  ultimately show ?thesis
    using count_main_counts [of "''t''" "[''1 ce=1 csn=0'', '' '', ''2 ce=0 csn=1'']"] by (simp add: Let_def)
qed

subsection \<open>The per-link series\<close>

text \<open>What a line contributes: its link and the point, or nothing.\<close>

definition link_sample :: "string \<Rightarrow> string \<Rightarrow> string \<Rightarrow> (string \<times> point) option" where
  "link_sample metric prefix line = (case split_ws line of [] \<Rightarrow> None
     | t # _ \<Rightarrow> do {
         time_ns \<leftarrow> py_float t;
         link \<leftarrow> dget (link_parse_fields line) ''link'';
         v \<leftarrow> dget (link_parse_fields line) metric;
         x \<leftarrow> py_float v;
         if link \<noteq> [] \<and> startswith link prefix then Some (link, fquot time_ns billion, x) else None })"

lemma link_fields_strip: "link_parse_fields (strip line) = link_parse_fields line"
  by (simp add: link_parse_fields_def split_ws_strip)

lemma startswith_Nil [simp]: "startswith s []"
  by (simp add: startswith_def)

lemma link_step_sample:
  "link_step metric prefix line s = Inr s' \<Longrightarrow>
   s' = (case link_sample metric prefix line of None \<Rightarrow> s | Some p \<Rightarrow> dappend (fst p) (snd p) s)"
  by (auto simp: link_step_def link_sample_def Let_def strip_eq_Nil split_ws_strip
      link_fields_strip float_or_raise_def bindR_eq_Inr dget_default_def
      split: if_splits list.splits option.splits)

lemma foldR_link_step:
  "foldR (link_step metric prefix) lines s = Inr s' \<Longrightarrow>
   s' = fold (\<lambda>p. dappend (fst p) (snd p)) (List.map_filter (link_sample metric prefix) lines) s"
proof (induction lines arbitrary: s)
  case (Cons x xs)
  then obtain s1 where s1: "link_step metric prefix x s = Inr s1"
    "foldR (link_step metric prefix) xs s1 = Inr s'" by (auto simp: bindR_eq_Inr)
  then show ?case using Cons.IH [OF s1(2)] link_step_sample [OF s1(1)]
    by (auto simp: map_filter_simps split: option.splits)
qed (simp add: map_filter_simps)

lemma link_sample_key: "link_sample metric prefix line = Some (l, p) \<Longrightarrow> l \<noteq> [] \<and> startswith l prefix"
  by (auto simp: link_sample_def split: list.splits if_splits option.splits elim!: bind_eq_Some_conv [THEN iffD1, elim_format])
text \<open>When the link plotter finishes, the curves it draws are exactly the samples of the
  trace grouped by link: one curve per link that has a sample, links in increasing order and
  beginning with the prefix asked for, no curve empty, each with all points of its link in
  trace order; the exit code is 0 exactly when there is a curve.\<close>

theorem link_main_curves:
  assumes "link_main path (Some lines) metric pre out = Inr (code, msgs, curves)"
  defines "ps \<equiv> List.map_filter (link_sample metric pre) lines"
  shows "set (map fst curves) = fst ` set ps \<and> sorted (map fst curves) \<and> distinct (map fst curves)
    \<and> (\<forall>(l, pts) \<in> set curves. pts \<noteq> [] \<and> pts = map snd (filter (\<lambda>p. fst p = l) ps)
         \<and> l \<noteq> [] \<and> startswith l pre)
    \<and> (code = 0 \<longleftrightarrow> curves \<noteq> []) \<and> code \<in> {0, 1}"
proof -
  obtain series where f: "foldR (link_step metric pre) lines [] = Inr series"
    and m: "if series = [] then code = 1 \<and> curves = []
            else code = 0 \<and> curves = map (\<lambda>l. (l, dget_default series l [])) (sort (dkeys series))"
    using assms(1) by (auto simp: link_main_def bindR_eq_Inr split: if_splits)
  have s: "series = fold (\<lambda>p. dappend (fst p) (snd p)) ps []"
    using foldR_link_step [OF f] by (simp add: ps_def)
  have c: "curves = map (\<lambda>l. (l, dget_default series l [])) (sort (dkeys series))"
    using m by (auto simp: dkeys_def split: if_splits)
  have k: "set (dkeys series) = fst ` set ps" unfolding s pyl.set_keys_group by (simp add: dkeys_def)
  have w: "distinct (dkeys series)"
    using pyl.wf_group [of "[]" ps] by (simp add: s dict_wf_def dkeys_def)
  have p: "p \<in> set ps \<Longrightarrow> fst p \<noteq> [] \<and> startswith (fst p) pre" for p
    using link_sample_key [of metric pre _ "fst p" "snd p"] by (auto simp: ps_def map_filter_def)
  have g: "dget_default series l [] = map snd (filter (\<lambda>p. fst p = l) ps)" for l
    by (simp add: s dget_default_group)
  have "\<forall>(l, pts) \<in> set curves. pts \<noteq> [] \<and> pts = map snd (filter (\<lambda>p. fst p = l) ps)
         \<and> l \<noteq> [] \<and> startswith l pre"
    using k p by (auto simp: c g filter_empty_conv)
  moreover have "map fst curves = sort (dkeys series)" by (simp add: c comp_def)
  moreover have "code = 0 \<longleftrightarrow> curves \<noteq> []" "code \<in> {0, 1}"
    using m c by (auto simp: dkeys_def split: if_splits dest: arg_cong [of _ _ length])
  ultimately show ?thesis using k w by simp
qed

theorem link_main_curves_witness:
  "\<exists>curves. link_main ''t'' (Some [''0 link=b r=2'', ''0 link=a r=1'']) ''r'' [] ''o'' =
     Inr (0, [Out ''trace_file: t'', Out ''series_count: 2'', Out ''metric: r'', Out ''output_png: o''], curves)
   \<and> sorted (map fst curves)"
proof -
  have m: "link_main ''t'' (Some [''0 link=b r=2'', ''0 link=a r=1'']) ''r'' [] ''o'' =
    Inr (0, [Out ''trace_file: t'', Out ''series_count: 2'', Out ''metric: r'', Out ''output_png: o''],
      [(''a'', [(Fin 0, Fin 1)]), (''b'', [(Fin 0, Fin 2)])])"
    by code_simp
  show ?thesis by (rule exI, rule conjI, rule m, rule link_main_curves [OF m, THEN conjunct2, THEN conjunct1])
qed

subsection \<open>The per-sender bucket series\<close>

definition bucket_rows :: "string list \<Rightarrow> fields list" where
  "bucket_rows lines = filter (\<lambda>r. r \<noteq> []) (map bucket_parse_kv_line lines)"

definition row_sender :: "fields \<Rightarrow> string" where
  "row_sender row = dget_default row ''sender'' ''unknown''"

definition row_time :: "fields \<Rightarrow> int option" where
  "row_time row = py_int (dget_default row ''time_ns'' ''0'')"

definition row_bucket :: "fields \<Rightarrow> int option" where
  "row_bucket row = py_int (dget_default row ''senderGlobalAvailPkts'' ''0'')"

definition row_event :: "fields \<Rightarrow> string" where
  "row_event row = dget_default row ''event'' []"

definition bucket_ok :: "string \<Rightarrow> bool" where
  "bucket_ok raw \<longleftrightarrow> (let r = bucket_parse_kv_line raw in r = [] \<or> row_time r \<noteq> None \<and> row_bucket r \<noteq> None)"

definition bucket_pure :: "string \<Rightarrow> bucket_state \<Rightarrow> bucket_state" where
  "bucket_pure raw s = (case bucket_step raw s of Inr s' \<Rightarrow> s' | Inl _ \<Rightarrow> s)"

lemma bucket_step_pure:
  "bucket_step raw s = (if bucket_ok raw then Inr (bucket_pure raw s) else Inl ValueError)"
  by (auto simp: bucket_step_def bucket_pure_def bucket_ok_def row_time_def row_bucket_def Let_def
      int_or_raise_def split: option.splits)

lemma bucket_fold:
  assumes "\<forall>l\<in>set lines. bucket_ok l"
  shows "fold bucket_pure lines s =
    (let rows = bucket_rows lines in
     \<lparr>times_by_sender = fold (\<lambda>p. dappend (fst p) (snd p))
         (map (\<lambda>r. (row_sender r, fquot (float_of_int (the (row_time r))) million)) rows) (times_by_sender s),
      bucket_by_sender = fold (\<lambda>p. dappend (fst p) (snd p))
         (map (\<lambda>r. (row_sender r, the (row_bucket r))) rows) (bucket_by_sender s),
      grant_events = grant_events s + int (length (filter (\<lambda>r. row_event r = ''grant'') rows)),
      data_events = data_events s + int (length (filter (\<lambda>r. row_event r = ''data'') rows))\<rparr>)"
  using assms
proof (induction lines arbitrary: s)
  case (Cons l ls)
  show ?case
  proof (cases "bucket_parse_kv_line l = []")
    case True
    then show ?thesis using Cons by (simp add: bucket_pure_def bucket_step_def bucket_rows_def)
  next
    case False
    then obtain t b where "row_time (bucket_parse_kv_line l) = Some t"
      "row_bucket (bucket_parse_kv_line l) = Some b"
      using Cons.prems by (auto simp: bucket_ok_def Let_def)
    then show ?thesis using Cons False
      by (simp add: bucket_pure_def bucket_step_def bucket_rows_def row_time_def row_bucket_def
          int_or_raise_def row_sender_def row_event_def Let_def)
  qed
qed (simp add: bucket_rows_def)

lemma dkeys_dappend: "dkeys (dappend k x d) = (if k \<in> set (dkeys d) then dkeys d else dkeys d @ [k])"
  by (simp add: dappend_def pyd.keys_upd)

lemma dkeys_group_cong:
  "map fst ps = map fst qs \<Longrightarrow> dkeys d = dkeys e \<Longrightarrow>
   dkeys (fold (\<lambda>p. dappend (fst p) (snd p)) ps d) = dkeys (fold (\<lambda>p. dappend (fst p) (snd p)) qs e)"
proof (induction ps arbitrary: qs d e)
  case (Cons p ps)
  then obtain q qs' where "qs = q # qs'" "fst p = fst q" "map fst ps = map fst qs'" by (cases qs) auto
  then show ?case using Cons by (simp add: dkeys_dappend)
qed simp

text \<open>Loading the sender buckets raises a ValueError exactly when a line that is not blank
  has a time or a bucket that is not an integer; otherwise every sender has as many times as
  bucket values, those of its rows in order, both dictionaries list the same senders in the
  same order, and the two event counters count the grant and the data rows.\<close>

theorem load_sender_bucket_rows:
  "let rows = bucket_rows lines in
   if \<exists>l\<in>set lines. \<not> bucket_ok l then load_sender_bucket lines = Inl ValueError
   else \<exists>s. load_sender_bucket lines = Inr s
    \<and> dkeys (times_by_sender s) = dkeys (bucket_by_sender s)
    \<and> set (dkeys (times_by_sender s)) = row_sender ` set rows
    \<and> (\<forall>k. dget_default (times_by_sender s) k [] =
             map (\<lambda>r. fquot (float_of_int (the (row_time r))) million) (filter (\<lambda>r. row_sender r = k) rows)
         \<and> dget_default (bucket_by_sender s) k [] =
             map (\<lambda>r. the (row_bucket r)) (filter (\<lambda>r. row_sender r = k) rows))
    \<and> grant_events s = int (length (filter (\<lambda>r. row_event r = ''grant'') rows))
    \<and> data_events s = int (length (filter (\<lambda>r. row_event r = ''data'') rows))"
proof (cases "\<exists>l\<in>set lines. \<not> bucket_ok l")
  case True
  then show ?thesis using foldR_raises [where f = bucket_step, OF bucket_step_pure] by (simp add: load_sender_bucket_def)
next
  case False
  let ?s0 = "\<lparr>times_by_sender = [], bucket_by_sender = [], grant_events = 0, data_events = 0\<rparr>"
  have "load_sender_bucket lines = Inr (fold bucket_pure lines ?s0)"
    using foldR_pure [where f = bucket_step, OF bucket_step_pure] False by (simp add: load_sender_bucket_def)
  moreover have "map fst (map (\<lambda>r. (row_sender r, f r)) rows) = map row_sender rows" for f :: "fields \<Rightarrow> 'a" and rows
    by simp
  ultimately show ?thesis using False bucket_fold [of lines ?s0]
    by (simp add: Let_def dget_default_group filter_map comp_def pyl.set_keys_group image_image
        dkeys_def [of "[]"] dkeys_group_cong)
qed

end
