(* ===== verification/MsgTrace.thy ===== *)
theory MsgTrace
  imports TraceRows
begin

text \<open>
  Message completion: every script that reads a message trace pairs the lines that start a
  message (\<open>+\<close>) with those that finish it (\<open>-\<close>). Four scripts keep one pending start per
  key in a dictionary (a second start overwrites the first); two keep a queue per key. Each
  parser is modelled as it is written, on the lines of the file; the two disciplines are also
  given once as machines on abstract events, and the parsers are shown to be these machines.
\<close>

subsection \<open>scripts/lab1_plot.py\<close>

record msg_record =
  m_size :: int
  m_src :: string
  m_dst :: string
  m_tx_msg_id :: string
  m_start_ns :: int
  m_finish_ns :: int

definition fct_us :: "msg_record \<Rightarrow> pyfloat" where
  "fct_us r = fquot (float_of_int (m_finish_ns r - m_start_ns r)) thousand"

type_synonym lab1_key = "string \<times> string \<times> string \<times> string \<times> int"

fun lab1_msg_step :: "string \<Rightarrow> (lab1_key, int) dict \<times> msg_record list \<Rightarrow>
    (lab1_key, int) dict \<times> msg_record list" where
  "lab1_msg_step line (starts, recs) = (case split_ws line of
      [event, time_ns_s, size_s, src, dst, tx_msg_id] \<Rightarrow>
        (case py_int time_ns_s of None \<Rightarrow> (starts, recs) | Some time_ns \<Rightarrow>
        (case py_int size_s of None \<Rightarrow> (starts, recs) | Some sz \<Rightarrow>
          let key = (src, dst, tx_msg_id, show_int sz, sz) in
          if event = ''+'' then (dset key time_ns starts, recs)
          else if event = ''-'' then (case dget starts key of
              None \<Rightarrow> (starts, recs)
            | Some start_ns \<Rightarrow> (dpop key starts, recs @
                [\<lparr>m_size = sz, m_src = src, m_dst = dst, m_tx_msg_id = tx_msg_id,
                  m_start_ns = start_ns, m_finish_ns = time_ns\<rparr>]))
          else (starts, recs)))
    | _ \<Rightarrow> (starts, recs))"

definition lab1_parse_msg_trace :: "trace \<Rightarrow> msg_record list" where
  "lab1_parse_msg_trace path = (case path of None \<Rightarrow> []
     | Some lines \<Rightarrow> snd (fold lab1_msg_step lines ([], [])))"

fun count_msg_step :: "int \<Rightarrow> string \<Rightarrow> int \<times> int \<Rightarrow> int \<times> int" where
  "count_msg_step sz line (started, finished) = (case split_ws line of
      [event, _, size_s, _, _, _] \<Rightarrow>
        (case py_int size_s of None \<Rightarrow> (started, finished)
         | Some msg_size \<Rightarrow>
             if msg_size \<noteq> sz then (started, finished)
             else if event = ''+'' then (started + 1, finished)
             else if event = ''-'' then (started, finished + 1)
             else (started, finished))
    | _ \<Rightarrow> (started, finished))"

definition count_msg_events :: "trace \<Rightarrow> int \<Rightarrow> int \<times> int" where
  "count_msg_events path sz = (case path of None \<Rightarrow> (0, 0)
     | Some lines \<Rightarrow> fold (count_msg_step sz) lines (0, 0))"

subsection \<open>scripts/plot_2t2_traces.py\<close>

record t2t2_msg =
  t_sender :: string
  t_receiver :: string
  t_sport :: int
  t_dport :: int
  t_tx_msg_id :: int
  t_msg_size_b :: int
  t_begin_ns :: int
  t_finish_ns :: int
  t_fct_ns :: int

type_synonym t2t2_key = "string \<times> int \<times> string \<times> int \<times> int"

text \<open>\<open>addr, port = text.split(":")\<close> with an integer port; anything else is a ValueError.\<close>

definition endpoint :: "string \<Rightarrow> (string \<times> int) option" where
  "endpoint s = (case split_char CHR '':'' s of [addr, port_s] \<Rightarrow> map_option (Pair addr) (py_int port_s)
     | _ \<Rightarrow> None)"

text \<open>The conversions of one line, all in one \<open>try\<close>.\<close>

definition t2t2_line :: "string list \<Rightarrow> (int \<times> int \<times> t2t2_key) option" where
  "t2t2_line parts = do {
     t_ns \<leftarrow> py_int (parts ! 1);
     size_b \<leftarrow> py_int (parts ! 2);
     (saddr, sport) \<leftarrow> endpoint (parts ! 3);
     (daddr, dport) \<leftarrow> endpoint (parts ! 4);
     tx \<leftarrow> py_int (parts ! 5);
     Some (t_ns, size_b, (saddr, sport, daddr, dport, tx)) }"

fun t2t2_msg_step :: "string \<Rightarrow> (t2t2_key, int \<times> int) dict \<times> t2t2_msg list \<Rightarrow>
    (t2t2_key, int \<times> int) dict \<times> t2t2_msg list" where
  "t2t2_msg_step raw (starts, recs) = (
     let parts = split_ws (strip raw) in
     if length parts < 6 then (starts, recs)
     else (case t2t2_line parts of None \<Rightarrow> (starts, recs)
       | Some (t_ns, size_b, key) \<Rightarrow>
           if hd parts = ''+'' then (dset key (t_ns, size_b) starts, recs)
           else if hd parts = ''-'' then (case dget starts key of
               None \<Rightarrow> (starts, recs)
             | Some (begin_ns, msg_size_b) \<Rightarrow>
                 if t_ns < begin_ns then (dpop key starts, recs)
                 else (case key of (saddr, sport, daddr, dport, tx) \<Rightarrow>
                   (dpop key starts, recs @
                     [\<lparr>t_sender = saddr, t_receiver = daddr, t_sport = sport, t_dport = dport,
                       t_tx_msg_id = tx, t_msg_size_b = msg_size_b, t_begin_ns = begin_ns,
                       t_finish_ns = t_ns, t_fct_ns = t_ns - begin_ns\<rparr>])))
           else (starts, recs)))"

definition t2t2_parse_msg_trace :: "trace \<Rightarrow> t2t2_msg list" where
  "t2t2_parse_msg_trace msg_path = (case msg_path of None \<Rightarrow> []
     | Some lines \<Rightarrow> snd (fold t2t2_msg_step lines ([], [])))"

subsection \<open>scripts/sird-scenarios: plot_paper_fig3_fig4.py and plot_sird_microbench.py\<close>

type_synonym fig3_key = "string \<times> string \<times> int \<times> int"

text \<open>Here a number that does not parse is not caught; the size is compared after the
  conversions. \<open>expected_size\<close> is optional in the second script.\<close>

fun fig3_msg_step :: "int \<Rightarrow> string \<Rightarrow> (fig3_key, int) dict \<times> pyfloat list \<Rightarrow>
    ((fig3_key, int) dict \<times> pyfloat list) result" where
  "fig3_msg_step expected_size line (begin_at, lat_us) = (
     let p = split_ws (strip line) in
     if length p < 6 then Inr (begin_at, lat_us)
     else bindR (int_or_raise (p ! 1)) (\<lambda>t_ns. bindR (int_or_raise (p ! 2)) (\<lambda>sz.
          bindR (int_or_raise (p ! 5)) (\<lambda>tx.
            if sz \<noteq> expected_size then Inr (begin_at, lat_us)
            else let key = (p ! 3, p ! 4, tx, sz) in
              if p ! 0 = ''+'' then Inr (dset key t_ns begin_at, lat_us)
              else if p ! 0 = ''-'' then (case dget begin_at key of
                  None \<Rightarrow> Inr (begin_at, lat_us)
                | Some st \<Rightarrow> Inr (dpop key begin_at,
                    if t_ns \<ge> st then lat_us @ [fquot (float_of_int (t_ns - st)) thousand] else lat_us))
              else Inr (begin_at, lat_us)))))"

definition fig3_parse_msg_trace :: "string list \<Rightarrow> int \<Rightarrow> pyfloat list result" where
  "fig3_parse_msg_trace lines expected_size =
     bindR (foldR (fig3_msg_step expected_size) lines ([], [])) (\<lambda>s. Inr (fsort (snd s)))"

fun micro_msg_step :: "int option \<Rightarrow> string \<Rightarrow> (fig3_key, int) dict \<times> pyfloat list \<Rightarrow>
    ((fig3_key, int) dict \<times> pyfloat list) result" where
  "micro_msg_step expected_size line (begin_at, lat_us) = (
     let line = strip line in
     if line = [] then Inr (begin_at, lat_us)
     else let parts = split_ws line in
     if length parts < 6 then Inr (begin_at, lat_us)
     else bindR (int_or_raise (parts ! 1)) (\<lambda>t_ns. bindR (int_or_raise (parts ! 2)) (\<lambda>sz.
          bindR (int_or_raise (parts ! 5)) (\<lambda>tx_msg_id.
            if expected_size \<noteq> None \<and> sz \<noteq> the expected_size then Inr (begin_at, lat_us)
            else let key = (parts ! 3, parts ! 4, tx_msg_id, sz) in
              if parts ! 0 = ''+'' then Inr (dset key t_ns begin_at, lat_us)
              else if parts ! 0 = ''-'' then (case dget begin_at key of
                  None \<Rightarrow> Inr (begin_at, lat_us)
                | Some start_t \<Rightarrow> Inr (dpop key begin_at,
                    if t_ns \<ge> start_t then lat_us @ [fquot (float_of_int (t_ns - start_t)) thousand]
                    else lat_us))
              else Inr (begin_at, lat_us)))))"

definition micro_parse_msg_trace :: "string list \<Rightarrow> int option \<Rightarrow> pyfloat list result" where
  "micro_parse_msg_trace lines expected_size =
     bindR (foldR (micro_msg_step expected_size) lines ([], [])) (\<lambda>s. Inr (fsort (snd s)))"

subsection \<open>scripts/sim1_plot.py\<close>

type_synonym sim1_key = "string \<times> string \<times> string \<times> int"
type_synonym sim1_msg = "int \<times> int \<times> int \<times> string \<times> string"

text \<open>Reading \<open>starts[key]\<close> of a missing key creates its empty queue.\<close>

fun sim1_msg_step :: "string \<Rightarrow> (sim1_key, int list) dict \<times> sim1_msg list \<Rightarrow>
    (sim1_key, int list) dict \<times> sim1_msg list" where
  "sim1_msg_step line (starts, recs) = (case split_ws line of
      [event, time_ns_s, size_s, src, dst, tx_msg_id] \<Rightarrow>
        (case py_int time_ns_s of None \<Rightarrow> (starts, recs) | Some time_ns \<Rightarrow>
        (case py_int size_s of None \<Rightarrow> (starts, recs) | Some sz \<Rightarrow>
          let key = (src, dst, tx_msg_id, sz); q = dget_default starts key [] in
          if event = ''+'' then (dappend key time_ns starts, recs)
          else if event = ''-'' then (case q of
              [] \<Rightarrow> (dset key [] starts, recs)
            | start_ns # q' \<Rightarrow> (dset key q' starts, recs @ [(start_ns, time_ns, sz, src, dst)]))
          else (starts, recs)))
    | _ \<Rightarrow> (starts, recs))"

definition sim1_parse_msg_trace :: "trace \<Rightarrow> sim1_msg list" where
  "sim1_parse_msg_trace path = (case path of None \<Rightarrow> []
     | Some lines \<Rightarrow> snd (fold sim1_msg_step lines ([], [])))"

subsection \<open>scripts/sird-figures/plot_sird_figures.py\<close>

record completed_msg =
  cm_mode :: string
  cm_load_pct :: int
  cm_sim_idx :: int
  cm_size_bytes :: int
  cm_start_ns :: int
  cm_end_ns :: int

definition cm_fct_us :: "completed_msg \<Rightarrow> pyfloat" where
  "cm_fct_us m = fquot (float_of_int (cm_end_ns m - cm_start_ns m)) thousand"

text \<open>The pattern of a trace line, read on its tokens: white space separates the groups and no
  group can match any. \<open>[0-9.]+:\<backslash>d+\<close> is an address.\<close>

definition all_digits :: "string \<Rightarrow> bool" where
  "all_digits s \<longleftrightarrow> s \<noteq> [] \<and> list_all is_digit s"

definition is_addr :: "string \<Rightarrow> bool" where
  "is_addr s = (case split_once CHR '':'' s of None \<Rightarrow> False
     | Some (a, p) \<Rightarrow> a \<noteq> [] \<and> list_all (\<lambda>c. is_digit c \<or> c = CHR ''.'') a \<and> all_digits p)"

definition msg_trace_match :: "string \<Rightarrow> (string \<times> int \<times> int \<times> string \<times> string \<times> int) option" where
  "msg_trace_match line = (case split_ws line of
      [sign, t, sz, src, dst, txid] \<Rightarrow>
        if (sign = ''+'' \<or> sign = ''-'') \<and> all_digits t \<and> all_digits sz \<and> is_addr src \<and> is_addr dst \<and> all_digits txid
        then do { t \<leftarrow> py_int t; sz \<leftarrow> py_int sz; txid \<leftarrow> py_int txid; Some (sign, t, sz, src, dst, txid) }
        else None
    | _ \<Rightarrow> None)"

type_synonym figs_key = "string \<times> string \<times> int \<times> int"

fun figs_msg_step :: "string \<Rightarrow> int \<Rightarrow> int \<Rightarrow> string \<Rightarrow> (figs_key, int list) dict \<times> completed_msg list \<Rightarrow>
    (figs_key, int list) dict \<times> completed_msg list" where
  "figs_msg_step mode load idx line (starts, fin) = (
     let line = strip line in
     if line = [] then (starts, fin)
     else (case msg_trace_match line of None \<Rightarrow> (starts, fin)
       | Some (sign, t_ns, sz, src, dst, txid) \<Rightarrow>
           let key = (src, dst, txid, sz) in
           if sign = ''+'' then (dappend key t_ns starts, fin)
           else (case dget_default starts key [] of
               [] \<Rightarrow> (dset key [] starts, fin)
             | t0 # q \<Rightarrow> (dset key q starts,
                 if t_ns \<ge> t0 then fin @ [\<lparr>cm_mode = mode, cm_load_pct = load, cm_sim_idx = idx,
                     cm_size_bytes = sz, cm_start_ns = t0, cm_end_ns = t_ns\<rparr>] else fin))))"

text \<open>\<open>FILE_RE\<close> on the file name is a parameter: \<open>None\<close> when it does not match, else load,
  whether it is a sird trace, and the index.\<close>

definition figs_parse_msg_trace :: "(int \<times> bool \<times> int) option \<Rightarrow> string list \<Rightarrow> completed_msg list" where
  "figs_parse_msg_trace m lines = (case m of None \<Rightarrow> []
     | Some (load, sird, idx) \<Rightarrow>
         snd (fold (figs_msg_step (if sird then ''sird'' else ''homa'') load idx) lines ([], [])))"

subsection \<open>The two disciplines on abstract events\<close>

datatype ('k, 'v) mev = Start (mev_key: 'k) (mev_val: 'v) | Finish (mev_key: 'k) (mev_val: 'v)

abbreviation is_start :: "'k \<Rightarrow> ('k, 'v) mev \<Rightarrow> bool" where
  "is_start k e \<equiv> (\<exists>v. e = Start k v)"

abbreviation is_finish :: "'k \<Rightarrow> ('k, 'v) mev \<Rightarrow> bool" where
  "is_finish k e \<equiv> (\<exists>v. e = Finish k v)"

fun pair_step :: "('k \<Rightarrow> 'v \<Rightarrow> 't \<Rightarrow> 't) \<Rightarrow> ('k \<Rightarrow> 't \<Rightarrow> 'v option \<times> 't) \<Rightarrow> ('k, 'v) mev \<Rightarrow>
    't \<times> ('k \<times> 'v \<times> 'v) list \<Rightarrow> 't \<times> ('k \<times> 'v \<times> 'v) list" where
  "pair_step put take_out (Start k v) (t, out) = (put k v t, out)"
| "pair_step put take_out (Finish k v) (t, out) = (case take_out k t of
      (None, t') \<Rightarrow> (t', out)
    | (Some v0, t') \<Rightarrow> (t', out @ [(k, v0, v)]))"

definition latest_take :: "'k \<Rightarrow> ('k, 'v) dict \<Rightarrow> 'v option \<times> ('k, 'v) dict" where
  "latest_take k d = (case dget d k of None \<Rightarrow> (None, d) | Some v \<Rightarrow> (Some v, dpop k d))"

definition queue_take :: "'k \<Rightarrow> ('k, 'v list) dict \<Rightarrow> 'v option \<times> ('k, 'v list) dict" where
  "queue_take k d = (case dget_default d k [] of [] \<Rightarrow> (None, dset k [] d) | v # q \<Rightarrow> (Some v, dset k q d))"

definition latest_run :: "('k, 'v) mev list \<Rightarrow> ('k, 'v) dict \<times> ('k \<times> 'v \<times> 'v) list" where
  "latest_run evs = fold (pair_step dset latest_take) evs ([], [])"

definition queue_run :: "('k, 'v) mev list \<Rightarrow> ('k, 'v list) dict \<times> ('k \<times> 'v \<times> 'v) list" where
  "queue_run evs = fold (pair_step dappend queue_take) evs ([], [])"

text \<open>
  The contract of a table of pending starts: taking out a start for a key removes one that
  was pending for it, nothing pending is the only reason to get none, and other keys are
  not touched. What follows from it holds for every script.
\<close>

locale pending_table =
  fixes put :: "'k \<Rightarrow> 'v \<Rightarrow> 't \<Rightarrow> 't"
    and take_out :: "'k \<Rightarrow> 't \<Rightarrow> 'v option \<times> 't"
    and emp :: "'t"
    and pend :: "'t \<Rightarrow> 'k \<Rightarrow> 'v list"
  assumes pend_emp: "pend emp k = []"
    and put_other: "k' \<noteq> k \<Longrightarrow> pend (put k v t) k' = pend t k'"
    and put_same: "set (pend (put k v t) k) \<subseteq> insert v (set (pend t k))"
    and put_length: "length (pend (put k v t) k) \<le> Suc (length (pend t k))"
    and take_None: "take_out k t = (None, t') \<Longrightarrow> pend t' = pend t \<and> pend t k = []"
    and take_Some: "take_out k t = (Some v, t') \<Longrightarrow>
      pend t k = v # pend t' k \<and> (\<forall>k'. k' \<noteq> k \<longrightarrow> pend t' k' = pend t k')"
begin

text \<open>A finished message was started before, and a pending one too.\<close>

lemma causal:
  "fold (pair_step put take_out) evs (emp, []) = (t, out) \<Longrightarrow>
   (\<forall>k v. v \<in> set (pend t k) \<longrightarrow> Start k v \<in> set evs) \<and>
   (\<forall>k v0 v. (k, v0, v) \<in> set out \<longrightarrow>
      (\<exists>j < length evs. evs ! j = Finish k v \<and> Start k v0 \<in> set (take j evs)))"
proof (induction evs arbitrary: t out rule: rev_induct)
  case (snoc e evs)
  obtain t0 out0 where f: "fold (pair_step put take_out) evs (emp, []) = (t0, out0)" by fastforce
  note IH = snoc.IH [OF f]
  have old: "\<exists>j < length (evs @ [e]). (evs @ [e]) ! j = Finish k v \<and> Start k v0 \<in> set (take j (evs @ [e]))"
    if "(k, v0, v) \<in> set out0" for k v0 v
  proof -
    have "\<exists>j < length evs. evs ! j = Finish k v \<and> Start k v0 \<in> set (take j evs)"
      using IH that by blast
    then obtain j where "j < length evs" "evs ! j = Finish k v" "Start k v0 \<in> set (take j evs)"
      by blast
    then show ?thesis by (intro exI [of _ j]) (simp add: nth_append)
  qed
  show ?case
  proof (cases e)
    case (Start k v)
    then have "t = put k v t0" "out = out0" using snoc.prems f by simp_all
    moreover have "w \<in> set (pend (put k v t0) k') \<Longrightarrow> Start k' w \<in> set (evs @ [e])" for k' w
      using put_same [of k v t0] put_other [of k' k v t0] IH Start by (cases "k' = k") auto
    ultimately show ?thesis using old by auto
  next
    case (Finish k v)
    show ?thesis
    proof (cases "fst (take_out k t0)")
      case None
      then obtain t' where t': "take_out k t0 = (None, t')" by (metis prod.collapse)
      then have "t = t'" "out = out0" using snoc.prems f Finish by simp_all
      then show ?thesis using take_None [OF t'] IH old by auto
    next
      case (Some v0)
      then obtain t' where t': "take_out k t0 = (Some v0, t')" by (metis prod.collapse)
      then have o: "t = t'" "out = out0 @ [(k, v0, v)]" using snoc.prems f Finish by simp_all
      have "Start k v0 \<in> set evs" using take_Some [OF t'] IH by simp
      then have new: "\<exists>j < length (evs @ [e]). (evs @ [e]) ! j = Finish k v \<and> Start k v0 \<in> set (take j (evs @ [e]))"
        using Finish by (intro exI [of _ "length evs"]) simp
      have "w \<in> set (pend t' k') \<Longrightarrow> Start k' w \<in> set (evs @ [e])" for k' w
        using take_Some [OF t'] IH by (cases "k' = k") auto
      then show ?thesis using o old new by auto
    qed
  qed
qed (simp add: pend_emp)

text \<open>No start is used twice, and no finish.\<close>

lemma conserve:
  "fold (pair_step put take_out) evs (emp, []) = (t, out) \<Longrightarrow>
   length (filter (\<lambda>p. fst p = k) out) + length (pend t k) \<le> length (filter (is_start k) evs) \<and>
   length (filter (\<lambda>p. fst p = k) out) \<le> length (filter (is_finish k) evs)"
proof (induction evs arbitrary: t out rule: rev_induct)
  case (snoc e evs)
  obtain t0 out0 where f: "fold (pair_step put take_out) evs (emp, []) = (t0, out0)" by fastforce
  note IH = snoc.IH [OF f]
  show ?case
  proof (cases e)
    case (Start k' v)
    then have "t = put k' v t0" "out = out0" using snoc.prems f by simp_all
    then show ?thesis
      using IH Start put_length [of k' v t0] put_other [of k k' v t0] by (cases "k = k'") auto
  next
    case (Finish k' v)
    show ?thesis
    proof (cases "fst (take_out k' t0)")
      case None
      then obtain t' where t': "take_out k' t0 = (None, t')" by (metis prod.collapse)
      then have "t = t'" "out = out0" using snoc.prems f Finish by simp_all
      then show ?thesis using take_None [OF t'] IH by auto
    next
      case (Some v0)
      then obtain t' where t': "take_out k' t0 = (Some v0, t')" by (metis prod.collapse)
      then have "t = t'" "out = out0 @ [(k', v0, v)]" using snoc.prems f Finish by simp_all
      then show ?thesis using take_Some [OF t'] IH Finish by (cases "k = k'") auto
    qed
  qed
qed (simp add: pend_emp)

end

definition latest_pend :: "('k, 'v) dict \<Rightarrow> 'k \<Rightarrow> 'v list" where
  "latest_pend d k = (case dget d k of None \<Rightarrow> [] | Some v \<Rightarrow> [v])"

interpretation latest: pending_table dset latest_take "[]" latest_pend
  by unfold_locales (auto simp: latest_pend_def latest_take_def dict_simps split: option.splits if_splits)

interpretation queue: pending_table dappend queue_take "[]" "\<lambda>d k. dget_default d k []"
  by unfold_locales (auto simp: queue_take_def dappend_def fun_eq_iff split: list.splits if_splits)
subsection \<open>The overwriting discipline, position by position\<close>

definition last_event :: "'k \<Rightarrow> ('k, 'v) mev list \<Rightarrow> ('k, 'v) mev option" where
  "last_event k evs = find (\<lambda>e. mev_key e = k) (rev evs)"

text \<open>What the event at a position completes: a finish completes the event of its key just
  before it, if that is a start.\<close>

definition completes :: "('k, 'v) mev list \<Rightarrow> nat \<Rightarrow> ('k \<times> 'v \<times> 'v) list" where
  "completes evs i = (case evs ! i of Start k v \<Rightarrow> []
     | Finish k v \<Rightarrow> (case last_event k (take i evs) of Some (Start _ v0) \<Rightarrow> [(k, v0, v)] | _ \<Rightarrow> []))"

definition latest_pairs :: "('k, 'v) mev list \<Rightarrow> ('k \<times> 'v \<times> 'v) list" where
  "latest_pairs evs = concat (map (completes evs) [0..<length evs])"

lemma completes_snoc: "i < length evs \<Longrightarrow> completes (evs @ [e]) i = completes evs i"
  by (auto simp: completes_def nth_append split: mev.split)

lemma latest_pairs_snoc: "latest_pairs (evs @ [e]) = latest_pairs evs @ completes (evs @ [e]) (length evs)"
proof -
  have m: "map (completes (evs @ [e])) [0..<length evs] = map (completes evs) [0..<length evs]"
    by (simp add: completes_snoc)
  show ?thesis by (simp add: latest_pairs_def m)
qed

lemma last_event_snoc: "last_event k (evs @ [e]) = (if mev_key e = k then Some e else last_event k evs)"
  by (simp add: last_event_def)

lemma latest_run_pairs:
  "snd (latest_run evs) = latest_pairs evs \<and>
   (\<forall>k. dget (fst (latest_run evs)) k =
      (case last_event k evs of Some (Start _ v) \<Rightarrow> Some v | _ \<Rightarrow> None))"
proof (induction evs rule: rev_induct)
  case Nil
  then show ?case by (simp add: latest_run_def latest_pairs_def last_event_def dict_simps)
next
  case (snoc e evs)
  obtain st out where r: "latest_run evs = (st, out)" by fastforce
  have s: "latest_run (evs @ [e]) = pair_step dset latest_take e (st, out)"
    using r by (simp add: latest_run_def)
  show ?case
  proof (cases e)
    case (Start k v)
    then show ?thesis using snoc r s
      by (auto simp: latest_pairs_snoc completes_def last_event_snoc dict_simps)
  next
    case (Finish k v)
    then show ?thesis using snoc r s
      by (auto simp: latest_pairs_snoc completes_def last_event_snoc dict_simps latest_take_def
          split: option.splits mev.splits)
  qed
qed

subsection \<open>The parsers run these machines\<close>

definition lab1_event :: "string \<Rightarrow> (lab1_key, int) mev option" where
  "lab1_event line = (case split_ws line of
      [event, time_ns_s, size_s, src, dst, tx] \<Rightarrow> do {
        t \<leftarrow> py_int time_ns_s; sz \<leftarrow> py_int size_s;
        if event = ''+'' then Some (Start (src, dst, tx, show_int sz, sz) t)
        else if event = ''-'' then Some (Finish (src, dst, tx, show_int sz, sz) t)
        else None }
    | _ \<Rightarrow> None)"

definition lab1_events :: "string list \<Rightarrow> (lab1_key, int) mev list" where
  "lab1_events lines = List.map_filter lab1_event lines"

fun lab1_record :: "lab1_key \<times> int \<times> int \<Rightarrow> msg_record" where
  "lab1_record ((src, dst, tx, _, sz), t0, t) =
     \<lparr>m_size = sz, m_src = src, m_dst = dst, m_tx_msg_id = tx, m_start_ns = t0, m_finish_ns = t\<rparr>"

lemma map_filter_Cons: "List.map_filter f (x # xs) = (case f x of None \<Rightarrow> List.map_filter f xs | Some y \<Rightarrow> y # List.map_filter f xs)"
  by (simp add: map_filter_simps)

text \<open>A parser whose body runs a machine on the event of the line, if it has one, and turns
  the pairs the machine puts out into records.\<close>

lemma fold_events:
  assumes "\<And>line st out. step line (st, concat (map r out)) = (case event line of
      None \<Rightarrow> (st, concat (map r out))
    | Some e \<Rightarrow> (case machine e (st, out) of (st', out') \<Rightarrow> (st', concat (map r out'))))"
  shows "fold step lines (st, concat (map r out)) =
    (case fold machine (List.map_filter event lines) (st, out) of (st', out') \<Rightarrow> (st', concat (map r out')))"
proof (induction lines arbitrary: st out)
  case (Cons l ls)
  show ?case
  proof (cases "event l")
    case None
    then show ?thesis using Cons by (simp add: assms map_filter_Cons)
  next
    case (Some e)
    obtain st' out' where "machine e (st, out) = (st', out')" by fastforce
    then show ?thesis using Cons Some by (simp add: assms map_filter_Cons)
  qed
qed (simp add: map_filter_simps)

lemma fold_events_run:
  assumes "\<And>line st out. step line (st, concat (map r out)) = (case event line of
      None \<Rightarrow> (st, concat (map r out))
    | Some e \<Rightarrow> (case machine e (st, out) of (st', out') \<Rightarrow> (st', concat (map r out'))))"
  shows "snd (fold step lines (st, [])) =
    concat (map r (snd (fold machine (List.map_filter event lines) (st, []))))"
  using fold_events [where lines = lines and st = st and out = "[]", OF assms] by (auto split: prod.splits)

lemma lab1_parse_run:
  "lab1_parse_msg_trace (Some lines) = map lab1_record (snd (latest_run (lab1_events lines)))"
proof -
  have s: "lab1_msg_step line (st, concat (map (\<lambda>p. [lab1_record p]) out)) = (case lab1_event line of
      None \<Rightarrow> (st, concat (map (\<lambda>p. [lab1_record p]) out))
    | Some e \<Rightarrow> (case pair_step dset latest_take e (st, out) of
        (st', out') \<Rightarrow> (st', concat (map (\<lambda>p. [lab1_record p]) out'))))" for line st out
    by (auto simp: lab1_event_def latest_take_def Let_def split: list.splits option.splits)
  show ?thesis
    using fold_events_run [where lines = lines and st = "[]", OF s]
    by (simp add: lab1_parse_msg_trace_def latest_run_def lab1_events_def concat_map_singleton)
qed

definition t2t2_event :: "string \<Rightarrow> (t2t2_key, int \<times> int) mev option" where
  "t2t2_event raw = (let parts = split_ws raw in
     if length parts < 6 then None
     else do { (t_ns, size_b, key) \<leftarrow> t2t2_line parts;
        if hd parts = ''+'' then Some (Start key (t_ns, size_b))
        else if hd parts = ''-'' then Some (Finish key (t_ns, size_b))
        else None })"

definition t2t2_events :: "string list \<Rightarrow> (t2t2_key, int \<times> int) mev list" where
  "t2t2_events lines = List.map_filter t2t2_event lines"

fun t2t2_record :: "t2t2_key \<times> (int \<times> int) \<times> (int \<times> int) \<Rightarrow> t2t2_msg list" where
  "t2t2_record ((sa, sp, da, dp, tx), (t0, sz0), (t, sz)) = (if t < t0 then [] else
     [\<lparr>t_sender = sa, t_receiver = da, t_sport = sp, t_dport = dp, t_tx_msg_id = tx,
       t_msg_size_b = sz0, t_begin_ns = t0, t_finish_ns = t, t_fct_ns = t - t0\<rparr>])"

lemma t2t2_parse_run:
  "t2t2_parse_msg_trace (Some lines) = concat (map t2t2_record (snd (latest_run (t2t2_events lines))))"
proof -
  have s: "t2t2_msg_step line (st, concat (map t2t2_record out)) = (case t2t2_event line of
      None \<Rightarrow> (st, concat (map t2t2_record out))
    | Some e \<Rightarrow> (case pair_step dset latest_take e (st, out) of
        (st', out') \<Rightarrow> (st', concat (map t2t2_record out'))))" for line st out
    by (auto simp: t2t2_event_def latest_take_def Let_def split_ws_strip split: option.splits)
  show ?thesis
    using fold_events_run [where lines = lines and st = "[]", OF s]
    by (simp add: t2t2_parse_msg_trace_def latest_run_def t2t2_events_def)
qed

text \<open>The two scripts of sird-scenarios agree; a line they cannot convert makes both fail.\<close>

definition fig3_ok :: "string \<Rightarrow> bool" where
  "fig3_ok line \<longleftrightarrow> (let p = split_ws line in length p < 6 \<or>
     py_int (p ! 1) \<noteq> None \<and> py_int (p ! 2) \<noteq> None \<and> py_int (p ! 5) \<noteq> None)"

definition fig3_event :: "int option \<Rightarrow> string \<Rightarrow> (fig3_key, int) mev option" where
  "fig3_event expected line = (let p = split_ws line in
     if length p < 6 then None
     else do { t \<leftarrow> py_int (p ! 1); sz \<leftarrow> py_int (p ! 2); tx \<leftarrow> py_int (p ! 5);
       if expected \<noteq> None \<and> expected \<noteq> Some sz then None
       else if p ! 0 = ''+'' then Some (Start (p ! 3, p ! 4, tx, sz) t)
       else if p ! 0 = ''-'' then Some (Finish (p ! 3, p ! 4, tx, sz) t) else None })"

definition fig3_events :: "int option \<Rightarrow> string list \<Rightarrow> (fig3_key, int) mev list" where
  "fig3_events expected lines = List.map_filter (fig3_event expected) lines"

definition micro_pure :: "int option \<Rightarrow> string \<Rightarrow> (fig3_key, int) dict \<times> pyfloat list \<Rightarrow>
    (fig3_key, int) dict \<times> pyfloat list" where
  "micro_pure ex line s = (case micro_msg_step ex line s of Inr s' \<Rightarrow> s' | Inl _ \<Rightarrow> s)"

fun fig3_latency :: "fig3_key \<times> int \<times> int \<Rightarrow> pyfloat list" where
  "fig3_latency (_, t0, t) = (if t \<ge> t0 then [fquot (float_of_int (t - t0)) thousand] else [])"

lemma micro_step_pure:
  "micro_msg_step ex line s = (if fig3_ok line then Inr (micro_pure ex line s) else Inl ValueError)"
  by (cases s)
     (auto simp: micro_pure_def fig3_ok_def Let_def split_ws_strip strip_eq_Nil int_or_raise_def
       split: option.splits)

lemma fig3_step_micro: "fig3_msg_step n line s = micro_msg_step (Some n) line s"
  by (cases s) (auto simp: Let_def split_ws_strip strip_eq_Nil int_or_raise_def
     split: option.splits)

lemma micro_step_event:
  "micro_pure ex line (st, concat (map fig3_latency out)) = (case fig3_event ex line of
      None \<Rightarrow> (st, concat (map fig3_latency out))
    | Some e \<Rightarrow> (case pair_step dset latest_take e (st, out) of
        (st', out') \<Rightarrow> (st', concat (map fig3_latency out'))))"
  by (auto simp: micro_pure_def fig3_ok_def fig3_event_def latest_take_def Let_def split_ws_strip
      strip_eq_Nil int_or_raise_def split: option.splits)

lemma micro_parse_run:
  "micro_parse_msg_trace lines ex = (if list_all fig3_ok lines
     then Inr (fsort (concat (map fig3_latency (snd (latest_run (fig3_events ex lines))))))
     else Inl ValueError)"
proof (cases "list_all fig3_ok lines")
  case True
  then have "foldR (micro_msg_step ex) lines ([], []) = Inr (fold (micro_pure ex) lines ([], []))"
    using foldR_pure [where f = "micro_msg_step ex", OF micro_step_pure] by (simp add: list_all_iff)
  then show ?thesis
    using fold_events_run [where lines = lines and st = "[]", OF micro_step_event] True
    by (simp add: micro_parse_msg_trace_def latest_run_def fig3_events_def)
next
  case False
  then have "foldR (micro_msg_step ex) lines ([], []) = Inl ValueError"
    using foldR_raises [where f = "micro_msg_step ex", OF micro_step_pure] by (auto simp: list_all_iff)
  then show ?thesis using False by (simp add: micro_parse_msg_trace_def)
qed

lemma fig3_parse_micro: "fig3_parse_msg_trace lines n = micro_parse_msg_trace lines (Some n)"
proof -
  have "fig3_msg_step n = micro_msg_step (Some n)" by (intro ext) (rule fig3_step_micro)
  then show ?thesis by (simp add: fig3_parse_msg_trace_def micro_parse_msg_trace_def)
qed

definition sim1_event :: "string \<Rightarrow> (sim1_key, int) mev option" where
  "sim1_event line = (case split_ws line of
      [event, time_ns_s, size_s, src, dst, tx] \<Rightarrow> do {
        t \<leftarrow> py_int time_ns_s; sz \<leftarrow> py_int size_s;
        if event = ''+'' then Some (Start (src, dst, tx, sz) t)
        else if event = ''-'' then Some (Finish (src, dst, tx, sz) t)
        else None }
    | _ \<Rightarrow> None)"

definition sim1_events :: "string list \<Rightarrow> (sim1_key, int) mev list" where
  "sim1_events lines = List.map_filter sim1_event lines"

fun sim1_record :: "sim1_key \<times> int \<times> int \<Rightarrow> sim1_msg" where
  "sim1_record ((src, dst, tx, sz), t0, t) = (t0, t, sz, src, dst)"

lemma sim1_parse_run:
  "sim1_parse_msg_trace (Some lines) = map sim1_record (snd (queue_run (sim1_events lines)))"
proof -
  have s: "sim1_msg_step line (st, concat (map (\<lambda>p. [sim1_record p]) out)) = (case sim1_event line of
      None \<Rightarrow> (st, concat (map (\<lambda>p. [sim1_record p]) out))
    | Some e \<Rightarrow> (case pair_step dappend queue_take e (st, out) of
        (st', out') \<Rightarrow> (st', concat (map (\<lambda>p. [sim1_record p]) out'))))" for line st out
    by (auto simp: sim1_event_def queue_take_def Let_def split: list.splits option.splits)
  show ?thesis
    using fold_events_run [where lines = lines and st = "[]", OF s]
    by (simp add: sim1_parse_msg_trace_def queue_run_def sim1_events_def)
qed

definition figs_event :: "string \<Rightarrow> (figs_key, int) mev option" where
  "figs_event line = do { (sign, t, sz, src, dst, txid) \<leftarrow> msg_trace_match line;
     Some (if sign = ''+'' then Start (src, dst, txid, sz) t else Finish (src, dst, txid, sz) t) }"

definition figs_events :: "string list \<Rightarrow> (figs_key, int) mev list" where
  "figs_events lines = List.map_filter figs_event lines"

fun figs_record :: "string \<Rightarrow> int \<Rightarrow> int \<Rightarrow> figs_key \<times> int \<times> int \<Rightarrow> completed_msg list" where
  "figs_record mode load idx ((src, dst, txid, sz), t0, t) = (if t \<ge> t0 then
     [\<lparr>cm_mode = mode, cm_load_pct = load, cm_sim_idx = idx, cm_size_bytes = sz,
       cm_start_ns = t0, cm_end_ns = t\<rparr>] else [])"

lemma figs_parse_run:
  "figs_parse_msg_trace (Some (load, sird, idx)) lines =
     concat (map (figs_record (if sird then ''sird'' else ''homa'') load idx) (snd (queue_run (figs_events lines))))"
proof -
  have m: "msg_trace_match (strip line) = msg_trace_match line" for line
    by (simp add: msg_trace_match_def split_ws_strip)
  have n: "strip line = [] \<Longrightarrow> msg_trace_match line = None" for line
    by (simp add: msg_trace_match_def strip_eq_Nil)
  have s: "figs_msg_step mode load idx line (st, concat (map (figs_record mode load idx) out)) = (case figs_event line of
      None \<Rightarrow> (st, concat (map (figs_record mode load idx) out))
    | Some e \<Rightarrow> (case pair_step dappend queue_take e (st, out) of
        (st', out') \<Rightarrow> (st', concat (map (figs_record mode load idx) out'))))" for mode line st out
    by (auto simp: figs_event_def queue_take_def Let_def m n split: list.splits option.splits)
  show ?thesis
    using fold_events_run [where lines = lines and st = "[]", OF s]
    by (simp add: figs_parse_msg_trace_def queue_run_def figs_events_def)
qed

text \<open>The queue of a key holds its starts that no finish has used, oldest first.\<close>

lemma queue_run_order:
  "map mev_val (filter (is_start k) evs) =
     map (\<lambda>p. fst (snd p)) (filter (\<lambda>p. fst p = k) (snd (queue_run evs))) @ dget_default (fst (queue_run evs)) k []"
proof (induction evs rule: rev_induct)
  case (snoc e evs)
  obtain st out where r: "queue_run evs = (st, out)" by fastforce
  have s: "queue_run (evs @ [e]) = pair_step dappend queue_take e (st, out)"
    using r by (simp add: queue_run_def)
  show ?case using snoc r s
    by (cases e) (auto simp: queue_take_def dappend_def split: list.splits)
qed (simp add: queue_run_def)

text \<open>A finish is left alone only when its key has nothing pending.\<close>

lemma queue_run_finish:
  "snd (queue_run (evs @ [Finish k v])) = snd (queue_run evs) @
     (case dget_default (fst (queue_run evs)) k [] of [] \<Rightarrow> [] | v0 # _ \<Rightarrow> [(k, v0, v)])"
proof -
  obtain st out where r: "queue_run evs = (st, out)" by fastforce
  have "queue_run (evs @ [Finish k v]) = pair_step dappend queue_take (Finish k v) (st, out)"
    using r by (simp add: queue_run_def)
  then show ?thesis using r by (auto simp: queue_take_def split: list.splits)
qed

text \<open>The finishes of a key that find a start pending, by counting alone: \<open>n\<close> starts of the key are open.\<close>

fun used_finishes :: "'k \<Rightarrow> nat \<Rightarrow> ('k, 'v) mev list \<Rightarrow> 'v list" where
  "used_finishes k n [] = []"
| "used_finishes k n (Start j v # evs) = used_finishes k (if j = k then Suc n else n) evs"
| "used_finishes k n (Finish j v # evs) = (if j = k then (if n = 0 then used_finishes k n evs else v # used_finishes k (n - 1) evs)
     else used_finishes k n evs)"

definition open_starts :: "'k \<Rightarrow> nat \<Rightarrow> ('k, 'v) mev list \<Rightarrow> nat" where
  "open_starts k n evs = fold (\<lambda>e n. if mev_key e \<noteq> k then n else case e of Start _ _ \<Rightarrow> Suc n | Finish _ _ \<Rightarrow> n - 1) evs n"

lemma used_finishes_snoc:
  "used_finishes k n (evs @ [e]) = used_finishes k n evs @
     (case e of Start _ _ \<Rightarrow> [] | Finish j v \<Rightarrow> if j = k \<and> open_starts k n evs \<noteq> 0 then [v] else [])"
  by (induction k n evs rule: used_finishes.induct) (auto simp: open_starts_def split: mev.splits)

lemma queue_run_open: "length (dget_default (fst (queue_run evs)) k []) = open_starts k 0 evs"
proof (induction evs rule: rev_induct)
  case (snoc e evs)
  obtain st out where r: "queue_run evs = (st, out)" by fastforce
  have s: "queue_run (evs @ [e]) = pair_step dappend queue_take e (st, out)" using r by (simp add: queue_run_def)
  show ?case using snoc r s
    by (cases e) (auto simp: open_starts_def queue_take_def dappend_def split: list.splits)
qed (simp add: queue_run_def open_starts_def)

lemma queue_run_used:
  "map (\<lambda>p. snd (snd p)) (filter (\<lambda>p. fst p = k) (snd (queue_run evs))) = used_finishes k 0 evs"
proof (induction evs rule: rev_induct)
  case (snoc e evs)
  obtain st out where r: "queue_run evs = (st, out)" by fastforce
  have s: "queue_run (evs @ [e]) = pair_step dappend queue_take e (st, out)" using r by (simp add: queue_run_def)
  have "open_starts k 0 evs = length (dget_default st k [])" using queue_run_open [of evs k] r by simp
  then show ?case using snoc r s
    by (cases e) (auto simp: used_finishes_snoc queue_take_def split: list.splits)
qed (simp add: queue_run_def)

lemma queue_run_zip:
  "map snd (filter (\<lambda>p. fst p = k) (snd (queue_run evs))) = zip (map mev_val (filter (is_start k) evs)) (used_finishes k 0 evs)"
proof -
  have z: "zip (map fst xs @ r) (map snd xs) = xs" for xs :: "('c \<times> 'd) list" and r
    by (induction xs) auto
  show ?thesis using z [of "map snd (filter (\<lambda>p. fst p = k) (snd (queue_run evs)))"]
    by (simp add: queue_run_order queue_run_used [symmetric] comp_def)
qed

text \<open>Without a finish that finds nothing pending, all finishes are used.\<close>

lemma used_all:
  "(\<And>i. length (filter (is_finish k) (take i evs)) \<le> n + length (filter (is_start k) (take i evs))) \<Longrightarrow>
   used_finishes k n evs = map mev_val (filter (is_finish k) evs)"
proof (induction k n evs rule: used_finishes.induct)
  case (2 k n j v evs)
  have "length (filter (is_finish k) (take i evs)) \<le> (if j = k then Suc n else n) + length (filter (is_start k) (take i evs))" for i
    using 2(2) [of "Suc i"] by (auto split: if_splits)
  then show ?case using 2(1) by simp
next
  case (3 k n j v evs)
  have p: "length (filter (is_finish k) (take i evs)) + (if j = k then 1 else 0) \<le> n + length (filter (is_start k) (take i evs))" for i
    using 3(4) [of "Suc i"] by (auto split: if_splits)
  show ?case
  proof (cases "j = k")
    case True
    then have n: "n \<noteq> 0" using p [of 0] by simp
    have q: "length (filter (is_finish k) (take i evs)) \<le> n - 1 + length (filter (is_start k) (take i evs))" for i
      using p [of i] True n by simp
    then have "used_finishes k (n - 1) evs = map mev_val (filter (is_finish k) evs)"
      by (intro 3(2) [OF True n] q)
    then show ?thesis using True n by simp
  next
    case False
    then show ?thesis using 3(3) [OF False] p by simp
  qed
qed simp

text \<open>C2: The four parsers with a dictionary complete a message exactly when a finish line is
  the next line of its message after a start line: the records are those pairs, position by
  position, and a finish with no such start, or a second finish, adds nothing. The parsers of
  sird-scenarios drop pairs that end before they start, sort the latencies, and raise a
  ValueError when a line with six fields has a number they cannot read.\<close>

theorem latest_start_pairing:
  "lab1_parse_msg_trace (Some lines) = map lab1_record (latest_pairs (lab1_events lines))
   \<and> t2t2_parse_msg_trace (Some lines) = concat (map t2t2_record (latest_pairs (t2t2_events lines)))
   \<and> micro_parse_msg_trace lines ex = (if list_all fig3_ok lines
        then Inr (fsort (concat (map fig3_latency (latest_pairs (fig3_events ex lines)))))
        else Inl ValueError)
   \<and> fig3_parse_msg_trace lines n = micro_parse_msg_trace lines (Some n)"
  by (simp add: lab1_parse_run t2t2_parse_run micro_parse_run fig3_parse_micro latest_run_pairs)



subsection \<open>Counting the messages of a size\<close>

lemma length_filter_keys:
  assumes "finite K" "f ` set xs \<subseteq> K"
  shows "length (filter (\<lambda>x. P (f x)) xs) = (\<Sum>k\<in>{k \<in> K. P k}. length (filter (\<lambda>x. f x = k) xs))"
  using assms(2)
proof (induction xs)
  case (Cons x xs)
  have "(\<Sum>k\<in>{k \<in> K. P k}. length (filter (\<lambda>y. f y = k) (x # xs))) =
      (\<Sum>k\<in>{k \<in> K. P k}. (if k = f x then 1 else 0) + length (filter (\<lambda>y. f y = k) xs))"
    by (intro sum.cong) auto
  also have "\<dots> = (if P (f x) then 1 else 0) + length (filter (\<lambda>y. P (f y)) xs)"
    using Cons assms(1) by (simp add: sum.distrib)
  finally show ?case by simp
qed simp

lemma latest_conserve_keys:
  "length (filter (\<lambda>p. P (fst p)) (snd (latest_run evs))) \<le> length (filter (\<lambda>e. P (mev_key e) \<and> e = Start (mev_key e) (mev_val e)) evs) \<and>
   length (filter (\<lambda>p. P (fst p)) (snd (latest_run evs))) \<le> length (filter (\<lambda>e. P (mev_key e) \<and> e = Finish (mev_key e) (mev_val e)) evs)"
proof -
  obtain t out where r: "latest_run evs = (t, out)" by fastforce
  let ?K = "fst ` set out \<union> mev_key ` set evs"
  have c: "length (filter (\<lambda>p. fst p = k) out) \<le> length (filter (is_start k) evs)"
    "length (filter (\<lambda>p. fst p = k) out) \<le> length (filter (is_finish k) evs)" for k
    using latest.conserve [of evs t out k] r by (simp_all add: latest_run_def)
  have g: "length (filter (\<lambda>e. P (mev_key e) \<and> Q e) evs) =
      (\<Sum>k\<in>{k \<in> ?K. P k}. length (filter (\<lambda>e. mev_key e = k \<and> Q e) evs))" for Q
    using length_filter_keys [of ?K mev_key "filter Q evs" P] by (auto simp: conj_commute)
  have o: "length (filter (\<lambda>p. P (fst p)) out) = (\<Sum>k\<in>{k \<in> ?K. P k}. length (filter (\<lambda>p. fst p = k) out))"
    by (rule length_filter_keys) auto
  have k: "(\<lambda>e. mev_key e = k \<and> e = Start (mev_key e) (mev_val e)) = is_start k"
    "(\<lambda>e. mev_key e = k \<and> e = Finish (mev_key e) (mev_val e)) = is_finish k" for k :: 'a
    by (auto simp: fun_eq_iff)
  show ?thesis using r c by (simp add: g o k sum_mono)
qed

lemma length_filter_map_filter:
  "(\<And>l e. f l = Some e \<Longrightarrow> Q e \<Longrightarrow> C l) \<Longrightarrow>
   length (filter Q (List.map_filter f lines)) \<le> length (filter C lines)"
proof (induction lines)
  case (Cons l ls)
  then show ?case using Cons.prems [of l] by (auto simp: map_filter_Cons split: option.splits)
qed (simp add: map_filter_simps)

text \<open>A line that \<open>count_msg_events\<close> counts.\<close>

definition counted :: "string \<Rightarrow> int \<Rightarrow> string \<Rightarrow> bool" where
  "counted mark sz line = (case split_ws line of [event, _, size_s, _, _, _] \<Rightarrow>
     py_int size_s = Some sz \<and> event = mark | _ \<Rightarrow> False)"

lemma count_msg_counted:
  "fold (count_msg_step sz) lines (a, b) =
     (a + int (length (filter (counted ''+'' sz) lines)), b + int (length (filter (counted ''-'' sz) lines)))"
proof (induction lines arbitrary: a b)
  case (Cons l ls)
  have "count_msg_step sz l (a, b) =
     (a + (if counted ''+'' sz l then 1 else 0), b + (if counted ''-'' sz l then 1 else 0))"
    by (auto simp: counted_def split: list.splits option.splits)
  then show ?case using Cons by simp
qed simp

fun lab1_key_size :: "lab1_key \<Rightarrow> int" where
  "lab1_key_size (_, _, _, _, s) = s"

lemma lab1_event_counted:
  "lab1_event l = Some e \<Longrightarrow> lab1_key_size (mev_key e) = sz \<Longrightarrow>
   (e = Start (mev_key e) (mev_val e) \<longrightarrow> counted ''+'' sz l) \<and>
   (e = Finish (mev_key e) (mev_val e) \<longrightarrow> counted ''-'' sz l)"
  by (auto simp: lab1_event_def counted_def bind_eq_Some_conv split: list.splits if_splits)

lemma sorted_take_le:
  "sorted (map f xs) \<Longrightarrow> j < length xs \<Longrightarrow> x \<in> set (take j xs) \<Longrightarrow> f x \<le> f (xs ! j)"
proof -
  assume s: "sorted (map f xs)" "j < length xs" "x \<in> set (take j xs)"
  then obtain i where "i < j" "x = xs ! i" by (auto simp: in_set_conv_nth)
  then show ?thesis using s sorted_nth_mono [of "map f xs" i j] by simp
qed

text \<open>The summary of lab1 never counts more completed messages of a size than were started
  or than were finished, so its \<open>incomplete\<close> column is consistent with its rows; every
  record has a start line before its finish line; and when the trace is in time order no
  completion time is negative.\<close>

theorem lab1_records_sound:
  assumes "count_msg_events (Some lines) sz = (started, finished)"
  shows "int (length (filter (\<lambda>r. m_size r = sz) (lab1_parse_msg_trace (Some lines)))) \<le> min started finished
   \<and> (\<forall>r \<in> set (lab1_parse_msg_trace (Some lines)). \<exists>k j. j < length (lab1_events lines)
        \<and> lab1_events lines ! j = Finish k (m_finish_ns r)
        \<and> Start k (m_start_ns r) \<in> set (take j (lab1_events lines))
        \<and> (sorted (map mev_val (lab1_events lines)) \<longrightarrow> m_start_ns r \<le> m_finish_ns r))"
proof (intro conjI ballI)
  let ?evs = "lab1_events lines" let ?P = "\<lambda>k. lab1_key_size k = sz"
  have n: "length (filter (\<lambda>r. m_size r = sz) (lab1_parse_msg_trace (Some lines))) =
      length (filter (\<lambda>p. ?P (fst p)) (snd (latest_run ?evs)))"
  proof -
    have "(m_size (lab1_record p) = sz) = ?P (fst p)" for p by (cases p rule: lab1_record.cases) simp
    then show ?thesis by (simp add: lab1_parse_run filter_map comp_def)
  qed
  have c: "lab1_event l = Some e \<Longrightarrow> ?P (mev_key e) \<and> e = Start (mev_key e) (mev_val e) \<Longrightarrow> counted ''+'' sz l"
    "lab1_event l = Some e \<Longrightarrow> ?P (mev_key e) \<and> e = Finish (mev_key e) (mev_val e) \<Longrightarrow> counted ''-'' sz l" for l e
    using lab1_event_counted [of l e sz] by blast+
  have "length (filter (\<lambda>e. ?P (mev_key e) \<and> e = Start (mev_key e) (mev_val e)) ?evs) \<le> length (filter (counted ''+'' sz) lines)"
    unfolding lab1_events_def by (rule length_filter_map_filter) (rule c(1))
  moreover have "length (filter (\<lambda>e. ?P (mev_key e) \<and> e = Finish (mev_key e) (mev_val e)) ?evs) \<le> length (filter (counted ''-'' sz) lines)"
    unfolding lab1_events_def by (rule length_filter_map_filter) (rule c(2))
  ultimately show "int (length (filter (\<lambda>r. m_size r = sz) (lab1_parse_msg_trace (Some lines)))) \<le> min started finished"
    using assms n latest_conserve_keys [of ?P ?evs]
    by (simp add: count_msg_events_def count_msg_counted)
  fix r assume "r \<in> set (lab1_parse_msg_trace (Some lines))"
  then obtain p where p: "p \<in> set (snd (latest_run ?evs))" "r = lab1_record p" by (auto simp: lab1_parse_run)
  then obtain k t0 t where k: "p = (k, t0, t)" "m_start_ns r = t0" "m_finish_ns r = t"
    by (cases p rule: lab1_record.cases) auto
  obtain st out where st: "latest_run ?evs = (st, out)" by fastforce
  then have "(k, t0, t) \<in> set out" using p(1) k(1) by simp
  then obtain j where j: "j < length ?evs" "?evs ! j = Finish k t" "Start k t0 \<in> set (take j ?evs)"
    using latest.causal [of ?evs st out] st unfolding latest_run_def by blast
  then show "\<exists>k j. j < length ?evs \<and> ?evs ! j = Finish k (m_finish_ns r)
      \<and> Start k (m_start_ns r) \<in> set (take j ?evs)
      \<and> (sorted (map mev_val ?evs) \<longrightarrow> m_start_ns r \<le> m_finish_ns r)"
    using k sorted_take_le [of mev_val ?evs j "Start k t0"] by (intro exI [of _ k] exI [of _ j]) simp
qed

theorem lab1_records_sound_witness:
  "length (filter (\<lambda>r. m_size r = 8) (lab1_parse_msg_trace (Some [''+ 1 8 a b m'', ''- 5 8 a b m'', ''- 6 8 a b m'']))) \<le> 1"
proof -
  have "count_msg_events (Some [''+ 1 8 a b m'', ''- 5 8 a b m'', ''- 6 8 a b m'']) 8 = (1, 2)" by code_simp
  from lab1_records_sound [OF this] show ?thesis by simp
qed

end
