(* ===== verification/Lab1.thy ===== *)
theory Lab1
  imports MsgTrace
begin

text \<open>
  scripts/lab1_plot.py: the row loaders, the windowed counter series, the figures and the
  summary. A trace directory is a function from file names to traces. A figure is modelled by
  its file name, its title and its labelled curves; axis labels, sizes and colours are left
  out. A figure without a curve is not written.
\<close>

subsection \<open>Row loaders\<close>

definition seconds :: "int \<Rightarrow> pyfloat" where
  "seconds time_ns = fquot (float_of_int time_ns) billion"

text \<open>A line whose \<open>sel\<close> field is the wanted one gives a row, unless the value is missing or
  not a number.\<close>

definition parse_receiver_egress_queue :: "trace \<Rightarrow> point list" where
  "parse_receiver_egress_queue path = (case path of None \<Rightarrow> [] | Some lines \<Rightarrow>
     List.map_filter (\<lambda>line. case lab1_parse_kv_line line of
         (None, _) \<Rightarrow> None
       | (Some time_ns, vals) \<Rightarrow>
           if dget vals ''queue'' \<noteq> Some ''switch_port_to_receiver'' then None
           else do { p \<leftarrow> dget vals ''packets''; x \<leftarrow> py_float p; Some (seconds time_ns, x) }) lines)"

definition parse_receiver_throughput :: "trace \<Rightarrow> point list" where
  "parse_receiver_throughput path = (case path of None \<Rightarrow> [] | Some lines \<Rightarrow>
     List.map_filter (\<lambda>line. case lab1_parse_kv_line line of
         (None, _) \<Rightarrow> None
       | (Some time_ns, vals) \<Rightarrow>
           if dget vals ''link'' \<noteq> Some ''switch_to_receiver'' then None
           else do { p \<leftarrow> dget vals ''instGbps''; x \<leftarrow> py_float p; Some (seconds time_ns, x) }) lines)"

text \<open>\<open>rows[values["link"]]\<close> is evaluated before the value is converted, so a link whose
  samples are all malformed is there with an empty list.\<close>

definition all_link_step :: "string \<Rightarrow> (string, point list) dict \<Rightarrow> (string, point list) dict" where
  "all_link_step line rows = (case lab1_parse_kv_line line of
      (None, _) \<Rightarrow> rows
    | (Some time_ns, vals) \<Rightarrow> (case dget vals ''link'' of
        None \<Rightarrow> rows
      | Some link \<Rightarrow>
          let rows = (if dget rows link = None then dset link [] rows else rows) in
          (case do { g \<leftarrow> dget vals ''instGbps''; py_float g } of
             None \<Rightarrow> rows | Some x \<Rightarrow> dappend link (seconds time_ns, x) rows)))"

definition parse_all_link_throughput :: "trace \<Rightarrow> (string, point list) dict" where
  "parse_all_link_throughput path = (case path of None \<Rightarrow> []
     | Some lines \<Rightarrow> fold all_link_step lines [])"

record sird_loop_sample =
  ls_time_s :: pyfloat
  ls_receiver :: string
  ls_sender :: string
  ls_net_budget_pkts :: pyfloat
  ls_host_budget_pkts :: pyfloat
  ls_effective_budget_pkts :: pyfloat
  ls_sender_ce :: bool
  ls_sender_csn :: bool
  ls_ce_ewma :: pyfloat
  ls_sender_credits_in_use_pkts :: int
  ls_global_credits_in_use_pkts :: int
  ls_global_budget_pkts :: int
  ls_ce_marks_observed :: int
  ls_csn_marks_observed :: int
  ls_data_pkts_observed :: int
  ls_event_type :: int

definition sird_loop_row :: "string \<Rightarrow> sird_loop_sample option" where
  "sird_loop_row line = (case lab1_parse_kv_line line of
      (None, _) \<Rightarrow> None
    | (Some time_ns, vals) \<Rightarrow>
        let text = dget vals;
            real = (\<lambda>k. do { v \<leftarrow> text k; py_float v });
            num = (\<lambda>k. do { v \<leftarrow> text k; py_int v }) in
        do {
          receiver \<leftarrow> text ''receiver'';
          sender \<leftarrow> text ''sender'';
          net \<leftarrow> real ''netBudgetPkts'';
          host \<leftarrow> real ''hostBudgetPkts'';
          eff \<leftarrow> real ''effectiveBudgetPkts'';
          ce \<leftarrow> num ''senderCe'';
          csn \<leftarrow> num ''senderCsn'';
          ewma \<leftarrow> real ''ceEwma'';
          in_use \<leftarrow> num ''senderCreditsInUsePkts'';
          g_in_use \<leftarrow> num ''globalCreditsInUsePkts'';
          g_budget \<leftarrow> num ''globalBudgetPkts'';
          ce_marks \<leftarrow> num ''ceMarksObserved'';
          csn_marks \<leftarrow> num ''csnMarksObserved'';
          data_pkts \<leftarrow> num ''dataPktsObserved'';
          ev \<leftarrow> num ''eventType'';
          Some \<lparr>ls_time_s = seconds time_ns, ls_receiver = receiver, ls_sender = sender,
            ls_net_budget_pkts = net, ls_host_budget_pkts = host, ls_effective_budget_pkts = eff,
            ls_sender_ce = (ce \<noteq> 0), ls_sender_csn = (csn \<noteq> 0), ls_ce_ewma = ewma,
            ls_sender_credits_in_use_pkts = in_use, ls_global_credits_in_use_pkts = g_in_use,
            ls_global_budget_pkts = g_budget, ls_ce_marks_observed = ce_marks,
            ls_csn_marks_observed = csn_marks, ls_data_pkts_observed = data_pkts, ls_event_type = ev\<rparr> })"

definition parse_sird_loop_trace :: "trace \<Rightarrow> sird_loop_sample list" where
  "parse_sird_loop_trace path = (case path of None \<Rightarrow> []
     | Some lines \<Rightarrow> List.map_filter sird_loop_row lines)"

subsection \<open>Names and times\<close>

definition trim_time :: "point list \<Rightarrow> pyfloat option \<Rightarrow> point list" where
  "trim_time rows start_sec = (case start_sec of None \<Rightarrow> rows
     | Some s \<Rightarrow> map (\<lambda>(t, v). (fsub t s, v)) (filter (\<lambda>(t, v). fle s t) rows))"

definition human_size :: "int \<Rightarrow> string" where
  "human_size sz = (if sz < 1000 then show_int sz @ ''B''
     else if sz < 1000 * 1000 then fmt_fixed 0 (int_quot sz 1000) @ ''KB''
     else fmt_fixed 0 (fquot (int_quot sz 1000) thousand) @ ''MB'')"

definition infer_label :: "string \<Rightarrow> string" where
  "infer_label tag = replace ''_'' '' '' (replace ''probe_'' [] (replace ''incast_'' []
     (replace ''receiver-congestion_'' [] tag)))"

definition sanitize_sender :: "string \<Rightarrow> string" where
  "sanitize_sender s = replace ''.'' ''_'' (replace '':'' ''_'' s)"

subsection \<open>Events per window\<close>

text \<open>The counters are cumulative; a window gets the increases that its samples show, and a
  counter that goes down adds nothing.\<close>

definition window_step :: "pyfloat \<Rightarrow> pyfloat \<Rightarrow> (sird_loop_sample \<Rightarrow> int) \<Rightarrow> sird_loop_sample \<Rightarrow>
    int \<times> (int, int) dict \<Rightarrow> (int \<times> (int, int) dict) result" where
  "window_step base_time window_sec counter_attr sample s = (case s of (prev_value, bucket_counts) \<Rightarrow>
     let current_value = counter_attr sample;
         delta = max 0 (current_value - prev_value)
     in bindR (fdiv (fmax (Fin 0) (fsub (ls_time_s sample) base_time)) window_sec) (\<lambda>q.
        bindR (fint q) (\<lambda>bucket_idx. Inr (current_value, dadd bucket_idx delta bucket_counts))))"

definition build_windowed_count_series :: "sird_loop_sample list \<Rightarrow> pyfloat option \<Rightarrow> pyfloat \<Rightarrow>
    (sird_loop_sample \<Rightarrow> int) \<Rightarrow> (pyfloat \<times> int) list result" where
  "build_windowed_count_series samples start_sec window_sec counter_attr = (
     let filtered = filter (\<lambda>sample. case start_sec of None \<Rightarrow> True
           | Some s \<Rightarrow> fle s (ls_time_s sample)) samples in
     if filtered = [] then Inr []
     else let base_time = (case start_sec of Some s \<Rightarrow> s | None \<Rightarrow> ls_time_s (hd filtered)) in
       bindR (foldR (window_step base_time window_sec counter_attr) filtered (0, []))
         (\<lambda>(_, bucket_counts). Inr (map (\<lambda>idx. (fmul (float_of_int idx) window_sec, dget_default bucket_counts idx 0))
            (sort (dkeys bucket_counts)))))"

subsection \<open>The windows account for every event\<close>

fun increases :: "int \<Rightarrow> int list \<Rightarrow> int" where
  "increases p [] = 0"
| "increases p (x # xs) = max 0 (x - p) + increases x xs"

lemma increases_sorted: "sorted (p # xs) \<Longrightarrow> increases p xs = (if xs = [] then 0 else last xs - p)"
  by (induction xs arbitrary: p) auto

lemma sum_dadd: "dict_wf d \<Longrightarrow> sum_list (map snd (dadd k n d)) = sum_list (map snd d) + n"
proof (induction d)
  case (Cons p d)
  obtain k' v where p: "p = (k', v)" by fastforce
  have s: "dset k w ((k', v) # d) = (if k' = k then (k, w) # d else (k', v) # dset k w d)" for w by simp
  show ?case
  proof (cases "k' = k")
    case True
    then show ?thesis by (simp add: p dadd_def dget_default_def dget_def)
  next
    case False
    then have "dget_default (p # d) k 0 = dget_default d k 0" by (simp add: p dget_default_def dget_def)
    then show ?thesis using Cons False by (simp add: p dadd_def dict_wf_Cons)
  qed
qed (simp add: dadd_def)

lemma dadd_nonneg: "\<forall>p\<in>set d. 0 \<le> snd p \<Longrightarrow> 0 \<le> n \<Longrightarrow> \<forall>p\<in>set (dadd k n d). 0 \<le> snd p"
proof -
  assume a: "\<forall>p\<in>set d. 0 \<le> snd p" "0 \<le> n"
  have "0 \<le> dget_default d k 0"
    using a(1) by (fastforce simp: dget_default_def dget_def split: option.splits dest: map_of_SomeD)
  moreover have "\<forall>p\<in>set (dset k v d). 0 \<le> snd p" if "0 \<le> v" for v
    using a(1) that by (induction d) (fastforce split: if_splits)+
  ultimately show ?thesis unfolding dadd_def using a(2) by (metis add_nonneg_nonneg)
qed

lemma window_step_Inr:
  "window_step b w attr x (p, d) = Inr s \<Longrightarrow> \<exists>i. s = (attr x, dadd i (max 0 (attr x - p)) d)"
  by (auto simp: window_step_def bindR_eq_Inr Let_def)

lemma window_fold:
  assumes "foldR (window_step b w attr) xs (p, d) = Inr (q, d')" "dict_wf d" "\<forall>p\<in>set d. 0 \<le> snd p"
  shows "sum_list (map snd d') = sum_list (map snd d) + increases p (map attr xs)
    \<and> dict_wf d' \<and> (\<forall>p\<in>set d'. 0 \<le> snd p)"
  using assms
proof (induction xs arbitrary: p d)
  case (Cons x xs)
  then obtain i where i: "foldR (window_step b w attr) xs (attr x, dadd i (max 0 (attr x - p)) d) = Inr (q, d')"
    using window_step_Inr [of b w attr x p d] by (auto simp: bindR_eq_Inr)
  have "dict_wf (dadd i (max 0 (attr x - p)) d)" using Cons.prems(2) by (simp add: dadd_def pyd.wf_upd)
  from Cons.IH [OF i this dadd_nonneg] show ?case using Cons.prems by (simp add: sum_dadd)
qed simp

lemma map_dget_dkeys: "dict_wf d \<Longrightarrow> map (\<lambda>k. dget_default d k w) (dkeys d) = map snd d"
proof (induction d)
  case (Cons p d)
  then show ?case
    by (cases p) (auto simp: dkeys_def dict_wf_def dget_default_def dget_def cong: map_cong
        intro!: map_cong [OF refl, THEN trans])
qed (simp add: dkeys_def)

lemma sum_list_sort: "sum_list (map f (sort xs)) = (sum_list (map f xs) :: int)"
  by (metis mset_map mset_sort sum_mset_sum_list)

text \<open>No time of a simulation makes the division or the conversion fail.\<close>

definition time_ok :: "pyfloat \<Rightarrow> bool" where
  "time_ok t = (case t of Fin x \<Rightarrow> 0 \<le> x \<and> x \<le> 2 ^ 33 | _ \<Rightarrow> False)"

lemma rnd_nonneg: "0 \<le> x \<Longrightarrow> 0 \<le> rnd x"
  using rnd_mono [of 0 x] by simp

lemma window_step_returns:
  assumes "time_ok (ls_time_s s)" "time_ok b" "w = Fin x" "1 / 2 ^ 20 \<le> x"
  shows "\<exists>s'. window_step b w attr s st = Inr s'"
proof -
  obtain t u where t: "ls_time_s s = Fin t" "b = Fin u" "0 \<le> t" "t \<le> 2 ^ 33" "0 \<le> u" "u \<le> 2 ^ 33"
    using assms(1,2) by (auto simp: time_ok_def split: pyfloat.splits)
  have d: "of_int (- (2 ^ 33)) \<le> t - u" "t - u \<le> of_int (2 ^ 33)" using t by simp_all
  have f: "fsub (ls_time_s s) b = Fin (rnd (t - u))"
    using to_float_between_ints [OF d] t by (simp add: fsub_def)
  let ?m = "max 0 (rnd (t - u))"
  have m: "fmax (Fin 0) (fsub (ls_time_s s) b) = Fin ?m" "0 \<le> ?m" "?m \<le> 2 ^ 33"
    using rnd_between_ints [OF d] by (auto simp: f fmax_def)
  have x: "0 < x" using assms(4) by (rule less_le_trans [rotated]) simp
  have "(2::rat) ^ 33 = 2 ^ 53 * (1 / 2 ^ 20)" by simp
  also have "\<dots> \<le> 2 ^ 53 * x" by (rule mult_left_mono [OF assms(4)]) simp
  finally have "?m / x \<le> 2 ^ 53" using m(3) x by (simp add: divide_le_eq)
  moreover have "0 \<le> ?m / x" using m(2) x by (rule divide_nonneg_pos)
  ultimately have "to_float (?m / x) = Fin (rnd (?m / x))"
    by (intro to_float_between_ints [of 0 _ "2 ^ 53"]) simp_all
  then have "fdiv (fmax (Fin 0) (fsub (ls_time_s s) b)) w = Inr (Fin (rnd (?m / x)))"
    using m(1) x assms(3) by (simp add: fdiv_def)
  then show ?thesis by (auto simp: window_step_def Let_def split: prod.splits)
qed

text \<open>C10: The windowed event counts of lab1 lose and invent nothing: for samples with times that
  a simulation can have and any window of at least a microsecond the series is produced, no
  window count is negative, the counts add up to the increases of the counter over the samples
  from the start time on, and so, for a counter that never goes down, to its final value.\<close>

theorem window_counts_total:
  assumes "\<forall>s\<in>set samples. time_ok (ls_time_s s)" "start = None \<or> time_ok (the start)"
    and "w = Fin x" "1 / 2 ^ 20 \<le> x"
  defines "kept \<equiv> filter (\<lambda>s. start = None \<or> fle (the start) (ls_time_s s)) samples"
  shows "\<exists>rows. build_windowed_count_series samples start w attr = Inr rows
    \<and> sum_list (map snd rows) = increases 0 (map attr kept)
    \<and> (\<forall>r\<in>set rows. 0 \<le> snd r)
    \<and> (kept \<noteq> [] \<and> sorted (0 # map attr kept) \<longrightarrow> sum_list (map snd rows) = attr (last kept))"
proof -
  have k: "filter (\<lambda>s. case start of None \<Rightarrow> True | Some t \<Rightarrow> fle t (ls_time_s s)) samples = kept"
    unfolding kept_def by (rule filter_cong) (auto split: option.splits)
  show ?thesis
  proof (cases "kept = []")
    case True
    then show ?thesis by (simp add: build_windowed_count_series_def k)
  next
    case False
    let ?b = "case start of Some s \<Rightarrow> s | None \<Rightarrow> ls_time_s (hd kept)"
    have sub: "set kept \<subseteq> set samples" by (auto simp: kept_def)
    then have b: "time_ok ?b" using assms(1,2) False by (auto split: option.splits dest: hd_in_set)
    obtain q d where f: "foldR (window_step ?b w attr) kept (0, []) = Inr (q, d)"
      using foldR_returns [of kept "window_step ?b w attr" "(0, [])"]
        window_step_returns [OF _ b assms(3,4), of _ attr] sub assms(1) by (metis subsetD surj_pair)
    note w = window_fold [OF f pyd.wf_emp]
    let ?rows = "map (\<lambda>i. (fmul (float_of_int i) w, dget_default d i 0)) (sort (dkeys d))"
    have r: "build_windowed_count_series samples start w attr = Inr ?rows"
      using False f by (simp add: build_windowed_count_series_def k Let_def)
    have "sum_list (map snd ?rows) = sum_list (map (\<lambda>i. dget_default d i 0) (dkeys d))"
      by (simp add: comp_def sum_list_sort)
    then have s: "sum_list (map snd ?rows) = increases 0 (map attr kept)"
      using w by (simp add: map_dget_dkeys)
    have "\<forall>i. 0 \<le> dget_default d i 0"
      using w by (auto simp: dget_default_def dget_def split: option.splits dest!: map_of_SomeD)
    then have "\<forall>r\<in>set ?rows. 0 \<le> snd r" by auto
    then show ?thesis using r s increases_sorted [of 0 "map attr kept"] False
      by (intro exI [of _ ?rows]) (simp add: last_map)
  qed
qed

definition sample_at :: "rat \<Rightarrow> int \<Rightarrow> sird_loop_sample" where
  "sample_at t n = \<lparr>ls_time_s = Fin t, ls_receiver = [], ls_sender = [], ls_net_budget_pkts = Fin 0,
     ls_host_budget_pkts = Fin 0, ls_effective_budget_pkts = Fin 0, ls_sender_ce = False,
     ls_sender_csn = False, ls_ce_ewma = Fin 0, ls_sender_credits_in_use_pkts = 0,
     ls_global_credits_in_use_pkts = 0, ls_global_budget_pkts = 0, ls_ce_marks_observed = n,
     ls_csn_marks_observed = 0, ls_data_pkts_observed = 0, ls_event_type = 0\<rparr>"

theorem window_counts_total_witness:
  "\<exists>rows. build_windowed_count_series [sample_at 0 3, sample_at 1 3, sample_at 2 8] None (Fin 1) ls_ce_marks_observed = Inr rows
     \<and> sum_list (map snd rows) = 8"
proof -
  have "\<forall>s\<in>set [sample_at 0 3, sample_at 1 3, sample_at 2 8]. time_ok (ls_time_s s)"
    by (simp add: sample_at_def time_ok_def)
  from window_counts_total [OF this, of None "Fin 1" 1 ls_ce_marks_observed]
  show ?thesis by (auto simp: sample_at_def)
qed

subsection \<open>Figures\<close>

record figure =
  fig_name :: string
  fig_title :: string
  fig_curves :: "curve list"

text \<open>\<open>plt.plot(xs, ys, label=...)\<close> for the tags that have rows.\<close>

definition tag_curves :: "(string \<Rightarrow> point list) \<Rightarrow> string list \<Rightarrow> curve list" where
  "tag_curves rows tags = map (\<lambda>tag. (infer_label tag, rows tag)) (filter (\<lambda>tag. rows tag \<noteq> []) tags)"

definition drawn :: "string \<Rightarrow> string \<Rightarrow> curve list \<Rightarrow> figure list" where
  "drawn name title curves = (if curves = [] then []
     else [\<lparr>fig_name = name, fig_title = title, fig_curves = curves\<rparr>])"

definition plot_queue_timeseries :: "(string \<Rightarrow> trace) \<Rightarrow> string list \<Rightarrow> pyfloat option \<Rightarrow> figure list" where
  "plot_queue_timeseries trace_dir tags start_sec =
     drawn ''lab1_receiver_queue_pkts_timeseries.png'' ''Receiver-facing switch egress queue''
       (tag_curves (\<lambda>tag. trim_time (parse_receiver_egress_queue
          (trace_dir (''lab1_'' @ tag @ ''.switch-egress-queue.tr''))) start_sec) tags)"

definition plot_receiver_throughput :: "(string \<Rightarrow> trace) \<Rightarrow> string list \<Rightarrow> pyfloat option \<Rightarrow> figure list" where
  "plot_receiver_throughput trace_dir tags start_sec =
     drawn ''lab1_receiver_throughput_timeseries.png'' ''Receiver downlink throughput''
       (tag_curves (\<lambda>tag. trim_time (parse_receiver_throughput
          (trace_dir (''lab1_'' @ tag @ ''.link-throughput.tr''))) start_sec) tags)"

definition plot_all_link_throughput :: "(string \<Rightarrow> trace) \<Rightarrow> string list \<Rightarrow> pyfloat option \<Rightarrow> figure list" where
  "plot_all_link_throughput trace_dir tags start_sec = concat (map (\<lambda>tag.
     let by_link = parse_all_link_throughput (trace_dir (''lab1_'' @ tag @ ''.link-throughput.tr''));
         rows = (\<lambda>link. trim_time (dget_default by_link link []) start_sec)
     in drawn (''lab1_all_links_throughput_'' @ tag @ ''.png'') (''All link throughput '' @ infer_label tag)
          (map (\<lambda>link. (link, rows link)) (filter (\<lambda>link. rows link \<noteq> []) (sort (dkeys by_link))))) tags)"

definition plot_queue_cdf :: "(string \<Rightarrow> trace) \<Rightarrow> string list \<Rightarrow> figure list result" where
  "plot_queue_cdf trace_dir tags =
     bindR (mapR (\<lambda>tag.
        let vals = map snd (parse_receiver_egress_queue (trace_dir (''lab1_'' @ tag @ ''.switch-egress-queue.tr'')));
            (xs, ys) = lab1_cdf_points vals
        in if xs = [] then Inr []
           else bindR (lab1_percentile vals 99) (\<lambda>p99.
             let suffix = (case p99 of None \<Rightarrow> [] | Some p \<Rightarrow> '' p99='' @ fmt_fixed 1 p @ ''pkts'')
             in Inr [(infer_label tag @ suffix, zip xs ys)])) tags)
       (\<lambda>curves. Inr (drawn ''lab1_receiver_queue_pkts_cdf.png'' ''Receiver-facing switch egress queue CDF''
          (concat curves)))"

definition size_fcts :: "msg_record list \<Rightarrow> int \<Rightarrow> pyfloat list" where
  "size_fcts recs sz = map fct_us (filter (\<lambda>r. m_size r = sz) recs)"

definition plot_fct_cdf :: "(string \<Rightarrow> trace) \<Rightarrow> string list \<Rightarrow> int list \<Rightarrow> figure list result" where
  "plot_fct_cdf trace_dir tags sizes =
     bindR (mapR (\<lambda>sz.
       bindR (mapR (\<lambda>tag.
         let file = trace_dir (''lab1_'' @ tag @ ''.msg.tr'');
             fcts = size_fcts (lab1_parse_msg_trace file) sz;
             (xs, ys) = lab1_cdf_points fcts
         in if xs = [] then Inr []
            else let (started, finished) = count_msg_events file sz in
              bindR (lab1_percentile fcts 50) (\<lambda>p50. bindR (lab1_percentile fcts 99) (\<lambda>p99.
                let suffix = (case (p50, p99) of
                      (Some a, Some b) \<Rightarrow> '' p50='' @ fmt_fixed 2 a @ ''us p99='' @ fmt_fixed 2 b @ ''us''
                    | _ \<Rightarrow> []);
                    suffix = (if started \<noteq> finished
                      then suffix @ '' incomplete('' @ show_int finished @ ''/'' @ show_int started @ '')''
                      else suffix)
                in Inr [(infer_label tag @ suffix, zip xs ys)]))) tags)
         (\<lambda>curves. Inr (drawn (''lab1_fct_cdf_'' @ human_size sz @ ''.png'')
            (human_size sz @ '' message FCT'') (concat curves)))) sizes)
       (\<lambda>figs. Inr (concat figs))"

text \<open>The CE and the CSN figure of a sender: two step curves and the event counts as bars.\<close>

record loop_figure = figure +
  bar_label :: string
  bars :: "(pyfloat \<times> int) list"

definition loop_figures :: "string \<Rightarrow> pyfloat option \<Rightarrow> pyfloat \<Rightarrow> pyfloat \<Rightarrow> string \<Rightarrow> sird_loop_sample list \<Rightarrow>
    loop_figure list result" where
  "loop_figures tag start_sec window_us window_sec sender samples = (
     let samples = fsort_by ls_time_s samples;
         samples = (case start_sec of None \<Rightarrow> samples
           | Some s \<Rightarrow> filter (\<lambda>x. fle s (ls_time_s x)) samples)
     in if samples = [] then Inr []
        else let off = (case start_sec of None \<Rightarrow> Fin 0 | Some s \<Rightarrow> s);
                 xs = map (\<lambda>x. fsub (ls_time_s x) off) samples;
                 curve = (\<lambda>label f. (label, zip xs (map f samples)));
                 title = infer_label tag @ '' sender '' @ sender;
                 us = fmt_fixed 0 window_us @ ''us''
          in bindR (build_windowed_count_series samples start_sec window_sec ls_ce_marks_observed) (\<lambda>ce_counts.
             bindR (build_windowed_count_series samples start_sec window_sec ls_csn_marks_observed) (\<lambda>csn_counts.
               Inr [\<lparr>fig_name = ''lab1_sird_ce_loop_'' @ tag @ ''_'' @ sanitize_sender sender @ ''.png'',
                     fig_title = ''CE Loop '' @ title,
                     fig_curves = [curve ''net budget'' ls_net_budget_pkts,
                                   curve ''effective budget'' ls_effective_budget_pkts],
                     bar_label = ''CE count / '' @ us, bars = ce_counts\<rparr>,
                    \<lparr>fig_name = ''lab1_sird_csn_loop_'' @ tag @ ''_'' @ sanitize_sender sender @ ''.png'',
                     fig_title = ''CSN Loop '' @ title,
                     fig_curves = [curve ''host budget'' ls_host_budget_pkts,
                                   curve ''effective budget'' ls_effective_budget_pkts],
                     bar_label = ''CSN count / '' @ us, bars = csn_counts\<rparr>])))"

definition plot_sender_sird_loop :: "(string \<Rightarrow> trace) \<Rightarrow> string list \<Rightarrow> pyfloat option \<Rightarrow> pyfloat \<Rightarrow>
    loop_figure list result" where
  "plot_sender_sird_loop trace_dir tags start_sec window_us = (
     let window_sec = fquot (fmax window_us (Fin 1)) million in
     bindR (mapR (\<lambda>tag.
       let samples = parse_sird_loop_trace (trace_dir (''lab1_'' @ tag @ ''.sird-loop.tr''));
           by_sender = fold (\<lambda>s. dappend (ls_sender s) s) samples []
       in bindR (mapR (\<lambda>(sender, sender_samples).
              loop_figures tag start_sec window_us window_sec sender sender_samples) by_sender)
            (\<lambda>figs. Inr (concat figs))) tags)
       (\<lambda>figs. Inr (concat figs)))"

subsection \<open>Summary\<close>

definition fmt6 :: "pyfloat option \<Rightarrow> string result" where
  "fmt6 x = (case x of None \<Rightarrow> Inl TypeError | Some v \<Rightarrow> Inr (fmt_fixed 6 v))"

definition summary_row :: "string \<Rightarrow> int \<Rightarrow> trace \<Rightarrow> string list result" where
  "summary_row tag sz file = (
     let fcts = size_fcts (lab1_parse_msg_trace file) sz in
     if fcts = [] then Inr []
     else let (started, finished) = count_msg_events file sz in
       bindR (lab1_percentile fcts 50) (\<lambda>p50. bindR (lab1_percentile fcts 99) (\<lambda>p99.
       bindR (fmt6 p50) (\<lambda>t50. bindR (fmt6 p99) (\<lambda>t99.
         Inr [join '','' [tag, show_int sz, show_int started, show_int finished,
              show_int (started - finished), show_int (int (length fcts)), t50, t99,
              fmt_fixed 6 (fmean fcts)]])))))"

definition newline :: char where "newline = char_of (10 :: nat)"

definition write_summary :: "(string \<Rightarrow> trace) \<Rightarrow> string list \<Rightarrow> int list \<Rightarrow> string result" where
  "write_summary trace_dir tags sizes =
     bindR (mapR (\<lambda>tag. bindR (mapR (\<lambda>sz. summary_row tag sz (trace_dir (''lab1_'' @ tag @ ''.msg.tr''))) sizes)
         (\<lambda>rows. Inr (concat rows))) tags)
       (\<lambda>rows. Inr (join [newline] (''tag,size,started,finished,incomplete,count,p50_us,p99_us,mean_us'' # concat rows)
          @ [newline]))"

text \<open>\<open>parse_tags\<close>: the tags given, or those of the files \<open>lab1_*.msg.tr\<close> of the directory.\<close>

definition lab1_parse_tags :: "string list option \<Rightarrow> string list \<Rightarrow> string list" where
  "lab1_parse_tags raw_tags names = (if raw_tags \<noteq> None \<and> raw_tags \<noteq> Some [] then the raw_tags
     else map (\<lambda>n. take (length n - 12) (drop 5 n))
       (sort (filter (\<lambda>n. 12 \<le> length n \<and> startswith n ''lab1_'' \<and> endswith n ''.msg.tr'') names)))"

text \<open>\<open>main\<close>: the message it exits with, or everything it writes.\<close>

record lab1_output =
  out_figures :: "figure list"
  out_loop_figures :: "loop_figure list"
  out_summary :: string

definition lab1_main :: "(string \<Rightarrow> trace) \<Rightarrow> string list \<Rightarrow> string \<Rightarrow> string list option \<Rightarrow> int list option \<Rightarrow>
    pyfloat option \<Rightarrow> pyfloat \<Rightarrow> (string + lab1_output) result" where
  "lab1_main trace_dir names dir_name raw_tags raw_sizes start_sec window_us = (
     let tags = lab1_parse_tags raw_tags names in
     if tags = [] then Inr (Inl (''No lab1_*.msg.tr traces found under '' @ dir_name))
     else let sizes = (if raw_sizes = None \<or> raw_sizes = Some [] then [8, 500000] else the raw_sizes) in
       bindR (plot_fct_cdf trace_dir tags sizes) (\<lambda>f1.
       let f2 = plot_queue_timeseries trace_dir tags start_sec in
       bindR (plot_queue_cdf trace_dir tags) (\<lambda>f3.
       let f4 = plot_receiver_throughput trace_dir tags start_sec;
           f5 = plot_all_link_throughput trace_dir tags start_sec in
       bindR (plot_sender_sird_loop trace_dir tags start_sec window_us) (\<lambda>f6.
       bindR (write_summary trace_dir tags sizes) (\<lambda>s.
         Inr (Inr \<lparr>out_figures = f1 @ f2 @ f3 @ f4 @ f5, out_loop_figures = f6, out_summary = s\<rparr>))))))"
subsection \<open>The summary is always written\<close>

lemma fct_us_finite: "\<bar>m_finish_ns r - m_start_ns r\<bar> \<le> 2 ^ 53 \<Longrightarrow> is_finite (fct_us r)"
proof -
  let ?d = "m_finish_ns r - m_start_ns r"
  assume a: "\<bar>?d\<bar> \<le> 2 ^ 53"
  then have "rat_of_int ?d \<le> 2 ^ 53" "- (2 ^ 53) \<le> rat_of_int ?d"
    by (metis abs_le_iff of_int_le_iff of_int_numeral of_int_power)
       (metis a abs_le_iff minus_le_iff of_int_le_iff of_int_minus of_int_numeral of_int_power)
  then have "to_float (rat_of_int ?d / 1000) = Fin (rnd (rat_of_int ?d / 1000))"
    by (intro to_float_between_ints [of "- (2 ^ 53)" _ "2 ^ 53"]) simp_all
  then show ?thesis using float_of_int_exact [OF a] by (simp add: fct_us_def thousand_def)
qed

lemma percentile_some:
  assumes "\<forall>v\<in>set vs. is_finite v" "vs \<noteq> []" "0 \<le> pct" "pct \<le> 100" "length vs \<le> 2 ^ 33"
  shows "\<exists>v. lab1_percentile vs pct = Inr (Some v)"
proof (cases "length vs = 1")
  case True
  then obtain x where "vs = [x]" by (auto simp: length_Suc_conv)
  then show ?thesis using assms(1) by (simp add: lab1_percentile_def fsort_def)
next
  case False
  then have l: "1 < length vs" using assms(2) by (cases vs) auto
  have "(int (length vs) - 1) * pct \<le> 2 ^ 33 * 100"
    using assms(3-5) l by (intro mult_mono) auto
  also have "\<dots> \<le> 2 ^ 40" by simp
  finally show ?thesis using lab1_percentile_order [OF assms(1,3,4) l] by blast
qed

definition summary_ok :: "trace \<Rightarrow> bool" where
  "summary_ok file \<longleftrightarrow> length (lab1_parse_msg_trace file) \<le> 2 ^ 33 \<and>
     list_all (\<lambda>r. \<bar>m_finish_ns r - m_start_ns r\<bar> \<le> 2 ^ 53) (lab1_parse_msg_trace file)"

definition completed :: "trace \<Rightarrow> int \<Rightarrow> nat" where
  "completed file sz = length (filter (\<lambda>r. m_size r = sz) (lab1_parse_msg_trace file))"

lemma summary_row_some:
  assumes "summary_ok file"
  shows "\<exists>rows. summary_row tag sz file = Inr rows \<and> length rows = (if completed file sz = 0 then 0 else 1)"
proof (cases "completed file sz = 0")
  case True
  then show ?thesis by (simp add: summary_row_def size_fcts_def completed_def)
next
  case False
  let ?fs = "size_fcts (lab1_parse_msg_trace file) sz"
  have ne: "?fs \<noteq> []" using False by (auto simp: size_fcts_def completed_def)
  have fin: "\<forall>v\<in>set ?fs. is_finite v"
    using assms by (auto simp: size_fcts_def summary_ok_def list_all_iff intro: fct_us_finite)
  have "length ?fs \<le> length (lab1_parse_msg_trace file)" by (simp add: size_fcts_def)
  then have len: "length ?fs \<le> 2 ^ 33" using assms by (simp add: summary_ok_def)
  obtain a where a: "lab1_percentile ?fs 50 = Inr (Some a)"
    using percentile_some [OF fin ne _ _ len, of 50] by auto
  obtain b where b: "lab1_percentile ?fs 99 = Inr (Some b)"
    using percentile_some [OF fin ne _ _ len, of 99] by auto
  obtain s f where c: "count_msg_events file sz = (s, f)" by fastforce
  show ?thesis using False ne a b c by (simp add: summary_row_def fmt6_def Let_def)
qed

lemma length_concat_01: "(\<And>x. x \<in> set xs \<Longrightarrow> length (f x) = (if P x then 0 else 1)) \<Longrightarrow>
    length (concat (map f xs)) = length (filter (\<lambda>x. \<not> P x) xs)"
  by (induction xs) auto

text \<open>The summary of lab1 is always written: for traces of up to \<open>2 ^ 33\<close> messages whose
  durations are below \<open>2 ^ 53\<close> ns no percentile is missing and nothing raises, and after the
  header there is exactly one line for each tag and size with a completed message.\<close>

theorem write_summary_total:
  assumes "\<forall>tag\<in>set tags. summary_ok (trace_dir (''lab1_'' @ tag @ ''.msg.tr''))"
  shows "\<exists>rows. write_summary trace_dir tags sizes =
      Inr (join [newline] (''tag,size,started,finished,incomplete,count,p50_us,p99_us,mean_us'' # rows) @ [newline])
    \<and> length rows = length (filter (\<lambda>(tag, sz). completed (trace_dir (''lab1_'' @ tag @ ''.msg.tr'')) sz \<noteq> 0)
        (List.product tags sizes))"
proof -
  let ?file = "\<lambda>tag. trace_dir (''lab1_'' @ tag @ ''.msg.tr'')"
  let ?g = "\<lambda>tag sz. case summary_row tag sz (?file tag) of Inr r \<Rightarrow> r | Inl _ \<Rightarrow> []"
  have g: "summary_row tag sz (?file tag) = Inr (?g tag sz)"
    "length (?g tag sz) = (if completed (?file tag) sz = 0 then 0 else 1)" if "tag \<in> set tags" for tag sz
    using summary_row_some [of "?file tag" tag sz] assms that by auto
  have "mapR (\<lambda>tag. bindR (mapR (\<lambda>sz. summary_row tag sz (?file tag)) sizes) (\<lambda>rows. Inr (concat rows))) tags =
      Inr (map (\<lambda>tag. concat (map (?g tag) sizes)) tags)"
  proof (rule mapR_Inr)
    fix tag assume "tag \<in> set tags"
    then have "mapR (\<lambda>sz. summary_row tag sz (?file tag)) sizes = Inr (map (?g tag) sizes)"
      using g by (intro mapR_Inr) blast
    then show "bindR (mapR (\<lambda>sz. summary_row tag sz (?file tag)) sizes) (\<lambda>rows. Inr (concat rows)) =
        Inr (concat (map (?g tag) sizes))" by simp
  qed
  moreover have "length (concat (map (\<lambda>tag. concat (map (?g tag) sizes)) ts)) =
      length (filter (\<lambda>(tag, sz). completed (?file tag) sz \<noteq> 0) (List.product ts sizes))"
    if "set ts \<subseteq> set tags" for ts
    using that
  proof (induction ts)
    case (Cons t ts)
    have "length (concat (map (?g t) sizes)) = length (filter (\<lambda>sz. completed (?file t) sz \<noteq> 0) sizes)"
      using g(2) [of t] Cons.prems by (intro length_concat_01) simp
    then show ?case using Cons by (simp add: filter_map comp_def)
  qed simp
  ultimately show ?thesis
    by (intro exI [of _ "concat (map (\<lambda>tag. concat (map (?g tag) sizes)) tags)"]) (simp add: write_summary_def)
qed

theorem write_summary_total_witness:
  "\<exists>rows. write_summary (\<lambda>_. Some [''+ 1 8 a b m'', ''- 5 8 a b m'']) [''t''] [8, 9] =
      Inr (join [newline] (''tag,size,started,finished,incomplete,count,p50_us,p99_us,mean_us'' # rows) @ [newline])
    \<and> length rows = 1"
proof -
  have p: "lab1_parse_msg_trace (Some [''+ 1 8 a b m'', ''- 5 8 a b m'']) =
      [\<lparr>m_size = 8, m_src = ''a'', m_dst = ''b'', m_tx_msg_id = ''m'', m_start_ns = 1, m_finish_ns = 5\<rparr>]"
    by code_simp
  have "\<forall>tag\<in>set [''t'']. summary_ok ((\<lambda>_. Some [''+ 1 8 a b m'', ''- 5 8 a b m'']) (''lab1_'' @ tag @ ''.msg.tr''))"
    by (simp add: summary_ok_def p)
  from write_summary_total [OF this, of "[8, 9]"] show ?thesis by (simp add: completed_def p)
qed

end
