(* ===== verification/T2t2.thy ===== *)
theory T2t2
  imports Lab1
begin

text \<open>
  scripts/plot_2t2_traces.py: the RTT, queue and throughput traces, the thinning of queue
  series before they are drawn, the figures and the statistics file. An empty file is a trace
  without lines.
\<close>

subsection \<open>Traces\<close>

record rtt_row =
  r_time_ns :: int
  r_sender :: string
  r_receiver :: string
  r_sport :: int
  r_dport :: int
  r_flow :: string
  r_rtt_ns :: int

definition t2t2_fields :: "string \<Rightarrow> (int \<times> fields) option" where
  "t2t2_fields raw = (let line = strip raw in
     if line = [] then None
     else case split_ws line of [] \<Rightarrow> None
       | t # toks \<Rightarrow> map_option (\<lambda>t_ns. (t_ns, t2t2_parse_kv_tokens toks)) (py_int t))"

text \<open>The ports are converted outside the \<open>try\<close>.\<close>

definition rtt_step :: "string \<Rightarrow> rtt_row list \<Rightarrow> rtt_row list result" where
  "rtt_step raw rows = (case t2t2_fields raw of None \<Rightarrow> Inr rows
     | Some (t_ns, fs) \<Rightarrow>
         let sender = dget_default fs ''sender'' []; receiver = dget_default fs ''receiver'' [] in
         (case dget fs ''rttNs'' of None \<Rightarrow> Inr rows
          | Some rtt_ns_s \<Rightarrow>
              if sender = [] \<or> receiver = [] then Inr rows
              else (case py_int rtt_ns_s of None \<Rightarrow> Inr rows
                | Some rtt_ns \<Rightarrow>
                    bindR (int_or_raise (dget_default fs ''sport'' ''0'')) (\<lambda>sport.
                    bindR (int_or_raise (dget_default fs ''dport'' ''0'')) (\<lambda>dport.
                      let flow = (if sport > 0 \<or> dport > 0
                            then sender @ '':'' @ show_int sport @ ''->'' @ receiver @ '':'' @ show_int dport
                            else sender @ ''->'' @ receiver)
                      in Inr (rows @ [\<lparr>r_time_ns = t_ns, r_sender = sender, r_receiver = receiver,
                           r_sport = sport, r_dport = dport, r_flow = flow, r_rtt_ns = rtt_ns\<rparr>]))))))"

definition nonempty_file :: "trace \<Rightarrow> bool" where
  "nonempty_file path \<longleftrightarrow> path \<noteq> None \<and> path \<noteq> Some []"

definition parse_rtt_trace :: "trace \<Rightarrow> trace \<Rightarrow> trace \<Rightarrow> (rtt_row list \<times> string) result" where
  "parse_rtt_trace path_rtt homa_rtt ping_rtt =
     (let (source, path) =
        (if nonempty_file path_rtt then (''path-rtt'', path_rtt)
         else if nonempty_file ping_rtt then (''ping-rtt'', ping_rtt)
         else if nonempty_file homa_rtt then (''homa-rtt'', homa_rtt)
         else ([], None))
      in case path of None \<Rightarrow> Inr ([], source)
         | Some lines \<Rightarrow> bindR (foldR rtt_step lines []) (\<lambda>rows. Inr (rows, source)))"

definition queue_step :: "string \<Rightarrow> string \<Rightarrow> (string, point list) dict \<Rightarrow> (string, point list) dict" where
  "queue_step value_key raw series = (case t2t2_fields raw of None \<Rightarrow> series
     | Some (t_ns, fs) \<Rightarrow>
         let qname = dget_default fs ''queue'' []; val_s = dget_default fs value_key [] in
         if qname = [] \<or> val_s = [] then series
         else (case py_float val_s of None \<Rightarrow> series
           | Some v \<Rightarrow> dappend qname (seconds t_ns, v) series))"

definition parse_queue_trace :: "trace \<Rightarrow> string \<Rightarrow> (string, point list) dict" where
  "parse_queue_trace path value_key = (case path of None \<Rightarrow> []
     | Some lines \<Rightarrow> fold (queue_step value_key) lines [])"

definition link_thr_step :: "string \<Rightarrow> (string, (pyfloat \<times> pyfloat \<times> pyfloat) list) dict \<Rightarrow>
    (string, (pyfloat \<times> pyfloat \<times> pyfloat) list) dict" where
  "link_thr_step raw series = (case t2t2_fields raw of None \<Rightarrow> series
     | Some (t_ns, fs) \<Rightarrow>
         let link = dget_default fs ''link'' [] in
         (case (dget fs ''instGbps'', dget fs ''avgGbps'') of
            (Some i, Some a) \<Rightarrow>
              if link = [] then series
              else (case (py_float i, py_float a) of
                 (Some inst_gbps, Some avg_gbps) \<Rightarrow> dappend link (seconds t_ns, inst_gbps, avg_gbps) series
               | _ \<Rightarrow> series)
          | _ \<Rightarrow> series))"

definition t2t2_parse_link_throughput :: "trace \<Rightarrow> (string, (pyfloat \<times> pyfloat \<times> pyfloat) list) dict" where
  "t2t2_parse_link_throughput path = (case path of None \<Rightarrow> []
     | Some lines \<Rightarrow> fold link_thr_step lines [])"

subsection \<open>Thinning a queue series\<close>

text \<open>Of the points with one timestamp the last stays.\<close>

fun dedup_step :: "point \<Rightarrow> point list \<times> point \<Rightarrow> point list \<times> point" where
  "dedup_step (t_s, v) (dedup, cur_t, cur_v) =
     (if feq t_s cur_t then (dedup, cur_t, v) else (dedup @ [(cur_t, cur_v)], t_s, v))"

definition dedup_points :: "point list \<Rightarrow> point list" where
  "dedup_points ordered = (case ordered of [] \<Rightarrow> []
     | p # ps \<Rightarrow> (case fold dedup_step ps ([], p) of (dedup, cur) \<Rightarrow> dedup @ [cur]))"

text \<open>A point between the first and the last stays when its value is new or the last point
  kept is far enough away.\<close>

fun sample_step :: "pyfloat \<Rightarrow> point \<Rightarrow> point list \<times> point \<Rightarrow> point list \<times> point" where
  "sample_step min_dt_s (t_s, v) (sampled, last_keep_t, last_keep_v) =
     (if \<not> feq v last_keep_v \<or> fle min_dt_s (fsub t_s last_keep_t)
      then (sampled @ [(t_s, v)], t_s, v) else (sampled, last_keep_t, last_keep_v))"

definition simplify_points :: "pyfloat \<Rightarrow> point list \<Rightarrow> point list" where
  "simplify_points min_dt_s pts = (
     let ordered = fsort_by fst pts; dedup = dedup_points ordered in
     if fle min_dt_s (Fin 0) \<or> length dedup \<le> 2 then dedup
     else let sampled = fst (fold (sample_step min_dt_s) (butlast (tl dedup)) ([hd dedup], hd dedup)) in
       if \<not> (feq (fst (last dedup)) (fst (last sampled)) \<and> feq (snd (last dedup)) (snd (last sampled)))
       then sampled @ [last dedup] else sampled)"

definition simplify_queue_series :: "(string, point list) dict \<Rightarrow> pyfloat \<Rightarrow> (string, point list) dict" where
  "simplify_queue_series series min_dt_s =
     map (\<lambda>(qname, pts). (qname, simplify_points min_dt_s pts)) (filter (\<lambda>(_, pts). pts \<noteq> []) series)"

subsection \<open>Figures\<close>

definition ms :: "int \<Rightarrow> pyfloat" where
  "ms ns = fquot (float_of_int ns) million"

definition plot_rtt_timeseries :: "rtt_row list \<Rightarrow> curve list option" where
  "plot_rtt_timeseries rows = (if rows = [] then None
     else let by_flow = fold (\<lambda>r. dappend (r_flow r) (seconds (r_time_ns r), ms (r_rtt_ns r))) rows [] in
       Some (map (\<lambda>flow. (flow, fsort_by fst (dget_default by_flow flow []))) (sort (dkeys by_flow))))"

definition t2t2_plot_fct_cdf :: "pyfloat list \<Rightarrow> point list option" where
  "t2t2_plot_fct_cdf fct_ms = (if fct_ms = [] then None
     else case t2t2_cdf_xy fct_ms of (xs, ys) \<Rightarrow> Some (zip xs ys))"

text \<open>At most \<open>max_groups\<close> sizes, those with the most messages, in increasing order; a slice to
  a negative bound counts from the end.\<close>

definition slice_to :: "int \<Rightarrow> 'a list \<Rightarrow> 'a list" where
  "slice_to n xs = take (nat (if 0 \<le> n then n else int (length xs) + n)) xs"

definition plot_fct_by_size_mean :: "t2t2_msg list \<Rightarrow> int \<Rightarrow> (int \<times> pyfloat) list option" where
  "plot_fct_by_size_mean recs max_groups = (if recs = [] then None
     else let by_size = fold (\<lambda>r. dappend (t_msg_size_b r) (ms (t_fct_ns r))) recs [];
              group = (\<lambda>s. dget_default by_size s []);
              ordered = sort (dkeys by_size);
              kept = (if int (length ordered) > max_groups
                then sort (slice_to max_groups (sort_key (\<lambda>s. - int (length (group s))) ordered))
                else ordered)
       in Some (map (\<lambda>s. (s, fmean (group s))) kept))"

text \<open>The curves of a queue panel and its upper limit.\<close>

definition queue_panel :: "(string, point list) dict \<Rightarrow> curve list \<times> pyfloat" where
  "queue_panel series = (
     let curves = map (\<lambda>q. (q, fsort_by fst (dget_default series q []))) (sort (dkeys series));
         ymax = fold (\<lambda>(_, pts) m. if pts = [] then m
             else fmax m (foldl fmax (snd (hd pts)) (map snd (tl pts)))) curves (Fin 0)
     in (curves, fmax (Fin 1) (fmul ymax (dec 11 10))))"

definition plot_switch_queue :: "(string, point list) dict \<Rightarrow> (string, point list) dict \<Rightarrow>
    (curve list \<times> pyfloat) list option" where
  "plot_switch_queue pkts_series bytes_series = (if pkts_series = [] \<and> bytes_series = [] then None
     else Some ((if pkts_series = [] then [] else [queue_panel pkts_series])
       @ (if bytes_series = [] then [] else [queue_panel bytes_series])))"

definition plot_link_throughput :: "(string, (pyfloat \<times> pyfloat \<times> pyfloat) list) dict \<Rightarrow> curve list option" where
  "plot_link_throughput series = (if series = [] then None
     else Some (map (\<lambda>link. (link, map (\<lambda>(x, y, _). (x, y)) (fsort_by fst (dget_default series link []))))
       (sort (dkeys series))))"

subsection \<open>Statistics and main\<close>

definition stats_text :: "summary \<Rightarrow> string" where
  "stats_text s = ''mean='' @ fmt_fixed 6 (s_mean s) @ '' p95='' @ fmt_fixed 6 (s_p95 s) @ '' p99='' @ fmt_fixed 6 (s_p99 s)"

definition write_stats_file :: "summary \<Rightarrow> (string, summary) dict \<Rightarrow> string \<Rightarrow> string" where
  "write_stats_file fct_stats rtt_by_flow_stats rtt_source = join [newline]
     ([''FCT summary (ms):'', if s_mean fct_stats \<noteq> NaN then ''  '' @ stats_text fct_stats else ''  no data'', [],
       ''RTT summary by flow (source='' @ (if rtt_source = [] then ''none'' else rtt_source) @ '', ms):'']
      @ (if rtt_by_flow_stats = [] then [''  no data'']
         else map (\<lambda>flow. ''  '' @ flow @ '' '' @ stats_text (the (dget rtt_by_flow_stats flow)))
                (sort (dkeys rtt_by_flow_stats)))) @ [newline]"

record t2t2_output =
  o_rtt :: "curve list option"
  o_cdf :: "point list option"
  o_sizes :: "(int \<times> pyfloat) list option"
  o_queue :: "(curve list \<times> pyfloat) list option"
  o_link :: "curve list option"
  o_stats :: string
  o_generated :: "string list"
  o_skipped :: "string list"

definition t2t2_main :: "(string \<Rightarrow> trace) \<Rightarrow> string \<Rightarrow> int \<Rightarrow> t2t2_output result" where
  "t2t2_main scenario_dir pre max_size_groups = (
     let file = (\<lambda>suffix. scenario_dir (pre @ suffix));
         recs = t2t2_parse_msg_trace (file ''.msg.tr'');
         fct_ms = map (\<lambda>r. ms (t_fct_ns r)) recs
     in bindR (t2t2_summarize fct_ms) (\<lambda>fct_stats.
        bindR (parse_rtt_trace (file ''.path-rtt.tr'') (file ''.homa-rtt.tr'') (file ''.ping-rtt.tr''))
          (\<lambda>(rtt_rows, rtt_source).
        let rtt_by_flow = fold (\<lambda>r. dappend (r_flow r) (ms (r_rtt_ns r))) rtt_rows [] in
        bindR (mapR (\<lambda>(flow, vals). bindR (t2t2_summarize vals) (\<lambda>s. Inr (flow, s))) rtt_by_flow)
          (\<lambda>rtt_by_flow_stats.
        let q_pkts = simplify_queue_series (parse_queue_trace (file ''.switch-queue-pkts.tr'') ''newPackets'') (dec 1 1000000);
            q_bytes = simplify_queue_series (parse_queue_trace (file ''.switch-queue-bytes.tr'') ''newBytes'') (dec 1 1000000);
            links = t2t2_parse_link_throughput (file ''.link-throughput.tr'');
            f1 = plot_rtt_timeseries rtt_rows; f2 = t2t2_plot_fct_cdf fct_ms;
            f3 = plot_fct_by_size_mean recs max_size_groups; f4 = plot_switch_queue q_pkts q_bytes;
            f5 = plot_link_throughput links;
            plots = [(''01_rtt_timeseries.png'', f1 \<noteq> None), (''02_fct_cdf.png'', f2 \<noteq> None),
              (''03_fct_by_msg_size_cdf.png'', f3 \<noteq> None), (''04_switch_queue_timeseries.png'', f4 \<noteq> None),
              (''05_link_throughput_timeseries.png'', f5 \<noteq> None)]
        in Inr \<lparr>o_rtt = f1, o_cdf = f2, o_sizes = f3, o_queue = f4, o_link = f5,
             o_stats = write_stats_file fct_stats rtt_by_flow_stats rtt_source,
             o_generated = map fst (filter snd plots), o_skipped = map fst (filter (Not \<circ> snd) plots)\<rparr>))))"

subsection \<open>Thinning does not change the curve\<close>

text \<open>The value a step curve shows at time \<open>t\<close>: that of its last point not after \<open>t\<close>.\<close>

definition value_at :: "pyfloat \<Rightarrow> point list \<Rightarrow> pyfloat option" where
  "value_at t pts = fold (\<lambda>(u, v) acc. if fle u t then Some v else acc) pts None"

lemma value_at_snoc: "value_at t (pts @ [(u, v)]) = (if fle u t then Some v else value_at t pts)"
  by (simp add: value_at_def)

lemma feq_eq: "feq a b \<Longrightarrow> a = b"
  by (simp add: feq_def)

lemma fle_fval: "is_finite a \<Longrightarrow> is_finite b \<Longrightarrow> fle a b \<longleftrightarrow> fval a \<le> fval b"
  by (cases a; cases b) (auto simp: fle_def feq_def)

lemma feq_fval: "is_finite a \<Longrightarrow> is_finite b \<Longrightarrow> feq a b \<longleftrightarrow> fval a = fval b"
  by (cases a; cases b) (auto simp: feq_def)

definition ptimes :: "point list \<Rightarrow> rat list" where
  "ptimes pts = map (fval \<circ> fst) pts"

abbreviation finite_times :: "point list \<Rightarrow> bool" where
  "finite_times pts \<equiv> \<forall>p\<in>set pts. is_finite (fst p)"

lemma dedup_fold:
  assumes "fold dedup_step ps ([], p) = (dedup, cur)" "finite_times (p # ps)" "sorted (ptimes (p # ps))"
  shows "value_at t (dedup @ [cur]) = value_at t (p # ps) \<and> sorted_wrt (<) (ptimes (dedup @ [cur]))
    \<and> set (dedup @ [cur]) \<subseteq> set (p # ps) \<and> fst (hd (dedup @ [cur])) = fst p"
  using assms
proof (induction ps arbitrary: dedup cur rule: rev_induct)
  case Nil
  then show ?case by (auto simp: ptimes_def)
next
  case (snoc x ps)
  obtain d c where f: "fold dedup_step ps ([], p) = (d, c)" by (metis surj_pair)
  have fin: "finite_times (p # ps)" "is_finite (fst x)" using snoc.prems(2) by auto
  have srt: "sorted (ptimes (p # ps))" "\<forall>y\<in>set (p # ps). fval (fst y) \<le> fval (fst x)"
    using snoc.prems(3) by (auto simp: ptimes_def sorted_append)
  note IH = snoc.IH [OF f fin(1) srt(1)]
  have c: "c \<in> set (p # ps)" using IH by auto
  then have cf: "is_finite (fst c)" using fin(1) by blast
  obtain t' v' where x: "x = (t', v')" by fastforce
  obtain ct cv where cc: "c = (ct, cv)" by fastforce
  show ?case
  proof (cases "feq t' ct")
    case True
    then have e: "dedup = d" "cur = (ct, v')" "t' = ct" using snoc.prems(1) f by (auto simp: x cc feq_eq)
    have v: "value_at t (p # ps @ [x]) = (if fle ct t then Some v' else value_at t (d @ [c]))"
      using value_at_snoc [of t "p # ps" t' v'] IH e(3) by (simp add: x)
    have "value_at t (d @ [cur]) = value_at t (p # ps @ [x])"
      unfolding v e(2) value_at_snoc cc by simp
    moreover have "x \<in> set (p # ps @ [x])" by simp
    ultimately show ?thesis using IH e by (auto simp: x cc ptimes_def hd_append)
  next
    case False
    then have e: "dedup = d @ [c]" "cur = x" using snoc.prems(1) f by (auto simp: x cc)
    have v: "value_at t ((d @ [c]) @ [x]) = value_at t ((p # ps) @ [x])"
      unfolding x value_at_snoc using IH by simp
    have lt: "fval (fst c) < fval (fst x)"
      using False srt(2) c feq_fval [OF fin(2) cf] by (fastforce simp: x cc)
    have "sorted_wrt (<) (ptimes (d @ [c]))" using IH by blast
    then have "sorted_wrt (<) (ptimes ((d @ [c]) @ [x]))"
      using lt by (fastforce simp: ptimes_def sorted_wrt_append)
    moreover have "set ((d @ [c]) @ [x]) \<subseteq> set (p # ps @ [x])" using IH by auto
    moreover have "fst (hd ((d @ [c]) @ [x])) = fst p" using IH by (cases d) auto
    ultimately show ?thesis unfolding e using v by simp
  qed
qed

lemma sample_fold:
  assumes "fold (sample_step m) ps ([p], p) = (sampled, k)" "finite_times (p # ps)"
    "sorted_wrt (<) (ptimes (p # ps))" "is_finite t"
  shows "value_at t sampled = value_at t (p # ps) \<and> last sampled = k \<and> sampled \<noteq> [] \<and> hd sampled = p
    \<and> set sampled \<subseteq> set (p # ps) \<and> sorted_wrt (<) (ptimes sampled)"
  using assms(1-3)
proof (induction ps arbitrary: sampled k rule: rev_induct)
  case Nil
  then show ?case by (auto simp: ptimes_def)
next
  case (snoc x ps)
  obtain s k0 where f: "fold (sample_step m) ps ([p], p) = (s, k0)" by (metis surj_pair)
  have fin: "finite_times (p # ps)" "is_finite (fst x)" using snoc.prems(2) by auto
  have srt: "sorted_wrt (<) (ptimes (p # ps))" "\<forall>y\<in>set (p # ps). fval (fst y) < fval (fst x)"
    using snoc.prems(3) by (auto simp: ptimes_def sorted_wrt_append)
  note IH = snoc.IH [OF f fin(1) srt(1)]
  have k: "k0 \<in> set (p # ps)" using IH last_in_set by blast
  obtain u v where x: "x = (u, v)" by fastforce
  obtain kt kv where kk: "k0 = (kt, kv)" by fastforce
  have vx: "value_at t (p # ps @ [x]) = (if fle u t then Some v else value_at t s)"
    using value_at_snoc [of t "p # ps" u v] IH by (simp add: x)
  show ?case
  proof (cases "\<not> feq v kv \<or> fle m (fsub u kt)")
    case True
    then have e: "sampled = s @ [x]" "k = x" using snoc.prems(1) f by (auto simp: x kk)
    have "\<forall>y\<in>set s. fval (fst y) < fval (fst x)" using IH srt(2) by blast
    then show ?thesis using IH e vx by (auto simp: x value_at_snoc ptimes_def sorted_wrt_append hd_append)
  next
    case False
    then have e: "sampled = s" "k = k0" "v = kv" using snoc.prems(1) f by (auto simp: x kk feq_eq)
    obtain s0 where s0: "s = s0 @ [(kt, kv)]" using IH kk by (metis append_butlast_last_id)
    have kf: "is_finite kt" using k fin(1) by (auto simp: kk)
    have "fval kt < fval u" using k srt(2) by (auto simp: kk x)
    then have "fle u t \<Longrightarrow> fle kt t" using fin(2) kf assms(4) by (simp add: fle_fval x)
    then have "fle u t \<Longrightarrow> value_at t s = Some kv" by (simp add: s0 value_at_snoc)
    then have "value_at t s = value_at t (p # ps @ [x])" using vx e(3) by simp
    then show ?thesis using IH e by auto
  qed
qed

lemma dedup_points_props:
  assumes "ordered \<noteq> []" "finite_times ordered" "sorted (ptimes ordered)"
  shows "value_at t (dedup_points ordered) = value_at t ordered \<and> sorted_wrt (<) (ptimes (dedup_points ordered))
    \<and> set (dedup_points ordered) \<subseteq> set ordered \<and> dedup_points ordered \<noteq> []"
proof -
  obtain p ps where o: "ordered = p # ps" using assms(1) by (cases ordered) auto
  obtain d c where f: "fold dedup_step ps ([], p) = (d, c)" by (metis surj_pair)
  from dedup_fold [OF f] show ?thesis using assms f by (simp add: o dedup_points_def)
qed

lemma simplify_points_props:
  assumes "pts \<noteq> []" "finite_times pts" "is_finite t"
  shows "value_at t (simplify_points m pts) = value_at t (fsort_by fst pts)
    \<and> sorted_wrt (<) (ptimes (simplify_points m pts)) \<and> set (simplify_points m pts) \<subseteq> set pts
    \<and> simplify_points m pts \<noteq> []"
proof -
  let ?o = "fsort_by fst pts" let ?d = "dedup_points ?o"
  have o: "?o = sort_key (\<lambda>p. fval (fst p)) pts" using assms(2) by (rule fsort_by_sort_key)
  then have so: "set ?o = set pts" and ne: "?o \<noteq> []" using assms(1) by (simp_all add: sort_key_Nil)
  have "sorted (ptimes ?o)" unfolding o ptimes_def comp_def by simp
  then have d: "value_at t ?d = value_at t ?o" "sorted_wrt (<) (ptimes ?d)" "set ?d \<subseteq> set pts" "?d \<noteq> []"
    using dedup_points_props [OF ne] assms(2) so by auto
  show ?thesis
  proof (cases "fle m (Fin 0) \<or> length ?d \<le> 2")
    case True
    then show ?thesis using d by (simp add: simplify_points_def Let_def)
  next
    case False
    obtain p qs where p: "?d = p # qs" using d(4) by (cases ?d) auto
    then obtain ps z where z: "qs = ps @ [z]" using False by (cases qs rule: rev_cases) auto
    obtain s k where f: "fold (sample_step m) ps ([p], p) = (s, k)" by (metis surj_pair)
    have dz: "?d = (p # ps) @ [z]" by (simp add: p z)
    have fin: "finite_times (p # ps)" "is_finite (fst z)" using d(3) assms(2) by (auto simp: dz)
    have srt: "sorted_wrt (<) (ptimes (p # ps))" "\<forall>y\<in>set (p # ps). fval (fst y) < fval (fst z)"
      using d(2) by (auto simp: dz ptimes_def sorted_wrt_append)
    note S = sample_fold [OF f fin(1) srt(1) assms(3)]
    have "last s \<in> set (p # ps)" using S last_in_set by blast
    then have "\<not> feq (fst z) (fst (last s))" using srt(2) fin feq_fval [of "fst z" "fst (last s)"] by fastforce
    then have r: "simplify_points m pts = s @ [z]"
      using False f by (simp add: simplify_points_def Let_def p z butlast_append)
    have "value_at t (s @ [z]) = value_at t ((p # ps) @ [z])"
      using S by (cases z) (simp only: value_at_snoc)
    moreover have "sorted_wrt (<) (ptimes (s @ [z]))" using S srt(2) by (fastforce simp: ptimes_def sorted_wrt_append)
    moreover have "set (s @ [z]) \<subseteq> set pts" using S d(3) by (auto simp: dz)
    ultimately show ?thesis using d(1) unfolding r dz by simp
  qed
qed

text \<open>C7: Thinning a queue series never changes what is drawn: for points with finite times the
  thinned series of each queue has strictly increasing times and only points of the trace, and
  at every time its step curve shows the value the full series shows (the final value of each
  instant); queues keep their order, and only empty ones are dropped.\<close>

theorem simplify_preserves_curve:
  assumes "(q, pts) \<in> set series" "dict_wf series" "pts \<noteq> []" "finite_times pts" "is_finite t"
  shows "\<exists>out. dget (simplify_queue_series series m) q = Some out
    \<and> value_at t out = value_at t (fsort_by fst pts)
    \<and> sorted_wrt (<) (ptimes out) \<and> set out \<subseteq> set pts \<and> out \<noteq> []
    \<and> dkeys (simplify_queue_series series m) = filter (\<lambda>k. dget series k \<noteq> Some []) (dkeys series)"
proof -
  have w: "distinct (map fst series)" using assms(2) by (simp add: dict_wf_def)
  have "dget (simplify_queue_series series m) q = Some (simplify_points m pts)"
    using assms(1,3) w
    by (auto simp: simplify_queue_series_def dget_def comp_def case_prod_unfold distinct_map_filter
        intro!: map_of_is_SomeI image_eqI [of _ _ "(q, pts)"])
  moreover have "dkeys (simplify_queue_series series m) = filter (\<lambda>k. dget series k \<noteq> Some []) (dkeys series)"
    using w by (induction series) (auto simp: simplify_queue_series_def dkeys_def dget_def intro!: filter_cong)
  ultimately show ?thesis using simplify_points_props [OF assms(3-5), of m] by blast
qed

theorem simplify_preserves_curve_witness:
  "\<exists>out. dget (simplify_queue_series [(''q'', [(Fin 0, Fin 1), (Fin 1, Fin 1), (Fin 2, Fin 1), (Fin 3, Fin 0)])] (Fin 9)) ''q'' = Some out
     \<and> value_at (Fin 1) out = Some (Fin 1)"
proof -
  let ?pts = "[(Fin 0, Fin 1), (Fin 1, Fin 1), (Fin 2, Fin 1), (Fin 3, Fin 0)]"
  have "(''q'', ?pts) \<in> set [(''q'', ?pts)]" "dict_wf [(''q'', ?pts)]" "?pts \<noteq> []" "finite_times ?pts" "is_finite (Fin 1)"
    by (simp_all add: dict_wf_def)
  moreover have "value_at (Fin 1) (fsort_by fst ?pts) = Some (Fin 1)" by code_simp
  ultimately show ?thesis using simplify_preserves_curve [of "''q''" ?pts "[(''q'', ?pts)]" "Fin 1" "Fin 9"] by metis
qed

end
