(* ===== verification/CreditSeries.thy ===== *)
theory CreditSeries
  imports Lab1
begin

text \<open>
  Credit over time, scripts/lab2_plot.py and figure 4 of
  scripts/sird-scenarios/plot_paper_fig3_fig4.py: the event and sample parsers, and the loops
  that walk over sorted events in steps of a sampling interval. Reading a missing counter of a
  \<open>defaultdict\<close> or \<open>Counter\<close> would store a zero; here every read uses the default.
\<close>

subsection \<open>Traces\<close>

type_synonym credit_event = "int \<times> string \<times> int \<times> string"
type_synonym credit_sample = "int \<times> string \<times> pyfloat \<times> pyfloat"
type_synonym sender_credit_event = "int \<times> string \<times> string \<times> int \<times> int"
type_synonym receiver_credit_event = "int \<times> string \<times> string \<times> int \<times> int \<times> int \<times> int"

text \<open>The time and the fields of a line; \<open>None\<close> for a blank line or one without a time.\<close>

definition lab2_fields :: "string \<Rightarrow> (int \<times> fields) option" where
  "lab2_fields line = (case split_ws line of [] \<Rightarrow> None
     | t # parts \<Rightarrow> map_option (\<lambda>time_ns. (time_ns, lab2_parse_kv_fields parts)) (py_int t))"

definition num_field :: "fields \<Rightarrow> string \<Rightarrow> int option" where
  "num_field fs k = do { v \<leftarrow> dget fs k; py_int v }"

definition real_field :: "fields \<Rightarrow> string \<Rightarrow> pyfloat option" where
  "real_field fs k = do { v \<leftarrow> dget fs k; py_float v }"

definition lab2_rows :: "(int \<Rightarrow> fields \<Rightarrow> 'r option) \<Rightarrow> trace \<Rightarrow> 'r list" where
  "lab2_rows row path = (case path of None \<Rightarrow> []
     | Some lines \<Rightarrow> List.map_filter (\<lambda>line. do { (t, f) \<leftarrow> lab2_fields line; row t f }) lines)"

definition lab2_parse_credit_events :: "trace \<Rightarrow> credit_event list" where
  "lab2_parse_credit_events path = sort_key fst (lab2_rows (\<lambda>time_ns fs. do {
     tp \<leftarrow> dget fs ''type''; recv_node \<leftarrow> num_field fs ''recvNode'';
     sender \<leftarrow> dget fs ''sender''; Some (time_ns, tp, recv_node, sender) }) path)"

definition parse_credit_sample :: "trace \<Rightarrow> credit_sample list" where
  "parse_credit_sample path = sort_key fst (lab2_rows (\<lambda>time_ns fs. do {
     sender \<leftarrow> dget fs ''sender'';
     credit \<leftarrow> real_field fs ''senderCreditXbdp''; avail \<leftarrow> real_field fs ''receiverAvailXbdp'';
     Some (time_ns, sender, credit, avail) }) path)"

definition parse_sender_credit :: "trace \<Rightarrow> sender_credit_event list" where
  "parse_sender_credit path = sort_key fst (lab2_rows (\<lambda>time_ns fs. do {
     sender \<leftarrow> dget fs ''sender''; receiver \<leftarrow> dget fs ''receiver'';
     tx \<leftarrow> num_field fs ''txMsgId''; credit \<leftarrow> num_field fs ''senderCreditPkts'';
     _ \<leftarrow> num_field fs ''eventType'';
     Some (time_ns, sender, receiver, tx, credit) }) path)"

definition parse_receiver_credit :: "trace \<Rightarrow> receiver_credit_event list" where
  "parse_receiver_credit path = sort_key fst (lab2_rows (\<lambda>time_ns fs. do {
     receiver \<leftarrow> dget fs ''receiver''; sender \<leftarrow> dget fs ''sender'';
     ra \<leftarrow> num_field fs ''receiverAvailPkts''; rb \<leftarrow> num_field fs ''receiverBudgetPkts'';
     sa \<leftarrow> num_field fs ''senderAvailPkts''; sb \<leftarrow> num_field fs ''senderBudgetPkts'';
     Some (time_ns, receiver, sender, ra, rb, sa, sb) }) path)"

text \<open>\<open>Counter.most_common(n)\<close>: highest counts first, ties in the order of insertion.\<close>

definition most_common :: "nat \<Rightarrow> ('k, int) dict \<Rightarrow> ('k \<times> int) list" where
  "most_common n d = take n (sort_key (\<lambda>p. - snd p) d)"

definition counter :: "'k list \<Rightarrow> ('k, int) dict" where
  "counter ks = fold (\<lambda>k. dadd k 1) ks []"

definition pick_target_sender :: "sender_credit_event list \<Rightarrow> receiver_credit_event list \<Rightarrow> string option" where
  "pick_target_sender sender_events receiver_events = (
     let senders = fold (\<lambda>k. dadd k 1) (map (\<lambda>(_, _, sender, _, _, _, _). sender) receiver_events)
           (counter (map (\<lambda>(_, sender, _, _, _). sender) sender_events))
     in if senders = [] then None else Some (fst (hd (most_common 1 senders))))"

subsection \<open>Series\<close>

type_synonym series = "pyfloat list \<times> pyfloat list \<times> pyfloat list \<times> string \<times> int list"

text \<open>\<open>int(x * 1e9)\<close> and \<open>max(1, int(round(ma_s / dt_s)))\<close>.\<close>

definition to_ns :: "pyfloat \<Rightarrow> int result" where
  "to_ns x = fint (fmul x billion)"

definition ma_window :: "pyfloat \<Rightarrow> pyfloat \<Rightarrow> int result" where
  "ma_window ma_s dt_s = bindR (fdiv ma_s dt_s) (\<lambda>q. bindR (fround q) (\<lambda>n. Inr (max 1 n)))"

definition derive_credit_series_from_samples :: "credit_sample list \<Rightarrow> pyfloat \<Rightarrow> pyfloat \<Rightarrow> pyfloat option \<Rightarrow>
    series option result" where
  "derive_credit_series_from_samples samples dt_s ma_s start_sec = (
     if samples = [] then Inr None
     else let target_sender = fst (hd (most_common 1 (counter (map (\<lambda>(_, s, _, _). s) samples))));
              filtered = filter (\<lambda>(_, s, _, _). s = target_sender) samples
       in if filtered = [] then Inr None
          else bindR (case start_sec of Some s \<Rightarrow> to_ns s | None \<Rightarrow> Inr (fst (hd filtered))) (\<lambda>start_ns.
            let filtered = filter (\<lambda>row. fst row \<ge> start_ns) filtered in
            if filtered = [] then Inr None
            else bindR (ma_window ma_s dt_s) (\<lambda>w. Inr (Some
              (map (\<lambda>row. seconds (fst row)) filtered,
               lab2_moving_average (map (\<lambda>(_, _, c, _). c) filtered) w,
               lab2_moving_average (map (\<lambda>(_, _, _, a). a) filtered) w,
               target_sender, [])))))"

text \<open>The inner loop of every sampling loop: the events up to the sample time.\<close>

fun drain :: "('e \<Rightarrow> int) \<Rightarrow> ('e \<Rightarrow> 's \<Rightarrow> 's) \<Rightarrow> int \<Rightarrow> 'e list \<Rightarrow> 's \<Rightarrow> 'e list \<times> 's" where
  "drain time step next_sample [] s = ([], s)"
| "drain time step next_sample (e # es) s =
     (if time e \<le> next_sample then drain time step next_sample es (step e s) else (e # es, s))"

text \<open>A row of the result: time, credit at the sender, credit at the receivers.\<close>

type_synonym credit_row = "pyfloat \<times> pyfloat \<times> pyfloat"

definition series_of :: "pyfloat \<Rightarrow> pyfloat \<Rightarrow> string \<Rightarrow> int list \<Rightarrow> credit_row list \<Rightarrow> series result" where
  "series_of ma_s dt_s target_sender receivers rows = bindR (ma_window ma_s dt_s) (\<lambda>w. Inr
     (map fst rows, lab2_moving_average (map (fst \<circ> snd) rows) w,
      lab2_moving_average (map (snd \<circ> snd) rows) w, target_sender, receivers))"

subsection \<open>Grants and data: derive_credit_series\<close>

record credit_state =
  outstanding :: "(int \<times> string, int) dict"
  total_by_receiver :: "(int, int) dict"

definition credit_init :: credit_state where
  "credit_init = \<lparr>outstanding = [], total_by_receiver = []\<rparr>"

fun credit_step :: "credit_event \<Rightarrow> credit_state \<Rightarrow> credit_state" where
  "credit_step (_, event_type, recv_node, sender) s = (
     let key = (recv_node, sender) in
     if event_type = ''grant'' then
       s\<lparr>outstanding := dadd key 1 (outstanding s),
         total_by_receiver := dadd recv_node 1 (total_by_receiver s)\<rparr>
     else if event_type = ''data'' then
       (if dget_default (outstanding s) key 0 > 0 then
          s\<lparr>outstanding := dadd key (- 1) (outstanding s),
            total_by_receiver := dset recv_node (max 0 (dget_default (total_by_receiver s) recv_node 0 - 1))
              (total_by_receiver s)\<rparr>
        else s)
     else s)"

definition sender_accum :: "string \<Rightarrow> int list \<Rightarrow> credit_state \<Rightarrow> int" where
  "sender_accum target_sender receivers s =
     sum_list (map (\<lambda>r. dget_default (outstanding s) (r, target_sender) 0) receivers)"

definition receiver_avail :: "int \<Rightarrow> int list \<Rightarrow> credit_state \<Rightarrow> int" where
  "receiver_avail budget_pkts receivers s =
     sum_list (map (\<lambda>r. max 0 (budget_pkts - dget_default (total_by_receiver s) r 0)) receivers)"

text \<open>What one pass of the outer loop appends; the division raises on a zero BDP.\<close>

definition credit_row :: "string \<Rightarrow> int list \<Rightarrow> int \<Rightarrow> pyfloat \<Rightarrow> int \<Rightarrow> int \<Rightarrow> credit_state \<Rightarrow> credit_row result" where
  "credit_row target_sender receivers budget_pkts bdp t0 next_sample s =
     bindR (fdiv (float_of_int (sender_accum target_sender receivers s)) bdp) (\<lambda>a.
     bindR (fdiv (float_of_int (receiver_avail budget_pkts receivers s)) bdp) (\<lambda>b.
       Inr (seconds (next_sample - t0), a, b)))"

text \<open>The outer loop. \<open>d\<close> is \<open>int(dt_s * 1e9)\<close>; the step is \<open>max(1, d)\<close>.\<close>

function credit_loop :: "(int \<Rightarrow> credit_state \<Rightarrow> credit_row result) \<Rightarrow> int \<Rightarrow> int \<Rightarrow> int \<Rightarrow> credit_event list \<Rightarrow>
    credit_state \<Rightarrow> credit_row list \<Rightarrow> credit_row list result" where
  "credit_loop row d t_end next_sample events s rows = (
     if next_sample \<le> t_end then
       (case drain fst credit_step next_sample events s of (events', s') \<Rightarrow>
         (case row next_sample s' of Inl e \<Rightarrow> Inl e
          | Inr r \<Rightarrow> credit_loop row d t_end (next_sample + max 1 d) events' s' (rows @ [r])))
     else Inr rows)"
  by pat_completeness auto
termination
  by (relation "measure (\<lambda>(_, _, t_end, next_sample, _). nat (t_end + 1 - next_sample))") auto

declare credit_loop.simps [simp del]

definition grants :: "credit_event list \<Rightarrow> credit_event list" where
  "grants events = filter (\<lambda>(_, event_type, _, _). event_type = ''grant'') events"

definition derive_credit_series :: "credit_event list \<Rightarrow> pyfloat \<Rightarrow> int \<Rightarrow> pyfloat \<Rightarrow> pyfloat \<Rightarrow> series option result" where
  "derive_credit_series events bdp_pkts budget_pkts dt_s ma_s = (
     if events = [] then Inr None
     else let grants_by_sender = counter (map (\<lambda>(_, _, _, sender). sender) (grants events));
              grants_by_receiver = counter (map (\<lambda>(_, _, node, _). node) (grants events))
       in if grants_by_sender = [] \<or> grants_by_receiver = [] then Inr None
          else let target_sender = fst (hd (most_common 1 grants_by_sender));
                   receivers = map fst (most_common 3 grants_by_receiver);
                   t0 = fst (hd events);
                   t_end = fst (last events)
            in bindR (to_ns dt_s) (\<lambda>d.
               bindR (credit_loop (credit_row target_sender receivers budget_pkts bdp_pkts t0) d t_end t0 events
                        credit_init []) (\<lambda>rows.
               bindR (series_of ma_s dt_s target_sender receivers rows) (\<lambda>s. Inr (Some s)))))"

subsection \<open>Reported credit: derive_credit_series_from_protocol_traces\<close>

record protocol_state =
  current_sender_credit :: "(string \<times> string \<times> int, int) dict"
  current_receiver_avail :: "(string \<times> string, int) dict"
  receiver_nodes :: "string list"

text \<open>\<open>set.add\<close>; the set is only added to and summed over.\<close>

definition set_add :: "'a \<Rightarrow> 'a list \<Rightarrow> 'a list" where
  "set_add x xs = (if x \<in> set xs then xs else xs @ [x])"

fun sender_credit_step :: "sender_credit_event \<Rightarrow> protocol_state \<Rightarrow> protocol_state" where
  "sender_credit_step (_, sender, receiver, tx, credit) s =
     s\<lparr>current_sender_credit := dset (sender, receiver, tx) credit (current_sender_credit s)\<rparr>"

fun receiver_credit_step :: "string \<Rightarrow> receiver_credit_event \<Rightarrow> protocol_state \<Rightarrow> protocol_state" where
  "receiver_credit_step target (_, receiver, sender, avail, _, _, _) s =
     s\<lparr>current_receiver_avail := dset (receiver, sender) avail (current_receiver_avail s),
       receiver_nodes := (if sender = target then set_add receiver (receiver_nodes s) else receiver_nodes s)\<rparr>"

text \<open>The availability of a receiver starts from the budget it reports; as every row assigns
  it, the last one does.\<close>

fun initial_step :: "string \<Rightarrow> receiver_credit_event \<Rightarrow> protocol_state \<Rightarrow> protocol_state" where
  "initial_step target (_, receiver, sender, _, budget, _, _) s =
     (if sender \<noteq> target then s
      else s\<lparr>current_receiver_avail := dset (receiver, sender) budget (current_receiver_avail s),
             receiver_nodes := set_add receiver (receiver_nodes s)\<rparr>)"

definition protocol_init :: "string \<Rightarrow> receiver_credit_event list \<Rightarrow> protocol_state" where
  "protocol_init target receiver_events = fold (initial_step target) receiver_events
     \<lparr>current_sender_credit = [], current_receiver_avail = [], receiver_nodes = []\<rparr>"

definition sender_credit :: "string \<Rightarrow> protocol_state \<Rightarrow> int" where
  "sender_credit target s =
     sum_list (map snd (filter (\<lambda>((sender, _, _), _). sender = target) (current_sender_credit s)))"

definition receivers_avail :: "string \<Rightarrow> protocol_state \<Rightarrow> int" where
  "receivers_avail target s =
     sum_list (map (\<lambda>r. dget_default (current_receiver_avail s) (r, target) 0) (receiver_nodes s))"

definition protocol_row :: "string \<Rightarrow> pyfloat \<Rightarrow> int \<Rightarrow> protocol_state \<Rightarrow> credit_row result" where
  "protocol_row target bdp next_sample s =
     bindR (fdiv (float_of_int (sender_credit target s)) bdp) (\<lambda>a.
     bindR (fdiv (float_of_int (receivers_avail target s)) bdp) (\<lambda>b.
       Inr (seconds next_sample, a, b)))"

function protocol_loop :: "string \<Rightarrow> (int \<Rightarrow> protocol_state \<Rightarrow> credit_row result) \<Rightarrow> int \<Rightarrow> int \<Rightarrow> int \<Rightarrow>
    sender_credit_event list \<Rightarrow> receiver_credit_event list \<Rightarrow> protocol_state \<Rightarrow> credit_row list \<Rightarrow>
    credit_row list result" where
  "protocol_loop target row d t_end next_sample ss rs s rows = (
     if next_sample \<le> t_end then
       (case drain fst sender_credit_step next_sample ss s of (ss', s1) \<Rightarrow>
        (case drain fst (receiver_credit_step target) next_sample rs s1 of (rs', s2) \<Rightarrow>
         (case row next_sample s2 of Inl e \<Rightarrow> Inl e
          | Inr r \<Rightarrow> protocol_loop target row d t_end (next_sample + max 1 d) ss' rs' s2 (rows @ [r]))))
     else Inr rows)"
  by pat_completeness auto
termination
  by (relation "measure (\<lambda>(_, _, _, t_end, next_sample, _). nat (t_end + 1 - next_sample))") auto

declare protocol_loop.simps [simp del]

definition derive_credit_series_from_protocol_traces :: "sender_credit_event list \<Rightarrow> receiver_credit_event list \<Rightarrow>
    pyfloat \<Rightarrow> pyfloat \<Rightarrow> pyfloat \<Rightarrow> pyfloat option \<Rightarrow> series option result" where
  "derive_credit_series_from_protocol_traces sender_events receiver_events bdp_pkts dt_s ma_s start_sec =
     (case pick_target_sender sender_events receiver_events of None \<Rightarrow> Inr None
      | Some target \<Rightarrow>
          let all_times = map fst sender_events @ map fst receiver_events in
          if all_times = [] then Inr None
          else let t0 = Min (set all_times); t_end = Max (set all_times) in
            bindR (to_ns dt_s) (\<lambda>d.
            bindR (case start_sec of None \<Rightarrow> Inr t0 | Some s \<Rightarrow> bindR (to_ns s) (\<lambda>n. Inr (max t0 n))) (\<lambda>start_ns.
              if t_end < start_ns then Inr None
              else bindR (protocol_loop target (protocol_row target bdp_pkts) d t_end start_ns sender_events
                       receiver_events (protocol_init target receiver_events) []) (\<lambda>rows.
                   bindR (series_of ma_s dt_s target [] rows) (\<lambda>s. Inr (Some s))))))"

text \<open>\<open>load_credit_series\<close>: the samples, else the reports, else the grants and data.\<close>

definition load_credit_series :: "(string \<Rightarrow> trace) \<Rightarrow> string \<Rightarrow> pyfloat \<Rightarrow> int \<Rightarrow> pyfloat \<Rightarrow> pyfloat \<Rightarrow>
    pyfloat option \<Rightarrow> series option result" where
  "load_credit_series trace_dir tag bdp_pkts budget_pkts sample_sec ma_sec start_sec = (
     let file = (\<lambda>suffix. trace_dir (''lab2_'' @ tag @ suffix)) in
     bindR (derive_credit_series_from_samples (parse_credit_sample (file ''.credit-sample.tr''))
              sample_sec ma_sec start_sec) (\<lambda>r1. if r1 \<noteq> None then Inr r1 else
     bindR (derive_credit_series_from_protocol_traces (parse_sender_credit (file ''.sender-credit.tr''))
              (parse_receiver_credit (file ''.receiver-credit.tr'')) bdp_pkts sample_sec ma_sec start_sec) (\<lambda>r2.
     if r2 \<noteq> None then Inr r2 else
     derive_credit_series (lab2_parse_credit_events (file ''.credit-events.tr'')) bdp_pkts budget_pkts
       sample_sec ma_sec)))"

subsection \<open>Figure 4: the same loop without the lower bound on the step\<close>

definition fig4_credit_event :: "string \<Rightarrow> credit_event option result" where
  "fig4_credit_event line = (case split_ws (strip line) of [] \<Rightarrow> Inr None
     | t # toks \<Rightarrow> bindR (int_or_raise t) (\<lambda>t_ns.
         let fs = fold kv_step toks [] in
         case (dget fs ''type'', dget fs ''recvNode'', dget fs ''sender'') of
           (Some tp, Some node, Some sender) \<Rightarrow>
             bindR (int_or_raise node) (\<lambda>n. Inr (Some (t_ns, tp, n, sender)))
         | _ \<Rightarrow> Inr None))"

definition fig4_parse_credit_events :: "string list \<Rightarrow> credit_event list result" where
  "fig4_parse_credit_events lines = bindR (mapR fig4_credit_event lines) (\<lambda>es.
     Inr (sort_key fst (List.map_filter id es)))"

text \<open>The step of this script is \<open>int(dt_s * 1e9)\<close> as it is: with an interval below a
  nanosecond the loop does not end, which is \<open>None\<close>.\<close>

partial_function (option) fig4_loop :: "(int \<Rightarrow> credit_state \<Rightarrow> credit_row result) \<Rightarrow> int \<Rightarrow> int \<Rightarrow> int \<Rightarrow>
    credit_event list \<Rightarrow> credit_state \<Rightarrow> credit_row list \<Rightarrow> credit_row list result option" where
  "fig4_loop row sample_ns t_end next_sample events s rows = (
     if next_sample \<le> t_end then
       (case drain fst credit_step next_sample events s of (events', s') \<Rightarrow>
         (case row next_sample s' of Inl e \<Rightarrow> Some (Inl e)
          | Inr r \<Rightarrow> fig4_loop row sample_ns t_end (next_sample + sample_ns) events' s' (rows @ [r])))
     else Some (Inr rows))"

definition bindO :: "'a result option \<Rightarrow> ('a \<Rightarrow> 'b result) \<Rightarrow> 'b result option" where
  "bindO r f = map_option (\<lambda>x. bindR x f) r"

definition derive_fig4_series :: "credit_event list \<Rightarrow> int \<Rightarrow> int \<Rightarrow> pyfloat \<Rightarrow>
    (pyfloat list \<times> pyfloat list \<times> pyfloat list) option result option" where
  "derive_fig4_series events bdp_pkts budget_pkts dt_s = (
     if events = [] then Some (Inr None)
     else let grant_by_sender = counter (map (\<lambda>(_, _, _, sender). sender) (grants events));
              recv_nodes = counter (map (\<lambda>(_, _, node, _). node) (grants events))
       in if grant_by_sender = [] then Some (Inr None)
          else let target_sender = fst (hd (most_common 1 grant_by_sender));
                   receivers = map fst (most_common 3 recv_nodes)
            in if receivers = [] then Some (Inr None)
               else let t0 = fst (hd events); t_end = fst (last events) in
                 (case to_ns dt_s of Inl e \<Rightarrow> Some (Inl e)
                  | Inr d \<Rightarrow> bindO (fig4_loop
                      (credit_row target_sender receivers budget_pkts (float_of_int bdp_pkts) t0)
                      d t_end t0 events credit_init []) (\<lambda>rows.
                    bindR (ma_window (dec 1 10) dt_s) (\<lambda>w. Inr (Some
                      (map fst rows, fig4_moving_average (map (fst \<circ> snd) rows) w,
                       fig4_moving_average (map (snd \<circ> snd) rows) w))))))"
subsection \<open>What the sampling loops compute\<close>

lemma drain_split:
  "drain time step n es s = (dropWhile (\<lambda>e. time e \<le> n) es, fold step (takeWhile (\<lambda>e. time e \<le> n) es) s)"
  by (induction es arbitrary: s) auto

lemma takeWhile_le_split:
  fixes n t :: int
  shows "n \<le> t \<Longrightarrow> takeWhile (\<lambda>e. f e \<le> t) es =
    takeWhile (\<lambda>e. f e \<le> n) es @ takeWhile (\<lambda>e. f e \<le> t) (dropWhile (\<lambda>e. f e \<le> n) es)"
  by (induction es) auto

lemma takeWhile_le_sorted:
  fixes t :: int
  shows "sorted (map f es) \<Longrightarrow> takeWhile (\<lambda>e. f e \<le> t) es = filter (\<lambda>e. f e \<le> t) es"
proof (induction es)
  case (Cons e es)
  then show ?case by (cases "f e \<le> t") (auto intro!: filter_False [symmetric])
qed simp

text \<open>The sample times from \<open>a\<close> to \<open>b\<close> in steps of \<open>k\<close>.\<close>

definition sample_times :: "int \<Rightarrow> int \<Rightarrow> int \<Rightarrow> int list" where
  "sample_times k a b = map (\<lambda>i. a + int i * k) [0..<(if a \<le> b then nat ((b - a) div k) + 1 else 0)]"

lemma sample_times_empty: "b < a \<Longrightarrow> sample_times k a b = []"
  by (simp add: sample_times_def)

lemma sample_times_Cons:
  assumes "a \<le> b" "0 < k"
  shows "sample_times k a b = a # sample_times k (a + k) b"
proof -
  have n: "(if a + k \<le> b then nat ((b - (a + k)) div k) + 1 else 0) = nat ((b - a) div k)"
  proof (cases "a + k \<le> b")
    case True
    have "(b - a) div k = (b - (a + k)) div k + 1"
      using assms(2) div_add_self2 [of k "b - (a + k)"] by (simp add: algebra_simps)
    moreover have "0 \<le> (b - (a + k)) div k" using True assms(2) by (simp add: pos_imp_zdiv_nonneg_iff)
    ultimately show ?thesis using True by simp
  next
    case False
    then show ?thesis using assms by (simp add: div_pos_pos_trivial)
  qed
  have "sample_times k a b = map (\<lambda>i. a + int i * k) (0 # map Suc [0..<nat ((b - a) div k)])"
    using assms(1) by (simp add: sample_times_def upt_conv_Cons map_Suc_upt del: upt_Suc)
  also have "\<dots> = a # sample_times k (a + k) b"
    unfolding sample_times_def n by (simp add: algebra_simps)
  finally show ?thesis .
qed

lemma sample_times_ge: "0 < k \<Longrightarrow> t \<in> set (sample_times k a b) \<Longrightarrow> a \<le> t"
  by (auto simp: sample_times_def)

definition state_at :: "credit_event list \<Rightarrow> credit_state \<Rightarrow> int \<Rightarrow> credit_state" where
  "state_at events s t = fold credit_step (takeWhile (\<lambda>e. fst e \<le> t) events) s"

lemma state_at_later:
  "n \<le> t \<Longrightarrow> state_at (dropWhile (\<lambda>e. fst e \<le> n) events) (state_at events s n) t = state_at events s t"
  using takeWhile_le_split [of n t fst events] by (simp add: state_at_def)

lemma credit_loop_samples:
  "credit_loop row d t_end next events s rows =
     bindR (mapR (\<lambda>t. row t (state_at events s t)) (sample_times (max 1 d) next t_end)) (\<lambda>rs. Inr (rows @ rs))"
proof (induction row d t_end "next" events s rows rule: credit_loop.induct)
  case (1 row d t_end "next" events s rows)
  show ?case
  proof (cases "next \<le> t_end")
    case False
    then show ?thesis by (simp add: credit_loop.simps [of row] sample_times_empty)
  next
    case True
    let ?es = "dropWhile (\<lambda>e. fst e \<le> next) events" let ?s = "state_at events s next"
    have dr: "drain fst credit_step next events s = (?es, ?s)" by (simp add: drain_split state_at_def)
    have st: "sample_times (max 1 d) next t_end = next # sample_times (max 1 d) (next + max 1 d) t_end"
      by (rule sample_times_Cons) (use True in auto)
    show ?thesis
    proof (cases "row next ?s")
      case (Inl e)
      then show ?thesis using True by (simp add: credit_loop.simps [of row] dr st mapR_Cons)
    next
      case (Inr r)
      have m: "mapR (\<lambda>t. row t (state_at ?es ?s t)) (sample_times (max 1 d) (next + max 1 d) t_end) =
          mapR (\<lambda>t. row t (state_at events s t)) (sample_times (max 1 d) (next + max 1 d) t_end)"
      proof (rule mapR_cong)
        fix t assume "t \<in> set (sample_times (max 1 d) (next + max 1 d) t_end)"
        then have "next \<le> t" using sample_times_ge [of "max 1 d" t "next + max 1 d" t_end] by linarith
        then show "row t (state_at ?es ?s t) = row t (state_at events s t)" by (simp add: state_at_later)
      qed
      have "credit_loop row d t_end next events s rows =
          credit_loop row d t_end (next + max 1 d) ?es ?s (rows @ [r])"
        using True Inr by (simp add: credit_loop.simps [of row d t_end "next"] dr)
      also have "\<dots> = bindR (mapR (\<lambda>t. row t (state_at ?es ?s t)) (sample_times (max 1 d) (next + max 1 d) t_end))
          (\<lambda>rs. Inr ((rows @ [r]) @ rs))"
        using 1 [OF True dr [symmetric] Inr] .
      finally show ?thesis unfolding m st using Inr
        by (cases "mapR (\<lambda>t. row t (state_at events s t)) (sample_times (max 1 d) (next + max 1 d) t_end)")
           (simp_all add: mapR_Cons)
    qed
  qed
qed
subsection \<open>Credit accounting\<close>

text \<open>The credit one sender holds at one receiver, from the events of that pair alone.\<close>

fun balance :: "int \<Rightarrow> string list \<Rightarrow> int" where
  "balance n [] = n"
| "balance n (tp # tps) = balance (if tp = ''grant'' then n + 1
     else if tp = ''data'' \<and> n > 0 then n - 1 else n) tps"

definition pair_events :: "int \<Rightarrow> string \<Rightarrow> credit_event list \<Rightarrow> string list" where
  "pair_events r snd_name es = map (\<lambda>(_, tp, _, _). tp) (filter (\<lambda>(_, _, node, sender). node = r \<and> sender = snd_name) es)"

lemma balance_append: "balance n (xs @ ys) = balance (balance n xs) ys"
  by (induction n xs rule: balance.induct) auto

lemma balance_nonneg: "0 \<le> n \<Longrightarrow> 0 \<le> balance n xs"
  by (induction n xs rule: balance.induct) auto

lemma balance_le: "0 \<le> n \<Longrightarrow> balance n xs \<le> n + int (length (filter (\<lambda>tp. tp = ''grant'') xs))"
  by (induction n xs rule: balance.induct) auto

text \<open>What all senders hold at a receiver.\<close>

definition held :: "int \<Rightarrow> (int \<times> string, int) dict \<Rightarrow> int" where
  "held r d = sum_list (map snd (filter (\<lambda>p. fst (fst p) = r) d))"

lemma held_dset:
  "dict_wf d \<Longrightarrow> held r (dset k v d) = held r d + (if fst k = r then v - dget_default d k 0 else 0)"
proof (induction d)
  case (Cons p d)
  obtain k' w where p: "p = (k', w)" by fastforce
  have g: "dget_default (p # d) k 0 = (if k' = k then w else dget_default d k 0)"
    by (simp add: p dget_default_def dget_def)
  show ?case using Cons by (auto simp: p held_def g [unfolded p] dict_wf_Cons)
qed (simp add: held_def)

lemma held_ge:
  assumes "dict_wf d" "\<forall>p\<in>set d. 0 \<le> snd p"
  shows "dget_default d k 0 \<le> held (fst k) d"
  using assms
proof (induction d)
  case (Cons p d)
  obtain k' w where p: "p = (k', w)" by fastforce
  have g: "dget_default (p # d) k 0 = (if k' = k then w else dget_default d k 0)"
    by (simp add: p dget_default_def dget_def)
  have "0 \<le> held (fst k) d" unfolding held_def using Cons.prems(2) by (intro sum_list_nonneg) auto
  then show ?case using Cons by (auto simp: p held_def g [unfolded p] dict_wf_Cons)
qed (simp add: held_def)

definition credit_ok :: "credit_state \<Rightarrow> bool" where
  "credit_ok s \<longleftrightarrow> dict_wf (outstanding s) \<and> (\<forall>p\<in>set (outstanding s). 0 \<le> snd p)
     \<and> (\<forall>r. dget_default (total_by_receiver s) r 0 = held r (outstanding s))"

lemma dset_nonneg: "\<forall>p\<in>set d. 0 \<le> snd p \<Longrightarrow> (0::int) \<le> v \<Longrightarrow> \<forall>p\<in>set (dset k v d). 0 \<le> snd p"
proof -
  assume a: "\<forall>p\<in>set d. 0 \<le> snd p" "0 \<le> v"
  have "set (dset k v d) \<subseteq> insert (k, v) (set d)" by (induction d) (auto split: if_splits)
  then show ?thesis using a by auto
qed

lemma dget_default_nonneg: "\<forall>p\<in>set d. 0 \<le> snd p \<Longrightarrow> (0::int) \<le> dget_default d k 0"
  by (auto simp: dget_default_def dget_def split: option.splits dest!: map_of_SomeD)

lemma credit_step_ok: "credit_ok s \<Longrightarrow> credit_ok (credit_step e s)"
proof -
  assume s: "credit_ok s"
  obtain t tp r snd_name where e: "e = (t, tp, r, snd_name)" by (metis prod_cases4)
  let ?k = "(r, snd_name)" let ?d = "outstanding s"
  have wf: "dict_wf ?d" and nn: "\<forall>p\<in>set ?d. 0 \<le> snd p"
    and tot: "dget_default (total_by_receiver s) r' 0 = held r' ?d" for r'
    using s by (simp_all add: credit_ok_def)
  have g: "0 \<le> dget_default ?d ?k 0" "dget_default ?d ?k 0 \<le> held r ?d"
    using dget_default_nonneg [OF nn] held_ge [OF wf nn, of ?k] by simp_all
  show ?thesis
  proof (cases "tp = ''grant'' \<or> tp = ''data'' \<and> dget_default ?d ?k 0 > 0")
    case True
    let ?n = "if tp = ''grant'' then 1 else - 1"
    have 1: "outstanding (credit_step e s) = dset ?k (dget_default ?d ?k 0 + ?n) ?d"
      using True by (auto simp: e dadd_def Let_def)
    have 2: "dget_default (total_by_receiver (credit_step e s)) r' 0 =
        held r' ?d + (if r = r' then ?n else 0)" for r'
      using True g by (auto simp: e dadd_def tot Let_def)
    have "0 \<le> dget_default ?d ?k 0 + ?n" using True g by auto
    then show ?thesis unfolding credit_ok_def 1 2
      using pyd.wf_upd [OF wf] dset_nonneg [OF nn] by (simp add: held_dset [OF wf])
  next
    case False
    then have "credit_step e s = s" by (auto simp: e Let_def)
    then show ?thesis using s by simp
  qed
qed

lemma credit_init_ok: "credit_ok credit_init"
  by (simp add: credit_ok_def credit_init_def held_def dict_simps)

lemma credit_fold_ok: "credit_ok s \<Longrightarrow> credit_ok (fold credit_step es s)"
  by (induction es arbitrary: s) (simp_all add: credit_step_ok del: credit_step.simps)

lemma credit_fold_balance:
  "dget_default (outstanding (fold credit_step es credit_init)) (r, snd_name) 0 = balance 0 (pair_events r snd_name es)"
proof (induction es rule: rev_induct)
  case Nil
  then show ?case by (simp add: credit_init_def pair_events_def)
next
  case (snoc e es)
  obtain t tp r' s' where e: "e = (t, tp, r', s')" by (metis prod_cases4)
  show ?case using snoc
    by (auto simp: e pair_events_def balance_append dadd_def Let_def split: if_splits)
qed

text \<open>C4: The credit accounting of the grant/data trace: after any events the credit a sender
  holds at a receiver is the balance of that pair's events alone (a grant adds one, data takes
  one if there is one), never negative and never more than the grants; the total kept per
  receiver is the sum over its senders, so taking the maximum with 0 never changes it; and the
  credit shown as available lies between 0 and the budgets of the receivers.\<close>

theorem credit_accounting:
  fixes events :: "credit_event list"
  assumes "0 \<le> budget"
  defines "s \<equiv> fold credit_step events credit_init"
  shows "dget_default (outstanding s) (r, sender) 0 = balance 0 (pair_events r sender events)
    \<and> 0 \<le> dget_default (outstanding s) (r, sender) 0
    \<and> dget_default (outstanding s) (r, sender) 0 \<le> int (length (filter (\<lambda>tp. tp = ''grant'') (pair_events r sender events)))
    \<and> dget_default (total_by_receiver s) r 0 = held r (outstanding s)
    \<and> dget_default (outstanding s) (r, sender) 0 \<le> dget_default (total_by_receiver s) r 0
    \<and> 0 \<le> receiver_avail budget rs s \<and> receiver_avail budget rs s \<le> int (length rs) * budget"
proof -
  have ok: "credit_ok s" unfolding s_def by (rule credit_fold_ok [OF credit_init_ok])
  have b: "dget_default (outstanding s) (r, sender) 0 = balance 0 (pair_events r sender events)"
    unfolding s_def by (rule credit_fold_balance)
  have t: "dget_default (total_by_receiver s) r' 0 = held r' (outstanding s)" for r'
    using ok by (simp add: credit_ok_def)
  have nn: "0 \<le> dget_default (total_by_receiver s) r' 0" for r'
    unfolding t held_def using ok by (intro sum_list_nonneg) (auto simp: credit_ok_def)
  have "dget_default (outstanding s) (r, sender) 0 \<le> held r (outstanding s)"
    using held_ge [of "outstanding s" "(r, sender)"] ok by (simp add: credit_ok_def)
  moreover have "0 \<le> receiver_avail budget rs s \<and> receiver_avail budget rs s \<le> int (length rs) * budget"
    using nn assms(1) by (induction rs) (auto simp: receiver_avail_def algebra_simps intro!: add_mono)
  ultimately show ?thesis
    using b t balance_nonneg [of 0 "pair_events r sender events"] balance_le [of 0 "pair_events r sender events"]
    by simp
qed

theorem credit_accounting_witness:
  "receiver_avail 36 [1] (fold credit_step [(0, ''grant'', 1, ''a''), (1, ''data'', 1, ''b'')] credit_init) \<le> 1 * 36"
  using credit_accounting [of 36 "[(0, ''grant'', 1, ''a''), (1, ''data'', 1, ''b'')]" 1 "''a''" "[1]"] by simp

subsection \<open>The sampled series\<close>

lemma counter_Nil: "counter ks = [] \<longleftrightarrow> ks = []"
proof -
  have "set (dkeys (counter ks)) = set ks" unfolding counter_def pyc.set_keys_count by (simp add: dkeys_def)
  then show ?thesis by (auto simp: dkeys_def counter_def)
qed

lemma counter_count: "dget_default (counter ks) k 0 = int (count_list ks k)"
  by (simp add: counter_def dget_default_count)

lemma most_common_max:
  assumes "ks \<noteq> []"
  shows "fst (hd (most_common 1 (counter ks))) \<in> set ks
    \<and> count_list ks k \<le> count_list ks (fst (hd (most_common 1 (counter ks))))"
proof -
  let ?d = "counter ks" let ?s = "sort_key (\<lambda>p. - snd p) ?d"
  have wf: "dict_wf ?d" unfolding counter_def by (rule pyc.wf_count) (simp add: dict_wf_def)
  have ne: "?d \<noteq> []" using assms by (simp add: counter_Nil)
  then obtain p ps where p: "?s = p # ps" by (metis list.exhaust length_0_conv length_sort)
  have m: "fst (hd (most_common 1 ?d)) = fst p" by (simp add: most_common_def p)
  have "p \<in> set ?d" using p by (metis list.set_intros(1) set_sort)
  then have v: "map_of ?d (fst p) = Some (snd p)" using wf by (simp add: dict_wf_def)
  then have c: "snd p = int (count_list ks (fst p))"
    using counter_count [of ks "fst p"] by (simp add: dget_default_def dget_def)
  have keys: "set (dkeys ?d) = set ks" unfolding counter_def pyc.set_keys_count by (simp add: dkeys_def)
  have "fst p \<in> set ks" using \<open>p \<in> set ?d\<close> keys by (auto simp: dkeys_def)
  moreover have "count_list ks k \<le> count_list ks (fst p)"
  proof (cases "k \<in> set ks")
    case True
    then obtain n where n: "(k, n) \<in> set ?d" using keys by (force simp: dkeys_def)
    then have "n = int (count_list ks k)"
      using wf counter_count [of ks k] by (simp add: dict_wf_def dget_default_def dget_def)
    moreover have "sorted (map (\<lambda>p. - snd p) ?s)" by simp
    then have "n \<le> snd p" using n p by (metis (no_types, lifting) list.simps(9) neg_le_iff_le set_ConsD set_sort
        snd_conv sorted_simps(2) image_eqI list.set_map order_refl)
    ultimately show ?thesis using c by simp
  qed (simp add: count_list_0_iff)
  ultimately show ?thesis unfolding m by blast
qed

lemma mapR_pair_rows:
  assumes "bdp \<noteq> Fin 0"
  shows "mapR (\<lambda>t. credit_row target rs budget bdp t0 t (f t)) ts =
    Inr (map (\<lambda>t. (seconds (t - t0), fquot (float_of_int (sender_accum target rs (f t))) bdp,
      fquot (float_of_int (receiver_avail budget rs (f t))) bdp)) ts)"
  using assms by (intro mapR_Inr) (simp add: credit_row_def fdiv_def)

lemma credit_row_zero: "credit_row target rs budget (Fin 0) t0 t s = Inl ZeroDivisionError"
  by (simp add: credit_row_def fdiv_def)

text \<open>C5: The credit series of lab2, when it is produced: the target is a sender that no other
  outdoes in grants; there is one sample per interval from the first to the last event, both
  included when they fall on it; each sample is computed from exactly the events up to its
  time; and the two curves are the moving averages of the sampled values over the BDP.\<close>

theorem credit_series_samples:
  assumes "derive_credit_series events bdp budget dt_s ma_s = Inr (Some (xs, acc, av, target, rs))"
    and "sorted (map fst events)"
  shows "\<exists>d w. to_ns dt_s = Inr d \<and> ma_window ma_s dt_s = Inr w \<and> bdp \<noteq> Fin 0
    \<and> (let t0 = fst (hd events); ts = sample_times (max 1 d) t0 (fst (last events));
           st = (\<lambda>t. fold credit_step (filter (\<lambda>e. fst e \<le> t) events) credit_init) in
       length ts = nat ((fst (last events) - t0) div max 1 d) + 1
       \<and> xs = map (\<lambda>t. seconds (t - t0)) ts
       \<and> acc = lab2_moving_average (map (\<lambda>t. fquot (float_of_int (sender_accum target rs (st t))) bdp) ts) w
       \<and> av = lab2_moving_average (map (\<lambda>t. fquot (float_of_int (receiver_avail budget rs (st t))) bdp) ts) w)
    \<and> length rs \<le> 3
    \<and> (\<forall>s. length (filter (\<lambda>(_, _, _, s'). s' = s) (grants events))
         \<le> length (filter (\<lambda>(_, _, _, s'). s' = target) (grants events)))"
proof -
  let ?ks = "map (\<lambda>(_, _, _, sender). sender) (grants events)"
  let ?t0 = "fst (hd events)" let ?te = "fst (last events)"
  let ?row = "credit_row target rs budget bdp ?t0"
  obtain d rows where d: "to_ns dt_s = Inr d" and ne: "events \<noteq> []" "?ks \<noteq> []"
    and rows: "credit_loop ?row d ?te ?t0 events credit_init [] = Inr rows"
    and so: "series_of ma_s dt_s target rs rows = Inr (xs, acc, av, target, rs)"
    and tg: "target = fst (hd (most_common 1 (counter ?ks)))" "length rs \<le> 3"
    using assms(1)
    by (auto simp: derive_credit_series_def Let_def bindR_eq_Inr counter_Nil series_of_def most_common_def
        split: if_splits)
  obtain w where w: "ma_window ma_s dt_s = Inr w" "xs = map fst rows"
    "acc = lab2_moving_average (map (fst \<circ> snd) rows) w" "av = lab2_moving_average (map (snd \<circ> snd) rows) w"
    using so by (auto simp: series_of_def bindR_eq_Inr)
  let ?ts = "sample_times (max 1 d) ?t0 ?te"
  let ?st = "\<lambda>t. fold credit_step (filter (\<lambda>e. fst e \<le> t) events) credit_init"
  have st: "state_at events credit_init t = ?st t" for t
    using assms(2) by (simp add: state_at_def takeWhile_le_sorted)
  have le: "?t0 \<le> ?te" using assms(2) ne(1)
    by (cases events) auto
  have m: "mapR (\<lambda>t. ?row t (?st t)) ?ts = Inr rows"
    using rows by (auto simp: credit_loop_samples st bindR_eq_Inr)
  have bdp: "bdp \<noteq> Fin 0"
  proof
    assume "bdp = Fin 0"
    then show False using m le by (simp add: sample_times_Cons mapR_Cons credit_row_zero)
  qed
  have r: "rows = map (\<lambda>t. (seconds (t - ?t0), fquot (float_of_int (sender_accum target rs (?st t))) bdp,
      fquot (float_of_int (receiver_avail budget rs (?st t))) bdp)) ?ts"
    using m by (simp add: mapR_pair_rows [OF bdp])
  have "length (filter (\<lambda>(_, _, _, s'). s' = s) (grants events)) = count_list ?ks s" for s
    by (induction "grants events" arbitrary: events) (auto simp: count_list_eq_length_filter filter_map comp_def case_prod_unfold eq_commute)
  then show ?thesis using d w bdp r le tg most_common_max [OF ne(2)]
    by (intro exI [of _ d] exI [of _ w]) (simp add: Let_def comp_def sample_times_def)
qed

definition small_trace :: "credit_event list" where
  "small_trace = [(0, ''grant'', 1, ''a''), (1000000000, ''data'', 1, ''a'')]"

lemma small_series:
  "derive_credit_series small_trace (Fin 1) 2 (Fin 1) (Fin 1) =
     Inr (Some ([Fin 0, Fin 1], [Fin 1, Fin 0], [Fin 1, Fin 2], ''a'', [1]))"
  by code_simp

theorem credit_series_samples_witness:
  "\<exists>d w. to_ns (Fin 1) = Inr d \<and> ma_window (Fin 1) (Fin 1) = Inr w \<and> sorted (map fst small_trace)"
proof -
  have "sorted (map fst small_trace)" by (simp add: small_trace_def)
  with credit_series_samples [OF small_series this] show ?thesis by blast
qed

subsection \<open>Figure 4 against lab2\<close>

lemma fig4_loop_credit_loop:
  "1 \<le> d \<Longrightarrow> fig4_loop row d t_end next events s rows = Some (credit_loop row d t_end next events s rows)"
proof (induction row d t_end "next" events s rows rule: credit_loop.induct)
  case (1 row d t_end "next" events s rows)
  obtain es s' where dr: "drain fst credit_step next events s = (es, s')" by fastforce
  have m: "max 1 d = d" using 1(2) by simp
  show ?case
  proof (cases "next \<le> t_end \<and> (\<exists>r. row next s' = Inr r)")
    case True
    then obtain r where r: "next \<le> t_end" "row next s' = Inr r" by blast
    show ?thesis using 1(1) [OF r(1) dr [symmetric] r(2) 1(2)] r dr m
      by (simp add: credit_loop.simps [of row d t_end "next"] fig4_loop.simps [of row d t_end "next"])
  next
    case False
    then show ?thesis using dr
      by (cases "row next s'")
         (auto simp: credit_loop.simps [of row d t_end "next"] fig4_loop.simps [of row d t_end "next"])
  qed
qed

text \<open>A step that is not positive never leaves the loop.\<close>

lemma fig4_loop_stuck:
  assumes "\<forall>n s. \<exists>r. row n s = Inr r" "d \<le> 0" "next \<le> t_end"
  shows "fig4_loop row d t_end next events s rows = None"
proof (cases "fig4_loop row d t_end next events s rows")
  case (Some y)
  let ?P = "\<lambda>row d t_end n (es :: credit_event list) (s :: credit_state) (rows :: credit_row list)
      (y :: credit_row list result). (\<forall>n (s :: credit_state). \<exists>r. row n s = Inr r) \<longrightarrow> d \<le> 0 \<longrightarrow> \<not> n \<le> t_end"
  have "?P row d t_end next events s rows y"
  proof (rule fig4_loop.raw_induct [where P = ?P, OF _ Some], intro impI notI)
    fix f :: "(int \<Rightarrow> credit_state \<Rightarrow> credit_row result) \<Rightarrow> int \<Rightarrow> int \<Rightarrow> int \<Rightarrow> credit_event list \<Rightarrow> credit_state \<Rightarrow>
        credit_row list \<Rightarrow> credit_row list result option"
    fix row d t_end n es s rows z
    assume IH: "\<And>row d t_end n es s rows y. f row d t_end n es s rows = Some y \<Longrightarrow> ?P row d t_end n es s rows y"
    assume b: "(if n \<le> t_end then case drain fst credit_step n es s of (es', s') \<Rightarrow>
        (case row n s' of Inl e \<Rightarrow> Some (Inl e) | Inr r \<Rightarrow> f row d t_end (n + d) es' s' (rows @ [r]))
        else Some (Inr rows)) = Some z" and ok: "\<forall>n s. \<exists>r. row n s = Inr r" and d: "d \<le> 0" and n: "n \<le> t_end"
    obtain es' s' where dr: "drain fst credit_step n es s = (es', s')" by fastforce
    obtain r where "row n s' = Inr r" using ok by blast
    then have "f row d t_end (n + d) es' s' (rows @ [r]) = Some z" using b n dr by simp
    moreover have "n + d \<le> t_end" using d n by linarith
    ultimately show False using IH ok d by blast
  qed
  then show ?thesis using assms by blast
qed

lemma fig4_ma_lab2: "fig4_moving_average = lab2_moving_average"
  by (intro ext) (simp add: fig4_moving_average_def lab2_moving_average_def fig4_ma_step_eq)

lemma series_of_proj:
  "bindR (ma_window ma_s dt_s) (\<lambda>w. Inr (Some (map fst rows, fig4_moving_average (map (fst \<circ> snd) rows) w,
      fig4_moving_average (map (snd \<circ> snd) rows) w))) =
   bindR (series_of ma_s dt_s target rs rows) (\<lambda>s. Inr (Some (case s of (xs, acc, av, _, _) \<Rightarrow> (xs, acc, av))))"
  by (cases "ma_window ma_s dt_s") (simp_all add: series_of_def fig4_ma_lab2)

text \<open>C6: Figure 4 against lab2: on a trace in time order, with a BDP that is not zero, the
  script returns exactly when its interval is at least a nanosecond (or there is no grant), and
  then computes what lab2 computes with a moving average of 0.1 s; with a shorter interval it
  never returns, where lab2 samples every nanosecond. Its own default of 0.01 s returns.\<close>

theorem fig4_series_agrees:
  assumes "sorted (map fst events)" "float_of_int bdp \<noteq> Fin 0" "to_ns dt_s = Inr d"
  shows "derive_fig4_series events bdp budget dt_s = (if 1 \<le> d \<or> grants events = []
    then Some (bindR (derive_credit_series events (float_of_int bdp) budget dt_s (dec 1 10))
        (\<lambda>r. Inr (map_option (\<lambda>(xs, acc, av, _, _). (xs, acc, av)) r)))
    else None)"
proof (cases "grants events = []")
  case True
  then show ?thesis by (simp add: derive_fig4_series_def derive_credit_series_def counter_Nil)
next
  case False
  then have ne: "events \<noteq> []" by (auto simp: grants_def)
  let ?node = "counter (map (\<lambda>(_, _, node, _). node) (grants events))"
  have rs: "most_common 3 ?node \<noteq> []"
    using False by (simp add: most_common_def counter_Nil sort_key_Nil)
  have le: "fst (hd events) \<le> fst (last events)" using assms(1) ne by (cases events) auto
  have ok: "\<forall>n s. \<exists>r. credit_row target rs budget (float_of_int bdp) t0 n s = Inr r" for target rs t0
    using assms(2) by (simp add: credit_row_def fdiv_def)
  show ?thesis
  proof (cases "1 \<le> d")
    case True
    then show ?thesis using False ne rs assms(3)
      by (simp add: derive_fig4_series_def derive_credit_series_def counter_Nil Let_def fig4_loop_credit_loop
          bindO_def bindR_assoc series_of_proj [symmetric])
  next
    case d: False
    then show ?thesis using False ne rs assms(3) le
      by (simp add: derive_fig4_series_def counter_Nil Let_def bindO_def fig4_loop_stuck [OF ok])
  qed
qed

lemma to_ns_examples: "to_ns (dec 1 100) = Inr 10000000" "to_ns (dec 1 10000000000) = Inr 0"
  by code_simp+

theorem fig4_series_agrees_witness:
  "derive_fig4_series small_trace 24 36 (dec 1 10000000000) = None
   \<and> (\<exists>r. derive_fig4_series small_trace 24 36 (dec 1 100) = Some r)"
proof -
  have s: "sorted (map fst small_trace)" by (simp add: small_trace_def)
  have b: "float_of_int 24 \<noteq> Fin 0" by (simp add: float_of_int_exact)
  have g: "grants small_trace \<noteq> []" by (simp add: small_trace_def grants_def)
  show ?thesis
    using fig4_series_agrees [OF s b to_ns_examples(1), of 36] fig4_series_agrees [OF s b to_ns_examples(2), of 36] g
    by simp
qed

end
