(* ===== verification/Lab2.thy ===== *)
theory Lab2
  imports CreditSeries
begin

text \<open>
  What scripts/lab2_plot.py and scripts/sird-scenarios/plot_paper_fig3_fig4.py make of the
  series: budget and queue rows, axis limits, figures, the summary and the two \<open>main\<close>s. The
  curves and labels of a figure are modelled, its looks are not. The CSV writer renders cells
  to text; the summary is modelled as the rows of cells it is given.
\<close>

subsection \<open>Budgets and queues\<close>

text \<open>Times count from the first row that is kept.\<close>

fun sird_budget_step :: "string \<Rightarrow> int option \<times> (string, (pyfloat \<times> pyfloat \<times> int) list) dict \<Rightarrow>
    int option \<times> (string, (pyfloat \<times> pyfloat \<times> int) list) dict" where
  "sird_budget_step line (first_ns, rows) = (case lab2_fields line of
      None \<Rightarrow> (first_ns, rows)
    | Some (time_ns, fs) \<Rightarrow>
        (case (dget fs ''sender'', real_field fs ''senderBudgetPkts'',
               py_int (dget_default fs ''senderCsn'' ''0'')) of
           (Some sender, Some budget, Some csn) \<Rightarrow>
             let first = (case first_ns of None \<Rightarrow> time_ns | Some f \<Rightarrow> f) in
             (Some first, dappend sender (seconds (time_ns - first), budget, csn) rows)
         | _ \<Rightarrow> (first_ns, rows)))"

definition parse_sird_budget :: "trace \<Rightarrow> (string, (pyfloat \<times> pyfloat \<times> int) list) dict" where
  "parse_sird_budget path = (case path of None \<Rightarrow> []
     | Some lines \<Rightarrow> snd (fold sird_budget_step lines (None, [])))"

fun switch_queue_step :: "string \<Rightarrow> int option \<times> point list \<Rightarrow> int option \<times> point list" where
  "switch_queue_step line (first_ns, rows) = (case lab2_fields line of
      None \<Rightarrow> (first_ns, rows)
    | Some (time_ns, fs) \<Rightarrow>
        if dget fs ''queue'' \<noteq> Some ''switch_port_to_sender'' then (first_ns, rows)
        else (case real_field fs ''packets'' of None \<Rightarrow> (first_ns, rows)
          | Some packets \<Rightarrow>
              let first = (case first_ns of None \<Rightarrow> time_ns | Some f \<Rightarrow> f) in
              (Some first, rows @ [(seconds (time_ns - first), packets)])))"

definition parse_switch_sender_queue :: "trace \<Rightarrow> point list" where
  "parse_switch_sender_queue path = (case path of None \<Rightarrow> []
     | Some lines \<Rightarrow> snd (fold switch_queue_step lines (None, [])))"

text \<open>\<open>max(keys, key=...)\<close>: the first key with the most rows.\<close>

fun first_max :: "('a \<Rightarrow> nat) \<Rightarrow> 'a \<Rightarrow> 'a list \<Rightarrow> 'a" where
  "first_max f best [] = best"
| "first_max f best (x # xs) = first_max f (if f best < f x then x else best) xs"

definition pick_sender :: "(string, 'r list) dict \<Rightarrow> string option" where
  "pick_sender rows = (case dkeys rows of [] \<Rightarrow> None
     | k # ks \<Rightarrow> Some (first_max (\<lambda>sender. length (dget_default rows sender [])) k ks))"

subsection \<open>Axis limits\<close>

definition fmaximum :: "pyfloat list \<Rightarrow> pyfloat" where
  "fmaximum xs = foldl fmax (hd xs) (tl xs)"

text \<open>The limits set on an axis: none, the left one, or both.\<close>

definition apply_start_padding :: "pyfloat list list \<Rightarrow> pyfloat option \<Rightarrow> (pyfloat \<times> pyfloat option) option" where
  "apply_start_padding xs_sets start_sec = (case start_sec of None \<Rightarrow> None
     | Some start \<Rightarrow>
         let xmax = fold (\<lambda>xs m. let visible = filter (\<lambda>x. fle start x) xs in
               if visible = [] then m
               else (case m of None \<Rightarrow> Some (fmaximum visible) | Some x \<Rightarrow> Some (fmax x (fmaximum visible))))
               xs_sets None
         in (case xmax of None \<Rightarrow> Some (start, None)
             | Some x \<Rightarrow> if fle x start then Some (start, None)
                 else let pad = fquot (fsub x start) (Fin 15) in Some (fsub start pad, Some x)))"

subsection \<open>Figures and summary of lab2\<close>

record panel =
  panel_title :: string
  panel_curves :: "curve list"
  panel_limits :: "(pyfloat \<times> pyfloat option) option"

definition plot_credit_dynamics :: "series \<Rightarrow> series \<Rightarrow> pyfloat option \<Rightarrow> panel list" where
  "plot_credit_dynamics feedback no_feedback start_sec = (case (feedback, no_feedback) of
     ((fx, fs, fr, _, _), (nx, ns, nr, _, _)) \<Rightarrow>
       let limits = apply_start_padding [fx, nx] start_sec in
       [\<lparr>panel_title = ''Credit held at sender'',
         panel_curves = [(''SIRD feedback'', zip fx fs), (''No sender feedback'', zip nx ns)],
         panel_limits = limits\<rparr>,
        \<lparr>panel_title = ''Total receiver credit available'',
         panel_curves = [(''SIRD feedback'', zip fx fr), (''No sender feedback'', zip nx nr)],
         panel_limits = limits\<rparr>])"

definition budget_curve :: "string \<Rightarrow> (string, (pyfloat \<times> pyfloat \<times> int) list) dict \<Rightarrow> curve list" where
  "budget_curve label rows = (case pick_sender rows of None \<Rightarrow> []
     | Some sender \<Rightarrow>
         let pts = map (\<lambda>(t, b, _). (t, b)) (dget_default rows sender []) in
         if pts = [] then [] else [(label @ '' ('' @ sender @ '')'', pts)])"

definition plot_sender_budget :: "(string, (pyfloat \<times> pyfloat \<times> int) list) dict \<Rightarrow>
    (string, (pyfloat \<times> pyfloat \<times> int) list) dict \<Rightarrow> figure list" where
  "plot_sender_budget feedback_budget no_feedback_budget =
     drawn ''lab2_sender_budget_timeseries.png'' ''Receiver per-sender budget''
       (budget_curve ''SIRD feedback'' feedback_budget @ budget_curve ''No sender feedback'' no_feedback_budget)"

definition plot_switch_sender_queue :: "point list \<Rightarrow> point list \<Rightarrow> figure list" where
  "plot_switch_sender_queue feedback_rows no_feedback_rows =
     drawn ''lab2_sender_switch_egress_queue.png'' ''Switch egress queue to sender (packets)''
       ((if feedback_rows = [] then [] else [(''SIRD feedback'', feedback_rows)]) @
        (if no_feedback_rows = [] then [] else [(''No sender feedback'', no_feedback_rows)]))"

datatype cell = CText string | CInt int | CFloat pyfloat

definition lab2_summary_row :: "string \<Rightarrow> series \<Rightarrow> cell list" where
  "lab2_summary_row label s = (case s of (xs, acc, av, target, receivers) \<Rightarrow>
     [CText label, CText target, CText (join '' '' (map show_int receivers)), CInt (int (length xs)),
      if acc = [] then CText [] else CFloat (fmean acc), if acc = [] then CText [] else CFloat (last acc),
      if av = [] then CText [] else CFloat (fmean av), if av = [] then CText [] else CFloat (last av)])"

definition lab2_write_summary :: "series \<Rightarrow> series \<Rightarrow> cell list list" where
  "lab2_write_summary feedback no_feedback =
     [map CText [''case'', ''target_sender'', ''receiver_nodes'', ''samples'', ''mean_sender_credit_xbdp'',
        ''final_sender_credit_xbdp'', ''mean_receiver_avail_xbdp'', ''final_receiver_avail_xbdp''],
      lab2_summary_row ''feedback'' feedback, lab2_summary_row ''no_feedback'' no_feedback]"

record lab2_args =
  feedback_tag :: string
  no_feedback_tag :: string
  arg_bdp_pkts :: pyfloat
  arg_budget_pkts :: int
  arg_sample_sec :: pyfloat
  arg_sample_us :: "pyfloat option"
  arg_ma_sec :: pyfloat
  arg_start_sec :: "pyfloat option"

record lab2_output =
  dynamics :: "panel list"
  lab2_figures :: "figure list"
  lab2_summary :: "cell list list"

text \<open>\<open>main\<close>: the message it exits with, or what it writes.\<close>

definition lab2_main :: "(string \<Rightarrow> trace) \<Rightarrow> lab2_args \<Rightarrow> (string + lab2_output) result" where
  "lab2_main trace_dir args = (
     let sample_sec = (case arg_sample_us args of None \<Rightarrow> arg_sample_sec args
           | Some us \<Rightarrow> fquot us million);
         load = (\<lambda>tag. load_credit_series trace_dir tag (arg_bdp_pkts args) (arg_budget_pkts args)
                    sample_sec (arg_ma_sec args) (arg_start_sec args));
         budget = (\<lambda>tag. parse_sird_budget (trace_dir (''lab2_'' @ tag @ ''.sird-credit.tr'')));
         queue = (\<lambda>tag. parse_switch_sender_queue (trace_dir (''lab2_'' @ tag @ ''.switch-egress-queue.tr'')))
     in bindR (load (feedback_tag args)) (\<lambda>f. bindR (load (no_feedback_tag args)) (\<lambda>n.
        case (f, n) of
          (Some feedback, Some no_feedback) \<Rightarrow> Inr (Inr
            \<lparr>dynamics = plot_credit_dynamics feedback no_feedback (arg_start_sec args),
             lab2_figures = plot_sender_budget (budget (feedback_tag args)) (budget (no_feedback_tag args))
               @ plot_switch_sender_queue (queue (feedback_tag args)) (queue (no_feedback_tag args)),
             lab2_summary = lab2_write_summary feedback no_feedback\<rparr>)
        | _ \<Rightarrow> Inr (Inl ''Missing lab2 credit-sample, sender-credit/receiver-credit, or credit-events traces.''))))"

subsection \<open>Figures 3 and 4\<close>

text \<open>\<open>find_first_existing\<close> over the names of the directory.\<close>

definition find_first_existing :: "(string \<Rightarrow> trace) \<Rightarrow> string list \<Rightarrow> string list option" where
  "find_first_existing base_dir names = (case filter (\<lambda>n. base_dir n \<noteq> None) names of
     [] \<Rightarrow> None | n # _ \<Rightarrow> base_dir n)"

definition fig3_files :: "(string \<times> string list) list" where
  "fig3_files =
     [(''unloaded_8b'', [''receiver-congestion_fig3_unloaded_8B.msg.tr'']),
      (''incast_8b'', [''receiver-congestion_fig3_incast_8B_srpt.msg.tr'']),
      (''unloaded_500k'', [''receiver-congestion_fig3_unloaded_500KB.msg.tr'']),
      (''incast_500k_srpt'', [''receiver-congestion_fig3_incast_500KB_srpt.msg.tr'']),
      (''incast_500k_srr'', [''receiver-congestion_fig3_incast_500KB_srr.msg.tr''])]"

text \<open>The names of the missing traces, or the two panels.\<close>

definition plot_fig3 :: "(string \<Rightarrow> trace) \<Rightarrow> (string list + panel list) result" where
  "plot_fig3 trace_dir = (
     let paths = map (\<lambda>(k, v). (k, find_first_existing trace_dir v)) fig3_files;
         missing = map fst (filter (\<lambda>(_, p). p = None) paths);
         lines = (\<lambda>k. the (dget_default paths k None));
         cdf = (\<lambda>vals. case fig3_cdf_xy vals of (x, y) \<Rightarrow> zip x y)
     in if missing \<noteq> [] then Inr (Inl missing)
        else bindR (fig3_parse_msg_trace (lines ''unloaded_8b'') 8) (\<lambda>unloaded_8.
             bindR (fig3_parse_msg_trace (lines ''incast_8b'') 8) (\<lambda>incast_8.
             bindR (fig3_parse_msg_trace (lines ''unloaded_500k'') 500000) (\<lambda>unloaded_500.
             bindR (fig3_parse_msg_trace (lines ''incast_500k_srpt'') 500000) (\<lambda>incast_srpt.
             bindR (fig3_parse_msg_trace (lines ''incast_500k_srr'') 500000) (\<lambda>incast_srr.
               Inr (Inr
                 [\<lparr>panel_title = ''8B requests'',
                   panel_curves = [(''Unloaded'', cdf unloaded_8), (''Incast'', cdf incast_8)],
                   panel_limits = None\<rparr>,
                  \<lparr>panel_title = ''500KB requests'',
                   panel_curves = [(''Unloaded'', cdf unloaded_500), (''Incast-SRPT'', cdf incast_srpt),
                     (''Incast-SRR'', cdf incast_srr)],
                   panel_limits = None\<rparr>])))))))"

text \<open>Not returning is \<open>None\<close>, as in \<open>derive_fig4_series\<close>, called with the default interval.\<close>

definition plot_fig4 :: "(string \<Rightarrow> trace) \<Rightarrow> int \<Rightarrow> int \<Rightarrow> (string + panel list) result option" where
  "plot_fig4 trace_dir bdp_pkts budget_pkts = (
     case (trace_dir ''sender-information_fig4_sthr_half.credit-events.tr'',
           trace_dir ''sender-information_fig4_sthr_inf.credit-events.tr'') of
       (Some half, Some lines_inf) \<Rightarrow>
         (let derive = (\<lambda>lines. case fig4_parse_credit_events lines of Inl e \<Rightarrow> Some (Inl e)
                | Inr events \<Rightarrow> derive_fig4_series events bdp_pkts budget_pkts (dec 1 100))
          in case derive half of None \<Rightarrow> None | Some (Inl e) \<Rightarrow> Some (Inl e) | Some (Inr s_half) \<Rightarrow>
            (case derive lines_inf of None \<Rightarrow> None | Some (Inl e) \<Rightarrow> Some (Inl e) | Some (Inr s_inf) \<Rightarrow>
              (case (s_half, s_inf) of
                 (Some (hx, hs, hr), Some (ix, is, ir)) \<Rightarrow> Some (Inr (Inr
                   [\<lparr>panel_title = ''Credit accumulated at congested sender'',
                     panel_curves = [(''SThr=0.5xBDP'', zip hx hs), (''SThr=Inf'', zip ix is)],
                     panel_limits = None\<rparr>,
                    \<lparr>panel_title = ''Sum of credit available at three receivers'',
                     panel_curves = [(''SThr=0.5xBDP'', zip hx hr), (''SThr=Inf'', zip ix ir)],
                     panel_limits = None\<rparr>]))
               | _ \<Rightarrow> Some (Inr (Inl ''insufficient events to derive fig4 series'')))))
     | _ \<Rightarrow> Some (Inr (Inl ''missing fig4 credit-events traces'')))"

end
