(* ===== verification/Sim1.thy ===== *)
theory Sim1
  imports Lab2
begin

text \<open>
  scripts/sim1_plot.py: goodput and queue rows, the ideal completion time of a message, the
  size groups, the two summaries and the bars that are drawn. The CSV files are modelled by
  their rows. \<open>None\<close> in a row is Python's \<open>None\<close>, an empty cell.
\<close>

subsection \<open>Tags\<close>

text \<open>\<open>s.rsplit(sep, 1)\<close> for a separator that occurs: around its last occurrence.\<close>

definition rsplit_once :: "string \<Rightarrow> string \<Rightarrow> (string \<times> string) option" where
  "rsplit_once sep s = (case filter (\<lambda>i. startswith (drop i s) sep) (rev [0..<length s]) of
     [] \<Rightarrow> None | i # _ \<Rightarrow> Some (take i s, drop (i + length sep) s))"

definition parse_tag :: "string \<Rightarrow> string \<times> string \<times> string" where
  "parse_tag tag = (
     let traffic = (case split_once CHR ''_'' tag of Some (a, _) \<Rightarrow> a | None \<Rightarrow> tag);
         workload = (if startswith tag (traffic @ ''_'') then drop (length traffic + 1) tag else [])
     in case rsplit_once ''_load'' workload of
          Some (w, load) \<Rightarrow> (traffic, w, load)
        | None \<Rightarrow> (traffic, workload, []))"

text \<open>The tags of the files of the directory, each once, sorted.\<close>

definition sim1_parse_tags :: "string list \<Rightarrow> string list" where
  "sim1_parse_tags names = sort (remdups (concat (map (\<lambda>suffix.
     let dot = ''.'' @ suffix in
     map (\<lambda>n. take (length n - 5 - length dot) (drop 5 n))
       (filter (\<lambda>n. 5 + length dot \<le> length n \<and> startswith n ''sim1_'' \<and> endswith n dot) names))
     [''goodput.tr'', ''tor-egress-queue.tr'', ''msg.tr''])))"

subsection \<open>Rows\<close>

definition in_window :: "pyfloat option \<Rightarrow> pyfloat option \<Rightarrow> pyfloat \<Rightarrow> bool" where
  "in_window start_sec end_sec t \<longleftrightarrow>
     \<not> (case start_sec of None \<Rightarrow> False | Some s \<Rightarrow> flt t s) \<and> \<not> (case end_sec of None \<Rightarrow> False | Some e \<Rightarrow> flt e t)"

definition parse_goodput :: "trace \<Rightarrow> pyfloat option \<Rightarrow> pyfloat option \<Rightarrow> point list" where
  "parse_goodput path start_sec end_sec = (case path of None \<Rightarrow> []
     | Some lines \<Rightarrow> List.map_filter (\<lambda>line. case sim1_parse_kv_line line of
          (None, _) \<Rightarrow> None
        | (Some time_ns, fs) \<Rightarrow>
            if \<not> in_window start_sec end_sec (seconds time_ns) then None
            else do { g \<leftarrow> real_field fs ''goodputGbps''; Some (seconds time_ns, g) }) lines)"

definition parse_queue :: "trace \<Rightarrow> pyfloat option \<Rightarrow> pyfloat option \<Rightarrow> (pyfloat \<times> pyfloat \<times> pyfloat) list" where
  "parse_queue path start_sec end_sec = (case path of None \<Rightarrow> []
     | Some lines \<Rightarrow> List.map_filter (\<lambda>line. case sim1_parse_kv_line line of
          (None, _) \<Rightarrow> None
        | (Some time_ns, fs) \<Rightarrow>
            if dget fs ''queue'' \<noteq> Some ''aggregate'' then None
            else if \<not> in_window start_sec end_sec (seconds time_ns) then None
            else do { mx \<leftarrow> real_field fs ''maxPackets''; mn \<leftarrow> real_field fs ''meanPackets'';
                      Some (seconds time_ns, mx, mn) }) lines)"

subsection \<open>The ideal completion time\<close>

definition host_index :: "string \<Rightarrow> int option" where
  "host_index ep = (
     let ip = (case split_once CHR '':'' ep of Some (a, _) \<Rightarrow> a | None \<Rightarrow> ep);
         parts = split_char CHR ''.'' ip
     in if length parts \<noteq> 4 then None else py_int (parts ! 2))"

text \<open>\<open>a // b\<close> on integers.\<close>

definition floordiv :: "int \<Rightarrow> int \<Rightarrow> int result" where
  "floordiv a b = (if b = 0 then Inl ZeroDivisionError else Inr (a div b))"

definition one_way_delay_us :: "string \<Rightarrow> string \<Rightarrow> int \<Rightarrow> pyfloat \<Rightarrow> pyfloat result" where
  "one_way_delay_us src dst hosts_per_tor link_delay_us =
     (case (host_index src, host_index dst) of
        (Some src_idx, Some dst_idx) \<Rightarrow>
          bindR (floordiv src_idx hosts_per_tor) (\<lambda>a. bindR (floordiv dst_idx hosts_per_tor) (\<lambda>b.
            Inr (if a = b then fmul (Fin 2) link_delay_us else fmul (Fin 4) link_delay_us)))
      | _ \<Rightarrow> Inr (fmul (Fin 4) link_delay_us))"

record sim1_args =
  mss_bytes :: int
  wire_bytes :: int
  host_rate_gbps :: pyfloat
  hosts_per_tor :: int
  link_delay_us :: pyfloat
  bdp_pkts :: pyfloat
  start_sec :: "pyfloat option"
  end_sec :: "pyfloat option"

definition min_fct_us :: "int \<Rightarrow> string \<Rightarrow> string \<Rightarrow> sim1_args \<Rightarrow> pyfloat result" where
  "min_fct_us size_bytes src dst args =
     bindR (if mss_bytes args = 0 then Inl ZeroDivisionError else Inr (int_quot size_bytes (mss_bytes args))) (\<lambda>q.
     bindR (float_to_int ceiling q) (\<lambda>c.
       let pkts = max 1 c in
       bindR (fdiv (fmul (float_of_int (pkts * wire_bytes args)) (Fin 8)) (fmul (host_rate_gbps args) billion)) (\<lambda>t.
         let tx_us = fmul t million in
         bindR (one_way_delay_us src dst (hosts_per_tor args) (link_delay_us args)) (\<lambda>d.
           Inr (fadd d tx_us)))))"

text \<open>\<open>n < x\<close> for an integer and a float compares the exact values.\<close>

fun int_lt :: "int \<Rightarrow> pyfloat \<Rightarrow> bool" where
  "int_lt n (Fin x) = (of_int n < x)"
| "int_lt n PInf = True"
| "int_lt n _ = False"

definition size_group :: "int \<Rightarrow> int \<Rightarrow> pyfloat \<Rightarrow> string" where
  "size_group size_bytes mss bdp = (
     let bdp_bytes = fmul bdp (float_of_int mss) in
     if size_bytes < mss then ''A:<MSS''
     else if int_lt size_bytes bdp_bytes then ''B:MSS-BDP''
     else if int_lt size_bytes (fmul (Fin 8) bdp_bytes) then ''C:BDP-8BDP''
     else ''D:>8BDP'')"

definition size_groups :: "string list" where
  "size_groups = [''A:<MSS'', ''B:MSS-BDP'', ''C:BDP-8BDP'', ''D:>8BDP'']"

subsection \<open>Summaries\<close>

record perf_row =
  pr_tag :: string
  pr_traffic_config :: string
  pr_workload :: string
  pr_load :: string
  goodput_mean_gbps :: "pyfloat option"
  goodput_peak_gbps :: "pyfloat option"
  tor_queue_max_pkts :: "pyfloat option"
  tor_queue_mean_pkts :: "pyfloat option"
  tor_queue_mean_peak_pkts :: "pyfloat option"
  goodput_samples :: int
  queue_samples :: int

record slowdown_row =
  sr_tag :: string
  sr_traffic_config :: string
  sr_workload :: string
  sr_load :: string
  sr_size_group :: string
  sr_count :: int
  slowdown_median :: "pyfloat option"
  slowdown_p99 :: "pyfloat option"

definition peak :: "pyfloat list \<Rightarrow> pyfloat option" where
  "peak xs = (if xs = [] then None else Some (fmaximum xs))"

definition perf_of :: "(string \<Rightarrow> trace) \<Rightarrow> sim1_args \<Rightarrow> string \<Rightarrow> perf_row" where
  "perf_of trace_dir args tag = (case parse_tag tag of (traffic, workload, load) \<Rightarrow>
     let goodput = map snd (parse_goodput (trace_dir (''sim1_'' @ tag @ ''.goodput.tr'')) (start_sec args) (end_sec args));
         queue = parse_queue (trace_dir (''sim1_'' @ tag @ ''.tor-egress-queue.tr'')) (start_sec args) (end_sec args);
         q_max = map (fst \<circ> snd) queue; q_mean = map (snd \<circ> snd) queue
     in \<lparr>pr_tag = tag, pr_traffic_config = traffic, pr_workload = workload, pr_load = load,
         goodput_mean_gbps = sim1_mean goodput, goodput_peak_gbps = peak goodput,
         tor_queue_max_pkts = peak q_max, tor_queue_mean_pkts = sim1_mean q_mean,
         tor_queue_mean_peak_pkts = peak q_mean,
         goodput_samples = int (length goodput), queue_samples = int (length q_mean)\<rparr>)"

text \<open>The slowdown of a message that started in the window goes to its size group.\<close>

fun slowdown_step :: "sim1_args \<Rightarrow> sim1_msg \<Rightarrow> (string, pyfloat list) dict \<Rightarrow> (string, pyfloat list) dict result" where
  "slowdown_step args (start_ns, finish_ns, size_bytes, src, dst) by_group =
     (if \<not> in_window (start_sec args) (end_sec args) (seconds start_ns) then Inr by_group
      else let fct_us = fquot (float_of_int (finish_ns - start_ns)) thousand in
        bindR (min_fct_us size_bytes src dst args) (\<lambda>ideal_us.
          if flt (Fin 0) ideal_us
          then Inr (dappend (size_group size_bytes (mss_bytes args) (bdp_pkts args)) (fquot fct_us ideal_us) by_group)
          else Inr by_group))"

definition slowdowns_of :: "(string \<Rightarrow> trace) \<Rightarrow> sim1_args \<Rightarrow> string \<Rightarrow> slowdown_row list result" where
  "slowdowns_of trace_dir args tag = (case parse_tag tag of (traffic, workload, load) \<Rightarrow>
     bindR (foldR (slowdown_step args) (sim1_parse_msg_trace (trace_dir (''sim1_'' @ tag @ ''.msg.tr''))) []) (\<lambda>by_group.
       mapR (\<lambda>group. let vals = dget_default by_group group [] in
         bindR (sim1_percentile vals 50) (\<lambda>p50. bindR (sim1_percentile vals 99) (\<lambda>p99.
           Inr \<lparr>sr_tag = tag, sr_traffic_config = traffic, sr_workload = workload, sr_load = load,
             sr_size_group = group, sr_count = int (length vals),
             slowdown_median = p50, slowdown_p99 = p99\<rparr>))) size_groups))"

definition sim1_summarize :: "(string \<Rightarrow> trace) \<Rightarrow> string list \<Rightarrow> sim1_args \<Rightarrow> (perf_row list \<times> slowdown_row list) result" where
  "sim1_summarize trace_dir names args = (
     let tags = sim1_parse_tags names in
     bindR (mapR (slowdowns_of trace_dir args) tags) (\<lambda>slow.
       Inr (map (perf_of trace_dir args) tags, concat slow)))"

subsection \<open>Bars\<close>

definition finite_or_zero :: "pyfloat option \<Rightarrow> pyfloat" where
  "finite_or_zero v = (case v of None \<Rightarrow> Fin 0 | Some x \<Rightarrow> if is_finite x then x else Fin 0)"

definition plot_perf :: "perf_row list \<Rightarrow> (string \<times> string list \<times> pyfloat list \<times> pyfloat list) list" where
  "plot_perf rows = (if rows = [] then []
     else [(''sim1_goodput.png'', map pr_tag rows, map (finite_or_zero \<circ> goodput_peak_gbps) rows,
             map (finite_or_zero \<circ> goodput_mean_gbps) rows),
           (''sim1_tor_queue.png'', map pr_tag rows, map (finite_or_zero \<circ> tor_queue_max_pkts) rows,
             map (finite_or_zero \<circ> tor_queue_mean_pkts) rows)])"

text \<open>A missing group raises a KeyError.\<close>

definition plot_slowdown :: "slowdown_row list \<Rightarrow> (string \<times> pyfloat list \<times> pyfloat list) list result" where
  "plot_slowdown rows = (
     let by_tag = fold (\<lambda>r. dappend (sr_tag r) r) rows [] in
     mapR (\<lambda>(tag, rs).
       let row_by_group = fold (\<lambda>r. dset (sr_size_group r) r) rs [];
           row = (\<lambda>g. case dget row_by_group g of None \<Rightarrow> Inl KeyError | Some r \<Rightarrow> Inr r)
       in bindR (mapR row size_groups) (\<lambda>rs.
            Inr (tag, map (finite_or_zero \<circ> slowdown_median) rs, map (finite_or_zero \<circ> slowdown_p99) rs))) by_tag)"

definition sim1_main :: "(string \<Rightarrow> trace) \<Rightarrow> string list \<Rightarrow> sim1_args \<Rightarrow>
    (perf_row list \<times> slowdown_row list \<times> (string \<times> string list \<times> pyfloat list \<times> pyfloat list) list
      \<times> (string \<times> pyfloat list \<times> pyfloat list) list) result" where
  "sim1_main trace_dir names args =
     bindR (sim1_summarize trace_dir names args) (\<lambda>(perf_rows, slowdown_rows).
     bindR (plot_slowdown slowdown_rows) (\<lambda>slow_bars.
       Inr (perf_rows, slowdown_rows, plot_perf perf_rows, slow_bars)))"

subsection \<open>Tags round trip\<close>

lemma startswith_drop_iff: "startswith (drop i s) p \<longleftrightarrow> take (length p) (drop i s) = p"
  by (simp add: startswith_def)

lemma rsplit_once_last:
  assumes "sep = c # cs" "c \<notin> set cs" "c \<notin> set b"
  shows "rsplit_once sep (a @ sep @ b) = Some (a, b)"
proof -
  let ?s = "a @ sep @ b" let ?P = "\<lambda>i. startswith (drop i ?s) sep"
  have at: "?P (length a)" by (simp add: startswith_def)
  have later: "\<not> ?P i" if "length a < i" "i < length ?s" for i
  proof
    assume "?P i"
    then have "take (length sep) (drop i ?s) ! 0 = sep ! 0" by (simp only: startswith_def)
    then have "?s ! i = c" using that(2) unfolding assms(1) by (simp only: length_Cons nth_take zero_less_Suc nth_drop nth_Cons_0 add_0_right less_imp_le)
    moreover have "?s ! i = (cs @ b) ! (i - length a - 1)" using that(1) assms(1) by (simp add: nth_append nth_Cons')
    moreover have "i - length a - 1 < length (cs @ b)" using that assms(1) by auto
    ultimately have "c \<in> set (cs @ b)" by (metis nth_mem)
    then show False using assms(2,3) by simp
  qed
  have "[0..<length ?s] = [0..<length a] @ [length a..<length ?s]"
    using upt_add_eq_append [of 0 "length a" "length (sep @ b)"] by simp
  also have "[length a..<length ?s] = length a # [Suc (length a)..<length ?s]"
    using assms(1) by (intro upt_conv_Cons) simp
  finally have "[0..<length ?s] = [0..<length a] @ length a # [Suc (length a)..<length ?s]" .
  then have "rev [0..<length ?s] = rev [Suc (length a)..<length ?s] @ length a # rev [0..<length a]" by simp
  moreover have "filter ?P (rev [Suc (length a)..<length ?s]) = []"
    using later by (auto simp: filter_empty_conv)
  ultimately have "filter ?P (rev [0..<length ?s]) = length a # filter ?P (rev [0..<length a])"
    using at by simp
  then show ?thesis by (simp add: rsplit_once_def)
qed

text \<open>The tag of a sim1 run gives its parts back: traffic (without an underscore), workload
  (anything, also with underscores or another \<open>_load\<close> in it) and load (without an underscore).\<close>

theorem parse_tag_roundtrip:
  assumes "CHR ''_'' \<notin> set traffic" "CHR ''_'' \<notin> set load"
  shows "parse_tag (traffic @ ''_'' @ workload @ ''_load'' @ load) = (traffic, workload, load)"
proof -
  have "rsplit_once ''_load'' (workload @ ''_load'' @ load) = Some (workload, load)"
    by (rule rsplit_once_last [OF refl]) (use assms(2) in simp_all)
  then show ?thesis using assms(1) by (simp add: parse_tag_def startswith_def)
qed

theorem parse_tag_roundtrip_witness:
  "parse_tag ''poisson_web_search_load50'' = (''poisson'', ''web_search'', ''50'')"
  using parse_tag_roundtrip [of "''poisson''" "''50''" "''web_search''"] by simp

subsection \<open>Size groups\<close>

definition group_index :: "string \<Rightarrow> nat" where
  "group_index g = (if g = ''A:<MSS'' then 0 else if g = ''B:MSS-BDP'' then 1 else if g = ''C:BDP-8BDP'' then 2 else 3)"

lemma int_lt_mono: "m \<le> n \<Longrightarrow> int_lt n x \<Longrightarrow> int_lt m x"
  by (cases x) (auto simp: of_int_le_iff [symmetric, of m n] simp del: of_int_le_iff)

text \<open>The four size groups split the sizes into intervals: every size is in one of them, a
  larger message is never in an earlier group, a message is in the first exactly when it is
  below one MSS, and for a BDP of \<open>k\<close> whole packets the others begin at \<open>k\<close> and \<open>8 k\<close> MSS.\<close>

theorem size_group_intervals:
  assumes "m \<le> n" "0 < k" "0 < mss" "8 * k * mss \<le> 2 ^ 53"
  shows "size_group n mss bdp \<in> set size_groups
    \<and> group_index (size_group m mss bdp) \<le> group_index (size_group n mss bdp)
    \<and> (size_group n mss bdp = ''A:<MSS'' \<longleftrightarrow> n < mss)
    \<and> (size_group n mss (Fin (of_int k)) = ''D:>8BDP'' \<longleftrightarrow> 8 * k * mss \<le> n)
    \<and> (mss \<le> n \<longrightarrow> (size_group n mss (Fin (of_int k)) = ''B:MSS-BDP'' \<longleftrightarrow> n < k * mss))"
proof -
  have km: "0 < k * mss" using assms(2,3) by simp
  have le: "mss \<le> k * mss" "k * mss \<le> 8 * k * mss" "mss \<le> 8 * k * mss"
    using assms(2,3) mult_right_mono [of 1 k mss] km by auto
  have b: "\<bar>k * mss\<bar> \<le> 2 ^ 53" "\<bar>8 * (k * mss)\<bar> \<le> 2 ^ 53" "\<bar>mss\<bar> \<le> 2 ^ 53"
    using assms(4) km le(2) order_trans [OF le(3) assms(4)] assms(3) by (simp_all add: mult.assoc)
  have 1: "fmul (Fin (of_int k)) (float_of_int mss) = Fin (of_int (k * mss))"
    using float_of_int_exact [OF b(1)] float_of_int_exact [OF b(3)] by (simp add: float_of_int_def)
  have 2: "fmul (Fin 8) (Fin (of_int (k * mss))) = Fin (of_int (8 * (k * mss)))"
    using float_of_int_exact [OF b(2)] by (simp add: float_of_int_def)
  have lt: "int_lt n (Fin (of_int z)) \<longleftrightarrow> n < z" for z by simp
  have "group_index (size_group m mss bdp) \<le> group_index (size_group n mss bdp)"
    using int_lt_mono [OF assms(1)] assms(1) by (auto simp: size_group_def group_index_def Let_def)
  moreover have "size_group n mss bdp \<in> set size_groups" by (simp add: size_group_def size_groups_def Let_def)
  ultimately show ?thesis unfolding size_group_def Let_def 1 2 lt using le by auto
qed

theorem size_group_intervals_witness:
  "size_group 3000 1442 (Fin (of_int 2)) = ''C:BDP-8BDP''"
  using size_group_intervals [of 3000 3000 2 1442] by (auto simp: size_groups_def)

subsection \<open>Nothing is lost in the slowdown summary\<close>

definition counted_msg :: "sim1_args \<Rightarrow> sim1_msg \<Rightarrow> bool" where
  "counted_msg args m = (case m of (start_ns, finish_ns, size_bytes, src, dst) \<Rightarrow>
     in_window (start_sec args) (end_sec args) (seconds start_ns)
     \<and> (case min_fct_us size_bytes src dst args of Inr i \<Rightarrow> flt (Fin 0) i | Inl _ \<Rightarrow> False))"

definition grouped :: "(string, pyfloat list) dict \<Rightarrow> int" where
  "grouped d = sum_list (map (\<lambda>g. int (length (dget_default d g []))) size_groups)"

lemma grouped_dappend: "g \<in> set size_groups \<Longrightarrow> grouped (dappend g x d) = grouped d + 1"
  by (auto simp: grouped_def size_groups_def dappend_def)

lemma size_group_in: "size_group n mss bdp \<in> set size_groups"
  by (simp add: size_group_def size_groups_def Let_def)

lemma slowdown_fold_count:
  "foldR (slowdown_step args) msgs d = Inr d' \<Longrightarrow> grouped d' = grouped d + int (length (filter (counted_msg args) msgs))"
proof (induction msgs arbitrary: d)
  case (Cons m ms)
  obtain a b n src dst where m: "m = (a, b, n, src, dst)" by (metis prod_cases5)
  obtain d1 where d1: "slowdown_step args m d = Inr d1" "foldR (slowdown_step args) ms d1 = Inr d'"
    using Cons.prems by (auto simp: bindR_eq_Inr)
  have "grouped d1 = grouped d + (if counted_msg args m then 1 else 0)"
  proof (cases "counted_msg args m")
    case True
    then obtain x where "d1 = dappend (size_group n (mss_bytes args) (bdp_pkts args)) x d"
      using d1(1) by (auto simp: m counted_msg_def bindR_eq_Inr Let_def split: sum.splits if_splits)
    then show ?thesis using True by (simp add: grouped_dappend [OF size_group_in])
  next
    case False
    then have "d1 = d" using d1(1) by (auto simp: m counted_msg_def bindR_eq_Inr Let_def split: if_splits)
    then show ?thesis using False by simp
  qed
  then show ?case using Cons.IH [OF d1(2)] by simp
qed simp

lemma slowdowns_of_rows:
  assumes "slowdowns_of trace_dir args tag = Inr rows"
  shows "map sr_size_group rows = size_groups \<and> (\<forall>r\<in>set rows. sr_tag r = tag)
    \<and> sum_list (map sr_count rows) =
        int (length (filter (counted_msg args) (sim1_parse_msg_trace (trace_dir (''sim1_'' @ tag @ ''.msg.tr'')))))"
proof -
  obtain tr wl ld where pt: "parse_tag tag = (tr, wl, ld)" by (metis prod_cases3)
  obtain d where d: "foldR (slowdown_step args) (sim1_parse_msg_trace (trace_dir (''sim1_'' @ tag @ ''.msg.tr''))) [] = Inr d"
    and l: "list_all2 (\<lambda>g r. (let vals = dget_default d g [] in
         bindR (sim1_percentile vals 50) (\<lambda>p50. bindR (sim1_percentile vals 99) (\<lambda>p99.
           Inr \<lparr>sr_tag = tag, sr_traffic_config = tr, sr_workload = wl, sr_load = ld,
             sr_size_group = g, sr_count = int (length vals),
             slowdown_median = p50, slowdown_p99 = p99\<rparr>))) = Inr r) size_groups rows"
    using assms by (auto simp: slowdowns_of_def pt bindR_eq_Inr dest!: mapR_list_all2 simp del: Let_def)
  have m: "list_all2 (\<lambda>g r. sr_size_group r = g \<and> sr_tag r = tag \<and> sr_count r = int (length (dget_default d g []))) size_groups rows"
    using l by (rule list.rel_mono_strong) (auto simp: bindR_eq_Inr Let_def)
  have "map sr_size_group rows = gs \<and> (\<forall>r\<in>set rows. sr_tag r = tag)
      \<and> map sr_count rows = map (\<lambda>g. int (length (dget_default d g []))) gs"
    if "list_all2 (\<lambda>g r. sr_size_group r = g \<and> sr_tag r = tag \<and> sr_count r = int (length (dget_default d g []))) gs rows" for gs rows
    using that by (induction rule: list_all2_induct) auto
  from this [OF m] show ?thesis
    using slowdown_fold_count [OF d] by (simp add: grouped_def)
qed
lemma list_all2_keys:
  "list_all2 (\<lambda>tag rows. \<forall>r\<in>set rows. f r = tag) tags rowss \<Longrightarrow> f ` set (concat rowss) \<subseteq> set tags"
  by (induction rule: list_all2_induct) auto

lemma list_all2_both:
  "list_all2 P xs ys \<Longrightarrow> list_all2 Q xs ys \<Longrightarrow> x \<in> set xs \<Longrightarrow> \<exists>y\<in>set ys. P x y \<and> Q x y"
proof (induction rule: list_all2_induct)
  case (Cons a as b bs)
  then show ?case by auto
qed simp

lemma filter_tag_concat:
  assumes "list_all2 (\<lambda>tag rows. \<forall>r\<in>set rows. f r = tag) tags rowss" "distinct tags"
  shows "list_all2 (\<lambda>tag rows. filter (\<lambda>r. f r = tag) (concat rowss) = rows) tags rowss"
  using assms
proof (induction rule: list_all2_induct)
  case (Cons tag tags rows rowss)
  have "filter (\<lambda>r. f r = tag) (concat rowss) = []"
    using list_all2_keys [OF Cons(2)] Cons.prems by (fastforce simp: filter_empty_conv)
  moreover have "filter (\<lambda>r. f r = tag) rows = rows" using Cons(1) by simp
  moreover have "filter (\<lambda>r. f r = t) rows = []" if "t \<in> set tags" for t
    using that Cons by (auto simp: filter_empty_conv)
  then have "list_all2 (\<lambda>t rs. filter (\<lambda>r. f r = t) (concat (rows # rowss)) = rs) tags rowss"
    using Cons by (auto simp: list_all2_conv_all_nth)
  ultimately show ?case by simp
qed simp

lemma dict_wf_dget: "dict_wf d \<Longrightarrow> (k, v) \<in> set d \<Longrightarrow> dget_default d k w = v"
  by (simp add: dict_wf_def dget_default_def dget_def)

lemma fold_dappend_map: "fold (\<lambda>r. dappend (f r) (g r)) rs d = fold (\<lambda>p. dappend (fst p) (snd p)) (map (\<lambda>r. (f r, g r)) rs) d"
  by (induction rs arbitrary: d) auto

lemma fold_dset_map: "fold (\<lambda>r. dset (f r) (g r)) rs d = fold (\<lambda>p. dset (fst p) (snd p)) (map (\<lambda>r. (f r, g r)) rs) d"
  by (induction rs arbitrary: d) auto

lemma plot_slowdown_returns:
  assumes "\<forall>tag\<in>sr_tag ` set rows. set size_groups \<subseteq> sr_size_group ` set (filter (\<lambda>r. sr_tag r = tag) rows)"
  shows "\<exists>bars. plot_slowdown rows = Inr bars \<and> set (map fst bars) = sr_tag ` set rows \<and> distinct (map fst bars)"
proof -
  let ?d = "fold (\<lambda>r. dappend (sr_tag r) r) rows []"
  have d: "?d = fold (\<lambda>p. dappend (fst p) (snd p)) (map (\<lambda>r. (sr_tag r, r)) rows) []" by (rule fold_dappend_map)
  have wf: "dict_wf ?d" unfolding d by (rule pyl.wf_group [OF pyd.wf_emp])
  have keys: "set (dkeys ?d) = sr_tag ` set rows"
    unfolding d pyl.set_keys_group by (simp add: dkeys_def image_image)
  have grp: "rs = filter (\<lambda>r. sr_tag r = tag) rows" if "(tag, rs) \<in> set ?d" for tag rs
    using dict_wf_dget [OF wf that, of "[]"] unfolding d dget_default_group by (simp add: filter_map comp_def)
  let ?row = "\<lambda>rs g. case dget (fold (\<lambda>r. dset (sr_size_group r) r) rs []) g of None \<Rightarrow> Inl KeyError | Some r \<Rightarrow> Inr r"
  let ?out = "\<lambda>(tag, rs). (let xs = map (\<lambda>g. the (dget (fold (\<lambda>r. dset (sr_size_group r) r) rs []) g)) size_groups in
      (tag, map (finite_or_zero \<circ> slowdown_median) xs, map (finite_or_zero \<circ> slowdown_p99) xs))"
  have "mapR (?row rs) size_groups = Inr (map (\<lambda>g. the (dget (fold (\<lambda>r. dset (sr_size_group r) r) rs []) g)) size_groups)"
    if "(tag, rs) \<in> set ?d" for tag rs
  proof (rule mapR_Inr)
    fix g assume g: "g \<in> set size_groups"
    have "tag \<in> sr_tag ` set rows" using that keys by (force simp: dkeys_def)
    then have "g \<in> sr_size_group ` set rs" using assms g grp [OF that] by blast
    then have "g \<in> set (dkeys (fold (\<lambda>r. dset (sr_size_group r) r) rs []))"
      unfolding fold_dset_map [of sr_size_group "\<lambda>r. r"] pyd.set_keys_fold_upd by (auto simp: image_image)
    then show "?row rs g = Inr (the (dget (fold (\<lambda>r. dset (sr_size_group r) r) rs []) g))"
      by (auto simp: in_dkeys)
  qed
  then have "plot_slowdown rows = Inr (map ?out ?d)"
    unfolding plot_slowdown_def Let_def by (intro mapR_Inr) (auto simp: Let_def)
  moreover have "map fst (map ?out ?d) = dkeys ?d" by (simp add: dkeys_def comp_def case_prod_unfold Let_def)
  ultimately show ?thesis using keys wf by (intro exI [of _ "map ?out ?d"]) (simp add: dict_wf_def dkeys_def del: map_map)
qed

text \<open>C8: The summaries of sim1 cover every run and every message: when they are produced there
  is one performance row per tag, tags distinct and sorted; each tag has one slowdown row for
  each of the four size groups, whose counts add up to the number of its messages that started
  in the window and have a positive ideal time; and drawing the bars never misses a group.\<close>

theorem sim1_summary_complete:
  assumes "sim1_summarize trace_dir names args = Inr (perf, slow)"
  shows "sorted (map pr_tag perf) \<and> distinct (map pr_tag perf) \<and> map pr_tag perf = sim1_parse_tags names
    \<and> (\<forall>tag\<in>set (map pr_tag perf).
         map sr_size_group (filter (\<lambda>r. sr_tag r = tag) slow) = size_groups
         \<and> sum_list (map sr_count (filter (\<lambda>r. sr_tag r = tag) slow)) =
            int (length (filter (counted_msg args) (sim1_parse_msg_trace (trace_dir (''sim1_'' @ tag @ ''.msg.tr''))))))
    \<and> (\<exists>bars. plot_slowdown slow = Inr bars \<and> set (map fst bars) = set (map pr_tag perf) \<and> distinct (map fst bars))"
proof -
  let ?tags = "sim1_parse_tags names"
  obtain rowss where r: "list_all2 (\<lambda>tag rows. slowdowns_of trace_dir args tag = Inr rows) ?tags rowss"
    and p: "perf = map (perf_of trace_dir args) ?tags" "slow = concat rowss"
    using assms by (auto simp: sim1_summarize_def bindR_eq_Inr Let_def dest: mapR_list_all2)
  have tags: "map pr_tag perf = ?tags"
    by (simp add: p comp_def perf_of_def Let_def case_prod_unfold)
  have srt: "sorted ?tags" "distinct ?tags" by (simp_all add: sim1_parse_tags_def Let_def)
  have k: "list_all2 (\<lambda>tag rows. \<forall>r\<in>set rows. sr_tag r = tag) ?tags rowss"
    using r by (rule list.rel_mono_strong) (simp add: slowdowns_of_rows)
  then have f: "list_all2 (\<lambda>tag rows. filter (\<lambda>r. sr_tag r = tag) slow = rows) ?tags rowss"
    unfolding p(2) by (rule filter_tag_concat) (rule srt(2))
  have each: "map sr_size_group (filter (\<lambda>r. sr_tag r = tag) slow) = size_groups
      \<and> sum_list (map sr_count (filter (\<lambda>r. sr_tag r = tag) slow)) =
        int (length (filter (counted_msg args) (sim1_parse_msg_trace (trace_dir (''sim1_'' @ tag @ ''.msg.tr'')))))"
    if "tag \<in> set ?tags" for tag
  proof -
    obtain rows where rows: "filter (\<lambda>r. sr_tag r = tag) slow = rows" "slowdowns_of trace_dir args tag = Inr rows"
      using list_all2_both [OF f r \<open>tag \<in> set ?tags\<close>] by blast
    show ?thesis unfolding rows(1) using slowdowns_of_rows [OF rows(2)] by blast
  qed
  have st: "sr_tag ` set slow = set ?tags"
  proof
    show "sr_tag ` set slow \<subseteq> set ?tags"
      unfolding p(2) by (rule list_all2_keys [OF k])
    show "set ?tags \<subseteq> sr_tag ` set slow"
    proof
      fix tag assume "tag \<in> set ?tags"
      from each [OF this] have "map sr_size_group (filter (\<lambda>r. sr_tag r = tag) slow) = size_groups" by blast
      then have "filter (\<lambda>r. sr_tag r = tag) slow \<noteq> []" by (auto simp: size_groups_def)
      then show "tag \<in> sr_tag ` set slow" by (auto simp: filter_empty_conv)
    qed
  qed
  have "\<exists>bars. plot_slowdown slow = Inr bars \<and> set (map fst bars) = sr_tag ` set slow \<and> distinct (map fst bars)"
  proof (rule plot_slowdown_returns, rule ballI)
    fix tag assume "tag \<in> sr_tag ` set slow"
    then have "map sr_size_group (filter (\<lambda>r. sr_tag r = tag) slow) = size_groups"
      using each st by blast
    then show "set size_groups \<subseteq> sr_size_group ` set (filter (\<lambda>r. sr_tag r = tag) slow)"
      by (metis order_refl set_map)
  qed
  then show ?thesis using each srt unfolding tags st by blast
qed

definition sim1_defaults :: sim1_args where
  "sim1_defaults = \<lparr>mss_bytes = 1442, wire_bytes = 1504, host_rate_gbps = Fin 100, hosts_per_tor = 16,
     link_delay_us = Fin 1, bdp_pkts = Fin 66, start_sec = None, end_sec = None\<rparr>"

lemma slowdowns_of_missing: "\<exists>rows. slowdowns_of (\<lambda>_. None) args tag = Inr rows"
proof -
  have "sim1_percentile [] p = Inr None" for p by (simp add: sim1_percentile_def fsort_def)
  then show ?thesis
    by (cases "parse_tag tag") (simp add: slowdowns_of_def sim1_parse_msg_trace_def mapR_Cons size_groups_def)
qed

theorem sim1_summary_complete_witness:
  "\<exists>perf slow. sim1_summarize (\<lambda>_. None) [''sim1_p_w_load50.msg.tr''] sim1_defaults = Inr (perf, slow)
     \<and> map pr_tag perf = [''p_w_load50'']"
proof -
  have t: "sim1_parse_tags [''sim1_p_w_load50.msg.tr''] = [''p_w_load50'']" by code_simp
  obtain rows where "slowdowns_of (\<lambda>_. None) sim1_defaults ''p_w_load50'' = Inr rows"
    using slowdowns_of_missing by blast
  then have "sim1_summarize (\<lambda>_. None) [''sim1_p_w_load50.msg.tr''] sim1_defaults =
      Inr ([perf_of (\<lambda>_. None) sim1_defaults ''p_w_load50''], rows)"
    unfolding sim1_summarize_def t Let_def by (simp add: mapR_Cons)
  note r = this
  have "map pr_tag [perf_of (\<lambda>_. None) sim1_defaults ''p_w_load50''] = [''p_w_load50'']"
    using sim1_summary_complete [OF r] t by metis
  with r show ?thesis by (intro exI conjI)
qed

end
