(* ===== verification/TopSort.thy ===== *)
theory TopSort
  imports Prelude
begin

text \<open>
  bindings/python/topsort.py: sorting by dependencies and the same in levels. The scripts are Python 2, whose
  dictionaries have no specified order: the order in which \<open>keys()\<close> lists the elements is a
  parameter \<open>ord\<close>, a permutation of the keys. Deleting or reading a missing key raises a
  KeyError, which is part of the model.
\<close>

subsection \<open>topsort\<close>

text \<open>Counts of predecessors, and the list of children of each parent.\<close>

fun dep_step :: "'a \<times> 'a \<Rightarrow> ('a, int) dict \<times> ('a, 'a list) dict \<Rightarrow> ('a, int) dict \<times> ('a, 'a list) dict" where
  "dep_step (parent, child) (num_parents, children) = (
     let num_parents = (if dget num_parents parent = None then dset parent 0 num_parents else num_parents);
         num_parents = (if dget num_parents child = None then dset child 0 num_parents else num_parents)
     in (dadd child 1 num_parents, dappend parent child children))"

definition dependencies :: "('a \<times> 'a) list \<Rightarrow> ('a, int) dict \<times> ('a, 'a list) dict" where
  "dependencies pairlist = fold dep_step pairlist ([], [])"

text \<open>Knocking down the count of each child; those that reach zero join the answer.\<close>

fun knock_down :: "'a list \<Rightarrow> ('a, int) dict \<Rightarrow> 'a list \<Rightarrow> (('a, int) dict \<times> 'a list) result" where
  "knock_down [] num_parents answer = Inr (num_parents, answer)"
| "knock_down (child # cs) num_parents answer = (case dget num_parents child of
      None \<Rightarrow> Inl KeyError
    | Some n \<Rightarrow> knock_down cs (dset child (n - 1) num_parents) (if n - 1 = 0 then answer @ [child] else answer))"

lemma dset_length: "dget d k \<noteq> None \<Longrightarrow> length (dset k v d) = length d"
  by (induction d) (auto simp: dget_def)

lemma dpop_length_less: "dget d k \<noteq> None \<Longrightarrow> length (dpop k d) < length d"
proof -
  assume "dget d k \<noteq> None"
  then obtain v where "(k, v) \<in> set d" by (auto simp: dget_def dest: map_of_SomeD)
  then show ?thesis unfolding dpop_def by (intro length_filter_less) auto
qed

lemma knock_down_length: "knock_down cs np answer = Inr (np', answer') \<Longrightarrow> length np' = length np"
  by (induction cs np answer rule: knock_down.induct) (auto simp: dset_length split: option.splits)

text \<open>The loop over the answer, which grows while it runs; \<open>i\<close> is its position.\<close>

function topsort_loop :: "'a list \<Rightarrow> nat \<Rightarrow> ('a, int) dict \<Rightarrow> ('a, 'a list) dict \<Rightarrow>
    ('a list \<times> ('a, int) dict \<times> ('a, 'a list) dict) result" where
  "topsort_loop answer i num_parents children = (
     if i < length answer then
       let parent = answer ! i in
       (case dget num_parents parent of None \<Rightarrow> Inl KeyError
        | Some _ \<Rightarrow>
            (case knock_down (dget_default children parent []) (dpop parent num_parents) answer of
               Inl e \<Rightarrow> Inl e
             | Inr (num_parents', answer') \<Rightarrow> topsort_loop answer' (Suc i) num_parents' (dpop parent children)))
     else Inr (answer, num_parents, children))"
  by pat_completeness auto
termination
proof (relation "measure (\<lambda>(_, _, num_parents, _). length num_parents)", goal_cases)
  case (2 answer i np ch p n x np' answer')
  then have "knock_down (dget_default ch p []) (dpop p np) answer = Inr (np', answer')" by simp
  then have "length np' = length (dpop p np)" by (rule knock_down_length)
  also have "\<dots> < length np" using 2 by (intro dpop_length_less) simp
  finally show ?case by simp
qed simp

declare topsort_loop.simps [simp del]

datatype 'a cycle_error = CycleError "'a list" "('a, int) dict" "('a, 'a list) dict"

text \<open>\<open>Inl\<close> is the CycleError that is raised.\<close>

definition topsort :: "('a list \<Rightarrow> 'a list) \<Rightarrow> ('a \<times> 'a) list \<Rightarrow> ('a cycle_error + 'a list) result" where
  "topsort ord pairlist = (case dependencies pairlist of (num_parents, children) \<Rightarrow>
     bindR (topsort_loop (filter (\<lambda>x. dget num_parents x = Some 0) (ord (dkeys num_parents))) 0 num_parents children)
       (\<lambda>(answer, num_parents, children).
          Inr (if num_parents \<noteq> [] then Inl (CycleError answer num_parents children) else Inr answer)))"

subsection \<open>topsort_levels\<close>

text \<open>Removing the elements of a level; here the counts of the children are knocked down in
  place and nothing else happens.\<close>

fun knock_level :: "'a list \<Rightarrow> ('a, int) dict \<Rightarrow> ('a, int) dict result" where
  "knock_level [] num_parents = Inr num_parents"
| "knock_level (child # cs) num_parents = (case dget num_parents child of
      None \<Rightarrow> Inl KeyError | Some n \<Rightarrow> knock_level cs (dset child (n - 1) num_parents))"

fun remove_level :: "'a list \<Rightarrow> ('a, int) dict \<Rightarrow> ('a, 'a list) dict \<Rightarrow> (('a, int) dict \<times> ('a, 'a list) dict) result" where
  "remove_level [] num_parents children = Inr (num_parents, children)"
| "remove_level (p # ps) num_parents children = (case dget num_parents p of None \<Rightarrow> Inl KeyError
    | Some _ \<Rightarrow> bindR (knock_level (dget_default children p []) (dpop p num_parents))
        (\<lambda>num_parents'. remove_level ps num_parents' (dpop p children)))"

lemma knock_level_length: "knock_level cs np = Inr np' \<Longrightarrow> length np' = length np"
  by (induction cs np rule: knock_level.induct) (auto simp: dset_length split: option.splits)

lemma remove_level_length: "remove_level ps np ch = Inr (np', ch') \<Longrightarrow> length np' + length ps \<le> length np"
proof (induction ps np ch rule: remove_level.induct)
  case (2 p ps np ch)
  then obtain v np1 where v: "dget np p = Some v"
    and k: "knock_level (dget_default ch p []) (dpop p np) = Inr np1"
    and r: "remove_level ps np1 (dpop p ch) = Inr (np', ch')"
    by (auto simp: bindR_eq_Inr split: option.splits)
  have "length np1 < length np" using knock_level_length [OF k] dpop_length_less [of np p] v by simp
  then show ?case using 2(1) [OF v r] by simp
qed simp

text \<open>The generator: the levels it yields, and how it ends.\<close>

function levels_core :: "('a list \<Rightarrow> 'a list) \<Rightarrow> ('a, int) dict \<Rightarrow> ('a, 'a list) dict \<Rightarrow>
    ('a list list \<times> (('a, int) dict \<times> ('a, 'a list) dict) option) result" where
  "levels_core ord num_parents children = (
     let level_parents = filter (\<lambda>x. dget num_parents x = Some 0) (ord (dkeys num_parents)) in
     if level_parents = [] then Inr ([], if num_parents \<noteq> [] then Some (num_parents, children) else None)
     else (case remove_level level_parents num_parents children of Inl e \<Rightarrow> Inl e
       | Inr (num_parents', children') \<Rightarrow>
           (case levels_core ord num_parents' children' of Inl e \<Rightarrow> Inl e
            | Inr (levels, end_state) \<Rightarrow> Inr (level_parents # levels, end_state))))"
  by pat_completeness auto
termination
proof (relation "measure (\<lambda>(_, num_parents, _). length num_parents)", goal_cases)
  case (2 ord np ch lp x np' ch')
  then have "remove_level lp np ch = Inr (np', ch')" by simp
  then have "length np' + length lp \<le> length np" by (rule remove_level_length)
  moreover have "0 < length lp" using 2(2) by simp
  ultimately show ?case by (simp del: length_greater_0_conv)
qed simp

declare levels_core.simps [simp del]

definition topsort_levels :: "('a list \<Rightarrow> 'a list) \<Rightarrow> ('a \<times> 'a) list \<Rightarrow>
    ('a list list \<times> (('a, int) dict \<times> ('a, 'a list) dict) option) result" where
  "topsort_levels ord pairlist = (case dependencies pairlist of (num_parents, children) \<Rightarrow>
     levels_core ord num_parents children)"

subsection \<open>The state of the sort\<close>

definition nodes :: "('a \<times> 'a) list \<Rightarrow> 'a set" where
  "nodes ps = fst ` set ps \<union> snd ` set ps"

text \<open>The edges into a node that do not come from the nodes already removed, and the children
  of a node.\<close>

definition pending :: "('a \<times> 'a) list \<Rightarrow> 'a set \<Rightarrow> 'a \<Rightarrow> nat" where
  "pending ps D y = length (filter (\<lambda>e. snd e = y \<and> fst e \<notin> D) ps)"

definition kids :: "('a \<times> 'a) list \<Rightarrow> 'a \<Rightarrow> 'a list" where
  "kids ps p = map snd (filter (\<lambda>e. fst e = p) ps)"

text \<open>What the two dictionaries hold once the nodes \<open>D\<close> are removed.\<close>

definition graph_state :: "('a \<times> 'a) list \<Rightarrow> 'a set \<Rightarrow> ('a, int) dict \<Rightarrow> ('a, 'a list) dict \<Rightarrow> bool" where
  "graph_state ps D num_parents children \<longleftrightarrow>
     dict_wf num_parents
     \<and> (\<forall>y. dget num_parents y = (if y \<in> nodes ps - D then Some (int (pending ps D y)) else None))
     \<and> (\<forall>p. p \<notin> D \<longrightarrow> dget_default children p [] = kids ps p)
     \<and> (\<forall>a b. (a, b) \<in> set ps \<longrightarrow> b \<in> D \<longrightarrow> a \<in> D)"

lemma pending_zero: "pending ps D y = 0 \<longleftrightarrow> (\<forall>a. (a, y) \<in> set ps \<longrightarrow> a \<in> D)"
  by (auto simp: pending_def filter_empty_conv)

lemma set_kids: "set (kids ps p) = {c. (p, c) \<in> set ps}"
  by (force simp: kids_def)

lemma count_kids: "p \<notin> D \<Longrightarrow> pending ps D y = pending ps (insert p D) y + count_list (kids ps p) y"
  by (induction ps) (auto simp: pending_def kids_def)

lemma finite_nodes [simp]: "finite (nodes ps)"
  by (simp add: nodes_def)

lemma edge_nodes: "(a, b) \<in> set ps \<Longrightarrow> a \<in> nodes ps \<and> b \<in> nodes ps"
  by (force simp: nodes_def)

lemma dict_wf_dset: "dict_wf d \<Longrightarrow> dict_wf (dset k v d)"
  by (rule pyd.wf_upd)

lemma dep_step_pair:
  "\<exists>np'. dep_step e (np, ch) = (np', dappend (fst e) (snd e) ch)
     \<and> (\<forall>y. dget np' y = (if y = fst e \<or> y = snd e \<or> dget np y \<noteq> None
           then Some (dget_default np y 0 + (if y = snd e then 1 else 0)) else None))
     \<and> (dict_wf np \<longrightarrow> dict_wf np')"
proof -
  obtain a b where e: "e = (a, b)" by (cases e)
  define np1 where "np1 = (if dget np a = None then dset a 0 np else np)"
  define np2 where "np2 = (if dget np1 b = None then dset b 0 np1 else np1)"
  have s: "dep_step e (np, ch) = (dadd b 1 np2, dappend a b ch)"
    by (simp add: e np1_def np2_def Let_def)
  have g: "dget (dadd b 1 np2) y = (if y = a \<or> y = b \<or> dget np y \<noteq> None
      then Some (dget_default np y 0 + (if y = b then 1 else 0)) else None)" for y
    by (auto simp: dadd_def np1_def np2_def dget_default_def dict_simps split: option.splits if_splits)
  have w: "dict_wf np \<Longrightarrow> dict_wf (dadd b 1 np2)"
    by (auto simp: dadd_def np1_def np2_def intro!: dict_wf_dset)
  show ?thesis using g w by (simp add: s) (simp add: e)
qed

lemma fold_dep_step_kids: "dget_default (snd (fold dep_step ps (np, ch))) p [] = dget_default ch p [] @ kids ps p"
proof (induction ps arbitrary: np ch)
  case (Cons e ps)
  obtain np' where "dep_step e (np, ch) = (np', dappend (fst e) (snd e) ch)" using dep_step_pair by blast
  then show ?case using Cons [of np' "dappend (fst e) (snd e) ch"] by (simp add: kids_def dappend_def)
qed (simp add: kids_def)

lemma nodes_Cons: "nodes (e # ps) = insert (fst e) (insert (snd e) (nodes ps))"
  by (auto simp: nodes_def)

lemma pending_Cons: "pending (e # ps) {} y = (if y = snd e then 1 else 0) + pending ps {} y"
  by (simp add: pending_def)

lemma fold_dep_step_counts:
  "dget (fst (fold dep_step ps (np, ch))) y =
     (if y \<in> nodes ps \<or> dget np y \<noteq> None then Some (dget_default np y 0 + int (pending ps {} y)) else None)"
proof (induction ps arbitrary: np ch)
  case Nil
  then show ?case by (auto simp: nodes_def pending_def dget_default_def)
next
  case (Cons e ps)
  obtain np' where s: "dep_step e (np, ch) = (np', dappend (fst e) (snd e) ch)"
    and g: "dget np' y = (if y = fst e \<or> y = snd e \<or> dget np y \<noteq> None
           then Some (dget_default np y 0 + (if y = snd e then 1 else 0)) else None)"
    using dep_step_pair [of e np ch] by blast
  have h: "dget_default np' y 0 = dget_default np y 0 + (if y = snd e then 1 else 0)"
    using g by (simp add: dget_default_def [of np']) (auto simp: dget_default_def)
  show ?case
    using Cons [of np' "dappend (fst e) (snd e) ch"] g h by (cases "y = snd e") (auto simp: s nodes_Cons pending_Cons)
qed

lemma fold_dep_step_wf: "dict_wf np \<Longrightarrow> dict_wf (fst (fold dep_step ps (np, ch)))"
proof (induction ps arbitrary: np ch)
  case (Cons e ps)
  then show ?case using dep_step_pair [of e np ch] by auto
qed simp

lemma graph_state_init: "graph_state ps {} (fst (dependencies ps)) (snd (dependencies ps))"
  unfolding graph_state_def dependencies_def
  by (simp add: fold_dep_step_counts fold_dep_step_kids fold_dep_step_wf dict_simps)

lemma knock_down_spec:
  assumes "\<And>y. y \<in> set cs \<Longrightarrow> \<exists>n. dget np y = Some n \<and> int (count_list cs y) \<le> n"
  shows "\<exists>np' new. knock_down cs np answer = Inr (np', answer @ new)
    \<and> (\<forall>y. dget np' y = map_option (\<lambda>n. n - int (count_list cs y)) (dget np y))
    \<and> (dict_wf np \<longrightarrow> dict_wf np') \<and> distinct new
    \<and> set new = {y \<in> set cs. dget np y = Some (int (count_list cs y))}"
  using assms
proof (induction cs arbitrary: np answer)
  case Nil
  then show ?case by (simp add: option.map_ident)
next
  case (Cons c cs)
  obtain n where n: "dget np c = Some n" "int (count_list (c # cs) c) \<le> n" using Cons.prems [of c] by auto
  define ans where "ans = (if n - 1 = 0 then [c] else [])"
  have "\<exists>m. dget (dset c (n - 1) np) y = Some m \<and> int (count_list cs y) \<le> m" if "y \<in> set cs" for y
    using Cons.prems [of y] n that by (auto simp: dict_simps)
  from Cons.IH [OF this, of "answer @ ans"] obtain np' new where
    k: "knock_down cs (dset c (n - 1) np) (answer @ ans) = Inr (np', (answer @ ans) @ new)"
    and g: "\<forall>y. dget np' y = map_option (\<lambda>n. n - int (count_list cs y)) (dget (dset c (n - 1) np) y)"
    and w: "dict_wf (dset c (n - 1) np) \<longrightarrow> dict_wf np'" and d: "distinct new"
    and s: "set new = {y \<in> set cs. dget (dset c (n - 1) np) y = Some (int (count_list cs y))}" by blast
  have r: "knock_down (c # cs) np answer = Inr (np', answer @ ans @ new)"
    using k n by (simp add: ans_def split: if_splits)
  have z: "count_list cs c = 0 \<longleftrightarrow> c \<notin> set cs" by (simp add: count_list_0_iff)
  have "\<forall>y. dget np' y = map_option (\<lambda>n. n - int (count_list (c # cs) y)) (dget np y)"
    using g n by (auto simp: dict_simps)
  moreover have "distinct (ans @ new)" using d s z by (auto simp: ans_def dict_simps)
  moreover have "set (ans @ new) = {y \<in> set (c # cs). dget np y = Some (int (count_list (c # cs) y))}"
    using n z by (auto simp: ans_def s dict_simps split: if_splits)
  moreover have "dict_wf np \<longrightarrow> dict_wf np'" using w dict_wf_dset [of np c "n - 1"] by blast
  ultimately show ?case using r by (intro exI [of _ np'] exI [of _ "ans @ new"]) simp
qed

lemma knock_level_eq: "knock_level cs np = map_sum id fst (knock_down cs np answer)"
  by (induction cs np answer rule: knock_down.induct) (auto split: option.splits)

text \<open>Removing a node none of whose parents is left.\<close>

lemma remove_node:
  assumes g: "graph_state ps D np ch" and p: "p \<in> nodes ps - D" "pending ps D p = 0"
  shows "\<exists>np' new. knock_down (dget_default ch p []) (dpop p np) answer = Inr (np', answer @ new)
    \<and> graph_state ps (insert p D) np' (dpop p ch) \<and> distinct new
    \<and> set new = {y \<in> nodes ps - insert p D. pending ps (insert p D) y = 0 \<and> pending ps D y \<noteq> 0}"
proof -
  have k: "dget_default ch p [] = kids ps p" using g p by (simp add: graph_state_def)
  have c: "pending ps D y = pending ps (insert p D) y + count_list (kids ps p) y" for y
    using p by (intro count_kids) simp
  have loc: "y \<in> nodes ps - insert p D" if "y \<in> set (kids ps p)" for y
    using that g p edge_nodes [of p y ps] by (auto simp: set_kids graph_state_def pending_zero)
  have np1: "dget (dpop p np) y = (if y \<in> nodes ps - insert p D then Some (int (pending ps D y)) else None)" for y
    using g by (simp add: graph_state_def dict_simps)
  have "\<exists>n. dget (dpop p np) y = Some n \<and> int (count_list (kids ps p) y) \<le> n" if "y \<in> set (kids ps p)" for y
    using loc [OF that] c [of y] by (simp add: np1)
  from knock_down_spec [OF this, of answer] obtain np' new where
    r: "knock_down (kids ps p) (dpop p np) answer = Inr (np', answer @ new)"
    and g': "\<forall>y. dget np' y = map_option (\<lambda>n. n - int (count_list (kids ps p) y)) (dget (dpop p np) y)"
    and w: "dict_wf (dpop p np) \<longrightarrow> dict_wf np'" and d: "distinct new"
    and s: "set new = {y \<in> set (kids ps p). dget (dpop p np) y = Some (int (count_list (kids ps p) y))}" by blast
  have np': "dget np' y = (if y \<in> nodes ps - insert p D then Some (int (pending ps (insert p D) y)) else None)" for y
    using g' c [of y] by (simp add: np1)
  have "dict_wf np'" using w pyd.wf_del [of np p] g by (simp add: graph_state_def)
  then have st: "graph_state ps (insert p D) np' (dpop p ch)"
    using g np' p unfolding graph_state_def by (auto simp: pending_zero)
  have "set new = {y \<in> nodes ps - insert p D. pending ps (insert p D) y = 0 \<and> pending ps D y \<noteq> 0}"
    unfolding s np1 using loc c by (auto simp: count_list_0_iff)
  with r st d show ?thesis unfolding k by blast
qed
subsection \<open>The sort is correct\<close>

lemma no_source_cycle:
  assumes "finite S" "S \<noteq> {}" "\<And>y. y \<in> S \<Longrightarrow> \<exists>a \<in> S. (a, y) \<in> set ps"
  shows "\<not> acyclic (set ps)"
proof
  assume "acyclic (set ps)"
  then have "wf (set ps)" by (simp add: finite_acyclic_wf)
  then obtain y where "y \<in> S" "\<And>a. (a, y) \<in> set ps \<Longrightarrow> a \<notin> S" using wfE_min' assms(2) by metis
  then show False using assms(3) by blast
qed

lemma stuck_cycle:
  assumes "graph_state ps D np ch" "np \<noteq> []" "\<And>y. y \<in> nodes ps - D \<Longrightarrow> pending ps D y \<noteq> 0"
  shows "\<not> acyclic (set ps)"
proof (rule no_source_cycle)
  show "finite (nodes ps - D)" by simp
  have "fst (hd np) \<in> set (dkeys np)" using assms(2) by (simp add: dkeys_def)
  then show "nodes ps - D \<noteq> {}" using assms(1) by (auto simp: in_dkeys graph_state_def split: if_splits)
next
  fix y assume "y \<in> nodes ps - D"
  from assms(3) [OF this] obtain a where "(a, y) \<in> set ps" "a \<notin> D" by (auto simp: pending_zero)
  then show "\<exists>a \<in> nodes ps - D. (a, y) \<in> set ps" using edge_nodes [of a y ps] by auto
qed

lemma graph_state_Nil: "graph_state ps D [] ch \<Longrightarrow> nodes ps \<subseteq> D"
  by (auto simp: graph_state_def dict_simps split: if_splits)

text \<open>What holds at the head of the loop over the answer.\<close>

definition sort_inv :: "('a \<times> 'a) list \<Rightarrow> 'a list \<Rightarrow> nat \<Rightarrow> ('a, int) dict \<Rightarrow> ('a, 'a list) dict \<Rightarrow> bool" where
  "sort_inv ps answer i num_parents children \<longleftrightarrow>
     i \<le> length answer \<and> distinct answer \<and> set answer \<subseteq> nodes ps
     \<and> graph_state ps (set (take i answer)) num_parents children
     \<and> set (drop i answer) = {y \<in> nodes ps - set (take i answer). pending ps (set (take i answer)) y = 0}
     \<and> (\<forall>j < length answer. \<forall>a. (a, answer ! j) \<in> set ps \<longrightarrow> a \<in> set (take (min i j) answer))"

lemma topsort_loop_ok:
  assumes "sort_inv ps answer i np ch"
  shows "\<exists>answer' np' ch'. topsort_loop answer i np ch = Inr (answer', np', ch')
           \<and> sort_inv ps answer' (length answer') np' ch'"
  using assms
proof (induction answer i np ch rule: topsort_loop.induct)
  case (1 answer i np ch)
  show ?case
  proof (cases "i < length answer")
    case False
    then show ?thesis using 1(2) by (simp add: topsort_loop.simps sort_inv_def)
  next
    case True
    define D p where "D = set (take i answer)" and "p = answer ! i"
    note I = 1(2) [unfolded sort_inv_def, folded D_def]
    have D': "set (take (Suc i) answer) = insert p D" using True by (simp add: D_def p_def take_Suc_conv_app_nth)
    have dr: "drop i answer = p # drop (Suc i) answer" using True by (simp add: p_def Cons_nth_drop_Suc)
    have p: "p \<in> nodes ps - D" "pending ps D p = 0" using I dr by auto
    obtain n where n: "dget np p = Some n" using I p by (auto simp: graph_state_def)
    obtain np' new where k: "knock_down (dget_default ch p []) (dpop p np) answer = Inr (np', answer @ new)"
      and g: "graph_state ps (insert p D) np' (dpop p ch)" and d: "distinct new"
      and s: "set new = {y \<in> nodes ps - insert p D. pending ps (insert p D) y = 0 \<and> pending ps D y \<noteq> 0}"
      using remove_node [of ps D np ch p answer] I p by blast
    have "sort_inv ps (answer @ new) (Suc i) np' (dpop p ch)"
      unfolding sort_inv_def
    proof (intro conjI allI impI)
      have da: "set answer = D \<union> set (drop i answer)"
        using set_append [of "take i answer" "drop i answer"] by (simp add: D_def)
      show "distinct (answer @ new)" using I d s da by auto
      show "set (answer @ new) \<subseteq> nodes ps" using I s by auto
      show "graph_state ps (set (take (Suc i) (answer @ new))) np' (dpop p ch)" using g D' True by simp
      have m: "pending ps D y = 0 \<Longrightarrow> pending ps (insert p D) y = 0" for y by (auto simp: pending_zero)
      have "distinct (p # drop (Suc i) answer)" using I distinct_drop [of answer i] by (simp add: dr)
      then have "set (drop (Suc i) answer) = set (drop i answer) - {p}" by (auto simp: dr)
      then show "set (drop (Suc i) (answer @ new)) = {y \<in> nodes ps - set (take (Suc i) (answer @ new)).
          pending ps (set (take (Suc i) (answer @ new))) y = 0}"
        using I m s D' True by auto
      fix j a assume j: "j < length (answer @ new)" and e: "(a, (answer @ new) ! j) \<in> set ps"
      show "a \<in> set (take (min (Suc i) j) (answer @ new))"
      proof (cases "j < length answer")
        case True
        then have "a \<in> set (take (min i j) answer)" using I e by (auto simp: nth_append)
        moreover have "set (take (min i j) answer) \<subseteq> set (take (min (Suc i) j) answer)"
          by (rule set_take_subset_set_take) (simp add: min_def)
        ultimately show ?thesis using True by auto
      next
        case False
        then have "(answer @ new) ! j \<in> set new" using j by (simp add: nth_append)
        then have "a \<in> insert p D" using s e by (auto simp: pending_zero)
        then show ?thesis using False True D' by (simp add: min_def)
      qed
    qed (use True in simp)
    from 1(1) [OF True p_def n k refl this] show ?thesis
      using True n k by (simp add: topsort_loop.simps [of answer i] p_def)
  qed
qed

lemma sort_inv_start:
  assumes "mset (ord (dkeys np)) = mset (dkeys np)" "graph_state ps {} np ch"
  shows "sort_inv ps (filter (\<lambda>x. dget np x = Some 0) (ord (dkeys np))) 0 np ch"
proof -
  have g: "dget np y = (if y \<in> nodes ps then Some (int (pending ps {} y)) else None)" for y
    using assms(2) by (simp add: graph_state_def)
  have "distinct (dkeys np)" using assms(2) by (simp add: graph_state_def dict_wf_def dkeys_def)
  then have d: "distinct (ord (dkeys np))" using mset_eq_imp_distinct_iff [OF assms(1)] by simp
  have "set (dkeys np) = nodes ps" by (auto simp: pyd.set_keys g)
  then have k: "set (ord (dkeys np)) = nodes ps" using mset_eq_setD [OF assms(1)] by simp
  let ?a = "filter (\<lambda>x. dget np x = Some 0) (ord (dkeys np))"
  have s: "set ?a = {y \<in> nodes ps. pending ps {} y = 0}" by (auto simp: k g split: if_splits)
  have "(a, ?a ! j) \<notin> set ps" if "j < length ?a" for a j
  proof -
    have "?a ! j \<in> set ?a" using that by (rule nth_mem)
    then show ?thesis unfolding s by (simp add: pending_zero)
  qed
  then show ?thesis unfolding sort_inv_def using assms(2) d s by simp
qed
definition parents_first :: "('a \<times> 'a) list \<Rightarrow> 'a list \<Rightarrow> bool" where
  "parents_first ps xs \<longleftrightarrow> (\<forall>j < length xs. \<forall>a. (a, xs ! j) \<in> set ps \<longrightarrow> a \<in> set (take j xs))"

text \<open>\<open>xs.index(x)\<close> for an element of the list.\<close>

definition index_of :: "'a \<Rightarrow> 'a list \<Rightarrow> nat" where
  "index_of x xs = length (takeWhile (\<lambda>y. y \<noteq> x) xs)"

lemma index_of_Cons: "index_of x (y # ys) = (if x = y then 0 else Suc (index_of x ys))"
  by (simp add: index_of_def)

lemma nth_index_of: "x \<in> set xs \<Longrightarrow> index_of x xs < length xs \<and> xs ! index_of x xs = x"
  by (induction xs) (auto simp: index_of_Cons)

lemma index_of_take: "x \<in> set (take j xs) \<Longrightarrow> index_of x xs < j"
proof (induction xs arbitrary: j)
  case (Cons y xs)
  then show ?case by (cases j) (auto simp: index_of_Cons)
qed simp

lemma parents_first_acyclic:
  assumes "parents_first ps xs" "nodes ps \<subseteq> set xs"
  shows "acyclic (set ps)"
proof (rule acyclicI_order)
  fix a b assume e: "(a, b) \<in> set ps"
  then have "b \<in> set xs" using edge_nodes [OF e] assms(2) by auto
  then have "a \<in> set (take (index_of b xs) xs)"
    using assms(1) e nth_index_of [of b xs] by (auto simp: parents_first_def)
  then show "- int (index_of b xs) < - int (index_of a xs)" using index_of_take by fastforce
qed

lemma topsort_result:
  assumes "mset (ord (dkeys (fst (dependencies ps)))) = mset (dkeys (fst (dependencies ps)))"
  shows "\<exists>answer np ch. topsort ord ps = Inr (if np \<noteq> [] then Inl (CycleError answer np ch) else Inr answer)
    \<and> sort_inv ps answer (length answer) np ch"
proof -
  obtain np ch where d: "dependencies ps = (np, ch)" by (cases "dependencies ps")
  have "sort_inv ps (filter (\<lambda>x. dget np x = Some 0) (ord (dkeys np))) 0 np ch"
    using sort_inv_start [of ord np ps ch] graph_state_init [of ps] assms by (simp add: d)
  from topsort_loop_ok [OF this] obtain answer np' ch' where
    r: "topsort_loop (filter (\<lambda>x. dget np x = Some 0) (ord (dkeys np))) 0 np ch = Inr (answer, np', ch')"
      "sort_inv ps answer (length answer) np' ch'" by blast
  then show ?thesis by (intro exI [of _ answer] exI [of _ np'] exI [of _ ch']) (simp add: topsort_def d)
qed

text \<open>C16: The sort never fails on a missing key. On an acyclic graph it answers with all the
  nodes, each once and after all its parents; on a graph with a cycle it raises the CycleError,
  whose answer is the correctly sorted part, and whose counts are those of the other nodes, none
  of them zero.\<close>

theorem topsort_correct:
  assumes "\<And>xs. mset (ord xs) = mset xs"
  shows "case topsort ord ps of
      Inl e \<Rightarrow> False
    | Inr (Inr answer) \<Rightarrow>
        acyclic (set ps) \<and> distinct answer \<and> set answer = nodes ps \<and> parents_first ps answer
    | Inr (Inl (CycleError answer np ch)) \<Rightarrow>
        \<not> acyclic (set ps) \<and> distinct answer \<and> set answer \<subset> nodes ps \<and> parents_first ps answer
        \<and> graph_state ps (set answer) np ch \<and> (\<forall>n. n \<in> snd ` set np \<longrightarrow> n > 0)"
proof -
  obtain answer np ch where t: "topsort ord ps = Inr (if np \<noteq> [] then Inl (CycleError answer np ch) else Inr answer)"
    and I: "sort_inv ps answer (length answer) np ch" using topsort_result assms by blast
  have g: "graph_state ps (set answer) np ch" using I by (simp add: sort_inv_def)
  have pf: "parents_first ps answer" using I by (auto simp: parents_first_def sort_inv_def)
  have nz: "\<And>y. y \<in> nodes ps - set answer \<Longrightarrow> pending ps (set answer) y \<noteq> 0"
    using I by (auto simp: sort_inv_def)
  show ?thesis
  proof (cases "np = []")
    case True
    then have "nodes ps \<subseteq> set answer" using g graph_state_Nil by blast
    then show ?thesis using I True pf parents_first_acyclic [OF pf] by (auto simp: t sort_inv_def)
  next
    case False
    then have c: "\<not> acyclic (set ps)" using stuck_cycle [OF g] nz by blast
    then have "set answer \<noteq> nodes ps" using parents_first_acyclic [OF pf] by auto
    moreover have "n > 0" if "(y, n) \<in> set np" for y n
    proof -
      have "dict_wf np" using g by (simp add: graph_state_def)
      then have "dget np y = Some n" using that by (simp add: dict_wf_def dget_def)
      then show ?thesis using g nz [of y] by (auto simp: graph_state_def split: if_splits)
    qed
    ultimately show ?thesis using I False pf c g by (auto simp: t sort_inv_def)
  qed
qed

theorem topsort_correct_witness:
  "topsort rev [(1::nat, 2), (2, 3), (4, 3)] = Inr (Inr [4, 1, 2, 3])
   \<and> parents_first [(1::nat, 2), (2, 3), (4, 3)] [4, 1, 2, 3]
   \<and> topsort rev [(1::nat, 2), (2, 3), (3, 2)] = Inr (Inl (CycleError [1] [(2, 1), (3, 1)] [(2, [3]), (3, [2])]))
   \<and> \<not> acyclic {(1::nat, 2), (2, 3), (3, 2)}"
proof -
  have a: "topsort rev [(1::nat, 2), (2, 3), (4, 3)] = Inr (Inr [4, 1, 2, 3])" by code_simp
  have b: "topsort rev [(1::nat, 2), (2, 3), (3, 2)] = Inr (Inl (CycleError [1] [(2, 1), (3, 1)] [(2, [3]), (3, [2])]))"
    by code_simp
  show ?thesis
    using a b topsort_correct [of rev "[(1::nat, 2), (2, 3), (4, 3)]"] topsort_correct [of rev "[(1::nat, 2), (2, 3), (3, 2)]"]
    by simp
qed
subsection \<open>The levels are the greedy ones\<close>

lemma pending_insert_zero: "pending ps D y = 0 \<Longrightarrow> D \<subseteq> D' \<Longrightarrow> pending ps D' y = 0"
  by (auto simp: pending_zero)

lemma remove_level_ok:
  assumes "graph_state ps D np ch" "distinct l" "set l \<subseteq> {y \<in> nodes ps - D. pending ps D y = 0}"
  shows "\<exists>np' ch'. remove_level l np ch = Inr (np', ch') \<and> graph_state ps (D \<union> set l) np' ch'"
  using assms
proof (induction l arbitrary: D np ch)
  case (Cons p l)
  then have p: "p \<in> nodes ps - D" "pending ps D p = 0" by auto
  from remove_node [OF Cons.prems(1) p, of "[]"] obtain np' new where
    k: "knock_down (dget_default ch p []) (dpop p np) [] = Inr (np', new)"
    and g: "graph_state ps (insert p D) np' (dpop p ch)" by auto
  have "set l \<subseteq> {y \<in> nodes ps - insert p D. pending ps (insert p D) y = 0}"
    using Cons.prems by (auto intro: pending_insert_zero)
  from Cons.IH [OF g _ this] obtain np2 ch2 where
    r: "remove_level l np' (dpop p ch) = Inr (np2, ch2)" "graph_state ps (D \<union> set (p # l)) np2 ch2"
    using Cons.prems by auto
  obtain n where "dget np p = Some n" using Cons.prems(1) p by (auto simp: graph_state_def)
  then show ?case using k r by (simp add: knock_level_eq [of _ _ "[]"])
qed simp

fun greedy :: "('a \<times> 'a) list \<Rightarrow> 'a set \<Rightarrow> 'a list list \<Rightarrow> bool" where
  "greedy ps D [] \<longleftrightarrow> (\<forall>y. y \<in> nodes ps - D \<longrightarrow> pending ps D y \<noteq> 0)"
| "greedy ps D (l # ls) \<longleftrightarrow> l \<noteq> [] \<and> distinct l \<and> set l = {y \<in> nodes ps - D. pending ps D y = 0}
     \<and> greedy ps (D \<union> set l) ls"

lemma greedy_Cons:
  assumes "greedy ps D (l # ls)"
  shows "l \<noteq> []" "distinct l" "set l = {y \<in> nodes ps - D. pending ps D y = 0}" "greedy ps (D \<union> set l) ls"
  using assms unfolding greedy.simps by blast+

lemma levels_core_ok:
  assumes "\<And>xs. mset (ord xs) = mset xs" "graph_state ps D np ch"
  shows "\<exists>levels. greedy ps D levels \<and>
    (if nodes ps \<subseteq> D \<union> set (concat levels) then levels_core ord np ch = Inr (levels, None)
     else \<exists>np' ch'. levels_core ord np ch = Inr (levels, Some (np', ch'))
            \<and> graph_state ps (D \<union> set (concat levels)) np' ch' \<and> \<not> acyclic (set ps))"
  using assms(2)
proof (induction "length np" arbitrary: D np ch rule: less_induct)
  case less
  define l where "l = filter (\<lambda>x. dget np x = Some 0) (ord (dkeys np))"
  have g: "dget np y = (if y \<in> nodes ps - D then Some (int (pending ps D y)) else None)" for y
    using less.prems by (simp add: graph_state_def)
  have "distinct (dkeys np)" using less.prems by (simp add: graph_state_def dict_wf_def dkeys_def)
  then have d: "distinct l" using mset_eq_imp_distinct_iff [OF assms(1)] by (simp add: l_def)
  have dk: "set (dkeys np) = nodes ps - D" by (auto simp: pyd.set_keys g)
  then have k: "set (ord (dkeys np)) = nodes ps - D" using mset_eq_setD [OF assms(1)] by simp
  have s: "set l = {y \<in> nodes ps - D. pending ps D y = 0}" by (auto simp: l_def k g)
  show ?case
  proof (cases "l = []")
    case True
    then have nz: "\<And>y. y \<in> nodes ps - D \<Longrightarrow> pending ps D y \<noteq> 0" using s by auto
    have r: "levels_core ord np ch = Inr ([], if np \<noteq> [] then Some (np, ch) else None)"
      using True by (simp add: levels_core.simps [of ord np ch] l_def [symmetric])
    have "nodes ps \<subseteq> D \<longleftrightarrow> set (dkeys np) = {}" unfolding dk by blast
    then have e: "np = [] \<longleftrightarrow> nodes ps \<subseteq> D" by (simp add: dkeys_def)
    show ?thesis using nz r e less.prems stuck_cycle [OF less.prems]
      by (intro exI [of _ "[]"]) (auto simp: nz)
  next
    case False
    from remove_level_ok [OF less.prems d] s obtain np' ch' where
      r: "remove_level l np ch = Inr (np', ch')" and g': "graph_state ps (D \<union> set l) np' ch'" by auto
    have "0 < length l" using False by simp
    then have "length np' < length np" using remove_level_length [OF r] by linarith
    from less.hyps [OF this g'] obtain levels where
      gr: "greedy ps (D \<union> set l) levels" and
      res: "if nodes ps \<subseteq> D \<union> set l \<union> set (concat levels) then levels_core ord np' ch' = Inr (levels, None)
        else \<exists>np2 ch2. levels_core ord np' ch' = Inr (levels, Some (np2, ch2))
            \<and> graph_state ps (D \<union> set l \<union> set (concat levels)) np2 ch2 \<and> \<not> acyclic (set ps)" by blast
    have u: "D \<union> set (concat (l # levels)) = D \<union> set l \<union> set (concat levels)" by auto
    have c: "levels_core ord np ch = (case levels_core ord np' ch' of Inl e \<Rightarrow> Inl e
        | Inr (levels, end_state) \<Rightarrow> Inr (l # levels, end_state))"
      using False r by (simp add: levels_core.simps [of ord np ch] l_def [symmetric])
    show ?thesis
    proof (rule exI [of _ "l # levels"], unfold u, intro conjI)
      show "greedy ps D (l # levels)" using False d s gr by simp
    qed (use res c in \<open>auto split: if_splits\<close>)
  qed
qed

lemma greedy_nth:
  assumes "greedy ps D levels" "k < length levels"
  shows "levels ! k \<noteq> [] \<and> set (levels ! k) = {y \<in> nodes ps - (D \<union> set (concat (take k levels))).
     \<forall>a. (a, y) \<in> set ps \<longrightarrow> a \<in> D \<union> set (concat (take k levels))}"
  using assms
proof (induction levels arbitrary: D k)
  case (Cons l ls)
  show ?case
  proof (cases k)
    case 0
    then show ?thesis using Cons.prems by (simp add: pending_zero)
  next
    case (Suc j)
    then have "j < length ls" using Cons.prems by simp
    from Cons.IH [OF greedy_Cons(4) [OF Cons.prems(1)] this] show ?thesis by (simp add: Suc Un_assoc)
  qed
qed simp

lemma greedy_distinct: "greedy ps D levels \<Longrightarrow> distinct (concat levels) \<and> set (concat levels) \<inter> D = {}"
  by (induction levels arbitrary: D) auto

lemma greedy_stuck_cycle:
  assumes "acyclic (set ps)" "greedy ps D levels"
  shows "nodes ps \<subseteq> D \<union> set (concat levels)"
  using assms(2)
proof (induction levels arbitrary: D)
  case Nil
  show ?case
  proof (rule ccontr)
    assume "\<not> ?thesis"
    then have ne: "nodes ps - D \<noteq> {}" by auto
    have "\<not> acyclic (set ps)"
    proof (rule no_source_cycle [OF _ ne])
      fix y assume y: "y \<in> nodes ps - D"
      then have "pending ps D y \<noteq> 0" using Nil by simp
      then obtain a where "(a, y) \<in> set ps" "a \<notin> D" by (auto simp: pending_zero)
      then show "\<exists>a \<in> nodes ps - D. (a, y) \<in> set ps" using edge_nodes [of a y ps] by auto
    qed simp
    then show False using assms(1) by simp
  qed
next
  case (Cons l ls)
  from Cons.IH [OF greedy_Cons(4) [OF Cons.prems]] show ?case by auto
qed

lemma parents_first_append:
  "parents_first ps xs \<Longrightarrow> (\<And>a b. (a, b) \<in> set ps \<Longrightarrow> b \<in> set l \<Longrightarrow> a \<in> set xs) \<Longrightarrow> parents_first ps (xs @ l)"
  unfolding parents_first_def
proof (intro allI impI)
  fix j a
  assume xs: "\<forall>j < length xs. \<forall>a. (a, xs ! j) \<in> set ps \<longrightarrow> a \<in> set (take j xs)"
    and l: "\<And>a b. (a, b) \<in> set ps \<Longrightarrow> b \<in> set l \<Longrightarrow> a \<in> set xs"
    and j: "j < length (xs @ l)" and e: "(a, (xs @ l) ! j) \<in> set ps"
  show "a \<in> set (take j (xs @ l))"
  proof (cases "j < length xs")
    case True
    then show ?thesis using xs e by (simp add: nth_append)
  next
    case False
    then have "(xs @ l) ! j \<in> set l" using j by (simp add: nth_append)
    then show ?thesis using l e False by auto
  qed
qed

lemma greedy_parents_first:
  "greedy ps (set xs) levels \<Longrightarrow> parents_first ps xs \<Longrightarrow> parents_first ps (xs @ concat levels)"
proof (induction levels arbitrary: xs)
  case (Cons l ls)
  note G = greedy_Cons [OF Cons.prems(1)]
  have "parents_first ps (xs @ l)" using Cons.prems(2)
    by (rule parents_first_append) (auto simp: G(3) pending_zero)
  with Cons.IH [of "xs @ l"] G(4) show ?case by simp
qed simp

text \<open>C17: A level is everything whose parents are all in earlier levels and that is not in one
  itself, no level is empty, and no node is in two. The generator ends without the CycleError
  exactly on an acyclic graph, and then the levels hold all the nodes.\<close>

theorem topsort_levels_correct:
  assumes "\<And>xs. mset (ord xs) = mset xs"
  shows "\<exists>levels end_state. topsort_levels ord ps = Inr (levels, end_state)
    \<and> distinct (concat levels)
    \<and> (\<forall>k < length levels. levels ! k \<noteq> [] \<and> set (levels ! k) =
         {y \<in> nodes ps - set (concat (take k levels)). \<forall>a. (a, y) \<in> set ps \<longrightarrow> a \<in> set (concat (take k levels))})
    \<and> (end_state = None \<longleftrightarrow> acyclic (set ps)) \<and> (acyclic (set ps) \<longleftrightarrow> set (concat levels) = nodes ps)"
proof -
  obtain np ch where d: "dependencies ps = (np, ch)" by (cases "dependencies ps")
  have "graph_state ps {} np ch" using graph_state_init [of ps] by (simp add: d)
  from levels_core_ok [OF assms this] obtain levels where g: "greedy ps {} levels" and
    r: "if nodes ps \<subseteq> set (concat levels) then levels_core ord np ch = Inr (levels, None)
     else \<exists>np' ch'. levels_core ord np ch = Inr (levels, Some (np', ch'))
            \<and> graph_state ps (set (concat levels)) np' ch' \<and> \<not> acyclic (set ps)"
    unfolding Un_empty_left by blast
  have sub: "set (concat levels) \<subseteq> nodes ps" using greedy_nth [OF g] by (fastforce simp: in_set_conv_nth)
  have "parents_first ps (concat levels)" using greedy_parents_first [of ps "[]" levels] g by (simp add: parents_first_def)
  then have ac: "acyclic (set ps) \<longleftrightarrow> set (concat levels) = nodes ps"
    using parents_first_acyclic [of ps "concat levels"] greedy_stuck_cycle [OF _ g] sub by auto
  have n: "\<forall>k < length levels. levels ! k \<noteq> [] \<and> set (levels ! k) =
         {y \<in> nodes ps - set (concat (take k levels)). \<forall>a. (a, y) \<in> set ps \<longrightarrow> a \<in> set (concat (take k levels))}"
    using greedy_nth [OF g] by simp
  show ?thesis
  proof (cases "nodes ps \<subseteq> set (concat levels)")
    case True
    then have "topsort_levels ord ps = Inr (levels, None)" using r by (simp add: topsort_levels_def d)
    then show ?thesis using greedy_distinct [OF g] n ac True sub by blast
  next
    case False
    then obtain np' ch' where "topsort_levels ord ps = Inr (levels, Some (np', ch'))"
      using r by (auto simp: topsort_levels_def d)
    then show ?thesis using greedy_distinct [OF g] n ac False by auto
  qed
qed

theorem topsort_levels_correct_witness:
  "topsort_levels rev [(1::nat, 2), (2, 3), (4, 3)] = Inr ([[4, 1], [2], [3]], None)
   \<and> acyclic {(1::nat, 2), (2, 3), (4, 3)}"
proof -
  have a: "topsort_levels rev [(1::nat, 2), (2, 3), (4, 3)] = Inr ([[4, 1], [2], [3]], None)" by code_simp
  then show ?thesis using topsort_levels_correct [of rev "[(1::nat, 2), (2, 3), (4, 3)]"] by auto
qed

end
