(* ===== verification/FindCycles.thy ===== *)
theory FindCycles
  imports TopSort "HOL-Library.Multiset_Order"
begin

text \<open>
  The search for cycles of bindings/python/topsort.py, with \<open>is_rotated\<close> of
  bindings/python/rad_util.py: the stack of paths, the cycles found so far and the nodes visited
  are explicit; the generator is the list of the cycles it yields. The main result is that the
  search finds every simple cycle once, up to rotation.
\<close>

subsection \<open>is_rotated and find_cycles\<close>

definition is_rotated :: "'a list \<Rightarrow> 'a list \<Rightarrow> bool result" where
  "is_rotated seq1 seq2 = (if length seq1 \<noteq> length seq2 then Inr False
     else case seq2 of [] \<Rightarrow> Inl IndexError
       | head_item # _ \<Rightarrow>
           let start_indexes = filter (\<lambda>i. seq1 ! i = head_item) [0..<length seq1];
               double_seq1 = seq1 @ seq1
           in Inr (list_ex (\<lambda>i. take (length seq1) (drop i double_seq1) = seq2) start_indexes))"

text \<open>\<open>any(is_rotated(other, cycle))\<close>, stopping at the first.\<close>

fun is_dup :: "'a list list \<Rightarrow> 'a list \<Rightarrow> bool result" where
  "is_dup [] cycle = Inr False"
| "is_dup (other # os) cycle = bindR (is_rotated other cycle) (\<lambda>r. if r then Inr True else is_dup os cycle)"

text \<open>The children of the last node of a path: a child on the path closes a cycle, another one
  extends the path.\<close>

fun expand :: "'a list \<Rightarrow> 'a list \<Rightarrow> 'a list list \<times> 'a list \<times> 'a list list \<Rightarrow>
    ('a list list \<times> 'a list \<times> 'a list list) result" where
  "expand path [] s = Inr s"
| "expand path (child # cs) (paths, visited, cycles) =
     (if child \<in> set path then
        let cycle = drop (index_of child path) path in
        bindR (is_dup cycles cycle) (\<lambda>dup.
          expand path cs (paths, visited, if dup then cycles else cycles @ [cycle]))
      else expand path cs (paths @ [path @ [child]], child # visited, cycles))"

text \<open>The nodes that occur in the graph.\<close>

definition graph_nodes :: "('a, 'a list) dict \<Rightarrow> 'a set" where
  "graph_nodes g = set (dkeys g) \<union> \<Union> (set ` snd ` set g)"

definition unused :: "('a, 'a list) dict \<Rightarrow> 'a list \<Rightarrow> nat" where
  "unused g path = card (graph_nodes g - set path)"

lemma expand_paths:
  "expand path cs (paths, visited, cycles) = Inr (paths', visited', cycles') \<Longrightarrow>
   \<exists>new. paths' = paths @ map (\<lambda>c. path @ [c]) new \<and> set new \<subseteq> set cs - set path"
proof (induction path cs "(paths, visited, cycles)" arbitrary: paths visited cycles rule: expand.induct)
  case (2 path child cs paths visited cycles)
  show ?case
  proof (cases "child \<in> set path")
    case True
    then show ?thesis using 2 by (fastforce simp: Let_def bindR_eq_Inr)
  next
    case False
    then obtain new where "paths' = (paths @ [path @ [child]]) @ map (\<lambda>c. path @ [c]) new" "set new \<subseteq> set cs - set path"
      using 2 by fastforce
    then show ?thesis using False by (intro exI [of _ "child # new"]) auto
  qed
qed auto

lemma children_nodes: "dget g p = Some cs \<Longrightarrow> set cs \<subseteq> graph_nodes g"
  by (force simp: dget_def graph_nodes_def dest: map_of_SomeD)

lemma finite_graph_nodes [simp]: "finite (graph_nodes g)"
  by (simp add: graph_nodes_def)

text \<open>\<open>while paths\<close>: the last path is popped and expanded.\<close>

function explore :: "('a, 'a list) dict \<Rightarrow> 'a list list \<Rightarrow> 'a list \<Rightarrow> 'a list list \<Rightarrow>
    ('a list \<times> 'a list list) result" where
  "explore g paths visited cycles = (
     if paths = [] then Inr (visited, cycles)
     else let path = last paths in
       (case dget g (last path) of None \<Rightarrow> explore g (butlast paths) visited cycles
        | Some children \<Rightarrow>
            (case expand path children (butlast paths, visited, cycles) of Inl e \<Rightarrow> Inl e
             | Inr (paths', visited', cycles') \<Rightarrow> explore g paths' visited' cycles')))"
  by pat_completeness auto
termination
proof (relation "inv_image (mult less_than) (\<lambda>(g, paths, _). image_mset (unused g) (mset paths))", goal_cases)
  case 1
  show ?case by (simp add: wf_mult wf_inv_image)
next
  case (2 g paths visited cycles path)
  then have "mset paths = mset (butlast paths) + {#path#}"
    using append_butlast_last_id [of paths] mset_append [of "butlast paths" "[last paths]"] by simp
  then show ?case using one_step_implies_mult [of "{#unused g path#}" "{#}" less_than] by simp
next
  case (3 g paths visited cycles path children x paths' y visited' cycles')
  then have p: "mset paths = mset (butlast paths) + {#path#}"
    using append_butlast_last_id [of paths] mset_append [of "butlast paths" "[last paths]"] by simp
  have "expand path children (butlast paths, visited, cycles) = Inr (paths', visited', cycles')" using 3 by simp
  then obtain new where new: "paths' = butlast paths @ map (\<lambda>c. path @ [c]) new" "set new \<subseteq> set children - set path"
    using expand_paths by metis
  have lt: "unused g (path @ [c]) < unused g path" if "c \<in> set new" for c
  proof -
    have "set children \<subseteq> graph_nodes g" using 3(3) by (rule children_nodes)
    then have "c \<in> graph_nodes g - set path" using that new(2) by auto
    then show ?thesis unfolding unused_def by (intro psubset_card_mono finite_Diff finite_graph_nodes) auto
  qed
  have m: "image_mset (unused g) (mset paths) = image_mset (unused g) (mset (butlast paths)) + {#unused g path#}"
    by (simp add: p)
  have m': "image_mset (unused g) (mset paths') = image_mset (unused g) (mset (butlast paths)) + mset (map (\<lambda>c. unused g (path @ [c])) new)"
    unfolding new(1) by (simp add: multiset.map_comp comp_def)
  show ?case
    unfolding in_inv_image split m m'
  proof (rule one_step_implies_mult)
    show "{#unused g path#} \<noteq> {#}" by simp
    show "\<forall>k \<in># mset (map (\<lambda>c. unused g (path @ [c])) new). \<exists>j \<in># {#unused g path#}. (k, j) \<in> less_than"
      using lt by auto
  qed
qed

declare explore.simps [simp del]

text \<open>The cycles the generator yields, in order.\<close>

fun cycles_from :: "('a, 'a list) dict \<Rightarrow> 'a list \<Rightarrow> 'a list \<Rightarrow> 'a list list \<Rightarrow> 'a list list result" where
  "cycles_from g [] visited cycles = Inr cycles"
| "cycles_from g (parent # ps) visited cycles =
     (if parent \<in> set visited then cycles_from g ps visited cycles
      else bindR (explore g [[parent]] visited cycles) (\<lambda>(visited', cycles'). cycles_from g ps visited' cycles'))"

definition find_cycles :: "('a list \<Rightarrow> 'a list) \<Rightarrow> ('a, 'a list) dict \<Rightarrow> 'a list list result" where
  "find_cycles ord parent_children = cycles_from parent_children (ord (dkeys parent_children)) [] []"

subsection \<open>The cycle search finds each cycle once\<close>

definition edge :: "('a, 'a list) dict \<Rightarrow> 'a \<Rightarrow> 'a \<Rightarrow> bool" where
  "edge g a b \<longleftrightarrow> (\<exists>cs. dget g a = Some cs \<and> b \<in> set cs)"

definition gpath :: "('a, 'a list) dict \<Rightarrow> 'a list \<Rightarrow> bool" where
  "gpath g p \<longleftrightarrow> p \<noteq> [] \<and> distinct p \<and> successively (edge g) p"

definition simple_cycle :: "('a, 'a list) dict \<Rightarrow> 'a list \<Rightarrow> bool" where
  "simple_cycle g c \<longleftrightarrow> gpath g c \<and> edge g (last c) (hd c)"

definition rotation :: "'a list \<Rightarrow> 'a list \<Rightarrow> bool" where
  "rotation c d \<longleftrightarrow> (\<exists>n. d = rotate n c)"

lemma rotation_length: "rotation c d \<Longrightarrow> length c = length d"
  by (auto simp: rotation_def)

lemma rotation_mod: "rotation c d \<longleftrightarrow> (\<exists>n. d = rotate (n mod length c) c)"
  unfolding rotation_def using rotate_conv_mod by metis

lemma rotation_sym: "rotation c d \<Longrightarrow> rotation d c"
proof -
  assume "rotation c d"
  then obtain n where d: "d = rotate n c" by (auto simp: rotation_def)
  show "rotation d c"
  proof (cases "c = []")
    case False
    define k where "k = length c * n - n"
    have kn: "k + n = length c * n" using False by (cases "length c") (auto simp: k_def)
    have "rotate k d = rotate (k + n) c" by (simp add: d rotate_rotate)
    also have "\<dots> = rotate ((k + n) mod length c) c" by (rule rotate_conv_mod)
    also have "(k + n) mod length c = 0"
      by (simp add: kn)
    finally have "rotate k d = c" by simp
    then show ?thesis unfolding rotation_def by metis
  qed (simp add: d rotation_def)
qed

lemma rotation_trans: "rotation a b \<Longrightarrow> rotation b c \<Longrightarrow> rotation a c"
  unfolding rotation_def by (metis rotate_rotate)

lemma double_slice: "i < length xs \<Longrightarrow> take (length xs) (drop i (xs @ xs)) = rotate i xs"
  by (simp add: rotate_drop_take)

lemma hd_rotate: "i < length xs \<Longrightarrow> hd (rotate i xs) = xs ! i"
  by (simp add: rotate_drop_take hd_append hd_drop_conv_nth)

lemma is_rotated_rotation:
  assumes "seq2 \<noteq> []"
  shows "is_rotated seq1 seq2 = Inr (rotation seq1 seq2)"
proof (cases "length seq1 = length seq2")
  case True
  obtain h t where s: "seq2 = h # t" using assms by (cases seq2) auto
  have n0: "0 < length seq1" using True s by simp
  have "list_ex (\<lambda>i. take (length seq1) (drop i (seq1 @ seq1)) = seq2) (filter (\<lambda>i. seq1 ! i = h) [0..<length seq1])
      \<longleftrightarrow> rotation seq1 seq2" (is "?l \<longleftrightarrow> ?r")
  proof
    assume ?l
    then obtain i where "i < length seq1" "take (length seq1) (drop i (seq1 @ seq1)) = seq2"
      unfolding list_ex_iff by force
    then show ?r using double_slice [of i seq1] unfolding rotation_def by metis
  next
    assume ?r
    then obtain n where n: "seq2 = rotate (n mod length seq1) seq1" by (auto simp: rotation_mod)
    define i where "i = n mod length seq1"
    have i: "i < length seq1" using n0 by (simp add: i_def)
    have "seq1 ! i = h" using hd_rotate [OF i] n s by (metis i_def list.sel(1))
    then show ?l using i double_slice [OF i] n by (auto simp: list_ex_iff i_def intro!: bexI [of _ i])
  qed
  then show ?thesis using True s by (simp add: is_rotated_def Let_def)
next
  case False
  then show ?thesis using rotation_length [of seq1 seq2] by (auto simp: is_rotated_def)
qed

text \<open>The rotation test decides rotation, except that on two empty lists, where the answer
  is yes, it raises an IndexError.\<close>

theorem is_rotated_spec:
  "is_rotated seq1 seq2 = (if seq1 = [] \<and> seq2 = [] then Inl IndexError else Inr (rotation seq1 seq2))"
proof (cases "seq2 = []")
  case True
  then show ?thesis using rotation_length [of seq1 "[]"] by (auto simp: is_rotated_def)
qed (simp add: is_rotated_rotation)

lemma is_dup_rotation: "cycle \<noteq> [] \<Longrightarrow> is_dup os cycle = Inr (\<exists>other \<in> set os. rotation other cycle)"
  by (induction os) (auto simp: is_rotated_rotation)

lemma index_of_split:
  assumes "c \<in> set p"
  shows "\<exists>xs ys. p = xs @ c # ys \<and> c \<notin> set xs \<and> index_of c p = length xs \<and> drop (index_of c p) p = c # ys"
  using assms by (induction p) (auto simp: index_of_Cons Cons_eq_append_conv)

lemma loop_cycle:
  assumes "gpath g p" "edge g (last p) c" "c \<in> set p"
  shows "simple_cycle g (drop (index_of c p) p)"
proof -
  obtain xs ys where p: "p = xs @ c # ys" and d: "drop (index_of c p) p = c # ys"
    using index_of_split [OF assms(3)] by blast
  show ?thesis unfolding d using assms(1,2) p
    by (auto simp: simple_cycle_def gpath_def successively_append_iff)
qed

lemma gpath_snoc: "gpath g p \<Longrightarrow> edge g (last p) c \<Longrightarrow> c \<notin> set p \<Longrightarrow> gpath g (p @ [c])"
  by (auto simp: gpath_def successively_append_iff)

text \<open>The list of cycles: all real, none a rotation of an earlier one.\<close>

definition cycles_ok :: "('a, 'a list) dict \<Rightarrow> 'a list list \<Rightarrow> bool" where
  "cycles_ok g cycles \<longleftrightarrow> (\<forall>c. c \<in> set cycles \<longrightarrow> simple_cycle g c) \<and> sorted_wrt (\<lambda>c d. \<not> rotation c d) cycles"

definition found :: "'a list list \<Rightarrow> 'a list \<Rightarrow> bool" where
  "found cycles c \<longleftrightarrow> (\<exists>other \<in> set cycles. rotation other c)"

lemma found_mono: "found cycles c \<Longrightarrow> set cycles \<subseteq> set cycles' \<Longrightarrow> found cycles' c"
  by (auto simp: found_def)

lemma found_self: "c \<in> set cycles \<Longrightarrow> found cycles c"
  unfolding found_def rotation_def using rotate0 by (metis id_apply)

lemma expand_spec:
  assumes "gpath g p" "\<And>c. c \<in> set cs \<Longrightarrow> edge g (last p) c" "cycles_ok g cycles"
  shows "\<exists>cycles'. expand p cs (paths, visited, cycles) =
      Inr (paths @ map (\<lambda>c. p @ [c]) (filter (\<lambda>c. c \<notin> set p) cs), rev (filter (\<lambda>c. c \<notin> set p) cs) @ visited, cycles')
    \<and> set cycles \<subseteq> set cycles' \<and> cycles_ok g cycles'
    \<and> (\<forall>c. c \<in> set cs \<longrightarrow> c \<in> set p \<longrightarrow> found cycles' (drop (index_of c p) p))"
  using assms(2,3)
proof (induction cs arbitrary: paths visited cycles)
  case (Cons c cs)
  show ?case
  proof (cases "c \<in> set p")
    case False
    then show ?thesis using Cons.IH [of cycles "paths @ [p @ [c]]" "c # visited"] Cons.prems by auto
  next
    case True
    define cyc where "cyc = drop (index_of c p) p"
    have sc: "simple_cycle g cyc" using loop_cycle [OF assms(1) _ True] Cons.prems(1) by (simp add: cyc_def)
    then have ne: "cyc \<noteq> []" by (auto simp: simple_cycle_def gpath_def)
    define cycles1 where "cycles1 = (if found cycles cyc then cycles else cycles @ [cyc])"
    have "cycles_ok g cycles1" using Cons.prems(2) sc
      by (auto simp: cycles1_def cycles_ok_def found_def sorted_wrt_append)
    with Cons.IH [of cycles1 paths visited] Cons.prems(1) obtain cycles' where
      e: "expand p cs (paths, visited, cycles1) =
        Inr (paths @ map (\<lambda>c. p @ [c]) (filter (\<lambda>c. c \<notin> set p) cs), rev (filter (\<lambda>c. c \<notin> set p) cs) @ visited, cycles')"
      and s: "set cycles1 \<subseteq> set cycles'" and ok: "cycles_ok g cycles'"
      and f: "\<forall>c. c \<in> set cs \<longrightarrow> c \<in> set p \<longrightarrow> found cycles' (drop (index_of c p) p)" by auto
    have "found cycles1 cyc" using found_self [of cyc cycles1] by (auto simp: cycles1_def)
    then have fc: "found cycles' cyc" using s by (rule found_mono)
    have "expand p (c # cs) (paths, visited, cycles) = expand p cs (paths, visited, cycles1)"
      using True is_dup_rotation [OF ne, of cycles] by (simp add: cycles1_def found_def cyc_def Let_def)
    then show ?thesis using e s ok f fc True by (intro exI [of _ cycles']) (auto simp: cyc_def cycles1_def split: if_splits)
  qed
qed auto
text \<open>Every loop at the end of an extension of a path is among the cycles.\<close>

definition closed_from :: "('a, 'a list) dict \<Rightarrow> 'a list list \<Rightarrow> 'a list \<Rightarrow> bool" where
  "closed_from g cycles p \<longleftrightarrow> (\<forall>ext c. gpath g (p @ ext) \<longrightarrow> edge g (last (p @ ext)) c \<longrightarrow> c \<in> set (p @ ext) \<longrightarrow>
     found cycles (drop (index_of c (p @ ext)) (p @ ext)))"

lemma gpath_append_edge: "gpath g (p @ d # ext) \<Longrightarrow> p \<noteq> [] \<Longrightarrow> edge g (last p) d \<and> d \<notin> set p"
  by (auto simp: gpath_def successively_append_iff)

lemma closed_from_leaf:
  assumes "dget g (last p) = None" "p \<noteq> []"
  shows "closed_from g cycles p"
  unfolding closed_from_def
proof (intro allI impI)
  fix ext c assume "gpath g (p @ ext)" "edge g (last (p @ ext)) c"
  then show "found cycles (drop (index_of c (p @ ext)) (p @ ext))"
    using assms gpath_append_edge [of g p "hd ext" "tl ext"] by (cases ext) (auto simp: edge_def)
qed

lemma closed_from_node:
  assumes "dget g (last p) = Some cs" "p \<noteq> []"
    and loops: "\<And>c. c \<in> set cs \<Longrightarrow> c \<in> set p \<Longrightarrow> found cycles (drop (index_of c p) p)"
    and "\<And>c. c \<in> set cs \<Longrightarrow> c \<notin> set p \<Longrightarrow> closed_from g cycles (p @ [c])"
  shows "closed_from g cycles p"
  unfolding closed_from_def
proof (intro allI impI)
  fix ext c assume a: "gpath g (p @ ext)" "edge g (last (p @ ext)) c" "c \<in> set (p @ ext)"
  show "found cycles (drop (index_of c (p @ ext)) (p @ ext))"
  proof (cases ext)
    case Nil
    then show ?thesis using loops [of c] a assms(1) by (auto simp: edge_def)
  next
    case (Cons d ext')
    then have d: "d \<in> set cs" "d \<notin> set p" using gpath_append_edge [of g p d ext'] a(1) assms(1,2) by (auto simp: edge_def)
    show ?thesis using assms(4) [OF d] a unfolding Cons closed_from_def by (metis append.assoc append_Cons append_Nil)
  qed
qed

text \<open>The paths on the stack start at the root \<open>r\<close> of the search.\<close>

definition rooted :: "('a, 'a list) dict \<Rightarrow> 'a \<Rightarrow> 'a list \<Rightarrow> bool" where
  "rooted g r p \<longleftrightarrow> gpath g p \<and> (edge g)\<^sup>*\<^sup>* r (last p)"

lemma rooted_snoc: "rooted g r p \<Longrightarrow> edge g (last p) c \<Longrightarrow> c \<notin> set p \<Longrightarrow> rooted g r (p @ [c])"
  using gpath_snoc [of g p c] by (auto simp: rooted_def intro: rtranclp.rtrancl_into_rtrancl)

lemma explore_spec:
  assumes "\<And>p. p \<in> set paths \<Longrightarrow> rooted g r p" "cycles_ok g cycles"
  shows "\<exists>visited' cycles'. explore g paths visited cycles = Inr (visited', cycles')
    \<and> set cycles \<subseteq> set cycles' \<and> cycles_ok g cycles' \<and> set visited' \<subseteq> set visited \<union> {v. (edge g)\<^sup>*\<^sup>* r v}
    \<and> (\<forall>p. p \<in> set paths \<longrightarrow> closed_from g cycles' p)"
  using assms
proof (induction g paths visited cycles rule: explore.induct)
  case (1 g paths visited cycles)
  show ?case
  proof (cases "paths = []")
    case True
    then show ?thesis using 1(4) by (simp add: explore.simps)
  next
    case False
    define path where "path = last paths"
    have "set paths = set (butlast paths @ [last paths])" by (subst append_butlast_last_id [OF False]) (rule refl)
    then have mem: "set paths = insert path (set (butlast paths))" by (simp add: path_def)
    have rp: "rooted g r path" and ne: "path \<noteq> []" using 1(3) mem by (auto simp: rooted_def gpath_def)
    show ?thesis
    proof (cases "dget g (last path)")
      case None
      have "\<And>p. p \<in> set (butlast paths) \<Longrightarrow> rooted g r p" using 1(3) mem by blast
      from 1(1) [OF False path_def None this 1(4)] closed_from_leaf [OF None ne] show ?thesis
        using False None by (fastforce simp: explore.simps [of g paths] path_def [symmetric] mem)
    next
      case (Some cs)
      define new where "new = filter (\<lambda>c. c \<notin> set path) cs"
      have ed: "edge g (last path) c \<longleftrightarrow> c \<in> set cs" for c using Some by (simp add: edge_def)
      have gp: "gpath g path" using rp by (simp add: rooted_def)
      from expand_spec [OF gp _ 1(4), of cs "butlast paths" visited] obtain cycles1 where
        x: "expand path cs (butlast paths, visited, cycles) =
            Inr (butlast paths @ map (\<lambda>c. path @ [c]) new, rev new @ visited, cycles1)"
        and s1: "set cycles \<subseteq> set cycles1" and ok1: "cycles_ok g cycles1"
        and f1: "\<forall>c. c \<in> set cs \<longrightarrow> c \<in> set path \<longrightarrow> found cycles1 (drop (index_of c path) path)"
        unfolding new_def ed by blast
      have rn: "rooted g r (path @ [c])" if "c \<in> set new" for c
        using rooted_snoc [OF rp] that by (simp add: new_def ed)
      have "rooted g r p" if "p \<in> set (butlast paths @ map (\<lambda>c. path @ [c]) new)" for p
        using that rn 1(3) mem by auto
      from 1(2) [OF False path_def Some x refl refl this ok1] obtain visited' cycles' where
        r: "explore g (butlast paths @ map (\<lambda>c. path @ [c]) new) (rev new @ visited) cycles1 = Inr (visited', cycles')"
          "set cycles1 \<subseteq> set cycles'" "cycles_ok g cycles'" "set visited' \<subseteq> set (rev new @ visited) \<union> {v. (edge g)\<^sup>*\<^sup>* r v}"
        and f: "\<forall>p. p \<in> set (butlast paths @ map (\<lambda>c. path @ [c]) new) \<longrightarrow> closed_from g cycles' p" by blast
      have "closed_from g cycles' path"
        using found_mono [OF _ r(2)] f1 f by (intro closed_from_node [OF Some ne]) (auto simp: new_def)
      moreover have "set (rev new) \<subseteq> {v. (edge g)\<^sup>*\<^sup>* r v}" using rn by (auto simp: rooted_def)
      ultimately show ?thesis using r s1 f False Some x
        by (intro exI [of _ visited'] exI [of _ cycles']) (auto simp: explore.simps [of g paths] path_def [symmetric] mem)
    qed
  qed
qed

text \<open>A cycle that can be reached from the root is found: take the first node of the cycle on a
  simple path to it, and walk around.\<close>

lemma path_into:
  assumes "(edge g)\<^sup>*\<^sup>* r x" "x \<in> S"
  shows "\<exists>p. gpath g p \<and> hd p = r \<and> last p \<in> S \<and> set (butlast p) \<inter> S = {}"
  using assms(1)
proof (induction rule: converse_rtranclp_induct)
  case base
  then show ?case using assms(2) by (intro exI [of _ "[x]"]) (simp add: gpath_def)
next
  case (step y z)
  then obtain p where p: "gpath g p" "hd p = z" "last p \<in> S" "set (butlast p) \<inter> S = {}" by blast
  consider (in_S) "y \<in> S" | (fresh) "y \<notin> S" "y \<notin> set p" | (loop) "y \<in> set p" by blast
  then show ?case
  proof cases
    case in_S
    then show ?thesis by (intro exI [of _ "[y]"]) (simp add: gpath_def)
  next
    case fresh
    then show ?thesis using p step(1) by (intro exI [of _ "y # p"]) (auto simp: gpath_def successively_Cons)
  next
    case loop
    then obtain xs ys where s: "p = xs @ y # ys" using split_list by metis
    then show ?thesis using p
      by (intro exI [of _ "y # ys"]) (auto simp: gpath_def successively_append_iff butlast_append split: if_splits)
  qed
qed

lemma simple_cycle_rotate1:
  assumes "simple_cycle g (a # c)"
  shows "simple_cycle g (c @ [a])"
  using assms by (cases "c = []") (auto simp: simple_cycle_def gpath_def successively_append_iff successively_Cons)

lemma simple_cycle_rotate: "simple_cycle g c \<Longrightarrow> simple_cycle g (rotate n c)"
proof (induction n)
  case (Suc n)
  then show ?case using simple_cycle_rotate1 [of g "hd (rotate n c)" "tl (rotate n c)"]
    by (cases "rotate n c") auto
qed simp

lemma index_of_append: "x \<notin> set xs \<Longrightarrow> index_of x (xs @ x # ys) = length xs"
  by (induction xs) (auto simp: index_of_Cons)

lemma reached_cycle_found:
  assumes "closed_from g cycles [r]" "simple_cycle g d" "(edge g)\<^sup>*\<^sup>* r (hd d)"
  shows "found cycles d"
proof -
  have "hd d \<in> set d" using assms(2) by (simp add: simple_cycle_def gpath_def)
  from path_into [OF assms(3) this] obtain p where
    p: "gpath g p" "hd p = r" "last p \<in> set d" "set (butlast p) \<inter> set d = {}" by blast
  define x xs where "x = last p" and "xs = butlast p"
  have ps: "p = xs @ [x]" using p(1) by (simp add: x_def xs_def gpath_def)
  obtain n where n: "n < length d" "d ! n = x" using p(3) by (auto simp: x_def in_set_conv_nth)
  define d' where "d' = rotate n d"
  have "hd d' = x" using hd_rotate [OF n(1)] n(2) by (simp add: d'_def)
  moreover have sc: "simple_cycle g d'" using assms(2) simple_cycle_rotate by (simp add: d'_def)
  ultimately obtain ys where d': "d' = x # ys" by (cases d') (auto simp: simple_cycle_def gpath_def)
  have sd: "set d' = set d" by (simp add: d'_def)
  have g: "gpath g (xs @ d')" using p sc sd unfolding ps d'
    by (auto simp: simple_cycle_def gpath_def successively_append_iff x_def [symmetric] xs_def [symmetric])
  have e: "edge g (last (xs @ d')) x" using sc by (simp add: d' simple_cycle_def)
  have xn: "x \<notin> set xs" using g by (auto simp: gpath_def d')
  have h: "xs @ d' = [r] @ tl (xs @ d')" using p(2) by (cases xs) (auto simp: ps d')
  have "found cycles (drop (index_of x (xs @ d')) (xs @ d'))"
    using assms(1) g e unfolding closed_from_def by (subst (1 2) h) (metis h d' in_set_conv_decomp)
  then have "found cycles d'" using index_of_append [OF xn, of ys] by (simp add: d')
  moreover have "rotation d' d" unfolding d'_def by (rule rotation_sym) (auto simp: rotation_def)
  ultimately show ?thesis using rotation_trans unfolding found_def by blast
qed
lemma cycles_from_spec:
  assumes "cycles_ok g cycles"
    and "\<And>v d. v \<in> set visited \<Longrightarrow> simple_cycle g d \<Longrightarrow> (edge g)\<^sup>*\<^sup>* v (hd d) \<Longrightarrow> found cycles d"
  shows "\<exists>cycles'. cycles_from g ps visited cycles = Inr cycles' \<and> set cycles \<subseteq> set cycles' \<and> cycles_ok g cycles'
    \<and> (\<forall>v d. v \<in> set ps \<longrightarrow> simple_cycle g d \<longrightarrow> (edge g)\<^sup>*\<^sup>* v (hd d) \<longrightarrow> found cycles' d)"
  using assms
proof (induction ps arbitrary: visited cycles)
  case (Cons p ps)
  show ?case
  proof (cases "p \<in> set visited")
    case True
    from Cons.IH [OF Cons.prems(1), of visited] Cons.prems(2) obtain cycles' where
      r: "cycles_from g ps visited cycles = Inr cycles'" "set cycles \<subseteq> set cycles'" "cycles_ok g cycles'"
      and f: "\<forall>v d. v \<in> set ps \<longrightarrow> simple_cycle g d \<longrightarrow> (edge g)\<^sup>*\<^sup>* v (hd d) \<longrightarrow> found cycles' d" by blast
    have "found cycles' d" if "simple_cycle g d" "(edge g)\<^sup>*\<^sup>* p (hd d)" for d
      using Cons.prems(2) [OF True that] r(2) by (rule found_mono)
    then show ?thesis using True r f by auto
  next
    case False
    have "\<And>q. q \<in> set [[p]] \<Longrightarrow> rooted g p q" by (simp add: rooted_def gpath_def)
    from explore_spec [where paths = "[[p]]" and visited = visited, OF this Cons.prems(1)] obtain visited1 cycles1 where
      x: "explore g [[p]] visited cycles = Inr (visited1, cycles1)" "set cycles \<subseteq> set cycles1" "cycles_ok g cycles1"
        "set visited1 \<subseteq> set visited \<union> {v. (edge g)\<^sup>*\<^sup>* p v}" "closed_from g cycles1 [p]" by auto
    note fp = reached_cycle_found [OF x(5)]
    have fv: "found cycles1 d" if "v \<in> set visited1" "simple_cycle g d" "(edge g)\<^sup>*\<^sup>* v (hd d)" for v d
    proof (cases "v \<in> set visited")
      case True
      from Cons.prems(2) [OF this that(2,3)] x(2) show ?thesis by (rule found_mono)
    next
      case F: False
      then have "(edge g)\<^sup>*\<^sup>* p (hd d)" using that x(4) by auto
      then show ?thesis using fp that(2) by blast
    qed
    from Cons.IH [OF x(3), of visited1] fv obtain cycles' where
      r: "cycles_from g ps visited1 cycles1 = Inr cycles'" "set cycles1 \<subseteq> set cycles'" "cycles_ok g cycles'"
      and f: "\<forall>v d. v \<in> set ps \<longrightarrow> simple_cycle g d \<longrightarrow> (edge g)\<^sup>*\<^sup>* v (hd d) \<longrightarrow> found cycles' d" by blast
    have "found cycles' d" if "simple_cycle g d" "(edge g)\<^sup>*\<^sup>* p (hd d)" for d
      using fp [OF that] r(2) by (rule found_mono)
    then show ?thesis using False x r f by auto
  qed
qed simp

lemma cycle_starts_at_key: "simple_cycle g d \<Longrightarrow> hd d \<in> set (dkeys g)"
proof -
  assume a: "simple_cycle g d"
  then obtain x xs where d: "d = x # xs" by (cases d) (auto simp: simple_cycle_def gpath_def)
  have "\<exists>b. edge g x b" using a unfolding d
    by (cases xs) (auto simp: simple_cycle_def gpath_def)
  then show ?thesis by (auto simp: edge_def in_dkeys d)
qed

text \<open>C11: The cycle search finds every simple cycle of the graph exactly once, up to rotation,
  whatever the order of the dictionary: what it yields are cycles, none is a rotation of an
  earlier one, and every simple cycle is a rotation of one of them. It always ends, without an
  error, and starting only at nodes that no earlier search has visited loses nothing.\<close>

theorem find_cycles_exact:
  assumes "\<And>xs. mset (ord xs) = mset xs"
  shows "\<exists>cycles. find_cycles ord g = Inr cycles
    \<and> (\<forall>c. c \<in> set cycles \<longrightarrow> simple_cycle g c)
    \<and> sorted_wrt (\<lambda>c d. \<not> rotation c d) cycles
    \<and> (\<forall>d. simple_cycle g d \<longrightarrow> (\<exists>c \<in> set cycles. rotation c d))"
proof -
  have ks: "set (ord (dkeys g)) = set (dkeys g)" using mset_eq_setD [OF assms] .
  have "cycles_ok g []" by (simp add: cycles_ok_def)
  from cycles_from_spec [OF this, of "[]" "ord (dkeys g)"] obtain cycles where
    r: "find_cycles ord g = Inr cycles" "cycles_ok g cycles"
    and f: "\<forall>v d. v \<in> set (dkeys g) \<longrightarrow> simple_cycle g d \<longrightarrow> (edge g)\<^sup>*\<^sup>* v (hd d) \<longrightarrow> found cycles d"
    unfolding find_cycles_def ks by auto
  have "found cycles d" if "simple_cycle g d" for d
    using f that cycle_starts_at_key [OF that] by blast
  then show ?thesis using r unfolding cycles_ok_def found_def by blast
qed

theorem find_cycles_exact_witness:
  "find_cycles id [(1::nat, [2]), (2, [3, 4]), (3, [5]), (4, [5]), (5, [1, 3])] =
     Inr [[1, 2, 4, 5], [5, 3], [1, 2, 3, 5]]
   \<and> (\<exists>c \<in> set [[1::nat, 2, 4, 5], [5, 3], [1, 2, 3, 5]]. rotation c [3, 5])"
proof -
  let ?g = "[(1::nat, [2]), (2, [3, 4]), (3, [5]), (4, [5]), (5, [1, 3])]"
  have r: "find_cycles id ?g = Inr [[1, 2, 4, 5], [5, 3], [1, 2, 3, 5]]" by code_simp
  have "simple_cycle ?g [3, 5]" by (simp add: simple_cycle_def gpath_def edge_def dget_def)
  then show ?thesis using find_cycles_exact [of id ?g] r by auto
qed

end
