(* ===== verification/Regex.thy ===== *)
theory Regex
  imports PyInt "HOL-Library.List_Lexorder"
begin

text \<open>
  The part of Python's regular expressions the scripts use: sequences of character classes with
  greedy repetition, groups that do not nest, an optional literal group and the end anchor.
  \<open>rmatch\<close> is the backtracking matcher (longest repetition first, the optional literal first) and
  gives the groups of the first match. Beside it the file name patterns of \<open>glob\<close>. Digits are the
  ASCII ones.
\<close>

datatype atom =
    Rep "char \<Rightarrow> bool" nat "nat option"
  | Open | Close
  | Maybe string
  | Eos

type_synonym regex = "atom list"

definition lit :: "string \<Rightarrow> regex" where
  "lit s = map (\<lambda>c. Rep (\<lambda>x. x = c) 1 (Some 1)) s"

abbreviation some1 :: "(char \<Rightarrow> bool) \<Rightarrow> atom" where
  "some1 P \<equiv> Rep P 1 None"

abbreviation many :: "(char \<Rightarrow> bool) \<Rightarrow> atom" where
  "many P \<equiv> Rep P 0 None"

definition group :: "regex \<Rightarrow> regex" where
  "group re = Open # re @ [Close]"

definition not_newline :: "char \<Rightarrow> bool" where
  "not_newline c \<longleftrightarrow> c \<noteq> char_of (10 :: nat)"

fun first_some :: "('a \<Rightarrow> 'b option) \<Rightarrow> 'a list \<Rightarrow> 'b option" where
  "first_some f [] = None"
| "first_some f (x # xs) = (case f x of None \<Rightarrow> first_some f xs | Some y \<Rightarrow> Some y)"

definition rep_count :: "(char \<Rightarrow> bool) \<Rightarrow> nat option \<Rightarrow> string \<Rightarrow> nat" where
  "rep_count P hi s = (let m = length (takeWhile P s) in case hi of None \<Rightarrow> m | Some h \<Rightarrow> min h m)"

primrec rmatch :: "regex \<Rightarrow> string \<Rightarrow> string list \<Rightarrow> string option list \<Rightarrow> string option list option" where
  "rmatch [] s opened groups = Some groups"
| "rmatch (a # re) s opened groups = (case a of
      Rep P lo hi \<Rightarrow> first_some (\<lambda>n. rmatch re (drop n s) opened groups) (rev [lo..<Suc (rep_count P hi s)])
    | Open \<Rightarrow> rmatch re s (s # opened) groups
    | Close \<Rightarrow> (case opened of [] \<Rightarrow> None
        | s0 # os \<Rightarrow> rmatch re s os (groups @ [Some (take (length s0 - length s) s0)]))
    | Maybe w \<Rightarrow> first_some (\<lambda>taken. if taken then (if startswith s w then rmatch re (drop (length w) s) opened (groups @ [Some w]) else None)
          else rmatch re s opened (groups @ [None])) [True, False]
    | Eos \<Rightarrow> if s = [] \<or> s = [char_of (10 :: nat)] then rmatch re s opened groups else None)"

definition re_match :: "regex \<Rightarrow> string \<Rightarrow> string option list option" where
  "re_match re s = rmatch re s [] []"

subsection \<open>What a match means\<close>

text \<open>The matches of a pattern, without an order: the groups, one after the other.\<close>

inductive matches :: "regex \<Rightarrow> string \<Rightarrow> string list \<Rightarrow> string option list \<Rightarrow> string option list \<Rightarrow> bool" where
  m_nil: "matches [] s opened groups groups"
| m_rep: "lo \<le> length t \<Longrightarrow> list_all P t \<Longrightarrow> (case hi of None \<Rightarrow> True | Some h \<Rightarrow> length t \<le> h) \<Longrightarrow>
    matches re s opened groups res \<Longrightarrow> matches (Rep P lo hi # re) (t @ s) opened groups res"
| m_open: "matches re s (s # opened) groups res \<Longrightarrow> matches (Open # re) s opened groups res"
| m_close: "matches re s opened (groups @ [Some (take (length s0 - length s) s0)]) res \<Longrightarrow>
    matches (Close # re) s (s0 # opened) groups res"
| m_taken: "matches re s opened (groups @ [Some w]) res \<Longrightarrow> matches (Maybe w # re) (w @ s) opened groups res"
| m_skipped: "matches re s opened (groups @ [None]) res \<Longrightarrow> matches (Maybe w # re) s opened groups res"
| m_eos: "s = [] \<or> s = [char_of (10 :: nat)] \<Longrightarrow> matches re s opened groups res \<Longrightarrow> matches (Eos # re) s opened groups res"

inductive_cases matches_repE: "matches (Rep P lo hi # re) s opened groups res"
inductive_cases matches_openE: "matches (Open # re) s opened groups res"
inductive_cases matches_closeE: "matches (Close # re) s opened groups res"
inductive_cases matches_maybeE: "matches (Maybe w # re) s opened groups res"
inductive_cases matches_eosE: "matches (Eos # re) s opened groups res"
inductive_simps matches_Nil [simp]: "matches [] s opened groups res"

lemma first_some_SomeD: "first_some f xs = Some y \<Longrightarrow> \<exists>x \<in> set xs. f x = Some y"
  by (induction xs) (auto split: option.splits)

lemma first_some_None: "first_some f xs = None \<longleftrightarrow> (\<forall>x \<in> set xs. f x = None)"
  by (induction xs) (auto split: option.splits)

lemma rep_take:
  assumes "n \<le> rep_count P hi s"
  shows "list_all P (take n s) \<and> length (take n s) = n \<and> (case hi of None \<Rightarrow> True | Some h \<Rightarrow> n \<le> h)"
proof -
  have n: "n \<le> length (takeWhile P s)" and h: "case hi of None \<Rightarrow> True | Some h \<Rightarrow> n \<le> h"
    using assms by (auto simp: rep_count_def Let_def split: option.splits)
  have "take n s = take n (takeWhile P s @ dropWhile P s)" by simp
  also have "\<dots> = take n (takeWhile P s)" using n by (simp only: take_append) simp
  finally have "set (take n s) \<subseteq> set (takeWhile P s)" by (simp add: set_take_subset)
  moreover have "length (take n s) = n" using n length_takeWhile_le [of P s] by simp
  ultimately show ?thesis using h by (auto simp: list_all_iff dest: set_takeWhileD)
qed

lemma rep_count_ge:
  assumes "list_all P t" "case hi of None \<Rightarrow> True | Some h \<Rightarrow> length t \<le> h"
  shows "length t \<le> rep_count P hi (t @ s)"
proof -
  have "takeWhile P (t @ s) = t @ takeWhile P s" using assms(1) by (simp add: list_all_iff)
  then show ?thesis using assms(2) by (auto simp: rep_count_def split: option.splits)
qed

lemma rmatch_sound: "rmatch re s opened groups = Some res \<Longrightarrow> matches re s opened groups res"
proof (induction re arbitrary: s opened groups)
  case (Cons a re)
  show ?case
  proof (cases a)
    case (Rep P lo hi)
    then have "first_some (\<lambda>n. rmatch re (drop n s) opened groups) (rev [lo..<Suc (rep_count P hi s)]) = Some res"
      using Cons.prems by (simp del: upt_Suc)
    from first_some_SomeD [OF this] obtain n where
      n: "lo \<le> n" "n \<le> rep_count P hi s" "rmatch re (drop n s) opened groups = Some res" by auto
    define t where "t = take n s"
    have t: "length t = n" "list_all P t" "case hi of None \<Rightarrow> True | Some h \<Rightarrow> length t \<le> h" "t @ drop n s = s"
      using rep_take [OF n(2)] by (simp_all add: t_def split: option.splits)
    have "matches (Rep P lo hi # re) (t @ drop n s) opened groups res"
      by (rule m_rep [OF _ t(2,3) Cons.IH [OF n(3)]]) (simp add: t(1) n(1))
    then show ?thesis using Rep by (simp only: t(4))
  next
    case (Maybe w)
    show ?thesis
    proof (cases "startswith s w \<and> rmatch re (drop (length w) s) opened (groups @ [Some w]) = Some res")
      case True
      then have "s = w @ drop (length w) s"
        by (metis append_take_drop_id startswith_def)
      then show ?thesis using True Cons.IH m_taken [of re "drop (length w) s" opened groups w res] Maybe by metis
    next
      case False
      then have "rmatch re s opened (groups @ [None]) = Some res" using Cons.prems Maybe by (auto split: if_splits option.splits)
      then show ?thesis using Cons.IH m_skipped Maybe by blast
    qed
  qed (use Cons in \<open>auto intro: matches.intros split: list.splits if_splits\<close>)
qed simp

lemma startswith_append_drop: "startswith (w @ s) w \<and> drop (length w) (w @ s) = s"
  by simp

lemma rmatch_complete: "matches re s opened groups res \<Longrightarrow> rmatch re s opened groups \<noteq> None"
proof (induction rule: matches.induct)
  case (m_rep lo t P hi re s opened groups res)
  have "length t \<in> set (rev [lo..<Suc (rep_count P hi (t @ s))])" using m_rep rep_count_ge [of P t hi s]
    by (simp del: upt_Suc)
  moreover have "rmatch re (drop (length t) (t @ s)) opened groups \<noteq> None" using m_rep by simp
  ultimately have "\<not> (\<forall>n \<in> set (rev [lo..<Suc (rep_count P hi (t @ s))]). rmatch re (drop n (t @ s)) opened groups = None)"
    by (meson bspec)
  then show ?case unfolding rmatch.simps atom.case first_some_None .
qed (auto split: option.splits)

text \<open>A run that nothing after it can extend is taken whole.\<close>

lemma rep_greedy:
  assumes "list_all P t" "lo \<le> length t" "s = [] \<or> \<not> P (hd s)" "rmatch re s opened groups = Some res"
  shows "rmatch (Rep P lo None # re) (t @ s) opened groups = Some res"
proof -
  have "takeWhile P s = []" using assms(3) by (cases s) auto
  then have "rep_count P None (t @ s) = length t" using assms(1) by (simp add: rep_count_def list_all_iff)
  then show ?thesis using assms by (simp add: upt_Suc_append)
qed

lemma rmatch_lit:
  assumes "rmatch re s opened groups = Some res"
  shows "rmatch (lit w @ re) (w @ s) opened groups = Some res"
  by (induction w) (use assms in \<open>simp_all add: lit_def rep_count_def\<close>)

lemma rmatch_lit_end: "rmatch re [] opened groups = Some res \<Longrightarrow> rmatch (lit w @ re) w opened groups = Some res"
  using rmatch_lit [of re "[]" opened groups res w] by simp

lemma rmatch_maybe:
  assumes "rmatch re s opened (groups @ [if taken then Some w else None]) = Some res"
    and "taken \<or> \<not> startswith s w"
  shows "rmatch ([Maybe w] @ re) ((if taken then w else []) @ s) opened groups = Some res"
  using assms by (cases taken) auto

lemma rmatch_lit_fail: "\<not> startswith s w \<Longrightarrow> rmatch (lit w @ re) s opened groups = None"
proof (induction w arbitrary: s)
  case (Cons c w)
  then show ?case by (cases s) (auto simp: lit_def rep_count_def startswith_def)
qed (simp add: startswith_def)

lemma rmatch_group:
  assumes "rmatch (re @ Close # re') (t @ s) ((t @ s) # opened) groups = Some res"
  shows "rmatch (group re @ re') (t @ s) opened groups = Some res"
  using assms by (simp add: group_def)

text \<open>A group of one run.\<close>

lemma rmatch_group_run:
  assumes "list_all P t" "t \<noteq> []" "s = [] \<or> \<not> P (hd s)" "rmatch re s opened (groups @ [Some t]) = Some res"
  shows "rmatch (group [some1 P] @ re) (t @ s) opened groups = Some res"
proof -
  have "rmatch (Close # re) s ((t @ s) # opened) groups = Some res" using assms(4) by simp
  then have "rmatch (some1 P # Close # re) (t @ s) ((t @ s) # opened) groups = Some res"
    using assms by (intro rep_greedy) (auto simp: Suc_le_eq)
  then show ?thesis by (simp add: group_def)
qed

subsection \<open>File name patterns\<close>

text \<open>\<open>glob\<close>: a star stands for any text.\<close>

fun fnmatch :: "string \<Rightarrow> string \<Rightarrow> bool" where
  "fnmatch [] s = (s = [])"
| "fnmatch (p # ps) s = (if p = CHR ''*'' then list_ex (\<lambda>n. fnmatch ps (drop n s)) [0..<Suc (length s)]
     else (case s of [] \<Rightarrow> False | c # cs \<Rightarrow> c = p \<and> fnmatch ps cs))"

definition glob :: "string list \<Rightarrow> string \<Rightarrow> string list" where
  "glob names pattern = filter (fnmatch pattern) names"

lemma fnmatch_literal: "CHR ''*'' \<notin> set p \<Longrightarrow> fnmatch (p @ ps) (p @ s) = fnmatch ps s"
  by (induction p) auto

lemma fnmatch_star: "fnmatch ps s \<Longrightarrow> fnmatch (CHR ''*'' # ps) (t @ s)"
  by (auto simp: list_ex_iff intro!: bexI [of _ "length t"])

end
