(* ===== verification/Figs.thy ===== *)
theory Figs
  imports Lab2 Regex
begin

text \<open>
  scripts/sird-figures/plot_sird_figures.py: which trace files are read, the grant events, and
  the data of the figures. The three regular expressions are the source's, run by the matcher of
  \<open>Regex\<close>; the message parser itself is in \<open>MsgTrace\<close>. The directory is the list of its file names
  and their contents; modification times are a parameter.
\<close>

subsection \<open>Trace files\<close>

text \<open>\<open>^MsgTraces_W5_load-(\<backslash>d+)p(_sird)?_(\<backslash>d+)\<backslash>.tr$\<close>: load, whether it is a SIRD run, index.\<close>

definition file_re :: regex where
  "file_re = lit ''MsgTraces_W5_load-'' @ group [some1 is_digit] @ lit ''p'' @ [Maybe ''_sird''] @
     lit ''_'' @ group [some1 is_digit] @ lit ''.tr'' @ [Eos]"

definition parse_file_name :: "string \<Rightarrow> (int \<times> bool \<times> int) option" where
  "parse_file_name name = (case re_match file_re name of
      Some [Some load, sird, Some idx] \<Rightarrow>
        (case (py_int load, py_int idx) of (Some l, Some i) \<Rightarrow> Some (l, sird \<noteq> None, i) | _ \<Rightarrow> None)
    | _ \<Rightarrow> None)"

definition find_trace_files :: "string list \<Rightarrow> string list" where
  "find_trace_files names = filter (\<lambda>p. \<not> endswith p ''.sird-grant.tr'' \<and> re_match file_re p \<noteq> None)
     (sort (glob names ''MsgTraces_W5_load-*.tr''))"

definition figs_parse_file :: "string \<Rightarrow> trace \<Rightarrow> completed_msg list result" where
  "figs_parse_file name content = (case content of None \<Rightarrow> Inl FileNotFoundError
     | Some lines \<Rightarrow> Inr (figs_parse_msg_trace (parse_file_name name) lines))"

subsection \<open>Grant events\<close>

record grant_event =
  ge_t_ns :: int
  ge_sender :: string
  ge_tx_msg_id :: int
  ge_grant_offset :: int
  ge_sender_budget_pkts :: pyfloat
  ge_ecn_ewma :: pyfloat
  ge_sender_csn :: int

text \<open>\<open>[0-9.]\<close> and the class \<open>[0-9.+-eE]\<close>, where \<open>+-e\<close> is a range.\<close>

definition digit_dot :: "char \<Rightarrow> bool" where
  "digit_dot c \<longleftrightarrow> is_digit c \<or> c = CHR ''.''"

definition number_class :: "char \<Rightarrow> bool" where
  "number_class c \<longleftrightarrow> is_digit c \<or> c = CHR ''.'' \<or> (CHR ''+'' \<le> c \<and> c \<le> CHR ''e'') \<or> c = CHR ''E''"

definition sird_grant_re :: regex where
  "sird_grant_re = group [some1 is_digit] @ [some1 py_ws] @
     lit ''sender='' @ group [some1 digit_dot] @ [some1 py_ws] @
     lit ''txMsgId='' @ group [some1 is_digit] @ [some1 py_ws] @
     lit ''grantOffset='' @ group [some1 is_digit] @ [some1 py_ws] @
     lit ''senderBudgetPkts='' @ group [some1 number_class] @ [some1 py_ws] @
     lit ''ecnEwma='' @ group [some1 number_class] @ [some1 py_ws] @
     lit ''senderCsn='' @ group [some1 is_digit] @ [many py_ws, Eos]"

definition grant_step :: "string \<Rightarrow> grant_event list \<Rightarrow> grant_event list result" where
  "grant_step raw events = (
     let line = strip raw in
     if line = [] then Inr events
     else (case re_match sird_grant_re line of
         Some [Some t, Some sender, Some tx, Some off, Some budget, Some ecn, Some csn] \<Rightarrow>
           bindR (int_or_raise t) (\<lambda>t_ns. bindR (int_or_raise tx) (\<lambda>tx_msg_id.
           bindR (int_or_raise off) (\<lambda>grant_offset. bindR (float_or_raise budget) (\<lambda>b.
           bindR (float_or_raise ecn) (\<lambda>e. bindR (int_or_raise csn) (\<lambda>sender_csn.
             Inr (events @ [\<lparr>ge_t_ns = t_ns, ge_sender = sender, ge_tx_msg_id = tx_msg_id,
               ge_grant_offset = grant_offset, ge_sender_budget_pkts = b, ge_ecn_ewma = e,
               ge_sender_csn = sender_csn\<rparr>])))))))
       | _ \<Rightarrow> Inr events))"

definition parse_sird_grant_trace :: "trace \<Rightarrow> grant_event list result" where
  "parse_sird_grant_trace path = (case path of None \<Rightarrow> Inr [] | Some lines \<Rightarrow> foldR grant_step lines [])"

subsection \<open>Goodput\<close>

definition imin :: "int list \<Rightarrow> int" where
  "imin xs = foldl min (hd xs) (tl xs)"

definition imax :: "int list \<Rightarrow> int" where
  "imax xs = foldl max (hd xs) (tl xs)"

definition compute_goodput_mbps :: "completed_msg list \<Rightarrow> pyfloat" where
  "compute_goodput_mbps msgs = (if msgs = [] then NaN
     else let total_bits = sum_list (map cm_size_bytes msgs) * 8;
              t0 = imin (map cm_start_ns msgs);
              t1 = imax (map cm_end_ns msgs)
          in if t1 \<le> t0 then NaN
             else fquot (fquot (float_of_int total_bits) (fquot (float_of_int (t1 - t0)) billion)) million)"

text \<open>\<open>statistics.mean\<close>: the exact mean, rounded once; with values that are not finite, their sum
  over the number of all values.\<close>

definition stat_mean :: "pyfloat list \<Rightarrow> pyfloat" where
  "stat_mean xs = (if list_all is_finite xs then to_float (sum_list (map fval xs) / of_nat (length xs))
     else fquot (fsum (filter (\<lambda>x. \<not> is_finite x) xs)) (float_of_int (int (length xs))))"

subsection \<open>Figures\<close>

definition modes :: "string list" where
  "modes = [''homa'', ''sird'']"

definition upper :: "string \<Rightarrow> string" where
  "upper s = map (\<lambda>c. if CHR ''a'' \<le> c \<and> c \<le> CHR ''z'' then char_of ((of_char c :: nat) - 32) else c) s"

definition plot_cdf_by_mode :: "completed_msg list \<Rightarrow> figure" where
  "plot_cdf_by_mode all_msgs = \<lparr>fig_name = ''fig_fct_cdf_homa_vs_sird.png'', fig_title = ''FCT CDF: Homa vs Homa+SIRD'',
     fig_curves = concat (map (\<lambda>mode.
        let vals = map cm_fct_us (filter (\<lambda>m. cm_mode m = mode) all_msgs); (x, y) = figs_ecdf vals
        in if x = [] then [] else [(upper mode @ '' (n='' @ show_int (int (length vals)) @ '')'', zip x y)]) modes)\<rparr>"

definition load_curves :: "string \<Rightarrow> (string \<Rightarrow> int \<Rightarrow> pyfloat result) \<Rightarrow> int list \<Rightarrow> curve list result" where
  "load_curves suffix value_at loads = bindR (mapR (\<lambda>mode.
      bindR (mapR (value_at mode) loads) (\<lambda>ys.
        Inr (if list_ex (\<lambda>v. v \<noteq> NaN) ys
          then [(upper mode @ suffix, zip (map float_of_int loads) ys)] else []))) modes)
     (\<lambda>cs. Inr (concat cs))"

definition loads_of :: "completed_msg list \<Rightarrow> int list" where
  "loads_of all_msgs = sort (remdups (map cm_load_pct all_msgs))"

definition plot_p99_vs_load :: "completed_msg list \<Rightarrow> figure result" where
  "plot_p99_vs_load all_msgs = (
     let grouped = fold (\<lambda>m. dappend (cm_mode m, cm_load_pct m) (cm_fct_us m)) all_msgs []
     in bindR (load_curves '' p99'' (\<lambda>mode l. figs_percentile (dget_default grouped (mode, l) []) (dec 99 100))
            (loads_of all_msgs))
          (\<lambda>curves. Inr \<lparr>fig_name = ''fig_p99_fct_vs_load.png'', fig_title = ''Tail Latency vs Load'', fig_curves = curves\<rparr>))"

definition group_runs :: "completed_msg list \<Rightarrow> (string \<times> int \<times> int, completed_msg list) dict" where
  "group_runs all_msgs = fold (\<lambda>m. dappend (cm_mode m, cm_load_pct m, cm_sim_idx m) m) all_msgs []"

definition goodput_groups :: "completed_msg list \<Rightarrow> (string \<times> int, pyfloat list) dict" where
  "goodput_groups all_msgs = fold (\<lambda>((mode, load, _), msgs) d.
     let gp = compute_goodput_mbps msgs in if gp = NaN then d else dappend (mode, load) gp d) (group_runs all_msgs) []"

definition plot_goodput_vs_load :: "completed_msg list \<Rightarrow> figure result" where
  "plot_goodput_vs_load all_msgs = (
     let per_mode_load = goodput_groups all_msgs
     in bindR (load_curves [] (\<lambda>mode l. let gs = dget_default per_mode_load (mode, l) [] in
             Inr (if gs = [] then NaN else stat_mean gs)) (loads_of all_msgs))
          (\<lambda>curves. Inr \<lparr>fig_name = ''fig_goodput_vs_load.png'', fig_title = ''Goodput vs Load'', fig_curves = curves\<rparr>))"

text \<open>The CSN ratio in windows of 0.2 ms.\<close>

definition csn_step :: "grant_event \<Rightarrow> int \<Rightarrow> (int, int list) dict \<Rightarrow> (int, int list) dict result" where
  "csn_step e t0 buckets = bindR (fdiv (fquot (float_of_int (ge_t_ns e - t0)) million) (dec 2 10)) (\<lambda>q.
     bindR (fint q) (\<lambda>b. Inr (dappend b (ge_sender_csn e) buckets)))"

definition csn_buckets :: "grant_event list \<Rightarrow> (int, int list) dict result" where
  "csn_buckets events = foldR (\<lambda>e. csn_step e (ge_t_ns (hd events))) events []"

definition csn_points :: "(int, int list) dict \<Rightarrow> point list" where
  "csn_points buckets = map (\<lambda>b. let vs = dget_default buckets b [] in
     (fmul (float_of_int b) (dec 2 10), int_quot (sum_list vs) (max 1 (int (length vs))))) (sort (dkeys buckets))"

definition plot_sird_grant_timeline :: "grant_event list \<Rightarrow> figure list result" where
  "plot_sird_grant_timeline events = (if events = [] then Inr []
     else let t0 = ge_t_ns (hd events);
              xs_ms = map (\<lambda>e. fquot (float_of_int (ge_t_ns e - t0)) million) events
          in bindR (csn_buckets events) (\<lambda>buckets. Inr
            [\<lparr>fig_name = ''fig_sird_grant_budget_timeline.png'', fig_title = ''SIRD Grant Control Timeline'',
              fig_curves = [(''senderBudgetPkts'', zip xs_ms (map ge_sender_budget_pkts events)),
                            (''ecnEwma'', zip xs_ms (map ge_ecn_ewma events))]\<rparr>,
             \<lparr>fig_name = ''fig_sird_csn_ratio_timeline.png'', fig_title = ''SIRD CSN Ratio Over Time'',
              fig_curves = [([], csn_points buckets)]\<rparr>]))"

definition pick_latest_sird_grant :: "string list \<Rightarrow> (string \<Rightarrow> int) \<Rightarrow> string option" where
  "pick_latest_sird_grant names mtime =
     (case sort_key (\<lambda>p. - mtime p) (sort (glob names ''MsgTraces_W5_load-*_sird_*.sird-grant.tr'')) of
        [] \<Rightarrow> None | p # _ \<Rightarrow> Some p)"

subsection \<open>main\<close>

text \<open>\<open>pngs\<close> are the figures already in the output directory. An empty \<open>grant_trace\<close> argument
  picks the latest grant trace.\<close>

definition figs_main :: "string list \<Rightarrow> (string \<Rightarrow> trace) \<Rightarrow> (string \<Rightarrow> int) \<Rightarrow> string \<Rightarrow> string \<Rightarrow> string \<Rightarrow> string list \<Rightarrow>
    (int \<times> outline list \<times> figure list) result" where
  "figs_main names content mtime trace_dir out_dir grant_trace pngs =
     bindR (mapR (\<lambda>tf. figs_parse_file tf (content tf)) (find_trace_files names)) (\<lambda>parsed.
     let all_msgs = concat parsed in
     if all_msgs = [] then Inr (1, [Out (''No message traces found in '' @ trace_dir)], [])
     else bindR (plot_p99_vs_load all_msgs) (\<lambda>p99. bindR (plot_goodput_vs_load all_msgs) (\<lambda>goodput.
       let grant_trace_path = (if grant_trace \<noteq> [] then Some grant_trace else pick_latest_sird_grant names mtime)
       in bindR (case grant_trace_path of None \<Rightarrow> Inr []
            | Some p \<Rightarrow> (case content p of None \<Rightarrow> Inr []
                | Some lines \<Rightarrow> bindR (parse_sird_grant_trace (Some lines)) plot_sird_grant_timeline)) (\<lambda>timeline.
          let figures = [plot_cdf_by_mode all_msgs, p99, goodput] @ timeline in
          Inr (0, Out (''Generated figures in: '' @ out_dir) #
            map (\<lambda>n. Out ('' - '' @ n)) (sort (remdups (pngs @ map fig_name figures))), figures)))))"

subsection \<open>Names and lines are read back\<close>

definition trace_file_name :: "int \<Rightarrow> bool \<Rightarrow> int \<Rightarrow> string" where
  "trace_file_name load sird idx = ''MsgTraces_W5_load-'' @ show_nat load @ ''p'' @ (if sird then ''_sird'' else []) @
     ''_'' @ show_nat idx @ ''.tr''"

lemma not_digit_letters [simp]: "\<not> is_digit CHR ''p''" "\<not> is_digit CHR ''.''" "\<not> is_digit CHR '' ''"
  by (simp_all add: is_digit_def)

lemma file_re_matches:
  assumes "0 \<le> load" "0 \<le> idx"
  shows "re_match file_re (trace_file_name load sird idx) =
    Some [Some (show_nat load), if sird then Some ''_sird'' else None, Some (show_nat idx)]"
proof -
  obtain c cs where c: "show_nat idx = c # cs" by (cases "show_nat idx") auto
  then have "is_digit c" using show_nat_digits [OF assms(2)] by simp
  then have "c \<noteq> CHR ''s''" by (auto simp: is_digit_def)
  then have n: "sird \<or> \<not> startswith (''_'' @ show_nat idx @ ''.tr'') ''_sird''" by (simp add: startswith_def c)
  let ?g = "[Some (show_nat load)]" and ?m = "if sird then Some ''_sird'' else None"
  have "rmatch (lit ''_'' @ group [some1 is_digit] @ lit ''.tr'' @ [Eos]) (''_'' @ show_nat idx @ ''.tr'') [] (?g @ [?m])
      = Some ((?g @ [?m]) @ [Some (show_nat idx)])"
    by (intro rmatch_lit rmatch_group_run rmatch_lit_end show_nat_list_all show_nat_nonempty assms) simp_all
  from rmatch_maybe [OF this n] show ?thesis
    unfolding re_match_def file_re_def trace_file_name_def
    by (intro rmatch_lit rmatch_group_run show_nat_list_all show_nat_nonempty assms) simp_all
qed

text \<open>The names of the trace files are read back: from a name built from a load, a mode and
  an index the script reads the same load, mode and index, and it takes the file whenever the
  directory has it.\<close>

theorem trace_file_names:
  assumes "0 \<le> load" "0 \<le> idx"
  shows "parse_file_name (trace_file_name load sird idx) = Some (load, sird, idx)
    \<and> (trace_file_name load sird idx \<in> set (find_trace_files names) \<longleftrightarrow> trace_file_name load sird idx \<in> set names)"
proof
  show "parse_file_name (trace_file_name load sird idx) = Some (load, sird, idx)"
    by (simp add: parse_file_name_def file_re_matches [OF assms] py_int_show_nat assms)
  obtain w d where w: "trace_file_name load sird idx = ''MsgTraces_W5_load-'' @ w @ ''.tr''"
      and l: "trace_file_name load sird idx = d @ show_nat idx @ ''.tr''"
    unfolding trace_file_name_def by (metis append.assoc)
  have "CHR ''*'' \<notin> set ''MsgTraces_W5_load-''" by simp
  from fnmatch_literal [OF this] have "fnmatch (''MsgTraces_W5_load-'' @ ''*.tr'') (''MsgTraces_W5_load-'' @ w @ ''.tr'')"
    using fnmatch_star [of "''.tr''" "''.tr''" w] by simp
  then have g: "fnmatch ''MsgTraces_W5_load-*.tr'' (trace_file_name load sird idx)" unfolding w by simp
  have "last (show_nat idx) \<in> set (show_nat idx)" by simp
  then have ld: "is_digit (last (show_nat idx))" using show_nat_digits [OF assms(2)] by blast
  have "\<not> endswith (d @ show_nat idx @ ''.tr'') ''.sird-grant.tr''"
  proof
    assume "endswith (d @ show_nat idx @ ''.tr'') ''.sird-grant.tr''"
    then obtain z where "d @ show_nat idx @ ''.tr'' = z @ ''.sird-gran'' @ ''t.tr''"
      unfolding endswith_def by (metis append_take_drop_id append_Cons append_Nil)
    then have "d @ show_nat idx = z @ ''.sird-gran'' @ ''t''" by simp
    then have "last (d @ show_nat idx) = CHR ''t''" by simp
    then show False using ld by (simp add: is_digit_def)
  qed
  then show "trace_file_name load sird idx \<in> set (find_trace_files names) \<longleftrightarrow> trace_file_name load sird idx \<in> set names"
    using g file_re_matches [OF assms] by (simp add: find_trace_files_def glob_def l [symmetric])
qed

theorem trace_file_names_witness:
  "parse_file_name (trace_file_name 50 True 3) = Some (50, True, 3)
   \<and> trace_file_name 50 True 3 = ''MsgTraces_W5_load-50p_sird_3.tr''"
proof
  show "parse_file_name (trace_file_name 50 True 3) = Some (50, True, 3)"
    using trace_file_names [of 50 3 True "[]"] by simp
  show "trace_file_name 50 True 3 = ''MsgTraces_W5_load-50p_sird_3.tr''" by code_simp
qed
text \<open>A grant line as the simulator prints it, from the texts of the numbers.\<close>

definition grant_line :: "int \<Rightarrow> string \<Rightarrow> int \<Rightarrow> int \<Rightarrow> string \<Rightarrow> string \<Rightarrow> int \<Rightarrow> string" where
  "grant_line t sender tx off budget ecn csn = show_nat t @ '' '' @ ''sender='' @ sender @ '' '' @
     ''txMsgId='' @ show_nat tx @ '' '' @ ''grantOffset='' @ show_nat off @ '' '' @
     ''senderBudgetPkts='' @ budget @ '' '' @ ''ecnEwma='' @ ecn @ '' '' @ ''senderCsn='' @ show_nat csn"

lemma rmatch_space:
  assumes "rmatch re (c # s) opened groups = Some res" "\<not> py_ws c"
  shows "rmatch ([some1 py_ws] @ re) ('' '' @ c # s) opened groups = Some res"
  using rep_greedy [of py_ws "'' ''" 1 "c # s" re] assms by (simp add: py_ws_space)

lemma number_class_not_space [simp]: "\<not> number_class CHR '' ''"
  by (simp add: number_class_def is_digit_def less_eq_char_def)

lemma digit_dot_not_space [simp]: "\<not> digit_dot CHR '' ''"
  by (simp add: digit_dot_def)

lemma py_ws_letters [simp]:
  "\<not> py_ws CHR ''s''" "\<not> py_ws CHR ''t''" "\<not> py_ws CHR ''g''" "\<not> py_ws CHR ''e''"
  by (simp_all add: py_ws_def)

lemma grant_re_matches:
  assumes "0 \<le> t" "0 \<le> tx" "0 \<le> off" "0 \<le> csn"
    and "sender \<noteq> []" "list_all digit_dot sender" "budget \<noteq> []" "list_all number_class budget"
    and "ecn \<noteq> []" "list_all number_class ecn"
  shows "re_match sird_grant_re (grant_line t sender tx off budget ecn csn) =
    Some [Some (show_nat t), Some sender, Some (show_nat tx), Some (show_nat off), Some budget, Some ecn, Some (show_nat csn)]"
proof -
  have e: "rmatch (group [some1 is_digit] @ [many py_ws, Eos]) (show_nat csn) [] g = Some (g @ [Some (show_nat csn)])" for g
    using rmatch_group_run [of is_digit "show_nat csn" "[]" "[many py_ws, Eos]" "[]" g] show_nat_list_all [OF assms(4)]
    by (simp add: rep_count_def)
  note lits = rmatch_lit [where w = "''sender=''"] rmatch_lit [where w = "''txMsgId=''"]
    rmatch_lit [where w = "''grantOffset=''"] rmatch_lit [where w = "''senderBudgetPkts=''"]
    rmatch_lit [where w = "''ecnEwma=''"] rmatch_lit [where w = "''senderCsn=''"]
  have sp: "rmatch ([some1 py_ws] @ lit w @ re) ('' '' @ w @ s) opened g = Some res"
    if "rmatch (lit w @ re) (w @ s) opened g = Some res" "w \<noteq> [] \<and> \<not> py_ws (hd w)" for w re s opened g res
    using rmatch_space [of "lit w @ re" "hd w" "tl w @ s"] that by (cases w) auto
  show ?thesis
    unfolding re_match_def sird_grant_re_def grant_line_def
    by (intro rmatch_group_run sp lits e [THEN trans] show_nat_list_all show_nat_nonempty assms) simp_all
qed

lemma strip_no_ws_ends: "s \<noteq> [] \<Longrightarrow> \<not> py_ws (hd s) \<Longrightarrow> \<not> py_ws (last s) \<Longrightarrow> strip s = s"
proof -
  assume a: "s \<noteq> []" "\<not> py_ws (hd s)" "\<not> py_ws (last s)"
  have "dropWhile py_ws s = s" using a by (cases s) auto
  moreover have "dropWhile py_ws (rev s) = rev s" using a by (cases "rev s") (auto simp: hd_rev [symmetric])
  ultimately show ?thesis by (simp add: strip_def lstrip_def rstrip_def)
qed

text \<open>C18: A grant line is read back as the event it was printed from, with the floats its two
  number texts denote; and when one of them denotes none, which the character class of the
  pattern allows (\<open>senderBudgetPkts=A\<close>), the uncaught ValueError of \<open>float\<close> ends the script.\<close>

theorem grant_line_roundtrip:
  assumes "0 \<le> t" "0 \<le> tx" "0 \<le> off" "0 \<le> csn"
    and "sender \<noteq> []" "list_all digit_dot sender" "budget \<noteq> []" "list_all number_class budget"
    and "ecn \<noteq> []" "list_all number_class ecn"
  shows "grant_step (grant_line t sender tx off budget ecn csn) events =
    (case (py_float budget, py_float ecn) of
       (Some b, Some e) \<Rightarrow> Inr (events @ [\<lparr>ge_t_ns = t, ge_sender = sender, ge_tx_msg_id = tx, ge_grant_offset = off,
          ge_sender_budget_pkts = b, ge_ecn_ewma = e, ge_sender_csn = csn\<rparr>])
     | _ \<Rightarrow> Inl ValueError)"
proof -
  obtain c cs where t: "show_nat t = c # cs" by (cases "show_nat t") auto
  have "\<not> py_ws c" using show_nat_digits [OF assms(1)] digits_not_ws by (simp add: t)
  moreover have "last (show_nat csn) \<in> set (show_nat csn)" by simp
  then have "\<not> py_ws (last (show_nat csn))" using show_nat_digits [OF assms(4)] digits_not_ws by blast
  ultimately have s: "strip (grant_line t sender tx off budget ecn csn) = grant_line t sender tx off budget ecn csn"
    by (intro strip_no_ws_ends) (simp_all add: grant_line_def t)
  have ne: "grant_line t sender tx off budget ecn csn \<noteq> []" by (simp add: grant_line_def)
  show ?thesis
    unfolding grant_step_def s Let_def using ne grant_re_matches [OF assms]
    by (simp add: int_or_raise_def float_or_raise_def py_int_show_nat assms split: option.splits)
qed

theorem grant_line_roundtrip_witness:
  "grant_step (grant_line 5 ''10.0'' 1 0 ''A'' ''0'' 1) [] = Inl ValueError
   \<and> number_class CHR ''A''"
proof -
  have n: "number_class CHR ''A''" "number_class CHR ''0''" "list_all digit_dot ''10.0''"
    by code_simp+
  have "py_float ''A'' = None" by code_simp
  then show ?thesis using grant_line_roundtrip [of 5 1 0 1 "''10.0''" "''A''" "''0''" "[]"] n by simp
qed

subsection \<open>Every event is in one window\<close>

lemma csn_step_Inr: "csn_step e t0 d = Inr d' \<Longrightarrow> \<exists>b. d' = dappend b (ge_sender_csn e) d"
  by (auto simp: csn_step_def bindR_eq_Inr)

lemma set_dset: "p \<in> set (dset j w d) \<Longrightarrow> p = (j, w) \<or> p \<in> set d"
  by (induction d) (auto split: if_splits)

lemma dappend_all:
  assumes "\<And>k v. (k, v) \<in> set d \<Longrightarrow> v \<noteq> [] \<and> list_all P v" "P x" "(k, v) \<in> set (dappend j x d)"
  shows "v \<noteq> [] \<and> list_all P v"
proof -
  have "list_all P (dget_default d j [])"
    using assms(1) by (auto simp: dget_default_def dget_def dest: map_of_SomeD split: option.splits)
  moreover have "(k, v) = (j, dget_default d j [] @ [x]) \<or> (k, v) \<in> set d"
    using assms(3) unfolding dappend_def by (rule set_dset)
  ultimately show ?thesis using assms(1,2) by auto
qed

lemma csn_fold:
  assumes "foldR (\<lambda>e. csn_step e t0) events d = Inr d'" "dict_wf d"
    and "\<And>k v. (k, v) \<in> set d \<Longrightarrow> v \<noteq> [] \<and> list_all P v" "list_all (\<lambda>e. P (ge_sender_csn e)) events"
  shows "dict_wf d' \<and> (\<forall>k v. (k, v) \<in> set d' \<longrightarrow> v \<noteq> [] \<and> list_all P v)
    \<and> sum_list (map (\<lambda>p. int (length (snd p))) d') = sum_list (map (\<lambda>p. int (length (snd p))) d) + int (length events)
    \<and> sum_list (map (\<lambda>p. sum_list (snd p)) d') = sum_list (map (\<lambda>p. sum_list (snd p)) d) + sum_list (map ge_sender_csn events)"
  using assms
proof (induction events arbitrary: d)
  case (Cons e es)
  then obtain b where r: "foldR (\<lambda>e. csn_step e t0) es (dappend b (ge_sender_csn e) d) = Inr d'"
    using csn_step_Inr [of e t0 d] by (auto simp: bindR_eq_Inr)
  have w: "dict_wf (dappend b (ge_sender_csn e) d)" using Cons.prems(2) by (simp add: dappend_def pyd.wf_upd)
  have a: "\<And>k v. (k, v) \<in> set (dappend b (ge_sender_csn e) d) \<Longrightarrow> v \<noteq> [] \<and> list_all P v"
    using dappend_all [of d P] Cons.prems(3,4) by auto
  have l: "sum_list (map (\<lambda>p. int (length (snd p))) (dappend b (ge_sender_csn e) d)) = sum_list (map (\<lambda>p. int (length (snd p))) d) + 1"
    by (rule sum_dappend) simp_all
  have s: "sum_list (map (\<lambda>p. sum_list (snd p)) (dappend b (ge_sender_csn e) d)) =
      sum_list (map (\<lambda>p. sum_list (snd p)) d) + ge_sender_csn e"
    by (rule sum_dappend) simp_all
  from Cons.IH [OF r w a] Cons.prems(4) show ?case by (simp add: l s)
qed simp

lemma sum_01: "list_all (\<lambda>v. v = 0 \<or> v = 1) vs \<Longrightarrow> 0 \<le> sum_list vs \<and> sum_list vs \<le> int (length vs)"
  by (induction vs) auto

lemma int_quot_unit:
  assumes "0 \<le> m" "m \<le> n" "0 < n"
  shows "\<exists>r. int_quot m n = Fin r \<and> 0 \<le> r \<and> r \<le> 1"
proof -
  have q: "of_int 0 \<le> (of_int m / of_int n :: rat)" "(of_int m / of_int n :: rat) \<le> of_int 1" using assms by simp_all
  then show ?thesis using to_float_between_ints [OF q] rnd_between_ints [OF q] by (simp add: int_quot_def)
qed

text \<open>The CSN windows of a grant trace hold every event exactly once, and when every event is
  marked or not (0 or 1) each plotted ratio is a number between 0 and 1.\<close>

theorem csn_windows:
  assumes "csn_buckets events = Inr buckets" "list_all (\<lambda>e. ge_sender_csn e = 0 \<or> ge_sender_csn e = 1) events"
  shows "sum_list (map (\<lambda>p. int (length (snd p))) buckets) = int (length events)
    \<and> sum_list (map (\<lambda>p. sum_list (snd p)) buckets) = sum_list (map ge_sender_csn events)
    \<and> list_all (\<lambda>(x, y). \<exists>r. y = Fin r \<and> 0 \<le> r \<and> r \<le> 1) (csn_points buckets)
    \<and> length (csn_points buckets) = length buckets"
proof -
  have f: "dict_wf buckets \<and> (\<forall>k v. (k, v) \<in> set buckets \<longrightarrow> v \<noteq> [] \<and> list_all (\<lambda>v. v = 0 \<or> v = 1) v)
    \<and> sum_list (map (\<lambda>p. int (length (snd p))) buckets) = sum_list (map (\<lambda>p. int (length (snd p))) ([] :: (int \<times> int list) list)) + int (length events)
    \<and> sum_list (map (\<lambda>p. sum_list (snd p)) buckets) = sum_list (map (\<lambda>p. sum_list (snd p)) ([] :: (int \<times> int list) list)) + sum_list (map ge_sender_csn events)"
    by (rule csn_fold [OF assms(1) [unfolded csn_buckets_def]]) (use assms(2) in \<open>simp_all add: dict_wf_def\<close>)
  have "\<exists>r. int_quot (sum_list vs) (max 1 (int (length vs))) = Fin r \<and> 0 \<le> r \<and> r \<le> 1"
    if "b \<in> set (dkeys buckets)" "vs = dget_default buckets b []" for b vs
  proof -
    from that(1) obtain v where "dget buckets b = Some v" by (auto simp: in_dkeys)
    then have "(b, vs) \<in> set buckets" using that(2) by (auto simp: dget_default_def dget_def dest: map_of_SomeD)
    then have "vs \<noteq> []" "list_all (\<lambda>v. v = 0 \<or> v = 1) vs" using f by blast+
    then show ?thesis using sum_01 [of vs] by (intro int_quot_unit) auto
  qed
  then have "list_all (\<lambda>(x, y). \<exists>r. y = Fin r \<and> 0 \<le> r \<and> r \<le> 1) (csn_points buckets)"
    by (auto simp: csn_points_def list_all_iff Let_def)
  then show ?thesis using f by (simp add: csn_points_def dkeys_def)
qed

definition grant_at :: "int \<Rightarrow> int \<Rightarrow> grant_event" where
  "grant_at t csn = \<lparr>ge_t_ns = t, ge_sender = ''10.0.0.1'', ge_tx_msg_id = 1, ge_grant_offset = 0,
     ge_sender_budget_pkts = Fin 1, ge_ecn_ewma = Fin 0, ge_sender_csn = csn\<rparr>"

theorem csn_windows_witness:
  "\<exists>buckets. csn_buckets [grant_at 5 1, grant_at 5 0] = Inr buckets
     \<and> sum_list (map (\<lambda>p. int (length (snd p))) buckets) = 2 \<and> length (csn_points buckets) = length buckets"
proof -
  have "csn_buckets [grant_at 5 1, grant_at 5 0] = Inr [(0, [1, 0])]" by code_simp
  from csn_windows [OF this] show ?thesis
    using \<open>csn_buckets [grant_at 5 1, grant_at 5 0] = Inr [(0, [1, 0])]\<close> by (simp add: grant_at_def)
qed

end
