(* ===== verification/Microbench.thy ===== *)
theory Microbench
  imports Figs
begin

text \<open>
  scripts/sird-scenarios/plot_sird_microbench.py: the four figures and \<open>main\<close>. A trace directory
  maps file names to contents (\<open>None\<close>: the file does not exist). A function that returns a path
  and a warning in the source gives \<open>Inr\<close> the figure or \<open>Inl\<close> the warning here, inside a result
  for what it raises. The message parser and \<open>cdf_xy\<close> are in \<open>MsgTrace\<close> and \<open>Stats\<close>.
\<close>

type_synonym 'a outcome = "(string + 'a) result"

subsection \<open>Credit samples\<close>

text \<open>\<open>^(\<backslash>d+)\<backslash>s+sender=([^\<backslash>s]+).*senderBudgetPkts=([^\<backslash>s]+).*senderCsn=([01])\<close>\<close>

definition budget_re :: regex where
  "budget_re = group [some1 is_digit] @ [some1 py_ws] @ lit ''sender='' @ group [some1 (\<lambda>c. \<not> py_ws c)] @
     [many not_newline] @ lit ''senderBudgetPkts='' @ group [some1 (\<lambda>c. \<not> py_ws c)] @
     [many not_newline] @ lit ''senderCsn='' @ group [Rep (\<lambda>c. c = CHR ''0'' \<or> c = CHR ''1'') 1 (Some 1)]"

type_synonym budgets = "(string, (pyfloat \<times> pyfloat) list) dict"
type_synonym csns = "(string, (pyfloat \<times> int) list) dict"

definition sird_credit_step :: "string \<Rightarrow> budgets \<times> csns \<Rightarrow> (budgets \<times> csns) result" where
  "sird_credit_step line s = (case re_match budget_re (strip line) of
      Some [Some t, Some sender, Some budget, Some csn] \<Rightarrow>
        bindR (int_or_raise t) (\<lambda>t_ns. bindR (float_or_raise budget) (\<lambda>b. bindR (int_or_raise csn) (\<lambda>c.
          let t_ms = fquot (float_of_int t_ns) million in
          Inr (dappend sender (t_ms, b) (fst s), dappend sender (t_ms, c) (snd s)))))
    | _ \<Rightarrow> Inr s)"

definition parse_sird_credit :: "string list \<Rightarrow> (budgets \<times> csns) result" where
  "parse_sird_credit lines = foldR sird_credit_step lines ([], [])"

subsection \<open>Receiver congestion\<close>

definition latencies :: "trace \<Rightarrow> int \<Rightarrow> pyfloat list result" where
  "latencies file expected_size = (case file of None \<Rightarrow> Inr []
     | Some lines \<Rightarrow> micro_parse_msg_trace lines (Some expected_size))"

definition cdf_curve :: "string \<Rightarrow> pyfloat list \<Rightarrow> curve list" where
  "cdf_curve label vals = (if vals = [] then []
     else [(label @ '' (n='' @ show_int (int (length vals)) @ '')'', zip (fst (micro_cdf_xy vals)) (snd (micro_cdf_xy vals)))])"

definition plot_receiver_congestion :: "(string \<Rightarrow> trace) \<Rightarrow> (figure \<times> int \<times> int) outcome" where
  "plot_receiver_congestion trace_dir = (
     let file_8b = trace_dir ''receiver-congestion_incast_probe_8B.msg.tr'';
         file_500k = trace_dir ''receiver-congestion_incast_probe_500KB.msg.tr''
     in if file_8b = None \<and> file_500k = None then Inr (Inl ''missing receiver-congestion trace files'')
        else bindR (latencies file_8b 8) (\<lambda>lat_8b. bindR (latencies file_500k 500000) (\<lambda>lat_500k.
          Inr (Inr (\<lparr>fig_name = ''receiver_congestion_probe_latency_cdf.png'',
              fig_title = ''Receiver Congestion: Probe Message Latency CDF'',
              fig_curves = cdf_curve ''Probe 8B'' lat_8b @ cdf_curve ''Probe 500KB'' lat_500k\<rparr>,
            int (length lat_8b), int (length lat_500k))))))"

subsection \<open>Sender information\<close>

definition first_existing :: "(string \<Rightarrow> trace) \<Rightarrow> string list \<Rightarrow> string list option" where
  "first_existing trace_dir names = (case filter (\<lambda>n. trace_dir n \<noteq> None) names of
     [] \<Rightarrow> None | n # _ \<Rightarrow> trace_dir n)"

definition sender_curve :: "string \<Rightarrow> budgets \<Rightarrow> curve list" where
  "sender_curve label budget = (case pick_sender budget of None \<Rightarrow> []
     | Some sender \<Rightarrow> [(label @ '' ('' @ sender @ '')'', dget_default budget sender [])])"

definition plot_sender_information :: "(string \<Rightarrow> trace) \<Rightarrow> figure outcome" where
  "plot_sender_information trace_dir = (
     let default_file = first_existing trace_dir
           [''sender-information_outcast_sird_feedback.sird-credit.tr'',
            ''sender-information_outcast_sird_feedback.sird-grant.tr''];
         weak_file = first_existing trace_dir
           [''sender-information_outcast_weak_sender_feedback.sird-credit.tr'',
            ''sender-information_outcast_weak_sender_feedback.sird-grant.tr'']
     in if default_file = None \<and> weak_file = None
        then Inr (Inl ''missing sender-information credit trace files'')
        else let parse = (\<lambda>f. case f of None \<Rightarrow> Inr ([], []) | Some lines \<Rightarrow> parse_sird_credit lines) in
          bindR (parse default_file) (\<lambda>(default_budget, _). bindR (parse weak_file) (\<lambda>(weak_budget, _).
            Inr (Inr \<lparr>fig_name = ''sender_information_budget_timeseries.png'',
              fig_title = ''Sender Information (Outcast): Sender Budget Evolution'',
              fig_curves = sender_curve ''SIRD feedback'' default_budget @
                sender_curve ''Weak sender feedback'' weak_budget\<rparr>))))"

subsection \<open>Homa against SIRD\<close>

text \<open>The candidates are tried until one gives values; the last file read counts.\<close>

fun load_vals :: "(string \<Rightarrow> trace) \<Rightarrow> string list \<Rightarrow> int \<Rightarrow> pyfloat list \<Rightarrow> pyfloat list result" where
  "load_vals trace_dir [] msg_size vals = Inr vals"
| "load_vals trace_dir (name # names) msg_size vals = (case trace_dir name of
      None \<Rightarrow> load_vals trace_dir names msg_size vals
    | Some lines \<Rightarrow> bindR (micro_parse_msg_trace lines (Some msg_size)) (\<lambda>vs.
        if vs \<noteq> [] then Inr vs else load_vals trace_dir names msg_size vs))"

definition file_map :: "string \<Rightarrow> string \<Rightarrow> string list" where
  "file_map protocol sz = [''receiver-congestion_incast_'' @ protocol @ ''_probe_'' @ sz @ ''.msg.tr'',
     ''receiver-congestion_receiver-congestion_incast_'' @ protocol @ ''_probe_'' @ sz @ ''.msg.tr'']"

definition compare_figure :: "(string \<Rightarrow> trace) \<Rightarrow> int \<times> string \<Rightarrow> figure list result" where
  "compare_figure trace_dir p = (case p of (msg_size, size_label) \<Rightarrow>
     bindR (load_vals trace_dir (file_map ''sird'' size_label) msg_size []) (\<lambda>sird_vals.
     bindR (load_vals trace_dir (file_map ''homa'' size_label) msg_size []) (\<lambda>homa_vals.
       Inr (if sird_vals = [] \<and> homa_vals = [] then []
         else [\<lparr>fig_name = ''receiver_congestion_homa_vs_sird_'' @ size_label @ ''_cdf.png'',
           fig_title = ''Incast Comparison ('' @ size_label @ ''): Homa vs SIRD'',
           fig_curves = cdf_curve ''SIRD'' sird_vals @ cdf_curve ''Homa'' homa_vals\<rparr>]))))"

definition plot_receiver_congestion_compare :: "(string \<Rightarrow> trace) \<Rightarrow> figure list outcome" where
  "plot_receiver_congestion_compare trace_dir =
     bindR (mapR (compare_figure trace_dir) [(8, ''8B''), (500000, ''500KB'')]) (\<lambda>figs.
       Inr (if concat figs = [] then Inl ''missing Homa/SIRD comparison trace files for incast'' else Inr (concat figs)))"

subsection \<open>Credit share by message size\<close>

definition size_step :: "string \<Rightarrow> (string \<times> int, int) dict \<Rightarrow> (string \<times> int, int) dict result" where
  "size_step line size_by_key = (
     let parts = split_ws line in
     if length parts < 6 \<or> parts ! 0 \<noteq> ''+'' then Inr size_by_key
     else bindR (int_or_raise (parts ! 2)) (\<lambda>sz.
       let src = hd (split_char CHR '':'' (parts ! 3)) in
       bindR (int_or_raise (parts ! 5)) (\<lambda>tx_msg_id. Inr (dset (src, tx_msg_id) sz size_by_key))))"

record share_state =
  bins_total :: "(int, int) dict"
  bins_500k :: "(int, int) dict"
  bins_10m :: "(int, int) dict"
  t0_ns :: "int option"

text \<open>A credit of a message of size \<open>sz\<close> in bin \<open>b\<close>.\<close>

definition count_credit :: "int \<Rightarrow> int \<Rightarrow> share_state \<Rightarrow> share_state" where
  "count_credit b sz s = s\<lparr>bins_total := dadd b 1 (bins_total s),
     bins_500k := (if sz = 500000 then dadd b 1 (bins_500k s) else bins_500k s),
     bins_10m := (if sz = 10000000 then dadd b 1 (bins_10m s) else bins_10m s)\<rparr>"

definition share_step :: "(string \<times> int, int) dict \<Rightarrow> int \<Rightarrow> string \<Rightarrow> share_state \<Rightarrow> share_state result" where
  "share_step size_by_key bin_ms line s = (case split_ws line of
      [] \<Rightarrow> Inr s
    | t # toks \<Rightarrow> bindR (int_or_raise t) (\<lambda>t_ns.
        let t0 = (case t0_ns s of None \<Rightarrow> t_ns | Some t \<Rightarrow> t);
            s = s\<lparr>t0_ns := Some t0\<rparr>;
            fields = lab2_parse_kv_fields toks
        in (case (dget fields ''sender'', dget fields ''txMsgId'') of
              (Some sender, Some tx) \<Rightarrow> bindR (int_or_raise tx) (\<lambda>tx_msg_id.
                (case dget size_by_key (sender, tx_msg_id) of None \<Rightarrow> Inr s
                 | Some sz \<Rightarrow>
                     bindR (fdiv (float_of_int (t_ns - t0)) (fmul (float_of_int bin_ms) million)) (\<lambda>q.
                     bindR (fint q) (\<lambda>b. Inr (count_credit b sz s)))))
            | _ \<Rightarrow> Inr s)))"

text \<open>\<open>100.0 * n / m\<close> for integers.\<close>

definition share :: "int \<Rightarrow> int \<Rightarrow> pyfloat" where
  "share n m = fquot (fmul (Fin 100) (float_of_int n)) (float_of_int m)"

definition share_init :: share_state where
  "share_init = \<lparr>bins_total = [], bins_500k = [], bins_10m = [], t0_ns = None\<rparr>"

definition share_points :: "int \<Rightarrow> share_state \<Rightarrow> (int, int) dict \<Rightarrow> point list" where
  "share_points bin_ms s bins = map (\<lambda>x. (float_of_int (x * bin_ms),
     share (dget_default bins x 0) (dget_default (bins_total s) x 0))) (sort (dkeys (bins_total s)))"

definition plot_sird_credit_share_500k :: "(string \<Rightarrow> trace) \<Rightarrow> int \<Rightarrow> figure outcome" where
  "plot_sird_credit_share_500k trace_dir bin_ms = (
     let base = ''receiver-congestion_incast_sird_probe_500KB'';
         base2 = ''receiver-congestion_receiver-congestion_incast_sird_probe_500KB'';
         msg_path = first_existing trace_dir [base @ ''.msg.tr'', base2 @ ''.msg.tr''];
         credit_path = first_existing trace_dir [base @ ''.sird-credit.tr'', base2 @ ''.sird-credit.tr'',
           base @ ''.sird-grant.tr'', base2 @ ''.sird-grant.tr'']
     in (case (msg_path, credit_path) of
          (Some msg_lines, Some credit_lines) \<Rightarrow>
            bindR (foldR size_step msg_lines []) (\<lambda>size_by_key.
            bindR (foldR (share_step size_by_key bin_ms) credit_lines share_init) (\<lambda>s.
              Inr (if bins_total s = [] then Inl ''no matched credit samples for SIRD 500KB run''
                else Inr \<lparr>fig_name = ''receiver_congestion_sird_credit_share_500KB_timeseries.png'',
                  fig_title = ''SIRD Incast (500KB run): Credit Share by Message Size'',
                  fig_curves = [(''500KB credit share (%)'', share_points bin_ms s (bins_500k s)),
                    (''10MB credit share (%)'', share_points bin_ms s (bins_10m s))]\<rparr>)))
        | _ \<Rightarrow> Inr (Inl ''missing SIRD 500KB msg/credit traces'')))"

subsection \<open>main\<close>

definition saved :: "string \<Rightarrow> string \<Rightarrow> outline" where
  "saved out_dir name = Out (''Saved: '' @ out_dir @ ''/'' @ name)"

definition micro_main :: "(string \<Rightarrow> trace) \<Rightarrow> string \<Rightarrow> outline list result" where
  "micro_main trace_dir out_dir =
     bindR (plot_receiver_congestion trace_dir) (\<lambda>cdf.
     bindR (plot_sender_information trace_dir) (\<lambda>budget.
     bindR (plot_receiver_congestion_compare trace_dir) (\<lambda>compare.
     bindR (plot_sird_credit_share_500k trace_dir 5) (\<lambda>credit_share. Inr (
       (case cdf of Inl warn \<Rightarrow> [Out (''Skip receiver congestion plot: '' @ warn)]
        | Inr (f, n8, n500) \<Rightarrow> [saved out_dir (fig_name f),
            Out (''Probe sample counts: 8B='' @ show_int n8 @ '', 500KB='' @ show_int n500)]) @
       (case budget of Inl warn \<Rightarrow> [Out (''Skip sender information plot: '' @ warn)]
        | Inr f \<Rightarrow> [saved out_dir (fig_name f)]) @
       (case compare of Inl warn \<Rightarrow> [Out (''Skip incast Homa-vs-SIRD comparison plot: '' @ warn)]
        | Inr figs \<Rightarrow> map (\<lambda>f. saved out_dir (fig_name f)) figs) @
       (case credit_share of Inl warn \<Rightarrow> [Out (''Skip SIRD 500KB credit-share plot: '' @ warn)]
        | Inr f \<Rightarrow> [saved out_dir (fig_name f)]))))))"

subsection \<open>The shares are shares\<close>

text \<open>The counts of a bin after at most \<open>n\<close> samples.\<close>

definition shares_ok :: "int \<Rightarrow> share_state \<Rightarrow> bool" where
  "shares_ok n s \<longleftrightarrow> (\<forall>b. 0 \<le> dget_default (bins_500k s) b 0 \<and> 0 \<le> dget_default (bins_10m s) b 0
     \<and> dget_default (bins_500k s) b 0 + dget_default (bins_10m s) b 0 \<le> dget_default (bins_total s) b 0
     \<and> dget_default (bins_total s) b 0 \<le> n
     \<and> (b \<in> set (dkeys (bins_total s)) \<longrightarrow> 1 \<le> dget_default (bins_total s) b 0))"

lemma dget_default_dadd: "dget_default (dadd k n d) k' 0 = dget_default d k' 0 + (if k' = k then n else 0)"
  by (simp add: dadd_def)

lemma dkeys_dadd: "k' \<in> set (dkeys (dadd k n d)) \<longleftrightarrow> k' = k \<or> k' \<in> set (dkeys d)"
  by (auto simp: dadd_def pyd.keys_upd)

lemma share_step_cases:
  assumes "share_step m bin line s = Inr s'"
  shows "\<exists>t. s' = s\<lparr>t0_ns := t\<rparr> \<or> (\<exists>b sz. s' = count_credit b sz (s\<lparr>t0_ns := t\<rparr>))"
proof (cases "split_ws line")
  case Nil
  then show ?thesis using assms by (intro exI [of _ "t0_ns s"]) (simp add: share_step_def)
next
  case (Cons t toks)
  then obtain t_ns where t: "int_or_raise t = Inr t_ns" using assms by (auto simp: share_step_def bindR_eq_Inr)
  define t0 where "t0 = (case t0_ns s of None \<Rightarrow> t_ns | Some t \<Rightarrow> t)"
  note st = assms [unfolded share_step_def Let_def, simplified Cons t list.case bindR_simps, folded t0_def]
  show ?thesis
    using st by (intro exI [of _ "Some t0"]) (auto simp: bindR_eq_Inr split: option.splits)
qed

lemma shares_ok_mono: "shares_ok n s \<Longrightarrow> shares_ok (n + 1) (s\<lparr>t0_ns := t\<rparr>)"
  by (auto simp: shares_ok_def intro: order_trans [of _ n])

lemma count_credit_ok:
  assumes "shares_ok n s"
  shows "shares_ok (n + 1) (count_credit b sz s)"
  unfolding shares_ok_def
proof
  fix c
  have c: "0 \<le> dget_default (bins_500k s) c 0" "0 \<le> dget_default (bins_10m s) c 0"
    "dget_default (bins_500k s) c 0 + dget_default (bins_10m s) c 0 \<le> dget_default (bins_total s) c 0"
    "dget_default (bins_total s) c 0 \<le> n"
    "c \<in> set (dkeys (bins_total s)) \<longrightarrow> 1 \<le> dget_default (bins_total s) c 0"
    using assms by (auto simp: shares_ok_def)
  let ?s = "count_credit b sz s"
  show "0 \<le> dget_default (bins_500k ?s) c 0 \<and> 0 \<le> dget_default (bins_10m ?s) c 0
     \<and> dget_default (bins_500k ?s) c 0 + dget_default (bins_10m ?s) c 0 \<le> dget_default (bins_total ?s) c 0
     \<and> dget_default (bins_total ?s) c 0 \<le> n + 1
     \<and> (c \<in> set (dkeys (bins_total ?s)) \<longrightarrow> 1 \<le> dget_default (bins_total ?s) c 0)"
    using c by (auto simp: count_credit_def dget_default_dadd dkeys_dadd)
qed

lemma share_step_ok:
  assumes "share_step m bin line s = Inr s'" "shares_ok n s"
  shows "shares_ok (n + 1) s'"
proof -
  obtain t where t: "s' = s\<lparr>t0_ns := t\<rparr> \<or> (\<exists>b sz. s' = count_credit b sz (s\<lparr>t0_ns := t\<rparr>))"
    using share_step_cases [OF assms(1)] by blast
  have "shares_ok n (s\<lparr>t0_ns := t\<rparr>)" using assms(2) by (simp add: shares_ok_def)
  then show ?thesis using t shares_ok_mono [OF assms(2)] count_credit_ok by metis
qed

lemma share_fold_ok:
  "foldR (share_step m bin) lines s = Inr s' \<Longrightarrow> shares_ok n s \<Longrightarrow> shares_ok (n + int (length lines)) s'"
proof (induction lines arbitrary: s n)
  case (Cons l ls)
  then obtain s1 where "share_step m bin l s = Inr s1" "foldR (share_step m bin) ls s1 = Inr s'" by (auto simp: bindR_eq_Inr)
  then show ?case using Cons.IH [of s1 "n + 1"] share_step_ok [of m bin l s s1 n] Cons.prems(2) by (simp add: algebra_simps)
qed simp

lemma share_percent:
  assumes "0 \<le> k" "k \<le> m" "1 \<le> m" "m \<le> 2 ^ 40"
  shows "\<exists>r. share k m = Fin r \<and> 0 \<le> r \<and> r \<le> 100"
proof -
  have f: "float_of_int k = Fin (of_int k)" "float_of_int m = Fin (of_int m)"
    using assms by (simp_all add: float_of_int_exact)
  have "to_float (of_int (100 * k)) = Fin (of_int (100 * k))"
    using float_of_int_exact [of "100 * k"] assms by (simp add: float_of_int_def)
  then have h: "fmul (Fin 100) (float_of_int k) = Fin (of_int (100 * k))" by (simp add: f)
  have q: "of_int 0 \<le> (of_int (100 * k) / of_int m :: rat)" "(of_int (100 * k) / of_int m :: rat) \<le> of_int 100"
    using assms by (simp_all add: divide_le_eq)
  show ?thesis using to_float_between_ints [OF q] rnd_between_ints [OF q] by (simp add: share_def h) (simp add: f)
qed

text \<open>The credit shares of the microbenchmark are percentages: when the trace is read, a bin
  never counts more credits of the two message sizes than it counts in all, every bin that is
  plotted has a credit, and each plotted share is a number from 0 to 100.\<close>

theorem credit_shares:
  assumes "foldR (share_step size_by_key bin_ms) lines share_init = Inr s" "length lines \<le> 2 ^ 40"
  shows "dget_default (bins_500k s) b 0 + dget_default (bins_10m s) b 0 \<le> dget_default (bins_total s) b 0
    \<and> list_all (\<lambda>k. 1 \<le> dget_default (bins_total s) k 0) (dkeys (bins_total s))
    \<and> list_all (\<lambda>(x, y). \<exists>r. y = Fin r \<and> 0 \<le> r \<and> r \<le> 100)
        (share_points bin_ms s (bins_500k s) @ share_points bin_ms s (bins_10m s))"
proof -
  have "shares_ok 0 share_init" by (simp add: shares_ok_def share_init_def dkeys_def)
  from share_fold_ok [OF assms(1) this] have ok: "shares_ok (int (length lines)) s" by simp
  have l: "int (length lines) \<le> 2 ^ 40" using assms(2) by (simp add: le_nat_iff [symmetric])
  have "\<exists>r. share (dget_default (bins_500k s) k 0) (dget_default (bins_total s) k 0) = Fin r \<and> 0 \<le> r \<and> r \<le> 100"
    "\<exists>r. share (dget_default (bins_10m s) k 0) (dget_default (bins_total s) k 0) = Fin r \<and> 0 \<le> r \<and> r \<le> 100"
    if "k \<in> set (dkeys (bins_total s))" for k
  proof -
    have k: "0 \<le> dget_default (bins_500k s) k 0" "0 \<le> dget_default (bins_10m s) k 0"
      "dget_default (bins_500k s) k 0 + dget_default (bins_10m s) k 0 \<le> dget_default (bins_total s) k 0"
      "dget_default (bins_total s) k 0 \<le> int (length lines)" "1 \<le> dget_default (bins_total s) k 0"
      using ok that by (auto simp: shares_ok_def)
    show "\<exists>r. share (dget_default (bins_500k s) k 0) (dget_default (bins_total s) k 0) = Fin r \<and> 0 \<le> r \<and> r \<le> 100"
      "\<exists>r. share (dget_default (bins_10m s) k 0) (dget_default (bins_total s) k 0) = Fin r \<and> 0 \<le> r \<and> r \<le> 100"
      using k l by (intro share_percent; linarith)+
  qed
  then show ?thesis using ok by (auto simp: shares_ok_def share_points_def list_all_iff)
qed

theorem credit_shares_witness:
  "\<exists>s. foldR (share_step [((''10.0.0.1'', 7), 500000)] 5) [''100 sender=10.0.0.1 txMsgId=7''] share_init = Inr s
     \<and> dget_default (bins_500k s) 0 0 + dget_default (bins_10m s) 0 0 \<le> dget_default (bins_total s) 0 0
     \<and> dget_default (bins_500k s) 0 0 = 1"
proof -
  let ?s = "\<lparr>bins_total = [(0, 1)], bins_500k = [(0, 1)], bins_10m = [], t0_ns = Some 100\<rparr>"
  have r: "foldR (share_step [((''10.0.0.1'', 7), 500000)] 5) [''100 sender=10.0.0.1 txMsgId=7''] share_init = Inr ?s"
    by code_simp
  show ?thesis
    by (rule exI [of _ ?s]) (use credit_shares [OF r, of 0] r in \<open>simp add: dget_default_def dget_def\<close>)
qed

end
