(* ===== verification/Runner.thy ===== *)
theory Runner
  imports Lab1
begin

text \<open>
  scripts/sird-figures/run_sird_experiments.py: the command line of a simulation and the batch loop.
  The commands run outside the program: their exit statuses are a parameter, \<open>run n cmd\<close> for the
  \<open>n\<close>-th command. \<open>py_repr\<close> is Python's text of a float, \<open>shlex_quote\<close> its shell quoting.
\<close>

subsection \<open>The text of a float\<close>

function nlog10 :: "int \<Rightarrow> int" where
  "nlog10 n = (if n < 10 then 0 else nlog10 (n div 10) + 1)"
  by pat_completeness auto
termination
  by (relation "measure nat") auto

declare nlog10.simps [simp del]

definition rat_ilog10 :: "rat \<Rightarrow> int" where
  "rat_ilog10 x = (if 1 \<le> x then nlog10 \<lfloor>x\<rfloor> else - (nlog10 (\<lceil>1 / x\<rceil> - 1) + 1))"

text \<open>The decimal of \<open>k\<close> digits next to a positive \<open>x\<close> that rounds to \<open>x\<close>, if there is one.\<close>

definition short_digits :: "rat \<Rightarrow> int \<Rightarrow> int \<Rightarrow> int option" where
  "short_digits x e k = (let u = pow10 (e - k + 1); q = x / u;
     ok = (\<lambda>m. to_float (of_int m * u) = Fin x); lo = \<lfloor>q\<rfloor>; hi = \<lceil>q\<rceil>
     in if ok lo \<and> (\<not> ok hi \<or> q - of_int lo \<le> of_int hi - q) then Some lo
        else if ok hi then Some hi else None)"

fun shortest :: "rat \<Rightarrow> int \<Rightarrow> int list \<Rightarrow> int \<times> int" where
  "shortest x e [] = (\<lfloor>x / pow10 (e - 16)\<rfloor>, 17)"
| "shortest x e (k # ks) = (case short_digits x e k of Some m \<Rightarrow> (m, k) | None \<Rightarrow> shortest x e ks)"

text \<open>Digits and the position of the point: plain between 1e-4 and 1e16, with an exponent beyond. The
  shortest digits may round up to the next power of ten, as those of 1e-6 do, whose double is a little
  less than a millionth: the exponent is then one more.\<close>

definition repr_digits :: "string \<Rightarrow> int \<Rightarrow> string" where
  "repr_digits ds e = (
     if -4 \<le> e \<and> e < 16 then
       (if e < 0 then ''0.'' @ replicate (nat (- e - 1)) (CHR ''0'') @ ds
        else let n = nat (e + 1) in
          if length ds \<le> n then ds @ replicate (n - length ds) (CHR ''0'') @ ''.0''
          else take n ds @ ''.'' @ drop n ds)
     else (case ds of [] \<Rightarrow> [] | d # r \<Rightarrow> d # (if r = [] then [] else CHR ''.'' # r)) @ ''e'' @
       (if e < 0 then ''-'' else ''+'') @ zero_pad 2 (show_nat \<bar>e\<bar>))"

definition repr_pos :: "rat \<Rightarrow> string" where
  "repr_pos x = (let e = rat_ilog10 x; (m, k) = shortest x e [1..17]
     in if m = 10 ^ nat k then repr_digits ''1'' (e + 1) else repr_digits (show_nat m) e)"

fun py_repr :: "pyfloat \<Rightarrow> string" where
  "py_repr (Fin x) = (if x = 0 then ''0.0'' else if x < 0 then ''-'' @ repr_pos (- x) else repr_pos x)"
| "py_repr PInf = ''inf''"
| "py_repr NInf = ''-inf''"
| "py_repr NaN = ''nan''"

subsection \<open>Quoting\<close>

definition shell_safe :: "char \<Rightarrow> bool" where
  "shell_safe c \<longleftrightarrow> is_digit c \<or> (CHR ''a'' \<le> c \<and> c \<le> CHR ''z'') \<or> (CHR ''A'' \<le> c \<and> c \<le> CHR ''Z'') \<or> c \<in> set ''_@%+=:,./-''"

definition apostrophe :: char where
  "apostrophe = char_of (39 :: nat)"

definition double_quote :: char where
  "double_quote = char_of (34 :: nat)"

definition shlex_quote :: "string \<Rightarrow> string" where
  "shlex_quote s = (if s = [] then [apostrophe, apostrophe]
     else if list_all shell_safe s then s
     else apostrophe # replace [apostrophe] [apostrophe, double_quote, apostrophe, double_quote, apostrophe] s @ [apostrophe])"

subsection \<open>The command of a run\<close>

record run_args =
  ra_duration :: pyfloat
  ra_disable_rtx :: bool
  ra_trace_queues :: bool
  ra_trace_sird_grant :: bool
  ra_bdp_pkts :: int
  ra_inbound_rtx_timeout_us :: int
  ra_outbound_rtx_timeout_us :: int
  ra_sird_credit_budget_pkts :: int
  ra_sird_unsch_threshold_pkts :: int
  ra_sird_ecn_md_factor :: pyfloat
  ra_sird_ecn_ai_step :: pyfloat
  ra_sird_sender_md_factor :: pyfloat
  ra_sird_sender_ai_step :: pyfloat
  ra_sird_ecn_alpha_gain :: pyfloat
  ra_sird_sender_csn_threshold_us :: int

definition run_words :: "run_args \<Rightarrow> string \<Rightarrow> pyfloat \<Rightarrow> int \<Rightarrow> string list" where
  "run_words args mode load sim_idx =
     [''scratch/HomaL4Protocol-paper-reproduction'',
      ''--duration='' @ py_repr (ra_duration args),
      ''--load='' @ py_repr load,
      ''--simIdx='' @ show_int sim_idx,
      ''--bdpPkts='' @ show_int (ra_bdp_pkts args),
      ''--inboundRtxTimeout='' @ show_int (ra_inbound_rtx_timeout_us args),
      ''--outboundRtxTimeout='' @ show_int (ra_outbound_rtx_timeout_us args)] @
     (if ra_disable_rtx args then [''--disableRtx''] else []) @
     (if ra_trace_queues args then [''--traceQueues''] else []) @
     (if mode = ''sird'' then
        [''--enableSird=1'',
         ''--sirdCreditBudgetPkts='' @ show_int (ra_sird_credit_budget_pkts args),
         ''--sirdUnschThresholdPkts='' @ show_int (ra_sird_unsch_threshold_pkts args),
         ''--sirdEcnMdFactor='' @ py_repr (ra_sird_ecn_md_factor args),
         ''--sirdEcnAiStep='' @ py_repr (ra_sird_ecn_ai_step args),
         ''--sirdSenderMdFactor='' @ py_repr (ra_sird_sender_md_factor args),
         ''--sirdSenderAiStep='' @ py_repr (ra_sird_sender_ai_step args),
         ''--sirdEcnAlphaGain='' @ py_repr (ra_sird_ecn_alpha_gain args),
         ''--sirdSenderCsnThresholdUs='' @ show_int (ra_sird_sender_csn_threshold_us args)] @
        (if ra_trace_sird_grant args then [''--traceSirdGrant=1''] else [])
      else [])"

definition build_ns3_run_args :: "run_args \<Rightarrow> string \<Rightarrow> pyfloat \<Rightarrow> int \<Rightarrow> string" where
  "build_ns3_run_args args mode load sim_idx = join '' '' (map shlex_quote (run_words args mode load sim_idx))"

definition run_cmd :: "run_args \<Rightarrow> pyfloat \<times> int \<times> string \<Rightarrow> string" where
  "run_cmd args job = (case job of (load, sim_idx, mode) \<Rightarrow>
     ''./waf --run '' @ [double_quote] @ build_ns3_run_args args mode load sim_idx @ [double_quote])"

subsection \<open>The batch\<close>

definition parse_csv_floats :: "string \<Rightarrow> pyfloat list result" where
  "parse_csv_floats text = mapR (\<lambda>x. float_or_raise (strip x)) (filter (\<lambda>x. strip x \<noteq> []) (split_char CHR '','' text))"

definition parse_csv_ints :: "string \<Rightarrow> int list result" where
  "parse_csv_ints text = mapR (\<lambda>x. int_or_raise (strip x)) (filter (\<lambda>x. strip x \<noteq> []) (split_char CHR '','' text))"

definition parse_modes :: "string \<Rightarrow> string list" where
  "parse_modes text = map (\<lambda>m. map lower_char (strip m)) (filter (\<lambda>m. strip m \<noteq> []) (split_char CHR '','' text))"

text \<open>The loops over loads, indices and modes, in this order of nesting.\<close>

definition jobs_of :: "pyfloat list \<Rightarrow> int list \<Rightarrow> string list \<Rightarrow> (pyfloat \<times> int \<times> string) list" where
  "jobs_of loads sim_indices modes =
     concat (map (\<lambda>load. concat (map (\<lambda>sim_idx. map (\<lambda>mode. (load, sim_idx, mode)) modes) sim_indices)) loads)"

text \<open>The commands run, what is printed, and the status of the first run that failed.\<close>

fun run_jobs :: "(nat \<Rightarrow> string \<Rightarrow> int) \<Rightarrow> run_args \<Rightarrow> int \<Rightarrow> nat \<Rightarrow> (pyfloat \<times> int \<times> string) list \<Rightarrow>
    string list \<times> outline list \<times> int option" where
  "run_jobs run args n_total n_done [] = ([], [], None)"
| "run_jobs run args n_total n_done ((load, sim_idx, mode) # jobs) = (
     let cmd = run_cmd args (load, sim_idx, mode);
         rc = run n_done cmd;
         out = [Out (''[RUN] '' @ cmd),
           Out (''[PROGRESS] '' @ show_int (int (Suc n_done)) @ ''/'' @ show_int n_total @ '' finished (mode='' @ mode @
             '', load='' @ py_repr load @ '', simIdx='' @ show_int sim_idx @ '', rc='' @ show_int rc @ '')'')]
     in if rc \<noteq> 0 then ([cmd], out @ [Err ''ERROR: run failed, aborting.''], Some rc)
        else (case run_jobs run args n_total (Suc n_done) jobs of (cmds, out', r) \<Rightarrow> (cmd # cmds, out @ out', r)))"

definition runner_main :: "(nat \<Rightarrow> string \<Rightarrow> int) \<Rightarrow> bool \<Rightarrow> string \<Rightarrow> run_args \<Rightarrow> string \<Rightarrow> string \<Rightarrow> string \<Rightarrow>
    (int \<times> string list \<times> outline list) result" where
  "runner_main run waf_exists root_dir args loads_text sim_text modes_text =
     (if \<not> waf_exists then Inr (2, [], [Err (''ERROR: could not find waf under '' @ root_dir)])
      else bindR (parse_csv_floats loads_text) (\<lambda>loads. bindR (parse_csv_ints sim_text) (\<lambda>sim_indices.
        let modes = parse_modes modes_text in
        (case filter (\<lambda>m. m \<noteq> ''homa'' \<and> m \<noteq> ''sird'') modes of
           m # _ \<Rightarrow> Inr (2, [], [Err (''ERROR: unsupported mode '' @ [apostrophe] @ m @ [apostrophe] @ '', expected one of ['' @
               [apostrophe] @ ''homa'' @ [apostrophe] @ '', '' @ [apostrophe] @ ''sird'' @ [apostrophe] @ '']'')])
         | [] \<Rightarrow>
           let n_total = int (length loads) * int (length sim_indices) * int (length modes) in
           (case run_jobs run args n_total 0 (jobs_of loads sim_indices modes) of
              (cmds, out, Some rc) \<Rightarrow> Inr (rc, cmds, out)
            | (cmds, out, None) \<Rightarrow> Inr (0, cmds, out @ [Out ''All experiments completed.'',
                Out (''Traces are under: '' @ root_dir @ ''/outputs/homa-paper-reproduction'')]))))))"

subsection \<open>The batch stops at the first failure\<close>

lemma length_jobs_of: "length (jobs_of loads sims modes) = length loads * (length sims * length modes)"
  by (simp add: jobs_of_def length_concat comp_def sum_list_triv)

text \<open>The number of runs before the first that fails.\<close>

definition good_runs :: "(nat \<Rightarrow> string \<Rightarrow> int) \<Rightarrow> string list \<Rightarrow> nat" where
  "good_runs run cmds = length (takeWhile (\<lambda>i. run i (cmds ! i) = 0) [0..<length cmds])"

lemma takeWhile_upt_shift:
  "takeWhile P [Suc a..<Suc b] = map Suc (takeWhile (\<lambda>i. P (Suc i)) [a..<b])"
  by (simp flip: map_Suc_upt add: takeWhile_map comp_def del: upt_Suc)

lemma good_runs_Cons:
  "good_runs run (c # cs) = (if run 0 c = 0 then Suc (good_runs (\<lambda>i. run (Suc i)) cs) else 0)"
proof -
  have "[0..<length (c # cs)] = 0 # [Suc 0..<Suc (length cs)]" by (simp add: upt_conv_Cons del: upt_Suc)
  then show ?thesis by (simp add: good_runs_def takeWhile_upt_shift del: upt_Suc)
qed

lemma run_jobs_spec:
  "\<exists>out. run_jobs run args n_total k jobs =
     (let cmds = map (run_cmd args) jobs; n = good_runs (\<lambda>i. run (k + i)) cmds
      in (take (Suc n) cmds, out, if n = length jobs then None else Some (run (k + n) (cmds ! n))))"
proof (induction jobs arbitrary: k)
  case Nil
  then show ?case by (simp add: good_runs_def)
next
  case (Cons job jobs)
  obtain load sim mode where j: "job = (load, sim, mode)" by (cases job)
  from Cons [of "Suc k"] obtain out where
    r: "run_jobs run args n_total (Suc k) jobs =
     (let cmds = map (run_cmd args) jobs; n = good_runs (\<lambda>i. run (Suc k + i)) cmds
      in (take (Suc n) cmds, out, if n = length jobs then None else Some (run (Suc k + n) (cmds ! n))))" by blast
  show ?case
    by (cases "run k (run_cmd args job) = 0") (auto simp: j Let_def good_runs_Cons r)
qed

text \<open>C19: The batch runs its experiments in order, load by load, index by index, mode by mode, up to
  and including the first one that fails, and returns that one's status; when none fails it has
  run all of them and returns 0.\<close>

theorem batch_stops_at_failure:
  assumes "parse_csv_floats loads_text = Inr loads" "parse_csv_ints sim_text = Inr sims"
    and "list_all (\<lambda>m. m = ''homa'' \<or> m = ''sird'') (parse_modes modes_text)"
  shows "\<exists>out. runner_main run True root_dir args loads_text sim_text modes_text =
    (let cmds = map (run_cmd args) (jobs_of loads sims (parse_modes modes_text)); n = good_runs run cmds
     in Inr (if n = length cmds then 0 else run n (cmds ! n), take (Suc n) cmds, out))
    \<and> length (jobs_of loads sims (parse_modes modes_text)) = length loads * (length sims * length (parse_modes modes_text))"
proof -
  have f: "filter (\<lambda>m. m \<noteq> ''homa'' \<and> m \<noteq> ''sird'') (parse_modes modes_text) = []"
    using assms(3) by (auto simp: filter_empty_conv list_all_iff)
  let ?jobs = "jobs_of loads sims (parse_modes modes_text)"
  let ?cmds = "map (run_cmd args) ?jobs" and ?total = "int (length loads) * int (length sims) * int (length (parse_modes modes_text))"
  let ?n = "good_runs run ?cmds"
  obtain out where r: "run_jobs run args ?total 0 ?jobs =
      (take (Suc ?n) ?cmds, out, if ?n = length ?jobs then None else Some (run ?n (?cmds ! ?n)))"
    using run_jobs_spec [of run args ?total 0 ?jobs] by (auto simp: Let_def)
  have "\<exists>out. runner_main run True root_dir args loads_text sim_text modes_text =
      Inr (if ?n = length ?cmds then 0 else run ?n (?cmds ! ?n), take (Suc ?n) ?cmds, out)"
    using assms(1,2) r by (simp add: runner_main_def f Let_def)
  then show ?thesis by (simp only: Let_def length_jobs_of simp_thms)
qed

definition sample_args :: run_args where
  "sample_args = \<lparr>ra_duration = Fin 1, ra_disable_rtx = False, ra_trace_queues = False, ra_trace_sird_grant = True,
     ra_bdp_pkts = 7, ra_inbound_rtx_timeout_us = 1000, ra_outbound_rtx_timeout_us = 10000,
     ra_sird_credit_budget_pkts = 12, ra_sird_unsch_threshold_pkts = 12, ra_sird_ecn_md_factor = Fin 1,
     ra_sird_ecn_ai_step = Fin 1, ra_sird_sender_md_factor = Fin 1, ra_sird_sender_ai_step = Fin 1,
     ra_sird_ecn_alpha_gain = Fin 0, ra_sird_sender_csn_threshold_us = 20\<rparr>"

theorem batch_stops_at_failure_witness:
  "\<exists>cmds out. runner_main (\<lambda>n _. if n = 1 then 3 else 0) True ''/sim'' sample_args ''1'' ''0, 1,2'' ''sird'' = Inr (3, cmds, out)
     \<and> length cmds = 2"
proof -
  have a: "parse_csv_floats ''1'' = Inr [Fin 1]" "parse_csv_ints ''0, 1,2'' = Inr [0, 1, 2]"
    "parse_modes ''sird'' = [''sird'']" by code_simp+
  have j: "jobs_of [Fin 1] [0, 1, 2] [''sird''] = [(Fin 1, 0, ''sird''), (Fin 1, 1, ''sird''), (Fin 1, 2, ''sird'')]"
    by (simp add: jobs_of_def)
  show ?thesis
    using batch_stops_at_failure [of "''1''" "[Fin 1]" "''0, 1,2''" "[0, 1, 2]" "''sird''" "\<lambda>n _. if n = 1 then 3 else 0" "''/sim''" sample_args] a
    by (auto simp: j good_runs_Cons good_runs_def Let_def)
qed

subsection \<open>The command line is read as it was meant\<close>

lemma shell_safe_digits: "0 \<le> n \<Longrightarrow> list_all shell_safe (show_nat n)"
  using show_nat_digits by (auto simp: list_all_iff shell_safe_def)

lemma shell_safe_show_int: "list_all shell_safe (show_int i)"
  by (auto simp: show_int_def shell_safe_digits) (simp add: shell_safe_def)

lemma pow10_pos: "0 < pow10 e"
  by (simp add: pow10_def)

lemma short_digits_nonneg: "0 < x \<Longrightarrow> short_digits x e k = Some m \<Longrightarrow> 0 \<le> m"
proof -
  assume x: "0 < x" and m: "short_digits x e k = Some m"
  have "0 \<le> x / pow10 (e - k + 1)" using x pow10_pos [of "e - k + 1"] by simp
  then have "0 \<le> \<lfloor>x / pow10 (e - k + 1)\<rfloor>" "0 \<le> \<lceil>x / pow10 (e - k + 1)\<rceil>" by linarith+
  then show ?thesis using m by (auto simp only: short_digits_def Let_def split: if_splits)
qed

lemma shortest_nonneg: "0 < x \<Longrightarrow> 0 \<le> fst (shortest x e ks)"
  by (induction x e ks rule: shortest.induct) (auto simp: pow10_pos less_imp_le split: option.splits dest: short_digits_nonneg)

lemma zero_char_safe: "shell_safe (CHR ''0'')"
  by (simp add: shell_safe_def is_digit_def)

lemma shell_safe_one: "list_all shell_safe ''1''"
  by (simp add: shell_safe_def is_digit_def)

lemma repr_digits_safe:
  assumes "list_all shell_safe ds"
  shows "list_all shell_safe (repr_digits ds e)"
proof -
  have c: "shell_safe (CHR ''.'')" "shell_safe (CHR ''-'')" "shell_safe (CHR ''+'')" "shell_safe (CHR ''e'')"
    by (simp_all add: shell_safe_def less_eq_char_def)
  have "list_all shell_safe (take n ds)" "list_all shell_safe (drop n ds)" for n
    using assms by (auto simp: list_all_iff dest: in_set_takeD in_set_dropD)
  then show ?thesis using assms c zero_char_safe shell_safe_digits [of "\<bar>e\<bar>"]
    by (auto simp: repr_digits_def Let_def zero_pad_def list_all_iff split: list.splits)
qed

lemma repr_pos_safe: "0 < x \<Longrightarrow> list_all shell_safe (repr_pos x)"
  using shortest_nonneg [of x "rat_ilog10 x" "[1..17]"]
  by (auto simp: repr_pos_def Let_def repr_digits_safe repr_digits_safe [OF shell_safe_one] shell_safe_digits split: prod.splits)

lemma py_repr_safe: "list_all shell_safe (py_repr x)"
proof (cases x)
  case (Fin q)
  have "shell_safe (CHR ''-'')" "shell_safe (CHR ''.'')" by (simp_all add: shell_safe_def)
  then show ?thesis using Fin repr_pos_safe [of q] repr_pos_safe [of "- q"] zero_char_safe by auto
qed (simp_all add: shell_safe_def less_eq_char_def)

lemma py_repr_samples: "py_repr (to_float (1 / 1000000)) = ''1e-06''" "py_repr (to_float (8 / 10)) = ''0.8''"
  by code_simp+

lemma shell_safe_word: "list_all shell_safe s \<Longrightarrow> s \<noteq> [] \<Longrightarrow> is_token s"
proof -
  assume a: "list_all shell_safe s" "s \<noteq> []"
  have "\<not> py_ws c" if "shell_safe c" for c
    using that digits_not_ws by (auto simp: shell_safe_def py_ws_def less_eq_char_def)
  then show ?thesis using a by (auto simp: is_token_def list_all_iff)
qed

lemma shell_safe_chars:
  "list_all shell_safe ''abcdefghijklmnopqrstuvwxyzABCDEFGHIJKLMNOPQRSTUVWXYZ0123456789-=/._+''"
  by code_simp

lemma run_words_safe: "list_all (\<lambda>w. list_all shell_safe w \<and> w \<noteq> []) (run_words args mode load sim_idx)"
  unfolding run_words_def
  using shell_safe_chars by (simp add: py_repr_safe shell_safe_show_int)

text \<open>Whatever the arguments, the command of a run needs no quoting: its words stand in it as
  they are, none has a quote or white space, and splitting the text at white space gives them back.\<close>

theorem run_args_words:
  "build_ns3_run_args args mode load sim_idx = join '' '' (run_words args mode load sim_idx)
   \<and> list_all (list_all shell_safe) (run_words args mode load sim_idx)
   \<and> split_ws (build_ns3_run_args args mode load sim_idx) = run_words args mode load sim_idx"
proof -
  let ?ws = "run_words args mode load sim_idx"
  have s: "w \<in> set ?ws \<Longrightarrow> list_all shell_safe w \<and> w \<noteq> []" for w
    using run_words_safe [of args mode load sim_idx] by (simp add: list_all_iff [of _ ?ws])
  have q: "map shlex_quote ?ws = ?ws" using s by (simp add: shlex_quote_def map_idI)
  have "split_ws (join '' '' ?ws) = ?ws" by (rule split_ws_join) (use s shell_safe_word in blast)
  then show ?thesis using s by (simp add: build_ns3_run_args_def q list_all_iff [of _ ?ws])
qed

end
