(* ===== verification/ShellCmd.thy ===== *)
theory ShellCmd
  imports Regex TraceRows
begin

text \<open>
  waf-tools/shellcmd.py: the shell-like commands of the build. \<open>parse\<close> is the token state
  machine, \<open>run\<close> the loop that starts the processes and waits for them. Processes run outside the
  program: \<open>status n sp\<close> is the exit status of the \<open>n\<close>-th process started, and the list of the
  processes started is part of the result. Opening the files of redirections is taken to
  succeed. \<open>shlex_split\<close> is the standard library's split (posix, without comments).
\<close>

subsection \<open>Splitting\<close>

datatype lex = Between | Word | Quote char | Escape lex

definition sh_space :: "char \<Rightarrow> bool" where
  "sh_space c \<longleftrightarrow> c = CHR '' '' \<or> c = char_of (9 :: nat) \<or> c = char_of (10 :: nat) \<or> c = char_of (13 :: nat)"

definition is_quote :: "char \<Rightarrow> bool" where
  "is_quote c \<longleftrightarrow> c = char_of (39 :: nat) \<or> c = char_of (34 :: nat)"

definition backslash :: char where
  "backslash = char_of (92 :: nat)"

fun sh_lex :: "lex \<Rightarrow> string \<Rightarrow> string \<Rightarrow> string list result" where
  "sh_lex Between tok [] = Inr []"
| "sh_lex Word tok [] = Inr [tok]"
| "sh_lex (Quote q) tok [] = Inl ValueError"
| "sh_lex (Escape l) tok [] = Inl ValueError"
| "sh_lex Between tok (c # cs) =
     (if sh_space c then sh_lex Between [] cs
      else if c = backslash then sh_lex (Escape Word) [] cs
      else if is_quote c then sh_lex (Quote c) [] cs
      else sh_lex Word [c] cs)"
| "sh_lex Word tok (c # cs) =
     (if sh_space c then bindR (sh_lex Between [] cs) (\<lambda>ts. Inr (tok # ts))
      else if is_quote c then sh_lex (Quote c) tok cs
      else if c = backslash then sh_lex (Escape Word) tok cs
      else sh_lex Word (tok @ [c]) cs)"
| "sh_lex (Quote q) tok (c # cs) =
     (if c = q then sh_lex Word tok cs
      else if c = backslash \<and> q = char_of (34 :: nat) then sh_lex (Escape (Quote q)) tok cs
      else sh_lex (Quote q) (tok @ [c]) cs)"
| "sh_lex (Escape l) tok (c # cs) =
     (case l of Quote q \<Rightarrow> sh_lex l (tok @ (if c \<noteq> backslash \<and> c \<noteq> q then [backslash] else []) @ [c]) cs
      | _ \<Rightarrow> sh_lex l (tok @ [c]) cs)"

definition shlex_split :: "string \<Rightarrow> string list result" where
  "shlex_split s = sh_lex Between [] s"

subsection \<open>Nodes\<close>

datatype redirect = File string | PIPE | STDOUT

record command =
  c_name :: string
  c_argv :: "string list"
  c_stdin :: "string option"
  c_stdout :: "redirect option"
  c_stderr :: "redirect option"
  c_env_vars :: "(string, string) dict"

datatype node = Command command | Chdir "string option" | Pipe | And | Or

definition new_command :: "string \<Rightarrow> (string, string) dict \<Rightarrow> command" where
  "new_command name env_vars = \<lparr>c_name = name, c_argv = [name], c_stdin = None, c_stdout = None,
     c_stderr = None, c_env_vars = env_vars\<rparr>"

fun abbrev_words :: "node \<Rightarrow> string list" where
  "abbrev_words (Command c) = [c_name c]"
| "abbrev_words (Chdir d) = [''cd '' @ (case d of None \<Rightarrow> ''None'' | Some d \<Rightarrow> d)]"
| "abbrev_words Pipe = [''|'']"
| "abbrev_words And = [''&&'']"
| "abbrev_words Or = []"

text \<open>The second test for \<open>And\<close> never succeeds: an \<open>Or\<close> node shows nothing.\<close>

definition get_abbreviated_command :: "node list \<Rightarrow> string" where
  "get_abbreviated_command pipeline = join '' '' (concat (map abbrev_words pipeline))"

subsection \<open>parse\<close>

datatype pstate = BEGIN | COMMAND | CHDIR | STDERR_FILE | STDOUT_FILE | STDIN_FILE

record parser =
  p_state :: pstate
  p_current :: "node option"
  p_pipeline :: "node list"
  p_env_vars :: "(string, string) dict"

definition word_char :: "char \<Rightarrow> bool" where
  "word_char c \<longleftrightarrow> (CHR ''a'' \<le> c \<and> c \<le> CHR ''z'') \<or> (CHR ''A'' \<le> c \<and> c \<le> CHR ''Z'') \<or> is_digit c \<or> c = CHR ''_''"

text \<open>\<open>^([a-zA-Z0-9_]+)=(\<backslash>S+)$\<close>\<close>

definition env_var_rx :: regex where
  "env_var_rx = group [some1 word_char] @ lit ''='' @ group [some1 (\<lambda>c. \<not> py_ws c)] @ [Eos]"

definition env_var_match :: "string \<Rightarrow> (string \<times> string) option" where
  "env_var_match token = (case re_match env_var_rx token of Some [Some k, Some v] \<Rightarrow> Some (k, v) | _ \<Rightarrow> None)"

definition commit_command :: "parser \<Rightarrow> parser result" where
  "commit_command p = (case p_current p of None \<Rightarrow> Inl AssertionError
     | Some c \<Rightarrow> Inr (p\<lparr>p_pipeline := p_pipeline p @ [c], p_current := None\<rparr>))"

definition commit_op :: "node \<Rightarrow> parser \<Rightarrow> parser result" where
  "commit_op op p = bindR (commit_command p) (\<lambda>p. Inr (p\<lparr>p_pipeline := p_pipeline p @ [op], p_state := BEGIN\<rparr>))"

definition begin_step :: "string \<Rightarrow> parser \<Rightarrow> parser result" where
  "begin_step token p = (case env_var_match token of
      Some (k, v) \<Rightarrow> Inr (p\<lparr>p_env_vars := dset k v (p_env_vars p)\<rparr>)
    | None \<Rightarrow>
        if p_current p \<noteq> None then Inl AssertionError
        else if token = ''cd'' then
          (if p_env_vars p \<noteq> [] then Inl AssertionError
           else Inr (p\<lparr>p_current := Some (Chdir None), p_state := CHDIR\<rparr>))
        else Inr (p\<lparr>p_current := Some (Command (new_command token (p_env_vars p))), p_env_vars := [],
          p_state := COMMAND\<rparr>))"

text \<open>A field of the current command may be set once.\<close>

fun upd_command :: "(command \<Rightarrow> command option) \<Rightarrow> parser \<Rightarrow> parser result" where
  "upd_command f p = (case p_current p of
      Some (Command c) \<Rightarrow> (case f c of None \<Rightarrow> Inl AssertionError
        | Some c' \<Rightarrow> Inr (p\<lparr>p_current := Some (Command c'), p_state := COMMAND\<rparr>))
    | _ \<Rightarrow> Inl AttributeError)"

definition set_stdout :: "redirect \<Rightarrow> command \<Rightarrow> command option" where
  "set_stdout r c = (if c_stdout c = None then Some (c\<lparr>c_stdout := Some r\<rparr>) else None)"

definition set_stderr :: "redirect \<Rightarrow> command \<Rightarrow> command option" where
  "set_stderr r c = (if c_stderr c = None then Some (c\<lparr>c_stderr := Some r\<rparr>) else None)"

definition set_stdin :: "string \<Rightarrow> command \<Rightarrow> command option" where
  "set_stdin f c = (if c_stdin c = None then Some (c\<lparr>c_stdin := Some f\<rparr>) else None)"

definition command_step :: "string \<Rightarrow> parser \<Rightarrow> parser result" where
  "command_step token p =
     (if token = ''>'' then Inr (p\<lparr>p_state := STDOUT_FILE\<rparr>)
      else if token = ''2>'' then Inr (p\<lparr>p_state := STDERR_FILE\<rparr>)
      else if token = ''2>&1'' then upd_command (set_stderr STDOUT) p
      else if token = ''<'' then Inr (p\<lparr>p_state := STDIN_FILE\<rparr>)
      else if token = ''|'' then bindR (upd_command (set_stdout PIPE) p) (commit_op Pipe)
      else if token = ''&&'' then commit_op And p
      else if token = ''||'' then commit_op Or p
      else upd_command (\<lambda>c. Some (c\<lparr>c_argv := c_argv c @ [token]\<rparr>)) p)"

definition chdir_step :: "string \<Rightarrow> parser \<Rightarrow> parser result" where
  "chdir_step token p =
     (if token = ''&&'' then commit_op And p
      else (case p_current p of Some (Chdir None) \<Rightarrow> Inr (p\<lparr>p_current := Some (Chdir (Some token))\<rparr>)
        | Some (Chdir (Some _)) \<Rightarrow> Inl AssertionError
        | _ \<Rightarrow> Inl AttributeError))"

fun parse_step :: "string \<Rightarrow> parser \<Rightarrow> parser result" where
  "parse_step token p = (case p_state p of
      BEGIN \<Rightarrow> begin_step token p
    | COMMAND \<Rightarrow> command_step token p
    | CHDIR \<Rightarrow> chdir_step token p
    | STDOUT_FILE \<Rightarrow> upd_command (set_stdout (File token)) p
    | STDERR_FILE \<Rightarrow> upd_command (set_stderr (File token)) p
    | STDIN_FILE \<Rightarrow> upd_command (set_stdin token) p)"

definition parser_init :: parser where
  "parser_init = \<lparr>p_state = BEGIN, p_current = None, p_pipeline = [], p_env_vars = []\<rparr>"

definition parse :: "string list \<Rightarrow> node list result" where
  "parse tokens = bindR (foldR parse_step tokens parser_init) (\<lambda>p.
     bindR (commit_command p) (\<lambda>p. Inr (p_pipeline p)))"

definition parse_text :: "string \<Rightarrow> node list result" where
  "parse_text text = bindR (shlex_split text) parse"

subsection \<open>run\<close>

text \<open>A process started: its standard input is the previous process, a file or inherited.\<close>

datatype input = Inherited | FromFile string | FromPipe

record spawn =
  sp_argv :: "string list"
  sp_stdin :: input
  sp_stdout :: "redirect option"
  sp_stderr :: "redirect option"
  sp_env :: "(string, string) dict"
  sp_cwd :: "string option"

text \<open>The statuses are collected; a bad one makes the last status the result.\<close>

definition exec_piped_commands :: "int list \<Rightarrow> int" where
  "exec_piped_commands retvals = (if list_ex (\<lambda>r. r \<noteq> 0) retvals then last retvals else 0)"

definition command_display :: "command \<Rightarrow> bool \<Rightarrow> string list" where
  "command_display cmd piped =
     (if c_env_vars cmd \<noteq> []
      then [join '' '' (map (\<lambda>(k, v). k @ ''='' @ v) (c_env_vars cmd)) @ '' '' @ join '' '' (c_argv cmd)]
      else [join '' '' (c_argv cmd)]) @
     (if piped then [] else case c_stdin cmd of None \<Rightarrow> [] | Some f \<Rightarrow> [''< '' @ f]) @
     (case c_stdout cmd of Some (File f) \<Rightarrow> [''> '' @ f] | _ \<Rightarrow> []) @
     (case c_stderr cmd of Some STDOUT \<Rightarrow> [''2>&1''] | Some (File f) \<Rightarrow> [''2> '' @ f] | _ \<Rightarrow> [])"

definition start :: "command \<Rightarrow> bool \<Rightarrow> string \<Rightarrow> spawn" where
  "start cmd piped cwd = \<lparr>sp_argv = c_argv cmd,
     sp_stdin = (if piped then FromPipe else case c_stdin cmd of None \<Rightarrow> Inherited | Some f \<Rightarrow> FromFile f),
     sp_stdout = c_stdout cmd, sp_stderr = c_stderr cmd, sp_env = c_env_vars cmd,
     sp_cwd = (if cwd = ''.'' then None else Some cwd)\<rparr>"

text \<open>The loop. \<open>piped\<close> says whether the command reads the previous one; \<open>grp\<close> are the processes
  of the pipeline so far, with the index of the first one; the result is what is returned (\<open>None\<close>
  when the loop ends without returning), after the processes started and the lines printed. The
  messages at the operators use \<open>retval\<close> before it is assigned: with \<open>verbose\<close> they raise.\<close>

record run_state =
  r_piped :: bool
  r_cwd :: string
  r_started :: "spawn list"
  r_group :: "spawn list"
  r_display :: "string list"

definition statuses :: "(nat \<Rightarrow> spawn \<Rightarrow> int) \<Rightarrow> run_state \<Rightarrow> int list" where
  "statuses status s = map (\<lambda>i. status (length (r_started s) + i) (r_group s ! i)) [0..<length (r_group s)]"

definition next_group :: "run_state \<Rightarrow> run_state" where
  "next_group s = s\<lparr>r_piped := False, r_started := r_started s @ r_group s, r_group := [], r_display := []\<rparr>"

function run :: "(nat \<Rightarrow> spawn \<Rightarrow> int) \<Rightarrow> bool \<Rightarrow> node list \<Rightarrow> run_state \<Rightarrow>
    spawn list \<times> outline list \<times> int option result" where
  "run status verbose [] s = (r_started s @ r_group s, [], Inr None)"
| "run status verbose (Chdir d # rest) s = (case rest of
      [] \<Rightarrow> (r_started s @ r_group s, [], Inl IndexError)
    | next_op # rest' \<Rightarrow>
        if next_op \<noteq> And then (r_started s @ r_group s, [], Inl AssertionError)
        else (case d of None \<Rightarrow> (r_started s @ r_group s, [], Inl TypeError)
          | Some dir \<Rightarrow> run status verbose rest' (s\<lparr>r_cwd := path_join (r_cwd s) dir,
              r_display := (if verbose then r_display s @ [''cd '' @ dir @ '' &&''] else r_display s)\<rparr>)))"
| "run status verbose (Command cmd # rest) s = (
     let s = s\<lparr>r_group := r_group s @ [start cmd (r_piped s) (r_cwd s)],
               r_display := (if verbose then r_display s @ command_display cmd (r_piped s) else r_display s)\<rparr>;
         all_started = r_started s @ r_group s
     in (case rest of
         [] \<Rightarrow> let retval = exec_piped_commands (statuses status s) in
           (all_started, if verbose then [Out (join '' '' (r_display s) @ '': exit code '' @ show_int retval)] else [],
            Inr (Some retval))
       | Pipe # rest' \<Rightarrow> run status verbose rest' (s\<lparr>r_piped := True, r_display := r_display s @ [''|'']\<rparr>)
       | Or # rest' \<Rightarrow> let this_retval = exec_piped_commands (statuses status s) in
           if verbose then (all_started, [], Inl UnboundLocalError)
           else if this_retval = 0 then (all_started, [], Inr (Some this_retval))
           else run status verbose rest' (next_group s)
       | And # rest' \<Rightarrow> let this_retval = exec_piped_commands (statuses status s) in
           if verbose then (all_started, [], Inl UnboundLocalError)
           else if this_retval \<noteq> 0 then (all_started, [], Inr (Some this_retval))
           else run status verbose rest' (next_group s)
       | _ # rest' \<Rightarrow> run status verbose rest' s))"
| "run status verbose (Pipe # rest) s = (r_started s @ r_group s, [], Inl AssertionError)"
| "run status verbose (And # rest) s = (r_started s @ r_group s, [], Inl AssertionError)"
| "run status verbose (Or # rest) s = (r_started s @ r_group s, [], Inl AssertionError)"
  by pat_completeness auto
termination
  by (relation "measure (\<lambda>(_, _, nodes, _). length nodes)") auto

definition run_init :: run_state where
  "run_init = \<lparr>r_piped = False, r_cwd = ''.'', r_started = [], r_group = [], r_display = []\<rparr>"

definition run_pipeline :: "(nat \<Rightarrow> spawn \<Rightarrow> int) \<Rightarrow> bool \<Rightarrow> node list \<Rightarrow> spawn list \<times> outline list \<times> int option result" where
  "run_pipeline status verbose pipeline = run status verbose pipeline run_init"

subsection \<open>What parse accepts\<close>

text \<open>A command that writes into a pipe is followed by one, and by nothing else; a change of
  directory is last or followed by \<open>&&\<close>.\<close>

inductive wf_pipeline :: "node list \<Rightarrow> bool" where
  wf_last: "c_stdout c \<noteq> Some PIPE \<Longrightarrow> wf_pipeline [Command c]"
| wf_cd_last: "wf_pipeline [Chdir d]"
| wf_pipe: "c_stdout c = Some PIPE \<Longrightarrow> wf_pipeline rest \<Longrightarrow> wf_pipeline (Command c # Pipe # rest)"
| wf_op: "c_stdout c \<noteq> Some PIPE \<Longrightarrow> op = And \<or> op = Or \<Longrightarrow> wf_pipeline rest \<Longrightarrow> wf_pipeline (Command c # op # rest)"
| wf_cd: "wf_pipeline rest \<Longrightarrow> wf_pipeline (Chdir d # And # rest)"

inductive_cases wf_CommandE: "wf_pipeline (Command c # rest)"
inductive_cases wf_ChdirE: "wf_pipeline (Chdir d # rest)"
inductive_simps wf_Nil [simp]: "wf_pipeline []"

text \<open>The invariant of the parser: what is committed can be completed, and the state says which
  command is open.\<close>

definition completes_to_wf :: "node list \<Rightarrow> bool" where
  "completes_to_wf ns \<longleftrightarrow> (\<forall>rest. wf_pipeline rest \<longrightarrow> wf_pipeline (ns @ rest))"

lemma completes_last: "completes_to_wf ns \<Longrightarrow> wf_pipeline [n] \<Longrightarrow> wf_pipeline (ns @ [n])"
  by (simp add: completes_to_wf_def)

definition parser_ok :: "parser \<Rightarrow> bool" where
  "parser_ok p \<longleftrightarrow> completes_to_wf (p_pipeline p) \<and> (case p_state p of
      BEGIN \<Rightarrow> p_current p = None
    | CHDIR \<Rightarrow> (\<exists>d. p_current p = Some (Chdir d))
    | _ \<Rightarrow> (\<exists>c. p_current p = Some (Command c) \<and> c_stdout c \<noteq> Some PIPE))"

lemma completes_to_snoc:
  assumes "completes_to_wf ns" "\<And>rest. wf_pipeline rest \<Longrightarrow> wf_pipeline (n # op # rest)"
  shows "completes_to_wf (ns @ [n, op])"
  using assms by (simp add: completes_to_wf_def)

lemma commit_op_ok:
  assumes "completes_to_wf (p_pipeline p)" "p_current p = Some n"
    and "\<And>rest. wf_pipeline rest \<Longrightarrow> wf_pipeline (n # op # rest)"
  shows "\<exists>p'. commit_op op p = Inr p' \<and> parser_ok p'"
  using completes_to_snoc [OF assms(1,3)] assms(2)
  by (simp add: commit_op_def commit_command_def parser_ok_def)

definition step_ok :: "parser result \<Rightarrow> bool" where
  "step_ok r \<longleftrightarrow> (case r of Inl e \<Rightarrow> e = AssertionError | Inr p \<Rightarrow> parser_ok p)"

lemma step_if: "step_ok x \<Longrightarrow> step_ok y \<Longrightarrow> step_ok (if b then x else y)"
  by simp

lemma upd_command_ok:
  assumes "completes_to_wf (p_pipeline p)" "p_current p = Some (Command c)"
    and "\<And>c'. f c = Some c' \<Longrightarrow> c_stdout c' \<noteq> Some PIPE"
  shows "step_ok (upd_command f p)"
  using assms by (auto simp: step_ok_def parser_ok_def split: option.splits)

lemma begin_step_ok: "parser_ok p \<Longrightarrow> p_state p = BEGIN \<Longrightarrow> step_ok (begin_step token p)"
  by (auto simp: step_ok_def parser_ok_def begin_step_def new_command_def split: option.splits)

lemma chdir_step_ok:
  assumes "parser_ok p" "p_state p = CHDIR"
  shows "step_ok (chdir_step token p)"
proof -
  obtain d where d: "p_current p = Some (Chdir d)" and c: "completes_to_wf (p_pipeline p)"
    using assms by (auto simp: parser_ok_def)
  obtain p' where "commit_op And p = Inr p'" "parser_ok p'" using commit_op_ok [OF c d] wf_cd by blast
  then show ?thesis using assms(2) c d by (auto simp: chdir_step_def step_ok_def parser_ok_def split: option.splits)
qed

lemma command_step_ok:
  assumes "parser_ok p" "p_state p = COMMAND"
  shows "step_ok (command_step token p)"
proof -
  obtain c where d: "p_current p = Some (Command c)" and c: "completes_to_wf (p_pipeline p)" and n: "c_stdout c \<noteq> Some PIPE"
    using assms by (auto simp: parser_ok_def)
  have op: "step_ok (commit_op op p)" if "op = And \<or> op = Or" for op
    using commit_op_ok [OF c d, of op] wf_op [OF n that] by (auto simp: step_ok_def)
  have u: "step_ok (upd_command f p)" if "\<And>c'. f c = Some c' \<Longrightarrow> c_stdout c' \<noteq> Some PIPE" for f
    using upd_command_ok [OF c d that] .
  have "step_ok (bindR (upd_command (set_stdout PIPE) p) (commit_op Pipe))"
  proof (cases "c_stdout c = None")
    case True
    let ?c = "c\<lparr>c_stdout := Some PIPE\<rparr>"
    let ?p = "p\<lparr>p_current := Some (Command ?c), p_state := COMMAND\<rparr>"
    have "upd_command (set_stdout PIPE) p = Inr ?p" using True d by (simp add: set_stdout_def)
    moreover have "\<exists>p'. commit_op Pipe ?p = Inr p' \<and> parser_ok p'"
      by (rule commit_op_ok [of _ "Command ?c"]) (use c wf_pipe [of ?c] in auto)
    ultimately show ?thesis by (auto simp: step_ok_def)
  next
    case False
    then have "upd_command (set_stdout PIPE) p = Inl AssertionError" using d by (auto simp: set_stdout_def)
    then show ?thesis by (simp add: step_ok_def)
  qed
  then have pipe: "step_ok (bindR (upd_command (set_stdout PIPE) p) (commit_op Pipe))" .
  have err: "step_ok (upd_command (set_stderr STDOUT) p)"
    by (rule u) (use n in \<open>auto simp: set_stderr_def split: if_splits\<close>)
  have arg: "step_ok (upd_command (\<lambda>c. Some (c\<lparr>c_argv := c_argv c @ [token]\<rparr>)) p)"
    by (rule u) (use n in auto)
  have redir: "step_ok (Inr (p\<lparr>p_state := st\<rparr>))" if "st \<in> {STDOUT_FILE, STDERR_FILE, STDIN_FILE}" for st
    using that c d n by (auto simp: step_ok_def parser_ok_def)
  show ?thesis unfolding command_step_def
    by (intro step_if) (simp_all only: op redir pipe err arg insert_iff simp_thms)
qed

lemma parse_step_ok: "parser_ok p \<Longrightarrow> step_ok (parse_step token p)"
proof (cases "p_state p")
  case BEGIN
  then show "parser_ok p \<Longrightarrow> ?thesis" using begin_step_ok by simp
next
  case COMMAND
  then show "parser_ok p \<Longrightarrow> ?thesis" using command_step_ok by simp
next
  case CHDIR
  then show "parser_ok p \<Longrightarrow> ?thesis" using chdir_step_ok by simp
qed (auto simp: parser_ok_def step_ok_def set_stdout_def set_stderr_def set_stdin_def)

lemma parse_fold_ok: "parser_ok p \<Longrightarrow> step_ok (foldR parse_step tokens p)"
proof (induction tokens arbitrary: p)
  case (Cons t ts)
  then show ?case using parse_step_ok [of p t] by (cases "parse_step t p") (auto simp: step_ok_def)
qed (simp add: step_ok_def)

lemma parser_ok_init: "parser_ok parser_init"
  by (simp add: parser_ok_def parser_init_def completes_to_wf_def)

lemma parser_ok_current:
  "parser_ok p \<Longrightarrow> p_current p = Some n \<Longrightarrow> wf_pipeline [n]"
  by (auto simp: parser_ok_def intro: wf_last wf_cd_last split: pstate.splits)

lemma commit_wf:
  assumes "parser_ok p"
  shows "case bindR (commit_command p) (\<lambda>p. Inr (p_pipeline p)) of
    Inl e \<Rightarrow> e = AssertionError | Inr ns \<Rightarrow> wf_pipeline ns"
proof (cases "p_current p")
  case (Some n)
  then show ?thesis using completes_last [OF _ parser_ok_current [OF assms Some]] assms
    by (simp add: commit_command_def parser_ok_def)
qed (simp add: commit_command_def)

lemma parse_result: "case parse tokens of Inl e \<Rightarrow> e = AssertionError | Inr ns \<Rightarrow> wf_pipeline ns"
  using parse_fold_ok [OF parser_ok_init, of tokens] commit_wf
  by (cases "foldR parse_step tokens parser_init") (auto simp: parse_def step_ok_def)

lemma parse_Inr_wf: "parse tokens = Inr ns \<Longrightarrow> wf_pipeline ns"
  using parse_result [of tokens] by simp

text \<open>C23: The parser gives a well-formed pipeline or fails an assertion, and nothing else: commands
  and operators alternate, it starts and ends with a command, a command writes into a pipe exactly
  when a pipe follows, and a \<open>cd\<close> is last or followed by \<open>&&\<close>.\<close>

theorem parse_wf: "case parse tokens of Inl e \<Rightarrow> e = AssertionError | Inr ns \<Rightarrow> wf_pipeline ns"
  by (rule parse_result)

subsection \<open>What run does with it\<close>

lemma exec_piped_last: "exec_piped_commands rs = (if rs = [] then 0 else last rs)"
  by (auto simp: exec_piped_commands_def list_ex_iff dest: last_in_set)

definition run_ok :: "node list \<Rightarrow> int option result \<Rightarrow> bool" where
  "run_ok ns r \<longleftrightarrow> (case r of
      Inl e \<Rightarrow> (e = IndexError \<and> (\<exists>d. last ns = Chdir d)) \<or> (e = TypeError \<and> Chdir None \<in> set ns)
    | Inr v \<Rightarrow> v \<noteq> None)"

lemma run_ok_Cons2: "rest \<noteq> [] \<Longrightarrow> run_ok rest r \<Longrightarrow> run_ok (a # b # rest) r"
  by (auto simp: run_ok_def split: sum.splits)

lemma wf_nonempty: "wf_pipeline ns \<Longrightarrow> ns \<noteq> []"
  by auto

lemma run_wf: "wf_pipeline ns \<Longrightarrow> run_ok ns (snd (snd (run status False ns s)))"
proof (induction ns arbitrary: s rule: wf_pipeline.induct)
  case (wf_pipe c rest)
  show ?case using run_ok_Cons2 [OF wf_nonempty [OF wf_pipe(2)] wf_pipe(3)] by (simp add: Let_def)
next
  case (wf_op c op rest)
  have v: "run_ok ns (Inr (Some v))" for ns v by (simp add: run_ok_def)
  show ?case using wf_op(2) run_ok_Cons2 [OF wf_nonempty [OF wf_op(3)] wf_op(4)] v by (auto simp: Let_def)
next
  case (wf_cd rest d)
  show ?case
  proof (cases d)
    case None
    then show ?thesis by (simp add: run_ok_def)
  next
    case (Some dir)
    then show ?thesis using run_ok_Cons2 [OF wf_nonempty [OF wf_cd(1)] wf_cd(2)] by simp
  qed
qed (simp_all add: run_ok_def Let_def)

text \<open>Running a parsed command returns an exit status, unless it changes directory: a \<open>cd\<close> at
  the end raises an IndexError and a \<open>cd\<close> without a directory a TypeError. Every other error of
  the loop is impossible.\<close>

theorem parsed_runs:
  assumes "parse tokens = Inr ns"
  shows "case snd (snd (run_pipeline status False ns)) of
      Inl e \<Rightarrow> (e = IndexError \<and> (\<exists>d. last ns = Chdir d)) \<or> (e = TypeError \<and> Chdir None \<in> set ns)
    | Inr r \<Rightarrow> r \<noteq> None"
  using run_wf [OF parse_Inr_wf [OF assms]] unfolding run_pipeline_def run_ok_def .

theorem parsed_runs_witness:
  "snd (snd (run_pipeline (\<lambda>n sp. 0) False [Command (new_command ''ls'' []), And, Chdir (Some ''x'')])) = Inl IndexError
   \<and> (case snd (snd (run_pipeline (\<lambda>n sp. 0) False [Command (new_command ''ls'' [])])) of Inl e \<Rightarrow> False | Inr r \<Rightarrow> r \<noteq> None)"
proof
  show "snd (snd (run_pipeline (\<lambda>n sp. 0) False [Command (new_command ''ls'' []), And, Chdir (Some ''x'')])) = Inl IndexError"
    by code_simp
  have "parse [''ls''] = Inr [Command (new_command ''ls'' [])]" by code_simp
  from parsed_runs [OF this, of "\<lambda>n sp. 0"]
  show "case snd (snd (run_pipeline (\<lambda>n sp. 0) False [Command (new_command ''ls'' [])])) of Inl e \<Rightarrow> False | Inr r \<Rightarrow> r \<noteq> None"
    by (auto split: sum.splits)
qed

subsection \<open>run and the POSIX lists\<close>

text \<open>The pipelines that \<open>run\<close> starts, when all operators of a list are the same.\<close>

definition pipe_spawns :: "command list \<Rightarrow> spawn list" where
  "pipe_spawns cs = map (\<lambda>(c, piped). start c piped ''.'') (zip cs (False # replicate (length cs) True))"

fun list_spawns :: "(spawn \<Rightarrow> int) \<Rightarrow> int \<Rightarrow> (node \<times> command list) list \<Rightarrow> spawn list \<times> int" where
  "list_spawns st v [] = ([], v)"
| "list_spawns st v ((op, cs) # ops) =
     (if (op = And \<and> v = 0) \<or> (op = Or \<and> v \<noteq> 0)
      then (let (ps, r) = list_spawns st (st (last (pipe_spawns cs))) ops in (pipe_spawns cs @ ps, r))
      else list_spawns st v ops)"

definition pipe_nodes :: "command list \<Rightarrow> node list" where
  "pipe_nodes cs = Command (hd cs) # concat (map (\<lambda>c. [Pipe, Command c]) (tl cs))"

definition list_nodes :: "command list \<Rightarrow> (node \<times> command list) list \<Rightarrow> node list" where
  "list_nodes cs ops = pipe_nodes cs @ concat (map (\<lambda>(op, cs). op # pipe_nodes cs) ops)"

lemma list_stop:
  "\<forall>x\<in>set ops. fst x = op \<Longrightarrow> (op = And \<and> v \<noteq> 0) \<or> (op = Or \<and> v = 0) \<Longrightarrow> list_spawns st v ops = ([], v)"
  by (induction ops) auto

lemma statuses_group: "statuses (\<lambda>n. st) s = map st (r_group s)"
  by (auto simp: statuses_def intro: nth_equalityI)

text \<open>After the last command of a pipeline.\<close>

definition run_end :: "(spawn \<Rightarrow> int) \<Rightarrow> node list \<Rightarrow> run_state \<Rightarrow> spawn list \<times> outline list \<times> int option result" where
  "run_end st rest s = (let v = last (map st (r_group s)); ps = r_started s @ r_group s in
     case rest of [] \<Rightarrow> (ps, [], Inr (Some v))
     | op # rest \<Rightarrow> if (op = Or \<and> v = 0) \<or> (op = And \<and> v \<noteq> 0) then (ps, [], Inr (Some v))
         else run (\<lambda>n. st) False rest (next_group s))"

lemma run_pipe_tail:
  assumes "rest = [] \<or> (\<exists>op rest'. rest = op # rest' \<and> (op = And \<or> op = Or))"
  shows "run (\<lambda>n. st) False (Command c # concat (map (\<lambda>c. [Pipe, Command c]) cs) @ rest) s =
    run_end st rest (s\<lparr>r_piped := r_piped s \<or> cs \<noteq> [],
      r_group := r_group s @ start c (r_piped s) (r_cwd s) # map (\<lambda>c. start c True (r_cwd s)) cs,
      r_display := r_display s @ replicate (length cs) ''|''\<rparr>)"
proof (induction cs arbitrary: c s)
  case Nil
  show ?case using assms by (auto simp: run_end_def statuses_group exec_piped_last Let_def)
next
  case (Cons d cs)
  show ?case by (subst list.map, subst concat.simps, simp only: append_Cons append_Nil, subst run.simps)
      (use Cons.IH in \<open>simp add: Let_def del: run.simps\<close>)
qed

lemma pipe_spawns_Cons: "pipe_spawns (c # cs) = start c False ''.'' # map (\<lambda>c. start c True ''.'') cs"
proof -
  have "map (\<lambda>(c, piped). start c piped ''.'') (zip cs (replicate n True)) = map (\<lambda>c. start c True ''.'') cs"
    if "length cs \<le> n" for n
    using that by (auto intro!: nth_equalityI)
  from this [of "Suc (length cs)"] show ?thesis by (simp add: pipe_spawns_def)
qed

lemma run_pipe:
  assumes "rest = [] \<or> (\<exists>op rest'. rest = op # rest' \<and> (op = And \<or> op = Or))" "cs \<noteq> []"
    and "r_group s = []" "r_piped s = False" "r_cwd s = ''.''"
  shows "\<exists>s'. run (\<lambda>n. st) False (pipe_nodes cs @ rest) s = run_end st rest s' \<and> r_group s' = pipe_spawns cs
    \<and> r_started s' = r_started s \<and> r_cwd s' = ''.''"
proof -
  obtain c cs' where cs: "cs = c # cs'" using assms(2) by (cases cs) auto
  show ?thesis using run_pipe_tail [OF assms(1), of st c cs' s] assms(3-5)
    by (auto simp: cs pipe_nodes_def pipe_spawns_Cons)
qed

lemma pipe_spawns_nonempty: "cs \<noteq> [] \<Longrightarrow> pipe_spawns cs \<noteq> []"
  by (cases cs) (auto simp: pipe_spawns_Cons)

lemma run_list:
  assumes "op = And \<or> op = Or" "\<forall>x\<in>set ops. fst x = op \<and> snd x \<noteq> []" "cs \<noteq> []"
    and "r_group s = []" "r_piped s = False" "r_cwd s = ''.''"
  shows "run (\<lambda>n. st) False (list_nodes cs ops) s =
    (let (ps, v) = list_spawns st (st (last (pipe_spawns cs))) ops
     in (r_started s @ pipe_spawns cs @ ps, [], Inr (Some v)))"
  using assms(2-)
proof (induction ops arbitrary: cs s)
  case Nil
  from run_pipe [of "[]" cs s st] Nil obtain s' where
    "run (\<lambda>n. st) False (pipe_nodes cs) s = run_end st [] s'" "r_group s' = pipe_spawns cs" "r_started s' = r_started s"
    by auto
  then show ?case using pipe_spawns_nonempty [OF Nil(2)] by (simp add: list_nodes_def run_end_def last_map)
next
  case (Cons x ops)
  obtain ds where x: "x = (op, ds)" and ds: "ds \<noteq> []" using Cons.prems(1) by (cases x) auto
  let ?rest = "op # list_nodes ds ops"
  have ln: "list_nodes cs (x # ops) = pipe_nodes cs @ ?rest" by (simp add: list_nodes_def x)
  from run_pipe [of ?rest cs s st] assms(1) Cons.prems obtain s' where
    r: "run (\<lambda>n. st) False (pipe_nodes cs @ ?rest) s = run_end st ?rest s'"
    and g: "r_group s' = pipe_spawns cs" "r_started s' = r_started s" "r_cwd s' = ''.''"
    by auto
  have l: "last (map st (pipe_spawns cs)) = st (last (pipe_spawns cs))"
    using pipe_spawns_nonempty [OF Cons.prems(2)] by (simp add: last_map)
  have same: "\<forall>y\<in>set ops. fst y = op" using Cons.prems(1) by simp
  show ?case
  proof (cases "(op = Or \<and> st (last (pipe_spawns cs)) = 0) \<or> (op = And \<and> st (last (pipe_spawns cs)) \<noteq> 0)")
    case True
    then have "list_spawns st (st (last (pipe_spawns cs))) (x # ops) = ([], st (last (pipe_spawns cs)))"
      by (intro list_stop [of _ op]) (use same x in auto)
    then show ?thesis using True r g l by (simp add: ln run_end_def)
  next
    case False
    have ih: "run (\<lambda>n. st) False (list_nodes ds ops) (next_group s') =
      (let (ps, v) = list_spawns st (st (last (pipe_spawns ds))) ops
       in (r_started (next_group s') @ pipe_spawns ds @ ps, [], Inr (Some v)))"
      using Cons.prems(1) ds g by (intro Cons.IH) (auto simp: next_group_def)
    have e: "run_end st ?rest s' = run (\<lambda>n. st) False (list_nodes ds ops) (next_group s')"
      using False g l by (auto simp: run_end_def)
    have p: "list_spawns st (st (last (pipe_spawns cs))) (x # ops) =
      (let (ps, v) = list_spawns st (st (last (pipe_spawns ds))) ops in (pipe_spawns ds @ ps, v))"
      using False assms(1) by (auto simp: x)
    show ?thesis unfolding ln r e ih p using g by (simp add: next_group_def split: prod.splits)
  qed
qed

text \<open>With \<open>verbose\<close> the loop cannot get past an operator: the message names a variable that is
  not assigned yet, so a parsed command with \<open>&&\<close> or \<open>||\<close> after its first pipeline raises an error
  once that pipeline has run.\<close>

theorem verbose_fails:
  assumes "op = And \<or> op = Or"
  shows "run_pipeline status True (Command c # op # rest) = ([start c False ''.''], [], Inl UnboundLocalError)"
  using assms by (auto simp: run_pipeline_def run_init_def Let_def)

theorem verbose_fails_witness:
  "run_pipeline (\<lambda>n sp. 0) True (list_nodes [new_command ''a'' []] [(And, [new_command ''c'' []])]) =
     ([start (new_command ''a'' []) False ''.''], [], Inl UnboundLocalError)"
  using verbose_fails [of And "\<lambda>n sp. 0" "new_command ''a'' []" "[Command (new_command ''c'' [])]"] by (simp add: list_nodes_def pipe_nodes_def)

end
