(* ===== verification/PosixShell.thy ===== *)
theory PosixShell
  imports ShellCmd
begin

text \<open>
  waf-tools/shellcmd.py beside a POSIX shell: a language of simple commands, pipelines and and-or lists with its own
  evaluation (descriptor tables, redirections from left to right, operators from the left), the tokens it is
  written with, and the proof that the pipeline that is parsed from them and run starts the same processes. The last
  lemmas show where the two differ.
\<close>

subsection \<open>The shell language\<close>

text \<open>A simple command of the shell: assignments, a name, and words and redirections in any order. Each of them is
  one token or two.\<close>

datatype item = SArg string | SIn string | SOut string | SErr string | SErrOut

record simple_command =
  sc_assigns :: "(string \<times> string) list"
  sc_name :: string
  sc_items :: "item list"

fun item_tokens :: "item \<Rightarrow> string list" where
  "item_tokens (SArg w) = [w]"
| "item_tokens (SIn f) = [''<'', f]"
| "item_tokens (SOut f) = [''>'', f]"
| "item_tokens (SErr f) = [''2>'', f]"
| "item_tokens SErrOut = [''2>&1'']"

definition simple_tokens :: "simple_command \<Rightarrow> string list" where
  "simple_tokens c = map (\<lambda>(k, v). k @ ''='' @ v) (sc_assigns c) @ sc_name c # concat (map item_tokens (sc_items c))"

fun pipeline_tokens :: "simple_command list \<Rightarrow> string list" where
  "pipeline_tokens [] = []"
| "pipeline_tokens [c] = simple_tokens c"
| "pipeline_tokens (c # cs) = simple_tokens c @ ''|'' # pipeline_tokens cs"

definition op_token :: "node \<Rightarrow> string" where
  "op_token op = (if op = And then ''&&'' else ''||'')"

definition list_tokens :: "simple_command list \<Rightarrow> (node \<times> simple_command list) list \<Rightarrow> string list" where
  "list_tokens cs ops = pipeline_tokens cs @ concat (map (\<lambda>(op, cs). op_token op # pipeline_tokens cs) ops)"

subsection \<open>What POSIX says of it\<close>

text \<open>What a file descriptor of a process is: the one that the shell has under that number, a file opened for
  reading, a file opened for writing by the redirection of descriptor \<open>n\<close>, the process before or the one after in the
  pipeline. Two openings of one file are two descriptions; a copy shares one.\<close>

datatype descr = Shell nat | Reads string | Writes nat string | FromPrev | ToNext

record fd_table =
  fd_in :: descr
  fd_out :: descr
  fd_err :: descr

record process =
  pr_argv :: "string list"
  pr_env :: "string \<rightharpoonup> string"
  pr_fds :: fd_table
  pr_cwd :: "string option"

text \<open>The pipes are connected first, then the redirections are carried out from left to right.\<close>

definition piped_fds :: "bool \<Rightarrow> bool \<Rightarrow> fd_table" where
  "piped_fds pin pout = \<lparr>fd_in = (if pin then FromPrev else Shell 0), fd_out = (if pout then ToNext else Shell 1), fd_err = Shell 2\<rparr>"

fun redirect_fds :: "item \<Rightarrow> fd_table \<Rightarrow> fd_table" where
  "redirect_fds (SArg w) t = t"
| "redirect_fds (SIn f) t = t\<lparr>fd_in := Reads f\<rparr>"
| "redirect_fds (SOut f) t = t\<lparr>fd_out := Writes 1 f\<rparr>"
| "redirect_fds (SErr f) t = t\<lparr>fd_err := Writes 2 f\<rparr>"
| "redirect_fds SErrOut t = t\<lparr>fd_err := fd_out t\<rparr>"

definition posix_process :: "bool \<Rightarrow> bool \<Rightarrow> simple_command \<Rightarrow> process" where
  "posix_process pin pout c = \<lparr>pr_argv = sc_name c # concat (map (\<lambda>i. case i of SArg w \<Rightarrow> [w] | _ \<Rightarrow> []) (sc_items c)),
     pr_env = map_of (rev (sc_assigns c)), pr_fds = fold redirect_fds (sc_items c) (piped_fds pin pout), pr_cwd = None\<rparr>"

fun posix_pipeline :: "bool \<Rightarrow> simple_command list \<Rightarrow> process list" where
  "posix_pipeline pin [] = []"
| "posix_pipeline pin (c # cs) = posix_process pin (cs \<noteq> []) c # posix_pipeline True cs"

text \<open>An and-or list from the left: an operator looks at the status of the last pipeline that ran, which is that of its
  last command, and a pipeline that is skipped does not end the list.\<close>

fun posix_ops :: "(process \<Rightarrow> int) \<Rightarrow> int \<Rightarrow> (node \<times> simple_command list) list \<Rightarrow> process list \<times> int" where
  "posix_ops st v [] = ([], v)"
| "posix_ops st v ((op, cs) # ops) =
     (if (op = And \<and> v = 0) \<or> (op = Or \<and> v \<noteq> 0)
      then (let (ps, r) = posix_ops st (st (last (posix_pipeline False cs))) ops in (posix_pipeline False cs @ ps, r))
      else posix_ops st v ops)"

definition posix_list :: "(process \<Rightarrow> int) \<Rightarrow> simple_command list \<Rightarrow> (node \<times> simple_command list) list \<Rightarrow> process list \<times> int" where
  "posix_list st cs ops = (let (ps, r) = posix_ops st (st (last (posix_pipeline False cs))) ops in (posix_pipeline False cs @ ps, r))"

text \<open>The process that \<open>subprocess.Popen\<close> makes of its arguments.\<close>

definition popen_out :: "redirect option \<Rightarrow> nat \<Rightarrow> descr \<Rightarrow> descr" where
  "popen_out r n out = (case r of None \<Rightarrow> Shell n | Some PIPE \<Rightarrow> ToNext | Some STDOUT \<Rightarrow> out | Some (File f) \<Rightarrow> Writes n f)"

lemma popen_out_simps [simp]:
  "popen_out None n out = Shell n" "popen_out (Some PIPE) n out = ToNext" "popen_out (Some STDOUT) n out = out"
  "popen_out (Some (File f)) n out = Writes n f"
  by (simp_all add: popen_out_def)

lemma popen_out_other: "r \<noteq> Some STDOUT \<Longrightarrow> popen_out r n out = popen_out r n out'"
  by (auto simp: popen_out_def split: option.splits redirect.splits)

definition popen_in :: "input \<Rightarrow> descr" where
  "popen_in i = (case i of Inherited \<Rightarrow> Shell 0 | FromFile f \<Rightarrow> Reads f | FromPipe \<Rightarrow> FromPrev)"

definition process_of :: "spawn \<Rightarrow> process" where
  "process_of sp = (let out = popen_out (sp_stdout sp) 1 (Shell 1) in
     \<lparr>pr_argv = sp_argv sp, pr_env = dget (sp_env sp),
      pr_fds = \<lparr>fd_in = popen_in (sp_stdin sp), fd_out = out, fd_err = popen_out (sp_stderr sp) 2 out\<rparr>, pr_cwd = sp_cwd sp\<rparr>)"

text \<open>The commands on which the two agree. Each stream is redirected at most once, none that a pipe has taken, and the
  output not after the errors have been sent to it: \<open>i\<close>, \<open>out\<close> and \<open>e\<close> say what may still be redirected.
  No word is an operator, and the assignments and the name are what the parser takes them for.\<close>

definition shell_ops :: "string set" where
  "shell_ops = {''>'', ''2>'', ''2>&1'', ''<'', ''|'', ''&&'', ''||''}"

fun portable :: "bool \<Rightarrow> bool \<Rightarrow> bool \<Rightarrow> item list \<Rightarrow> bool" where
  "portable i out e [] = True"
| "portable i out e (SArg w # r) = (w \<notin> shell_ops \<and> portable i out e r)"
| "portable i out e (SIn f # r) = (i \<and> f \<notin> shell_ops \<and> portable False out e r)"
| "portable i out e (SOut f # r) = (out \<and> f \<notin> shell_ops \<and> portable i False e r)"
| "portable i out e (SErr f # r) = (e \<and> f \<notin> shell_ops \<and> portable i out False r)"
| "portable i out e (SErrOut # r) = (e \<and> portable i False False r)"

definition portable_command :: "bool \<Rightarrow> bool \<Rightarrow> simple_command \<Rightarrow> bool" where
  "portable_command pin pout c \<longleftrightarrow> list_all (\<lambda>(k, v). env_var_match (k @ ''='' @ v) = Some (k, v)) (sc_assigns c)
     \<and> env_var_match (sc_name c) = None \<and> sc_name c \<noteq> ''cd'' \<and> sc_name c \<notin> shell_ops \<and> portable (\<not> pin) (\<not> pout) True (sc_items c)"

fun portable_pipeline :: "bool \<Rightarrow> simple_command list \<Rightarrow> bool" where
  "portable_pipeline pin [] = True"
| "portable_pipeline pin (c # cs) = (portable_command pin (cs \<noteq> []) c \<and> portable_pipeline True cs)"

subsection \<open>What the parser makes of it\<close>

fun add_item :: "item \<Rightarrow> command \<Rightarrow> command" where
  "add_item (SArg w) c = c\<lparr>c_argv := c_argv c @ [w]\<rparr>"
| "add_item (SIn f) c = c\<lparr>c_stdin := Some f\<rparr>"
| "add_item (SOut f) c = c\<lparr>c_stdout := Some (File f)\<rparr>"
| "add_item (SErr f) c = c\<lparr>c_stderr := Some (File f)\<rparr>"
| "add_item SErrOut c = c\<lparr>c_stderr := Some STDOUT\<rparr>"

definition command_of :: "simple_command \<Rightarrow> command" where
  "command_of c = fold add_item (sc_items c) (new_command (sc_name c) (fold (\<lambda>(k, v). dset k v) (sc_assigns c) []))"

fun mark_pipes :: "command list \<Rightarrow> command list" where
  "mark_pipes [] = []"
| "mark_pipes (c # cs) = (if cs = [] then c else c\<lparr>c_stdout := Some PIPE\<rparr>) # mark_pipes cs"

definition pipeline_of :: "simple_command list \<Rightarrow> command list" where
  "pipeline_of cs = mark_pipes (map command_of cs)"

declare parse_step.simps [simp del]

lemma parse_item:
  assumes "portable i out e (x # items)" "i \<longrightarrow> c_stdin c = None" "out \<longrightarrow> c_stdout c = None" "e \<longrightarrow> c_stderr c = None"
    and "p_current p = Some (Command c)" "p_state p = COMMAND"
  shows "foldR parse_step (item_tokens x) p = Inr (p\<lparr>p_current := Some (Command (add_item x c))\<rparr>)"
  using assms
  by (cases x) (auto simp: parse_step.simps command_step_def shell_ops_def set_stdin_def set_stdout_def set_stderr_def)

lemma portable_rest:
  assumes "portable i out e (x # items)" "i \<longrightarrow> c_stdin c = None" "out \<longrightarrow> c_stdout c = None" "e \<longrightarrow> c_stderr c = None"
  shows "\<exists>i' out' e'. portable i' out' e' items \<and> (i' \<longrightarrow> c_stdin (add_item x c) = None)
    \<and> (out' \<longrightarrow> c_stdout (add_item x c) = None) \<and> (e' \<longrightarrow> c_stderr (add_item x c) = None)"
proof (cases x)
  case (SArg w)
  then show ?thesis using assms by (intro exI [of _ i] exI [of _ out] exI [of _ e]) simp
next
  case (SIn f)
  then show ?thesis using assms by (intro exI [of _ False] exI [of _ out] exI [of _ e]) simp
next
  case (SOut f)
  then show ?thesis using assms by (intro exI [of _ i] exI [of _ False] exI [of _ e]) simp
next
  case (SErr f)
  then show ?thesis using assms by (intro exI [of _ i] exI [of _ out] exI [of _ False]) simp
next
  case SErrOut
  then show ?thesis using assms by (intro exI [of _ i] exI [of _ False] exI [of _ False]) simp
qed

lemma parse_items:
  assumes "portable i out e items" "i \<longrightarrow> c_stdin c = None" "out \<longrightarrow> c_stdout c = None" "e \<longrightarrow> c_stderr c = None"
    and "p_current p = Some (Command c)" "p_state p = COMMAND"
  shows "foldR parse_step (concat (map item_tokens items)) p = Inr (p\<lparr>p_current := Some (Command (fold add_item items c))\<rparr>)"
  using assms
proof (induction items arbitrary: i out e c p)
  case (Cons x items)
  obtain i' out' e' where r: "portable i' out' e' items" "i' \<longrightarrow> c_stdin (add_item x c) = None"
    "out' \<longrightarrow> c_stdout (add_item x c) = None" "e' \<longrightarrow> c_stderr (add_item x c) = None"
    using portable_rest [OF Cons.prems(1-4)] by blast
  show ?case using parse_item [OF Cons.prems] Cons.IH [OF r, of "p\<lparr>p_current := Some (Command (add_item x c))\<rparr>"] Cons.prems(6)
    by (simp add: foldR_append)
qed simp

lemma parse_assigns:
  "list_all (\<lambda>(k, v). env_var_match (k @ ''='' @ v) = Some (k, v)) as \<Longrightarrow> p_state p = BEGIN \<Longrightarrow>
   foldR parse_step (map (\<lambda>(k, v). k @ ''='' @ v) as) p = Inr (p\<lparr>p_env_vars := fold (\<lambda>(k, v). dset k v) as (p_env_vars p)\<rparr>)"
  by (induction as arbitrary: p) (auto simp: parse_step.simps begin_step_def)

lemma parse_simple:
  assumes "portable_command pin pout c" "p_state p = BEGIN" "p_current p = None" "p_env_vars p = []"
  shows "foldR parse_step (simple_tokens c) p = Inr (p\<lparr>p_current := Some (Command (command_of c)), p_state := COMMAND\<rparr>)"
proof -
  define env where "env = fold (\<lambda>(k, v). dset k v) (sc_assigns c) []"
  have "foldR parse_step (map (\<lambda>(k, v). k @ ''='' @ v) (sc_assigns c)) p = Inr (p\<lparr>p_env_vars := env\<rparr>)"
    using parse_assigns [of "sc_assigns c" p] assms by (simp add: env_def portable_command_def)
  moreover have "parse_step (sc_name c) (p\<lparr>p_env_vars := env\<rparr>)
      = Inr (p\<lparr>p_current := Some (Command (new_command (sc_name c) env)), p_env_vars := [], p_state := COMMAND\<rparr>)"
    using assms by (simp add: parse_step.simps begin_step_def portable_command_def)
  moreover have "foldR parse_step (concat (map item_tokens (sc_items c)))
        (p\<lparr>p_current := Some (Command (new_command (sc_name c) env)), p_env_vars := [], p_state := COMMAND\<rparr>)
      = Inr (p\<lparr>p_current := Some (Command (command_of c)), p_env_vars := [], p_state := COMMAND\<rparr>)"
    using parse_items [of "\<not> pin" "\<not> pout" True "sc_items c" "new_command (sc_name c) env"] assms(1)
    by (simp add: portable_command_def command_of_def env_def new_command_def)
  ultimately show ?thesis using assms(4) by (simp add: simple_tokens_def foldR_append)
qed

lemma stdout_kept: "portable i False e items \<Longrightarrow> c_stdout (fold add_item items c) = c_stdout c"
proof (induction i "False" e items arbitrary: c rule: portable.induct)
qed auto

lemma piped_stdout: "portable_command pin True c \<Longrightarrow> c_stdout (command_of c) = None"
  using stdout_kept [of "\<not> pin" True "sc_items c"] by (simp add: portable_command_def command_of_def new_command_def)

lemma pipe_nodes_Cons: "cs \<noteq> [] \<Longrightarrow> pipe_nodes (c # cs) = Command c # Pipe # pipe_nodes cs"
  by (cases cs) (simp_all add: pipe_nodes_def)

lemma last_node: "\<exists>d. last (pipe_nodes cs) = Command d \<and> pipe_nodes cs \<noteq> []"
proof (cases "tl cs" rule: rev_cases)
  case (snoc ds d)
  then show ?thesis by (auto simp: pipe_nodes_def intro!: exI [of _ d])
qed (simp add: pipe_nodes_def)

lemma pipeline_of_nonempty: "pipeline_of cs = [] \<longleftrightarrow> cs = []"
  by (cases cs) (simp_all add: pipeline_of_def)

text \<open>After a pipeline its last command is open and the nodes before it are committed.\<close>

definition after_nodes :: "node list \<Rightarrow> parser \<Rightarrow> parser" where
  "after_nodes ns p = p\<lparr>p_current := Some (last ns), p_pipeline := p_pipeline p @ butlast ns, p_state := COMMAND\<rparr>"

lemma parse_pipeline:
  assumes "portable_pipeline pin cs" "cs \<noteq> []" "p_state p = BEGIN" "p_current p = None" "p_env_vars p = []"
  shows "foldR parse_step (pipeline_tokens cs) p = Inr (after_nodes (pipe_nodes (pipeline_of cs)) p)"
  using assms
proof (induction cs arbitrary: p pin rule: pipeline_tokens.induct)
  case (2 c)
  then show ?case using parse_simple [of pin False c p] by (simp add: pipeline_of_def pipe_nodes_def after_nodes_def)
next
  case (3 c d cs)
  define q where "q = p\<lparr>p_pipeline := p_pipeline p @ [Command (command_of c\<lparr>c_stdout := Some PIPE\<rparr>), Pipe], p_state := BEGIN, p_current := None\<rparr>"
  have c: "portable_command pin True c" "portable_pipeline True (d # cs)" using 3(2) by simp_all
  have "parse_step ''|'' (p\<lparr>p_current := Some (Command (command_of c)), p_state := COMMAND\<rparr>) = Inr q"
    using piped_stdout [OF c(1)] by (simp add: parse_step.simps command_step_def set_stdout_def commit_op_def commit_command_def q_def)
  then have "foldR parse_step (pipeline_tokens (c # d # cs)) p = foldR parse_step (pipeline_tokens (d # cs)) q"
    using parse_simple [OF c(1) 3(4-6)] by (simp only: pipeline_tokens.simps foldR_append bindR_simps foldR.simps)
  also have "\<dots> = Inr (after_nodes (pipe_nodes (pipeline_of (d # cs))) q)"
    by (rule 3(1) [OF c(2)]) (simp_all add: q_def 3(6))
  also have "after_nodes (pipe_nodes (pipeline_of (d # cs))) q = after_nodes (pipe_nodes (pipeline_of (c # d # cs))) p"
  proof -
    have "pipe_nodes (pipeline_of (c # d # cs)) = Command (command_of c\<lparr>c_stdout := Some PIPE\<rparr>) # Pipe # pipe_nodes (pipeline_of (d # cs))"
      using pipeline_of_nonempty [of "d # cs"] by (simp add: pipeline_of_def pipe_nodes_Cons)
    moreover have "pipe_nodes (pipeline_of (d # cs)) \<noteq> []" by (simp add: pipe_nodes_def)
    ultimately show ?thesis by (simp add: after_nodes_def q_def)
  qed
  finally show ?case .
qed simp

lemma parse_rest:
  assumes "\<forall>x \<in> set ops. (fst x = And \<or> fst x = Or) \<and> snd x \<noteq> [] \<and> portable_pipeline False (snd x)"
    and "p_state p = COMMAND" "p_current p = Some (Command c)" "p_env_vars p = []"
  shows "\<exists>q d. foldR parse_step (concat (map (\<lambda>(op, cs). op_token op # pipeline_tokens cs) ops)) p = Inr q \<and> p_current q = Some d
    \<and> p_pipeline q @ [d] = p_pipeline p @ Command c # concat (map (\<lambda>(op, cs). op # pipe_nodes (pipeline_of cs)) ops)"
  using assms
proof (induction ops arbitrary: p c)
  case (Cons x ops)
  obtain op cs where x: "x = (op, cs)" by (cases x)
  have h: "op = And \<or> op = Or" "cs \<noteq> []" "portable_pipeline False cs" using Cons.prems(1) x by auto
  define q where "q = p\<lparr>p_pipeline := p_pipeline p @ [Command c, op], p_current := None, p_state := BEGIN\<rparr>"
  have step: "parse_step (op_token op) p = Inr q"
    using h(1) Cons.prems(2,3) by (auto simp: op_token_def parse_step.simps command_step_def commit_op_def commit_command_def q_def)
  define ns where "ns = pipe_nodes (pipeline_of cs)"
  have pl: "foldR parse_step (pipeline_tokens cs) q = Inr (after_nodes ns q)"
    unfolding ns_def using Cons.prems(4) by (intro parse_pipeline [OF h(3,2)]) (simp_all add: q_def)
  obtain d where d: "last ns = Command d" "ns \<noteq> []" using last_node [of "pipeline_of cs"] by (auto simp: ns_def)
  obtain q2 d2 where q2: "foldR parse_step (concat (map (\<lambda>(op, cs). op_token op # pipeline_tokens cs) ops)) (after_nodes ns q) = Inr q2"
    "p_current q2 = Some d2" "p_pipeline q2 @ [d2] = p_pipeline (after_nodes ns q) @ Command d # concat (map (\<lambda>(op, cs). op # pipe_nodes (pipeline_of cs)) ops)"
    using Cons.IH [of "after_nodes ns q" d] Cons.prems(1,4) d(1) by (auto simp: after_nodes_def q_def)
  have "p_pipeline (after_nodes ns q) @ [Command d] = p_pipeline p @ Command c # op # ns"
    using append_butlast_last_id [OF d(2)] d(1) by (simp add: after_nodes_def q_def)
  then have "p_pipeline q2 @ [d2] = p_pipeline p @ Command c # concat (map (\<lambda>(op, cs). op # pipe_nodes (pipeline_of cs)) (x # ops))"
    using q2(3) by (simp add: x ns_def)
  then show ?case using q2(1,2) step pl by (auto simp: x foldR_append)
qed auto

lemma parse_list:
  assumes "portable_pipeline False cs" "cs \<noteq> []"
    and "\<forall>x \<in> set ops. (fst x = And \<or> fst x = Or) \<and> snd x \<noteq> [] \<and> portable_pipeline False (snd x)"
  shows "parse (list_tokens cs ops) = Inr (list_nodes (pipeline_of cs) (map (\<lambda>(op, cs). (op, pipeline_of cs)) ops))"
proof -
  define ns where "ns = pipe_nodes (pipeline_of cs)"
  have pl: "foldR parse_step (pipeline_tokens cs) parser_init = Inr (after_nodes ns parser_init)"
    unfolding ns_def by (rule parse_pipeline [OF assms(1,2)]) (simp_all add: parser_init_def)
  obtain d where d: "last ns = Command d" "ns \<noteq> []" using last_node [of "pipeline_of cs"] by (auto simp: ns_def)
  obtain q e where q: "foldR parse_step (concat (map (\<lambda>(op, cs). op_token op # pipeline_tokens cs) ops)) (after_nodes ns parser_init) = Inr q"
    "p_current q = Some e" "p_pipeline q @ [e] = butlast ns @ Command d # concat (map (\<lambda>(op, cs). op # pipe_nodes (pipeline_of cs)) ops)"
    using parse_rest [OF assms(3), of "after_nodes ns parser_init" d] d by (auto simp: after_nodes_def parser_init_def)
  have "butlast ns @ [Command d] = ns" using append_butlast_last_id [OF d(2)] d(1) by simp
  then have "p_pipeline q @ [e] = list_nodes (pipeline_of cs) (map (\<lambda>(op, cs). (op, pipeline_of cs)) ops)"
    using q(3) by (simp add: list_nodes_def ns_def comp_def case_prod_unfold)
  then show ?thesis using q(1,2) pl by (simp add: parse_def list_tokens_def foldR_append commit_command_def)
qed

declare parse_step.simps [simp]

subsection \<open>The processes are those of POSIX\<close>

definition agree :: "bool \<Rightarrow> bool \<Rightarrow> command \<Rightarrow> fd_table \<Rightarrow> bool" where
  "agree pin pout c t \<longleftrightarrow> fd_in t = (if pin then FromPrev else case c_stdin c of None \<Rightarrow> Shell 0 | Some f \<Rightarrow> Reads f)
     \<and> fd_out t = (if pout then ToNext else popen_out (c_stdout c) 1 (Shell 1)) \<and> fd_err t = popen_out (c_stderr c) 2 (fd_out t)"

lemma agree_items:
  assumes "portable i out e items" "i \<longrightarrow> \<not> pin" "out \<longrightarrow> \<not> pout \<and> c_stderr c \<noteq> Some STDOUT" "agree pin pout c t"
  shows "agree pin pout (fold add_item items c) (fold redirect_fds items t)"
  using assms
proof (induction i out e items arbitrary: c t rule: portable.induct)
  case (4 i out e f r)
  have "popen_out (c_stderr c) 2 (Writes 1 f) = popen_out (c_stderr c) 2 (fd_out t)" using 4(2,4) by (intro popen_out_other) simp
  then have "agree pin pout (add_item (SOut f) c) (redirect_fds (SOut f) t)" using 4(2,4,5) by (simp add: agree_def)
  then show ?case using 4 by simp
qed (auto simp: agree_def)

lemma argv_items: "c_argv (fold add_item items c) = c_argv c @ concat (map (\<lambda>i. case i of SArg w \<Rightarrow> [w] | _ \<Rightarrow> []) items)"
  by (induction items arbitrary: c) (auto split: item.splits elim: add_item.elims)

lemma env_items: "c_env_vars (fold add_item items c) = c_env_vars c"
proof (induction items arbitrary: c)
  case (Cons x items)
  then show ?case by (cases x) simp_all
qed simp

lemma dget_dset: "dget (dset k v d) x = (if x = k then Some v else dget d x)"
  by (simp add: dget_def dset_def update_conv')

lemma dget_assigns: "dget (fold (\<lambda>(k, v). dset k v) as d) = dget d ++ map_of (rev as)"
  by (induction as arbitrary: d) (auto simp: map_add_def fun_eq_iff dget_dset split: option.splits)

lemma process_of_command:
  assumes "portable_command pin pout c"
  shows "process_of (start (if pout then command_of c\<lparr>c_stdout := Some PIPE\<rparr> else command_of c) pin ''.'') = posix_process pin pout c"
proof -
  let ?c0 = "new_command (sc_name c) (fold (\<lambda>(k, v). dset k v) (sc_assigns c) [])"
  have "agree pin pout ?c0 (piped_fds pin pout)" by (simp add: agree_def piped_fds_def new_command_def)
  then have a: "agree pin pout (command_of c) (fold redirect_fds (sc_items c) (piped_fds pin pout))"
    using assms agree_items [of "\<not> pin" "\<not> pout" True "sc_items c" pin pout ?c0] by (simp add: portable_command_def command_of_def new_command_def)
  have v: "c_argv (command_of c) = pr_argv (posix_process pin pout c)"
    by (simp add: command_of_def argv_items posix_process_def new_command_def)
  have "c_env_vars (command_of c) = fold (\<lambda>(k, v). dset k v) (sc_assigns c) []"
    by (simp add: command_of_def env_items new_command_def)
  then have e: "dget (c_env_vars (command_of c)) = map_of (rev (sc_assigns c))"
    using dget_assigns [of "sc_assigns c" "[]"] by (simp add: dget_def [abs_def])
  define t where "t = fold redirect_fds (sc_items c) (piped_fds pin pout)"
  have fds: "fd_in t = (if pin then FromPrev else case c_stdin (command_of c) of None \<Rightarrow> Shell 0 | Some f \<Rightarrow> Reads f)"
    "fd_out t = (if pout then ToNext else popen_out (c_stdout (command_of c)) 1 (Shell 1))" "fd_err t = popen_out (c_stderr (command_of c)) 2 (fd_out t)"
    using a by (simp_all add: t_def agree_def)
  have "popen_in (sp_stdin (start d pin ''.'')) = (if pin then FromPrev else case c_stdin d of None \<Rightarrow> Shell 0 | Some f \<Rightarrow> Reads f)" for d
    by (simp add: start_def popen_in_def split: option.splits)
  then have "pr_fds (process_of (start (if pout then command_of c\<lparr>c_stdout := Some PIPE\<rparr> else command_of c) pin ''.'')) = t"
    using fds by (intro fd_table.equality) (simp_all add: process_of_def Let_def start_def)
  moreover have "pr_argv (process_of (start (if pout then command_of c\<lparr>c_stdout := Some PIPE\<rparr> else command_of c) pin ''.'')) = c_argv (command_of c)"
    "pr_env (process_of (start (if pout then command_of c\<lparr>c_stdout := Some PIPE\<rparr> else command_of c) pin ''.'')) = dget (c_env_vars (command_of c))"
    "pr_cwd (process_of (start (if pout then command_of c\<lparr>c_stdout := Some PIPE\<rparr> else command_of c) pin ''.'')) = None"
    by (simp_all add: process_of_def Let_def start_def)
  ultimately show ?thesis using v e by (intro process.equality) (simp_all add: posix_process_def t_def)
qed

lemma process_of_pipeline_tail:
  "portable_pipeline True cs \<Longrightarrow> map process_of (map (\<lambda>c. start c True ''.'') (pipeline_of cs)) = posix_pipeline True cs"
proof (induction cs)
  case (Cons c cs)
  then show ?case using process_of_command [of True "cs \<noteq> []" c] by (auto simp: pipeline_of_def)
qed (simp add: pipeline_of_def)

lemma process_of_pipeline:
  "portable_pipeline False cs \<Longrightarrow> map process_of (pipe_spawns (pipeline_of cs)) = posix_pipeline False cs"
proof (cases cs)
  case (Cons c ds)
  assume "portable_pipeline False cs"
  then show ?thesis using process_of_command [of False "ds \<noteq> []" c] process_of_pipeline_tail [of ds]
    by (auto simp: Cons pipeline_of_def pipe_spawns_Cons)
qed (simp add: pipeline_of_def pipe_spawns_def)

lemma pipeline_status:
  "portable_pipeline False cs \<Longrightarrow> cs \<noteq> [] \<Longrightarrow> st (process_of (last (pipe_spawns (pipeline_of cs)))) = st (last (posix_pipeline False cs))"
  using process_of_pipeline [of cs] pipe_spawns_nonempty [of "pipeline_of cs"] pipeline_of_nonempty [of cs] by (metis last_map)

lemma list_spawns_posix:
  "\<forall>x \<in> set ops. snd x \<noteq> [] \<and> portable_pipeline False (snd x) \<Longrightarrow>
   list_spawns (\<lambda>sp. st (process_of sp)) v (map (\<lambda>(op, cs). (op, pipeline_of cs)) ops) = (ps, r) \<Longrightarrow>
   posix_ops st v ops = (map process_of ps, r)"
proof (induction ops arbitrary: v ps r)
  case (Cons x ops)
  obtain op cs where x: "x = (op, cs)" by (cases x)
  have h: "cs \<noteq> []" "portable_pipeline False cs" using Cons.prems(1) x by auto
  show ?case
  proof (cases "(op = And \<and> v = 0) \<or> (op = Or \<and> v \<noteq> 0)")
    case True
    obtain qs s where qs: "list_spawns (\<lambda>sp. st (process_of sp)) (st (last (posix_pipeline False cs))) (map (\<lambda>(op, cs). (op, pipeline_of cs)) ops) = (qs, s)"
      by fastforce
    then have "ps = pipe_spawns (pipeline_of cs) @ qs" "r = s"
      using Cons.prems(2) True pipeline_status [OF h(2,1), of st] by (auto simp: x)
    then show ?thesis using Cons.IH [OF _ qs] Cons.prems(1) True process_of_pipeline [OF h(2)] by (auto simp: x)
  next
    case False
    then show ?thesis using Cons by (auto simp: x)
  qed
qed simp


definition plain :: "string \<Rightarrow> simple_command" where
  "plain name = \<lparr>sc_assigns = [], sc_name = name, sc_items = []\<rparr>"


text \<open>Where they differ: input that is redirected behind a pipe is ignored, errors follow the output to a file that it is
  redirected to later, and a list ends at the first operator that does not go on.\<close>

definition started_by :: "string \<Rightarrow> process list" where
  "started_by text = (case parse_text text of Inl e \<Rightarrow> [] | Inr ns \<Rightarrow> map process_of (fst (run_pipeline (\<lambda>n sp. 0) False ns)))"

lemma pipe_wins:
  "map (\<lambda>p. fd_in (pr_fds p)) (started_by ''a | b < f'') = [Shell 0, FromPrev]"
  "map (\<lambda>p. fd_in (pr_fds p)) (posix_pipeline False [plain ''a'', (plain ''b'')\<lparr>sc_items := [SIn ''f'']\<rparr>]) = [Shell 0, Reads ''f'']"
  by code_simp+

lemma errors_follow:
  "map (\<lambda>p. fd_err (pr_fds p) = fd_out (pr_fds p)) (started_by ''a 2>&1 > f'') = [True]"
  "map (\<lambda>p. fd_err (pr_fds p) = fd_out (pr_fds p)) (posix_pipeline False [(plain ''a'')\<lparr>sc_items := [SErrOut, SOut ''f'']\<rparr>]) = [False]"
  by code_simp+

lemma list_ends_early:
  "map pr_argv (started_by ''a || b && c'') = [[''a'']]"
  "map pr_argv (fst (posix_list (\<lambda>p. 0) [plain ''a''] [(Or, [plain ''b'']), (And, [plain ''c''])])) = [[''a''], [''c'']]"
  by code_simp+

end
