(* ===== verification/PatchSet.thy ===== *)
theory PatchSet
  imports Regex TraceRows
begin

text \<open>
  utils/check-style.py: patches as lists of chunks of lines, their reader and writer, the removal of
  changes in trailing white space, and the check itself. The objects of a chunk are shared between
  its source and its destination side, so the two sides are lists of positions into the chunk.
  uncrustify, patch and git are other programs and the diff of two files is a parameter; a file is
  the list of its lines, each with its newline.
\<close>

subsection \<open>The configuration of uncrustify\<close>

definition double_quote :: char where
  "double_quote = char_of (34 :: nat)"

definition level0 :: "string list" where
  "level0 = [
     ''sp_func_proto_paren=Add'', ''sp_func_def_paren=Add'', ''sp_func_call_paren=Add'',
     ''sp_after_semi_for=Ignore'', ''sp_before_sparen=Ignore'', ''sp_before_ellipsis=Remove'',
     ''sp_type_func=Ignore'', ''sp_after_type=Ignore'', ''nl_class_leave_one_liners=True'',
     ''nl_enum_leave_one_liners=True'', ''nl_func_leave_one_liners=True'',
     ''nl_assign_leave_one_liners=True'', ''nl_collapse_empty_body=True'',
     ''nl_getset_leave_one_liners=True'', ''nl_if_leave_one_liners=True'',
     ''nl_fdef_brace=Ignore'', ''# finally, indentation configuration'', ''indent_with_tabs=0'',
     ''indent_namespace=false'', ''indent_columns=2'', ''indent_brace=2'',
     ''indent_case_brace=indent_columns'', ''indent_class=true'', ''indent_class_colon=True'',
     ''indent_switch_case=indent_columns'', ''# alignment'', ''indent_align_assign=False'',
     ''align_left_shift=True'', ''# comment reformating disabled'',
     ''cmt_reflow_mode=1 # do not touch comments at all'',
     ''cmt_indent_multi=False # really, do not touch them'',
     ''disable_processing_cmt= '' @ [double_quote] @ '' *NS_CHECK_STYLE_OFF*'' @ [double_quote],
     ''enable_processing_cmt=  '' @ [double_quote] @ '' *NS_CHECK_STYLE_ON*'' @ [double_quote]]"

definition level1 :: "string list" where
  "level1 = [
     ''# extra spaces here and there'', ''sp_brace_typedef=Add'', ''sp_enum_assign=Add'',
     ''sp_before_sparen=Add'', ''sp_after_semi_for=Add'', ''sp_arith=Add'', ''sp_assign=Add'',
     ''sp_compare=Add'', ''sp_func_class_paren=Add'', ''sp_after_type=Add'', ''sp_type_func=Add'',
     ''sp_angle_paren=Add'']"

definition level2 :: "string list" where
  "level2 = [
     ''nl_if_brace=Add'', ''nl_brace_else=Add'', ''nl_elseif_brace=Add'', ''nl_else_brace=Add'',
     ''nl_while_brace=Add'', ''nl_do_brace=Add'', ''nl_for_brace=Add'', ''nl_brace_while=Add'',
     ''nl_switch_brace=Add'', ''nl_after_case=True'', ''nl_namespace_brace=ignore'',
     ''nl_after_brace_open=True'', ''nl_class_leave_one_liners=False'',
     ''nl_enum_leave_one_liners=False'', ''nl_func_leave_one_liners=False'',
     ''nl_if_leave_one_liners=False'', ''nl_class_colon=Ignore'', ''nl_before_access_spec=2'',
     ''nl_after_access_spec=0'', ''indent_access_spec=-indent_columns'',
     ''nl_after_semicolon=True'', ''pos_class_colon=Lead'', ''pos_class_comma=Trail'',
     ''indent_constr_colon=true'', ''pos_bool=Lead'', ''nl_class_init_args=Add'',
     ''nl_template_class=Add'', ''nl_class_brace=Add'', ''# does not work very well'',
     ''nl_func_type_name=Ignore'', ''nl_func_scope_name=Ignore'',
     ''nl_func_type_name_class=Ignore'', ''nl_func_proto_type_name=Ignore'',
     ''# function'' @ [char_of (92 :: nat)] @ ''n('', ''nl_func_paren=Remove'',
     ''nl_fdef_brace=Add'', ''nl_struct_brace=Add'', ''nl_enum_brace=Add'', ''nl_union_brace=Add'',
     ''mod_full_brace_do=Add'', ''mod_full_brace_for=Add'', ''mod_full_brace_if=Add'',
     ''mod_full_brace_while=Add'', ''mod_full_brace_for=Add'', ''mod_remove_extra_semicolon=True'',
     ''# max code width'', ''#code_width=128'', ''#ls_for_split_full=True'',
     ''#ls_func_split_full=True'', ''nl_cpp_lambda_leave_one_liners=True'']"

definition uncrustify_config_file :: "int \<Rightarrow> string list" where
  "uncrustify_config_file level = [[]] @ level0 @ (if level \<ge> 1 then [[]] @ level1 else [])
     @ (if level \<ge> 2 then [[]] @ level2 else [])"

subsection \<open>Lines, chunks and patches\<close>

datatype line_type = Untyped | SRC | DST | BOTH

record chunk_line =
  cl_type :: line_type
  cl_text :: string

definition is_src :: "chunk_line \<Rightarrow> bool" where
  "is_src l \<longleftrightarrow> cl_type l = SRC \<or> cl_type l = BOTH"

definition is_dst :: "chunk_line \<Rightarrow> bool" where
  "is_dst l \<longleftrightarrow> cl_type l = DST \<or> cl_type l = BOTH"

definition append_to_line :: "string \<Rightarrow> chunk_line \<Rightarrow> chunk_line" where
  "append_to_line s l = l\<lparr>cl_text := cl_text l @ s\<rparr>"

definition newline :: string where
  "newline = [char_of (10 :: nat)]"

definition write_line :: "chunk_line \<Rightarrow> string result" where
  "write_line l = (case cl_type l of
      SRC \<Rightarrow> Inr (''-'' @ cl_text l @ newline)
    | DST \<Rightarrow> Inr (''+'' @ cl_text l @ newline)
    | BOTH \<Rightarrow> Inr ('' '' @ cl_text l @ newline)
    | Untyped \<Rightarrow> Inl GenericError)"

record chunk =
  ck_lines :: "chunk_line list"
  ck_src_pos :: int
  ck_dst_pos :: int

text \<open>The positions of the lines of a side.\<close>

definition src_side :: "chunk_line list \<Rightarrow> nat list" where
  "src_side ls = filter (\<lambda>i. is_src (ls ! i)) [0..<length ls]"

definition dst_side :: "chunk_line list \<Rightarrow> nat list" where
  "dst_side ls = filter (\<lambda>i. is_dst (ls ! i)) [0..<length ls]"

definition src_len :: "chunk \<Rightarrow> int" where
  "src_len c = int (length (src_side (ck_lines c)))"

definition dst_len :: "chunk \<Rightarrow> int" where
  "dst_len c = int (length (dst_side (ck_lines c)))"

definition chunk_header :: "chunk \<Rightarrow> string" where
  "chunk_header c = ''@@ -'' @ show_int (ck_src_pos c) @ '','' @ show_int (src_len c) @ '' +''
     @ show_int (ck_dst_pos c) @ '','' @ show_int (dst_len c) @ '' @@'' @ newline"

text \<open>What is written is the list of the lines.\<close>

definition write_chunk :: "chunk \<Rightarrow> string list result" where
  "write_chunk c = bindR (mapR write_line (ck_lines c)) (\<lambda>ls. Inr (chunk_header c # ls))"

record patch =
  pa_src :: string
  pa_dst :: string
  pa_chunks :: "chunk list"

definition write_patch :: "patch \<Rightarrow> string list result" where
  "write_patch p = bindR (mapR write_chunk (pa_chunks p)) (\<lambda>cs.
     Inr ((''--- '' @ pa_src p @ newline) # (''+++ '' @ pa_dst p @ newline) # concat cs))"

subsection \<open>Reading a patch set\<close>

definition rest_of_line :: "string \<Rightarrow> regex" where
  "rest_of_line w = lit w @ group [many not_newline] @ [Eos]"

definition chunk_start_rx :: regex where
  "chunk_start_rx = lit ''@@ -'' @ group [some1 is_digit] @ lit '','' @ group [some1 is_digit]
     @ lit '' +'' @ group [some1 is_digit] @ lit '','' @ group [some1 is_digit] @ lit '' @@''"

definition rest_match :: "string \<Rightarrow> string \<Rightarrow> string option" where
  "rest_match w line = (case re_match (rest_of_line w) line of Some [Some t] \<Rightarrow> Some t | _ \<Rightarrow> None)"

definition chunk_match :: "string \<Rightarrow> (string \<times> string) option" where
  "chunk_match line = (case re_match chunk_start_rx line of
      Some [Some a, Some b, Some c, Some d] \<Rightarrow> Some (a, c) | _ \<Rightarrow> None)"

text \<open>The patches read; the current patch is the last one. The current chunk is kept as its
  position: it stays the old one when a new patch begins.\<close>

record reader =
  rd_patchset :: "patch list"
  rd_chunk :: "(nat \<times> nat) option"

definition set_last :: "(patch \<Rightarrow> patch) \<Rightarrow> patch list \<Rightarrow> patch list" where
  "set_last f ps = butlast ps @ [f (last ps)]"

definition add_line :: "chunk_line \<Rightarrow> reader \<Rightarrow> reader result" where
  "add_line l r = (case rd_chunk r of None \<Rightarrow> Inl UnboundLocalError
     | Some (i, j) \<Rightarrow> Inr (r\<lparr>rd_patchset := (rd_patchset r)[i := (rd_patchset r ! i)\<lparr>pa_chunks :=
         (pa_chunks (rd_patchset r ! i))[j := (pa_chunks (rd_patchset r ! i) ! j)
           \<lparr>ck_lines := ck_lines (pa_chunks (rd_patchset r ! i) ! j) @ [l]\<rparr>]\<rparr>]\<rparr>))"

definition start_chunk :: "string \<Rightarrow> string \<Rightarrow> reader \<Rightarrow> reader result" where
  "start_chunk a c r = (case (py_int a, py_int c) of
      (Some src_pos, Some dst_pos) \<Rightarrow>
        if rd_patchset r = [] then Inl AttributeError
        else Inr \<lparr>rd_patchset = set_last (\<lambda>p. p\<lparr>pa_chunks := pa_chunks p @ [\<lparr>ck_lines = [],
               ck_src_pos = src_pos, ck_dst_pos = dst_pos\<rparr>]\<rparr>) (rd_patchset r),
             rd_chunk = Some (length (rd_patchset r) - 1, length (pa_chunks (last (rd_patchset r))))\<rparr>
    | _ \<Rightarrow> Inl ValueError)"

definition read_line :: "string \<Rightarrow> reader \<Rightarrow> reader result" where
  "read_line line r =
     (case rest_match ''--- '' line of
        Some t \<Rightarrow> Inr (r\<lparr>rd_patchset := rd_patchset r @ [\<lparr>pa_src = t, pa_dst = [], pa_chunks = []\<rparr>]\<rparr>)
      | None \<Rightarrow> (case rest_match ''+++ '' line of
        Some t \<Rightarrow> if rd_patchset r = [] then Inl AttributeError
          else Inr (r\<lparr>rd_patchset := set_last (\<lambda>p. p\<lparr>pa_dst := t\<rparr>) (rd_patchset r)\<rparr>)
      | None \<Rightarrow> (case chunk_match line of
        Some (a, c) \<Rightarrow> start_chunk a c r
      | None \<Rightarrow> (case rest_match ''-'' line of
        Some t \<Rightarrow> add_line \<lparr>cl_type = SRC, cl_text = t\<rparr> r
      | None \<Rightarrow> (case rest_match ''+'' line of
        Some t \<Rightarrow> add_line \<lparr>cl_type = DST, cl_text = t\<rparr> r
      | None \<Rightarrow> (case rest_match '' '' line of
        Some t \<Rightarrow> add_line \<lparr>cl_type = BOTH, cl_text = t\<rparr> r
      | None \<Rightarrow> Inl GenericError))))))"

definition parse_patchset :: "string list \<Rightarrow> patch list result" where
  "parse_patchset lines = bindR (foldR read_line lines \<lparr>rd_patchset = [], rd_chunk = None\<rparr>)
     (\<lambda>r. Inr (rd_patchset r))"

subsection \<open>Changes of trailing white space\<close>

definition blank_char :: "char \<Rightarrow> bool" where
  "blank_char c \<longleftrightarrow> c = CHR '' '' \<or> c = char_of (9 :: nat)"

definition whitespace_match :: "string \<Rightarrow> (string \<times> string) option" where
  "whitespace_match s = (case re_match (group [many not_newline] @ group [some1 blank_char] @ [Eos]) s of
      Some [Some a, Some b] \<Rightarrow> Some (a, b) | _ \<Rightarrow> None)"

text \<open>The two sides are walked together; the flag says whether the destination ran out, an
  IndexError that ends the whole function.\<close>

fun trail_loop :: "nat list \<Rightarrow> nat list \<Rightarrow> chunk_line list \<Rightarrow> chunk_line list \<times> bool" where
  "trail_loop [] ds ls = (ls, False)"
| "trail_loop (s # ss) [] ls = (ls, True)"
| "trail_loop (s # ss) (d # ds) ls = trail_loop ss ds
     (case whitespace_match (cl_text (ls ! s)) of
        Some (a, b) \<Rightarrow> if a = cl_text (ls ! d) then ls[d := append_to_line b (ls ! d)] else ls
      | None \<Rightarrow> ls)"

definition trail_chunk :: "chunk \<Rightarrow> chunk \<times> bool" where
  "trail_chunk c = (let (ls, raised) = trail_loop (src_side (ck_lines c)) (dst_side (ck_lines c)) (ck_lines c)
     in (c\<lparr>ck_lines := ls\<rparr>, raised))"

fun trail_chunks :: "chunk list \<Rightarrow> chunk list \<times> bool" where
  "trail_chunks [] = ([], False)"
| "trail_chunks (c # cs) = (let (c', raised) = trail_chunk c in
     if raised then (c' # cs, True) else (let (cs', r) = trail_chunks cs in (c' # cs', r)))"

fun trail_patches :: "patch list \<Rightarrow> patch list \<times> bool" where
  "trail_patches [] = ([], False)"
| "trail_patches (p # ps) = (let (cs, raised) = trail_chunks (pa_chunks p); p' = p\<lparr>pa_chunks := cs\<rparr> in
     if raised then (p' # ps, True) else (let (ps', r) = trail_patches ps in (p' # ps', r)))"

definition remove_trailing_whitespace_changes :: "string list \<Rightarrow> patch list result" where
  "remove_trailing_whitespace_changes lines =
     bindR (parse_patchset lines) (\<lambda>patchset. Inr (fst (trail_patches patchset)))"

subsection \<open>The check\<close>

text \<open>The programs outside: \<open>x_uncrustify\<close> with a configuration gives the formatted file, or \<open>None\<close> when
  it is not installed; \<open>x_diff\<close> the unified diff of two files under two names; \<open>x_patch\<close> applies a
  diff.\<close>

record externals =
  x_uncrustify :: "string list \<Rightarrow> string list \<Rightarrow> string list option"
  x_diff :: "string \<Rightarrow> string \<Rightarrow> string list \<Rightarrow> string list \<Rightarrow> string list"
  x_patch :: "string list \<Rightarrow> string list \<Rightarrow> string list"

text \<open>The diff is a generator: with \<open>debug\<close> the copy for the initial diff file uses it up.\<close>

definition final_diff :: "bool \<Rightarrow> int \<Rightarrow> string list \<Rightarrow> string list result" where
  "final_diff debug level diff = (let diff = (if debug then [] else diff) in
     if level < 3
     then bindR (remove_trailing_whitespace_changes diff) (\<lambda>patchset.
       case patchset of [] \<Rightarrow> Inr [] | p # _ \<Rightarrow> write_patch p)
     else Inr diff)"

definition indent :: "externals \<Rightarrow> string \<Rightarrow> string \<Rightarrow> string list \<Rightarrow> bool \<Rightarrow> int \<Rightarrow> string list result" where
  "indent x source output content debug level =
     (case x_uncrustify x (uncrustify_config_file level) content of
        None \<Rightarrow> Inl GenericError
      | Some formatted \<Rightarrow> bindR (final_diff debug level (x_diff x source output content formatted))
          (\<lambda>d. Inr (x_patch x d content)))"

text \<open>\<open>tmp f\<close> is the name of the temporary file for \<open>f\<close>. The result has the files, the text
  written and whether the style is correct.\<close>

definition indent_files :: "externals \<Rightarrow> (string \<Rightarrow> string) \<Rightarrow> (string \<Rightarrow> string list) \<Rightarrow> string list \<Rightarrow>
    bool \<Rightarrow> bool \<Rightarrow> int \<Rightarrow> bool \<Rightarrow> ((string \<Rightarrow> string list) \<times> string list \<times> bool) result" where
  "indent_files x tmp fs files diff debug level inplace =
     bindR (mapR (\<lambda>f. bindR (indent x f (tmp f) (fs f) debug level) (\<lambda>d. Inr (f, d))) files) (\<lambda>output.
       if inplace then Inr (fold (\<lambda>(src, dst) fs. fs(src := dst)) output fs, [], True)
       else (let failed = filter (\<lambda>(src, dst). fs src \<noteq> dst) output in
         if failed = [] then Inr (fs, [], True)
         else Inr (fs,
           (if \<not> diff
            then (''Found '' @ show_int (int (length failed)) @ '' badly indented files:'' @ newline)
                 # map (\<lambda>(src, dst). ''  '' @ src @ newline) failed
            else concat (map (\<lambda>(src, dst). x_diff x src (tmp src) (fs src) dst) failed)),
           False)))"

record options =
  o_debug :: bool
  o_level :: int
  o_git :: bool
  o_file :: string
  o_diff :: bool
  o_in_place :: bool

text \<open>The output of git: the top level directory as printed, and the lines of the changed files.\<close>

definition git_modified_files :: "string \<Rightarrow> string list \<Rightarrow> string list" where
  "git_modified_files root_dir names =
     (let files_changed = filter (\<lambda>i. endswith i ''.h'' \<or> endswith i ''.cc'') (map strip names)
      in map (\<lambda>filename. butlast root_dir @ ''/'' @ strip filename) files_changed)"

text \<open>The exit status with the files and the text written; any exception gives status 1.\<close>

definition run_as_main :: "externals \<Rightarrow> (string \<Rightarrow> string) \<Rightarrow> (string \<Rightarrow> string list) \<Rightarrow> (string \<Rightarrow> bool) \<Rightarrow>
    string \<Rightarrow> string list \<Rightarrow> options \<Rightarrow> (string \<Rightarrow> string list) \<times> string list \<times> int" where
  "run_as_main x tmp fs exists_file root_dir names opts =
     (let check = (\<lambda>files. case indent_files x tmp fs files (o_diff opts) (o_debug opts) (o_level opts) (o_in_place opts) of
            Inl e \<Rightarrow> (fs, [], 1)
          | Inr (fs', out, ok) \<Rightarrow> (fs', out, if ok then 0 else 1))
      in if o_git opts then check (git_modified_files root_dir names)
         else if o_file opts \<noteq> [] then
           (if \<not> exists_file (o_file opts) then (fs, [''file '' @ o_file opts @ '' does not exist'' @ newline], 1)
            else check [o_file opts])
         else (fs, [], 1))"

subsection \<open>Round trip\<close>

lemma startswith_snoc: "c \<notin> set w \<Longrightarrow> startswith (t @ [c]) w = startswith t w"
proof (cases "length w \<le> length t")
  case False
  assume "c \<notin> set w"
  moreover have "take (length w) (t @ [c]) = t @ [c]" "take (length w) t = t" using False by simp_all
  moreover have "t \<noteq> w" using False by auto
  ultimately show ?thesis by (auto simp: startswith_def)
qed (simp add: startswith_def)

lemma rest_match_hit: "char_of (10 :: nat) \<notin> set t \<Longrightarrow> rest_match w (w @ t @ newline) = Some t"
proof -
  assume t: "char_of (10 :: nat) \<notin> set t"
  have "rmatch (Close # [Eos]) newline ((t @ newline) # []) [] = Some [Some t]"
    by (simp add: newline_def)
  then have "rmatch (many not_newline # Close # [Eos]) (t @ newline) ((t @ newline) # []) [] = Some [Some t]"
    using t by (intro rep_greedy) (auto simp: list_all_iff not_newline_def newline_def)
  then have "rmatch (group [many not_newline] @ [Eos]) (t @ newline) [] [] = Some [Some t]"
    by (simp add: group_def)
  from rmatch_lit [OF this, of w] show ?thesis by (simp add: rest_match_def rest_of_line_def re_match_def)
qed

lemma rest_match_miss: "\<not> startswith line w \<Longrightarrow> rest_match w line = None"
  by (simp add: rest_match_def rest_of_line_def re_match_def rmatch_lit_fail)

lemma chunk_match_miss: "\<not> startswith line ''@@ -'' \<Longrightarrow> chunk_match line = None"
  by (simp add: chunk_match_def chunk_start_rx_def re_match_def rmatch_lit_fail)

lemma show_int_run: "0 \<le> n \<Longrightarrow> list_all is_digit (show_int n) \<and> show_int n \<noteq> []"
  using show_nat_digits [of n] by (simp add: show_int_def list_all_iff)

lemma chunk_match_hit:
  assumes "0 \<le> ck_src_pos c" "0 \<le> ck_dst_pos c"
  shows "chunk_match (chunk_header c) = Some (show_int (ck_src_pos c), show_int (ck_dst_pos c))"
proof -
  have l: "0 \<le> src_len c" "0 \<le> dst_len c" by (simp_all add: src_len_def dst_len_def)
  have nd: "\<not> is_digit (CHR '','')" "\<not> is_digit (CHR '' '')" by code_simp+
  have "re_match chunk_start_rx (chunk_header c) = Some [Some (show_int (ck_src_pos c)), Some (show_int (src_len c)),
      Some (show_int (ck_dst_pos c)), Some (show_int (dst_len c))]"
    unfolding re_match_def chunk_start_rx_def chunk_header_def append_assoc
    by (intro rmatch_lit rmatch_group_run rmatch_lit [of "[]", simplified])
       (use show_int_run assms l nd in auto)
  then show ?thesis by (simp add: chunk_match_def)
qed

text \<open>A line that can be written and read back: a removed line must not look like the header of a
  patch once its minus sign is in front, and an added one neither.\<close>

definition wf_line :: "chunk_line \<Rightarrow> bool" where
  "wf_line l \<longleftrightarrow> cl_type l \<noteq> Untyped \<and> char_of (10 :: nat) \<notin> set (cl_text l)
     \<and> (cl_type l = SRC \<longrightarrow> \<not> startswith (cl_text l) ''-- '')
     \<and> (cl_type l = DST \<longrightarrow> \<not> startswith (cl_text l) ''++ '')"

definition wf_chunk :: "chunk \<Rightarrow> bool" where
  "wf_chunk c \<longleftrightarrow> list_all wf_line (ck_lines c) \<and> 0 \<le> ck_src_pos c \<and> 0 \<le> ck_dst_pos c"

definition wf_patch :: "patch \<Rightarrow> bool" where
  "wf_patch p \<longleftrightarrow> char_of (10 :: nat) \<notin> set (pa_src p) \<and> char_of (10 :: nat) \<notin> set (pa_dst p)
     \<and> list_all wf_chunk (pa_chunks p)"

lemma startswith_Cons: "startswith (c # s) (d # w) \<longleftrightarrow> c = d \<and> startswith s w"
  by (auto simp: startswith_def)

lemma not_startswith_line:
  "\<not> startswith ((CHR ''-'') # t @ newline) ''--- '' \<longleftrightarrow> \<not> startswith t ''-- ''"
  "\<not> startswith ((CHR ''+'') # t @ newline) ''+++ '' \<longleftrightarrow> \<not> startswith t ''++ ''"
proof -
  have "char_of (10 :: nat) \<notin> set ''-- ''" "char_of (10 :: nat) \<notin> set ''++ ''" by code_simp+
  then show
    "\<not> startswith ((CHR ''-'') # t @ newline) ''--- '' \<longleftrightarrow> \<not> startswith t ''-- ''"
    "\<not> startswith ((CHR ''+'') # t @ newline) ''+++ '' \<longleftrightarrow> \<not> startswith t ''++ ''"
    by (simp_all only: startswith_Cons newline_def startswith_snoc simp_thms)
qed

lemma read_written_line:
  assumes "wf_line l" "write_line l = Inr s"
  shows "read_line s r = add_line l r"
proof -
  have n: "char_of (10 :: nat) \<notin> set (cl_text l)" using assms(1) by (simp add: wf_line_def)
  note hit = rest_match_hit [OF n, of "''-''"] rest_match_hit [OF n, of "''+''"] rest_match_hit [OF n, of "'' ''"]
  have l: "cl_type l = ty \<Longrightarrow> \<lparr>cl_type = ty, cl_text = cl_text l\<rparr> = l" for ty by simp
  show ?thesis
  proof (cases "cl_type l")
    case SRC
    then have "\<not> startswith s ''--- ''" "s = ''-'' @ cl_text l @ newline"
      using assms not_startswith_line by (auto simp: write_line_def wf_line_def)
    then show ?thesis using hit l [OF SRC]
      by (simp add: read_line_def rest_match_miss chunk_match_miss startswith_Cons)
  next
    case DST
    then have "\<not> startswith s ''+++ ''" "s = ''+'' @ cl_text l @ newline"
      using assms not_startswith_line by (auto simp: write_line_def wf_line_def)
    then show ?thesis using hit l [OF DST]
      by (simp add: read_line_def rest_match_miss chunk_match_miss startswith_Cons)
  next
    case BOTH
    then have "s = '' '' @ cl_text l @ newline" using assms by (auto simp: write_line_def)
    then show ?thesis using hit l [OF BOTH]
      by (simp add: read_line_def rest_match_miss chunk_match_miss startswith_Cons)
  next
    case Untyped
    then show ?thesis using assms by (simp add: wf_line_def)
  qed
qed

lemma record_eta:
  "\<lparr>ck_lines = ck_lines c, ck_src_pos = ck_src_pos c, ck_dst_pos = ck_dst_pos c\<rparr> = c"
  "\<lparr>pa_src = pa_src p, pa_dst = pa_dst p, pa_chunks = pa_chunks p\<rparr> = p"
  by (cases c, simp) (cases p, simp)

definition at_chunk :: "patch list \<Rightarrow> patch \<Rightarrow> chunk list \<Rightarrow> chunk \<Rightarrow> reader" where
  "at_chunk ps p cs k = \<lparr>rd_patchset = ps @ [p\<lparr>pa_chunks := cs @ [k]\<rparr>], rd_chunk = Some (length ps, length cs)\<rparr>"

lemma add_line_at: "add_line l (at_chunk ps p cs k) = Inr (at_chunk ps p cs (k\<lparr>ck_lines := ck_lines k @ [l]\<rparr>))"
  by (simp add: add_line_def at_chunk_def nth_append list_update_append)

lemma read_lines:
  assumes "list_all wf_line ls" "mapR write_line ls = Inr ss"
  shows "foldR read_line ss (at_chunk ps p cs k) = Inr (at_chunk ps p cs (k\<lparr>ck_lines := ck_lines k @ ls\<rparr>))"
  using assms
proof (induction ls arbitrary: ss k)
  case (Cons l ls)
  obtain s ss' where s: "write_line l = Inr s" "mapR write_line ls = Inr ss'" "ss = s # ss'"
    using Cons.prems(2) by (auto simp: mapR_Cons bindR_eq_Inr)
  show ?case using read_written_line [of l s] Cons.IH [OF _ s(2)] Cons.prems(1) s by (simp add: add_line_at)
qed simp

lemma header_not_file: "rest_match ''--- '' (chunk_header c) = None" "rest_match ''+++ '' (chunk_header c) = None"
  by (simp_all add: rest_match_miss chunk_header_def startswith_Cons)

lemma read_chunk:
  assumes "wf_chunk c" "write_chunk c = Inr ss" "rd_patchset r = ps @ [p]"
  shows "foldR read_line ss r = Inr (at_chunk ps p (pa_chunks p) c)"
proof -
  obtain ls where ls: "mapR write_line (ck_lines c) = Inr ls" "ss = chunk_header c # ls"
    using assms(2) by (auto simp: write_chunk_def bindR_eq_Inr)
  let ?k = "\<lparr>ck_lines = [], ck_src_pos = ck_src_pos c, ck_dst_pos = ck_dst_pos c\<rparr>"
  have "read_line (chunk_header c) r = Inr (at_chunk ps p (pa_chunks p) ?k)"
    using assms chunk_match_hit [of c]
    by (simp add: read_line_def header_not_file wf_chunk_def start_chunk_def set_last_def at_chunk_def)
  then show ?thesis using read_lines [OF _ ls(1), of ps p "pa_chunks p" ?k] assms(1) ls(2)
    by (simp add: wf_chunk_def record_eta)
qed

lemma read_chunks:
  assumes "list_all wf_chunk cs" "mapR write_chunk cs = Inr ss" "rd_patchset r = ps @ [p]"
  shows "\<exists>r'. foldR read_line (concat ss) r = Inr r' \<and> rd_patchset r' = ps @ [p\<lparr>pa_chunks := pa_chunks p @ cs\<rparr>]"
  using assms
proof (induction cs arbitrary: ss r p)
  case (Cons c cs)
  obtain s ss' where s: "write_chunk c = Inr s" "mapR write_chunk cs = Inr ss'" "ss = s # ss'"
    using Cons.prems(2) by (auto simp: mapR_Cons bindR_eq_Inr)
  have "foldR read_line s r = Inr (at_chunk ps p (pa_chunks p) c)"
    using read_chunk [OF _ s(1) Cons.prems(3)] Cons.prems(1) by simp
  then show ?case using Cons.IH [OF _ s(2), of "at_chunk ps p (pa_chunks p) c" "p\<lparr>pa_chunks := pa_chunks p @ [c]\<rparr>"] Cons.prems(1) s(3)
    by (auto simp: foldR_append at_chunk_def)
qed simp

lemma read_patch:
  assumes "wf_patch p" "write_patch p = Inr ss"
  shows "\<exists>r'. foldR read_line ss r = Inr r' \<and> rd_patchset r' = rd_patchset r @ [p]"
proof -
  obtain cs where cs: "mapR write_chunk (pa_chunks p) = Inr cs"
    "ss = (''--- '' @ pa_src p @ newline) # (''+++ '' @ pa_dst p @ newline) # concat cs"
    using assms(2) by (auto simp: write_patch_def bindR_eq_Inr)
  have h: "rest_match ''--- '' (''--- '' @ pa_src p @ newline) = Some (pa_src p)"
    "rest_match ''+++ '' (''+++ '' @ pa_dst p @ newline) = Some (pa_dst p)"
    by (rule rest_match_hit, use assms(1) in \<open>simp add: wf_patch_def\<close>)+
  have m: "rest_match ''--- '' (''+++ '' @ pa_dst p @ newline) = None"
    by (rule rest_match_miss) (simp add: startswith_Cons)
  let ?r1 = "r\<lparr>rd_patchset := rd_patchset r @ [\<lparr>pa_src = pa_src p, pa_dst = [], pa_chunks = []\<rparr>]\<rparr>"
  let ?r2 = "r\<lparr>rd_patchset := rd_patchset r @ [\<lparr>pa_src = pa_src p, pa_dst = pa_dst p, pa_chunks = []\<rparr>]\<rparr>"
  have "read_line (''--- '' @ pa_src p @ newline) r = Inr ?r1" unfolding read_line_def h by simp
  moreover have "read_line (''+++ '' @ pa_dst p @ newline) ?r1 = Inr ?r2"
    unfolding read_line_def h m by (simp add: set_last_def)
  moreover have "\<exists>r'. foldR read_line (concat cs) ?r2 = Inr r' \<and> rd_patchset r' = rd_patchset r @ [p]"
    using read_chunks [OF _ cs(1), of ?r2 "rd_patchset r" "\<lparr>pa_src = pa_src p, pa_dst = pa_dst p, pa_chunks = []\<rparr>"] assms(1)
    by (simp add: wf_patch_def record_eta)
  ultimately show ?thesis unfolding cs(2) by simp
qed

lemma read_patches:
  assumes "list_all wf_patch ps" "mapR write_patch ps = Inr ss"
  shows "\<exists>r'. foldR read_line (concat ss) r = Inr r' \<and> rd_patchset r' = rd_patchset r @ ps"
  using assms
proof (induction ps arbitrary: ss r)
  case (Cons p ps)
  obtain s ss' where s: "write_patch p = Inr s" "mapR write_patch ps = Inr ss'" "ss = s # ss'"
    using Cons.prems(2) by (auto simp: mapR_Cons bindR_eq_Inr)
  obtain r1 where "foldR read_line s r = Inr r1" "rd_patchset r1 = rd_patchset r @ [p]"
    using read_patch [OF _ s(1)] Cons.prems(1) by auto
  then show ?case using Cons.IH [OF _ s(2), of r1] Cons.prems(1) s(3) by (auto simp: foldR_append)
qed simp

text \<open>C25: A patch set that is written is read back as it was, chunk by chunk and line by line. It
  takes that no removed line starts with two minus signs and a blank and no added one with two plus
  signs and a blank: such a line is taken for the header of another patch.\<close>

theorem patchset_roundtrip:
  assumes "list_all wf_patch ps" "mapR write_patch ps = Inr written"
  shows "parse_patchset (concat written) = Inr ps"
  using read_patches [OF assms, of "\<lparr>rd_patchset = [], rd_chunk = None\<rparr>"] by (auto simp: parse_patchset_def)

text \<open>A diff of files of one line has a chunk header without counts, which is refused.\<close>

theorem patchset_roundtrip_witness:
  "parse_patchset [''--- a.h'' @ newline, ''+++ b.h'' @ newline, ''@@ -1,1 +1,1 @@'' @ newline,
      ''-int  x;'' @ newline, ''+int x;'' @ newline] =
     Inr [\<lparr>pa_src = ''a.h'', pa_dst = ''b.h'', pa_chunks = [\<lparr>ck_lines = [\<lparr>cl_type = SRC, cl_text = ''int  x;''\<rparr>,
       \<lparr>cl_type = DST, cl_text = ''int x;''\<rparr>], ck_src_pos = 1, ck_dst_pos = 1\<rparr>]\<rparr>]
   \<and> parse_patchset [''--- a.h'' @ newline, ''+++ b.h'' @ newline, ''@@ -1 +1 @@'' @ newline] = Inl GenericError
   \<and> parse_patchset [''--- a.h'' @ newline, ''+++ b.h'' @ newline, ''@@ -1,1 +1,0 @@'' @ newline, ''--- x;'' @ newline] =
     Inr [\<lparr>pa_src = ''a.h'', pa_dst = ''b.h'', pa_chunks = [\<lparr>ck_lines = [], ck_src_pos = 1, ck_dst_pos = 1\<rparr>]\<rparr>,
       \<lparr>pa_src = ''x;'', pa_dst = [], pa_chunks = []\<rparr>]"
  (is "parse_patchset ?w = Inr ?ps \<and> ?rest")
proof
  have "list_all wf_patch ?ps" "mapR write_patch ?ps = Inr [?w]" by code_simp+
  from patchset_roundtrip [OF this] show "parse_patchset ?w = Inr ?ps" by simp
  show ?rest by code_simp
qed

subsection \<open>Changes of trailing white space\<close>

lemma whitespace_match_last:
  assumes "char_of (10 :: nat) \<notin> set s"
  shows "whitespace_match s = (if s \<noteq> [] \<and> blank_char (last s) then Some (butlast s, [last s]) else None)"
proof (cases "s \<noteq> [] \<and> blank_char (last s)")
  case True
  then obtain t c where s: "s = t @ [c]" "blank_char c" by (cases s rule: rev_cases) auto
  have nn: "not_newline x" if "x \<in> set s" for x using assms that by (auto simp: not_newline_def)
  have tw: "takeWhile not_newline s = s" using nn by simp
  let ?f = "\<lambda>n. rmatch (Close # group [some1 blank_char] @ [Eos]) (drop n s) [s] []"
  have f1: "?f (length s) = None" by (simp add: group_def rep_count_def)
  have f2: "?f (length t) = Some [Some t, Some [c]]" using s by (simp add: group_def rep_count_def)
  have "rmatch (group [many not_newline] @ group [some1 blank_char] @ [Eos]) s [] [] =
      first_some ?f (rev [0..<Suc (length s)])"
    by (simp add: group_def rep_count_def tw del: upt_Suc)
  also have "\<dots> = first_some ?f (length s # length t # rev [0..<length t])"
    by (simp add: s(1))
  also have "\<dots> = Some [Some t, Some [c]]" using f1 f2 by simp
  finally show ?thesis using s by (simp add: whitespace_match_def re_match_def)
next
  case False
  have "rmatch (group [many not_newline] @ group [some1 blank_char] @ [Eos]) s [] [] = None"
  proof (rule ccontr)
    assume "rmatch (group [many not_newline] @ group [some1 blank_char] @ [Eos]) s [] [] \<noteq> None"
    then obtain res where "matches (group [many not_newline] @ group [some1 blank_char] @ [Eos]) s [] [] res"
      using rmatch_sound by blast
    then obtain t u v where "s = t @ u @ v" "list_all blank_char u" "1 \<le> length u" "v = [] \<or> v = [char_of (10 :: nat)]"
      by (auto simp: group_def elim!: matches_openE matches_repE matches_closeE matches_eosE)
    then show False using False assms by (cases u rule: rev_cases) auto
  qed
  then show ?thesis using False by (auto simp: whitespace_match_def re_match_def)
qed

text \<open>The change that is undone: exactly one blank or tab at the end of a line.\<close>

definition single_blank :: "string \<Rightarrow> string \<Rightarrow> bool" where
  "single_blank s d \<longleftrightarrow> s \<noteq> [] \<and> blank_char (last s) \<and> butlast s = d"

definition undo_blank :: "string \<Rightarrow> string \<Rightarrow> string" where
  "undo_blank s d = (if single_blank s d then s else d)"

definition text_at :: "chunk_line list \<Rightarrow> nat \<Rightarrow> string" where
  "text_at ls i = cl_text (ls ! i)"

text \<open>The two sides are in step: a line for each source line, and what is changed is an added line, not
  one that belongs to both sides.\<close>

definition in_step :: "nat list \<Rightarrow> nat list \<Rightarrow> chunk_line list \<Rightarrow> bool" where
  "in_step ss ds ls \<longleftrightarrow> length ss \<le> length ds \<and> (\<forall>i<length ss.
     single_blank (text_at ls (ss ! i)) (text_at ls (ds ! i)) \<longrightarrow> cl_type (ls ! (ds ! i)) = DST)"

definition no_newlines :: "chunk_line list \<Rightarrow> bool" where
  "no_newlines ls \<longleftrightarrow> list_all (\<lambda>l. char_of (10 :: nat) \<notin> set (cl_text l)) ls"

lemma trail_step:
  assumes "no_newlines ls" "s < length ls"
  shows "(case whitespace_match (cl_text (ls ! s)) of
        Some (a, b) \<Rightarrow> if a = cl_text (ls ! d) then ls[d := append_to_line b (ls ! d)] else ls
      | None \<Rightarrow> ls) = ls[d := (ls ! d)\<lparr>cl_text := undo_blank (text_at ls s) (text_at ls d)\<rparr>]"
proof -
  have nl: "char_of (10 :: nat) \<notin> set (cl_text (ls ! s))" using assms by (simp add: no_newlines_def list_all_iff)
  have "append_to_line [last t] (ls ! d) = (ls ! d)\<lparr>cl_text := t\<rparr>" if "t \<noteq> []" "butlast t = cl_text (ls ! d)" for t
    using that by (simp add: append_to_line_def flip: that(2))
  moreover have "(ls ! d)\<lparr>cl_text := cl_text (ls ! d)\<rparr> = ls ! d" by (cases "ls ! d") simp
  ultimately show ?thesis using whitespace_match_last [OF nl]
    by (auto simp: undo_blank_def single_blank_def text_at_def)
qed

lemma trail_loop_in_step:
  assumes "in_step ss ds ls" "no_newlines ls" "distinct ds"
    and "\<forall>s\<in>set ss. s < length ls \<and> is_src (ls ! s)" "\<forall>d\<in>set ds. d < length ls"
  shows "\<exists>ls'. trail_loop ss ds ls = (ls', False) \<and> length ls' = length ls
    \<and> map cl_type ls' = map cl_type ls
    \<and> (\<forall>i<length ss. text_at ls' (ds ! i) = undo_blank (text_at ls (ss ! i)) (text_at ls (ds ! i)))
    \<and> (\<forall>j<length ls. is_src (ls ! j) \<or> j \<notin> set (take (length ss) ds) \<longrightarrow> ls' ! j = ls ! j)"
  using assms
proof (induction ss ds ls rule: trail_loop.induct)
  case (3 s ss d ds ls)
  define l where "l = (ls ! d)\<lparr>cl_text := undo_blank (text_at ls s) (text_at ls d)\<rparr>"
  define ls1 where "ls1 = ls[d := l]"
  have sd: "s < length ls" "d < length ls" "d \<notin> set ds" using "3.prems"(3-5) by auto
  have step: "trail_loop (s # ss) (d # ds) ls = trail_loop ss ds ls1"
    using trail_step [OF "3.prems"(2) sd(1)] by (simp add: ls1_def l_def)
  have src: "ls1 ! j = ls ! j" if "is_src (ls ! j)" for j
  proof (cases "single_blank (text_at ls s) (text_at ls d)")
    case True
    then have "cl_type (ls ! d) = DST" using "3.prems"(1) by (force simp: in_step_def)
    then have "j \<noteq> d" using that by (auto simp: is_src_def)
    then show ?thesis by (simp add: ls1_def)
  next
    case False
    then have "l = ls ! d" by (cases "ls ! d") (simp add: l_def undo_blank_def text_at_def)
    then show ?thesis by (simp add: ls1_def)
  qed
  have ty: "map cl_type ls1 = map cl_type ls"
    using sd(2) by (auto simp: ls1_def l_def nth_list_update intro!: nth_equalityI)
  have ty1: "cl_type (ls1 ! j) = cl_type (ls ! j)" for j
    using sd(2) by (simp add: ls1_def l_def nth_list_update)
  have ds: "ls1 ! (ds ! i) = ls ! (ds ! i)" if "i < length ds" for i
    using sd(3) nth_mem [OF that] by (metis ls1_def nth_list_update_neq)
  have nn: "no_newlines ls1" unfolding no_newlines_def
  proof (rule list_all_length [THEN iffD2], intro allI impI)
    fix n assume "n < length ls1"
    then show "char_of (10 :: nat) \<notin> set (cl_text (ls1 ! n))" using "3.prems"(2) sd
      by (auto simp: ls1_def l_def nth_list_update undo_blank_def text_at_def no_newlines_def list_all_length)
  qed
  have st: "in_step ss ds ls1" unfolding in_step_def
  proof (intro conjI allI impI)
    show "length ss \<le> length ds" using "3.prems"(1) by (simp add: in_step_def)
    fix i assume i: "i < length ss" and sb: "single_blank (text_at ls1 (ss ! i)) (text_at ls1 (ds ! i))"
    have "ls1 ! (ss ! i) = ls ! (ss ! i)" using src "3.prems"(4) i by simp
    moreover have "i < length ds" using i "3.prems"(1) by (simp add: in_step_def)
    ultimately have "single_blank (text_at ls ((s # ss) ! Suc i)) (text_at ls ((d # ds) ! Suc i))"
      using sb ds by (simp add: text_at_def)
    then show "cl_type (ls1 ! (ds ! i)) = DST" using "3.prems"(1) i unfolding in_step_def ty1
      by (metis Suc_less_eq length_Cons nth_Cons_Suc)
  qed
  have "\<exists>ls'. trail_loop ss ds ls1 = (ls', False) \<and> length ls' = length ls1 \<and> map cl_type ls' = map cl_type ls1
    \<and> (\<forall>i<length ss. text_at ls' (ds ! i) = undo_blank (text_at ls1 (ss ! i)) (text_at ls1 (ds ! i)))
    \<and> (\<forall>j<length ls1. is_src (ls1 ! j) \<or> j \<notin> set (take (length ss) ds) \<longrightarrow> ls' ! j = ls1 ! j)"
    using "3.IH" [unfolded trail_step [OF "3.prems"(2) sd(1)], folded l_def, folded ls1_def] st nn "3.prems"(3-5) src
    by (simp add: ls1_def)
  then obtain ls' where r: "trail_loop ss ds ls1 = (ls', False)" "length ls' = length ls1" "map cl_type ls' = map cl_type ls1"
    "\<forall>i<length ss. text_at ls' (ds ! i) = undo_blank (text_at ls1 (ss ! i)) (text_at ls1 (ds ! i))"
    "\<forall>j<length ls1. is_src (ls1 ! j) \<or> j \<notin> set (take (length ss) ds) \<longrightarrow> ls' ! j = ls1 ! j" by blast
  have len: "length ls1 = length ls" by (simp add: ls1_def)
  have "text_at ls' ((d # ds) ! i) = undo_blank (text_at ls ((s # ss) ! i)) (text_at ls ((d # ds) ! i))" if "i < length (s # ss)" for i
  proof (cases i)
    case 0
    have "d \<notin> set (take (length ss) ds)" using sd(3) by (auto dest: in_set_takeD)
    then have "ls' ! d = ls1 ! d" using r(5) sd(2) len by simp
    then show ?thesis using 0 sd(2) by (simp add: text_at_def ls1_def l_def)
  next
    case (Suc k)
    then have "k < length ss" "k < length ds" using that "3.prems"(1) by (simp_all add: in_step_def)
    then show ?thesis using Suc r(4) ds src "3.prems"(4) by (simp add: text_at_def)
  qed
  moreover have "ls' ! j = ls ! j" if "j < length ls" "is_src (ls ! j) \<or> j \<notin> set (take (length (s # ss)) (d # ds))" for j
  proof (cases "is_src (ls ! j)")
    case True
    then show ?thesis using r(5) src that len by simp
  next
    case False
    then have "j \<noteq> d" "j \<notin> set (take (length ss) ds)" using that(2) by auto
    then show ?thesis using r(5) that(1) len by (simp add: ls1_def)
  qed
  ultimately show ?case using step r(1-3) ty len by auto
qed (auto simp: in_step_def)

definition src_texts :: "chunk \<Rightarrow> string list" where
  "src_texts c = map (text_at (ck_lines c)) (src_side (ck_lines c))"

definition dst_texts :: "chunk \<Rightarrow> string list" where
  "dst_texts c = map (text_at (ck_lines c)) (dst_side (ck_lines c))"

definition chunk_in_step :: "chunk \<Rightarrow> bool" where
  "chunk_in_step c \<longleftrightarrow> no_newlines (ck_lines c) \<and> in_step (src_side (ck_lines c)) (dst_side (ck_lines c)) (ck_lines c)"

text \<open>The same chunk with the changes of one blank undone on its destination side.\<close>

definition blanks_undone :: "chunk \<Rightarrow> chunk \<Rightarrow> bool" where
  "blanks_undone c c' \<longleftrightarrow> ck_src_pos c' = ck_src_pos c \<and> ck_dst_pos c' = ck_dst_pos c
     \<and> map cl_type (ck_lines c') = map cl_type (ck_lines c) \<and> src_texts c' = src_texts c
     \<and> dst_texts c' = map2 undo_blank (src_texts c) (dst_texts c) @ drop (length (src_texts c)) (dst_texts c)"

lemma side_types:
  "map cl_type ls' = map cl_type ls \<Longrightarrow> src_side ls' = src_side ls \<and> dst_side ls' = dst_side ls"
proof -
  assume a: "map cl_type ls' = map cl_type ls"
  then have "length ls' = length ls" by (metis length_map)
  moreover have "cl_type (ls' ! i) = cl_type (ls ! i)" if "i < length ls" for i
    using a that calculation by (metis nth_map)
  ultimately show ?thesis by (auto simp: src_side_def dst_side_def is_src_def is_dst_def intro!: filter_cong)
qed

lemma trail_chunk_in_step:
  assumes "chunk_in_step c"
  shows "\<exists>c'. trail_chunk c = (c', False) \<and> blanks_undone c c'"
proof -
  let ?ls = "ck_lines c" and ?ss = "src_side (ck_lines c)" and ?ds = "dst_side (ck_lines c)"
  have i: "in_step ?ss ?ds ?ls" "no_newlines ?ls" using assms by (simp_all add: chunk_in_step_def)
  have ds: "distinct ?ds" "\<forall>s\<in>set ?ss. s < length ?ls \<and> is_src (?ls ! s)" "\<forall>d\<in>set ?ds. d < length ?ls"
    by (auto simp: src_side_def dst_side_def)
  have le: "length ?ss \<le> length ?ds" using i(1) by (simp add: in_step_def)
  obtain ls' where r: "trail_loop ?ss ?ds ?ls = (ls', False)" "length ls' = length ?ls" "map cl_type ls' = map cl_type ?ls"
    "\<forall>i<length ?ss. text_at ls' (?ds ! i) = undo_blank (text_at ?ls (?ss ! i)) (text_at ?ls (?ds ! i))"
    "\<forall>j<length ?ls. is_src (?ls ! j) \<or> j \<notin> set (take (length ?ss) ?ds) \<longrightarrow> ls' ! j = ?ls ! j"
    using trail_loop_in_step [OF i ds] by blast
  note sides = side_types [OF r(3)]
  have s: "map (text_at ls') ?ss = map (text_at ?ls) ?ss" using r(5) ds(2) by (simp add: text_at_def)
  have d: "map (text_at ls') ?ds = map2 undo_blank (map (text_at ?ls) ?ss) (map (text_at ?ls) ?ds)
      @ drop (length ?ss) (map (text_at ?ls) ?ds)" (is "?l = ?r")
  proof (rule nth_equalityI)
    show "length ?l = length ?r" using le by simp
    fix k assume "k < length ?l"
    then have k: "k < length ?ds" by simp
    show "?l ! k = ?r ! k"
    proof (cases "k < length ?ss")
      case True
      then show ?thesis using k r(4) by (simp add: nth_append)
    next
      case False
      then have "?ds ! k \<notin> set (take (length ?ss) ?ds)" using k ds(1)
        by (auto simp: in_set_conv_nth nth_eq_iff_index_eq)
      then have "ls' ! (?ds ! k) = ?ls ! (?ds ! k)" using r(5) ds(3) k by simp
      then show ?thesis using False k le by (simp add: nth_append text_at_def)
    qed
  qed
  show ?thesis using r(1,3) s d sides
    by (auto simp: trail_chunk_def blanks_undone_def src_texts_def dst_texts_def)
qed

lemma trail_chunks_in_step:
  "list_all chunk_in_step cs \<Longrightarrow> \<exists>cs'. trail_chunks cs = (cs', False) \<and> list_all2 blanks_undone cs cs'"
proof (induction cs)
  case (Cons c cs)
  then obtain c' cs' where "trail_chunk c = (c', False)" "blanks_undone c c'"
    "trail_chunks cs = (cs', False)" "list_all2 blanks_undone cs cs'"
    using trail_chunk_in_step [of c] by auto
  then show ?case by simp
qed simp

lemma trail_patches_in_step:
  "list_all (\<lambda>p. list_all chunk_in_step (pa_chunks p)) ps \<Longrightarrow> \<exists>ps'. trail_patches ps = (ps', False)
     \<and> list_all2 (\<lambda>p p'. pa_src p' = pa_src p \<and> pa_dst p' = pa_dst p \<and> list_all2 blanks_undone (pa_chunks p) (pa_chunks p')) ps ps'"
proof (induction ps)
  case (Cons p ps)
  then obtain cs' ps' where "trail_chunks (pa_chunks p) = (cs', False)" "list_all2 blanks_undone (pa_chunks p) cs'"
    "trail_patches ps = (ps', False)"
    "list_all2 (\<lambda>p p'. pa_src p' = pa_src p \<and> pa_dst p' = pa_dst p \<and> list_all2 blanks_undone (pa_chunks p) (pa_chunks p')) ps ps'"
    using trail_chunks_in_step [of "pa_chunks p"] by auto
  then show ?case by simp
qed simp

text \<open>C26: When the two sides of every chunk are in step, the changes that only remove one blank or tab
  at the end of a line are undone and everything else stays: the source side, the types of the
  lines, and every other line of the destination side. (When the sides are out of step, a line
  that both sides share is changed and the source side no longer fits the file.)\<close>

theorem trailing_blanks_undone:
  assumes "parse_patchset diff = Inr ps" "list_all (\<lambda>p. list_all chunk_in_step (pa_chunks p)) ps"
  shows "\<exists>ps'. remove_trailing_whitespace_changes diff = Inr ps'
    \<and> list_all2 (\<lambda>p p'. pa_src p' = pa_src p \<and> pa_dst p' = pa_dst p \<and> list_all2 blanks_undone (pa_chunks p) (pa_chunks p')) ps ps'"
  using trail_patches_in_step [OF assms(2)] assms(1) by (auto simp: remove_trailing_whitespace_changes_def)

definition one_chunk :: "chunk_line list \<Rightarrow> patch" where
  "one_chunk ls = \<lparr>pa_src = ''a'', pa_dst = ''b'', pa_chunks = [\<lparr>ck_lines = ls, ck_src_pos = 1, ck_dst_pos = 1\<rparr>]\<rparr>"

definition L :: "line_type \<Rightarrow> string \<Rightarrow> chunk_line" where
  "L ty t = \<lparr>cl_type = ty, cl_text = t\<rparr>"

theorem trailing_blanks_undone_witness:
  "(\<exists>ps'. remove_trailing_whitespace_changes [''--- a'' @ newline, ''+++ b'' @ newline, ''@@ -1,2 +1,2 @@'' @ newline,
        ''-x '' @ newline, ''+x'' @ newline, '' y'' @ newline] = Inr ps'
      \<and> map (\<lambda>p. map dst_texts (pa_chunks p)) ps' = [[[''x '', ''y'']]])
   \<and> fst (trail_patches [one_chunk [L SRC ''x '', L BOTH ''x'', L DST ''z'']]) =
       [one_chunk [L SRC ''x '', L BOTH ''x '', L DST ''z'']]
   \<and> fst (trail_patches [one_chunk [L SRC ''x  '', L DST ''x'']]) = [one_chunk [L SRC ''x  '', L DST ''x'']]"
proof (intro conjI)
  have p: "parse_patchset [''--- a'' @ newline, ''+++ b'' @ newline, ''@@ -1,2 +1,2 @@'' @ newline,
        ''-x '' @ newline, ''+x'' @ newline, '' y'' @ newline] = Inr [one_chunk [L SRC ''x '', L DST ''x'', L BOTH ''y'']]"
    by code_simp
  have "list_all (\<lambda>p. list_all chunk_in_step (pa_chunks p)) [one_chunk [L SRC ''x '', L DST ''x'', L BOTH ''y'']]"
    by code_simp
  from trailing_blanks_undone [OF p this] obtain ps' where ps':
    "remove_trailing_whitespace_changes [''--- a'' @ newline, ''+++ b'' @ newline, ''@@ -1,2 +1,2 @@'' @ newline,
        ''-x '' @ newline, ''+x'' @ newline, '' y'' @ newline] = Inr ps'"
    "list_all2 (\<lambda>p p'. pa_src p' = pa_src p \<and> pa_dst p' = pa_dst p \<and> list_all2 blanks_undone (pa_chunks p) (pa_chunks p'))
       [one_chunk [L SRC ''x '', L DST ''x'', L BOTH ''y'']] ps'" by blast
  define c where "c = hd (pa_chunks (one_chunk [L SRC ''x '', L DST ''x'', L BOTH ''y'']))"
  have c: "pa_chunks (one_chunk [L SRC ''x '', L DST ''x'', L BOTH ''y'']) = [c]" by (simp add: c_def one_chunk_def)
  have t: "src_texts c = [''x '', ''y'']" "dst_texts c = [''x'', ''y'']" unfolding c_def by code_simp+
  have u: "map2 undo_blank [''x '', ''y''] [''x'', ''y''] = [''x '', ''y'']" by code_simp
  obtain p' c' where "ps' = [p']" "pa_chunks p' = [c']" "blanks_undone c c'"
    using ps'(2) c by (auto simp: list_all2_Cons1)
  then have "map (\<lambda>p. map dst_texts (pa_chunks p)) ps' = [[[''x '', ''y'']]]"
    using u by (simp add: blanks_undone_def t)
  then show "\<exists>ps'. remove_trailing_whitespace_changes [''--- a'' @ newline, ''+++ b'' @ newline, ''@@ -1,2 +1,2 @@'' @ newline,
        ''-x '' @ newline, ''+x'' @ newline, '' y'' @ newline] = Inr ps'
      \<and> map (\<lambda>p. map dst_texts (pa_chunks p)) ps' = [[[''x '', ''y'']]]"
    by (intro exI [of _ ps'] conjI) (rule ps'(1))
  show "fst (trail_patches [one_chunk [L SRC ''x '', L BOTH ''x'', L DST ''z'']]) =
       [one_chunk [L SRC ''x '', L BOTH ''x '', L DST ''z'']]" by code_simp
  show "fst (trail_patches [one_chunk [L SRC ''x  '', L DST ''x'']]) = [one_chunk [L SRC ''x  '', L DST ''x'']]" by code_simp
qed

subsection \<open>The check\<close>

lemma indent_debug:
  assumes "x_uncrustify x (uncrustify_config_file level) content \<noteq> None" "x_patch x [] content = content"
  shows "indent x source output content True level = Inr content"
  using assms by (auto simp: indent_def final_diff_def remove_trailing_whitespace_changes_def parse_patchset_def split: option.splits)

text \<open>With \<open>--debug\<close> every file passes and no file is changed in place, however badly it is
  formatted, as long as uncrustify runs and applying an empty diff changes nothing: the diff is
  used up by the copy for the initial diff file.\<close>

theorem debug_passes:
  assumes "\<And>f. x_uncrustify x (uncrustify_config_file (o_level opts)) (fs f) \<noteq> None"
    and "\<And>f. x_patch x [] (fs f) = fs f"
    and "o_debug opts" "o_git opts \<or> (o_file opts \<noteq> [] \<and> exists_file (o_file opts))"
  shows "run_as_main x tmp fs exists_file root_dir names opts = (fs, [], 0)"
proof -
  have m: "mapR (\<lambda>f. bindR (indent x f (tmp f) (fs f) True level) (\<lambda>d. Inr (f, d))) files = Inr (map (\<lambda>f. (f, fs f)) files)"
    if "level = o_level opts" for files level
    using assms(1,2) that by (intro mapR_Inr) (simp add: indent_debug)
  have f: "fold (\<lambda>(src, dst) fs. fs(src := dst)) (map (\<lambda>f. (f, fs f)) files) fs = fs" for files
    by (induction files) (simp_all del: fun_upd_apply)
  have "indent_files x tmp fs files diff True (o_level opts) inplace = Inr (fs, [], True)" for files diff inplace
    by (simp add: indent_files_def m f)
  then show ?thesis using assms(3,4) by (auto simp: run_as_main_def)
qed

theorem debug_passes_witness:
  "run_as_main \<lparr>x_uncrustify = (\<lambda>cfg s. Some []), x_diff = (\<lambda>a b s d. []), x_patch = (\<lambda>d s. if d = [] then s else [])\<rparr>
     (\<lambda>f. f @ ''~'') (\<lambda>f. [''int  x;'']) (\<lambda>f. True) [] []
     \<lparr>o_debug = True, o_level = 0, o_git = False, o_file = ''a.h'', o_diff = False, o_in_place = False\<rparr> = (\<lambda>f. [''int  x;''], [], 0)"
  by (rule debug_passes) simp_all

end
