(* ===== verification/JobQueue.thy ===== *)
theory JobQueue
  imports PyFloat
begin

text \<open>
  The parallel part of test.py: the unit of work (\<open>Job\<close>), the worker threads, and the main
  thread that puts the jobs into a queue, adds one stop job per worker and waits for as many results as
  it put jobs. The threads are interleaved at their queue operations; \<open>run_job j\<close> is the return
  code and the time of the program that a job starts. A control-C sets the flag \<open>thread_exit\<close> at
  any moment.
\<close>

subsection \<open>Jobs\<close>

record job =
  j_is_break :: bool
  j_is_skip :: bool
  j_skip_reason :: string
  j_is_example :: bool
  j_is_pyexample :: bool
  j_shell_command :: string
  j_display_name :: string
  j_basedir :: string
  j_tempdir :: string
  j_cwd :: string
  j_tmp_file_name :: string
  j_returncode :: int
  j_elapsed_time :: pyfloat
  j_build_path :: string

definition new_job :: job where
  "new_job = \<lparr>j_is_break = False, j_is_skip = False, j_skip_reason = [], j_is_example = False,
     j_is_pyexample = False, j_shell_command = [], j_display_name = [], j_basedir = [], j_tempdir = [],
     j_cwd = [], j_tmp_file_name = [], j_returncode = 0, j_elapsed_time = Fin 0, j_build_path = []\<rparr>"

definition break_job :: job where
  "break_job = new_job\<lparr>j_is_break := True\<rparr>"

text \<open>What comes back for a job that is not interrupted.\<close>

definition job_done :: "(job \<Rightarrow> int \<times> pyfloat) \<Rightarrow> job \<Rightarrow> job" where
  "job_done run_job j = (if j_is_skip j then j
     else j\<lparr>j_returncode := fst (run_job j), j_elapsed_time := snd (run_job j)\<rparr>)"

subsection \<open>Threads\<close>

datatype worker = Waiting | Got job | Running job | Stopped

record pool =
  todo :: "job list"
  input_queue :: "job list"
  output_queue :: "job list"
  workers :: "worker list"
  thread_exit :: bool
  collected :: "job list"
  awaited :: nat

text \<open>One step of the main thread or of the \<open>i\<close>-th worker.\<close>

inductive tstep :: "(job \<Rightarrow> int \<times> pyfloat) \<Rightarrow> pool \<Rightarrow> pool \<Rightarrow> bool" for run_job where
  put: "todo p = j # js \<Longrightarrow> tstep run_job p (p\<lparr>todo := js, input_queue := input_queue p @ [j]\<rparr>)"
| get: "i < length (workers p) \<Longrightarrow> workers p ! i = Waiting \<Longrightarrow> input_queue p = j # q \<Longrightarrow>
    tstep run_job p (p\<lparr>input_queue := q, workers := (workers p)[i := Got j]\<rparr>)"
| stop: "i < length (workers p) \<Longrightarrow> workers p ! i = Got j \<Longrightarrow> j_is_break j \<Longrightarrow>
    tstep run_job p (p\<lparr>workers := (workers p)[i := Stopped]\<rparr>)"
| drop: "i < length (workers p) \<Longrightarrow> workers p ! i = Got j \<Longrightarrow> \<not> j_is_break j \<Longrightarrow> thread_exit p \<Longrightarrow>
    tstep run_job p (p\<lparr>workers := (workers p)[i := Waiting], output_queue := output_queue p @ [j\<lparr>j_is_break := True\<rparr>]\<rparr>)"
| skip: "i < length (workers p) \<Longrightarrow> workers p ! i = Got j \<Longrightarrow> \<not> j_is_break j \<Longrightarrow> \<not> thread_exit p \<Longrightarrow> j_is_skip j \<Longrightarrow>
    tstep run_job p (p\<lparr>workers := (workers p)[i := Waiting], output_queue := output_queue p @ [j]\<rparr>)"
| launch: "i < length (workers p) \<Longrightarrow> workers p ! i = Got j \<Longrightarrow> \<not> j_is_break j \<Longrightarrow> \<not> thread_exit p \<Longrightarrow> \<not> j_is_skip j \<Longrightarrow>
    tstep run_job p (p\<lparr>workers := (workers p)[i := Running j]\<rparr>)"
| finish: "i < length (workers p) \<Longrightarrow> workers p ! i = Running j \<Longrightarrow>
    tstep run_job p (p\<lparr>workers := (workers p)[i := Waiting], output_queue := output_queue p @ [job_done run_job j]\<rparr>)"
| collect: "todo p = [] \<Longrightarrow> awaited p = Suc n \<Longrightarrow> output_queue p = j # q \<Longrightarrow>
    tstep run_job p (p\<lparr>output_queue := q, collected := collected p @ [j], awaited := n\<rparr>)"

inductive_cases tstepE: "tstep run_job p p'"

text \<open>The handler of control-C.\<close>

inductive sigint :: "pool \<Rightarrow> pool \<Rightarrow> bool" where
  hook: "\<not> thread_exit p \<Longrightarrow> sigint p (p\<lparr>thread_exit := True\<rparr>)"

inductive_simps sigint_iff: "sigint p p'"

definition pool_step :: "(job \<Rightarrow> int \<times> pyfloat) \<Rightarrow> pool \<Rightarrow> pool \<Rightarrow> bool" where
  "pool_step run_job p p' \<longleftrightarrow> tstep run_job p p' \<or> sigint p p'"

definition pool_init :: "job list \<Rightarrow> nat \<Rightarrow> pool" where
  "pool_init jobs processors = \<lparr>todo = jobs @ replicate processors break_job, input_queue = [], output_queue = [],
     workers = replicate processors Waiting, thread_exit = False, collected = [], awaited = length jobs\<rparr>"

text \<open>The main thread is past the \<open>join\<close> of all workers.\<close>

definition finished :: "pool \<Rightarrow> bool" where
  "finished p \<longleftrightarrow> todo p = [] \<and> awaited p = 0 \<and> list_all (\<lambda>w. w = Stopped) (workers p)"

subsection \<open>No run is infinite\<close>

lemma sum_update:
  fixes f :: "'a \<Rightarrow> 'b::comm_monoid_add"
  shows "i < length ws \<Longrightarrow> sum_list (map f (ws[i := w])) + f (ws ! i) = sum_list (map f ws) + f w"
proof (induction ws arbitrary: i)
  case (Cons v ws)
  then show ?case by (cases i) (simp_all add: ac_simps)
qed simp

fun worker_weight :: "worker \<Rightarrow> nat" where
  "worker_weight Waiting = 0"
| "worker_weight (Got j) = 3"
| "worker_weight (Running j) = 2"
| "worker_weight Stopped = 0"

definition pool_weight :: "pool \<Rightarrow> nat" where
  "pool_weight p = 5 * length (todo p) + 4 * length (input_queue p) + sum_list (map worker_weight (workers p))
     + length (output_queue p) + (if thread_exit p then 0 else 1)"

lemma step_weight: "pool_step run_job p p' \<Longrightarrow> pool_weight p' < pool_weight p"
proof -
  have u: "sum_list (map worker_weight ((workers p)[i := w])) + worker_weight (workers p ! i) =
      sum_list (map worker_weight (workers p)) + worker_weight w" if "i < length (workers p)" for i w
    using sum_update [OF that, of worker_weight] .
  assume "pool_step run_job p p'"
  then consider "tstep run_job p p'" | "sigint p p'" by (auto simp: pool_step_def)
  then show ?thesis
  proof cases
    case 1
    then show ?thesis
    proof cases
      case (get i j q)
      then show ?thesis using u [OF get(2), of "Got j"] by (simp add: pool_weight_def)
    next
      case (stop i j)
      then show ?thesis using u [OF stop(2), of Stopped] by (simp add: pool_weight_def)
    next
      case (drop i j)
      then show ?thesis using u [OF drop(2), of Waiting] by (simp add: pool_weight_def)
    next
      case (skip i j)
      then show ?thesis using u [OF skip(2), of Waiting] by (simp add: pool_weight_def)
    next
      case (launch i j)
      then show ?thesis using u [OF launch(2), of "Running j"] by (simp add: pool_weight_def)
    next
      case (finish i j)
      then show ?thesis using u [OF finish(2), of Waiting] by (simp add: pool_weight_def)
    qed (simp_all add: pool_weight_def)
  qed (auto simp: sigint_iff pool_weight_def)
qed

lemma steps_weight: "(pool_step run_job ^^ k) p p' \<Longrightarrow> k + pool_weight p' \<le> pool_weight p"
proof (induction k arbitrary: p')
  case (Suc k)
  then obtain q where "(pool_step run_job ^^ k) p q" "pool_step run_job q p'" by auto
  then show ?case using Suc.IH [of q] step_weight [of run_job q p'] by simp
qed simp

lemma weight_init: "pool_weight (pool_init jobs n) = 5 * (length jobs + n) + 1"
  by (simp add: pool_weight_def pool_init_def sum_list_replicate)

subsection \<open>The invariant\<close>

text \<open>A job before it ran.\<close>

definition fresh :: "job \<Rightarrow> bool" where
  "fresh j \<longleftrightarrow> \<not> j_is_break j \<and> j_returncode j = 0 \<and> j_elapsed_time j = Fin 0"

definition erase :: "job \<Rightarrow> job" where
  "erase j = j\<lparr>j_is_break := False, j_returncode := 0, j_elapsed_time := Fin 0\<rparr>"

fun hold :: "worker \<Rightarrow> job multiset" where
  "hold Waiting = {#}"
| "hold (Got j) = {#j#}"
| "hold (Running j) = {#j#}"
| "hold Stopped = {#}"

fun taken :: "worker \<Rightarrow> nat" where
  "taken Waiting = 0"
| "taken (Got j) = (if j_is_break j then 1 else 0)"
| "taken (Running j) = 0"
| "taken Stopped = 1"

definition unfinished :: "pool \<Rightarrow> job multiset" where
  "unfinished p = {#j \<in># mset (todo p) + mset (input_queue p) + sum_list (map hold (workers p)). \<not> j_is_break j#}"

definition returned :: "pool \<Rightarrow> job multiset" where
  "returned p = mset (output_queue p) + mset (collected p)"

text \<open>Every job is in one place; what came back is a result, or was dropped after a control-C; the stop
  jobs are behind all others.\<close>

definition conserved :: "job list \<Rightarrow> pool \<Rightarrow> bool" where
  "conserved jobs p \<longleftrightarrow> unfinished p + image_mset erase (returned p) = mset jobs"

definition results_ok :: "(job \<Rightarrow> int \<times> pyfloat) \<Rightarrow> pool \<Rightarrow> bool" where
  "results_ok run_job p \<longleftrightarrow> (\<forall>j \<in># returned p. (j_is_break j \<and> thread_exit p) \<or> (\<not> j_is_break j \<and> j = job_done run_job (erase j)))"

definition queue_ok :: "nat \<Rightarrow> pool \<Rightarrow> bool" where
  "queue_ok n p \<longleftrightarrow> length (workers p) = n \<and> (\<exists>rs k. input_queue p @ todo p = rs @ replicate k break_job
     \<and> (\<forall>j\<in>set rs. \<not> j_is_break j) \<and> k + sum_list (map taken (workers p)) = n \<and> (rs \<noteq> [] \<longrightarrow> k = n))"

definition running_ok :: "pool \<Rightarrow> bool" where
  "running_ok p \<longleftrightarrow> (\<forall>j. Running j \<in> set (workers p) \<longrightarrow> \<not> j_is_break j)"

definition pool_inv :: "(job \<Rightarrow> int \<times> pyfloat) \<Rightarrow> job list \<Rightarrow> nat \<Rightarrow> pool \<Rightarrow> bool" where
  "pool_inv run_job jobs n p \<longleftrightarrow> conserved jobs p \<and> results_ok run_job p \<and> queue_ok n p \<and> running_ok p
     \<and> awaited p + length (collected p) = length jobs"

lemma hold_more: "i < length ws \<Longrightarrow> ws ! i = Waiting \<Longrightarrow>
    sum_list (map hold (ws[i := Got j])) = add_mset j (sum_list (map hold ws))"
  using sum_update [of i ws hold "Got j"] by simp

lemma hold_less: "i < length ws \<Longrightarrow> hold (ws ! i) = {#j#} \<Longrightarrow> hold w = {#} \<Longrightarrow>
    sum_list (map hold ws) = add_mset j (sum_list (map hold (ws[i := w])))"
  using sum_update [of i ws hold w] by simp

lemma hold_same: "i < length ws \<Longrightarrow> hold (ws ! i) = hold w \<Longrightarrow>
    sum_list (map hold (ws[i := w])) = sum_list (map hold ws)"
  using sum_update [of i ws hold w] by simp

lemma held_member: "i < length ws \<Longrightarrow> hold (ws ! i) = {#j#} \<Longrightarrow> j \<in># sum_list (map hold ws)"
  using hold_less [of i ws j Stopped] by simp

lemma fresh_erase: "fresh j \<Longrightarrow> erase j = j"
  by (cases j) (simp add: fresh_def erase_def)

lemma erase_simps [simp]: "erase (job_done run_job j) = erase j" "erase (j\<lparr>j_is_break := True\<rparr>) = erase j"
  by (simp_all add: erase_def job_done_def)

lemma unfinished_fresh:
  assumes "conserved jobs p" "list_all fresh jobs" "j \<in># unfinished p"
  shows "fresh j"
proof -
  have "j \<in># mset jobs" using assms(1,3) by (metis conserved_def union_iff)
  then show ?thesis using assms(2) by (simp add: list_all_iff)
qed

lemma held_fresh:
  assumes "conserved jobs p" "list_all fresh jobs" "i < length (workers p)" "hold (workers p ! i) = {#j#}" "\<not> j_is_break j"
  shows "erase j = j"
proof -
  have "j \<in># unfinished p" using held_member [OF assms(3,4)] assms(5) by (simp add: unfinished_def)
  then show ?thesis using unfinished_fresh [OF assms(1,2)] fresh_erase by blast
qed

lemma running_real: "running_ok p \<Longrightarrow> i < length (workers p) \<Longrightarrow> workers p ! i = Running j \<Longrightarrow> \<not> j_is_break j"
  by (metis nth_mem running_ok_def)

lemma conserved_step:
  assumes "tstep run_job p p'" "conserved jobs p" "running_ok p" "list_all fresh jobs"
  shows "conserved jobs p'"
  using assms(1)
proof cases
  case (put j js)
  then show ?thesis using assms(2) by (simp add: conserved_def unfinished_def returned_def ac_simps)
next
  case (get i j q)
  then show ?thesis using assms(2) hold_more [OF get(2,3), of j]
    by (simp add: conserved_def unfinished_def returned_def)
next
  case (stop i j)
  then show ?thesis using assms(2) hold_less [OF stop(2), of j Stopped]
    by (simp add: conserved_def unfinished_def returned_def)
next
  case (drop i j)
  then have "erase j = j" using held_fresh [OF assms(2,4)] by simp
  then show ?thesis using drop assms(2) hold_less [OF drop(2), of j Waiting]
    by (simp add: conserved_def unfinished_def returned_def)
next
  case (skip i j)
  then have "erase j = j" using held_fresh [OF assms(2,4)] by simp
  then show ?thesis using skip assms(2) hold_less [OF skip(2), of j Waiting]
    by (simp add: conserved_def unfinished_def returned_def)
next
  case (launch i j)
  then show ?thesis using assms(2) hold_same [OF launch(2), of "Running j"]
    by (simp add: conserved_def unfinished_def returned_def)
next
  case (finish i j)
  then have r: "\<not> j_is_break j" using running_real assms(3) by blast
  then have "erase j = j" using held_fresh [OF assms(2,4)] finish by simp
  then show ?thesis using r finish assms(2) hold_less [OF finish(2), of j Waiting]
    by (simp add: conserved_def unfinished_def returned_def)
next
  case (collect n j q)
  then show ?thesis using assms(2) by (simp add: conserved_def unfinished_def returned_def)
qed

lemma job_done_break [simp]: "j_is_break (job_done run_job j) = j_is_break j"
  by (simp add: job_done_def)

lemma results_step:
  assumes "tstep run_job p p'" "results_ok run_job p" "conserved jobs p" "running_ok p" "list_all fresh jobs"
  shows "results_ok run_job p'"
  using assms(1)
proof cases
  case (skip i j)
  then have "erase j = j" using held_fresh [OF assms(3,5)] by simp
  then show ?thesis using skip assms(2) by (auto simp: results_ok_def returned_def job_done_def)
next
  case (finish i j)
  then have r: "\<not> j_is_break j" using running_real assms(4) by blast
  then have "erase j = j" using held_fresh [OF assms(3,5)] finish by simp
  then show ?thesis using finish assms(2) r by (auto simp: results_ok_def returned_def)
qed (use assms(2) in \<open>auto simp: results_ok_def returned_def\<close>)

lemma running_step: "tstep run_job p p' \<Longrightarrow> running_ok p \<Longrightarrow> running_ok p'"
  by (erule tstepE) (auto simp: running_ok_def dest!: set_update_subset_insert [THEN subsetD])

lemma taken_update: "i < length ws \<Longrightarrow> sum_list (map taken (ws[i := w])) + taken (ws ! i) = sum_list (map taken ws) + taken w"
  using sum_update [of i ws taken w] .

lemma queue_step:
  assumes "tstep run_job p p'" "queue_ok n p" "running_ok p"
  shows "queue_ok n p'"
proof -
  obtain rs k where q: "length (workers p) = n" "input_queue p @ todo p = rs @ replicate k break_job"
    "\<forall>j\<in>set rs. \<not> j_is_break j" "k + sum_list (map taken (workers p)) = n" "rs \<noteq> [] \<longrightarrow> k = n"
    using assms(2) by (auto simp: queue_ok_def)
  have same: "queue_ok n p''" if "length (workers p'') = n" "input_queue p'' @ todo p'' = input_queue p @ todo p"
    "sum_list (map taken (workers p'')) = sum_list (map taken (workers p))" for p''
    using q that unfolding queue_ok_def by auto
  show ?thesis using assms(1)
  proof cases
    case (get i j q')
    note t = taken_update [OF get(2), of "Got j"]
    show ?thesis
    proof (cases rs)
      case Nil
      then obtain k' where "k = Suc k'" "j = break_job" "q' @ todo p = replicate k' break_job"
        using q(2) get(4) by (cases k) auto
      then show ?thesis using t get q Nil
        by (auto simp: queue_ok_def break_job_def intro!: exI [of _ "[]"] exI [of _ k'])
    next
      case (Cons r rs')
      then have "j = r" "q' @ todo p = rs' @ replicate k break_job" using q(2) get(4) by auto
      then show ?thesis using t get q Cons
        by (auto simp: queue_ok_def intro!: exI [of _ rs'] exI [of _ k])
    qed
  next
    case (finish i j)
    then have "\<not> j_is_break j" using running_real assms(3) by blast
    then show ?thesis using finish q(1) taken_update [OF finish(2), of Waiting] by (intro same) auto
  next
    case (stop i j)
    then show ?thesis using q(1) taken_update [OF stop(2), of Stopped] by (intro same) auto
  next
    case (drop i j)
    then show ?thesis using q(1) taken_update [OF drop(2), of Waiting] by (intro same) auto
  next
    case (skip i j)
    then show ?thesis using q(1) taken_update [OF skip(2), of Waiting] by (intro same) auto
  next
    case (launch i j)
    then show ?thesis using q(1) taken_update [OF launch(2), of "Running j"] by (intro same) auto
  next
    case (put j js)
    then show ?thesis using q(1) by (intro same) auto
  next
    case (collect m j q')
    then show ?thesis using q(1) by (intro same) auto
  qed
qed

lemma pool_inv_step:
  assumes "pool_step run_job p p'" "pool_inv run_job jobs n p" "list_all fresh jobs"
  shows "pool_inv run_job jobs n p'"
proof (cases "tstep run_job p p'")
  case True
  have "awaited p' + length (collected p') = awaited p + length (collected p)"
    using True by cases auto
  then show ?thesis using assms(2,3) conserved_step [OF True] results_step [OF True, of jobs] queue_step [OF True] running_step [OF True]
    by (simp add: pool_inv_def)
next
  case False
  then have "p' = p\<lparr>thread_exit := True\<rparr>" using assms(1) by (simp add: pool_step_def sigint_iff)
  then show ?thesis using assms(2)
    by (auto simp: pool_inv_def conserved_def results_ok_def queue_ok_def running_ok_def unfinished_def returned_def)
qed

lemma pool_inv_init:
  assumes "list_all fresh jobs"
  shows "pool_inv run_job jobs n (pool_init jobs n)"
proof -
  have "filter_mset (\<lambda>j. \<not> j_is_break j) (mset jobs) = mset jobs"
    using assms by (auto simp: filter_mset_eq_conv fresh_def list_all_iff)
  moreover have "filter_mset (\<lambda>j. \<not> j_is_break j) (replicate_mset n break_job) = {#}"
    by (induction n) (simp_all add: break_job_def)
  moreover have "sum_list (map hold (replicate n Waiting)) = {#}" "sum_list (map taken (replicate n Waiting)) = 0"
    by (induction n) simp_all
  ultimately show ?thesis using assms
    by (auto simp: pool_inv_def pool_init_def conserved_def unfinished_def returned_def results_ok_def queue_ok_def
        running_ok_def fresh_def list_all_iff intro!: exI [of _ jobs] exI [of _ n])
qed

lemma pool_inv_reachable:
  assumes "(pool_step run_job)\<^sup>*\<^sup>* (pool_init jobs n) p" "list_all fresh jobs"
  shows "pool_inv run_job jobs n p"
  using assms(1)
proof induction
  case base
  show ?case by (rule pool_inv_init [OF assms(2)])
next
  case (step q r)
  show ?case by (rule pool_inv_step [OF step(2,3) assms(2)])
qed

subsection \<open>Progress\<close>

lemma sum_taken_zero: "sum_list (map taken ws) = 0 \<Longrightarrow> w \<in> set ws \<Longrightarrow> taken w = 0"
  by (simp add: sum_list_eq_0_iff)

lemma sum_taken_le: "sum_list (map taken ws) \<le> length ws"
proof (induction ws)
  case (Cons w ws)
  have "taken w \<le> 1" by (cases w) auto
  then show ?case using Cons by simp
qed simp

lemma sum_taken_all: "sum_list (map taken ws) = length ws \<Longrightarrow> w \<in> set ws \<Longrightarrow> taken w = 1"
proof (induction ws)
  case (Cons v ws)
  have "taken v \<le> 1" by (cases v) auto
  moreover have "sum_list (map taken ws) \<le> length ws" by (rule sum_taken_le)
  ultimately have "taken v = 1" "sum_list (map taken ws) = length ws" using Cons.prems(1) by auto
  then show ?case using Cons by auto
qed simp

lemma worker_step:
  assumes "i < length (workers p)" "workers p ! i \<noteq> Waiting" "workers p ! i \<noteq> Stopped"
  shows "\<exists>p'. tstep run_job p p'"
proof (cases "workers p ! i")
  case (Got j)
  consider "j_is_break j" | "\<not> j_is_break j" "thread_exit p" | "\<not> j_is_break j" "\<not> thread_exit p" "j_is_skip j"
    | "\<not> j_is_break j" "\<not> thread_exit p" "\<not> j_is_skip j" by blast
  then show ?thesis using tstep.stop [OF assms(1) Got] tstep.drop [OF assms(1) Got] tstep.skip [OF assms(1) Got]
      tstep.launch [OF assms(1) Got] by cases blast+
next
  case (Running j)
  then show ?thesis using tstep.finish [OF assms(1) Running] by blast
qed (use assms in auto)

text \<open>All workers have stopped: then all jobs have come back.\<close>

lemma stopped_returned:
  assumes "pool_inv run_job jobs n p" "todo p = []" "list_all (\<lambda>w. w = Stopped) (workers p)" "0 < n"
  shows "unfinished p = {#}" "size (returned p) = length jobs"
proof -
  have w: "workers p = replicate n Stopped" using assms(1,3)
    by (auto simp: pool_inv_def queue_ok_def list_all_iff intro!: replicate_eqI [THEN sym] replicate_eqI)
  have t: "sum_list (map taken (workers p)) = n" "sum_list (map hold (workers p)) = {#}"
    unfolding w by (simp add: sum_list_replicate) (induction n, simp_all)
  obtain rs k where q: "input_queue p @ todo p = rs @ replicate k break_job" "k + sum_list (map taken (workers p)) = n"
    "rs \<noteq> [] \<longrightarrow> k = n" using assms(1) by (auto simp: pool_inv_def queue_ok_def)
  have "k = 0" using q(2) t(1) by simp
  moreover from this have "rs = []" using q(3) assms(4) by auto
  ultimately have "input_queue p = []" using q(1) by simp
  then show u: "unfinished p = {#}" using t(2) assms(2) by (simp add: unfinished_def)
  have "size (image_mset erase (returned p)) = size (mset jobs)"
    using assms(1) u by (simp add: pool_inv_def conserved_def)
  then show "size (returned p) = length jobs" by simp
qed

lemma progress:
  assumes "pool_inv run_job jobs n p" "0 < n" "\<not> finished p"
  shows "\<exists>p'. tstep run_job p p'"
proof (rule ccontr)
  assume stuck: "\<nexists>p'. tstep run_job p p'"
  have todo: "todo p = []" using stuck tstep.put [of p] by (cases "todo p") blast+
  have ws: "\<forall>w\<in>set (workers p). w = Waiting \<or> w = Stopped" 
  proof
    fix w assume "w \<in> set (workers p)"
    then obtain i where i: "i < length (workers p)" "workers p ! i = w" by (auto simp: in_set_conv_nth)
    show "w = Waiting \<or> w = Stopped" using worker_step [OF i(1)] i(2) stuck by blast
  qed
  have queue: "input_queue p = []" if i: "i < length (workers p)" "workers p ! i = Waiting" for i
    using stuck tstep.get [OF i] by (cases "input_queue p") blast+
  have all: "list_all (\<lambda>w. w = Stopped) (workers p)"
  proof (rule ccontr)
    assume "\<not> list_all (\<lambda>w. w = Stopped) (workers p)"
    then obtain w where w: "w \<in> set (workers p)" "w \<noteq> Stopped" by (auto simp: list_all_iff)
    then have "w = Waiting" using ws by blast
    then obtain i where i: "i < length (workers p)" "workers p ! i = Waiting" using w(1) by (auto simp: in_set_conv_nth)
    obtain rs k where q: "input_queue p @ todo p = rs @ replicate k break_job"
      "k + sum_list (map taken (workers p)) = length (workers p)"
      using assms(1) by (auto simp: pool_inv_def queue_ok_def)
    have "k = 0" using queue [OF i] todo q(1) by simp
    then have "taken (workers p ! i) = 1" using sum_taken_all q(2) i(1) by simp
    then show False using i(2) by simp
  qed
  note r = stopped_returned(2) [OF assms(1) todo all assms(2)]
  have "awaited p \<noteq> 0" using assms(3) todo all by (auto simp: finished_def)
  then obtain m where m: "awaited p = Suc m" by (cases "awaited p") auto
  then have "output_queue p \<noteq> []" using r assms(1) by (auto simp: pool_inv_def returned_def)
  then show False using stuck tstep.collect [OF todo m] by (cases "output_queue p") blast+
qed

text \<open>C27: With at least one worker the test run always comes to its end: whatever the interleaving and
  whenever control-C is pressed, some thread can go on until the main thread has all results and has
  joined all workers, and this takes at most \<open>5 (jobs + workers) + 1\<close> steps.\<close>

theorem pool_terminates:
  assumes "list_all fresh jobs" "0 < n" "(pool_step run_job ^^ k) (pool_init jobs n) p"
  shows "k \<le> 5 * (length jobs + n) + 1 \<and> (finished p \<or> (\<exists>p'. tstep run_job p p'))"
proof -
  have "(pool_step run_job)\<^sup>*\<^sup>* (pool_init jobs n) p" using assms(3) by (rule relpowp_imp_rtranclp)
  then have "pool_inv run_job jobs n p" by (rule pool_inv_reachable [OF _ assms(1)])
  moreover have "k \<le> 5 * (length jobs + n) + 1" using steps_weight [OF assms(3)] by (simp add: weight_init)
  ultimately show ?thesis using progress assms(2) by blast
qed

text \<open>Without a worker, which \<open>--jobs=-1\<close> gives, the main thread waits forever.\<close>

theorem pool_terminates_witness:
  "(\<exists>p'. tstep (\<lambda>j. (0, Fin 0)) (pool_init [new_job] 1) p')
   \<and> (let p = pool_init [new_job] 0; q = p\<lparr>todo := [], input_queue := [new_job]\<rparr> in
       tstep (\<lambda>j. (0, Fin 0)) p q \<and> \<not> finished q \<and> (\<forall>q'. \<not> tstep (\<lambda>j. (0, Fin 0)) q q'))"
proof
  have "list_all fresh [new_job]" by (simp add: fresh_def new_job_def)
  from pool_terminates [OF this, of 1 0 "\<lambda>j. (0, Fin 0)" "pool_init [new_job] 1"]
  show "\<exists>p'. tstep (\<lambda>j. (0, Fin 0)) (pool_init [new_job] 1) p'" by (simp add: finished_def pool_init_def)
  let ?p = "pool_init [new_job] 0"
  let ?q = "?p\<lparr>todo := [], input_queue := [new_job]\<rparr>"
  have "todo ?p = new_job # []" by (simp add: pool_init_def)
  from tstep.put [OF this, of "\<lambda>j. (0, Fin 0)"] have "tstep (\<lambda>j. (0, Fin 0)) ?p ?q" by (simp add: pool_init_def)
  moreover have "\<not> tstep (\<lambda>j. (0, Fin 0)) ?q q'" for q'
    by (auto elim!: tstepE simp: pool_init_def)
  ultimately show "let p = pool_init [new_job] 0; q = p\<lparr>todo := [], input_queue := [new_job]\<rparr> in
       tstep (\<lambda>j. (0, Fin 0)) p q \<and> \<not> finished q \<and> (\<forall>q'. \<not> tstep (\<lambda>j. (0, Fin 0)) q q')"
    by (simp add: Let_def finished_def pool_init_def)
qed

subsection \<open>The results\<close>

text \<open>What the main thread has at the end, in any order of the results.\<close>

lemma finished_results:
  assumes "pool_inv run_job jobs n p" "0 < n" "finished p"
  shows "mset (map erase (collected p)) = mset jobs"
    and "\<not> thread_exit p \<Longrightarrow> mset (collected p) = image_mset (job_done run_job) (mset jobs)"
proof -
  have f: "todo p = []" "awaited p = 0" "list_all (\<lambda>w. w = Stopped) (workers p)" using assms(3) by (simp_all add: finished_def)
  note r = stopped_returned [OF assms(1) f(1,3) assms(2)]
  have "length (collected p) = length jobs" using assms(1) f(2) by (simp add: pool_inv_def)
  then have o: "output_queue p = []" using r(2) by (simp add: returned_def)
  show e: "mset (map erase (collected p)) = mset jobs" using assms(1) r(1) o by (simp add: pool_inv_def conserved_def returned_def)
  assume "\<not> thread_exit p"
  then have "map (job_done run_job) (map erase (collected p)) = collected p" using assms(1) o
    by (auto simp: pool_inv_def results_ok_def returned_def intro!: map_idI)
  then show "mset (collected p) = image_mset (job_done run_job) (mset jobs)" using e by (metis mset_map)
qed

text \<open>A run can always be brought to its end when there is a worker, and without one only when there is nothing to do.\<close>

lemma tstep_exit: "tstep run_job p p' \<Longrightarrow> thread_exit p' = thread_exit p"
  by (erule tstepE) simp_all

lemma goes_on_to_end:
  assumes "list_all fresh jobs" "0 < n"
  shows "pool_inv run_job jobs n q \<Longrightarrow> \<not> thread_exit q \<Longrightarrow> \<exists>p. (pool_step run_job)\<^sup>*\<^sup>* q p \<and> finished p \<and> \<not> thread_exit p"
proof (induction "pool_weight q" arbitrary: q rule: less_induct)
  case less
  show ?case
  proof (cases "finished q")
    case True
    then show ?thesis using less.prems(2) by blast
  next
    case False
    then obtain q' where t: "tstep run_job q q'" using progress [OF less.prems(1) assms(2)] by blast
    then have st: "pool_step run_job q q'" by (simp add: pool_step_def)
    have "pool_inv run_job jobs n q'" by (rule pool_inv_step [OF st less.prems(1) assms(1)])
    then obtain p where "(pool_step run_job)\<^sup>*\<^sup>* q' p" "finished p" "\<not> thread_exit p"
      using less.hyps [OF step_weight [OF st]] tstep_exit [OF t] less.prems(2) by blast
    then show ?thesis using st by (meson converse_rtranclp_into_rtranclp)
  qed
qed

lemma run_can_end:
  "list_all fresh jobs \<Longrightarrow> 0 < n \<Longrightarrow> \<exists>p. (pool_step run_job)\<^sup>*\<^sup>* (pool_init jobs n) p \<and> finished p \<and> \<not> thread_exit p"
  using goes_on_to_end [OF _ _ pool_inv_init, of jobs n run_job] by (simp add: pool_init_def)

lemma no_worker_step: "tstep run_job p p' \<Longrightarrow> workers p = [] \<and> output_queue p = [] \<and> collected p = [] \<and> awaited p = m \<Longrightarrow>
    workers p' = [] \<and> output_queue p' = [] \<and> collected p' = [] \<and> awaited p' = m"
  by (erule tstepE) simp_all

lemma no_workers:
  "(pool_step run_job)\<^sup>*\<^sup>* (pool_init jobs 0) p \<Longrightarrow> workers p = [] \<and> output_queue p = [] \<and> collected p = [] \<and> awaited p = length jobs"
proof (induction rule: rtranclp_induct)
  case (step q r)
  then show ?case using no_worker_step [of run_job q r "length jobs"] by (auto simp: pool_step_def sigint_iff)
qed (simp add: pool_init_def)

lemma run_ends_iff:
  assumes "list_all fresh jobs"
  shows "(\<exists>p. (pool_step run_job)\<^sup>*\<^sup>* (pool_init jobs n) p \<and> finished p) \<longleftrightarrow> 0 < n \<or> jobs = []"
proof (cases "0 < n")
  case True
  then show ?thesis using run_can_end [OF assms True] by blast
next
  case False
  then have n: "n = 0" by simp
  have "finished (pool_init [] 0)" by (simp add: finished_def pool_init_def)
  then show ?thesis unfolding n using no_workers [of run_job jobs] by (fastforce simp: finished_def)
qed

end
