(* ===== verification/TestRunner.thy ===== *)
theory TestRunner
  imports JobQueue Regex
begin

text \<open>
  test.py around its queue: which suites and examples become jobs, the command of a job, what the main
  thread makes of each result, and the exit status. Conditions of examples are Python expressions
  that the program evaluates: \<open>holds\<close> says which are true. Programs run outside. Patterns of names
  use the star only; messages of the verbose mode are left out.
\<close>

subsection \<open>Configuration\<close>

record waf_config =
  w_appname :: string
  w_version :: string
  w_build_profile :: string
  w_nsc_enabled :: bool
  w_enable_examples :: bool
  w_enable_tests :: bool
  w_python_bindings :: bool
  w_valgrind_found :: bool
  w_python :: string
  w_basedir :: string
  w_builddir :: string
  w_cwd :: string

record test_options =
  t_buildpath :: string
  t_constrain :: string
  t_duration :: bool
  t_example :: string
  t_update_data :: bool
  t_fullness :: string
  t_valgrind :: bool
  t_multiple :: bool
  t_pyexample :: string
  t_suite :: string
  t_process_limit :: int

definition core_valgrind_skip_tests :: "string list" where
  "core_valgrind_skip_tests = [''ns3-tcp-cwnd'', ''nsc-tcp-loss'', ''ns3-tcp-interoperability'', ''routing-click'',
     ''lte-rr-ff-mac-scheduler'', ''lte-tdmt-ff-mac-scheduler'', ''lte-fdmt-ff-mac-scheduler'',
     ''lte-pf-ff-mac-scheduler'', ''lte-tta-ff-mac-scheduler'', ''lte-fdbet-ff-mac-scheduler'',
     ''lte-ttbet-ff-mac-scheduler'', ''lte-fdtbfq-ff-mac-scheduler'', ''lte-tdtbfq-ff-mac-scheduler'',
     ''lte-pss-ff-mac-scheduler'']"

definition core_nsc_missing_skip_tests :: "string list" where
  "core_nsc_missing_skip_tests = [''ns3-tcp-cwnd'', ''nsc-tcp-loss'', ''ns3-tcp-interoperability'']"

definition build_profile_suffix :: "waf_config \<Rightarrow> string" where
  "build_profile_suffix c = (if w_build_profile c = ''release'' then [] else ''-'' @ w_build_profile c)"

text \<open>The name that the build gives to a program.\<close>

definition built_name :: "waf_config \<Rightarrow> string \<Rightarrow> string" where
  "built_name c name = w_appname c @ w_version c @ ''-'' @ name @ build_profile_suffix c"

definition test_runner_name :: "waf_config \<Rightarrow> string" where
  "test_runner_name c = built_name c ''test-runner''"

subsection \<open>Examples to run\<close>

text \<open>The name of an example without its arguments, and what is put after a path.\<close>

definition example_args :: "string \<Rightarrow> string \<times> string" where
  "example_args name = (case split_once CHR '' '' name of None \<Rightarrow> (name, []) | Some (n, a) \<Rightarrow> (n, '' '' @ a))"

text \<open>One directory: \<open>on_disk\<close> says which files exist, \<open>rel_dir\<close> is the executable directory relative to
  the build directory. The C++ examples are \<open>(name, do_run, do_valgrind_run)\<close>, the Python examples
  \<open>(name, do_run)\<close>; the result has the new entries of \<open>example_tests\<close>,
  \<open>example_names_original\<close> and \<open>python_tests\<close>.\<close>

definition cpp_example :: "waf_config \<Rightarrow> (string \<Rightarrow> bool) \<Rightarrow> string \<Rightarrow> string \<Rightarrow> string \<times> string \<times> string \<Rightarrow>
    ((string \<times> string \<times> string \<times> string) \<times> string) option" where
  "cpp_example c on_disk cpp_executable_dir rel_dir e = (case e of (original, do_run, do_valgrind_run) \<Rightarrow>
     let (example_name, args) = example_args original;
         example_path = path_join cpp_executable_dir (built_name c example_name);
         example_name = path_join rel_dir example_name
     in if on_disk example_path
        then Some ((example_name @ args, example_path @ args, do_run, do_valgrind_run), original)
        else None)"

definition python_example :: "(string \<Rightarrow> bool) \<Rightarrow> string \<Rightarrow> string \<times> string \<Rightarrow> (string \<times> string) option" where
  "python_example on_disk python_script_dir e = (case e of (original, do_run) \<Rightarrow>
     let (example_name, args) = example_args original;
         example_path = path_join python_script_dir example_name
     in if on_disk example_path then Some (example_path @ args, do_run) else None)"

definition parse_examples_to_run_file :: "waf_config \<Rightarrow> (string \<Rightarrow> bool) \<Rightarrow> string \<Rightarrow> string \<Rightarrow> string \<Rightarrow> string \<Rightarrow>
    (string \<times> string \<times> string) list \<Rightarrow> (string \<times> string) list \<Rightarrow>
    (string \<times> string \<times> string \<times> string) list \<times> string list \<times> (string \<times> string) list" where
  "parse_examples_to_run_file c on_disk path cpp_executable_dir rel_dir python_script_dir cpp_examples python_examples =
     (if \<not> on_disk path then ([], [], [])
      else (let cpp = List.map_filter (cpp_example c on_disk cpp_executable_dir rel_dir) cpp_examples
        in (map fst cpp, map snd cpp, List.map_filter (python_example on_disk python_script_dir) python_examples)))"

subsection \<open>Jobs\<close>

definition py_upper :: "string \<Rightarrow> string" where
  "py_upper s = map (\<lambda>c. if CHR ''a'' \<le> c \<and> c \<le> CHR ''z'' then char_of ((of_char c :: nat) - 32) else c) s"

text \<open>The suites that are asked for: the output of the test runner is a list of lines, \<open>names kind\<close>
  for a kind of test and \<open>names None\<close> for all. \<open>None\<close> in the result: an unknown name, exit status 2.\<close>

definition suite_list :: "test_options \<Rightarrow> (string option \<Rightarrow> string list) \<Rightarrow> string list option" where
  "suite_list opt names =
     (let performance = (\<lambda>single suites. if \<not> single \<and> t_constrain opt \<noteq> ''performance''
            then fold remove1 (names (Some ''performance'')) suites else suites)
      in if t_suite opt \<noteq> [] then (let suites_found = filter (fnmatch (t_suite opt)) (names None) in
           if suites_found = [] then None
           else Some (performance (length suites_found = 1) suites_found))
         else if t_example opt = [] \<and> t_pyexample opt = [] then
           Some (performance False (names (if t_constrain opt \<noteq> [] then Some (t_constrain opt) else None)))
         else Some (performance False [[]]))"

definition suite_job :: "waf_config \<Rightarrow> test_options \<Rightarrow> string \<Rightarrow> string \<Rightarrow> job" where
  "suite_job c opt testpy_output_dir test =
     (let multiple = (if t_multiple opt then [] else '' --stop-on-failure'');
          fullness = (if t_fullness opt \<noteq> [] then '' --fullness='' @ py_upper (t_fullness opt) else '' --fullness=QUICK'');
          job = new_job\<lparr>j_display_name := test,
            j_tmp_file_name := path_join testpy_output_dir (test @ ''.xml''), j_cwd := w_cwd c, j_basedir := w_cwd c,
            j_tempdir := testpy_output_dir,
            j_shell_command := path_join ''utils'' (test_runner_name c @ '' --test-name='' @ test @ multiple @ fullness)\<rparr>;
          job = (if t_valgrind opt \<and> test \<in> set core_valgrind_skip_tests
            then job\<lparr>j_is_skip := True, j_skip_reason := ''crashes valgrind''\<rparr> else job)
      in if \<not> w_nsc_enabled c \<and> test \<in> set core_nsc_missing_skip_tests
         then job\<lparr>j_is_skip := True, j_skip_reason := ''requires NSC''\<rparr> else job)"

definition suite_jobs :: "waf_config \<Rightarrow> test_options \<Rightarrow> string \<Rightarrow> string list \<Rightarrow> job list" where
  "suite_jobs c opt testpy_output_dir suites =
     map (suite_job c opt testpy_output_dir) (filter (\<lambda>t. t \<noteq> []) (map strip suites))"

definition example_base :: "waf_config \<Rightarrow> string \<Rightarrow> string \<Rightarrow> string \<Rightarrow> job" where
  "example_base c testpy_output_dir name command = new_job\<lparr>j_display_name := name, j_cwd := testpy_output_dir,
     j_basedir := w_cwd c, j_tempdir := testpy_output_dir, j_shell_command := command\<rparr>"

definition test_program :: "string \<Rightarrow> string" where
  "test_program test = basename (case split_once CHR '' '' test of None \<Rightarrow> test | Some (t, _) \<Rightarrow> t)"

definition programs_dictionary :: "string list \<Rightarrow> (string, string) dict" where
  "programs_dictionary programs = fold (\<lambda>p. dset (basename p) p) programs []"

definition example_job :: "waf_config \<Rightarrow> test_options \<Rightarrow> (string \<Rightarrow> bool) \<Rightarrow> string \<Rightarrow> string \<times> string \<times> string \<times> string \<Rightarrow> job" where
  "example_job c opt holds testpy_output_dir e = (case e of (name, test, do_run, do_valgrind_run) \<Rightarrow>
     let job = (example_base c testpy_output_dir name test)\<lparr>j_is_example := True, j_build_path := t_buildpath opt\<rparr>
     in if t_valgrind opt \<and> \<not> holds do_valgrind_run
        then job\<lparr>j_is_skip := True, j_skip_reason := ''skip in valgrind runs''\<rparr> else job)"

definition example_jobs :: "waf_config \<Rightarrow> test_options \<Rightarrow> (string \<Rightarrow> bool) \<Rightarrow> (string \<Rightarrow> string) \<Rightarrow> string \<Rightarrow>
    (string, string) dict \<Rightarrow> (string \<times> string \<times> string \<times> string) list \<Rightarrow> job list \<times> outline list" where
  "example_jobs c opt holds abspath testpy_output_dir programs example_tests =
     (if t_suite opt = [] \<and> t_example opt = [] \<and> t_pyexample opt = [] then
        (if (t_constrain opt = [] \<or> t_constrain opt = ''example'') \<and> w_enable_examples c
         then (map (example_job c opt holds testpy_output_dir) (filter (\<lambda>(name, test, do_run, do_valgrind_run).
             dget programs (test_program test) \<noteq> None \<and> holds do_run) example_tests), [])
         else ([], []))
      else if t_example opt \<noteq> [] then
        (let keys = filter (fnmatch (built_name c (t_example opt))) (dkeys programs) in
         if keys = [] then ([], [Out (''No example matching the name '' @ t_example opt)])
         else (map (\<lambda>k. let example_path = abspath (dget_default programs k []) in
             (example_base c testpy_output_dir example_path example_path)\<lparr>j_is_example := True, j_build_path := t_buildpath opt\<rparr>) keys, []))
      else ([], []))"

definition pyexample_job :: "waf_config \<Rightarrow> test_options \<Rightarrow> string \<Rightarrow> string \<Rightarrow> job" where
  "pyexample_job c opt testpy_output_dir test =
     (let job = (example_base c testpy_output_dir test test)\<lparr>j_is_pyexample := True\<rparr>;
          job = (if t_valgrind opt then job\<lparr>j_is_skip := True, j_skip_reason := ''skip in valgrind runs''\<rparr> else job)
      in if \<not> w_python_bindings c then job\<lparr>j_is_skip := True, j_skip_reason := ''requires Python bindings''\<rparr> else job)"

definition pyexample_jobs :: "waf_config \<Rightarrow> test_options \<Rightarrow> (string \<Rightarrow> bool) \<Rightarrow> string \<Rightarrow> string list \<Rightarrow>
    (string \<times> string) list \<Rightarrow> job list \<times> outline list" where
  "pyexample_jobs c opt holds testpy_output_dir scripts python_tests =
     (if t_suite opt = [] \<and> t_example opt = [] \<and> t_pyexample opt = [] then
        (if (t_constrain opt = [] \<or> t_constrain opt = ''pyexample'') \<and> w_enable_examples c
         then (map (\<lambda>(test, do_run). pyexample_job c opt testpy_output_dir test) (filter (\<lambda>(test, do_run).
             test_program test \<in> set scripts \<and> holds do_run) python_tests), [])
         else ([], []))
      else if t_pyexample opt \<noteq> [] then
        (if basename (t_pyexample opt) \<notin> set scripts
         then ([], [Out (''Example '' @ basename (t_pyexample opt) @ '' is not runnable.'')])
         else ([(example_base c testpy_output_dir (t_pyexample opt) (t_pyexample opt))\<lparr>j_is_pyexample := True\<rparr>], []))
      else ([], []))"

text \<open>The number of worker threads: \<open>range(processors)\<close> is empty for a negative limit.\<close>

definition worker_count :: "test_options \<Rightarrow> int \<Rightarrow> int \<times> outline list" where
  "worker_count opt processors =
     (if t_process_limit opt = 0 then (processors, [])
      else if processors < t_process_limit opt then (processors, [Out (''Using all '' @ show_int processors @ '' processors'')])
      else (t_process_limit opt, [Out (''Limiting to '' @ show_int (t_process_limit opt) @ '' worker processes'')]))"

subsection \<open>The command of a job\<close>

definition path_cmd :: "waf_config \<Rightarrow> string \<Rightarrow> bool \<Rightarrow> string \<Rightarrow> string" where
  "path_cmd c shell_command is_python build_path =
     (if is_python then w_python c @ '' '' @ path_join (w_basedir c) shell_command
      else if build_path \<noteq> [] then path_join build_path shell_command
      else path_join (w_builddir c) shell_command)"

definition sync_command :: "waf_config \<Rightarrow> string \<Rightarrow> bool \<Rightarrow> bool \<Rightarrow> string \<Rightarrow> string" where
  "sync_command c shell_command valgrind is_python build_path =
     (if valgrind
      then ''valgrind --suppressions='' @ path_join (w_basedir c) ''testpy.supp''
        @ '' --leak-check=full --show-reachable=yes --error-exitcode=2 --errors-for-leak-kinds=all ''
        @ path_cmd c shell_command is_python build_path
      else path_cmd c shell_command is_python build_path)"

text \<open>A program outside: for a command and a directory its return code, whether its two outputs can be
  decoded, and the time it took.\<close>

definition run_job_synchronously :: "waf_config \<Rightarrow> (string \<Rightarrow> string \<Rightarrow> int \<times> bool \<times> bool \<times> pyfloat) \<Rightarrow>
    string \<Rightarrow> string \<Rightarrow> bool \<Rightarrow> bool \<Rightarrow> string \<Rightarrow> int \<times> pyfloat" where
  "run_job_synchronously c popen shell_command directory valgrind is_python build_path =
     (let (retval, out_ok, err_ok, elapsed) = popen (sync_command c shell_command valgrind is_python build_path) directory
      in (if out_ok \<and> err_ok then retval else 1, elapsed))"

text \<open>What a worker runs for a job.\<close>

definition run_job :: "waf_config \<Rightarrow> test_options \<Rightarrow> (string \<Rightarrow> string \<Rightarrow> int \<times> bool \<times> bool \<times> pyfloat) \<Rightarrow> job \<Rightarrow> int \<times> pyfloat" where
  "run_job c opt popen j =
     (if j_is_example j \<or> j_is_pyexample j
      then run_job_synchronously c popen (j_shell_command j) (j_cwd j) (t_valgrind opt) (j_is_pyexample j) (j_build_path j)
      else run_job_synchronously c popen
        (j_shell_command j @ '' --xml --tempdir='' @ j_tempdir j @ '' --out='' @ j_tmp_file_name j @ '' ''
          @ (if t_update_data opt then ''--update-data'' else [])) (j_cwd j) (t_valgrind opt) False [])"

subsection \<open>Collecting the results\<close>

datatype test_status = PASS | FAIL | VALGR | CRASH | SKIP

definition status_of :: "job \<Rightarrow> test_status" where
  "status_of j = (if j_is_skip j then SKIP else if j_returncode j = 0 then PASS else if j_returncode j = 1 then FAIL
     else if j_returncode j = 2 then VALGR else CRASH)"

fun status_text :: "test_status \<Rightarrow> string" where
  "status_text PASS = ''PASS''"
| "status_text FAIL = ''FAIL''"
| "status_text VALGR = ''VALGR''"
| "status_text CRASH = ''CRASH''"
| "status_text SKIP = ''SKIP''"

definition escape_code :: "string \<Rightarrow> string" where
  "escape_code s = char_of (27 :: nat) # s"

fun status_color :: "test_status \<Rightarrow> string" where
  "status_color PASS = escape_code ''[32m''"
| "status_color FAIL = escape_code ''[01;31m''"
| "status_color VALGR = escape_code ''[36m''"
| "status_color CRASH = escape_code ''[35m''"
| "status_color SKIP = escape_code ''[37m''"

definition status_print :: "bool \<Rightarrow> test_status \<Rightarrow> string" where
  "status_print colors s = (if colors then status_color s @ status_text s @ escape_code ''[0m'' else status_text s)"

record tally =
  passed_tests :: int
  failed_tests :: int
  skipped_tests :: int
  crashed_tests :: int
  valgrind_errors :: int
  failed_testnames :: "string list"
  skipped_testnames :: "string list"
  crashed_testnames :: "string list"
  valgrind_testnames :: "string list"
  printed :: "outline list"
  xml_results :: "string list"

definition count_status :: "job \<Rightarrow> tally \<Rightarrow> tally" where
  "count_status job s = (case status_of job of
      SKIP \<Rightarrow> s\<lparr>skipped_tests := skipped_tests s + 1,
        skipped_testnames := skipped_testnames s @ [j_display_name job @ '' ('' @ j_skip_reason job @ '')'']\<rparr>
    | PASS \<Rightarrow> s\<lparr>passed_tests := passed_tests s + 1\<rparr>
    | FAIL \<Rightarrow> s\<lparr>failed_tests := failed_tests s + 1, failed_testnames := failed_testnames s @ [j_display_name job]\<rparr>
    | VALGR \<Rightarrow> s\<lparr>valgrind_errors := valgrind_errors s + 1, valgrind_testnames := valgrind_testnames s @ [j_display_name job]\<rparr>
    | CRASH \<Rightarrow> s\<lparr>crashed_tests := crashed_tests s + 1, crashed_testnames := crashed_testnames s @ [j_display_name job]\<rparr>)"

definition progress_line :: "test_options \<Rightarrow> bool \<Rightarrow> int \<Rightarrow> job \<Rightarrow> tally \<Rightarrow> string" where
  "progress_line opt colors total_tests job s =
     ''['' @ show_int (passed_tests s + failed_tests s + skipped_tests s + crashed_tests s) @ ''/'' @ show_int total_tests @ ''] ''
     @ status_print colors (status_of job)
     @ (if t_duration opt \<or> t_constrain opt = ''performance'' then '' ('' @ fmt_fixed 3 (j_elapsed_time job) @ '')'' else [])
     @ '': '' @ (if j_is_example job \<or> j_is_pyexample job then ''Example'' else ''TestSuite'') @ '' '' @ j_display_name job"

definition nl :: string where
  "nl = [char_of (10 :: nat)]"

definition dquote :: string where
  "dquote = [char_of (34 :: nat)]"

text \<open>The pieces added to the results file. A suite that ran to its end has left a file of its own,
  \<open>tmp_file\<close>.\<close>

definition result_xml :: "(string \<Rightarrow> string option) \<Rightarrow> job \<Rightarrow> string list result" where
  "result_xml tmp_file job =
     (if j_is_example job \<or> j_is_pyexample job
      then Inr [''<Example>'' @ nl, ''  <Name>'' @ j_display_name job @ ''</Name>'' @ nl,
        ''  <Result>'' @ status_text (status_of job) @ ''</Result>'' @ nl,
        ''  <Time real='' @ dquote @ fmt_fixed 3 (j_elapsed_time job) @ dquote @ ''/>'' @ nl, ''</Example>'' @ nl]
      else if j_is_skip job
      then Inr [''<Test>'' @ nl, ''  <Name>'' @ j_display_name job @ ''</Name>'' @ nl, ''  <Result>SKIP</Result>'' @ nl,
        ''  <Reason>'' @ j_skip_reason job @ ''</Reason>'' @ nl, ''</Test>'' @ nl]
      else if j_returncode job = 0 \<or> j_returncode job = 1 \<or> j_returncode job = 2
      then (case tmp_file (j_tmp_file_name job) of None \<Rightarrow> Inl FileNotFoundError | Some text \<Rightarrow> Inr [text])
      else Inr [''<Test>'' @ nl, ''  <Name>'' @ j_display_name job @ ''</Name>'' @ nl, ''  <Result>CRASH</Result>'' @ nl,
        ''</Test>'' @ nl])"

definition collect_job :: "test_options \<Rightarrow> bool \<Rightarrow> (string \<Rightarrow> string option) \<Rightarrow> int \<Rightarrow> job \<Rightarrow> tally \<Rightarrow> tally result" where
  "collect_job opt colors tmp_file total_tests job s =
     (if j_is_break job then Inr s
      else (let s = count_status job s;
                s = s\<lparr>printed := printed s @ [Out (progress_line opt colors total_tests job s)]\<rparr>
        in bindR (result_xml tmp_file job) (\<lambda>xml. Inr (s\<lparr>xml_results := xml_results s @ xml\<rparr>))))"

definition tally_init :: tally where
  "tally_init = \<lparr>passed_tests = 0, failed_tests = 0, skipped_tests = 0, crashed_tests = 0, valgrind_errors = 0,
     failed_testnames = [], skipped_testnames = [], crashed_testnames = [], valgrind_testnames = [],
     printed = [], xml_results = [''<?xml version='' @ dquote @ ''1.0'' @ dquote @ ''?>'' @ nl, ''<Results>'' @ nl]\<rparr>"

definition names_section :: "string \<Rightarrow> string list \<Rightarrow> outline list" where
  "names_section title names = (if names = [] then []
     else [Out (title @ nl @ ''    '' @ join (nl @ ''    '') (sort names))])"

text \<open>The end of the run: the closing line of the results file, the summary, the exit status.\<close>

definition test_run_end :: "int \<Rightarrow> tally \<Rightarrow> string list \<times> outline list \<times> int" where
  "test_run_end total_tests s =
     (xml_results s @ [''</Results>'' @ nl],
      printed s @ [Out (show_int (passed_tests s) @ '' of '' @ show_int total_tests @ '' tests passed (''
        @ show_int (passed_tests s) @ '' passed, '' @ show_int (skipped_tests s) @ '' skipped, ''
        @ show_int (failed_tests s) @ '' failed, '' @ show_int (crashed_tests s) @ '' crashed, ''
        @ show_int (valgrind_errors s) @ '' valgrind errors)'')]
      @ names_section ''List of SKIPped tests:'' (skipped_testnames s)
      @ names_section ''List of FAILed tests:'' (failed_testnames s)
      @ names_section ''List of CRASHed tests:'' (crashed_testnames s)
      @ names_section ''List of VALGR failures:'' (valgrind_testnames s),
      if passed_tests s + skipped_tests s = total_tests then 0 else 1)"

definition run_report :: "test_options \<Rightarrow> bool \<Rightarrow> (string \<Rightarrow> string option) \<Rightarrow> int \<Rightarrow> job list \<Rightarrow>
    (string list \<times> outline list \<times> int) result" where
  "run_report opt colors tmp_file total_tests results =
     bindR (foldR (collect_job opt colors tmp_file total_tests) results tally_init) (\<lambda>s. Inr (test_run_end total_tests s))"

text \<open>All jobs of a run, in the order in which they are put into the queue.\<close>

definition dispatched :: "waf_config \<Rightarrow> test_options \<Rightarrow> (string \<Rightarrow> bool) \<Rightarrow> (string \<Rightarrow> string) \<Rightarrow> string \<Rightarrow> string list \<Rightarrow>
    string list \<Rightarrow> string list \<Rightarrow> (string \<times> string \<times> string \<times> string) list \<Rightarrow> (string \<times> string) list \<Rightarrow> job list" where
  "dispatched c opt holds abspath testpy_output_dir suites programs scripts example_tests python_tests =
     suite_jobs c opt testpy_output_dir suites
     @ fst (example_jobs c opt holds abspath testpy_output_dir (programs_dictionary programs) example_tests)
     @ fst (pyexample_jobs c opt holds testpy_output_dir scripts python_tests)"

subsection \<open>What the run reports\<close>

text \<open>The results with a status, and what a result adds to the results file.\<close>

definition having :: "test_status \<Rightarrow> job list \<Rightarrow> job list" where
  "having st js = filter (\<lambda>j. \<not> j_is_break j \<and> status_of j = st) js"

definition xml_of :: "(string \<Rightarrow> string option) \<Rightarrow> job \<Rightarrow> string list" where
  "xml_of tmp_file j = (if j_is_break j then [] else case result_xml tmp_file j of Inl e \<Rightarrow> [] | Inr x \<Rightarrow> x)"

definition skip_name :: "job \<Rightarrow> string" where
  "skip_name j = j_display_name j @ '' ('' @ j_skip_reason j @ '')''"

lemma having_simps [simp]:
  "having st [] = []"
  "having st (j # js) = (if \<not> j_is_break j \<and> status_of j = st then j # having st js else having st js)"
  by (simp_all add: having_def)

text \<open>The tally after a list of results.\<close>

definition tallied :: "(string \<Rightarrow> string option) \<Rightarrow> job list \<Rightarrow> tally \<Rightarrow> tally \<Rightarrow> bool" where
  "tallied tmp_file js s s' \<longleftrightarrow>
     passed_tests s' = passed_tests s + int (length (having PASS js))
   \<and> failed_tests s' = failed_tests s + int (length (having FAIL js))
   \<and> skipped_tests s' = skipped_tests s + int (length (having SKIP js))
   \<and> crashed_tests s' = crashed_tests s + int (length (having CRASH js))
   \<and> valgrind_errors s' = valgrind_errors s + int (length (having VALGR js))
   \<and> failed_testnames s' = failed_testnames s @ map j_display_name (having FAIL js)
   \<and> skipped_testnames s' = skipped_testnames s @ map skip_name (having SKIP js)
   \<and> crashed_testnames s' = crashed_testnames s @ map j_display_name (having CRASH js)
   \<and> valgrind_testnames s' = valgrind_testnames s @ map j_display_name (having VALGR js)
   \<and> length (printed s') = length (printed s) + length (filter (\<lambda>j. \<not> j_is_break j) js)
   \<and> xml_results s' = xml_results s @ concat (map (xml_of tmp_file) js)"

lemma tallied_Cons:
  assumes "tallied tmp_file [j] s s1" "tallied tmp_file js s1 s'"
  shows "tallied tmp_file (j # js) s s'"
  using assms unfolding tallied_def by simp

lemma collect_one:
  assumes "None \<notin> range tmp_file"
  shows "\<exists>s1. collect_job opt colors tmp_file n j s = Inr s1 \<and> tallied tmp_file [j] s s1"
proof (cases "j_is_break j")
  case True
  then show ?thesis by (simp add: collect_job_def tallied_def xml_of_def)
next
  case False
  obtain t where t: "tmp_file (j_tmp_file_name j) = Some t" using assms by (metis not_None_eq rangeI)
  have "\<exists>x. result_xml tmp_file j = Inr x" by (simp add: result_xml_def t)
  then obtain x where x: "result_xml tmp_file j = Inr x" ..
  then have xo: "xml_of tmp_file j = x" using False by (simp add: xml_of_def)
  show ?thesis using False x xo
    by (cases "status_of j") (simp_all add: collect_job_def Let_def count_status_def tallied_def skip_name_def)
qed

lemma collect_all:
  assumes "None \<notin> range tmp_file"
  shows "\<exists>s'. foldR (collect_job opt colors tmp_file n) js s = Inr s' \<and> tallied tmp_file js s s'"
proof (induction js arbitrary: s)
  case Nil
  show ?case by (simp add: tallied_def)
next
  case (Cons j js)
  obtain s1 where s1: "collect_job opt colors tmp_file n j s = Inr s1" "tallied tmp_file [j] s s1"
    using collect_one [OF assms] by blast
  obtain s' where "foldR (collect_job opt colors tmp_file n) js s1 = Inr s'" "tallied tmp_file js s1 s'"
    using Cons by blast
  then show ?case using s1 tallied_Cons by (metis bindR_simps(2) foldR.simps(2))
qed

lemma length_filter_all: "length (filter P xs) = length xs \<longleftrightarrow> (\<forall>x\<in>set xs. P x)"
  by (metis filter_True length_filter_less nat_neq_iff)

definition good :: "job \<Rightarrow> bool" where
  "good j \<longleftrightarrow> \<not> j_is_break j \<and> (j_is_skip j \<or> j_returncode j = 0)"

lemma having_good: "length (having PASS js) + length (having SKIP js) = length (filter good js)"
  by (induction js) (auto simp: good_def status_of_def)

lemma report_status:
  assumes "None \<notin> range tmp_file"
  shows "\<exists>s xml out. run_report opt colors tmp_file (int (length results)) results =
      Inr (xml, out, if \<forall>j\<in>set results. good j then 0 else 1)
    \<and> tallied tmp_file results tally_init s \<and> (xml, out) = (fst (test_run_end (int (length results)) s), fst (snd (test_run_end (int (length results)) s)))"
proof -
  obtain s where s: "foldR (collect_job opt colors tmp_file (int (length results))) results tally_init = Inr s"
    "tallied tmp_file results tally_init s" using collect_all [OF assms] by blast
  have "passed_tests s + skipped_tests s = int (length (filter good results))"
    using s(2) having_good [of results] by (simp add: tallied_def tally_init_def)
  then have "(passed_tests s + skipped_tests s = int (length results)) = (\<forall>j\<in>set results. good j)"
    by (simp add: length_filter_all)
  then show ?thesis using s by (intro exI [of _ s]) (simp add: run_report_def test_run_end_def)
qed

lemma dispatched_fresh: "list_all fresh (dispatched c opt holds abspath dir suites programs scripts example_tests python_tests)"
proof -
  have "fresh (suite_job c opt dir t)" "fresh (example_job c opt holds dir e)" "fresh (pyexample_job c opt dir t)" for t e
    by (auto simp: fresh_def suite_job_def example_job_def pyexample_job_def example_base_def new_job_def Let_def split: prod.splits)
  then show ?thesis
    by (auto simp: dispatched_def list_all_iff suite_jobs_def example_jobs_def pyexample_jobs_def fresh_def example_base_def
        new_job_def Let_def split: if_splits)
qed

text \<open>When the test run comes to its end, however its threads interleave and even after a control-C,
  it makes its report, provided the suites leave their result files; its exit status is 0 exactly
  when every job was carried out and was skipped or returned 0, and without a control-C this
  depends on the selected tests alone.\<close>

theorem test_run_status:
  assumes "jobs = dispatched c opt holds abspath dir suites programs scripts example_tests python_tests" "0 < n"
    and "(pool_step (run_job c opt popen))\<^sup>*\<^sup>* (pool_init jobs n) p" "finished p"
    and "None \<notin> range tmp_file"
  shows "\<exists>xml out status. run_report opt colors tmp_file (int (length jobs)) (collected p) = Inr (xml, out, status)
    \<and> (status = 0 \<longleftrightarrow> (\<forall>j\<in>set (collected p). \<not> j_is_break j \<and> (j_is_skip j \<or> j_returncode j = 0)))
    \<and> (\<not> thread_exit p \<longrightarrow> (status = 0 \<longleftrightarrow> (\<forall>j\<in>set jobs. j_is_skip j \<or> fst (run_job c opt popen j) = 0)))"
proof -
  have fr: "list_all fresh jobs" using assms(1) dispatched_fresh by simp
  have inv: "pool_inv (run_job c opt popen) jobs n p" by (rule pool_inv_reachable [OF assms(3) fr])
  note res = finished_results [OF inv assms(2,4)]
  have len: "length (collected p) = length jobs" using res(1) by (metis length_map mset_eq_length)
  obtain xml out where r: "run_report opt colors tmp_file (int (length jobs)) (collected p) =
      Inr (xml, out, if \<forall>j\<in>set (collected p). good j then 0 else 1)"
    using report_status [OF assms(5), of opt colors "collected p"] len by auto
  have d: "good (job_done (run_job c opt popen) j) \<longleftrightarrow> j_is_skip j \<or> fst (run_job c opt popen j) = 0" if "j \<in> set jobs" for j
    using fr that by (auto simp: good_def job_done_def fresh_def list_all_iff)
  have "(\<forall>j\<in>set (collected p). good j) \<longleftrightarrow> (\<forall>j\<in>set jobs. j_is_skip j \<or> fst (run_job c opt popen j) = 0)" if "\<not> thread_exit p"
  proof -
    have "set (collected p) = job_done (run_job c opt popen) ` set jobs"
      using res(2) [OF that] by (metis set_image_mset set_mset_mset)
    then show ?thesis using d by simp
  qed
  then have "\<exists>status. run_report opt colors tmp_file (int (length jobs)) (collected p) = Inr (xml, out, status)
    \<and> (status = 0 \<longleftrightarrow> (\<forall>j\<in>set (collected p). good j))
    \<and> (\<not> thread_exit p \<longrightarrow> (status = 0 \<longleftrightarrow> (\<forall>j\<in>set jobs. j_is_skip j \<or> fst (run_job c opt popen j) = 0)))"
    using r by (cases "\<forall>j\<in>set (collected p). good j") simp_all
  then show ?thesis unfolding good_def by blast
qed

text \<open>C28: A parallel run without a control-C reports what running the selected tests one after the other
  reports: the same summary and lists of names, the same exit status, and the same pieces in the
  results file, in some order.\<close>

theorem parallel_as_sequential:
  assumes "jobs = dispatched c opt holds abspath dir suites programs scripts example_tests python_tests" "0 < n"
    and "(pool_step (run_job c opt popen))\<^sup>*\<^sup>* (pool_init jobs n) p" "finished p" "\<not> thread_exit p"
    and "None \<notin> range tmp_file"
  shows "\<exists>xml out status xml' out'.
      run_report opt colors tmp_file (int (length jobs)) (collected p) = Inr (xml, out, status)
    \<and> run_report opt colors tmp_file (int (length jobs)) (map (job_done (run_job c opt popen)) jobs) = Inr (xml', out', status)
    \<and> drop (length jobs) out = drop (length jobs) out' \<and> length out = length out' \<and> mset xml = mset xml'"
proof -
  let ?seq = "map (job_done (run_job c opt popen)) jobs"
  have fr: "list_all fresh jobs" using assms(1) dispatched_fresh by simp
  have inv: "pool_inv (run_job c opt popen) jobs n p" by (rule pool_inv_reachable [OF assms(3) fr])
  have ms: "mset (collected p) = mset ?seq" using finished_results(2) [OF inv assms(2,4,5)] by simp
  have len: "length (collected p) = length jobs" using mset_eq_length [OF ms] by simp
  have st: "set (collected p) = set ?seq" by (rule mset_eq_setD [OF ms])
  obtain s xml out where r: "run_report opt colors tmp_file (int (length jobs)) (collected p) =
      Inr (xml, out, if \<forall>j\<in>set (collected p). good j then 0 else 1)" "tallied tmp_file (collected p) tally_init s"
    "xml = fst (test_run_end (int (length jobs)) s)" "out = fst (snd (test_run_end (int (length jobs)) s))"
    using report_status [OF assms(6), of opt colors "collected p"] len by auto
  obtain s' xml' out' where r': "run_report opt colors tmp_file (int (length jobs)) ?seq =
      Inr (xml', out', if \<forall>j\<in>set ?seq. good j then 0 else 1)" "tallied tmp_file ?seq tally_init s'"
    "xml' = fst (test_run_end (int (length jobs)) s')" "out' = fst (snd (test_run_end (int (length jobs)) s'))"
    using report_status [OF assms(6), of opt colors ?seq] by auto
  have h: "mset (having x (collected p)) = mset (having x ?seq)" for x
    unfolding having_def mset_filter ms by simp
  have hl: "length (having x (collected p)) = length (having x ?seq)" for x by (rule mset_eq_length [OF h])
  have hs: "sort (map f (having x (collected p))) = sort (map f (having x ?seq))" for f :: "job \<Rightarrow> string" and x
    by (intro properties_for_sort) (simp_all add: h)
  have he: "having x (collected p) = [] \<longleftrightarrow> having x ?seq = []" for x using hl [of x] by (metis length_0_conv)
  have all: "filter (\<lambda>j. \<not> j_is_break j) (collected p) = collected p" "filter (\<lambda>j. \<not> j_is_break j) ?seq = ?seq"
    using st fr by (auto simp: filter_id_conv list_all_iff fresh_def)
  have pl: "length (printed s) = length jobs" "length (printed s') = length jobs"
    using r(2) r'(2) len unfolding tallied_def all by (simp_all add: tally_init_def)
  have counts: "passed_tests s = passed_tests s'" "failed_tests s = failed_tests s'" "skipped_tests s = skipped_tests s'"
    "crashed_tests s = crashed_tests s'" "valgrind_errors s = valgrind_errors s'"
    using r(2) r'(2) by (simp_all add: tallied_def hl)
  have names: "names_section t (failed_testnames s) = names_section t (failed_testnames s')"
    "names_section t (skipped_testnames s) = names_section t (skipped_testnames s')"
    "names_section t (crashed_testnames s) = names_section t (crashed_testnames s')"
    "names_section t (valgrind_testnames s) = names_section t (valgrind_testnames s')" for t
    using r(2) r'(2) by (simp_all add: tallied_def tally_init_def names_section_def hs he)
  have "mset (concat (map (xml_of tmp_file) (collected p))) = mset (concat (map (xml_of tmp_file) ?seq))"
    unfolding mset_concat using ms by (metis mset_map sum_mset_sum_list)
  then have "mset xml = mset xml'" using r(2,3) r'(2,3) by (simp add: tallied_def test_run_end_def)
  moreover have "drop (length jobs) out = drop (length jobs) out' \<and> length out = length out'"
    unfolding r(4) r'(4) by (simp add: test_run_end_def pl counts names)
  ultimately show ?thesis using r(1) r'(1) st by auto
qed

subsection \<open>A run\<close>

text \<open>One job on one worker.\<close>

lemma one_job_run:
  assumes "\<not> j_is_break j" "\<not> j_is_skip j"
  shows "(pool_step r)\<^sup>*\<^sup>* (pool_init [j] 1) \<lparr>todo = [], input_queue = [], output_queue = [], workers = [Stopped],
     thread_exit = False, collected = [job_done r j], awaited = 0\<rparr>"
proof -
  let ?P = "\<lambda>td inq ws out col n. \<lparr>todo = td, input_queue = inq, output_queue = out, workers = [ws],
     thread_exit = False, collected = col, awaited = n\<rparr>"
  have b: "j_is_break break_job" by (simp add: break_job_def)
  note s = tstep.put [of _ _ _ r] tstep.get [of 0 _ _ _ r] tstep.stop [of 0 _ _ r] tstep.launch [of 0 _ _ r] tstep.finish [of 0 _ _ r] tstep.collect [of _ _ _ _ r]
  have a1: "tstep r (?P [j, break_job] [] Waiting [] [] 1) (?P [break_job] [j] Waiting [] [] 1)"
    using s(1) [of "?P [j, break_job] [] Waiting [] [] 1"] by simp
  have a2: "tstep r (?P [break_job] [j] Waiting [] [] 1) (?P [] [j, break_job] Waiting [] [] 1)"
    using s(1) [of "?P [break_job] [j] Waiting [] [] 1"] by simp
  have a3: "tstep r (?P [] [j, break_job] Waiting [] [] 1) (?P [] [break_job] (Got j) [] [] 1)"
    using s(2) [of "?P [] [j, break_job] Waiting [] [] 1"] by simp
  have a4: "tstep r (?P [] [break_job] (Got j) [] [] 1) (?P [] [break_job] (Running j) [] [] 1)"
    using s(4) [of "?P [] [break_job] (Got j) [] [] 1"] assms by simp
  have a5: "tstep r (?P [] [break_job] (Running j) [] [] 1) (?P [] [break_job] Waiting [job_done r j] [] 1)"
    using s(5) [of "?P [] [break_job] (Running j) [] [] 1"] by simp
  have a6: "tstep r (?P [] [break_job] Waiting [job_done r j] [] 1) (?P [] [break_job] Waiting [] [job_done r j] 0)"
    using s(6) [of "?P [] [break_job] Waiting [job_done r j] [] 1"] by simp
  have a7: "tstep r (?P [] [break_job] Waiting [] [job_done r j] 0) (?P [] [] (Got break_job) [] [job_done r j] 0)"
    using s(2) [of "?P [] [break_job] Waiting [] [job_done r j] 0"] by simp
  have a8: "tstep r (?P [] [] (Got break_job) [] [job_done r j] 0) (?P [] [] Stopped [] [job_done r j] 0)"
    using s(3) [of "?P [] [] (Got break_job) [] [job_done r j] 0"] b by simp
  have a0: "pool_init [j] 1 = ?P [j, break_job] [] Waiting [] [] 1" by (simp add: pool_init_def)
  note c = converse_rtranclp_into_rtranclp [of "pool_step r"]
  have t: "tstep r p p' \<Longrightarrow> pool_step r p p'" for p p' by (simp add: pool_step_def)
  show ?thesis unfolding a0
    by (rule c [OF t [OF a1]], rule c [OF t [OF a2]], rule c [OF t [OF a3]], rule c [OF t [OF a4]], rule c [OF t [OF a5]], rule c [OF t [OF a6]], rule c [OF t [OF a7]], rule c [OF t [OF a8]], rule rtranclp.rtrancl_refl)
qed

definition demo_config :: waf_config where
  "demo_config = \<lparr>w_appname = ''ns'', w_version = ''3'', w_build_profile = ''debug'', w_nsc_enabled = True,
     w_enable_examples = False, w_enable_tests = True, w_python_bindings = False, w_valgrind_found = True,
     w_python = ''python'', w_basedir = ''/n'', w_builddir = ''/n/build'', w_cwd = ''/n''\<rparr>"

definition demo_options :: test_options where
  "demo_options = \<lparr>t_buildpath = [], t_constrain = [], t_duration = False, t_example = [], t_update_data = False,
     t_fullness = ''QUICK'', t_valgrind = True, t_multiple = False, t_pyexample = [], t_suite = ''core'', t_process_limit = 1\<rparr>"

definition demo_jobs :: "job list" where
  "demo_jobs = dispatched demo_config demo_options (\<lambda>x. True) id ''t'' [''core''] [] [] [] []"

definition demo_end :: "int \<Rightarrow> pool" where
  "demo_end rc = \<lparr>todo = [], input_queue = [], output_queue = [], workers = [Stopped], thread_exit = False,
     collected = map (job_done (run_job demo_config demo_options (\<lambda>cmd dir. (rc, True, True, Fin 1)))) demo_jobs, awaited = 0\<rparr>"

lemma demo_run:
  "(pool_step (run_job demo_config demo_options (\<lambda>cmd dir. (rc, True, True, Fin 1))))\<^sup>*\<^sup>* (pool_init demo_jobs 1) (demo_end rc)"
proof -
  have j: "demo_jobs = [suite_job demo_config demo_options ''t'' ''core'']" by code_simp
  have "\<not> j_is_break (suite_job demo_config demo_options ''t'' ''core'')" "\<not> j_is_skip (suite_job demo_config demo_options ''t'' ''core'')"
    by code_simp+
  from one_job_run [OF this] show ?thesis unfolding demo_end_def j by simp
qed

theorem test_run_status_witness:
  "\<exists>xml out. run_report demo_options False (\<lambda>f. Some ''<Test/>'') 1 (collected (demo_end 1)) = Inr (xml, out, 1)"
proof -
  have l: "int (length demo_jobs) = 1" by code_simp
  have "finished (demo_end 1)" by (simp add: finished_def demo_end_def)
  from test_run_status [OF demo_jobs_def _ demo_run [of 1] this, where tmp_file = "\<lambda>f. Some ''<Test/>''" and colors = False]
  obtain xml out status where s: "run_report demo_options False (\<lambda>f. Some ''<Test/>'') 1 (collected (demo_end 1)) = Inr (xml, out, status)"
    "status = 0 \<longleftrightarrow> (\<forall>j\<in>set (collected (demo_end 1)). \<not> j_is_break j \<and> (j_is_skip j \<or> j_returncode j = 0))"
    unfolding l by auto
  have "\<not> (\<forall>j\<in>set (collected (demo_end 1)). \<not> j_is_break j \<and> (j_is_skip j \<or> j_returncode j = 0))"
    by code_simp
  then have "status \<noteq> 0" using s(2) by simp
  then have "status = 1" using s(1) by (auto simp: run_report_def test_run_end_def bindR_eq_Inr split: if_splits)
  then show ?thesis using s(1) by blast
qed

text \<open>The counter of the progress line leaves out valgrind errors.\<close>

theorem parallel_as_sequential_witness:
  "(\<exists>out xml. run_report demo_options False (\<lambda>f. Some ''<Test/>'') 1 (collected (demo_end 2)) = Inr (xml, out, 1)
      \<and> drop 1 out = [Out ''0 of 1 tests passed (0 passed, 0 skipped, 0 failed, 0 crashed, 1 valgrind errors)'',
          Out (''List of VALGR failures:'' @ nl @ ''    core'')])
   \<and> progress_line demo_options False 1 (hd (collected (demo_end 2))) (count_status (hd (collected (demo_end 2))) tally_init)
       = ''[0/1] VALGR: TestSuite core''"
proof
  have l: "int (length demo_jobs) = 1" "length demo_jobs = 1" by code_simp+
  have "finished (demo_end 2)" "\<not> thread_exit (demo_end 2)" by (simp_all add: finished_def demo_end_def)
  from parallel_as_sequential [OF demo_jobs_def _ demo_run [of 2] this, where tmp_file = "\<lambda>f. Some ''<Test/>''" and colors = False]
  obtain xml out status xml' out' where s:
    "run_report demo_options False (\<lambda>f. Some ''<Test/>'') 1 (collected (demo_end 2)) = Inr (xml, out, status)"
    "run_report demo_options False (\<lambda>f. Some ''<Test/>'') 1
       (map (job_done (run_job demo_config demo_options (\<lambda>cmd dir. (2, True, True, Fin 1)))) demo_jobs) = Inr (xml', out', status)"
    "drop 1 out = drop 1 out'"
    unfolding l by auto
  have "case run_report demo_options False (\<lambda>f. Some ''<Test/>'') 1
       (map (job_done (run_job demo_config demo_options (\<lambda>cmd dir. (2, True, True, Fin 1)))) demo_jobs) of
      Inr (x, out', st) \<Rightarrow> st = 1 \<and> drop 1 out' = [Out ''0 of 1 tests passed (0 passed, 0 skipped, 0 failed, 0 crashed, 1 valgrind errors)'',
          Out (''List of VALGR failures:'' @ nl @ ''    core'')] | Inl e \<Rightarrow> False"
    by code_simp
  then show "\<exists>out xml. run_report demo_options False (\<lambda>f. Some ''<Test/>'') 1 (collected (demo_end 2)) = Inr (xml, out, 1)
      \<and> drop 1 out = [Out ''0 of 1 tests passed (0 passed, 0 skipped, 0 failed, 0 crashed, 1 valgrind errors)'',
          Out (''List of VALGR failures:'' @ nl @ ''    core'')]"
    using s by auto
  show "progress_line demo_options False 1 (hd (collected (demo_end 2))) (count_status (hd (collected (demo_end 2))) tally_init)
       = ''[0/1] VALGR: TestSuite core''"
    by code_simp
qed

end
