(* ===== verification/RadUtil.thy ===== *)
theory RadUtil
  imports PyFloat "HOL-Library.While_Combinator"
begin

text \<open>
  The number and list utilities of bindings/python/rad_util.py. The module is written for Python 2:
  \<open>/\<close> on integers rounds down, and \<open>keys()\<close> of a dictionary has no specified order. \<open>is_rotated\<close> of
  the same file is in \<open>FindCycles\<close>.
\<close>

unbundle bit_operations_syntax

subsection \<open>Binary numbers\<close>

text \<open>\<open>hex(i)\<close>.\<close>

definition hex_char :: "int \<Rightarrow> char" where
  "hex_char d = (if d < 10 then digit_char d else char_of (87 + d))"

function hex_nat :: "int \<Rightarrow> string" where
  "hex_nat n = (if n < 16 then [hex_char n] else hex_nat (n div 16) @ [hex_char (n mod 16)])"
  by pat_completeness auto
termination
  by (relation "measure nat") auto

declare hex_nat.simps [simp del]

definition py_hex :: "int \<Rightarrow> string" where
  "py_hex i = (if i < 0 then ''-0x'' @ hex_nat (- i) else ''0x'' @ hex_nat i)"

definition hex2bin_table :: "(char, string) dict" where
  "hex2bin_table = [(CHR ''0'', ''0000''), (CHR ''1'', ''0001''), (CHR ''2'', ''0010''), (CHR ''3'', ''0011''),
     (CHR ''4'', ''0100''), (CHR ''5'', ''0101''), (CHR ''6'', ''0110''), (CHR ''7'', ''0111''),
     (CHR ''8'', ''1000''), (CHR ''9'', ''1001''), (CHR ''a'', ''1010''), (CHR ''b'', ''1011''),
     (CHR ''c'', ''1100''), (CHR ''d'', ''1101''), (CHR ''e'', ''1110''), (CHR ''f'', ''1111'')]"

definition hex2bin :: "char \<Rightarrow> string result" where
  "hex2bin c = (case dget hex2bin_table c of None \<Rightarrow> Inl KeyError | Some b \<Rightarrow> Inr b)"

text \<open>\<open>s[:-n]\<close> and \<open>s[-n:]\<close>: for \<open>n = 0\<close> the first is empty and the second is all of \<open>s\<close>.\<close>

definition all_but_last :: "nat \<Rightarrow> 'a list \<Rightarrow> 'a list" where
  "all_but_last n s = (if n = 0 then [] else take (length s - n) s)"

definition last_n :: "nat \<Rightarrow> 'a list \<Rightarrow> 'a list" where
  "last_n n s = (if n = 0 then s else drop (length s - n) s)"

definition int2bin :: "int \<Rightarrow> nat \<Rightarrow> string result" where
  "int2bin i n = bindR (mapR hex2bin (drop 2 (filter (\<lambda>c. c \<noteq> CHR ''l'') (map lower_char (py_hex i))))) (\<lambda>digits.
     let res = concat digits in
     if CHR ''1'' \<in> set (all_but_last n res) then Inl ValueError
     else (let res = last_n n res in Inr (replicate (n - length res) (CHR ''0'') @ res)))"

text \<open>\<open>int(s, 2)\<close>: white space around, a sign, and a prefix \<open>0b\<close> are allowed.\<close>

definition is_bit :: "char \<Rightarrow> bool" where
  "is_bit c \<longleftrightarrow> c = CHR ''0'' \<or> c = CHR ''1''"

definition bit_value :: "char \<Rightarrow> int" where
  "bit_value c = (if c = CHR ''1'' then 1 else 0)"

definition bin_value :: "string \<Rightarrow> int" where
  "bin_value s = foldl (\<lambda>a c. 2 * a + bit_value c) 0 s"

definition bin_digits :: "string \<Rightarrow> int option" where
  "bin_digits s = (let s = (if startswith s ''0b'' \<or> startswith s ''0B'' then drop 2 s else s)
     in if s \<noteq> [] \<and> list_all is_bit s then Some (bin_value s) else None)"

definition bin2int :: "string \<Rightarrow> int result" where
  "bin2int bin_string = (let v = (case strip bin_string of
        [] \<Rightarrow> None
      | c # cs \<Rightarrow> if c = CHR ''-'' then map_option uminus (bin_digits cs)
          else if c = CHR ''+'' then bin_digits cs else bin_digits (c # cs))
     in case v of None \<Rightarrow> Inl ValueError | Some i \<Rightarrow> Inr i)"

definition lsb :: "int \<Rightarrow> nat \<Rightarrow> int" where
  "lsb x n = x AND (2 ^ n - 1)"

definition gray_encode :: "int \<Rightarrow> int" where
  "gray_encode i = i XOR (drop_bit 1 i)"

text \<open>The loop that adds one to the little-endian vector \<open>v\<close>; \<open>toggle\<close> holds the carries.\<close>

function add_one :: "nat \<Rightarrow> nat \<Rightarrow> string \<Rightarrow> nat list \<Rightarrow> string \<times> nat list" where
  "add_one bits i v toggle = (if i < bits \<and> toggle ! i = 1
     then (if v ! i = CHR ''0'' then add_one bits (Suc i) (v[i := CHR ''1'']) (toggle[Suc i := 0])
           else add_one bits (Suc i) (v[i := CHR ''0'']) (toggle[Suc i := 1]))
     else (v, toggle))"
  by pat_completeness auto
termination
  by (relation "measure (\<lambda>(bits, i, v, toggle). bits - i)") auto

declare add_one.simps [simp del]

definition binary_range :: "nat \<Rightarrow> string list option" where
  "binary_range bits = map_option (\<lambda>(l, v, toggle). l) (while_option (\<lambda>(l, v, toggle). toggle ! bits \<noteq> 1)
     (\<lambda>(l, v, toggle). let (v', toggle') = add_one bits 0 v (1 # replicate bits 0) in (l @ [rev v], v', toggle'))
     ([], replicate bits (CHR ''0''), 1 # replicate bits 0))"

subsection \<open>Factors and fractions\<close>

text \<open>Euclid's loop on integers; the remainder of Python has the sign of the divisor.\<close>

function gcf_loop :: "int \<Rightarrow> int \<Rightarrow> int" where
  "gcf_loop res remainder = (if remainder = 0 then res else gcf_loop remainder (res mod remainder))"
  by pat_completeness auto
termination
  by (relation "measure (\<lambda>(res, remainder). nat \<bar>remainder\<bar>)") (auto simp: abs_mod_less)

declare gcf_loop.simps [simp del]

definition gcf :: "int \<Rightarrow> int \<Rightarrow> int" where
  "gcf a b = \<bar>gcf_loop (max a b) (min a b)\<bar>"

definition rad_lcm :: "int \<Rightarrow> int \<Rightarrow> int" where
  "rad_lcm a b = (let denom = gcf a b in if denom = 0 then 0 else a * (b div denom))"

definition reduce_fraction :: "int \<times> int \<Rightarrow> (int \<times> int) result" where
  "reduce_fraction fraction = (case fraction of (numerator, denominator) \<Rightarrow>
     let common_factor = \<bar>gcf numerator denominator\<bar> in
     if common_factor = 0 then Inl ZeroDivisionError
     else Inr (numerator div common_factor, denominator div common_factor))"

text \<open>Integer value and grid; \<open>add_one\<close> stays unassigned for a value on the grid in modes 1 and -1.\<close>

definition round_grid :: "int \<Rightarrow> int \<Rightarrow> int \<Rightarrow> int result" where
  "round_grid value grid mode = (if grid = 0 then Inl ZeroDivisionError
     else (let off_grid = value mod grid;
       add = (if mode = 0 then Some (if fle (fquot (float_of_int grid) (Fin 2)) (float_of_int off_grid) then 1 else 0)
         else if mode = 1 \<and> off_grid \<noteq> 0 then Some 1
         else if mode = - 1 \<and> off_grid \<noteq> 0 then Some 0 else None)
     in case add of None \<Rightarrow> Inl UnboundLocalError | Some k \<Rightarrow> Inr ((value div grid + k) * grid)))"

subsection \<open>Lists\<close>

definition rad_reverse :: "string \<Rightarrow> string" where
  "rad_reverse s = rev s"

text \<open>\<open>zip(*matrix)\<close> stops at the shortest row.\<close>

definition rad_transpose :: "'a list list \<Rightarrow> 'a list list" where
  "rad_transpose matrix = (if matrix = [] then []
     else map (\<lambda>j. map (\<lambda>row. row ! j) matrix) [0..<Min (set (map length matrix))])"

fun permutations :: "'a list \<Rightarrow> 'a list list" where
  "permutations (item # next # rest) = concat (map (\<lambda>sub_list.
     map (\<lambda>i. take i sub_list @ item # drop i sub_list) [0..<length (item # next # rest)]) (permutations (next # rest)))"
| "permutations [x] = [[x]]"
| "permutations [] = [[]]"

text \<open>With \<open>preserve_order\<close>; the dictionary \<open>d\<close> has the items seen.\<close>

definition uniquify_step :: "'a \<Rightarrow> 'a list \<times> ('a, int) dict \<Rightarrow> 'a list \<times> ('a, int) dict" where
  "uniquify_step x s = (case s of (res, d) \<Rightarrow> if dget d x = None then (res @ [x], dset x 0 d) else (res, d))"

definition uniquify :: "'a list \<Rightarrow> 'a list" where
  "uniquify xs = fst (fold uniquify_step xs ([], []))"

text \<open>Unhashable items: the slow algorithm.\<close>

definition uniquify_slow :: "'a list \<Rightarrow> 'a list" where
  "uniquify_slow xs = fold (\<lambda>x res. if x \<in> set res then res else res @ [x]) xs []"

definition reverse_dict :: "('k, 'v) dict \<Rightarrow> ('v, 'k) dict" where
  "reverse_dict d = fold (\<lambda>(key, value). dset value key) d []"

text \<open>The two loops of \<open>find_common_fixes\<close>.\<close>

fun common_run :: "'a list \<Rightarrow> 'a list \<Rightarrow> 'a list" where
  "common_run (x # xs) (y # ys) = (if x \<noteq> y then [] else x # common_run xs ys)"
| "common_run _ _ = []"

definition find_common_fixes :: "string \<Rightarrow> string \<Rightarrow> string \<times> string" where
  "find_common_fixes s1 s2 = (common_run s1 s2, rev (common_run (rev s1) (rev s2)))"

text \<open>Options without a value have \<open>None\<close>, also when there are two equals signs.\<close>

datatype arg_value = NoValue | Value string | Args "string list"

definition args_step :: "string \<Rightarrow> (string, arg_value) dict \<times> string list \<Rightarrow> (string, arg_value) dict \<times> string list" where
  "args_step arg s = (case s of (d, args) \<Rightarrow>
     if startswith arg ''-'' then
       (case split_char CHR ''='' (dropWhile (\<lambda>c. c = CHR ''-'') arg) of
          [k, v] \<Rightarrow> (dset k (Value v) d, args)
        | k # _ \<Rightarrow> (dset k NoValue d, args)
        | [] \<Rightarrow> (d, args))
     else (d, args @ [arg]))"

definition get_args :: "string list \<Rightarrow> (string, arg_value) dict" where
  "get_args argv = (let (d, args) = fold args_step argv ([], []) in dset ''args'' (Args args) d)"

text \<open>Twice the area and the area of a polygon of scaled integer points.\<close>

definition polygon_sum :: "(int \<times> int) list \<Rightarrow> int" where
  "polygon_sum pts = foldl (\<lambda>area (p, q). area + fst q * snd p - snd q * fst p) 0 (zip (butlast pts) (tl pts))"

definition polygon_area :: "(int \<times> int) list \<Rightarrow> int \<Rightarrow> pyfloat result" where
  "polygon_area points_list precision = (if points_list = [] then Inl IndexError
     else (let pts = map (\<lambda>(x, y). (x * precision, y * precision)) points_list;
               pts = (if last pts \<noteq> hd pts then pts @ [hd pts] else pts)
       in fdiv (float_of_int \<bar>polygon_sum pts div 2\<bar>) (float_of_int (precision ^ 2))))"

text \<open>The progression of \<open>float_range\<close> ends when the sum reaches the stop value; for a step that does not
  increase it, it does not end.\<close>

partial_function (option) float_range_loop :: "pyfloat \<Rightarrow> pyfloat \<Rightarrow> pyfloat \<Rightarrow> pyfloat list \<Rightarrow> pyfloat list option" where
  "float_range_loop stop step cur l = (if flt cur stop then float_range_loop stop step (fadd cur step) (l @ [cur]) else Some l)"

definition float_range :: "pyfloat \<Rightarrow> pyfloat option \<Rightarrow> pyfloat option \<Rightarrow> pyfloat list option" where
  "float_range start stop step = (let step = (case step of None \<Rightarrow> Fin 1 | Some s \<Rightarrow> s) in
     case stop of None \<Rightarrow> float_range_loop start step (Fin 0) []
     | Some e \<Rightarrow> float_range_loop e step start [])"

subsection \<open>Values of bit strings\<close>

lemma bin_value_foldl: "foldl (\<lambda>a c. 2 * a + bit_value c) a s = a * 2 ^ length s + bin_value s"
proof (induction s rule: rev_induct)
  case (snoc c s)
  then show ?case by (simp add: bin_value_def algebra_simps)
qed (simp add: bin_value_def)

lemma bin_value_append [simp]: "bin_value (s @ t) = bin_value s * 2 ^ length t + bin_value t"
  using bin_value_foldl [of "bin_value s" t] by (simp add: bin_value_def)

lemma bin_value_snoc: "bin_value (s @ [c]) = 2 * bin_value s + bit_value c"
  by (simp add: bin_value_def)

lemma bin_value_Nil [simp]: "bin_value [] = 0"
  by (simp add: bin_value_def)

lemma bin_value_bounds: "0 \<le> bin_value s \<and> bin_value s < 2 ^ length s"
proof (induction s rule: rev_induct)
  case (snoc c s)
  have "0 \<le> bit_value c \<and> bit_value c \<le> 1" by (simp add: bit_value_def)
  then show ?case using snoc unfolding bin_value_snoc by simp
qed simp

lemma bin_value_zero: "bin_value s = 0 \<longleftrightarrow> CHR ''1'' \<notin> set s"
proof (induction s rule: rev_induct)
  case (snoc c s)
  have "2 * bin_value s + bit_value c = 0 \<longleftrightarrow> bin_value s = 0 \<and> bit_value c = 0"
    using bin_value_bounds [of s] by (auto simp: bit_value_def)
  then show ?case using snoc unfolding bin_value_snoc by (auto simp: bit_value_def)
qed simp

lemma bin_value_zeros [simp]: "bin_value (replicate n (CHR ''0'')) = 0"
  by (auto simp: bin_value_zero)

lemma bits_zeros: "list_all is_bit (replicate n (CHR ''0''))"
  by (induction n) (simp_all add: is_bit_def)

lemma bin_value_inj:
  "length s = length t \<Longrightarrow> list_all is_bit s \<Longrightarrow> list_all is_bit t \<Longrightarrow> bin_value s = bin_value t \<Longrightarrow> s = t"
proof (induction s arbitrary: t rule: rev_induct)
  case (snoc c s)
  then obtain u d where t: "t = u @ [d]" by (cases t rule: rev_cases) auto
  have b: "is_bit c" "is_bit d" using snoc.prems t by auto
  have e: "2 * bin_value s + bit_value c = 2 * bin_value u + bit_value d"
    using snoc.prems(4) unfolding t bin_value_snoc .
  then have "bit_value c = bit_value d" by (auto simp: bit_value_def split: if_splits) presburger+
  then have "c = d" "bin_value s = bin_value u" using b e by (auto simp: is_bit_def bit_value_def split: if_splits)
  then show ?case using snoc t by auto
qed simp

lemma bin2int_bits: "s \<noteq> [] \<Longrightarrow> list_all is_bit s \<Longrightarrow> bin2int s = Inr (bin_value s)"
proof -
  assume s: "s \<noteq> []" "list_all is_bit s"
  then obtain c cs where cs: "s = c # cs" "is_bit c" by (cases s) auto
  have "\<not> py_ws c" if "is_bit c" for c using that by (auto simp: is_bit_def py_ws_def)
  then have "is_token s" using s by (simp add: is_token_def list_all_iff)
  then have st: "strip s = s" by (rule strip_token)
  have "\<not> startswith s ''0b'' \<and> \<not> startswith s ''0B''"
  proof (cases cs)
    case (Cons d ds)
    then have "is_bit d" using s cs by simp
    then show ?thesis using cs Cons by (auto simp: startswith_def is_bit_def)
  qed (simp add: cs startswith_def)
  then have "bin_digits s = Some (bin_value s)" using s by (simp add: bin_digits_def)
  then show ?thesis using st cs by (auto simp: bin2int_def is_bit_def)
qed

lemma mapR_append: "mapR f (xs @ ys) = bindR (mapR f xs) (\<lambda>a. bindR (mapR f ys) (\<lambda>b. Inr (a @ b)))"
proof (induction xs)
  case Nil
  show ?case by (cases "mapR f ys") simp_all
next
  case (Cons x xs)
  then show ?case by (cases "f x"; cases "mapR f xs"; cases "mapR f ys") (simp_all add: mapR_Cons)
qed

definition hex_ok :: "int \<Rightarrow> bool" where
  "hex_ok d \<longleftrightarrow> lower_char (hex_char d) \<noteq> CHR ''l'' \<and> (case hex2bin (lower_char (hex_char d)) of Inl e \<Rightarrow> False
     | Inr b \<Rightarrow> length b = 4 \<and> list_all is_bit b \<and> bin_value b = d)"

lemma hex_digit: "0 \<le> d \<Longrightarrow> d < 16 \<Longrightarrow> hex_ok d"
proof -
  have "list_all hex_ok [0, 1, 2, 3, 4, 5, 6, 7, 8, 9, 10, 11, 12, 13, 14, 15]" by code_simp
  moreover assume d: "0 \<le> d" "d < 16"
  have "d \<in> set [0, 1, 2, 3, 4, 5, 6, 7, 8, 9, 10, 11, 12, 13, 14, 15]"
    unfolding set_simps insert_iff empty_iff using d by presburger
  ultimately show ?thesis by (metis list_all_iff)
qed

definition hex_bits :: "string \<Rightarrow> string list result" where
  "hex_bits s = mapR hex2bin (filter (\<lambda>c. c \<noteq> CHR ''l'') (map lower_char s))"

lemma hex_bits_digit: "0 \<le> d \<Longrightarrow> d < 16 \<Longrightarrow> \<exists>b. hex_bits [hex_char d] = Inr [b] \<and> length b = 4 \<and> list_all is_bit b \<and> bin_value b = d"
  using hex_digit [of d] by (auto simp: hex_ok_def hex_bits_def mapR_Cons split: sum.splits)

lemma hex_bits_nat: "0 \<le> n \<Longrightarrow> \<exists>bs. hex_bits (hex_nat n) = Inr bs \<and> list_all is_bit (concat bs) \<and> bin_value (concat bs) = n"
proof (induction n rule: hex_nat.induct)
  case (1 n)
  show ?case
  proof (cases "n < 16")
    case True
    then obtain b where "hex_bits [hex_char n] = Inr [b]" "length b = 4" "list_all is_bit b" "bin_value b = n"
      using hex_bits_digit [of n] 1(2) by blast
    moreover have "hex_nat n = [hex_char n]" using True by (subst hex_nat.simps) simp
    ultimately show ?thesis by (intro exI [of _ "[b]"]) (simp)
  next
    case False
    obtain b where b: "hex_bits [hex_char (n mod 16)] = Inr [b]" "length b = 4" "list_all is_bit b" "bin_value b = n mod 16"
      using hex_bits_digit [of "n mod 16"] by auto
    obtain bs where bs: "hex_bits (hex_nat (n div 16)) = Inr bs" "list_all is_bit (concat bs)" "bin_value (concat bs) = n div 16"
      using 1(1) [OF False] 1(2) by (metis pos_imp_zdiv_nonneg_iff zero_less_numeral)
    have "hex_bits (hex_nat n) = Inr (bs @ [b])"
      using b(1) bs(1) False by (subst hex_nat.simps) (simp add: hex_bits_def mapR_append)
    moreover have "list_all is_bit (concat (bs @ [b]))" "bin_value (concat (bs @ [b])) = n" using b bs by simp_all
    ultimately show ?thesis by blast
  qed
qed

lemma int2bin_hex: "int2bin i n = bindR (hex_bits (if i < 0 then CHR ''x'' # hex_nat (- i) else hex_nat i)) (\<lambda>digits.
     let res = concat digits in
     if CHR ''1'' \<in> set (all_but_last n res) then Inl ValueError
     else (let res = last_n n res in Inr (replicate (n - length res) (CHR ''0'') @ res)))"
proof -
  have "map lower_char ''0x'' = ''0x''" "map lower_char ''-0x'' = ''-0x''" by code_simp+
  then show ?thesis by (auto simp: int2bin_def hex_bits_def py_hex_def)
qed

lemma all_last: "0 < n \<Longrightarrow> all_but_last n s @ last_n n s = s" "0 < n \<Longrightarrow> length (last_n n s) = min n (length s)"
  by (auto simp: all_but_last_def last_n_def)

lemma int2bin_cases:
  assumes "0 < n"
  shows "case int2bin i n of
      Inl e \<Rightarrow> (e = KeyError \<and> i < 0) \<or> (e = ValueError \<and> 2 ^ n \<le> i)
    | Inr s \<Rightarrow> 0 \<le> i \<and> i < 2 ^ n \<and> length s = n \<and> list_all is_bit s \<and> bin2int s = Inr i"
proof (cases "i < 0")
  case True
  have "hex2bin (CHR ''x'') = Inl KeyError" "lower_char (CHR ''x'') = CHR ''x''" by code_simp+
  then have "hex_bits (CHR ''x'' # s) = Inl KeyError" for s by (simp add: hex_bits_def mapR_Cons)
  then show ?thesis using True by (simp add: int2bin_hex)
next
  case False
  then obtain bs where bs: "hex_bits (hex_nat i) = Inr bs" "list_all is_bit (concat bs)" "bin_value (concat bs) = i"
    using hex_bits_nat [of i] by auto
  define r where "r = concat bs"
  define hi where "hi = all_but_last n r"
  define lo where "lo = last_n n r"
  have r: "r = hi @ lo" using all_last(1) [OF assms, of r] by (simp add: hi_def lo_def)
  have v: "i = bin_value hi * 2 ^ length lo + bin_value lo" using bs(3) r by (simp flip: r_def)
  have lo: "bin_value lo < 2 ^ n" "0 \<le> bin_value lo" "length lo \<le> n"
    using bin_value_bounds [of lo] all_last(2) [OF assms, of r]
    by (auto simp: lo_def intro: less_le_trans [OF _ power_increasing])
  show ?thesis
  proof (cases "CHR ''1'' \<in> set hi")
    case True
    have "hi = [] \<or> length lo = n" using all_last(2) [OF assms, of r] by (auto simp: hi_def lo_def all_but_last_def min_def)
    then have "length lo = n" using True by auto
    then have i: "i = bin_value hi * 2 ^ n + bin_value lo" using v by simp
    have "1 \<le> bin_value hi" using bin_value_zero [of hi] bin_value_bounds [of hi] True by auto
    then have "1 * 2 ^ n \<le> bin_value hi * 2 ^ n" by (intro mult_right_mono) auto
    then have "2 ^ n \<le> i" unfolding i using lo(2) by linarith
    then show ?thesis using True False bs(1) by (simp add: int2bin_hex hi_def r_def)
  next
    case nz: False
    then have i: "i = bin_value lo" using v bin_value_zero [of hi] by simp
    let ?s = "replicate (n - length lo) (CHR ''0'') @ lo"
    have bits: "list_all is_bit ?s" using bs(2) r bits_zeros by (simp flip: r_def)
    have s: "int2bin i n = Inr ?s" using nz False bs(1) by (simp add: int2bin_hex hi_def lo_def r_def Let_def)
    have l: "length ?s = n" using lo(3) by simp
    then have "?s \<noteq> []" using assms by auto
    then have "bin2int ?s = Inr i" using bin2int_bits [OF _ bits] i by simp
    then show ?thesis using s l bits i lo False by simp
  qed
qed

lemma int2bin_written:
  assumes "0 < n" "length t = n" "list_all is_bit t"
  shows "bindR (bin2int t) (\<lambda>v. int2bin v n) = Inr t"
proof -
  have b: "bin2int t = Inr (bin_value t)" using assms by (intro bin2int_bits) auto
  have "0 \<le> bin_value t \<and> bin_value t < 2 ^ n" using bin_value_bounds [of t] assms(2) by simp
  then obtain s where s: "int2bin (bin_value t) n = Inr s" "length s = n" "list_all is_bit s" "bin2int s = Inr (bin_value t)"
    using int2bin_cases [OF assms(1), of "bin_value t"] by (auto split: sum.splits)
  have "bin_value s = bin_value t" using s(2-4) assms(1) bin2int_bits [of s] by auto
  then show ?thesis using bin_value_inj [OF _ s(3) assms(3)] s(1,2) assms(2) b by simp
qed

text \<open>\<open>int2bin\<close> writes a number in exactly \<open>n\<close> bits, which \<open>bin2int\<close> reads back, or raises a
  ValueError when it does not fit and a KeyError when it is negative; and every bit string is
  what \<open>int2bin\<close> writes for its value.\<close>

theorem int2bin_roundtrip:
  assumes "0 < n"
  shows "(case int2bin i n of
      Inl e \<Rightarrow> (e = KeyError \<and> i < 0) \<or> (e = ValueError \<and> 2 ^ n \<le> i)
    | Inr s \<Rightarrow> 0 \<le> i \<and> i < 2 ^ n \<and> length s = n \<and> list_all is_bit s \<and> bin2int s = Inr i)
    \<and> (length t = n \<and> list_all is_bit t \<longrightarrow> bindR (bin2int t) (\<lambda>v. int2bin v n) = Inr t)"
  using int2bin_cases [OF assms, of i] int2bin_written [OF assms, of t] by blast

text \<open>No bits at all: the number is written in full.\<close>

theorem int2bin_roundtrip_witness:
  "int2bin 123 8 = Inr ''01111011'' \<and> bin2int ''01111011'' = Inr 123 \<and> int2bin 5 0 = Inr ''0101''"
proof (intro conjI)
  have t: "length ''01111011'' = 8" "list_all is_bit ''01111011''" by code_simp+
  show b: "bin2int ''01111011'' = Inr 123" by code_simp
  show "int2bin 123 8 = Inr ''01111011''" using int2bin_roundtrip [of 8 0 "''01111011''"] t b by simp
  show "int2bin 5 0 = Inr ''0101''" by code_simp
qed

subsection \<open>Gray codes\<close>

text \<open>A number and its successor differ in a block of low bits.\<close>

lemma xor_one_even: "even (i :: int) \<Longrightarrow> i XOR (i + 1) = 1"
proof -
  assume "even i"
  then obtain k where k: "i = 2 * k" by auto
  show ?thesis unfolding k by (simp add: xor_rec [of "2 * k"])
qed

lemma xor_successor: "0 \<le> i \<Longrightarrow> \<exists>k. i XOR (i + 1) = mask (Suc k)" for i :: int
proof (induction "nat i" arbitrary: i rule: less_induct)
  case less
  show ?case
  proof (cases "even i")
    case True
    then show ?thesis using xor_one_even [of i] by (intro exI [of _ 0]) (simp add: mask_eq_exp_minus_1)
  next
    case False
    then obtain k where k: "i = 2 * k + 1" by (auto elim: oddE)
    have "nat k < nat i" "0 \<le> k" using k less.prems by auto
    then obtain m where m: "k XOR (k + 1) = mask (Suc m)" using less.hyps by blast
    have "i XOR (i + 1) = (2 * k + 1) XOR (2 * (k + 1))" by (simp add: k algebra_simps)
    also have "\<dots> = 1 + 2 * (k XOR (k + 1))" by (subst xor_rec) simp
    also have "\<dots> = mask (Suc (Suc m))" unfolding m by (simp add: mask_eq_exp_minus_1)
    finally show ?thesis by blast
  qed
qed

lemma mask_xor_shift: "(mask (Suc k) :: int) XOR drop_bit 1 (mask (Suc k)) = 2 ^ k"
  by (rule bit_eqI) (auto simp: bit_simps bit_mask_iff)

lemma gray_xor: "gray_encode i XOR gray_encode j = (i XOR j) XOR drop_bit 1 (i XOR j)"
  by (rule bit_eqI) (auto simp: gray_encode_def bit_simps)

lemma gray_zero: "0 \<le> (i :: int) \<Longrightarrow> i XOR drop_bit 1 i = 0 \<Longrightarrow> i = 0"
proof (rule ccontr)
  assume i: "0 \<le> i" "i XOR drop_bit 1 i = 0" "i \<noteq> 0"
  then have "i = drop_bit 1 i" by (metis xor.left_neutral xor.assoc xor_self_eq)
  then have "i = i div 2" by (simp add: drop_bit_eq_div)
  then show False using i by presburger
qed

text \<open>The codes of consecutive numbers differ in exactly one bit, and different numbers have
  different codes.\<close>

theorem gray_adjacent:
  assumes "0 \<le> i" "0 \<le> j"
  shows "(\<exists>k. gray_encode i XOR gray_encode (i + 1) = 2 ^ k) \<and> (gray_encode i = gray_encode j \<longrightarrow> i = j)"
proof
  obtain k where "i XOR (i + 1) = mask (Suc k)" using xor_successor assms(1) by blast
  then have "gray_encode i XOR gray_encode (i + 1) = 2 ^ k" by (simp only: gray_xor mask_xor_shift)
  then show "\<exists>k. gray_encode i XOR gray_encode (i + 1) = 2 ^ k" ..
  show "gray_encode i = gray_encode j \<longrightarrow> i = j"
  proof
    assume "gray_encode i = gray_encode j"
    then have "(i XOR j) XOR drop_bit 1 (i XOR j) = 0" using gray_xor [of i j] by simp
    moreover have "0 \<le> i XOR j" using assms by simp
    ultimately have "i XOR j = 0" using gray_zero by blast
    then show "i = j" by (metis xor.left_neutral xor.assoc xor_self_eq xor.right_neutral)
  qed
qed

theorem gray_adjacent_witness: "gray_encode 5 = 7 \<and> (\<exists>k. gray_encode 5 XOR gray_encode 6 = 2 ^ k)"
  using gray_adjacent [of 5 6] by (simp add: gray_encode_def)

subsection \<open>Permutations\<close>

lemma insertions:
  "(\<exists>i\<in>set [0..<Suc (length s)]. ys = take i s @ x # drop i s) \<longleftrightarrow> (\<exists>u v. s = u @ v \<and> ys = u @ x # v)"
proof
  assume "\<exists>u v. s = u @ v \<and> ys = u @ x # v"
  then obtain u v where "s = u @ v" "ys = u @ x # v" by blast
  then show "\<exists>i\<in>set [0..<Suc (length s)]. ys = take i s @ x # drop i s" by (intro bexI [of _ "length u"]) auto
qed (metis append_take_drop_id)

lemma permutations_length: "s \<in> set (permutations xs) \<Longrightarrow> mset s = mset xs"
proof (induction xs arbitrary: s rule: permutations.induct)
  case (1 x y xs)
  then obtain sub i where "sub \<in> set (permutations (y # xs))" "s = take i sub @ x # drop i sub" by auto
  then show ?case using "1.IH" [of sub] by (simp flip: union_code mset_append)
qed auto

lemma permutations_all: "mset s = mset xs \<Longrightarrow> s \<in> set (permutations xs)"
proof (induction xs arbitrary: s rule: permutations.induct)
  case (1 x y xs)
  have "x \<in> set s" using 1(2) by (metis list.set_intros(1) set_mset_mset)
  then obtain u v where s: "s = u @ x # v" by (meson split_list)
  then have m: "mset (u @ v) = mset (y # xs)" using 1(2) by simp
  then have u: "u @ v \<in> set (permutations (y # xs))" by (rule "1.IH")
  have "length u \<le> length (y # xs)" using mset_eq_length [OF m] by simp
  then show ?case using u unfolding permutations.simps set_concat set_map s
    by (intro UN_I [OF imageI [OF u]]) (auto simp del: upt_Suc intro!: image_eqI [of _ _ "length u"])
qed auto

lemma permutations_count: "length (permutations xs) = fact (length xs)"
proof (induction xs rule: permutations.induct)
  case (1 x y xs)
  have "sum_list (map (\<lambda>sub. length [0..<length (x # y # xs)]) (permutations (y # xs))) =
      length (permutations (y # xs)) * length (x # y # xs)"
    by (simp add: sum_list_triv)
  then show ?case using 1 by (simp add: length_concat comp_def del: upt_Suc)
qed simp_all

text \<open>\<open>permutations\<close> lists exactly the rearrangements of a list, \<open>n!\<close> of them.\<close>

theorem permutations_exact:
  "(s \<in> set (permutations xs)) = (mset s = mset xs) \<and> length (permutations xs) = fact (length xs)"
  using permutations_length permutations_all permutations_count by blast

subsection \<open>Counting in binary\<close>

text \<open>The value of a little-endian vector.\<close>

definition low_value :: "string \<Rightarrow> int" where
  "low_value v = bin_value (rev v)"

lemma low_value_Cons: "low_value (c # v) = bit_value c + 2 * low_value v"
  by (simp add: low_value_def bin_value_def)

lemma low_value_Nil [simp]: "low_value [] = 0"
  by (simp add: low_value_def)

lemma low_value_drop: "i < length v \<Longrightarrow> low_value (drop i v) = bit_value (v ! i) + 2 * low_value (drop (Suc i) v)"
  by (simp add: low_value_Cons flip: Cons_nth_drop_Suc)

lemma low_value_bounds: "0 \<le> low_value v \<and> low_value v < 2 ^ length v"
  using bin_value_bounds [of "rev v"] by (simp add: low_value_def)

text \<open>The inner loop from position \<open>i\<close> adds the carry there to the rest of the vector.\<close>

lemma add_one_carry:
  assumes "length v = bits" "length toggle = Suc bits" "i \<le> bits" "toggle ! i \<le> 1" "\<forall>j. i < j \<and> j \<le> bits \<longrightarrow> toggle ! j = 0"
    and "list_all is_bit v"
  shows "\<exists>v' t. add_one bits i v toggle = (v', t) \<and> length v' = bits \<and> length t = Suc bits \<and> list_all is_bit v'
    \<and> take i v' = take i v \<and> t ! bits \<le> 1
    \<and> low_value (drop i v') + 2 ^ (bits - i) * int (t ! bits) = low_value (drop i v) + int (toggle ! i)"
  using assms
proof (induction bits i v toggle rule: add_one.induct)
  case (1 bits i v toggle)
  show ?case
  proof (cases "i < bits \<and> toggle ! i = 1")
    case True
    define c where "c = (if v ! i = CHR ''0'' then CHR ''1'' else CHR ''0'')"
    define b where "b = (if v ! i = CHR ''0'' then 0 else 1 :: nat)"
    have step: "add_one bits i v toggle = add_one bits (Suc i) (v[i := c]) (toggle[Suc i := b])"
      using True by (subst add_one.simps) (simp add: c_def b_def)
    have vi: "is_bit (v ! i)" using "1.prems"(1,6) True by (simp add: list_all_length)
    have c: "is_bit c" by (simp add: c_def is_bit_def)
    have sum: "bit_value c + 2 * int b = bit_value (v ! i) + 1" using vi by (auto simp: c_def b_def is_bit_def bit_value_def)
    have bits': "list_all is_bit (v[i := c])" using "1.prems"(6) c
      by (auto simp: list_all_iff dest: set_update_subset_insert [THEN subsetD])
    have "\<exists>v' t. add_one bits (Suc i) (v[i := c]) (toggle[Suc i := b]) = (v', t) \<and> length v' = bits \<and> length t = Suc bits
      \<and> list_all is_bit v' \<and> take (Suc i) v' = take (Suc i) (v[i := c]) \<and> t ! bits \<le> 1
      \<and> low_value (drop (Suc i) v') + 2 ^ (bits - Suc i) * int (t ! bits) =
        low_value (drop (Suc i) (v[i := c])) + int (toggle[Suc i := b] ! Suc i)"
    proof (cases "v ! i = CHR ''0''")
      case z: True
      show ?thesis using "1.IH"(1) [OF True z] "1.prems" True bits' by (simp add: c_def b_def z)
    next
      case nz: False
      show ?thesis using "1.IH"(2) [OF True nz] "1.prems" True bits' by (simp add: c_def b_def nz)
    qed
    then obtain v' t where r: "add_one bits (Suc i) (v[i := c]) (toggle[Suc i := b]) = (v', t)" "length v' = bits"
      "length t = Suc bits" "list_all is_bit v'" "take (Suc i) v' = take (Suc i) (v[i := c])" "t ! bits \<le> 1"
      "low_value (drop (Suc i) v') + 2 ^ (bits - Suc i) * int (t ! bits) = low_value (drop (Suc i) v) + int b"
      using True "1.prems"(1,2) by auto
    have "v' ! i = take (Suc i) v' ! i" by simp
    also have "\<dots> = c" unfolding r(5) using True "1.prems"(1) by simp
    finally have vc: "v' ! i = c" .
    have "take i v' = take i (take (Suc i) v')" by simp
    also have "\<dots> = take i v" unfolding r(5) by simp
    finally have tk: "take i v' = take i v" .
    have "2 ^ (bits - i) = (2 :: int) * 2 ^ (bits - Suc i)" using True by (simp add: Suc_diff_Suc flip: power_Suc)
    then have "low_value (drop i v') + 2 ^ (bits - i) * int (t ! bits) = low_value (drop i v) + int (toggle ! i)"
      using r(2,7) sum vc True "1.prems"(1) by (simp add: low_value_drop algebra_simps)
    then show ?thesis using step r tk by auto
  next
    case False
    then have a: "add_one bits i v toggle = (v, toggle)" by (subst add_one.simps) auto
    show ?thesis
    proof (cases "i = bits")
      case True
      then show ?thesis unfolding a using "1.prems"(1,2,4,6) by simp
    next
      case ne: False
      then have "toggle ! bits = 0" "toggle ! i = 0" using "1.prems"(3,4,5) False by simp_all
      then show ?thesis unfolding a using "1.prems"(1,2,6) by simp
    qed
  qed
qed

lemma add_one_value:
  assumes "length v = bits" "list_all is_bit v" "0 < bits"
  shows "\<exists>v' t. add_one bits 0 v (1 # replicate bits 0) = (v', t) \<and> length v' = bits \<and> list_all is_bit v'
    \<and> (if low_value v + 1 < 2 ^ bits then t ! bits \<noteq> 1 \<and> low_value v' = low_value v + 1 else t ! bits = 1)"
proof -
  have z: "\<forall>j. 0 < j \<and> j \<le> bits \<longrightarrow> (1 # replicate bits (0 :: nat)) ! j = 0" by (auto simp: nth_Cons')
  obtain v' t where r: "add_one bits 0 v (1 # replicate bits 0) = (v', t)" "length v' = bits" "list_all is_bit v'"
    "t ! bits \<le> 1" "low_value v' + 2 ^ bits * int (t ! bits) = low_value v + 1"
    using add_one_carry [of v bits "1 # replicate bits 0" 0, OF _ _ _ _ z] assms by auto
  have "0 \<le> low_value v'" "low_value v' < 2 ^ bits" using low_value_bounds [of v'] r(2) by auto
  then have "if low_value v + 1 < 2 ^ bits then t ! bits \<noteq> 1 \<and> low_value v' = low_value v + 1 else t ! bits = 1"
    using r(4,5) by (cases "t ! bits = 1") (auto simp: le_Suc_eq)
  then show ?thesis using r by auto
qed

lemma int2bin_bits:
  assumes "0 < n" "length s = n" "list_all is_bit s"
  shows "int2bin (bin_value s) n = Inr s"
proof -
  have "bin2int s = Inr (bin_value s)" using assms by (intro bin2int_bits) auto
  then show ?thesis using int2bin_written [OF assms] by simp
qed

text \<open>The outer loop from the value \<open>k\<close> on.\<close>

lemma count_up:
  assumes "0 < bits" "length v = bits" "list_all is_bit v" "t ! bits \<noteq> 1"
  shows "\<exists>l' v' t'. while_option (\<lambda>(l, v, toggle). toggle ! bits \<noteq> 1)
     (\<lambda>(l, v, toggle). let (v', toggle') = add_one bits 0 v (1 # replicate bits 0) in (l @ [rev v], v', toggle')) (l, v, t) =
       Some (l @ l', v', t') \<and> map Inr l' = map (\<lambda>k. int2bin k bits) [low_value v..2 ^ bits - 1]"
  using assms(2-)
proof (induction "nat (2 ^ bits - low_value v)" arbitrary: v l t rule: less_induct)
  case less
  let ?w = "while_option (\<lambda>(l, v, toggle). toggle ! bits \<noteq> 1)
     (\<lambda>(l, v, toggle). let (v', toggle') = add_one bits 0 v (1 # replicate bits (0 :: nat)) in (l @ [rev v], v', toggle'))"
  obtain v' t' where s: "add_one bits 0 v (1 # replicate bits 0) = (v', t')" "length v' = bits" "list_all is_bit v'"
    "if low_value v + 1 < 2 ^ bits then t' ! bits \<noteq> 1 \<and> low_value v' = low_value v + 1 else t' ! bits = 1"
    using add_one_value [OF less.prems(1,2) assms(1)] by blast
  have lv: "low_value v < 2 ^ bits" using low_value_bounds [of v] less.prems(1) by simp
  have head: "int2bin (low_value v) bits = Inr (rev v)"
    using int2bin_bits [OF assms(1), of "rev v"] less.prems by (simp add: low_value_def)
  have unfold: "?w (l, v, t) = ?w (l @ [rev v], v', t')"
    using less.prems(3) s(1) by (subst while_option_unfold) (simp del: One_nat_def)
  show ?case
  proof (cases "low_value v + 1 < 2 ^ bits")
    case True
    then have "nat (2 ^ bits - low_value v') < nat (2 ^ bits - low_value v)" "t' ! bits \<noteq> 1" using s(4) lv by auto
    then obtain l' v'' t'' where "?w (l @ [rev v], v', t') = Some ((l @ [rev v]) @ l', v'', t'')"
      "map Inr l' = map (\<lambda>k. int2bin k bits) [low_value v'..2 ^ bits - 1]"
      using less.hyps [OF _ s(2,3), of t' "l @ [rev v]"] by auto
    moreover have "[low_value v..2 ^ bits - 1] = low_value v # [low_value v'..2 ^ bits - 1]"
      using True s(4) by (simp add: upto_rec1)
    ultimately show ?thesis using unfold head by auto
  next
    case False
    then have "[low_value v..2 ^ bits - 1] = [low_value v]" using lv by (simp add: upto_rec1)
    moreover have "?w (l @ [rev v], v', t') = Some (l @ [rev v], v', t')"
      using False s(4) by (subst while_option_unfold) simp
    ultimately show ?thesis using unfold head by auto
  qed
qed

text \<open>\<open>binary_range\<close> ends, and lists the numbers below \<open>2^bits\<close> in order as \<open>int2bin\<close> writes
  them.\<close>

theorem binary_range_counts:
  assumes "0 < bits"
  shows "\<exists>l. binary_range bits = Some l \<and> map Inr l = map (\<lambda>k. int2bin k bits) [0..2 ^ bits - 1]"
proof -
  have z: "low_value (replicate bits (CHR ''0'')) = 0" by (simp add: low_value_def)
  have b: "list_all is_bit (replicate bits (CHR ''0''))" by (rule bits_zeros)
  have t: "(1 # replicate bits (0 :: nat)) ! bits \<noteq> 1" using assms by (simp add: nth_Cons')
  obtain l v t where "while_option (\<lambda>(l, v, toggle). toggle ! bits \<noteq> 1)
     (\<lambda>(l, v, toggle). let (v', toggle') = add_one bits 0 v (1 # replicate bits 0) in (l @ [rev v], v', toggle'))
     ([], replicate bits (CHR ''0''), 1 # replicate bits 0) = Some (l, v, t)"
    "map Inr l = map (\<lambda>k. int2bin k bits) [0..2 ^ bits - 1]"
    using count_up [OF assms _ b t, of "[]"] z by auto
  then show ?thesis by (simp add: binary_range_def)
qed

theorem binary_range_counts_witness: "binary_range 2 = Some [''00'', ''01'', ''10'', ''11''] \<and> binary_range 0 = Some []"
proof
  have "map (\<lambda>k. int2bin k 2) [0..2 ^ 2 - 1] = map Inr [''00'', ''01'', ''10'', ''11'']" by code_simp
  moreover obtain l where l: "binary_range 2 = Some l" "map Inr l = map (\<lambda>k. int2bin k 2) [0..2 ^ 2 - 1]"
    using binary_range_counts [of 2] by auto
  ultimately have "map Inr l = (map Inr [''00'', ''01'', ''10'', ''11''] :: string result list)" by (simp only:)
  then have "l = [''00'', ''01'', ''10'', ''11'']" by (simp only: inj_map_eq_map [OF inj_Inr])
  then show "binary_range 2 = Some [''00'', ''01'', ''10'', ''11'']" using l(1) by (simp only:)
  show "binary_range 0 = Some []" by (simp add: binary_range_def while_option_unfold)
qed

subsection \<open>Factors, fractions, grids\<close>

lemma gcf_loop_gcd: "\<bar>gcf_loop a b\<bar> = gcd a b"
proof (induction a b rule: gcf_loop.induct)
  case (1 a b)
  show ?case
  proof (cases "b = 0")
    case True
    then show ?thesis by (subst gcf_loop.simps) simp
  next
    case False
    then have "gcf_loop a b = gcf_loop b (a mod b)" by (subst gcf_loop.simps) simp
    also have "\<bar>\<dots>\<bar> = gcd b (a mod b)" by (rule 1 [OF False])
    also have "\<dots> = gcd a b" by (rule gcd_red_int [symmetric])
    finally show ?thesis .
  qed
qed

lemma gcf_gcd: "gcf a b = gcd a b"
  by (cases "a \<le> b") (simp_all add: gcf_def gcf_loop_gcd max_def min_def gcd.commute)

text \<open>\<open>gcf\<close> is the greatest common divisor, \<open>lcm\<close> up to sign the least common multiple, and
  \<open>reduce_fraction\<close> gives the same fraction in lowest terms, with a ZeroDivisionError exactly for
  \<open>0/0\<close>.\<close>

theorem fractions_reduced:
  "gcf a b = gcd a b \<and> \<bar>rad_lcm a b\<bar> = lcm a b
   \<and> (case reduce_fraction (a, b) of Inl e \<Rightarrow> e = ZeroDivisionError \<and> a = 0 \<and> b = 0
      | Inr (p, q) \<Rightarrow> coprime p q \<and> p * b = q * a)"
proof (intro conjI)
  show "gcf a b = gcd a b" by (rule gcf_gcd)
  show "\<bar>rad_lcm a b\<bar> = lcm a b"
  proof (cases "gcd a b = 0")
    case True
    then show ?thesis by (simp add: rad_lcm_def gcf_gcd)
  next
    case False
    have "b = (b div gcd a b) * gcd a b" by simp
    then have "\<bar>a * (b div gcd a b)\<bar> * gcd a b = \<bar>a * b\<bar>" by (metis abs_gcd_int abs_mult mult.assoc)
    moreover have "\<bar>rad_lcm a b\<bar> = \<bar>a * (b div gcd a b)\<bar>" using False by (simp add: rad_lcm_def gcf_gcd)
    moreover have "gcd a b * lcm a b = \<bar>a * b\<bar>" using prod_gcd_lcm_int [of a b] by (simp only: abs_mult)
    ultimately have "\<bar>rad_lcm a b\<bar> * gcd a b = lcm a b * gcd a b" by (metis mult.commute)
    then show ?thesis using False by (metis mult_cancel_right)
  qed
  show "case reduce_fraction (a, b) of Inl e \<Rightarrow> e = ZeroDivisionError \<and> a = 0 \<and> b = 0
      | Inr (p, q) \<Rightarrow> coprime p q \<and> p * b = q * a"
  proof (cases "a = 0 \<and> b = 0")
    case True
    then show ?thesis by (simp add: reduce_fraction_def gcf_gcd)
  next
    case False
    then have "coprime (a div gcd a b) (b div gcd a b)" by (intro div_gcd_coprime) auto
    moreover have "a div gcd a b * b = b div gcd a b * a"
      by (metis dvd_div_mult gcd_dvd1 gcd_dvd2 mult.commute)
    ultimately show ?thesis using False by (auto simp: reduce_fraction_def gcf_gcd Let_def)
  qed
qed

text \<open>Rounding up or down to a grid gives the next multiple, but for a value that is on the grid
  already it fails with an UnboundLocalError.\<close>

theorem round_grid_modes:
  assumes "0 < grid"
  shows "(case round_grid value grid 1 of Inl e \<Rightarrow> e = UnboundLocalError \<and> grid dvd value
      | Inr r \<Rightarrow> grid dvd r \<and> value < r \<and> r < value + grid)
    \<and> (case round_grid value grid (- 1) of Inl e \<Rightarrow> e = UnboundLocalError \<and> grid dvd value
      | Inr r \<Rightarrow> grid dvd r \<and> r < value \<and> value < r + grid)"
proof (cases "grid dvd value")
  case True
  then show ?thesis using assms by (simp add: round_grid_def dvd_eq_mod_eq_0 Let_def)
next
  case False
  then have "value mod grid \<noteq> 0" by (simp add: dvd_eq_mod_eq_0)
  then have m: "0 < value mod grid" "value mod grid < grid"
    using pos_mod_sign [OF assms, of "value"] pos_mod_bound [OF assms, of "value"] by linarith+
  show ?thesis using assms False m
    by (simp add: round_grid_def dvd_eq_mod_eq_0 Let_def algebra_simps)
      (use mult_div_mod_eq [of grid "value"] in linarith)
qed

theorem round_grid_modes_witness: "round_grid 7 5 1 = Inr 10 \<and> round_grid 10 5 1 = Inl UnboundLocalError"
proof -
  have "round_grid 7 5 1 = Inr 10" by code_simp
  then show ?thesis using round_grid_modes [of 5 10] by (auto split: sum.splits)
qed

subsection \<open>Lists\<close>

definition keep_first :: "'a \<Rightarrow> 'a list \<Rightarrow> 'a list" where
  "keep_first x res = (if x \<in> set res then res else res @ [x])"

lemma uniquify_fold:
  assumes "\<forall>x. dget d x \<noteq> None \<longleftrightarrow> x \<in> set res"
  shows "fst (fold uniquify_step xs (res, d)) = fold keep_first xs res"
  using assms
proof (induction xs arbitrary: res d)
  case (Cons x xs)
  show ?case
  proof (cases "x \<in> set res")
    case True
    then have "uniquify_step x (res, d) = (res, d)" using Cons.prems by (auto simp: uniquify_step_def)
    then show ?thesis using True Cons by (simp add: keep_first_def)
  next
    case False
    then have "uniquify_step x (res, d) = (res @ [x], dset x 0 d)" using Cons.prems by (auto simp: uniquify_step_def)
    moreover have "\<forall>y. dget (dset x 0 d) y \<noteq> None \<longleftrightarrow> y \<in> set (res @ [x])"
      using Cons.prems by (auto simp: dget_def dset_def update_conv)
    ultimately show ?thesis using False Cons.IH by (simp add: keep_first_def)
  qed
qed simp

lemma keep_first_all: "fold keep_first xs [] = rev (remdups (rev xs))"
  by (induction xs rule: rev_induct) (auto simp: keep_first_def)

text \<open>With and without hashing, \<open>uniquify\<close> keeps the first occurrence of every item, in order.\<close>

theorem uniquify_first:
  "uniquify xs = rev (remdups (rev xs)) \<and> uniquify_slow xs = uniquify xs"
proof -
  have "uniquify xs = fold keep_first xs []" unfolding uniquify_def by (rule uniquify_fold) (simp add: dget_def)
  moreover have "uniquify_slow xs = fold keep_first xs []" unfolding uniquify_slow_def keep_first_def ..
  ultimately show ?thesis by (simp only: keep_first_all simp_thms)
qed

lemma common_run_split:
  "\<exists>u v. xs = common_run xs ys @ u \<and> ys = common_run xs ys @ v \<and> (u = [] \<or> v = [] \<or> hd u \<noteq> hd v)"
proof (induction xs ys rule: common_run.induct)
  case (1 x xs y ys)
  show ?case
  proof (cases "x = y")
    case True
    then show ?thesis using 1 by auto
  qed auto
qed auto

text \<open>The longest common prefix, and the longest common suffix by itself: the two may overlap.\<close>

lemma common_fixes:
  assumes "find_common_fixes s1 s2 = (p, q)"
  shows "\<exists>u v. s1 = p @ u \<and> s2 = p @ v \<and> (u = [] \<or> v = [] \<or> hd u \<noteq> hd v)"
    and "\<exists>u v. s1 = u @ q \<and> s2 = v @ q \<and> (u = [] \<or> v = [] \<or> last u \<noteq> last v)"
proof -
  show "\<exists>u v. s1 = p @ u \<and> s2 = p @ v \<and> (u = [] \<or> v = [] \<or> hd u \<noteq> hd v)"
    using common_run_split [of s1 s2] assms by (auto simp: find_common_fixes_def)
  obtain u v where "rev s1 = rev q @ u" "rev s2 = rev q @ v" "u = [] \<or> v = [] \<or> hd u \<noteq> hd v"
    using common_run_split [of "rev s1" "rev s2"] assms by (auto simp: find_common_fixes_def)
  then have "s1 = rev u @ q" "s2 = rev v @ q" "rev u = [] \<or> rev v = [] \<or> last (rev u) \<noteq> last (rev v)"
    by (simp_all add: rev_swap last_rev)
  then show "\<exists>u v. s1 = u @ q \<and> s2 = v @ q \<and> (u = [] \<or> v = [] \<or> last u \<noteq> last v)" by blast
qed

end
