(* ===== verification/PyNum.thy ===== *)
theory PyNum
  imports PyFloatProps
begin

text \<open>
  Python 2 numbers: an arithmetic operation on two integers gives an integer (\<open>/\<close> rounds down), and
  a float otherwise. Comparisons between an integer and a float are exact.
\<close>

datatype pynum = I int | F pyfloat

fun as_float :: "pynum \<Rightarrow> pyfloat" where
  "as_float (I n) = float_of_int n"
| "as_float (F x) = x"

text \<open>The exact value, for comparisons: not rounded to a float.\<close>

fun exact :: "pynum \<Rightarrow> pyfloat" where
  "exact (I n) = Fin (of_int n)"
| "exact (F x) = x"

fun num_op :: "(int \<Rightarrow> int \<Rightarrow> int) \<Rightarrow> (pyfloat \<Rightarrow> pyfloat \<Rightarrow> pyfloat) \<Rightarrow> pynum \<Rightarrow> pynum \<Rightarrow> pynum" where
  "num_op f g (I m) (I n) = I (f m n)"
| "num_op f g a b = F (g (as_float a) (as_float b))"

definition nadd :: "pynum \<Rightarrow> pynum \<Rightarrow> pynum" where
  "nadd = num_op (+) fadd"

definition nsub :: "pynum \<Rightarrow> pynum \<Rightarrow> pynum" where
  "nsub = num_op (-) fsub"

definition nmul :: "pynum \<Rightarrow> pynum \<Rightarrow> pynum" where
  "nmul = num_op (*) fmul"

fun ndiv :: "pynum \<Rightarrow> pynum \<Rightarrow> pynum result" where
  "ndiv (I m) (I n) = (if n = 0 then Inl ZeroDivisionError else Inr (I (m div n)))"
| "ndiv a b = bindR (fdiv (as_float a) (as_float b)) (\<lambda>x. Inr (F x))"

text \<open>The remainder of floats: \<open>fmod\<close> is exact, then the divisor is added when the signs differ.\<close>

fun fmod :: "pyfloat \<Rightarrow> pyfloat \<Rightarrow> pyfloat" where
  "fmod (Fin x) (Fin y) = Fin (x - y * of_int (trunc (x / y)))"
| "fmod (Fin x) PInf = Fin x"
| "fmod (Fin x) NInf = Fin x"
| "fmod _ _ = NaN"

definition fmod_py :: "pyfloat \<Rightarrow> pyfloat \<Rightarrow> pyfloat result" where
  "fmod_py a b = (if b = Fin 0 then Inl ZeroDivisionError
     else Inr (let m = fmod a b in if m \<noteq> NaN \<and> m \<noteq> Fin 0 \<and> flt b (Fin 0) \<noteq> flt m (Fin 0) then fadd m b else m))"

fun nmod :: "pynum \<Rightarrow> pynum \<Rightarrow> pynum result" where
  "nmod (I m) (I n) = (if n = 0 then Inl ZeroDivisionError else Inr (I (m mod n)))"
| "nmod a b = bindR (fmod_py (as_float a) (as_float b)) (\<lambda>x. Inr (F x))"

definition nlt :: "pynum \<Rightarrow> pynum \<Rightarrow> bool" where
  "nlt a b \<longleftrightarrow> flt (exact a) (exact b)"

definition neq_num :: "pynum \<Rightarrow> pynum \<Rightarrow> bool" where
  "neq_num a b \<longleftrightarrow> feq (exact a) (exact b)"

definition nle :: "pynum \<Rightarrow> pynum \<Rightarrow> bool" where
  "nle a b \<longleftrightarrow> fle (exact a) (exact b)"

text \<open>\<open>max(a, b)\<close> and \<open>min(a, b)\<close> keep the first argument unless the second is better.\<close>

definition nmax :: "pynum \<Rightarrow> pynum \<Rightarrow> pynum" where
  "nmax a b = (if nlt a b then b else a)"

definition nmin :: "pynum \<Rightarrow> pynum \<Rightarrow> pynum" where
  "nmin a b = (if nlt b a then b else a)"

definition nabs :: "pynum \<Rightarrow> pynum" where
  "nabs a = (if nlt a (I 0) then nsub (I 0) a else a)"

fun nint :: "pynum \<Rightarrow> int result" where
  "nint (I n) = Inr n"
| "nint (F x) = fint x"

subsection \<open>Integers\<close>

named_theorems num_ints \<open>operations on two integers\<close>

lemma nadd_ints [num_ints]: "nadd (I m) (I n) = I (m + n)"
  by (simp add: nadd_def)

lemma nsub_ints [num_ints]: "nsub (I m) (I n) = I (m - n)"
  by (simp add: nsub_def)

lemma nmul_ints [num_ints]: "nmul (I m) (I n) = I (m * n)"
  by (simp add: nmul_def)

lemma nlt_ints [num_ints]: "nlt (I m) (I n) \<longleftrightarrow> m < n"
  by (simp add: nlt_def)

lemma nle_ints [num_ints]: "nle (I m) (I n) \<longleftrightarrow> m \<le> n"
  by (auto simp: nle_def fle_def feq_def)

lemma neq_ints [num_ints]: "neq_num (I m) (I n) \<longleftrightarrow> m = n"
  by (simp add: neq_num_def feq_def)

lemma nmax_ints [num_ints]: "nmax (I m) (I n) = I (max m n)"
  by (auto simp: nmax_def nlt_ints)

lemma nmin_ints [num_ints]: "nmin (I m) (I n) = I (min m n)"
  by (auto simp: nmin_def nlt_ints)

subsection \<open>The order\<close>

text \<open>Comparison is a linear order but for nan.\<close>

definition is_num :: "pynum \<Rightarrow> bool" where
  "is_num a \<longleftrightarrow> exact a \<noteq> NaN"

lemma flt_trans: "flt a b \<Longrightarrow> flt b c \<Longrightarrow> flt a c"
  by (cases a; cases b; cases c) auto

lemma fle_trans: "fle a b \<Longrightarrow> fle b c \<Longrightarrow> fle a c"
  by (cases a; cases b; cases c) (auto simp: fle_def feq_def)

lemma flt_linear: "a \<noteq> NaN \<Longrightarrow> b \<noteq> NaN \<Longrightarrow> \<not> flt a b \<longleftrightarrow> fle b a"
  by (cases a; cases b) (auto simp: fle_def feq_def)

lemma flt_num: "flt a b \<Longrightarrow> a \<noteq> NaN \<and> b \<noteq> NaN"
  by (cases a; cases b) auto

lemma nle_refl: "is_num a \<Longrightarrow> nle a a"
  by (simp add: nle_def fle_def feq_def is_num_def)

lemma nle_trans: "nle a b \<Longrightarrow> nle b c \<Longrightarrow> nle a c"
  unfolding nle_def by (rule fle_trans)

lemma nlt_imp_nle: "nlt a b \<Longrightarrow> nle a b"
  by (simp add: nlt_def nle_def fle_def)

text \<open>A bound by a number holds whatever the other argument is.\<close>

lemma nmax_ge: "is_num a \<Longrightarrow> nle a (nmax a b)"
  by (simp add: nmax_def nle_refl nlt_imp_nle)

lemma nmin_le: "is_num a \<Longrightarrow> nle (nmin a b) a"
  by (simp add: nmin_def nle_refl nlt_imp_nle)

end
