(* ===== verification/Grid.thy ===== *)
theory Grid
  imports PyNum Regex
begin

text \<open>
  The data of the timeline viewer, utils/grid.py: ranges and events with their binary searches, the
  timelines that are created on first use, the colours, and \<open>read_data\<close>. The first line asks for python3, but
  the program only runs on Python 2, the only one with \<open>gtk\<close> (line 7), with a comparison as the argument of
  \<open>sort\<close> (lines 175 and 251, a TypeError in Python 3 whatever the list is) and with \<open>has_key\<close> (line 495); so \<open>/\<close> on integers
  rounds down. The methods that
  return an object to be changed (\<open>get\<close>, \<open>get_range\<close>, ...) are the update of the entry of that name,
  which is appended when it is missing: \<open>upd_named\<close>, whose laws are the locale \<open>named_list\<close>.
\<close>

subsection \<open>Ranges and events\<close>

record data_range =
  dr_start :: int
  dr_end :: int
  dr_value :: string

datatype event = EventString int string | EventFloat int pyfloat | EventInt int int

fun event_at :: "event \<Rightarrow> int" where
  "event_at (EventString t v) = t"
| "event_at (EventFloat t v) = t"
| "event_at (EventInt t v) = t"

definition ranges_cmp :: "data_range \<Rightarrow> data_range \<Rightarrow> int" where
  "ranges_cmp a b = (let diff = dr_start a - dr_start b in if diff < 0 then - 1 else if diff > 0 then 1 else 0)"

definition events_cmp :: "event \<Rightarrow> event \<Rightarrow> int" where
  "events_cmp a b = (let diff = event_at a - event_at b in if diff < 0 then - 1 else if diff > 0 then 1 else 0)"

text \<open>\<open>list.sort(cmp)\<close> is stable.\<close>

fun insert_cmp :: "('a \<Rightarrow> 'a \<Rightarrow> int) \<Rightarrow> 'a \<Rightarrow> 'a list \<Rightarrow> 'a list" where
  "insert_cmp cmp x [] = [x]"
| "insert_cmp cmp x (y # ys) = (if cmp x y \<le> 0 then x # y # ys else y # insert_cmp cmp x ys)"

definition sort_cmp :: "('a \<Rightarrow> 'a \<Rightarrow> int) \<Rightarrow> 'a list \<Rightarrow> 'a list" where
  "sort_cmp cmp xs = foldr (insert_cmp cmp) xs []"

record timeline_data_range =
  rng_name :: string
  rng_ranges :: "data_range list"

definition TimelineDataRange :: "string \<Rightarrow> timeline_data_range" where
  "TimelineDataRange name = \<lparr>rng_name = name, rng_ranges = []\<rparr>"

text \<open>The bounds of the search are integers: \<open>u\<close> may become -1.\<close>

function range_search :: "data_range list \<Rightarrow> pynum \<Rightarrow> int \<Rightarrow> int \<Rightarrow> int" where
  "range_search ranges key l u = (if l \<le> u then
     (let i = (l + u) div 2; r = ranges ! nat i in
      if nle (I (dr_start r)) key \<and> nle key (I (dr_end r)) then i
      else if nlt key (I (dr_start r)) then range_search ranges key l (i - 1)
      else range_search ranges key (i + 1) u)
     else - 1)"
  by pat_completeness auto
termination
  by (relation "measure (\<lambda>(ranges, key, l, u). nat (u - l + 1))") auto

declare range_search.simps [simp del]

definition find_range :: "data_range list \<Rightarrow> pynum \<Rightarrow> int" where
  "find_range ranges key = range_search ranges key 0 (int (length ranges) - 1)"

definition add_range :: "data_range \<Rightarrow> timeline_data_range \<Rightarrow> timeline_data_range" where
  "add_range r t = t\<lparr>rng_ranges := rng_ranges t @ [r]\<rparr>"

text \<open>\<open>xs[s:e]\<close> for bounds that are not negative.\<close>

definition slice :: "'a list \<Rightarrow> int \<times> int \<Rightarrow> 'a list" where
  "slice xs b = (case b of (s, e) \<Rightarrow> drop (nat s) (take (nat e) xs))"

definition get_ranges_bounds :: "timeline_data_range \<Rightarrow> pynum \<Rightarrow> pynum \<Rightarrow> int \<times> int" where
  "get_ranges_bounds t start stop = (let s = find_range (rng_ranges t) start; e = find_range (rng_ranges t) stop in
     if s = - 1 \<and> e = - 1 then (0, 0)
     else if s = - 1 then (0, e + 1)
     else if e = - 1 then (s, int (length (rng_ranges t)))
     else (s, e + 1))"

definition get_ranges :: "timeline_data_range \<Rightarrow> pynum \<Rightarrow> pynum \<Rightarrow> data_range list" where
  "get_ranges t start stop = (let s = find_range (rng_ranges t) start; e = find_range (rng_ranges t) stop in
     if s = - 1 \<and> e = - 1 then []
     else if s = - 1 then slice (rng_ranges t) (0, e + 1)
     else if e = - 1 then slice (rng_ranges t) (s, int (length (rng_ranges t)))
     else slice (rng_ranges t) (s, e + 1))"

definition sort_ranges :: "timeline_data_range \<Rightarrow> timeline_data_range" where
  "sort_ranges t = t\<lparr>rng_ranges := sort_cmp ranges_cmp (rng_ranges t)\<rparr>"

definition range_bounds :: "timeline_data_range \<Rightarrow> int \<times> int" where
  "range_bounds t = (if rng_ranges t \<noteq> [] then (dr_start (hd (rng_ranges t)), dr_end (last (rng_ranges t))) else (0, 0))"

record timeline_event =
  ev_name :: string
  ev_events :: "event list"

definition TimelineEvent :: "string \<Rightarrow> timeline_event" where
  "TimelineEvent name = \<lparr>ev_name = name, ev_events = []\<rparr>"

function event_search :: "event list \<Rightarrow> pynum \<Rightarrow> int \<Rightarrow> int \<Rightarrow> int" where
  "event_search events key l u = (if l \<le> u then
     (let i = (l + u) div 2; t = I (event_at (events ! nat i)) in
      if neq_num key t then i
      else if nlt key t then event_search events key l (i - 1)
      else event_search events key (i + 1) u)
     else l)"
  by pat_completeness auto
termination
  by (relation "measure (\<lambda>(events, key, l, u). nat (u - l + 1))") auto

declare event_search.simps [simp del]

definition find_event :: "event list \<Rightarrow> pynum \<Rightarrow> int" where
  "find_event events key = event_search events key 0 (int (length events) - 1)"

definition add_event :: "event \<Rightarrow> timeline_event \<Rightarrow> timeline_event" where
  "add_event e t = t\<lparr>ev_events := ev_events t @ [e]\<rparr>"

definition get_events_bounds :: "timeline_event \<Rightarrow> pynum \<Rightarrow> pynum \<Rightarrow> int \<times> int" where
  "get_events_bounds t start stop = (find_event (ev_events t) start, find_event (ev_events t) stop + 1)"

definition get_events :: "timeline_event \<Rightarrow> pynum \<Rightarrow> pynum \<Rightarrow> event list" where
  "get_events t start stop = slice (ev_events t) (find_event (ev_events t) start, find_event (ev_events t) stop + 1)"

definition sort_events :: "timeline_event \<Rightarrow> timeline_event" where
  "sort_events t = t\<lparr>ev_events := sort_cmp events_cmp (ev_events t)\<rparr>"

definition event_bounds :: "timeline_event \<Rightarrow> int \<times> int" where
  "event_bounds t = (if ev_events t \<noteq> [] then (event_at (hd (ev_events t)), event_at (last (ev_events t))) else (0, 0))"

subsection \<open>Timelines\<close>

text \<open>The first entry of a name, created at the end when there is none, is changed by \<open>f\<close>.\<close>

fun upd_named :: "('a \<Rightarrow> string) \<Rightarrow> (string \<Rightarrow> 'a) \<Rightarrow> string \<Rightarrow> ('a \<Rightarrow> 'a) \<Rightarrow> 'a list \<Rightarrow> 'a list" where
  "upd_named nm new s f [] = [f (new s)]"
| "upd_named nm new s f (x # xs) = (if nm x = s then f x # xs else x # upd_named nm new s f xs)"

definition find_named :: "('a \<Rightarrow> string) \<Rightarrow> (string \<Rightarrow> 'a) \<Rightarrow> string \<Rightarrow> 'a list \<Rightarrow> 'a" where
  "find_named nm new s xs = (case List.find (\<lambda>x. nm x = s) xs of None \<Rightarrow> new s | Some x \<Rightarrow> x)"

record timeline =
  tl_name :: string
  tl_ranges :: "timeline_data_range list"
  tl_event_str :: "timeline_event list"
  tl_event_int :: "timeline_event list"

definition Timeline :: "string \<Rightarrow> timeline" where
  "Timeline name = \<lparr>tl_name = name, tl_ranges = [], tl_event_str = [], tl_event_int = []\<rparr>"

definition get_range :: "string \<Rightarrow> (timeline_data_range \<Rightarrow> timeline_data_range) \<Rightarrow> timeline \<Rightarrow> timeline" where
  "get_range name f t = t\<lparr>tl_ranges := upd_named rng_name TimelineDataRange name f (tl_ranges t)\<rparr>"

definition get_event_str :: "string \<Rightarrow> (timeline_event \<Rightarrow> timeline_event) \<Rightarrow> timeline \<Rightarrow> timeline" where
  "get_event_str name f t = t\<lparr>tl_event_str := upd_named ev_name TimelineEvent name f (tl_event_str t)\<rparr>"

definition get_event_int :: "string \<Rightarrow> (timeline_event \<Rightarrow> timeline_event) \<Rightarrow> timeline \<Rightarrow> timeline" where
  "get_event_int name f t = t\<lparr>tl_event_int := upd_named ev_name TimelineEvent name f (tl_event_int t)\<rparr>"

definition sort_timeline :: "timeline \<Rightarrow> timeline" where
  "sort_timeline t = t\<lparr>tl_ranges := map sort_ranges (tl_ranges t), tl_event_int := map sort_events (tl_event_int t),
     tl_event_str := map sort_events (tl_event_str t)\<rparr>"

definition widen :: "int \<times> int \<Rightarrow> int \<times> int \<Rightarrow> int \<times> int" where
  "widen b acc = (case (b, acc) of ((x, y), (lo, hi)) \<Rightarrow> (if x < lo then x else lo, if y > hi then y else hi))"

definition timeline_bounds :: "timeline \<Rightarrow> int \<times> int" where
  "timeline_bounds t = (let b = fold widen (map range_bounds (tl_ranges t)) (0, 0);
     b = fold widen (map event_bounds (tl_event_str t)) b
     in fold widen (map event_bounds (tl_event_int t)) b)"

type_synonym timelines = "timeline list"

definition get_timeline :: "string \<Rightarrow> (timeline \<Rightarrow> timeline) \<Rightarrow> timelines \<Rightarrow> timelines" where
  "get_timeline name f ts = upd_named tl_name Timeline name f ts"

definition sort_timelines :: "timelines \<Rightarrow> timelines" where
  "sort_timelines ts = map sort_timeline ts"

definition get_bounds :: "timelines \<Rightarrow> int \<times> int" where
  "get_bounds ts = fold widen (map timeline_bounds ts) (0, 0)"

text \<open>The keys of a dictionary, here in the order of their insertion.\<close>

definition get_all_range_values :: "timelines \<Rightarrow> string list" where
  "get_all_range_values ts = dkeys (fold (\<lambda>t d. fold (\<lambda>rs d. fold (\<lambda>r. dset (dr_value r) (1 :: int)) (rng_ranges rs) d)
     (tl_ranges t) d) ts [])"

subsection \<open>Colours\<close>

text \<open>All components are integers in Python 2.\<close>

record color =
  red :: int
  green :: int
  blue :: int

definition rgb :: "int \<Rightarrow> int \<Rightarrow> int \<Rightarrow> color" where
  "rgb r g b = \<lparr>red = r, green = g, blue = b\<rparr>"

text \<open>The default colours belong to the class; there is one object of it.\<close>

record colors =
  named_colors :: "(string, color) dict"
  default_colors :: "color list"

definition Colors :: colors where
  "Colors = \<lparr>named_colors = [], default_colors = [rgb 1 0 0, rgb 0 1 0, rgb 0 0 1, rgb 1 1 0, rgb 1 0 1, rgb 0 1 1]\<rparr>"

definition add_color :: "string \<Rightarrow> color \<Rightarrow> colors \<Rightarrow> colors" where
  "add_color name c s = s\<lparr>named_colors := dset name c (named_colors s)\<rparr>"

definition color_lookup :: "string \<Rightarrow> colors \<Rightarrow> (color \<times> colors) result" where
  "color_lookup name s = (case dget (named_colors s) name of
     Some c \<Rightarrow> Inr (c, s)
   | None \<Rightarrow> if default_colors s = [] then Inl IndexError
       else (let c = last (default_colors s) in
         Inr (c, add_color name c (s\<lparr>default_colors := butlast (default_colors s)\<rparr>))))"

subsection \<open>Reading a file\<close>

definition not_space :: "char \<Rightarrow> bool" where
  "not_space c \<longleftrightarrow> c \<noteq> CHR '' ''"

definition is_hex :: "char \<Rightarrow> bool" where
  "is_hex c = (let n = (of_char c :: int) in is_digit c \<or> (97 \<le> n \<and> n \<le> 102) \<or> (65 \<le> n \<and> n \<le> 70))"

definition word_group :: regex where
  "word_group = group [some1 not_space]"

definition digits_group :: regex where
  "digits_group = group [some1 is_digit]"

definition hex_group :: regex where
  "hex_group = group [Rep is_hex 2 (Some 2)]"

definition m1 :: regex where
  "m1 = lit ''range '' @ word_group @ lit '' '' @ word_group @ lit '' '' @ word_group @ lit '' '' @ digits_group
     @ lit '' '' @ digits_group"

definition m2 :: regex where
  "m2 = lit ''event-str '' @ word_group @ lit '' '' @ word_group @ lit '' '' @ word_group @ lit '' '' @ digits_group"

definition m3 :: regex where
  "m3 = lit ''event-int '' @ word_group @ lit '' '' @ word_group @ lit '' '' @ digits_group @ lit '' '' @ digits_group"

definition m4 :: regex where
  "m4 = lit ''color '' @ word_group @ lit '' #'' @ hex_group @ hex_group @ hex_group"

definition to_int :: "string \<Rightarrow> int result" where
  "to_int s = (case py_int s of None \<Rightarrow> Inl ValueError | Some n \<Rightarrow> Inr n)"

text \<open>\<open>int(s, 16)\<close> on hexadecimal digits.\<close>

definition hex_digit_value :: "char \<Rightarrow> int" where
  "hex_digit_value c = (if is_digit c then dval c else of_char (lower_char c) - 87)"

definition hex_int :: "string \<Rightarrow> int" where
  "hex_int s = foldl (\<lambda>n c. 16 * n + hex_digit_value c) 0 s"

text \<open>The groups of a match of each pattern.\<close>

definition match_range :: "string \<Rightarrow> (string \<times> string \<times> string \<times> string \<times> string) option" where
  "match_range line = (case re_match m1 line of Some [Some t, Some n, Some v, Some a, Some b] \<Rightarrow> Some (t, n, v, a, b) | _ \<Rightarrow> None)"

definition match_event :: "regex \<Rightarrow> string \<Rightarrow> (string \<times> string \<times> string \<times> string) option" where
  "match_event m line = (case re_match m line of Some [Some t, Some n, Some v, Some a] \<Rightarrow> Some (t, n, v, a) | _ \<Rightarrow> None)"

definition read_step :: "string \<Rightarrow> colors \<times> timelines \<Rightarrow> (colors \<times> timelines) result" where
  "read_step line s = (case s of (colors, timelines) \<Rightarrow> (case match_range line of
       Some (t, n, v, a, b) \<Rightarrow>
         bindR (to_int a) (\<lambda>start. bindR (to_int b) (\<lambda>stop.
           Inr (colors, get_timeline t (get_range n (add_range \<lparr>dr_start = start, dr_end = stop, dr_value = v\<rparr>)) timelines)))
     | None \<Rightarrow> (case match_event m2 line of
       Some (t, n, v, a) \<Rightarrow>
         bindR (to_int a) (\<lambda>tm. Inr (colors, get_timeline t (get_event_str n (add_event (EventString tm v))) timelines))
     | None \<Rightarrow> (case match_event m3 line of
       Some (t, n, v, a) \<Rightarrow>
         bindR (to_int v) (\<lambda>i. bindR (to_int a) (\<lambda>tm.
           Inr (colors, get_timeline t (get_event_int n (add_event (EventInt tm i))) timelines)))
     | None \<Rightarrow> (case match_event m4 line of
       Some (n, r, g, b) \<Rightarrow>
         Inr (add_color n (rgb (hex_int r div 255) (hex_int g div 255) (hex_int b div 255)) colors, timelines)
     | None \<Rightarrow> Inr (colors, timelines))))))"

definition read_data :: "string list \<Rightarrow> (colors \<times> timelines) result" where
  "read_data lines = bindR (foldR read_step lines (Colors, [])) (\<lambda>(colors, timelines). Inr (colors, sort_timelines timelines))"

subsection \<open>Searching\<close>

lemma insert_cmp_insort:
  assumes "\<And>x y. cmp x y \<le> 0 \<longleftrightarrow> f x \<le> (f y :: int)"
  shows "insert_cmp cmp x ys = insort_key f x ys"
  by (induction ys) (simp_all add: assms)

lemma sort_cmp_key:
  assumes "\<And>x y. cmp x y \<le> 0 \<longleftrightarrow> f x \<le> (f y :: int)"
  shows "sort_cmp cmp xs = sort_key f xs"
  by (induction xs) (simp_all add: sort_cmp_def insert_cmp_insort [where cmp = cmp and f = f, OF assms])

lemma sort_ranges_key: "sort_cmp ranges_cmp xs = sort_key dr_start xs"
  by (rule sort_cmp_key) (auto simp: ranges_cmp_def Let_def)

lemma sort_events_key: "sort_cmp events_cmp xs = sort_key event_at xs"
  by (rule sort_cmp_key) (auto simp: events_cmp_def Let_def)

text \<open>Numbers against integers.\<close>

lemma nlt_cases: "is_num a \<Longrightarrow> is_num b \<Longrightarrow> nlt a b \<or> neq_num a b \<or> nlt b a"
  unfolding is_num_def nlt_def neq_num_def feq_def by (cases "exact a"; cases "exact b") auto

lemma is_num_I [simp]: "is_num (I n)"
  by (simp add: is_num_def)

lemma nlt_int_trans: "nlt (I a) k \<Longrightarrow> b \<le> a \<Longrightarrow> nlt (I b) k" "nlt k (I a) \<Longrightarrow> a \<le> b \<Longrightarrow> nlt k (I b)"
  unfolding nlt_def by (cases "exact k"; auto)+

lemma nle_int_trans: "nle (I a) k \<Longrightarrow> b \<le> a \<Longrightarrow> nle (I b) k" "nle k (I a) \<Longrightarrow> a \<le> b \<Longrightarrow> nle k (I b)"
  unfolding nle_def fle_def feq_def by (cases "exact k"; auto)+

lemma nle_alt: "nle a b \<longleftrightarrow> nlt a b \<or> neq_num a b"
  by (simp add: nle_def nlt_def neq_num_def fle_def)

lemma neq_num_sym: "neq_num a b \<longleftrightarrow> neq_num b a"
  by (auto simp: neq_num_def feq_def)

lemma not_nlt: "is_num a \<Longrightarrow> is_num b \<Longrightarrow> \<not> nlt a b \<longleftrightarrow> nle b a"
  unfolding nlt_def nle_def is_num_def by (rule flt_linear)

text \<open>Where a key is in a sorted list of events: at the index, or just before it.\<close>

definition placed :: "event list \<Rightarrow> pynum \<Rightarrow> int \<Rightarrow> bool" where
  "placed es key s \<longleftrightarrow> 0 \<le> s \<and> s \<le> int (length es)
     \<and> (\<forall>i < nat s. nle (I (event_at (es ! i))) key)
     \<and> (\<forall>i. nat s \<le> i \<longrightarrow> i < length es \<longrightarrow> nle key (I (event_at (es ! i))))
     \<and> (s < int (length es) \<and> neq_num key (I (event_at (es ! nat s)))
        \<or> (\<forall>i < nat s. nlt (I (event_at (es ! i))) key) \<and> (\<forall>i. nat s \<le> i \<longrightarrow> i < length es \<longrightarrow> nlt key (I (event_at (es ! i)))))"

lemma event_search_placed:
  assumes "sorted (map event_at es)" "is_num key" "0 \<le> l" "l \<le> u + 1" "u < int (length es)"
    and "\<forall>i < nat l. nlt (I (event_at (es ! i))) key"
    and "\<forall>i. nat (u + 1) \<le> i \<longrightarrow> i < length es \<longrightarrow> nlt key (I (event_at (es ! i)))"
  shows "placed es key (event_search es key l u)"
  using assms
proof (induction es key l u rule: event_search.induct)
  case (1 es key l u)
  have mono: "event_at (es ! i) \<le> event_at (es ! j)" if "i \<le> j" "j < length es" for i j
    using 1(3) that sorted_nth_mono [of "map event_at es" i j] by simp
  show ?case
  proof (cases "l \<le> u")
    case False
    then have "event_search es key l u = l" by (subst event_search.simps) simp
    moreover have "u + 1 = l" using False 1(6) by simp
    ultimately show ?thesis using 1(5-9) by (auto simp: placed_def nle_alt)
  next
    case True
    define i where "i = (l + u) div 2"
    have i: "l \<le> i" "i \<le> u" using True by (auto simp: i_def)
    then have il: "nat i < length es" using 1(5,7) by linarith
    define t where "t = event_at (es ! nat i)"
    have step: "event_search es key l u = (if neq_num key (I t) then i
        else if nlt key (I t) then event_search es key l (i - 1) else event_search es key (i + 1) u)"
      using True by (subst event_search.simps) (simp add: Let_def i_def t_def)
    consider "neq_num key (I t)" | "\<not> neq_num key (I t)" "nlt key (I t)" | "\<not> neq_num key (I t)" "nlt (I t) key" "\<not> nlt key (I t)"
      using nlt_cases [OF 1(4), of "I t"] by auto
    then show ?thesis
    proof cases
      case 1
      have "nle (I t) key" "nle key (I t)" using 1 neq_num_sym nle_alt by blast+
      then have "\<forall>j < nat i. nle (I (event_at (es ! j))) key" "\<forall>j. nat i \<le> j \<longrightarrow> j < length es \<longrightarrow> nle key (I (event_at (es ! j)))"
        using mono [of _ "nat i"] mono [of "nat i"] il nle_int_trans t_def by (meson less_imp_le, meson)
      then show ?thesis using 1 i il \<open>0 \<le> l\<close> by (auto simp: step placed_def t_def)
    next
      case 2
      have "\<forall>j. nat (i - 1 + 1) \<le> j \<longrightarrow> j < length es \<longrightarrow> nlt key (I (event_at (es ! j)))"
        using mono [of "nat i"] 2(2) nlt_int_trans(2) t_def by (metis add.commute diff_add_cancel)
      then show ?thesis using 1(1) [OF True i_def refl] 2 1(3-8) i by (simp add: step t_def)
    next
      case 3
      have "\<forall>j < nat (i + 1). nlt (I (event_at (es ! j))) key"
        using mono [of _ "nat i"] 3(2) nlt_int_trans(1) t_def il i \<open>0 \<le> l\<close> by (metis Suc_nat_eq_nat_zadd1 add.commute less_Suc_eq_le order_trans)
      then show ?thesis using 1(2) [OF True i_def refl] 3 1(3-9) i by (simp add: step t_def)
    qed
  qed
qed

lemma find_event_placed:
  assumes "sorted (map event_at es)" "is_num key"
  shows "placed es key (find_event es key)"
  unfolding find_event_def by (rule event_search_placed) (use assms in auto)

lemma slice_nth:
  assumes "x \<in> set (slice xs (s, e))" "0 \<le> s"
  obtains i where "nat s \<le> i" "i < nat e" "i < length xs" "x = xs ! i"
proof -
  obtain j where j: "j < length (slice xs (s, e))" "x = slice xs (s, e) ! j" using assms(1) by (metis in_set_conv_nth)
  then show thesis using that [of "nat s + j"] by (auto simp: slice_def)
qed

lemma nth_slice: "nat s \<le> i \<Longrightarrow> i < nat e \<Longrightarrow> i < length xs \<Longrightarrow> xs ! i \<in> set (slice xs (s, e))"
proof -
  assume i: "nat s \<le> i" "i < nat e" "i < length xs"
  then have "slice xs (s, e) ! (i - nat s) = xs ! i" "i - nat s < length (slice xs (s, e))" by (auto simp: slice_def)
  then show ?thesis by (metis nth_mem)
qed

lemma slice_butlast:
  assumes "x \<in> set (butlast (slice xs (s, e)))" "0 \<le> s"
  obtains i where "i < nat (e - 1)" "i < length xs" "x = xs ! i"
proof -
  have "butlast (slice xs (s, e)) = drop (nat s) (butlast (take (nat e) xs))"
    by (simp add: slice_def butlast_drop)
  then have "x \<in> set (butlast (take (nat e) xs))" using assms(1) by (metis in_set_dropD)
  then obtain j where j: "j < length (butlast (take (nat e) xs))" "x = butlast (take (nat e) xs) ! j"
    by (metis in_set_conv_nth)
  then have "j < nat e - 1" "j < length xs" by auto
  moreover have "x = xs ! j" using j by (simp add: nth_butlast)
  ultimately show thesis using that [of j] by simp
qed

text \<open>On a sorted timeline the events of a window are those the binary searches delimit: every event
  strictly inside is there, none is before the window, and at most the last one is behind it.\<close>

theorem get_events_window:
  assumes "sorted (map event_at (ev_events t))" "is_num start" "is_num stop"
  shows "(\<forall>e \<in> set (ev_events t). nlt start (I (event_at e)) \<and> nlt (I (event_at e)) stop \<longrightarrow> e \<in> set (get_events t start stop))
    \<and> (\<forall>e \<in> set (get_events t start stop). nle start (I (event_at e)))
    \<and> (\<forall>e \<in> set (butlast (get_events t start stop)). nle (I (event_at e)) stop)"
proof (intro conjI ballI impI)
  let ?es = "ev_events t"
  have s: "placed ?es start (find_event ?es start)" and e: "placed ?es stop (find_event ?es stop)"
    using find_event_placed [OF assms(1)] assms(2,3) by blast+
  have nonneg: "0 \<le> find_event ?es start" "0 \<le> find_event ?es stop" using s e by (auto simp: placed_def)
  show "nle start (I (event_at x))" if "x \<in> set (get_events t start stop)" for x
    using that unfolding get_events_def by (rule slice_nth [OF _ nonneg(1)]) (use s in \<open>auto simp: placed_def\<close>)
  show "nle (I (event_at x)) stop" if "x \<in> set (butlast (get_events t start stop))" for x
    using that unfolding get_events_def by (rule slice_butlast [OF _ nonneg(1)]) (use e in \<open>auto simp: placed_def\<close>)
  fix x assume x: "x \<in> set ?es" "nlt start (I (event_at x)) \<and> nlt (I (event_at x)) stop"
  then obtain i where i: "i < length ?es" "x = ?es ! i" by (metis in_set_conv_nth)
  have asym: "\<not> (nlt a b \<and> nle b a)" for a b
    unfolding nlt_def nle_def fle_def feq_def by (cases "exact a"; cases "exact b") auto
  have "nat (find_event ?es start) \<le> i" using s i x(2) asym by (metis linorder_not_le placed_def)
  moreover have "i < nat (find_event ?es stop + 1)"
  proof (rule ccontr)
    assume "\<not> i < nat (find_event ?es stop + 1)"
    then have "nat (find_event ?es stop) \<le> i" using nonneg by linarith
    then have "nle stop (I (event_at x))" using e i unfolding placed_def by blast
    then show False using x(2) asym by blast
  qed
  ultimately show "x \<in> set (get_events t start stop)" unfolding get_events_def using nth_slice i by metis
qed

theorem get_events_window_witness:
  "EventInt 5 7 \<in> set (get_events \<lparr>ev_name = ''e'', ev_events = [EventInt 1 0, EventInt 5 7, EventInt 9 0]\<rparr> (I 2) (F (Fin 6)))
   \<and> get_events \<lparr>ev_name = ''e'', ev_events = [EventInt 1 0, EventInt 5 7, EventInt 9 0]\<rparr> (I 2) (F (Fin 6)) = [EventInt 5 7, EventInt 9 0]"
proof
  let ?t = "\<lparr>ev_name = ''e'', ev_events = [EventInt 1 0, EventInt 5 7, EventInt 9 0]\<rparr>"
  have "sorted (map event_at (ev_events ?t))" "is_num (F (Fin 6))" by (simp_all add: is_num_def)
  from get_events_window [OF this(1) _ this(2), of "I 2"]
  show "EventInt 5 7 \<in> set (get_events ?t (I 2) (F (Fin 6)))" by (simp add: nlt_def)
  show "get_events ?t (I 2) (F (Fin 6)) = [EventInt 5 7, EventInt 9 0]" by code_simp
qed

text \<open>Ranges one behind the other.\<close>

definition in_range :: "pynum \<Rightarrow> data_range \<Rightarrow> bool" where
  "in_range key r \<longleftrightarrow> nle (I (dr_start r)) key \<and> nle key (I (dr_end r))"

definition separate :: "data_range list \<Rightarrow> bool" where
  "separate rs \<longleftrightarrow> (\<forall>r \<in> set rs. dr_start r \<le> dr_end r) \<and> sorted_wrt (\<lambda>a b. dr_end a < dr_start b) rs"

lemma separate_order:
  assumes "separate rs" "i < j" "j < length rs"
  shows "dr_end (rs ! i) < dr_start (rs ! j)" "dr_start (rs ! i) < dr_start (rs ! j)" "dr_end (rs ! i) < dr_end (rs ! j)"
proof -
  show e: "dr_end (rs ! i) < dr_start (rs ! j)" using assms by (simp add: separate_def sorted_wrt_iff_nth_less)
  have "dr_start (rs ! i) \<le> dr_end (rs ! i)" "dr_start (rs ! j) \<le> dr_end (rs ! j)"
    using assms by (simp_all add: separate_def)
  then show "dr_start (rs ! i) < dr_start (rs ! j)" "dr_end (rs ! i) < dr_end (rs ! j)" using e by linarith+
qed

lemma range_search_found:
  assumes "separate rs" "is_num key" "0 \<le> l" "l \<le> u + 1" "u < int (length rs)"
    and "\<forall>i < length rs. in_range key (rs ! i) \<longrightarrow> l \<le> int i \<and> int i \<le> u"
  shows "range_search rs key l u = - 1 \<and> (\<forall>i < length rs. \<not> in_range key (rs ! i))
    \<or> 0 \<le> range_search rs key l u \<and> range_search rs key l u < int (length rs) \<and> in_range key (rs ! nat (range_search rs key l u))"
  using assms
proof (induction rs key l u rule: range_search.induct)
  case (1 rs key l u)
  show ?case
  proof (cases "l \<le> u")
    case False
    then show ?thesis using 1(8) by (subst (1 2 3 4) range_search.simps) auto
  next
    case True
    define i where "i = (l + u) div 2"
    have i: "l \<le> i" "i \<le> u" using True by (auto simp: i_def)
    then have il: "nat i < length rs" using 1(5,7) by linarith
    define r where "r = rs ! nat i"
    have step: "range_search rs key l u = (if in_range key r then i
        else if nlt key (I (dr_start r)) then range_search rs key l (i - 1) else range_search rs key (i + 1) u)"
      using True by (subst range_search.simps) (simp add: Let_def i_def r_def in_range_def)
    have asym: "\<not> (nlt a b \<and> nle b a)" for a b
      unfolding nlt_def nle_def fle_def feq_def by (cases "exact a"; cases "exact b") auto
    consider "in_range key r" | "\<not> in_range key r" "nlt key (I (dr_start r))"
      | "\<not> in_range key r" "\<not> nlt key (I (dr_start r))" "nlt (I (dr_end r)) key"
      using not_nlt [OF 1(4), of "I (dr_start r)"] not_nlt [of "I (dr_end r)" key] 1(4) by (auto simp: in_range_def)
    then show ?thesis
    proof cases
      case 1
      then show ?thesis using i il \<open>0 \<le> l\<close> by (simp add: step r_def)
    next
      case 2
      have "int j \<le> i - 1" if j: "j < length rs" "in_range key (rs ! j)" for j
      proof (rule ccontr)
        assume "\<not> int j \<le> i - 1"
        then have "nat i \<le> j" by linarith
        then have "dr_start r \<le> dr_start (rs ! j)" using separate_order(2) [OF 1(3), of "nat i" j] j r_def
          by (cases "nat i = j") auto
        then have "nlt key (I (dr_start (rs ! j)))" using 2(2) nlt_int_trans(2) by blast
        then show False using j(2) asym by (auto simp: in_range_def)
      qed
      then have "\<forall>j < length rs. in_range key (rs ! j) \<longrightarrow> l \<le> int j \<and> int j \<le> i - 1" using 1(8) by blast
      then show ?thesis using 1(1) [OF True i_def refl] 2 1(3-8) i by (simp add: step r_def in_range_def)
    next
      case 3
      have "i + 1 \<le> int j" if j: "j < length rs" "in_range key (rs ! j)" for j
      proof (rule ccontr)
        assume "\<not> i + 1 \<le> int j"
        then have "j \<le> nat i" by linarith
        then have "dr_end (rs ! j) \<le> dr_end r" using separate_order(3) [OF 1(3), of j "nat i"] il r_def
          by (cases "nat i = j") auto
        then have "nlt (I (dr_end (rs ! j))) key" using 3(3) nlt_int_trans(1) by blast
        then show False using j(2) asym by (auto simp: in_range_def)
      qed
      then have "\<forall>j < length rs. in_range key (rs ! j) \<longrightarrow> i + 1 \<le> int j \<and> int j \<le> u" using 1(8) by blast
      then show ?thesis using 1(2) [OF True i_def refl] 3 1(3-8) i by (simp add: step r_def in_range_def)
    qed
  qed
qed

lemma find_range_found:
  assumes "separate rs" "is_num key"
  shows "find_range rs key = - 1 \<and> (\<forall>r \<in> set rs. \<not> in_range key r)
    \<or> (\<exists>i < length rs. find_range rs key = int i \<and> in_range key (rs ! i))"
  using range_search_found [OF assms, of 0 "int (length rs) - 1"]
  unfolding find_range_def by (auto simp: in_set_conv_nth)

text \<open>A condition that holds on a beginning, or on an end, of the list.\<close>

lemma filter_take:
  assumes "i \<le> length xs" "\<forall>j < length xs. P (xs ! j) \<longleftrightarrow> j < i"
  shows "filter P xs = take i xs"
proof -
  have "filter P (take i xs) = take i xs" using assms by (auto simp: filter_id_conv in_set_conv_nth)
  moreover have "filter P (drop i xs) = []" using assms by (auto simp: filter_empty_conv in_set_conv_nth)
  ultimately show ?thesis by (metis append_Nil2 append_take_drop_id filter_append)
qed

lemma filter_drop:
  assumes "\<forall>j < length xs. P (xs ! j) \<longleftrightarrow> i \<le> j"
  shows "filter P xs = drop i xs"
proof -
  have "filter P (drop i xs) = drop i xs" using assms by (auto simp: filter_id_conv in_set_conv_nth)
  moreover have "filter P (take i xs) = []" using assms by (auto simp: filter_empty_conv in_set_conv_nth)
  ultimately show ?thesis by (metis append_Nil append_take_drop_id filter_append)
qed

lemma nle_asym: "\<not> (nlt a b \<and> nle b a)"
  unfolding nlt_def nle_def fle_def feq_def by (cases "exact a"; cases "exact b") auto

lemma from_range:
  assumes "separate rs" "is_num key" "i < length rs" "in_range key (rs ! i)"
  shows "filter (\<lambda>r. nle key (I (dr_end r))) (take k rs) = drop i (take k rs)"
proof (rule filter_drop)
  have "\<forall>j < length rs. nle key (I (dr_end (rs ! j))) \<longleftrightarrow> i \<le> j"
  proof (intro allI impI iffI)
    fix j assume j: "j < length rs" "nle key (I (dr_end (rs ! j)))"
    show "i \<le> j"
    proof (rule ccontr)
      assume "\<not> i \<le> j"
      then have "dr_end (rs ! j) < dr_start (rs ! i)" using separate_order(1) [OF assms(1)] assms(3) by simp
      moreover have "nle (I (dr_start (rs ! i))) (I (dr_end (rs ! j)))"
        using assms(4) j(2) nle_trans by (auto simp: in_range_def)
      ultimately show False by (simp add: nle_ints)
    qed
  next
    fix j assume j: "j < length rs" "i \<le> j"
    then have "dr_end (rs ! i) \<le> dr_end (rs ! j)" using separate_order(3) [OF assms(1), of i j] by (cases "i = j") auto
    then show "nle key (I (dr_end (rs ! j)))" using assms(4) nle_int_trans(2) by (auto simp: in_range_def)
  qed
  then show "\<forall>j < length (take k rs). nle key (I (dr_end (take k rs ! j))) \<longleftrightarrow> i \<le> j" by simp
qed

lemma up_to_range:
  assumes "separate rs" "is_num key" "i < length rs" "in_range key (rs ! i)"
  shows "filter (\<lambda>r. nle (I (dr_start r)) key) rs = take (Suc i) rs"
proof (rule filter_take)
  show "\<forall>j < length rs. nle (I (dr_start (rs ! j))) key \<longleftrightarrow> j < Suc i"
  proof (intro allI impI iffI)
    fix j assume j: "j < length rs" "nle (I (dr_start (rs ! j))) key"
    show "j < Suc i"
    proof (rule ccontr)
      assume "\<not> j < Suc i"
      then have "dr_end (rs ! i) < dr_start (rs ! j)" using separate_order(1) [OF assms(1)] j(1) by simp
      moreover have "nle (I (dr_start (rs ! j))) (I (dr_end (rs ! i)))"
        using assms(4) j(2) nle_trans by (auto simp: in_range_def)
      ultimately show False by (simp add: nle_ints)
    qed
  next
    fix j assume j: "j < length rs" "j < Suc i"
    then have "dr_start (rs ! j) \<le> dr_start (rs ! i)" using separate_order(2) [OF assms(1), of j i] assms(3) by (cases "i = j") auto
    then show "nle (I (dr_start (rs ! j))) key" using assms(4) nle_int_trans(1) by (auto simp: in_range_def)
  qed
qed (use assms in simp)

text \<open>The ranges of a window, on ranges one behind the other: when both ends of the window are in
  ranges, exactly the ranges that meet it; when only one is, all ranges on the other side too; and
  none at all when both ends are in gaps, even when there are ranges between them.\<close>

theorem get_ranges_window:
  assumes "separate (rng_ranges t)" "is_num start" "is_num stop"
  shows "get_ranges t start stop =
    (let from_start = \<lambda>r. nle start (I (dr_end r)); to_stop = \<lambda>r. nle (I (dr_start r)) stop in
     if \<exists>r \<in> set (rng_ranges t). in_range start r then
       (if \<exists>r \<in> set (rng_ranges t). in_range stop r then filter from_start (filter to_stop (rng_ranges t))
        else filter from_start (rng_ranges t))
     else if \<exists>r \<in> set (rng_ranges t). in_range stop r then filter to_stop (rng_ranges t)
     else [])"
proof -
  let ?rs = "rng_ranges t"
  have s: "find_range ?rs start = - 1 \<and> \<not> (\<exists>r \<in> set ?rs. in_range start r)
      \<or> (\<exists>i < length ?rs. find_range ?rs start = int i \<and> (\<exists>r \<in> set ?rs. in_range start r)
          \<and> (\<forall>k. filter (\<lambda>r. nle start (I (dr_end r))) (take k ?rs) = drop i (take k ?rs)))"
    using find_range_found [OF assms(1,2)] from_range [OF assms(1,2)] by (metis nth_mem)
  have e: "find_range ?rs stop = - 1 \<and> \<not> (\<exists>r \<in> set ?rs. in_range stop r)
      \<or> (\<exists>i < length ?rs. find_range ?rs stop = int i \<and> (\<exists>r \<in> set ?rs. in_range stop r)
          \<and> filter (\<lambda>r. nle (I (dr_start r)) stop) ?rs = take (Suc i) ?rs)"
    using find_range_found [OF assms(1,3)] up_to_range [OF assms(1,3)] by (metis nth_mem)
  have all: "take (length ?rs) ?rs = ?rs" by simp
  show ?thesis
    using s
  proof (elim disjE exE conjE)
    assume no: "find_range ?rs start = - 1" "\<not> (\<exists>r \<in> set ?rs. in_range start r)"
    show ?thesis using e no by (auto simp: get_ranges_def Let_def slice_def nat_add_distrib)
  next
    fix i assume i: "i < length ?rs" "find_range ?rs start = int i" "\<exists>r \<in> set ?rs. in_range start r"
      "\<forall>k. filter (\<lambda>r. nle start (I (dr_end r))) (take k ?rs) = drop i (take k ?rs)"
    have one: "filter (\<lambda>r. nle start (I (dr_end r))) ?rs = drop i ?rs" using i(4) all by metis
    show ?thesis
      using e
    proof (elim disjE exE conjE)
      assume "find_range ?rs stop = - 1" "\<not> (\<exists>r \<in> set ?rs. in_range stop r)"
      then show ?thesis using i(1-3) one by (auto simp: get_ranges_def Let_def slice_def)
    next
      fix j assume j: "j < length ?rs" "find_range ?rs stop = int j" "\<exists>r \<in> set ?rs. in_range stop r"
        "filter (\<lambda>r. nle (I (dr_start r)) stop) ?rs = take (Suc j) ?rs"
      have "get_ranges t start stop = drop i (take (Suc j) ?rs)"
        using i(2) j(2) by (simp add: get_ranges_def Let_def slice_def nat_add_distrib)
      then show ?thesis using i(3,4) j(3,4) by (simp only: Let_def if_True)
    qed
  qed
qed

theorem get_ranges_window_witness:
  "get_ranges \<lparr>rng_name = ''r'', rng_ranges = [\<lparr>dr_start = 0, dr_end = 2, dr_value = ''a''\<rparr>, \<lparr>dr_start = 4, dr_end = 5, dr_value = ''b''\<rparr>,
     \<lparr>dr_start = 8, dr_end = 9, dr_value = ''c''\<rparr>]\<rparr> (I 3) (F (Fin 7)) = []"
proof -
  let ?t = "\<lparr>rng_name = ''r'', rng_ranges = [\<lparr>dr_start = 0, dr_end = 2, dr_value = ''a''\<rparr>, \<lparr>dr_start = 4, dr_end = 5, dr_value = ''b''\<rparr>,
     \<lparr>dr_start = 8, dr_end = 9, dr_value = ''c''\<rparr>]\<rparr>"
  have "separate (rng_ranges ?t)" "is_num (F (Fin 7))" by (simp_all add: separate_def is_num_def)
  from get_ranges_window [OF this(1) _ this(2), of "I 3"]
  show ?thesis by (simp add: in_range_def nle_def fle_def feq_def)
qed

subsection \<open>Entries by name\<close>

text \<open>What the users of a list of named entries rely on: a new entry has the name it is asked for.\<close>

locale named_list =
  fixes nm :: "'a \<Rightarrow> string" and new :: "string \<Rightarrow> 'a"
  assumes nm_new: "nm (new s) = s"
begin

lemma find_upd:
  assumes "\<And>x. nm (f x) = nm x"
  shows "find_named nm new s' (upd_named nm new s f xs) = (if s' = s then f (find_named nm new s xs) else find_named nm new s' xs)"
  by (induction xs) (auto simp: find_named_def assms nm_new)

lemma names_upd:
  assumes "\<And>x. nm (f x) = nm x"
  shows "map nm (upd_named nm new s f xs) = (if s \<in> nm ` set xs then map nm xs else map nm xs @ [s])"
  by (induction xs) (auto simp: assms nm_new)

lemma find_map:
  assumes "\<And>x. nm (g x) = nm x" "g (new s) = new s"
  shows "find_named nm new s (map g xs) = g (find_named nm new s xs)"
  by (induction xs) (auto simp: find_named_def assms)

end

interpretation tl_list: named_list tl_name Timeline
  by unfold_locales (simp add: Timeline_def)

interpretation rng_list: named_list rng_name TimelineDataRange
  by unfold_locales (simp add: TimelineDataRange_def)

interpretation ev_list: named_list ev_name TimelineEvent
  by unfold_locales (simp add: TimelineEvent_def)

definition ranges_of :: "timelines \<Rightarrow> string \<Rightarrow> string \<Rightarrow> data_range list" where
  "ranges_of ts t n = rng_ranges (find_named rng_name TimelineDataRange n (tl_ranges (find_named tl_name Timeline t ts)))"

definition strs_of :: "timelines \<Rightarrow> string \<Rightarrow> string \<Rightarrow> event list" where
  "strs_of ts t n = ev_events (find_named ev_name TimelineEvent n (tl_event_str (find_named tl_name Timeline t ts)))"

definition ints_of :: "timelines \<Rightarrow> string \<Rightarrow> string \<Rightarrow> event list" where
  "ints_of ts t n = ev_events (find_named ev_name TimelineEvent n (tl_event_int (find_named tl_name Timeline t ts)))"

lemmas of_defs = ranges_of_def strs_of_def ints_of_def

lemma tl_get [simp]:
  "tl_name (get_range n f t) = tl_name t" "tl_name (get_event_str n g t) = tl_name t" "tl_name (get_event_int n g t) = tl_name t"
  by (simp_all add: get_range_def get_event_str_def get_event_int_def)

lemma add_names [simp]: "rng_name (add_range r x) = rng_name x" "ev_name (add_event e y) = ev_name y"
  by (simp_all add: add_range_def add_event_def)

lemma of_get_range:
  "ranges_of (get_timeline t (get_range n (add_range r)) ts) t' n' = ranges_of ts t' n' @ (if t' = t \<and> n' = n then [r] else [])"
  "strs_of (get_timeline t (get_range n (add_range r)) ts) t' n' = strs_of ts t' n'"
  "ints_of (get_timeline t (get_range n (add_range r)) ts) t' n' = ints_of ts t' n'"
  by (simp_all add: of_defs get_timeline_def tl_list.find_upd)
    (simp_all add: get_range_def rng_list.find_upd add_range_def)

lemma of_get_event_str:
  "ranges_of (get_timeline t (get_event_str n (add_event e)) ts) t' n' = ranges_of ts t' n'"
  "strs_of (get_timeline t (get_event_str n (add_event e)) ts) t' n' = strs_of ts t' n' @ (if t' = t \<and> n' = n then [e] else [])"
  "ints_of (get_timeline t (get_event_str n (add_event e)) ts) t' n' = ints_of ts t' n'"
  by (simp_all add: of_defs get_timeline_def tl_list.find_upd)
    (simp_all add: get_event_str_def ev_list.find_upd add_event_def)

lemma of_get_event_int:
  "ranges_of (get_timeline t (get_event_int n (add_event e)) ts) t' n' = ranges_of ts t' n'"
  "strs_of (get_timeline t (get_event_int n (add_event e)) ts) t' n' = strs_of ts t' n'"
  "ints_of (get_timeline t (get_event_int n (add_event e)) ts) t' n' = ints_of ts t' n' @ (if t' = t \<and> n' = n then [e] else [])"
  by (simp_all add: of_defs get_timeline_def tl_list.find_upd)
    (simp_all add: get_event_int_def ev_list.find_upd add_event_def)

lemmas of_get = of_get_range of_get_event_str of_get_event_int

lemma of_sorted:
  "ranges_of (sort_timelines ts) t n = sort_key dr_start (ranges_of ts t n)"
  "strs_of (sort_timelines ts) t n = sort_key event_at (strs_of ts t n)"
  "ints_of (sort_timelines ts) t n = sort_key event_at (ints_of ts t n)"
proof -
  have "sort_timeline (Timeline t) = Timeline t" by (simp add: sort_timeline_def Timeline_def)
  then have t: "find_named tl_name Timeline t (sort_timelines ts) = sort_timeline (find_named tl_name Timeline t ts)"
    unfolding sort_timelines_def by (intro tl_list.find_map) (simp add: sort_timeline_def)
  have r: "find_named rng_name TimelineDataRange n (map sort_ranges xs) = sort_ranges (find_named rng_name TimelineDataRange n xs)" for xs
    by (rule rng_list.find_map) (simp_all add: sort_ranges_def TimelineDataRange_def sort_cmp_def)
  have e: "find_named ev_name TimelineEvent n (map sort_events xs) = sort_events (find_named ev_name TimelineEvent n xs)" for xs
    by (rule ev_list.find_map) (simp_all add: sort_events_def TimelineEvent_def sort_cmp_def)
  show "ranges_of (sort_timelines ts) t n = sort_key dr_start (ranges_of ts t n)"
    "strs_of (sort_timelines ts) t n = sort_key event_at (strs_of ts t n)"
    "ints_of (sort_timelines ts) t n = sort_key event_at (ints_of ts t n)"
    by (simp_all add: of_defs t sort_timeline_def r e)
      (simp_all add: sort_ranges_def sort_events_def sort_ranges_key sort_events_key)
qed

subsection \<open>Files\<close>

text \<open>The lines of a file, and how they are written.\<close>

datatype item =
    RangeItem string string string int int
  | StrItem string string string int
  | IntItem string string int int
  | ColorItem string string string string

definition line_end :: string where
  "line_end = [char_of (10 :: nat)]"

fun render_item :: "item \<Rightarrow> string" where
  "render_item (RangeItem t n v a b) = ''range '' @ t @ '' '' @ n @ '' '' @ v @ '' '' @ show_nat a @ '' '' @ show_nat b @ line_end"
| "render_item (StrItem t n v a) = ''event-str '' @ t @ '' '' @ n @ '' '' @ v @ '' '' @ show_nat a @ line_end"
| "render_item (IntItem t n i a) = ''event-int '' @ t @ '' '' @ n @ '' '' @ show_nat i @ '' '' @ show_nat a @ line_end"
| "render_item (ColorItem n r g b) = ''color '' @ n @ '' #'' @ r @ g @ b @ line_end"

definition is_word :: "string \<Rightarrow> bool" where
  "is_word s \<longleftrightarrow> s \<noteq> [] \<and> list_all not_space s"

definition is_hex_pair :: "string \<Rightarrow> bool" where
  "is_hex_pair s \<longleftrightarrow> length s = 2 \<and> list_all is_hex s"

fun item_ok :: "item \<Rightarrow> bool" where
  "item_ok (RangeItem t n v a b) \<longleftrightarrow> is_word t \<and> is_word n \<and> is_word v \<and> 0 \<le> a \<and> 0 \<le> b"
| "item_ok (StrItem t n v a) \<longleftrightarrow> is_word t \<and> is_word n \<and> is_word v \<and> 0 \<le> a"
| "item_ok (IntItem t n i a) \<longleftrightarrow> is_word t \<and> is_word n \<and> 0 \<le> i \<and> 0 \<le> a"
| "item_ok (ColorItem n r g b) \<longleftrightarrow> is_word n \<and> is_hex_pair r \<and> is_hex_pair g \<and> is_hex_pair b"

lemma rmatch_word:
  assumes "is_word t" "rmatch (lit '' '' @ re) ('' '' @ s) opened (groups @ [Some t]) = Some res"
  shows "rmatch (word_group @ lit '' '' @ re) (t @ '' '' @ s) opened groups = Some res"
  unfolding word_group_def by (rule rmatch_group_run) (use assms in \<open>auto simp: is_word_def not_space_def\<close>)

lemma rmatch_word_hash:
  assumes "is_word t" "rmatch (lit '' #'' @ re) ('' #'' @ s) opened (groups @ [Some t]) = Some res"
  shows "rmatch (word_group @ lit '' #'' @ re) (t @ '' #'' @ s) opened groups = Some res"
  unfolding word_group_def by (rule rmatch_group_run) (use assms in \<open>auto simp: is_word_def not_space_def\<close>)

lemma rmatch_digits:
  assumes "0 \<le> a" "s = [] \<or> \<not> is_digit (hd s)" "rmatch re s opened (groups @ [Some (show_nat a)]) = Some res"
  shows "rmatch (digits_group @ re) (show_nat a @ s) opened groups = Some res"
  unfolding digits_group_def by (rule rmatch_group_run) (use assms in \<open>auto simp: show_nat_list_all show_nat_nonempty\<close>)

lemma rmatch_hex:
  assumes "is_hex_pair r" "rmatch re s opened (groups @ [Some r]) = Some res"
  shows "rmatch (hex_group @ re) (r @ s) opened groups = Some res"
proof -
  obtain c d where r: "r = [c, d]" "is_hex c" "is_hex d"
    using assms(1) by (auto simp: is_hex_pair_def length_Suc_conv numeral_2_eq_2)
  then have "rep_count is_hex (Some 2) (r @ s) = 2" by (simp add: rep_count_def)
  then show ?thesis using assms(2) r by (simp add: hex_group_def group_def upt_rec numeral_2_eq_2)
qed

lemma nl_end [simp]: "line_end = [] \<or> \<not> is_digit (hd line_end)"
proof -
  have "\<not> is_digit (hd line_end)" by code_simp
  then show ?thesis ..
qed

lemma space_digit: "('' '' @ s = [] \<or> \<not> is_digit (hd ('' '' @ s)))"
  by (simp add: is_digit_def)

lemma match_rendered_range:
  assumes "item_ok (RangeItem t n v a b)"
  shows "match_range (render_item (RangeItem t n v a b)) = Some (t, n, v, show_nat a, show_nat b)"
proof -
  have ok: "is_word t" "is_word n" "is_word v" "0 \<le> a" "0 \<le> b" using assms by simp_all
  have d: "rmatch (digits_group @ []) (show_nat b @ line_end) [] ([Some t, Some n, Some v] @ [Some (show_nat a)])
      = Some [Some t, Some n, Some v, Some (show_nat a), Some (show_nat b)]"
    by (rule rmatch_digits) (simp_all add: ok)
  have "re_match m1 (render_item (RangeItem t n v a b)) = Some [Some t, Some n, Some v, Some (show_nat a), Some (show_nat b)]"
    unfolding re_match_def m1_def render_item.simps
    by (intro rmatch_lit rmatch_word rmatch_digits space_digit ok) (use d in simp)
  then show ?thesis by (simp add: match_range_def)
qed

lemma match_rendered_str:
  assumes "item_ok (StrItem t n v a)"
  shows "match_event m2 (render_item (StrItem t n v a)) = Some (t, n, v, show_nat a)"
proof -
  have ok: "is_word t" "is_word n" "is_word v" "0 \<le> a" using assms by simp_all
  have d: "rmatch (digits_group @ []) (show_nat a @ line_end) [] [Some t, Some n, Some v] = Some [Some t, Some n, Some v, Some (show_nat a)]"
    by (rule rmatch_digits) (simp_all add: ok)
  have "re_match m2 (render_item (StrItem t n v a)) = Some [Some t, Some n, Some v, Some (show_nat a)]"
    unfolding re_match_def m2_def render_item.simps by (intro rmatch_lit rmatch_word ok) (use d in simp)
  then show ?thesis by (simp add: match_event_def)
qed

lemma match_rendered_int:
  assumes "item_ok (IntItem t n i a)"
  shows "match_event m3 (render_item (IntItem t n i a)) = Some (t, n, show_nat i, show_nat a)"
proof -
  have ok: "is_word t" "is_word n" "0 \<le> i" "0 \<le> a" using assms by simp_all
  have d: "rmatch (digits_group @ []) (show_nat a @ line_end) [] ([Some t, Some n] @ [Some (show_nat i)])
      = Some [Some t, Some n, Some (show_nat i), Some (show_nat a)]"
    by (rule rmatch_digits) (simp_all add: ok)
  have "re_match m3 (render_item (IntItem t n i a)) = Some [Some t, Some n, Some (show_nat i), Some (show_nat a)]"
    unfolding re_match_def m3_def render_item.simps
    by (intro rmatch_lit rmatch_word rmatch_digits space_digit ok) (use d in simp)
  then show ?thesis by (simp add: match_event_def)
qed

lemma match_rendered_color:
  assumes "item_ok (ColorItem n r g b)"
  shows "match_event m4 (render_item (ColorItem n r g b)) = Some (n, r, g, b)"
proof -
  have ok: "is_word n" "is_hex_pair r" "is_hex_pair g" "is_hex_pair b" using assms by simp_all
  have d: "rmatch (hex_group @ []) (b @ line_end) [] ([Some n] @ [Some r] @ [Some g]) = Some [Some n, Some r, Some g, Some b]"
    by (rule rmatch_hex) (simp_all add: ok)
  have "re_match m4 (render_item (ColorItem n r g b)) = Some [Some n, Some r, Some g, Some b]"
    unfolding re_match_def m4_def render_item.simps by (intro rmatch_lit rmatch_word_hash rmatch_hex ok) (use d in simp)
  then show ?thesis by (simp add: match_event_def)
qed

text \<open>A line of one kind does not match the patterns of the others.\<close>

lemma no_match:
  "\<not> startswith s ''range '' \<Longrightarrow> match_range s = None"
  "\<not> startswith s ''event-str '' \<Longrightarrow> match_event m2 s = None"
  "\<not> startswith s ''event-int '' \<Longrightarrow> match_event m3 s = None"
  by (simp_all add: match_range_def match_event_def re_match_def m1_def m2_def m3_def rmatch_lit_fail)

text \<open>The colour that comes out of a line: a component is there when it is written with two \<open>f\<close>, and else it is not.\<close>

definition full :: "string \<Rightarrow> int" where
  "full p = (if list_all (\<lambda>c. c = CHR ''f'' \<or> c = CHR ''F'') p then 1 else 0)"

definition item_color :: "string \<Rightarrow> string \<Rightarrow> string \<Rightarrow> color" where
  "item_color r g b = \<lparr>red = full r, green = full g, blue = full b\<rparr>"

lemma hex_digit_range: "is_hex c \<Longrightarrow> 0 \<le> hex_digit_value c \<and> hex_digit_value c \<le> 15 \<and> (hex_digit_value c = 15 \<longleftrightarrow> c = CHR ''f'' \<or> c = CHR ''F'')"
proof -
  have "list_all (\<lambda>c. is_hex c \<longrightarrow> 0 \<le> hex_digit_value c \<and> hex_digit_value c \<le> 15 \<and> (hex_digit_value c = 15 \<longleftrightarrow> c = CHR ''f'' \<or> c = CHR ''F''))
      (Enum.enum :: char list)" by code_simp
  moreover have "c \<in> set Enum.enum" by (simp add: enum_UNIV)
  ultimately show "is_hex c \<Longrightarrow> ?thesis" by (simp only: list_all_iff)
qed

lemma hex_component:
  assumes "is_hex_pair p"
  shows "hex_int p div 255 = full p"
proof -
  obtain a b where p: "p = [a, b]" "is_hex a" "is_hex b"
    using assms by (auto simp: is_hex_pair_def length_Suc_conv numeral_2_eq_2)
  define x where "x = hex_digit_value a"
  define y where "y = hex_digit_value b"
  have r: "0 \<le> x" "x \<le> 15" "0 \<le> y" "y \<le> 15" using hex_digit_range p by (simp_all add: x_def y_def)
  have "(16 * x + y) div 255 = (if x = 15 \<and> y = 15 then 1 else 0)" using r by auto
  then show ?thesis using hex_digit_range [OF p(2)] hex_digit_range [OF p(3)] by (simp add: p(1) hex_int_def full_def x_def y_def)
qed

fun apply_item :: "item \<Rightarrow> colors \<times> timelines \<Rightarrow> colors \<times> timelines" where
  "apply_item (RangeItem t n v a b) (c, ts) = (c, get_timeline t (get_range n (add_range \<lparr>dr_start = a, dr_end = b, dr_value = v\<rparr>)) ts)"
| "apply_item (StrItem t n v a) (c, ts) = (c, get_timeline t (get_event_str n (add_event (EventString a v))) ts)"
| "apply_item (IntItem t n i a) (c, ts) = (c, get_timeline t (get_event_int n (add_event (EventInt a i))) ts)"
| "apply_item (ColorItem n r g b) (c, ts) = (add_color n (item_color r g b) c, ts)"

lemma to_int_show: "0 \<le> n \<Longrightarrow> to_int (show_nat n) = Inr n"
  by (simp add: to_int_def py_int_show_nat)

lemma read_rendered: "item_ok x \<Longrightarrow> read_step (render_item x) s = Inr (apply_item x s)"
proof (cases s)
  case (Pair c ts)
  assume ok: "item_ok x"
  show ?thesis
  proof (cases x)
    case (RangeItem t n v a b)
    then show ?thesis using ok Pair by (simp add: read_step_def match_rendered_range to_int_show del: render_item.simps)
  next
    case (StrItem t n v a)
    have "match_range (render_item x) = None" by (rule no_match) (simp add: StrItem startswith_def)
    then show ?thesis using ok Pair StrItem by (simp add: read_step_def match_rendered_str to_int_show del: render_item.simps)
  next
    case (IntItem t n i a)
    have "match_range (render_item x) = None" "match_event m2 (render_item x) = None"
      by (rule no_match; simp add: IntItem startswith_def)+
    then show ?thesis using ok Pair IntItem by (simp add: read_step_def match_rendered_int to_int_show del: render_item.simps)
  next
    case (ColorItem n r g b)
    have "match_range (render_item x) = None" "match_event m2 (render_item x) = None" "match_event m3 (render_item x) = None"
      by (rule no_match; simp add: ColorItem startswith_def)+
    then show ?thesis using ok Pair ColorItem
      by (simp add: read_step_def match_rendered_color item_color_def hex_component rgb_def del: render_item.simps)
  qed
qed

lemma read_rendered_all:
  "list_all item_ok items \<Longrightarrow> foldR read_step (map render_item items) s = Inr (fold apply_item items s)"
  by (induction items arbitrary: s) (simp_all add: read_rendered)

text \<open>What a file says of one name of one timeline, and of a colour.\<close>

fun item_range :: "string \<Rightarrow> string \<Rightarrow> item \<Rightarrow> data_range option" where
  "item_range t n (RangeItem t' n' v a b) = (if t' = t \<and> n' = n then Some \<lparr>dr_start = a, dr_end = b, dr_value = v\<rparr> else None)"
| "item_range t n x = None"

fun item_str :: "string \<Rightarrow> string \<Rightarrow> item \<Rightarrow> event option" where
  "item_str t n (StrItem t' n' v a) = (if t' = t \<and> n' = n then Some (EventString a v) else None)"
| "item_str t n x = None"

fun item_int :: "string \<Rightarrow> string \<Rightarrow> item \<Rightarrow> event option" where
  "item_int t n (IntItem t' n' i a) = (if t' = t \<and> n' = n then Some (EventInt a i) else None)"
| "item_int t n x = None"

fun item_named_color :: "item \<Rightarrow> (string \<times> color) option" where
  "item_named_color (ColorItem n r g b) = Some (n, item_color r g b)"
| "item_named_color x = None"

lemma applied_items:
  "ranges_of (snd (fold apply_item items (c, ts))) t n = ranges_of ts t n @ List.map_filter (item_range t n) items
   \<and> strs_of (snd (fold apply_item items (c, ts))) t n = strs_of ts t n @ List.map_filter (item_str t n) items
   \<and> ints_of (snd (fold apply_item items (c, ts))) t n = ints_of ts t n @ List.map_filter (item_int t n) items"
proof (induction items arbitrary: c ts)
  case (Cons x items)
  show ?case by (cases x) (simp_all add: Cons of_get List.map_filter_simps)
qed (simp add: List.map_filter_simps)

lemma applied_colors:
  "dget (named_colors (fst (fold apply_item items (c, ts)))) name
   = (case map_of (rev (List.map_filter item_named_color items)) name of Some k \<Rightarrow> Some k | None \<Rightarrow> dget (named_colors c) name)"
proof (induction items arbitrary: c ts)
  case (Cons x items)
  show ?case
  proof (cases x)
    case (ColorItem n r g b)
    then show ?thesis
      using Cons [of "add_color n (item_color r g b) c" ts]
      by (auto simp: List.map_filter_simps add_color_def dset_def dget_def update_conv' map_add_def split: option.splits)
  qed (simp_all add: Cons List.map_filter_simps)
qed (simp add: List.map_filter_simps)

lemma named_components: "(name, k) \<in> set (List.map_filter item_named_color items) \<Longrightarrow> {red k, green k, blue k} \<subseteq> {0, 1}"
proof (induction items)
  case (Cons x items)
  then show ?case by (cases x) (auto simp: List.map_filter_simps item_color_def full_def)
qed (simp add: List.map_filter_simps)

text \<open>C33: A data file is read back: under every name of every timeline are exactly its ranges and its
  events, in the order of their times and in the order of the file at equal times, and a colour is
  the last one its name is given: a component that is written with two \<open>f\<close> is 1 and every other one 0.\<close>

theorem read_data_roundtrip:
  assumes "list_all item_ok items"
  shows "\<exists>c ts. read_data (map render_item items) = Inr (c, ts)
    \<and> ranges_of ts t n = sort_key dr_start (List.map_filter (item_range t n) items)
    \<and> strs_of ts t n = sort_key event_at (List.map_filter (item_str t n) items)
    \<and> ints_of ts t n = sort_key event_at (List.map_filter (item_int t n) items)
    \<and> dget (named_colors c) name = map_of (rev (List.map_filter item_named_color items)) name
    \<and> (case dget (named_colors c) name of None \<Rightarrow> True | Some k \<Rightarrow> {red k, green k, blue k} \<subseteq> {0, 1})"
proof -
  obtain c ts where f: "fold apply_item items (Colors, []) = (c, ts)" by fastforce
  then have "read_data (map render_item items) = Inr (c, sort_timelines ts)"
    using read_rendered_all [OF assms, of "(Colors, [])"] by (simp add: read_data_def)
  moreover have "ranges_of ts t n = List.map_filter (item_range t n) items" "strs_of ts t n = List.map_filter (item_str t n) items"
    "ints_of ts t n = List.map_filter (item_int t n) items"
    using applied_items [of items Colors "[]" t n] f
    by (simp_all add: of_defs find_named_def Timeline_def TimelineDataRange_def TimelineEvent_def)
  moreover have "dget (named_colors c) name = map_of (rev (List.map_filter item_named_color items)) name"
    using applied_colors [of items Colors "[]" name] f by (simp add: Colors_def dget_def split: option.splits)
  moreover have "{red k, green k, blue k} \<subseteq> {0, 1}" if "map_of (rev (List.map_filter item_named_color items)) name = Some k" for k
    using map_of_SomeD [OF that] named_components [of name k items] by simp
  ultimately show ?thesis by (auto simp: of_sorted split: option.splits)
qed

theorem read_data_roundtrip_witness:
  "\<exists>c ts. read_data [''range n state busy 5 9'' @ line_end, ''color busy #ff8000'' @ line_end, ''range n state idle 0 4'' @ line_end] = Inr (c, ts)
    \<and> ranges_of ts ''n'' ''state'' = [\<lparr>dr_start = 0, dr_end = 4, dr_value = ''idle''\<rparr>, \<lparr>dr_start = 5, dr_end = 9, dr_value = ''busy''\<rparr>]
    \<and> dget (named_colors c) ''busy'' = Some (rgb 1 0 0)"
proof -
  let ?items = "[RangeItem ''n'' ''state'' ''busy'' 5 9, ColorItem ''busy'' ''ff'' ''80'' ''00'', RangeItem ''n'' ''state'' ''idle'' 0 4]"
  have ok: "list_all item_ok ?items" by code_simp
  have r: "map render_item ?items = [''range n state busy 5 9'' @ line_end, ''color busy #ff8000'' @ line_end, ''range n state idle 0 4'' @ line_end]"
    by code_simp
  have c: "item_color ''ff'' ''80'' ''00'' = rgb 1 0 0" by code_simp
  obtain c ts where "read_data (map render_item ?items) = Inr (c, ts)"
    "ranges_of ts ''n'' ''state'' = sort_key dr_start (List.map_filter (item_range ''n'' ''state'') ?items)"
    "dget (named_colors c) ''busy'' = map_of (rev (List.map_filter item_named_color ?items)) ''busy''"
    using read_data_roundtrip [OF ok, of "''n''" "''state''" "''busy''"] by blast
  then show ?thesis unfolding r by (intro exI [of _ c] exI [of _ ts]) (simp add: List.map_filter_simps c)
qed

end
