(* ===== verification/GridView.thy ===== *)
theory GridView
  imports Grid PyFloatProps
begin

text \<open>
  The views of the timeline viewer, utils/grid.py: layout and placement of the legend, the timelines and
  the scales, the selected range, and the state machine of the mouse handlers. The sizes of texts are
  cairo's (\<open>ext\<close>: bearing, width and height); of drawing, what is drawn where is kept, not the strokes.
  A method that raises leaves the assignments before it, so it is a function from a state to a state and a
  result.
\<close>

subsection \<open>Methods\<close>

type_synonym ('s, 'a) op = "'s \<Rightarrow> 's \<times> 'a result"

definition ret :: "'a \<Rightarrow> ('s, 'a) op" where
  "ret x s = (s, Inr x)"

definition raise :: "py_error \<Rightarrow> ('s, 'a) op" where
  "raise e s = (s, Inl e)"

definition bindM :: "('s, 'a) op \<Rightarrow> ('a \<Rightarrow> ('s, 'b) op) \<Rightarrow> ('s, 'b) op" where
  "bindM m f s = (case m s of (s', Inl e) \<Rightarrow> (s', Inl e) | (s', Inr x) \<Rightarrow> f x s')"

definition gets :: "('s \<Rightarrow> 'a result) \<Rightarrow> ('s, 'a) op" where
  "gets f s = (s, f s)"

definition modify :: "('s \<Rightarrow> 's) \<Rightarrow> ('s, unit) op" where
  "modify f s = (f s, Inr ())"

text \<open>An attribute that has not been assigned yet.\<close>

definition attr :: "'a option \<Rightarrow> 'a result" where
  "attr x = (case x of None \<Rightarrow> Inl AttributeError | Some v \<Rightarrow> Inr v)"

subsection \<open>The legend\<close>

type_synonym extents = "string \<Rightarrow> pynum \<times> pynum \<times> pynum"

definition t_bearing :: "extents \<Rightarrow> string \<Rightarrow> pynum" where
  "t_bearing ext s = fst (ext s)"

definition t_width :: "extents \<Rightarrow> string \<Rightarrow> pynum" where
  "t_width ext s = fst (snd (ext s))"

definition t_height :: "extents \<Rightarrow> string \<Rightarrow> pynum" where
  "t_height ext s = snd (snd (ext s))"

definition padding :: pynum where
  "padding = I 10"

text \<open>The height of the line, the height so far and the width used of the line; and where the item is.\<close>

definition legend_step :: "extents \<Rightarrow> pynum \<Rightarrow> string \<Rightarrow> pynum \<times> pynum \<times> pynum \<Rightarrow> pynum \<times> (pynum \<times> pynum \<times> pynum)" where
  "legend_step ext width legend s = (case s of (line_height, total_height, line_used) \<Rightarrow>
     let item_width = nadd (nadd (nadd padding padding) (t_width ext legend)) padding;
         item_height = nadd (t_height ext legend) padding;
         line_height = (if nlt line_height item_height then item_height else line_height);
         (line_used, total_height) = (if nlt width (nadd line_used item_width)
           then (nadd padding item_width, nadd total_height line_height)
           else (nadd line_used item_width, total_height))
     in (nsub line_used item_width, (line_height, total_height, line_used)))"

definition legend_layout :: "extents \<Rightarrow> string list \<Rightarrow> pynum \<Rightarrow> pynum" where
  "legend_layout ext legends width = (let (line_height, total_height, line_used) =
     fold (\<lambda>legend s. snd (legend_step ext width legend s)) legends (I 0, padding, padding) in nadd total_height line_height)"

text \<open>What is drawn: a square with its colour, and the text beside it.\<close>

type_synonym legend_item = "(pynum \<times> pynum) \<times> color \<times> (pynum \<times> pynum) \<times> string"

definition legend_draw_step :: "extents \<Rightarrow> pynum \<Rightarrow> color list \<Rightarrow> string \<Rightarrow> (pynum \<times> pynum \<times> pynum) \<times> legend_item list
    \<Rightarrow> ((pynum \<times> pynum \<times> pynum) \<times> legend_item list) result" where
  "legend_draw_step ext width cs legend s = (case s of (lay, drawn) \<Rightarrow>
     let (x, lay') = legend_step ext width legend lay; total_height = fst (snd lay') in
     bindR (py_idx cs (int (length drawn))) (\<lambda>c.
       Inr (lay', drawn @ [((x, total_height), c, (nadd x (nmul padding (I 2)), nadd total_height (t_height ext legend)), legend)])))"

definition legend_draw :: "extents \<Rightarrow> pynum \<Rightarrow> string list \<Rightarrow> color list \<Rightarrow> legend_item list result" where
  "legend_draw ext width legends cs = bindR (foldR (legend_draw_step ext width cs) legends ((I 0, padding, padding), []))
     (\<lambda>(lay, drawn). Inr drawn)"

subsection \<open>The timelines\<close>

definition alphabet :: string where
  "alphabet = ''ABCDEFGHIJKLMNOPQRSTUVWXYZabcedefghijklmnopqrstuvwxyz0123456789''"

record data_view =
  left_width :: pynum
  right_width :: pynum
  max_text_height :: pynum
  view_width :: pynum
  view_height :: pynum

definition widest :: "extents \<Rightarrow> string list \<Rightarrow> pynum \<Rightarrow> pynum" where
  "widest ext names w = fold (\<lambda>s w. nmax w (t_width ext s)) names w"

definition data_layout :: "extents \<Rightarrow> timelines \<Rightarrow> pynum \<Rightarrow> data_view" where
  "data_layout ext ts width = (let
     h = t_height ext alphabet;
     lw = widest ext (map tl_name ts) (I 0);
     rw = fold (\<lambda>t. widest ext (map rng_name (tl_ranges t) @ map ev_name (tl_event_int t) @ map ev_name (tl_event_str t))) ts (I 0);
     left_n_lines = int (length ts);
     range_n = int (sum_list (map (\<lambda>t. length (tl_ranges t)) ts));
     eventint_n = int (sum_list (map (\<lambda>t. length (tl_event_int t)) ts));
     eventstr_n = int (sum_list (map (\<lambda>t. length (tl_event_str t)) ts));
     left_height = nadd (nmul (I left_n_lines) h) (nmul (I (left_n_lines - 1)) padding);
     right_n_lines = range_n + eventint_n + eventstr_n;
     right_height = nadd (nmul (I (right_n_lines - 1)) padding) (nmul (I right_n_lines) h);
     right_data_height = nadd (nadd (nmul (I (eventint_n + eventstr_n)) (nadd h (I 5))) (I (range_n * 10)))
       (nmul (I (right_n_lines - 1)) padding);
     height = nmax (nmax left_height right_height) right_data_height
   in \<lparr>left_width = lw, right_width = rw, max_text_height = h, view_width = width, view_height = nadd height padding\<rparr>)"

text \<open>\<open>padding / 2\<close> is the integer 5.\<close>

definition half_padding :: pynum where
  "half_padding = I 5"

definition get_data_x_start :: "data_view \<Rightarrow> pynum" where
  "get_data_x_start d = nadd (nadd (nadd (nadd half_padding (left_width d)) padding) (right_width d)) half_padding"

text \<open>\<open>int(x + (v - start) * width / (end - start))\<close>.\<close>

definition to_pixel :: "pynum \<Rightarrow> pynum \<Rightarrow> pynum \<Rightarrow> pynum \<Rightarrow> pynum \<Rightarrow> int result" where
  "to_pixel x width start stop v = bindR (ndiv (nmul (nsub v start) width) (nsub stop start)) (\<lambda>d. nint (nadd x d))"

definition draw_event_step :: "pynum \<Rightarrow> pynum \<Rightarrow> pynum \<Rightarrow> pynum \<Rightarrow> event \<Rightarrow> int \<times> (int \<times> event) list \<Rightarrow> (int \<times> (int \<times> event) list) result" where
  "draw_event_step x width start stop e s = (case s of (last_x_drawn, drawn) \<Rightarrow>
     bindR (to_pixel x width start stop (I (event_at e))) (\<lambda>real_x.
       Inr (if last_x_drawn + 2 < real_x then (real_x, drawn @ [(real_x, e)]) else (last_x_drawn, drawn))))"

definition draw_events :: "pynum \<Rightarrow> pynum \<Rightarrow> pynum \<Rightarrow> pynum \<Rightarrow> timeline_event \<Rightarrow> (int \<times> event) list result" where
  "draw_events x width start stop events = bindR (nint x) (\<lambda>x0.
     bindR (foldR (draw_event_step x width start stop) (slice (ev_events events) (get_events_bounds events start stop)) (x0, []))
       (\<lambda>(last_x_drawn, drawn). Inr drawn))"

type_synonym range_box = "int \<times> int \<times> color"

definition draw_range_step :: "pynum \<Rightarrow> pynum \<Rightarrow> pynum \<Rightarrow> pynum \<Rightarrow> data_range \<Rightarrow> int \<times> range_box list \<times> colors
    \<Rightarrow> (int \<times> range_box list \<times> colors) result" where
  "draw_range_step x width start stop r st = (case st of (last_x_drawn, drawn, cs) \<Rightarrow>
     let s = nmax (I (dr_start r)) start; e = nmin (I (dr_end r)) stop in
     bindR (to_pixel x width start stop s) (\<lambda>x_start. bindR (to_pixel x width start stop e) (\<lambda>x_end.
       if last_x_drawn < x_end
       then bindR (color_lookup (dr_value r) cs) (\<lambda>(c, cs'). Inr (x_end, drawn @ [(x_start, x_end, c)], cs'))
       else Inr (last_x_drawn, drawn, cs))))"

definition draw_ranges :: "pynum \<Rightarrow> pynum \<Rightarrow> pynum \<Rightarrow> pynum \<Rightarrow> timeline_data_range \<Rightarrow> colors \<Rightarrow> (range_box list \<times> colors) result" where
  "draw_ranges x width start stop ranges cs = bindR (nint (nsub x (I 1))) (\<lambda>x0.
     bindR (foldR (draw_range_step x width start stop) (slice (rng_ranges ranges) (get_ranges_bounds ranges start stop)) (x0, [], cs))
       (\<lambda>(last_x_drawn, drawn, cs'). Inr (drawn, cs')))"

text \<open>What a timeline shows: texts and rows at their heights, rows on an even count with a grey background.\<close>

datatype row =
    TextRow pynum pynum string
  | LineRow pynum pynum pynum
  | EventsRow pynum bool "(int \<times> event) list"
  | RangesRow pynum bool "range_box list"

record painter =
  cur_y :: pynum
  grey_background :: nat
  shown :: "row list"
  paint_colors :: colors

definition show_row :: "row list \<Rightarrow> painter \<Rightarrow> painter" where
  "show_row rs p = p\<lparr>shown := shown p @ rs\<rparr>"

definition label_y :: "extents \<Rightarrow> data_view \<Rightarrow> string \<Rightarrow> painter \<Rightarrow> pynum" where
  "label_y ext d s p = nsub (nadd (cur_y p) (max_text_height d)) (nadd (t_height ext s) (t_bearing ext s))"

definition right_x_start :: "data_view \<Rightarrow> pynum" where
  "right_x_start d = nadd (nadd half_padding (left_width d)) padding"

definition line_below :: "data_view \<Rightarrow> painter \<Rightarrow> painter" where
  "line_below d p = show_row [LineRow (nsub (right_x_start d) half_padding) (nsub (cur_y p) half_padding)
     (nadd (right_width d) padding)] p"

definition data_width :: "data_view \<Rightarrow> pynum" where
  "data_width d = nsub (view_width d) (get_data_x_start d)"

definition events_row :: "extents \<Rightarrow> data_view \<Rightarrow> pynum \<Rightarrow> pynum \<Rightarrow> timeline_event \<Rightarrow> painter \<Rightarrow> painter result" where
  "events_row ext d start stop ev p = (let p = show_row [TextRow (right_x_start d) (label_y ext d (ev_name ev) p) (ev_name ev)] p in
     bindR (draw_events (get_data_x_start d) (data_width d) start stop ev) (\<lambda>drawn.
       Inr (line_below d ((show_row [EventsRow (cur_y p) (even (grey_background p)) drawn] p)
         \<lparr>grey_background := Suc (grey_background p), cur_y := nadd (cur_y p) (nadd (nadd (max_text_height d) (I 5)) padding)\<rparr>))))"

definition ranges_row :: "extents \<Rightarrow> data_view \<Rightarrow> pynum \<Rightarrow> pynum \<Rightarrow> timeline_data_range \<Rightarrow> painter \<Rightarrow> painter result" where
  "ranges_row ext d start stop rs p = (let p = show_row [TextRow (right_x_start d) (label_y ext d (rng_name rs) p) (rng_name rs)] p in
     bindR (draw_ranges (get_data_x_start d) (data_width d) start stop rs (paint_colors p)) (\<lambda>(drawn, cs).
       Inr (line_below d ((show_row [RangesRow (cur_y p) (even (grey_background p)) drawn] p)
         \<lparr>grey_background := Suc (grey_background p), paint_colors := cs, cur_y := nadd (cur_y p) (nadd (max_text_height d) padding)\<rparr>))))"

definition timeline_rows :: "extents \<Rightarrow> data_view \<Rightarrow> pynum \<Rightarrow> pynum \<Rightarrow> timeline \<Rightarrow> painter \<Rightarrow> painter result" where
  "timeline_rows ext d start stop t p =
     bindR (foldR (events_row ext d start stop) (tl_event_int t) (show_row [TextRow half_padding (label_y ext d (tl_name t) p) (tl_name t)] p)) (\<lambda>p.
     bindR (foldR (events_row ext d start stop) (tl_event_str t) p) (\<lambda>p.
     bindR (foldR (ranges_row ext d start stop) (tl_ranges t) p) (\<lambda>p.
       Inr (show_row [LineRow (I 0) (nsub (cur_y p) half_padding) (view_width d)] p))))"

definition draw_data :: "extents \<Rightarrow> timelines \<Rightarrow> data_view \<Rightarrow> pynum \<Rightarrow> pynum \<Rightarrow> colors \<Rightarrow> painter result" where
  "draw_data ext ts d start stop cs = foldR (timeline_rows ext d start stop) ts
     \<lparr>cur_y = half_padding, grey_background = 1, shown = [LineRow (I 0) (I 0) (view_width d)], paint_colors = cs\<rparr>"

subsection \<open>The scales\<close>

record scale =
  sc_top :: bool
  sc_lo :: pynum
  sc_hi :: pynum
  sc_delta :: int
  sc_width :: pynum
  sc_height :: pynum

definition set_scale_bounds :: "pynum \<Rightarrow> pynum \<Rightarrow> scale \<Rightarrow> scale" where
  "set_scale_bounds lo hi s = s\<lparr>sc_lo := lo, sc_hi := hi\<rparr>"

definition get_position :: "scale \<Rightarrow> pynum \<Rightarrow> pynum result" where
  "get_position s x = ndiv (nmul (nsub x (sc_lo s)) (sc_width s)) (nsub (sc_hi s) (sc_lo s))"

text \<open>The largest power of ten below the width (or 1). The loop does not end for an infinite width, which
  no reachable state has.\<close>

function closest_loop :: "rat \<Rightarrow> int \<Rightarrow> int" where
  "closest_loop w closest = (if 0 < closest \<and> of_int (closest * 10) < w then closest_loop w (closest * 10) else closest)"
  by pat_completeness auto
termination
proof (relation "measure (\<lambda>(w, closest). nat (\<lceil>w\<rceil> - closest))", simp, goal_cases)
  case (1 w closest)
  then have "closest * 10 < \<lceil>w\<rceil>" by (simp add: less_ceiling_iff)
  then show ?case using 1 by simp
qed

declare closest_loop.simps [simp del]

definition closest_power :: "pynum \<Rightarrow> int" where
  "closest_power w = (case exact w of Fin q \<Rightarrow> closest_loop q 1 | _ \<Rightarrow> 1)"

definition scale_delta :: "pynum \<Rightarrow> pynum \<Rightarrow> int result" where
  "scale_delta lo hi = (let data_delta = nsub hi lo; closest = closest_power data_delta in
     bindR (ndiv data_delta (I closest)) (\<lambda>q.
       if neq_num q (I 0) then Inr closest else if neq_num q (I 1) then Inr (closest div 10) else Inr closest))"

text \<open>The multiples of \<open>delta\<close> after \<open>lo\<close> and up to \<open>hi\<close>, which \<open>layout\<close> computes and does not keep.\<close>

definition tick_bounds :: "pynum \<Rightarrow> pynum \<Rightarrow> int \<Rightarrow> (pynum \<times> pynum) result" where
  "tick_bounds lo hi delta = bindR (nmod lo (I delta)) (\<lambda>a. bindR (nmod hi (I delta)) (\<lambda>b.
     Inr (nadd (nsub lo a) (I delta), nsub hi b)))"

definition scale_layout :: "extents \<Rightarrow> pynum \<Rightarrow> (scale, unit) op" where
  "scale_layout ext width = bindM (gets (\<lambda>s. scale_delta (sc_lo s) (sc_hi s))) (\<lambda>delta.
     bindM (gets (\<lambda>s. tick_bounds (sc_lo s) (sc_hi s) delta)) (\<lambda>_.
     modify (\<lambda>s. s\<lparr>sc_delta := delta, sc_width := width, sc_height := nadd (t_height ext alphabet) (I 10)\<rparr>)))"

text \<open>\<open>range(a, b, d)\<close> with a positive step; Python raises on a step of zero.\<close>

definition int_range :: "int \<Rightarrow> int \<Rightarrow> int \<Rightarrow> int list result" where
  "int_range a b d = (if d = 0 then Inl ValueError
     else if d < 0 then Inr (map (\<lambda>k. a + int k * d) [0..<nat ((a - b - d - 1) div (- d))])
     else Inr (map (\<lambda>k. a + int k * d) [0..<nat ((b - a + d - 1) div d)]))"

definition scale_marks :: "pynum \<Rightarrow> pynum \<Rightarrow> int \<Rightarrow> int list result" where
  "scale_marks lo hi delta = bindR (tick_bounds lo hi delta) (\<lambda>(start, stop).
     bindR (nint start) (\<lambda>a. bindR (nint (nadd stop (I delta))) (\<lambda>b. int_range a b delta)))"

text \<open>The marks with their texts and positions, and the smaller ones between them.\<close>

definition placed_marks :: "scale \<Rightarrow> int list \<Rightarrow> (int \<times> pynum) list result" where
  "placed_marks s xs = mapR (\<lambda>x. bindR (get_position s (I x)) (\<lambda>real_x. Inr (x, real_x))) xs"

definition scale_draw :: "scale \<Rightarrow> ((int \<times> pynum) list \<times> (int \<times> pynum) list) result" where
  "scale_draw s = bindR (scale_marks (sc_lo s) (sc_hi s) (sc_delta s)) (\<lambda>ticks.
     bindR (placed_marks s ticks) (\<lambda>big.
     if 0 < sc_delta s div 10
     then bindR (scale_marks (sc_lo s) (sc_hi s) (sc_delta s div 10)) (\<lambda>xs. bindR (placed_marks s xs) (\<lambda>small. Inr (big, small)))
     else Inr (big, [])))"

subsection \<open>The window\<close>

record graphic =
  gr_start :: pynum
  gr_end :: pynum
  mid_scale :: scale
  bot_scale :: scale
  gr_width :: pynum
  gr_height :: pynum
  r_start :: pynum
  r_end :: pynum
  legend_height :: pynum
  data_view :: data_view
  render_range :: "pynum \<times> pynum"

text \<open>What does not change: the sizes of texts, the legends and the timelines.\<close>

record scene =
  sc_ext :: extents
  sc_legends :: "string list"
  sc_legend_colors :: "color list"
  sc_timelines :: timelines

definition on_mid :: "(scale, 'a) op \<Rightarrow> (graphic, 'a) op" where
  "on_mid m g = (case m (mid_scale g) of (s, r) \<Rightarrow> (g\<lparr>mid_scale := s\<rparr>, r))"

definition on_bot :: "(scale, 'a) op \<Rightarrow> (graphic, 'a) op" where
  "on_bot m g = (case m (bot_scale g) of (s, r) \<Rightarrow> (g\<lparr>bot_scale := s\<rparr>, r))"

definition get_data_rectangle :: "graphic \<Rightarrow> pynum \<times> pynum \<times> pynum \<times> pynum" where
  "get_data_rectangle g = (let x_start = get_data_x_start (data_view g) in
     (x_start, legend_height g, nsub (gr_width g) x_start, view_height (data_view g)))"

definition scale_data :: "graphic \<Rightarrow> pynum \<Rightarrow> pynum result" where
  "scale_data g x = bindR (ndiv x (nsub (gr_width g) (get_data_x_start (data_view g)))) (\<lambda>q.
     Inr (nmul q (nsub (r_end g) (r_start g))))"

definition get_selection_rectangle :: "graphic \<Rightarrow> (pynum \<times> pynum \<times> pynum \<times> pynum) result" where
  "get_selection_rectangle g = (let
     y_start = nadd (nadd (nadd (legend_height g) (view_height (data_view g))) (sc_height (mid_scale g))) (I 20);
     y_height = nadd (sc_height (bot_scale g)) (I 20)
   in bindR (get_position (bot_scale g) (r_start g)) (\<lambda>x_start. bindR (get_position (bot_scale g) (r_end g)) (\<lambda>x_end.
     Inr (x_start, y_start, nsub x_end x_start, y_height))))"

definition scale_selection :: "graphic \<Rightarrow> pynum \<Rightarrow> pynum result" where
  "scale_selection g x = bindR (ndiv x (gr_width g)) (\<lambda>q. Inr (nmul q (nsub (gr_end g) (gr_start g))))"

definition graphic_layout :: "scene \<Rightarrow> pynum \<Rightarrow> pynum \<Rightarrow> (graphic, unit) op" where
  "graphic_layout sc width height =
     bindM (modify (\<lambda>g. g\<lparr>gr_width := width, gr_height := height,
       legend_height := legend_layout (sc_ext sc) (sc_legends sc) width,
       data_view := data_layout (sc_ext sc) (sc_timelines sc) width\<rparr>)) (\<lambda>_.
     bindM (\<lambda>g. on_mid (scale_layout (sc_ext sc) (nsub width (get_data_x_start (data_view g)))) g) (\<lambda>_.
     on_bot (scale_layout (sc_ext sc) width)))"

definition set_range :: "scene \<Rightarrow> pynum \<Rightarrow> pynum \<Rightarrow> (graphic, unit) op" where
  "set_range sc start stop =
     bindM (modify (\<lambda>g. let s = nmin start stop; e = nmax start stop;
         start = nmax (gr_start g) s; stop = nmin (gr_end g) e
       in g\<lparr>r_start := start, r_end := stop, render_range := (start, stop), mid_scale := set_scale_bounds start stop (mid_scale g)\<rparr>)) (\<lambda>_.
     \<lambda>g. graphic_layout sc (gr_width g) (gr_height g) g)"

definition get_window :: "graphic \<Rightarrow> pynum \<times> pynum" where
  "get_window g = (r_start g, r_end g)"

text \<open>What is drawn, in this order: the legend, the timelines, the two scales.\<close>

definition graphic_draw :: "scene \<Rightarrow> graphic \<Rightarrow> colors
    \<Rightarrow> (legend_item list \<times> painter \<times> ((int \<times> pynum) list \<times> (int \<times> pynum) list) \<times> ((int \<times> pynum) list \<times> (int \<times> pynum) list)) result" where
  "graphic_draw sc g cs =
     bindR (legend_draw (sc_ext sc) (gr_width g) (sc_legends sc) (sc_legend_colors sc)) (\<lambda>legend.
     bindR (draw_data (sc_ext sc) (sc_timelines sc) (data_view g) (fst (render_range g)) (snd (render_range g)) cs) (\<lambda>rows.
     bindR (scale_draw (mid_scale g)) (\<lambda>mid.
     bindR (get_position (bot_scale g) (r_start g)) (\<lambda>_. bindR (get_position (bot_scale g) (r_end g)) (\<lambda>_.
     bindR (scale_draw (bot_scale g)) (\<lambda>bot. Inr (legend, rows, mid, bot)))))))"

subsection \<open>The mouse\<close>

text \<open>The attributes of the widget. \<open>moving_right\<close> may become a number: what counts is whether it is
  zero. An attribute that no method has assigned yet is \<open>None\<close>.\<close>

record gui =
  gui_graphic :: graphic
  gui_colors :: colors
  moving_left :: bool
  moving_right :: bool
  moving_both :: bool
  moving_top :: bool
  left_cur :: "pynum option"
  right_cur :: "pynum option"
  both_start :: "pynum option"
  both_cur :: "pynum option"
  top_start :: "pynum option"
  top_cur :: "pynum option"
  gui_width :: "int option"
  gui_height :: "int option"
  force_full_redraw :: bool
  has_buffer :: bool

definition on_graphic :: "(graphic, 'a) op \<Rightarrow> (gui, 'a) op" where
  "on_graphic m u = (case m (gui_graphic u) of (g, r) \<Rightarrow> (u\<lparr>gui_graphic := g\<rparr>, r))"

definition redraw :: "gui \<Rightarrow> gui" where
  "redraw u = u\<lparr>force_full_redraw := True\<rparr>"

definition set_smaller_zoom :: "scene \<Rightarrow> (gui, unit) op" where
  "set_smaller_zoom sc = bindM (\<lambda>u. case get_window (gui_graphic u) of (start, stop) \<Rightarrow>
     on_graphic (set_range sc start (nadd start (nmul (nsub stop start) (I 2)))) u) (\<lambda>_. modify redraw)"

definition set_bigger_zoom :: "scene \<Rightarrow> (gui, unit) op" where
  "set_bigger_zoom sc = bindM (\<lambda>u. case get_window (gui_graphic u) of (start, stop) \<Rightarrow>
     bindM (gets (\<lambda>_. ndiv (nsub stop start) (I 2))) (\<lambda>w. on_graphic (set_range sc start (nadd start w))) u) (\<lambda>_. modify redraw)"

definition between :: "pynum \<Rightarrow> pynum \<Rightarrow> pynum \<Rightarrow> bool" where
  "between lo v hi \<longleftrightarrow> nlt lo v \<and> nlt v hi"

definition near :: "pynum \<Rightarrow> pynum \<Rightarrow> bool" where
  "near a b \<longleftrightarrow> nlt (nabs (nsub a b)) (I 5)"

definition button_press :: "pynum \<Rightarrow> pynum \<Rightarrow> (gui, bool) op" where
  "button_press ex ey = bindM (gets (\<lambda>u. get_selection_rectangle (gui_graphic u))) (\<lambda>(x, y, width, height). \<lambda>u.
     case get_data_rectangle (gui_graphic u) of (d_x, d_y, d_width, d_height) \<Rightarrow>
     if between y ey (nadd y height) \<and> near ex x then (u\<lparr>moving_left := True\<rparr>, Inr True)
     else if between y ey (nadd y height) \<and> near ex (nadd x width) then (u\<lparr>moving_right := True\<rparr>, Inr True)
     else if between y ey (nadd y height) \<and> between x ex (nadd x width)
       then (u\<lparr>moving_both := True, both_start := Some ex, both_cur := Some ex\<rparr>, Inr True)
     else if between d_y ey (nadd d_y d_height) \<and> between d_x ex (nadd d_x d_width)
       then (u\<lparr>moving_top := True, top_start := Some ex, top_cur := Some ex\<rparr>, Inr True)
     else (u, Inr False))"

definition select :: "scene \<Rightarrow> pynum \<Rightarrow> pynum \<Rightarrow> (gui, bool) op" where
  "select sc left right = bindM (on_graphic (set_range sc left right)) (\<lambda>_. bindM (modify redraw) (\<lambda>_. ret True))"

definition button_release :: "scene \<Rightarrow> (gui, bool) op" where
  "button_release sc u =
    (if moving_left u then
       bindM (gets (\<lambda>u. bindR (attr (left_cur u)) (scale_selection (gui_graphic u)))) (\<lambda>left. \<lambda>u.
         select sc left (r_end (gui_graphic u)) u) (u\<lparr>moving_left := False\<rparr>)
     else if moving_right u then
       bindM (gets (\<lambda>u. bindR (attr (right_cur u)) (scale_selection (gui_graphic u)))) (\<lambda>right. \<lambda>u.
         select sc (r_start (gui_graphic u)) right u) (u\<lparr>moving_right := False\<rparr>)
     else if moving_both u then
       bindM (gets (\<lambda>u. bindR (attr (both_cur u)) (\<lambda>c. bindR (attr (both_start u)) (\<lambda>s.
           scale_selection (gui_graphic u) (nsub c s))))) (\<lambda>delta. \<lambda>u.
         select sc (nadd (r_start (gui_graphic u)) delta) (nadd (r_end (gui_graphic u)) delta) u) (u\<lparr>moving_both := False\<rparr>)
     else if moving_top u then (u\<lparr>moving_top := False\<rparr>, Inr False)
     else (u, Inr False))"

text \<open>\<open>queue_draw_area\<close> takes integers.\<close>

definition queue_draw_area :: "pynum \<Rightarrow> pynum \<Rightarrow> (gui, unit) op" where
  "queue_draw_area y height = gets (\<lambda>u. bindR (nint y) (\<lambda>_. bindR (attr (gui_width u)) (\<lambda>_. bindR (nint height) (\<lambda>_. Inr ()))))"

definition motion_notify :: "scene \<Rightarrow> pynum \<Rightarrow> pynum \<Rightarrow> (gui, bool) op" where
  "motion_notify sc ex ey = bindM (gets (\<lambda>u. get_selection_rectangle (gui_graphic u))) (\<lambda>(x, y, width, height). \<lambda>u.
     if moving_left u then
       bindM (modify (\<lambda>u. u\<lparr>left_cur := Some (if nle ex (I 0) then I 0 else if nle (nadd x width) ex then nadd x width else ex)\<rparr>))
         (\<lambda>_. bindM (queue_draw_area y height) (\<lambda>_. ret True)) u
     else if moving_right u then
       bindM (gets (\<lambda>u. attr (gui_width u))) (\<lambda>w.
       bindM (modify (\<lambda>u. if nle (I w) ex then u\<lparr>moving_right := (w \<noteq> 0)\<rparr>
           else u\<lparr>right_cur := Some (if nlt ex x then x else ex)\<rparr>))
         (\<lambda>_. bindM (queue_draw_area y height) (\<lambda>_. ret True))) u
     else if moving_both u then
       bindM (gets (\<lambda>u. bindR (attr (gui_width u)) (\<lambda>w. bindR (attr (both_start u)) (\<lambda>s. Inr (w, s))))) (\<lambda>(w, s).
         let cur_e = nsub (I w) (nsub (nadd x width) s); cur_s = nsub s x in
       bindM (modify (\<lambda>u. u\<lparr>both_cur := Some (if nlt ex cur_s then cur_s else if nlt cur_e ex then cur_e else ex)\<rparr>))
         (\<lambda>_. bindM (queue_draw_area y height) (\<lambda>_. ret True))) u
     else if moving_top u then
       bindM (modify (\<lambda>u. u\<lparr>top_cur := Some ex\<rparr>)) (\<lambda>_.
       bindM (gets (\<lambda>u. bindR (attr (top_start u)) (\<lambda>s. scale_data (gui_graphic u) (nsub s ex)))) (\<lambda>delta.
       bindM (\<lambda>u. on_graphic (set_range sc (nadd (r_start (gui_graphic u)) delta) (nadd (r_end (gui_graphic u)) delta)) u) (\<lambda>_.
       bindM (modify (\<lambda>u. (redraw u)\<lparr>top_start := Some ex\<rparr>)) (\<lambda>_. ret True)))) u
     else (u, Inr (case get_data_rectangle (gui_graphic u) of (d_x, d_y, d_width, d_height) \<Rightarrow>
       between y ey (nadd y height) \<and> (near ex x \<or> near ex (nadd x width) \<or> between x ex (nadd x width))
       \<or> between d_y ey (nadd d_y d_height) \<and> between d_x ex (nadd d_x d_width))))"

definition size_allocate :: "scene \<Rightarrow> int \<Rightarrow> int \<Rightarrow> (gui, unit) op" where
  "size_allocate sc w h = bindM (modify (\<lambda>u. u\<lparr>gui_width := Some w, gui_height := Some h\<rparr>)) (\<lambda>_.
     bindM (on_graphic (graphic_layout sc (I w) (I h))) (\<lambda>_. modify redraw))"

text \<open>The full drawing goes to a buffer; then the lines that follow the mouse read their positions.\<close>

definition expose :: "scene \<Rightarrow> (gui, bool) op" where
  "expose sc = bindM (\<lambda>u. if force_full_redraw u
       then bindM (modify (\<lambda>u. u\<lparr>has_buffer := True\<rparr>)) (\<lambda>_.
         bindM (gets (\<lambda>u. graphic_draw sc (gui_graphic u) (gui_colors u))) (\<lambda>(legend, rows, mid, bot).
         modify (\<lambda>u. u\<lparr>force_full_redraw := False, gui_colors := paint_colors rows\<rparr>))) u
       else ret () u) (\<lambda>_.
     bindM (gets (\<lambda>u. bindR (get_selection_rectangle (gui_graphic u)) (\<lambda>_.
       bindR (if moving_left u then bindR (attr (left_cur u)) (\<lambda>_. Inr ()) else Inr ()) (\<lambda>_.
       bindR (if moving_right u then bindR (attr (right_cur u)) (\<lambda>_. bindR (attr (gui_width u)) (\<lambda>_. Inr ())) else Inr ()) (\<lambda>_.
       if moving_both u then bindR (attr (both_cur u)) (\<lambda>_. bindR (attr (both_start u)) (\<lambda>_. Inr ())) else Inr ()))))) (\<lambda>_.
     ret False))"

datatype gui_input = Press pynum pynum | Release | Motion pynum pynum | Allocate int int | Expose | ZoomOut | ZoomIn

text \<open>GTK reports an exception of a handler and goes on.\<close>

fun handle :: "scene \<Rightarrow> gui_input \<Rightarrow> gui \<Rightarrow> gui" where
  "handle sc (Press x y) u = fst (button_press x y u)"
| "handle sc Release u = fst (button_release sc u)"
| "handle sc (Motion x y) u = fst (motion_notify sc x y u)"
| "handle sc (Allocate w h) u = fst (size_allocate sc w h u)"
| "handle sc Expose u = fst (expose sc u)"
| "handle sc ZoomOut u = fst (set_smaller_zoom sc u)"
| "handle sc ZoomIn u = fst (set_bigger_zoom sc u)"

inductive gui_step :: "scene \<Rightarrow> gui \<Rightarrow> gui \<Rightarrow> bool" for sc where
  gui_input: "gui_step sc u (handle sc i u)"

subsection \<open>The program\<close>

text \<open>The colours of all values, looked up one after the other.\<close>

fun lookup_all :: "string list \<Rightarrow> colors \<Rightarrow> (color list \<times> colors) result" where
  "lookup_all [] cs = Inr ([], cs)"
| "lookup_all (v # vs) cs = bindR (color_lookup v cs) (\<lambda>(c, cs). bindR (lookup_all vs cs) (\<lambda>(rest, cs). Inr (c # rest, cs)))"

definition new_scale :: "bool \<Rightarrow> pynum \<Rightarrow> pynum \<Rightarrow> scale" where
  "new_scale on_top lo hi = \<lparr>sc_top = on_top, sc_lo = lo, sc_hi = hi, sc_delta = 0, sc_width = I 0, sc_height = I 0\<rparr>"

text \<open>The fields of a new window that are set before they are read have a value of no meaning.\<close>

definition GraphicRenderer :: "int \<Rightarrow> int \<Rightarrow> graphic" where
  "GraphicRenderer lo hi = \<lparr>gr_start = F (float_of_int lo), gr_end = F (float_of_int hi),
     mid_scale = new_scale True (I 0) (I 0), bot_scale = new_scale False (I lo) (I hi), gr_width = I 1, gr_height = I 1,
     r_start = I 0, r_end = I 0, legend_height = I 0,
     data_view = \<lparr>left_width = I 0, right_width = I 0, max_text_height = I 0, view_width = I 0, view_height = I 0\<rparr>,
     render_range = (I 0, I 0)\<rparr>"

definition GtkGraphicRenderer :: "graphic \<Rightarrow> colors \<Rightarrow> gui" where
  "GtkGraphicRenderer g cs = \<lparr>gui_graphic = g, gui_colors = cs, moving_left = False, moving_right = False, moving_both = False,
     moving_top = False, left_cur = None, right_cur = None, both_start = None, both_cur = None, top_start = None, top_cur = None,
     gui_width = None, gui_height = None, force_full_redraw = True, has_buffer = False\<rparr>"

text \<open>Up to the start of the user interface; \<open>order\<close> is the order of the keys of a dictionary.\<close>

definition grid_main :: "extents \<Rightarrow> (string list \<Rightarrow> string list) \<Rightarrow> string list \<Rightarrow> (scene \<times> gui) result" where
  "grid_main ext order lines = bindR (read_data lines) (\<lambda>(cs, ts).
     case get_bounds ts of (lower_bound, upper_bound) \<Rightarrow>
     let range_values = order (get_all_range_values ts) in
     bindR (lookup_all range_values cs) (\<lambda>(range_colors, cs).
     let sc = \<lparr>sc_ext = ext, sc_legends = range_values, sc_legend_colors = range_colors, sc_timelines = ts\<rparr>;
         range_mid = (upper_bound - lower_bound) div 2;
         range_width = (upper_bound - lower_bound) div 10;
         (g, res) = set_range sc (I (range_mid - range_width div 2)) (I (range_mid + range_width div 2)) (GraphicRenderer lower_bound upper_bound)
     in bindR res (\<lambda>_. Inr (sc, GtkGraphicRenderer g cs))))"

subsection \<open>Colours\<close>

text \<open>Values that have a colour.\<close>

definition known :: "colors \<Rightarrow> string \<Rightarrow> bool" where
  "known cs v \<longleftrightarrow> dget (named_colors cs) v \<noteq> None"

lemma known_add: "known (add_color n c cs) v \<longleftrightarrow> v = n \<or> known cs v"
  by (simp add: known_def add_color_def dset_def dget_def update_conv')

lemma known_defaults [simp]: "known (cs\<lparr>default_colors := ds\<rparr>) v \<longleftrightarrow> known cs v"
  by (simp add: known_def)

lemma lookup_known: "known cs v \<Longrightarrow> \<exists>c. color_lookup v cs = Inr (c, cs)"
  by (auto simp: known_def color_lookup_def)

lemma lookup_unknown:
  assumes "\<not> known cs v"
  shows "color_lookup v cs = (if default_colors cs = [] then Inl IndexError
    else Inr (last (default_colors cs), add_color v (last (default_colors cs)) (cs\<lparr>default_colors := butlast (default_colors cs)\<rparr>)))"
  using assms by (simp add: known_def color_lookup_def Let_def)

definition missing :: "colors \<Rightarrow> string list \<Rightarrow> string list" where
  "missing cs vs = filter (\<lambda>v. \<not> known cs v) vs"

lemma lookup_all_spec:
  assumes "distinct vs"
  shows "case lookup_all vs cs of
      Inl e \<Rightarrow> e = IndexError \<and> length (default_colors cs) < length (missing cs vs)
    | Inr (ks, cs') \<Rightarrow> length (missing cs vs) \<le> length (default_colors cs) \<and> length ks = length vs
        \<and> (\<forall>v. known cs' v \<longleftrightarrow> known cs v \<or> v \<in> set vs)"
  using assms
proof (induction vs arbitrary: cs)
  case Nil
  show ?case by (simp add: missing_def)
next
  case (Cons v vs)
  show ?case
  proof (cases "known cs v")
    case True
    then obtain c where c: "color_lookup v cs = Inr (c, cs)" using lookup_known by blast
    show ?thesis using Cons.IH [of cs] Cons.prems True by (cases "lookup_all vs cs") (auto simp: c missing_def)
  next
    case False
    show ?thesis
    proof (cases "default_colors cs = []")
      case True
      then show ?thesis using False by (simp add: lookup_unknown missing_def)
    next
      case nonempty: False
      define cs1 where "cs1 = add_color v (last (default_colors cs)) (cs\<lparr>default_colors := butlast (default_colors cs)\<rparr>)"
      have l: "color_lookup v cs = Inr (last (default_colors cs), cs1)" using False nonempty by (simp add: lookup_unknown cs1_def)
      have k: "known cs1 w \<longleftrightarrow> w = v \<or> known cs w" for w by (simp add: cs1_def known_add)
      have "missing cs1 vs = missing cs vs" using Cons.prems by (auto simp: missing_def k intro!: filter_cong)
      moreover have "length (default_colors cs) = Suc (length (default_colors cs1))"
        using nonempty by (cases "default_colors cs") (simp_all add: cs1_def add_color_def)
      ultimately show ?thesis using Cons.IH [of cs1] Cons.prems False
        by (cases "lookup_all vs cs1") (auto simp: l k missing_def)
    qed
  qed
qed

text \<open>A loop over a state of which one part does not change, and which does not raise one error.\<close>

definition steady :: "('s \<Rightarrow> 'c) \<Rightarrow> 'c \<Rightarrow> 's result \<Rightarrow> bool" where
  "steady f c r \<longleftrightarrow> (case r of Inl e \<Rightarrow> e \<noteq> IndexError | Inr s \<Rightarrow> f s = c)"

lemma steady_simps [simp]: "steady f c (Inl e) \<longleftrightarrow> e \<noteq> IndexError" "steady f c (Inr s) \<longleftrightarrow> f s = c"
  by (simp_all add: steady_def)

lemma steady_foldR:
  assumes "\<And>x s. x \<in> set xs \<Longrightarrow> f s = c \<Longrightarrow> steady f c (step x s)" "f s = c"
  shows "steady f c (foldR step xs s)"
  using assms
proof (induction xs arbitrary: s)
  case (Cons x xs)
  then have "steady f c (step x s)" by simp
  then show ?case using Cons by (cases "step x s") (auto simp: steady_def)
qed (simp add: steady_def)

lemma steady_bindR:
  assumes "steady f c m" "\<And>s. f s = c \<Longrightarrow> steady g d (k s)"
  shows "steady g d (bindR m k)"
  using assms by (cases m) (auto simp: steady_def)

lemma nint_errors: "nint x = Inl e \<Longrightarrow> e \<noteq> IndexError"
  by (cases x; cases "as_float x") auto

lemma ndiv_errors: "ndiv a b = Inl e \<Longrightarrow> e \<noteq> IndexError"
  by (cases a; cases b) (auto simp: fdiv_def split: if_splits)

lemma steady_pixel: "steady (\<lambda>_. ()) () (to_pixel x width start stop v)"
  unfolding to_pixel_def steady_def
  by (auto split: sum.splits dest: nint_errors ndiv_errors simp: bindR_def)

lemma steady_nint: "steady (\<lambda>_. ()) () (nint x)"
  by (auto simp: steady_def split: sum.splits dest: nint_errors)

lemma in_slice: "x \<in> set (slice xs b) \<Longrightarrow> x \<in> set xs"
  by (cases b) (auto simp: slice_def dest: in_set_dropD in_set_takeD)

lemma steady_event_step: "steady (\<lambda>_. ()) () (draw_event_step x width start stop e s)"
  by (cases s) (auto simp: draw_event_step_def intro!: steady_bindR [OF steady_pixel])

lemma steady_events: "steady (\<lambda>_. ()) () (draw_events x width start stop ev)"
  unfolding draw_events_def
  by (intro steady_bindR [OF steady_nint] steady_bindR [where f = "\<lambda>_. ()" and c = "()"] steady_foldR)
    (auto intro: steady_event_step)

lemma steady_range_step:
  assumes "known cs (dr_value r)" "snd (snd s) = cs"
  shows "steady (\<lambda>s. snd (snd s)) cs (draw_range_step x width start stop r s)"
proof -
  obtain c where c: "color_lookup (dr_value r) cs = Inr (c, cs)" using lookup_known [OF assms(1)] by blast
  obtain a b where s: "s = (a, b, cs)" using assms(2) by (cases s) auto
  show ?thesis unfolding draw_range_step_def s Let_def prod.case
    by (intro steady_bindR [OF steady_pixel]) (simp add: c)
qed

lemma steady_ranges:
  assumes "\<And>r. r \<in> set (rng_ranges rs) \<Longrightarrow> known cs (dr_value r)"
  shows "steady snd cs (draw_ranges x width start stop rs cs)"
  unfolding draw_ranges_def
proof (rule steady_bindR [OF steady_nint])
  fix x0
  have "steady (\<lambda>s. snd (snd s)) cs (foldR (draw_range_step x width start stop) (slice (rng_ranges rs) (get_ranges_bounds rs start stop)) (x0, [], cs))"
    by (rule steady_foldR) (auto intro!: steady_range_step assms dest: in_slice)
  then show "steady snd cs (bindR (foldR (draw_range_step x width start stop) (slice (rng_ranges rs) (get_ranges_bounds rs start stop)) (x0, [], cs))
      (\<lambda>(last_x_drawn, drawn, cs'). Inr (drawn, cs')))"
    by (rule steady_bindR) (auto simp: steady_def)
qed

lemma steady_events_row:
  "paint_colors p = cs \<Longrightarrow> steady paint_colors cs (events_row ext d start stop ev p)"
  unfolding events_row_def Let_def
  by (rule steady_bindR [OF steady_events]) (simp add: line_below_def show_row_def)

lemma steady_ranges_row:
  assumes "\<And>r. r \<in> set (rng_ranges rs) \<Longrightarrow> known cs (dr_value r)" "paint_colors p = cs"
  shows "steady paint_colors cs (ranges_row ext d start stop rs p)"
  unfolding ranges_row_def Let_def
  by (rule steady_bindR [where f = snd and c = cs]) (auto simp: line_below_def show_row_def assms(2) intro: steady_ranges assms(1))

lemma steady_rows:
  assumes "\<And>rs r. rs \<in> set (tl_ranges t) \<Longrightarrow> r \<in> set (rng_ranges rs) \<Longrightarrow> known cs (dr_value r)" "paint_colors p = cs"
  shows "steady paint_colors cs (timeline_rows ext d start stop t p)"
  unfolding timeline_rows_def
  by (intro steady_bindR [where f = paint_colors and c = cs] steady_foldR steady_events_row steady_ranges_row)
    (auto simp: show_row_def assms)

definition values_of :: "timelines \<Rightarrow> string set" where
  "values_of ts = {dr_value r | (t :: timeline) rs r. t \<in> set ts \<and> rs \<in> set (tl_ranges t) \<and> r \<in> set (rng_ranges rs)}"

lemma steady_data:
  assumes "\<And>v. v \<in> values_of ts \<Longrightarrow> known cs v"
  shows "steady paint_colors cs (draw_data ext ts d start stop cs)"
  unfolding draw_data_def
proof (rule steady_foldR)
  fix t and p :: painter assume t: "t \<in> set ts" "paint_colors p = cs"
  show "steady paint_colors cs (timeline_rows ext d start stop t p)"
    by (rule steady_rows) (use t assms in \<open>auto simp: values_of_def\<close>)
qed simp

lemma keys_fold_dset: "set (dkeys (fold (\<lambda>x. dset (g x) k) xs d)) = set (dkeys d) \<union> g ` set xs"
proof (induction xs arbitrary: d)
  case (Cons x xs)
  have "set (dkeys (dset (g x) k d)) = insert (g x) (set (dkeys d))"
    by (auto simp: pyd.keys_upd)
  then show ?case using Cons [of "dset (g x) k d"] by simp
qed simp

lemma keys_fold:
  assumes "\<And>x d. set (dkeys (h x d)) = set (dkeys d) \<union> A x"
  shows "set (dkeys (fold h xs d)) = set (dkeys d) \<union> \<Union> (A ` set xs)"
  by (induction xs arbitrary: d) (auto simp: assms)

lemma all_range_values: "set (get_all_range_values ts) = values_of ts"
proof -
  have a: "set (dkeys (fold (\<lambda>rs d. fold (\<lambda>r. dset (dr_value r) (1 :: int)) (rng_ranges rs) d) (tl_ranges t) d))
      = set (dkeys d) \<union> \<Union> ((\<lambda>rs. dr_value ` set (rng_ranges rs)) ` set (tl_ranges t))" for t d
    by (rule keys_fold) (rule keys_fold_dset)
  have "set (get_all_range_values ts) = set (dkeys ([] :: (string, int) dict))
      \<union> \<Union> ((\<lambda>t. \<Union> ((\<lambda>rs. dr_value ` set (rng_ranges rs)) ` set (tl_ranges t))) ` set ts)"
    unfolding get_all_range_values_def by (rule keys_fold) (rule a)
  then show ?thesis by (auto simp: values_of_def dkeys_def)
qed

lemma dict_wf_fold: "(\<And>x d. dict_wf d \<Longrightarrow> dict_wf (h x d)) \<Longrightarrow> dict_wf d \<Longrightarrow> dict_wf (fold h xs d)"
  by (induction xs arbitrary: d) simp_all

lemma distinct_range_values: "distinct (get_all_range_values ts)"
proof -
  have "dict_wf (fold (\<lambda>t d. fold (\<lambda>rs d. fold (\<lambda>r. dset (dr_value r) (1 :: int)) (rng_ranges rs) d) (tl_ranges t) d) ts [])"
    by (intro dict_wf_fold) (simp_all add: pyd.wf_upd dict_wf_def [of "[]"])
  then show ?thesis by (simp add: get_all_range_values_def dict_wf_def dkeys_def)
qed

lemma read_step_defaults: "read_step l s = Inr s' \<Longrightarrow> default_colors (fst s') = default_colors (fst s)"
  unfolding read_step_def by (auto simp: bindR_eq_Inr add_color_def split: prod.splits option.splits)

lemma foldR_keeps:
  assumes "\<And>x s s'. f x s = Inr s' \<Longrightarrow> g s' = g s"
  shows "foldR f xs s = Inr s' \<Longrightarrow> g s' = g s"
  by (induction xs arbitrary: s) (auto simp: bindR_eq_Inr dest: assms)

lemma read_data_defaults: "read_data lines = Inr (cs, ts) \<Longrightarrow> length (default_colors cs) = 6"
proof -
  assume "read_data lines = Inr (cs, ts)"
  then obtain s where s: "foldR read_step lines (Colors, []) = Inr s" "fst s = cs"
    by (auto simp: read_data_def bindR_eq_Inr)
  have "default_colors (fst s) = default_colors (fst (Colors, [] :: timelines))"
    by (rule foldR_keeps [OF read_step_defaults s(1)])
  then show ?thesis using s(2) by (simp add: Colors_def)
qed

lemma nmod_errors: "nmod a b = Inl e \<Longrightarrow> e \<noteq> IndexError"
  by (cases a; cases b) (auto simp: fmod_py_def split: if_splits)

lemma bindR_errors: "bindR m k = Inl e \<Longrightarrow> m = Inl e \<or> (\<exists>x. m = Inr x \<and> k x = Inl e)"
  by (cases m) auto

lemma scale_delta_errors: "scale_delta lo hi = Inl e \<Longrightarrow> e \<noteq> IndexError"
  unfolding scale_delta_def Let_def by (auto dest!: bindR_errors dest: ndiv_errors split: if_splits)

lemma tick_bounds_errors: "tick_bounds lo hi d = Inl e \<Longrightarrow> e \<noteq> IndexError"
  unfolding tick_bounds_def by (auto dest!: bindR_errors dest: nmod_errors)

lemma scale_layout_errors: "snd (scale_layout ext w s) = Inl e \<Longrightarrow> e \<noteq> IndexError"
  unfolding scale_layout_def bindM_def gets_def modify_def
  by (auto split: sum.splits dest: scale_delta_errors tick_bounds_errors)

lemma set_range_errors: "snd (set_range sc a b g) = Inl e \<Longrightarrow> e \<noteq> IndexError"
  unfolding set_range_def graphic_layout_def bindM_def modify_def on_mid_def on_bot_def
  by (auto simp: Let_def split: sum.splits prod.splits) (metis scale_layout_errors snd_conv)+

text \<open>The program gives up with an IndexError exactly when more than six values of ranges have no
  colour in the file. Otherwise every value has its colour before anything is drawn: no drawing takes
  a colour from the defaults or runs out of them, whatever the window.\<close>

theorem grid_main_colors:
  assumes "\<And>ks. mset (order ks) = mset ks" "read_data lines = Inr (cs, ts)"
  shows "(grid_main ext order lines = Inl IndexError \<longleftrightarrow> 6 < length (missing cs (get_all_range_values ts)))
    \<and> (\<forall>sc u d start stop. grid_main ext order lines = Inr (sc, u) \<longrightarrow>
        steady paint_colors (gui_colors u) (draw_data ext (sc_timelines sc) d start stop (gui_colors u)))"
proof -
  let ?vs = "get_all_range_values ts"
  have m: "mset (order ?vs) = mset ?vs" by (rule assms(1))
  have "distinct (order ?vs)" using mset_eq_imp_distinct_iff [OF m] distinct_range_values by simp
  moreover have "set (order ?vs) = set ?vs" by (rule mset_eq_setD [OF m])
  moreover have "length (missing cs (order ?vs)) = length (missing cs ?vs)"
    unfolding missing_def using m by (metis mset_filter size_mset)
  ultimately have vs: "distinct (order ?vs)" "set (order ?vs) = set ?vs" "length (missing cs (order ?vs)) = length (missing cs ?vs)"
    by blast+
  have spec: "case lookup_all (order ?vs) cs of
      Inl e \<Rightarrow> e = IndexError \<and> 6 < length (missing cs ?vs)
    | Inr (ks, cs') \<Rightarrow> length (missing cs ?vs) \<le> 6 \<and> (\<forall>v. known cs' v \<longleftrightarrow> known cs v \<or> v \<in> set ?vs)"
    using lookup_all_spec [OF vs(1), of cs] vs(2,3) read_data_defaults [OF assms(2)] by (auto split: sum.splits)
  obtain lo hi where b: "get_bounds ts = (lo, hi)" by fastforce
  show ?thesis
  proof (cases "lookup_all (order ?vs) cs")
    case (Inl e)
    then show ?thesis using spec by (simp add: grid_main_def assms(2) b)
  next
    case (Inr x)
    obtain ks cs' where x: "x = (ks, cs')" by fastforce
    have few: "length (missing cs ?vs) \<le> 6" and k: "\<And>v. v \<in> values_of ts \<Longrightarrow> known cs' v"
      using spec Inr x all_range_values [of ts] by auto
    define sc where "sc = \<lparr>sc_ext = ext, sc_legends = order ?vs, sc_legend_colors = ks, sc_timelines = ts\<rparr>"
    define m where "m = set_range sc (I ((hi - lo) div 2 - (hi - lo) div 10 div 2)) (I ((hi - lo) div 2 + (hi - lo) div 10 div 2)) (GraphicRenderer lo hi)"
    have main: "grid_main ext order lines = bindR (snd m) (\<lambda>_. Inr (sc, GtkGraphicRenderer (fst m) cs'))"
      using Inr by (simp add: grid_main_def assms(2) b x Let_def sc_def m_def split: prod.splits)
    have "grid_main ext order lines \<noteq> Inl IndexError"
      using set_range_errors [of sc _ _ "GraphicRenderer lo hi"] m_def by (auto simp: main dest!: bindR_errors)
    moreover have "steady paint_colors cs' (draw_data ext ts d start stop cs')" for d start stop
      by (rule steady_data) (rule k)
    moreover have "gui_colors (GtkGraphicRenderer (fst m) cs') = cs'" "sc_timelines sc = ts"
      by (simp_all add: GtkGraphicRenderer_def sc_def)
    ultimately show ?thesis using few by (auto simp: main bindR_eq_Inr)
  qed
qed

subsection \<open>An example\<close>

definition demo_ext :: extents where
  "demo_ext s = (I 0, I 8, I 10)"

definition demo_file :: "string list" where
  "demo_file = [''range n s busy 0 400'' @ line_end, ''range n s idle 500 1000'' @ line_end, ''event-int n e 7 300'' @ line_end]"

definition demo_data :: timelines where
  "demo_data = [\<lparr>tl_name = ''n'', tl_ranges = [\<lparr>rng_name = ''s'', rng_ranges = [\<lparr>dr_start = 0, dr_end = 400, dr_value = ''busy''\<rparr>,
     \<lparr>dr_start = 500, dr_end = 1000, dr_value = ''idle''\<rparr>]\<rparr>], tl_event_str = [],
     tl_event_int = [\<lparr>ev_name = ''e'', ev_events = [EventInt 300 7]\<rparr>]\<rparr>]"

definition demo_colors :: colors where
  "demo_colors = add_color ''busy'' (rgb 1 0 1) (add_color ''idle'' (rgb 0 1 1)
     (Colors\<lparr>default_colors := [rgb 1 0 0, rgb 0 1 0, rgb 0 0 1, rgb 1 1 0]\<rparr>))"

definition demo_scene :: scene where
  "demo_scene = \<lparr>sc_ext = demo_ext, sc_legends = [''idle'', ''busy''], sc_legend_colors = [rgb 0 1 1, rgb 1 0 1], sc_timelines = demo_data\<rparr>"

definition demo_gui :: gui where
  "demo_gui = GtkGraphicRenderer (fst (set_range demo_scene (I 450) (I 550) (GraphicRenderer 0 1000))) demo_colors"

lemma demo_read: "read_data demo_file = Inr (Colors, demo_data)"
  by code_simp

lemma demo_parts:
  "get_bounds demo_data = (0, 1000)" "get_all_range_values demo_data = [''busy'', ''idle'']"
  "lookup_all [''idle'', ''busy''] Colors = Inr ([rgb 0 1 1, rgb 1 0 1], demo_colors)"
  "snd (set_range demo_scene (I 450) (I 550) (GraphicRenderer 0 1000)) = Inr ()"
  by code_simp+

lemma demo_main: "grid_main demo_ext rev demo_file = Inr (demo_scene, demo_gui)"
  using demo_parts(4)
  by (auto simp add: grid_main_def demo_read demo_parts demo_scene_def demo_gui_def Let_def simp del: lookup_all.simps split: prod.splits)

theorem grid_main_colors_witness:
  "\<not> 6 < length (missing Colors (get_all_range_values demo_data))
   \<and> steady paint_colors (gui_colors demo_gui) (draw_data demo_ext (sc_timelines demo_scene) (data_view (gui_graphic demo_gui)) (I 0) (I 700) (gui_colors demo_gui))"
  using grid_main_colors [of rev, OF _ demo_read, of demo_ext] demo_main by auto

subsection \<open>Invariants of the window\<close>

definition keeps :: "('s \<Rightarrow> bool) \<Rightarrow> ('s, 'a) op \<Rightarrow> bool" where
  "keeps P m \<longleftrightarrow> (\<forall>s. P s \<longrightarrow> P (fst (m s)))"

named_theorems keeps_intros \<open>composition of operations that keep an invariant\<close>

lemma keeps_bindM [keeps_intros]: "keeps P m \<Longrightarrow> (\<And>x. keeps P (f x)) \<Longrightarrow> keeps P (bindM m f)"
  by (auto simp: keeps_def bindM_def split: prod.splits sum.splits)

lemma keeps_gets [keeps_intros]: "keeps P (gets f)"
  by (simp add: keeps_def gets_def)

lemma keeps_ret [keeps_intros]: "keeps P (ret x)"
  by (simp add: keeps_def ret_def)

lemma keeps_modify [keeps_intros]: "(\<And>s. P s \<Longrightarrow> P (f s)) \<Longrightarrow> keeps P (modify f)"
  by (simp add: keeps_def modify_def)

lemma keeps_state: "(\<And>u. keeps P (m u)) \<Longrightarrow> keeps P (\<lambda>u. m u u)"
  by (simp add: keeps_def)

text \<open>The window starts no earlier and ends no later than the data, and everything that shows it agrees on it.\<close>

definition window_ok :: "pynum \<Rightarrow> pynum \<Rightarrow> pynum \<times> pynum \<Rightarrow> graphic \<Rightarrow> bool" where
  "window_ok lo hi all_data g \<longleftrightarrow> gr_start g = lo \<and> gr_end g = hi \<and> nle lo (r_start g) \<and> nle (r_end g) hi
     \<and> render_range g = (r_start g, r_end g) \<and> sc_lo (mid_scale g) = r_start g \<and> sc_hi (mid_scale g) = r_end g
     \<and> (sc_lo (bot_scale g), sc_hi (bot_scale g)) = all_data"

definition gui_ok :: "pynum \<Rightarrow> pynum \<Rightarrow> pynum \<times> pynum \<Rightarrow> gui \<Rightarrow> bool" where
  "gui_ok lo hi all_data u \<longleftrightarrow> window_ok lo hi all_data (gui_graphic u)"

lemma scale_layout_bounds: "sc_lo (fst (scale_layout ext w s)) = sc_lo s" "sc_hi (fst (scale_layout ext w s)) = sc_hi s"
  by (simp_all add: scale_layout_def bindM_def gets_def modify_def split: sum.splits)

lemma keeps_mid: "keeps (window_ok lo hi all_data) (on_mid (scale_layout ext w))"
  unfolding keeps_def on_mid_def
  by (auto simp: window_ok_def split: prod.splits) (metis scale_layout_bounds fst_conv)+

lemma keeps_bot: "keeps (window_ok lo hi all_data) (on_bot (scale_layout ext w))"
  unfolding keeps_def on_bot_def
  by (auto simp: window_ok_def split: prod.splits) (metis scale_layout_bounds fst_conv)+

lemma keeps_layout: "keeps (window_ok lo hi all_data) (graphic_layout sc w h)"
  unfolding graphic_layout_def
  by (intro keeps_intros keeps_bot keeps_state [where m = "\<lambda>g. on_mid (scale_layout _ (nsub _ (get_data_x_start (data_view g))))"] keeps_mid)
    (simp add: window_ok_def)

lemma set_range_window:
  assumes "is_num (gr_start g)" "is_num (gr_end g)"
  shows "window_ok (gr_start g) (gr_end g) (sc_lo (bot_scale g), sc_hi (bot_scale g)) (fst (set_range sc a b g))"
proof -
  define g1 where "g1 = fst (modify (\<lambda>g. let s = nmin a b; e = nmax a b; start = nmax (gr_start g) s; stop = nmin (gr_end g) e
       in g\<lparr>r_start := start, r_end := stop, render_range := (start, stop), mid_scale := set_scale_bounds start stop (mid_scale g)\<rparr>) g)"
  have "window_ok (gr_start g) (gr_end g) (sc_lo (bot_scale g), sc_hi (bot_scale g)) g1"
    by (simp add: g1_def modify_def Let_def window_ok_def set_scale_bounds_def nmax_ge nmin_le assms)
  then have "window_ok (gr_start g) (gr_end g) (sc_lo (bot_scale g), sc_hi (bot_scale g)) (fst (graphic_layout sc (gr_width g1) (gr_height g1) g1))"
    using keeps_layout by (auto simp: keeps_def)
  then show ?thesis by (simp add: set_range_def bindM_def modify_def g1_def)
qed

lemma keeps_set_range: "is_num lo \<Longrightarrow> is_num hi \<Longrightarrow> keeps (window_ok lo hi all_data) (set_range sc a b)"
  using set_range_window by (auto simp: keeps_def window_ok_def)

lemma keeps_on_graphic [keeps_intros]: "keeps (window_ok lo hi all_data) m \<Longrightarrow> keeps (gui_ok lo hi all_data) (on_graphic m)"
  unfolding keeps_def on_graphic_def gui_ok_def by (auto split: prod.splits)

lemma gui_ok_updates [simp]:
  "gui_ok lo hi all_data (u\<lparr>moving_left := b\<rparr>) = gui_ok lo hi all_data u" "gui_ok lo hi all_data (u\<lparr>moving_right := b\<rparr>) = gui_ok lo hi all_data u"
  "gui_ok lo hi all_data (u\<lparr>moving_both := b\<rparr>) = gui_ok lo hi all_data u" "gui_ok lo hi all_data (u\<lparr>moving_top := b\<rparr>) = gui_ok lo hi all_data u"
  "gui_ok lo hi all_data (u\<lparr>left_cur := c\<rparr>) = gui_ok lo hi all_data u" "gui_ok lo hi all_data (u\<lparr>right_cur := c\<rparr>) = gui_ok lo hi all_data u"
  "gui_ok lo hi all_data (u\<lparr>both_start := c\<rparr>) = gui_ok lo hi all_data u" "gui_ok lo hi all_data (u\<lparr>both_cur := c\<rparr>) = gui_ok lo hi all_data u"
  "gui_ok lo hi all_data (u\<lparr>top_start := c\<rparr>) = gui_ok lo hi all_data u" "gui_ok lo hi all_data (u\<lparr>top_cur := c\<rparr>) = gui_ok lo hi all_data u"
  "gui_ok lo hi all_data (u\<lparr>gui_width := w\<rparr>) = gui_ok lo hi all_data u" "gui_ok lo hi all_data (u\<lparr>gui_height := w\<rparr>) = gui_ok lo hi all_data u"
  "gui_ok lo hi all_data (u\<lparr>force_full_redraw := b\<rparr>) = gui_ok lo hi all_data u" "gui_ok lo hi all_data (u\<lparr>has_buffer := b\<rparr>) = gui_ok lo hi all_data u"
  "gui_ok lo hi all_data (u\<lparr>gui_colors := cs\<rparr>) = gui_ok lo hi all_data u" "gui_ok lo hi all_data (redraw u) = gui_ok lo hi all_data u"
  by (simp_all add: gui_ok_def redraw_def)

lemma keeps_case_prod [keeps_intros]: "(\<And>x y. keeps P (f x y)) \<Longrightarrow> keeps P (case p of (x, y) \<Rightarrow> f x y)"
  by (cases p) simp

lemma keeps_redraw: "keeps (gui_ok lo hi all_data) (modify redraw)"
  by (rule keeps_modify) simp

lemma keeps_select:
  assumes "is_num lo" "is_num hi"
  shows "keeps (gui_ok lo hi all_data) (select sc a b)"
  unfolding select_def by (intro keeps_intros keeps_redraw keeps_set_range assms)

lemma keeps_zoom:
  assumes "is_num lo" "is_num hi"
  shows "keeps (gui_ok lo hi all_data) (set_smaller_zoom sc)" "keeps (gui_ok lo hi all_data) (set_bigger_zoom sc)"
proof -
  have s: "keeps (gui_ok lo hi all_data) (on_graphic (set_range sc a b))" for a b
    by (intro keeps_on_graphic keeps_set_range assms)
  have "keeps (gui_ok lo hi all_data) (bindM (gets f) (\<lambda>w. on_graphic (set_range sc a (nadd a w))))" for f :: "gui \<Rightarrow> pynum result" and a
    by (intro keeps_bindM keeps_gets s)
  then have b: "keeps (gui_ok lo hi all_data) (\<lambda>u. bindM (gets (f u)) (\<lambda>w. on_graphic (set_range sc (a u) (nadd (a u) w))) u)"
    for f :: "gui \<Rightarrow> gui \<Rightarrow> pynum result" and a
    unfolding keeps_def by blast
  have c: "keeps (gui_ok lo hi all_data) (\<lambda>u. on_graphic (set_range sc (a u) (b u)) u)" for a b
    using s unfolding keeps_def by blast
  show "keeps (gui_ok lo hi all_data) (set_smaller_zoom sc)" "keeps (gui_ok lo hi all_data) (set_bigger_zoom sc)"
    unfolding set_smaller_zoom_def set_bigger_zoom_def get_window_def prod.case
    by (rule keeps_bindM [OF c keeps_redraw], rule keeps_bindM [OF b keeps_redraw])
qed

lemma keeps_press: "keeps (gui_ok lo hi all_data) (button_press x y)"
  unfolding button_press_def
  by (intro keeps_bindM keeps_gets) (auto simp: keeps_def split: prod.splits)

lemma keeps_from: "keeps P m \<Longrightarrow> P s \<Longrightarrow> P (fst (m s))"
  by (simp add: keeps_def)

lemma keeps_release:
  assumes "is_num lo" "is_num hi"
  shows "keeps (gui_ok lo hi all_data) (button_release sc)"
proof -
  have m: "keeps (gui_ok lo hi all_data) (bindM (gets f) (\<lambda>x. \<lambda>u. select sc (a x u) (b x u) u))" for f :: "gui \<Rightarrow> pynum result" and a b
  proof (rule keeps_bindM [OF keeps_gets])
    show "keeps (gui_ok lo hi all_data) (\<lambda>u. select sc (a x u) (b x u) u)" for x
      using keeps_select [OF assms] unfolding keeps_def by blast
  qed
  show ?thesis unfolding keeps_def button_release_def
    by (auto intro!: keeps_from [OF m])
qed

lemma keeps_queue: "keeps P (queue_draw_area y h)"
  by (simp add: queue_draw_area_def keeps_gets)

lemma keeps_if [keeps_intros]: "keeps P m \<Longrightarrow> keeps P n \<Longrightarrow> keeps P (if b then m else n)"
  by simp

lemma keeps_cond: "keeps P m \<Longrightarrow> keeps P n \<Longrightarrow> keeps P (\<lambda>u. if c u then m u else n u)"
  by (simp add: keeps_def)

lemma keeps_motion:
  assumes "is_num lo" "is_num hi"
  shows "keeps (gui_ok lo hi all_data) (motion_notify sc ex ey)"
proof -
  have q: "keeps (gui_ok lo hi all_data) (bindM (modify f) (\<lambda>_. bindM (queue_draw_area y h) (\<lambda>_. ret True)))"
    if "\<And>u. gui_ok lo hi all_data u \<Longrightarrow> gui_ok lo hi all_data (f u)" for f y h
    by (intro keeps_bindM keeps_modify keeps_queue keeps_ret that)
  have "keeps (gui_ok lo hi all_data) (on_graphic (set_range sc a b))" for a b
    by (intro keeps_on_graphic keeps_set_range assms)
  then have s: "keeps (gui_ok lo hi all_data) (\<lambda>u. on_graphic (set_range sc (a u) (b u)) u)" for a b
    unfolding keeps_def by blast
  have top: "keeps (gui_ok lo hi all_data) (bindM (modify (\<lambda>u. u\<lparr>top_cur := Some ex\<rparr>)) (\<lambda>_.
       bindM (gets (\<lambda>u. bindR (attr (top_start u)) (\<lambda>s. scale_data (gui_graphic u) (nsub s ex)))) (\<lambda>delta.
       bindM (\<lambda>u. on_graphic (set_range sc (nadd (r_start (gui_graphic u)) delta) (nadd (r_end (gui_graphic u)) delta)) u) (\<lambda>_.
       bindM (modify (\<lambda>u. (redraw u)\<lparr>top_start := Some ex\<rparr>)) (\<lambda>_. ret True)))))"
    by (intro keeps_bindM keeps_modify keeps_gets keeps_ret s) simp_all
  have right: "keeps (gui_ok lo hi all_data) (bindM (gets (\<lambda>u. attr (gui_width u))) (\<lambda>w.
       bindM (modify (\<lambda>u. if nle (I w) ex then u\<lparr>moving_right := (w \<noteq> 0)\<rparr> else u\<lparr>right_cur := Some (if nlt ex x then x else ex)\<rparr>))
         (\<lambda>_. bindM (queue_draw_area y h) (\<lambda>_. ret True))))" for x y h
    by (intro keeps_bindM keeps_gets keeps_modify keeps_queue keeps_ret) simp
  have both: "keeps (gui_ok lo hi all_data) (bindM (gets (\<lambda>u. bindR (attr (gui_width u)) (\<lambda>w. bindR (attr (both_start u)) (\<lambda>s. Inr (w, s))))) (\<lambda>(w, s).
         let cur_e = nsub (I w) (nsub (nadd x width) s); cur_s = nsub s x in
       bindM (modify (\<lambda>u. u\<lparr>both_cur := Some (if nlt ex cur_s then cur_s else if nlt cur_e ex then cur_e else ex)\<rparr>))
         (\<lambda>_. bindM (queue_draw_area y h) (\<lambda>_. ret True))))" for x width y h
    unfolding Let_def by (intro keeps_bindM keeps_gets keeps_case_prod keeps_modify keeps_queue keeps_ret) simp
  have left: "keeps (gui_ok lo hi all_data) (bindM (modify (\<lambda>u. u\<lparr>left_cur := Some c\<rparr>)) (\<lambda>_. bindM (queue_draw_area y h) (\<lambda>_. ret True)))" for c y h
    by (rule q) simp
  show ?thesis
    unfolding motion_notify_def
    by (intro keeps_bindM [OF keeps_gets] keeps_case_prod keeps_cond left right both top) (simp add: keeps_def)
qed

lemma keeps_allocate: "keeps (gui_ok lo hi all_data) (size_allocate sc w h)"
  unfolding size_allocate_def
  by (intro keeps_bindM keeps_modify keeps_on_graphic keeps_layout keeps_redraw) simp

lemma keeps_expose: "keeps (gui_ok lo hi all_data) (expose sc)"
proof -
  have d: "keeps (gui_ok lo hi all_data) (bindM (modify (\<lambda>u. u\<lparr>has_buffer := True\<rparr>)) (\<lambda>_.
         bindM (gets (\<lambda>u. graphic_draw sc (gui_graphic u) (gui_colors u))) (\<lambda>(legend, rows, mid, bot).
         modify (\<lambda>u. u\<lparr>force_full_redraw := False, gui_colors := paint_colors rows\<rparr>))))"
    by (intro keeps_bindM keeps_modify keeps_gets keeps_case_prod) simp_all
  then have "keeps (gui_ok lo hi all_data) (\<lambda>u. if force_full_redraw u then bindM (modify (\<lambda>u. u\<lparr>has_buffer := True\<rparr>)) (\<lambda>_.
         bindM (gets (\<lambda>u. graphic_draw sc (gui_graphic u) (gui_colors u))) (\<lambda>(legend, rows, mid, bot).
         modify (\<lambda>u. u\<lparr>force_full_redraw := False, gui_colors := paint_colors rows\<rparr>))) u else ret () u)"
    by (simp add: keeps_def ret_def)
  then show ?thesis unfolding expose_def by (intro keeps_bindM keeps_gets keeps_ret)
qed

lemma gui_ok_handle:
  assumes "is_num lo" "is_num hi" "gui_ok lo hi all_data u"
  shows "gui_ok lo hi all_data (handle sc i u)"
  by (cases i)
    (simp_all add: keeps_from [OF keeps_press assms(3)] keeps_from [OF keeps_release [OF assms(1,2)] assms(3)]
      keeps_from [OF keeps_motion [OF assms(1,2)] assms(3)] keeps_from [OF keeps_allocate assms(3)]
      keeps_from [OF keeps_expose assms(3)] keeps_from [OF keeps_zoom(1) [OF assms(1,2)] assms(3)]
      keeps_from [OF keeps_zoom(2) [OF assms(1,2)] assms(3)])

inductive_cases gui_stepE: "gui_step sc u v"

lemma is_num_float: "is_num (F (float_of_int n))"
  by (simp add: is_num_def float_of_int_def to_float_def Let_def)

lemma grid_main_ok:
  assumes "grid_main ext order lines = Inr (sc, u)" "read_data lines = Inr (cs, ts)"
  shows "gui_ok (F (float_of_int (fst (get_bounds ts)))) (F (float_of_int (snd (get_bounds ts)))) (I (fst (get_bounds ts)), I (snd (get_bounds ts))) u"
proof -
  obtain lo hi where b: "get_bounds ts = (lo, hi)" by fastforce
  obtain sc a c cs' where u: "GtkGraphicRenderer (fst (set_range sc (I a) (I c) (GraphicRenderer lo hi))) cs' = u"
    using assms by (auto simp: grid_main_def b bindR_eq_Inr Let_def case_prod_beta)
  show ?thesis
    using set_range_window [of "GraphicRenderer lo hi" sc "I a" "I c"]
    by (simp add: u [symmetric] b gui_ok_def GtkGraphicRenderer_def GraphicRenderer_def new_scale_def is_num_float)
qed

text \<open>The window that a range gives is what the range and the data have in common; where they have
  nothing in common it ends before it starts.\<close>

lemma set_range_exact:
  "r_start (fst (set_range sc a b g)) = nmax (gr_start g) (nmin a b)" "r_end (fst (set_range sc a b g)) = nmin (gr_end g) (nmax a b)"
proof -
  have k: "keeps (\<lambda>g. r_start g = s \<and> r_end g = e) (graphic_layout sc w h)" for w h s e
    unfolding graphic_layout_def on_mid_def on_bot_def
    by (intro keeps_bindM keeps_modify) (auto simp: keeps_def split: prod.splits)
  show "r_start (fst (set_range sc a b g)) = nmax (gr_start g) (nmin a b)" "r_end (fst (set_range sc a b g)) = nmin (gr_end g) (nmax a b)"
    using keeps_from [OF k] by (simp_all add: set_range_def bindM_def modify_def Let_def)
qed

lemma turned_iff:
  assumes "nle lo hi" "is_num a" "is_num b"
  shows "nlt (nmin hi (nmax a b)) (nmax lo (nmin a b)) \<longleftrightarrow> nlt (nmax a b) lo \<or> nlt hi (nmin a b)"
proof -
  have ab: "nle (nmin a b) (nmax a b)" "is_num (nmin a b)" "is_num (nmax a b)"
    using assms(2,3) by (auto simp: nmin_def nmax_def nle_refl nlt_imp_nle)
  have "is_num lo" "is_num hi"
    using assms(1) by (cases "exact lo"; cases "exact hi"; auto simp: nle_def fle_def feq_def is_num_def)+
  then show ?thesis
    using ab assms(1) unfolding nmin_def [of hi] nmax_def [of lo]
    by (simp add: nlt_def nle_def is_num_def)
      (smt (verit) flt_trans fle_trans flt_linear flt_num fle_def)
qed

lemma bounds_around_0: "fst (get_bounds ts) \<le> 0 \<and> 0 \<le> snd (get_bounds ts)"
proof -
  have "fst acc \<le> 0 \<and> 0 \<le> snd acc \<Longrightarrow> fst (fold widen bs acc) \<le> 0 \<and> 0 \<le> snd (fold widen bs acc)" for bs acc
    by (induction bs arbitrary: acc) (auto simp: widen_def split: prod.splits)
  then show ?thesis by (simp add: get_bounds_def)
qed

lemma bounds_ordered: "nle (F (float_of_int (fst (get_bounds ts)))) (F (float_of_int (snd (get_bounds ts))))"
proof -
  have "\<not> huge \<le> 0" by (simp add: huge_def)
  then have "float_of_int n = PInf \<or> (\<exists>q \<ge> 0. float_of_int n = Fin q)" if "0 \<le> n" for n
    using rnd_mono [of 0 "of_int n"] that by (auto simp: float_of_int_def to_float_def Let_def)
  moreover from \<open>\<not> huge \<le> 0\<close> have "float_of_int n = NInf \<or> (\<exists>q \<le> 0. float_of_int n = Fin q)" if "n \<le> 0" for n
    using rnd_mono [of "of_int n" 0] that by (auto simp: float_of_int_def to_float_def Let_def)
  ultimately show ?thesis using bounds_around_0 [of ts] by (fastforce simp: nle_def fle_def feq_def)
qed


definition drag_left :: "gui_input list" where
  "drag_left = [Allocate 1036 300, Press (I 900) (I 60), Motion (I (- 9000)) (I 60)]"

lemma steps_fold: "(gui_step sc)\<^sup>*\<^sup>* u (fold (handle sc) is u)"
proof (induction "is" arbitrary: u)
  case (Cons i "is")
  show ?case using converse_rtranclp_into_rtranclp [of "gui_step sc" u, OF gui_step.gui_input Cons] by simp
qed simp


lemma drag_window:
  assumes "moving_top u" "\<not> moving_left u" "\<not> moving_right u" "\<not> moving_both u" "top_start u = Some s"
    and "get_selection_rectangle (gui_graphic u) = Inr r" "scale_data (gui_graphic u) (nsub s x) = Inr delta"
    and "r_start (gui_graphic u) = a" "r_end (gui_graphic u) = b"
  shows "gui_graphic (handle sc (Motion x y) u) = fst (set_range sc (nadd a delta) (nadd b delta) (gui_graphic u))"
  using assms
  by (cases r) (auto simp: motion_notify_def bindM_def gets_def modify_def ret_def attr_def on_graphic_def redraw_def split: prod.splits sum.splits)

text \<open>The user's own mouse can do it: the timelines are dragged until the window lies behind the data.\<close>

lemma drag_turns_window:
  "nlt (r_end (gui_graphic (fold (handle demo_scene) drag_left demo_gui))) (r_start (gui_graphic (fold (handle demo_scene) drag_left demo_gui)))"
proof -
  define u where "u = fold (handle demo_scene) [Allocate 1036 300, Press (I 900) (I 60)] demo_gui"
  have m: "moving_top u" "\<not> moving_left u" "\<not> moving_right u" "\<not> moving_both u" "top_start u = Some (I 900)"
    "r_start (gui_graphic u) = I 450" "r_end (gui_graphic u) = I 550" "gr_start (gui_graphic u) = F (Fin 0)" "gr_end (gui_graphic u) = F (Fin 1000)"
    unfolding u_def by code_simp+
  have d: "scale_data (gui_graphic u) (nsub (I 900) (I (- 9000))) = Inr (I 900)" unfolding u_def by code_simp
  have "isl (get_selection_rectangle (gui_graphic u)) = False" unfolding u_def by code_simp
  then obtain r where r: "get_selection_rectangle (gui_graphic u) = Inr r" by (cases "get_selection_rectangle (gui_graphic u)") auto
  have "fold (handle demo_scene) drag_left demo_gui = handle demo_scene (Motion (I (- 9000)) (I 60)) u" by (simp add: drag_left_def u_def)
  moreover have "nlt (nmin (F (Fin 1000)) (nmax (nadd (I 450) (I 900)) (nadd (I 550) (I 900))))
      (nmax (F (Fin 0)) (nmin (nadd (I 450) (I 900)) (nadd (I 550) (I 900))))" by code_simp
  ultimately show ?thesis using drag_window [OF m(1-5) r d m(6,7), of demo_scene "I 60"] m(8,9) by (auto simp: set_range_exact)
qed

subsection \<open>Edges\<close>

lemma press_edge:
  assumes "button_press x y u = (u1, Inr True)" "\<not> moving_left u" "\<not> moving_right u" "moving_left u1 \<or> moving_right u1"
  shows "u1 = u\<lparr>moving_left := True\<rparr> \<or> u1 = u\<lparr>moving_right := True\<rparr>"
  using assms unfolding button_press_def bindM_def gets_def
  by (auto split: prod.splits sum.splits if_splits)

text \<open>The positions of the edges of the selection are only assigned while the mouse moves over the
  widget: as long as there has been no drag, an edge that is clicked and let go raises an
  AttributeError and the window stays as it is, and so does a right edge that is dragged over the
  right border.\<close>

theorem edge_drag_errors:
  assumes "left_cur u = None" "right_cur u = None" "\<not> moving_left u" "\<not> moving_right u"
    and "button_press x y u = (u1, Inr True)" "moving_left u1 \<or> moving_right u1"
  shows "snd (button_release sc u1) = Inl AttributeError \<and> gui_graphic (fst (button_release sc u1)) = gui_graphic u
    \<and> (moving_right u1 \<and> gui_width u = Some w \<and> 0 < w \<and> nle (I w) ex \<longrightarrow>
        snd (button_release sc (fst (motion_notify sc ex ey u1))) = Inl AttributeError
        \<and> gui_graphic (fst (button_release sc (fst (motion_notify sc ex ey u1)))) = gui_graphic u)"
proof -
  have rel: "snd (button_release sc v) = Inl AttributeError \<and> gui_graphic (fst (button_release sc v)) = gui_graphic v"
    if "moving_left v \<and> left_cur v = None \<or> \<not> moving_left v \<and> moving_right v \<and> right_cur v = None" for v
    using that by (auto simp: button_release_def bindM_def gets_def attr_def)
  consider "u1 = u\<lparr>moving_left := True\<rparr>" | "u1 = u\<lparr>moving_right := True\<rparr>" using press_edge assms by blast
  then show ?thesis
  proof cases
    case 1
    then show ?thesis using rel [of u1] assms by simp
  next
    case 2
    have "gui_graphic (fst (motion_notify sc ex ey u1)) = gui_graphic u \<and> \<not> moving_left (fst (motion_notify sc ex ey u1))
        \<and> moving_right (fst (motion_notify sc ex ey u1)) \<and> right_cur (fst (motion_notify sc ex ey u1)) = None"
      if "gui_width u = Some w" "0 < w" "nle (I w) ex"
      using assms(1-4) that
      by (auto simp: 2 motion_notify_def bindM_def gets_def modify_def ret_def attr_def queue_draw_area_def split: sum.splits)
    then show ?thesis using rel [of u1] rel [of "fst (motion_notify sc ex ey u1)"] assms(1-4) 2 by simp
  qed
qed

theorem edge_drag_errors_witness:
  "snd (button_release demo_scene (fst (button_press (I 1) (I 160) demo_gui))) = Inl AttributeError"
proof -
  have p: "snd (button_press (I 1) (I 160) demo_gui) = Inr True" "moving_left (fst (button_press (I 1) (I 160) demo_gui))"
    by code_simp+
  have "left_cur demo_gui = None" "right_cur demo_gui = None" "\<not> moving_left demo_gui" "\<not> moving_right demo_gui"
    by (simp_all add: demo_gui_def GtkGraphicRenderer_def)
  then show ?thesis using edge_drag_errors [of demo_gui "I 1" "I 160" "fst (button_press (I 1) (I 160) demo_gui)"] p
    by (metis prod.collapse)
qed

subsection \<open>Scales of integers\<close>

lemma closest_loop_power:
  "\<exists>k \<ge> j. closest_loop w (10 ^ j) = 10 ^ k \<and> w \<le> 10 ^ Suc k \<and> (k = j \<or> 10 ^ k < w)"
proof (induction w "10 ^ j :: int" arbitrary: j rule: closest_loop.induct)
  case (1 w)
  have step: "closest_loop w (10 ^ j) = (if of_int (10 ^ Suc j) < w then closest_loop w (10 ^ Suc j) else 10 ^ j)"
    by (subst closest_loop.simps) (simp add: mult.commute)
  show ?case
  proof (cases "of_int (10 ^ Suc j) < w")
    case True
    then obtain k where "k \<ge> Suc j" "closest_loop w (10 ^ Suc j) = 10 ^ k" "w \<le> 10 ^ Suc k" "k = Suc j \<or> 10 ^ k < w"
      using 1 [of "Suc j"] by (auto simp: mult.commute)
    then show ?thesis using True by (intro exI [of _ k]) (auto simp: step)
  next
    case False
    then show ?thesis by (intro exI [of _ j]) (simp add: step)
  qed
qed

lemma closest_power_int:
  obtains k where "closest_power (I d) = 10 ^ k" "d \<le> 10 * 10 ^ k" "k = 0 \<or> 10 ^ k < d"
proof -
  obtain k where k: "closest_loop (of_int d) 1 = 10 ^ k" "(of_int d :: rat) \<le> 10 ^ Suc k" "k = 0 \<or> 10 ^ k < (of_int d :: rat)"
    using closest_loop_power [of 0 "of_int d"] by auto
  have "(of_int d :: rat) \<le> of_int (10 * 10 ^ k)" using k(2) by simp
  then have "d \<le> 10 * 10 ^ k" by (simp only: of_int_le_iff)
  moreover have "(of_int (10 ^ k) :: rat) < of_int d" if "k \<noteq> 0" using k(3) that by simp
  then have "k = 0 \<or> 10 ^ k < d" by (auto simp only: of_int_less_iff)
  ultimately show thesis using that [of k] k(1) by (simp add: closest_power_def)
qed

lemma scale_delta_int:
  assumes "lo < hi"
  shows "\<exists>delta. scale_delta (I lo) (I hi) = Inr delta \<and> (hi - lo = 1 \<longrightarrow> delta = 0)
    \<and> (hi - lo \<noteq> 1 \<longrightarrow> 0 < delta \<and> 2 * delta \<le> hi - lo \<and> hi - lo < 20 * delta)"
proof -
  define d where "d = hi - lo"
  have d: "0 < d" using assms by (simp add: d_def)
  obtain k where k: "closest_power (I d) = 10 ^ k" "d \<le> 10 * 10 ^ k" "k = 0 \<or> 10 ^ k < d" by (rule closest_power_int)
  define c :: int where "c = 10 ^ k"
  have c: "0 < c" "c \<le> d" "d \<le> 10 * c" using k d by (auto simp: c_def)
  have q: "scale_delta (I lo) (I hi) = Inr (if d div c = 1 then c div 10 else c)"
    using c by (auto simp: scale_delta_def Let_def num_ints d_def [symmetric] k(1) c_def [symmetric] div_eq_0_iff)
  have split: "d = c * (d div c) + d mod c" "0 \<le> d mod c" "d mod c < c" using c by simp_all
  show ?thesis
  proof (cases k)
    case 0
    then have "c = 1" by (simp add: c_def)
    then show ?thesis using q c d by (auto simp: d_def)
  next
    case (Suc j)
    define e :: int where "e = 10 ^ j"
    have e: "c = 10 * e" "0 < e" by (simp_all add: c_def Suc e_def)
    have "d \<noteq> 1" using c e by linarith
    show ?thesis
    proof (cases "d div c = 1")
      case True
      then show ?thesis using q e split \<open>d \<noteq> 1\<close> by (auto simp: d_def [symmetric])
    next
      case False
      have "1 \<le> d div c" using c by (simp add: pos_imp_zdiv_pos_iff int_one_le_iff_zero_less)
      then have "2 \<le> d div c" using False by linarith
      then have "c * 2 \<le> c * (d div c)" using c by simp
      then have "2 * c \<le> d" using split by linarith
      then show ?thesis using q c False \<open>d \<noteq> 1\<close> by (auto simp: d_def [symmetric])
    qed
  qed
qed

lemma multiples_between:
  assumes "0 < (d :: int)"
  shows "{x. lo < x \<and> x \<le> hi \<and> d dvd x} = (\<lambda>k. k * d) ` {lo div d <.. hi div d}"
proof (intro set_eqI iffI)
  fix x assume "x \<in> {x. lo < x \<and> x \<le> hi \<and> d dvd x}"
  then obtain k where k: "x = k * d" "lo < k * d" "k * d \<le> hi" by (auto simp: dvd_def mult.commute)
  have "k \<le> hi div d" using k(3) assms by (simp add: zdiv_mono1 [of "k * d" hi d, simplified])
  moreover have "lo div d < k"
  proof (rule ccontr)
    assume "\<not> lo div d < k"
    then have "k * d \<le> lo div d * d" using assms by simp
    moreover have "lo = lo div d * d + lo mod d" "0 \<le> lo mod d" using assms by simp_all
    ultimately show False using k(2) by linarith
  qed
  ultimately show "x \<in> (\<lambda>k. k * d) ` {lo div d <.. hi div d}" using k(1) by auto
next
  fix x assume "x \<in> (\<lambda>k. k * d) ` {lo div d <.. hi div d}"
  then obtain k where k1: "x = k * d" and "k \<in> {lo div d <.. hi div d}" by (rule imageE)
  then have k: "x = k * d" "lo div d < k" "k \<le> hi div d" by simp_all
  have "lo = lo div d * d + lo mod d" "lo mod d < d" using assms by simp_all
  moreover have "(lo div d + 1) * d \<le> k * d" using k(2) assms by simp
  moreover have "(lo div d + 1) * d = lo div d * d + d" by (simp add: distrib_right)
  ultimately have lt: "lo < x" using k(1) by linarith
  have "k * d \<le> hi div d * d" using k(3) assms by simp
  moreover have "hi = hi div d * d + hi mod d" "0 \<le> hi mod d" using assms by simp_all
  ultimately have "x \<le> hi" using k(1) by linarith
  then show "x \<in> {x. lo < x \<and> x \<le> hi \<and> d dvd x}" using k(1) lt by simp
qed

lemma scale_marks_int:
  assumes "0 < d"
  shows "scale_marks (I lo) (I hi) d = Inr (map (\<lambda>k. (lo div d + 1 + int k) * d) [0..<nat (hi div d - lo div d)])"
proof -
  have a: "lo - lo mod d + d = (lo div d + 1) * d" by (simp add: minus_mod_eq_mult_div algebra_simps)
  have b: "hi - hi mod d = hi div d * d" by (simp add: minus_mod_eq_div_mult)
  have n: "(hi div d * d + d - (lo div d + 1) * d + d - 1) div d = hi div d - lo div d"
  proof -
    have "hi div d * d + d - (lo div d + 1) * d + d - 1 = (d - 1) + (hi div d - lo div d) * d" by (simp add: algebra_simps)
    moreover have "(d - 1 + q * d) div d = q" for q using assms by simp
    ultimately show ?thesis by (simp only:)
  qed
  have "(lo div d + 1) * d + int k * d = (lo div d + 1 + int k) * d" for k by (simp only: distrib_right)
  then have r: "int_range ((lo div d + 1) * d) (hi div d * d + d) d = Inr (map (\<lambda>k. (lo div d + 1 + int k) * d) [0..<nat (hi div d - lo div d)])"
    using assms by (simp only: int_range_def n) simp
  show ?thesis using assms
    by (simp add: scale_marks_def tick_bounds_def num_ints del: distrib_right_numeral) (simp only: a b r)
qed

text \<open>On integer bounds the marks of a scale are exactly the multiples of the step after the lower and
  up to the upper bound, in order, and there are between 2 and 20 of them; but for bounds that differ
  by 1 the step is 0 and the layout raises a ZeroDivisionError.\<close>

theorem scale_ticks:
  assumes "lo < hi"
  shows "if hi - lo = 1 then snd (scale_layout ext w (new_scale b (I lo) (I hi))) = Inl ZeroDivisionError
    else \<exists>delta xs. scale_delta (I lo) (I hi) = Inr delta \<and> scale_marks (I lo) (I hi) delta = Inr xs \<and> sorted_wrt (<) xs
      \<and> set xs = {x. lo < x \<and> x \<le> hi \<and> delta dvd x} \<and> 2 \<le> length xs \<and> length xs \<le> 20
      \<and> snd (scale_layout ext w (new_scale b (I lo) (I hi))) = Inr ()"
proof -
  obtain delta where delta: "scale_delta (I lo) (I hi) = Inr delta" "hi - lo = 1 \<longrightarrow> delta = 0"
    "hi - lo \<noteq> 1 \<longrightarrow> 0 < delta \<and> 2 * delta \<le> hi - lo \<and> hi - lo < 20 * delta"
    using scale_delta_int [OF assms] by blast
  show ?thesis
  proof (cases "hi - lo = 1")
    case True
    then show ?thesis using delta by (simp add: scale_layout_def bindM_def gets_def new_scale_def tick_bounds_def)
  next
    case False
    then have d: "0 < delta" "2 * delta \<le> hi - lo" "hi - lo < 20 * delta" using delta by simp_all
    define n where "n = hi div delta - lo div delta"
    define xs where "xs = map (\<lambda>k. (lo div delta + 1 + int k) * delta) [0..<nat n]"
    have m: "scale_marks (I lo) (I hi) delta = Inr xs" using scale_marks_int [OF d(1)] by (simp add: xs_def n_def)
    have eqs: "lo = delta * (lo div delta) + lo mod delta" "hi = delta * (hi div delta) + hi mod delta"
      "0 \<le> lo mod delta" "lo mod delta < delta" "0 \<le> hi mod delta" "hi mod delta < delta" using d(1) by simp_all
    then have "delta * n = (hi - lo) - (hi mod delta - lo mod delta)" by (simp add: n_def algebra_simps)
    then have "delta * 1 < delta * n" "delta * n < delta * 21" using eqs d by linarith+
    then have n: "2 \<le> n" "n \<le> 20" using d(1) by (simp_all only: mult_less_cancel_left_pos)
    have "set xs = (\<lambda>k. k * delta) ` {lo div delta <.. hi div delta}"
    proof -
      have "(\<lambda>k. lo div delta + 1 + int k) ` {0..<nat n} = {lo div delta <.. hi div delta}"
      proof (intro set_eqI iffI)
        fix y assume "y \<in> {lo div delta <.. hi div delta}"
        then show "y \<in> (\<lambda>k. lo div delta + 1 + int k) ` {0..<nat n}"
          by (intro image_eqI [of _ _ "nat (y - lo div delta - 1)"]) (auto simp: n_def)
      qed (auto simp: n_def)
      moreover have "set xs = (\<lambda>k. k * delta) ` (\<lambda>k. lo div delta + 1 + int k) ` {0..<nat n}"
        by (simp add: xs_def image_image)
      ultimately show ?thesis by (simp only:)
    qed
    then have "set xs = {x. lo < x \<and> x \<le> hi \<and> delta dvd x}" using multiples_between [OF d(1)] by simp
    moreover have "sorted_wrt (<) xs"
      unfolding xs_def sorted_wrt_map using d(1) by (intro sorted_wrt_mono_rel [OF _ sorted_wrt_upt]) simp
    moreover have "2 \<le> length xs" "length xs \<le> 20" using n by (simp_all add: xs_def)
    moreover have "snd (scale_layout ext w (new_scale b (I lo) (I hi))) = Inr ()"
      using d(1) delta(1) by (simp add: scale_layout_def bindM_def gets_def modify_def new_scale_def tick_bounds_def)
    ultimately show ?thesis using False delta(1) m by auto
  qed
qed

theorem scale_ticks_witness:
  "snd (scale_layout demo_ext (I 1) (new_scale False (I 0) (I 1))) = Inl ZeroDivisionError
   \<and> (\<exists>delta xs. scale_delta (I 3) (I 20) = Inr delta \<and> scale_marks (I 3) (I 20) delta = Inr xs \<and> length xs \<le> 20)"
  using scale_ticks [of 0 1 demo_ext "I 1" False] scale_ticks [of 3 20 demo_ext "I 1" False] by auto

subsection \<open>Marks and labels\<close>

lemma foldR_inv:
  assumes "\<And>x s s'. x \<in> set xs \<Longrightarrow> P s \<Longrightarrow> f x s = Inr s' \<Longrightarrow> P s'"
  shows "P s \<Longrightarrow> foldR f xs s = Inr s' \<Longrightarrow> P s'"
  using assms by (induction xs arbitrary: s) (auto simp: bindR_eq_Inr)

text \<open>The labels of events stand more than two pixels apart, each at the pixel of its event, which is
  in the window; the boxes of ranges end further and further to the right.\<close>

theorem drawn_apart:
  assumes "draw_events x width start stop ev = Inr drawn" "draw_ranges x width start stop rs cs = Inr (boxes, cs')"
  shows "sorted_wrt (\<lambda>a b. fst a + 2 < fst b) drawn
    \<and> (\<forall>(p, e) \<in> set drawn. e \<in> set (get_events ev start stop) \<and> to_pixel x width start stop (I (event_at e)) = Inr p)
    \<and> sorted_wrt (\<lambda>a b. fst (snd a) < fst (snd b)) boxes"
proof -
  define P where "P = (\<lambda>(last_x, drawn). sorted_wrt (\<lambda>a b. fst a + 2 < fst b) drawn \<and> (\<forall>q \<in> set drawn. fst q \<le> last_x
      \<and> snd q \<in> set (get_events ev start stop) \<and> to_pixel x width start stop (I (event_at (snd q))) = Inr (fst q)))"
  define Q where "Q = (\<lambda>(last_x, boxes :: range_box list, cs :: colors). sorted_wrt (\<lambda>a b. fst (snd a) < fst (snd b)) boxes
      \<and> (\<forall>q \<in> set boxes. fst (snd q) \<le> last_x))"
  have slice: "slice (ev_events ev) (get_events_bounds ev start stop) = get_events ev start stop"
    by (simp add: get_events_def get_events_bounds_def)
  obtain x0 l where e: "foldR (draw_event_step x width start stop) (get_events ev start stop) (x0, []) = Inr (l, drawn)"
    using assms(1) by (auto simp: draw_events_def bindR_eq_Inr slice)
  have "P (l, drawn)"
    by (rule foldR_inv [OF _ _ e]) (fastforce simp: P_def draw_event_step_def bindR_eq_Inr sorted_wrt_append split: if_splits prod.splits)+
  moreover obtain x1 l' where r: "foldR (draw_range_step x width start stop) (slice (rng_ranges rs) (get_ranges_bounds rs start stop))
      (x1, [], cs) = Inr (l', boxes, cs')"
    using assms(2) by (auto simp: draw_ranges_def bindR_eq_Inr)
  have "Q (l', boxes, cs')"
    by (rule foldR_inv [OF _ _ r]) (fastforce simp: Q_def draw_range_step_def Let_def bindR_eq_Inr sorted_wrt_append split: if_splits prod.splits)+
  ultimately show ?thesis by (auto simp: P_def Q_def)
qed

theorem drawn_apart_witness:
  "\<exists>drawn boxes cs. draw_events (I 0) (I 100) (I 0) (I 10) \<lparr>ev_name = ''e'', ev_events = [EventInt 1 5, EventInt 1 6, EventInt 7 0]\<rparr> = Inr drawn
    \<and> draw_ranges (I 0) (I 100) (I 0) (I 10) \<lparr>rng_name = ''s'', rng_ranges = [\<lparr>dr_start = 0, dr_end = 4, dr_value = ''v''\<rparr>]\<rparr> Colors = Inr (boxes, cs)
    \<and> sorted_wrt (\<lambda>a b. fst a + 2 < fst b) drawn"
proof -
  have e: "draw_events (I 0) (I 100) (I 0) (I 10) \<lparr>ev_name = ''e'', ev_events = [EventInt 1 5, EventInt 1 6, EventInt 7 0]\<rparr>
      = Inr [(10, EventInt 1 5), (70, EventInt 7 0)]" by code_simp
  have "isl (draw_ranges (I 0) (I 100) (I 0) (I 10) \<lparr>rng_name = ''s'', rng_ranges = [\<lparr>dr_start = 0, dr_end = 4, dr_value = ''v''\<rparr>]\<rparr> Colors) = False"
    by code_simp
  then obtain boxes cs where r: "draw_ranges (I 0) (I 100) (I 0) (I 10) \<lparr>rng_name = ''s'', rng_ranges = [\<lparr>dr_start = 0, dr_end = 4, dr_value = ''v''\<rparr>]\<rparr> Colors
      = Inr (boxes, cs)" by (cases "draw_ranges (I 0) (I 100) (I 0) (I 10) \<lparr>rng_name = ''s'', rng_ranges = [\<lparr>dr_start = 0, dr_end = 4, dr_value = ''v''\<rparr>]\<rparr> Colors") auto
  show ?thesis using drawn_apart [OF e r] e r by blast
qed

end
