(* ===== verification/XmlTree.thy ===== *)
theory XmlTree
  imports Prelude
begin

text \<open>
  The trees of xml.etree.ElementTree, as test.py and flowmon-parse-results.py use them: an element has a
  tag, attributes, its text (\<open>None\<close> when it is empty) and its children. Parsing the file is the library's.
\<close>

datatype xml = Elem (etag: string) (eattrs: "(string, string) dict") (etext: "string option") (ekids: "xml list")

definition findall :: "string \<Rightarrow> xml \<Rightarrow> xml list" where
  "findall t x = filter (\<lambda>k. etag k = t) (ekids x)"

definition find :: "string \<Rightarrow> xml \<Rightarrow> xml option" where
  "find t x = List.find (\<lambda>k. etag k = t) (ekids x)"

text \<open>\<open>x.findall('a/b')\<close>.\<close>

definition findall2 :: "string \<Rightarrow> string \<Rightarrow> xml \<Rightarrow> xml list" where
  "findall2 s t x = concat (map (findall t) (findall s x))"

definition xget :: "xml \<Rightarrow> string \<Rightarrow> string option" where
  "xget x a = dget (eattrs x) a"

text \<open>\<open>x.find(t).text\<close>: an AttributeError when there is no such child.\<close>

definition text_of :: "string \<Rightarrow> xml \<Rightarrow> string option result" where
  "text_of t x = (case find t x of None \<Rightarrow> Inl AttributeError | Some k \<Rightarrow> Inr (etext k))"

text \<open>\<open>'%s' % v\<close> for a text or \<open>None\<close>.\<close>

definition shown_text :: "string option \<Rightarrow> string" where
  "shown_text v = (case v of None \<Rightarrow> ''None'' | Some s \<Rightarrow> s)"

lemma size_xml_kids: "k \<in> set (ekids x) \<Longrightarrow> size k < size x"
  by (cases x) (auto dest: size_list_estimation' [of _ _ "size k" size])

lemma findall_size: "k \<in> set (findall t x) \<Longrightarrow> size k < size x"
  by (simp add: findall_def size_xml_kids)

end
