(* ===== verification/FlowMon.thy ===== *)
theory FlowMon
  imports XmlTree PyFloatProps
begin

text \<open>
  src/flow-monitor/examples/flowmon-parse-results.py: the statistics of the flows of a simulation from
  the xml file of the flow monitor, with the duration, bit rate, delay and loss of each flow. The program
  is Python 2 with true division. \<open>flow_map\<close> refers to the objects in \<open>flows\<close>: here it has their indices.
  Python 2 reads numbers without underscores, and \<open>long\<close> allows an L at the end.
\<close>

definition int2 :: "string option \<Rightarrow> int result" where
  "int2 v = (case v of None \<Rightarrow> Inl TypeError
     | Some s \<Rightarrow> if CHR ''_'' \<in> set s then Inl ValueError else (case py_int s of None \<Rightarrow> Inl ValueError | Some n \<Rightarrow> Inr n))"

definition long2 :: "string option \<Rightarrow> int result" where
  "long2 v = (case v of None \<Rightarrow> Inl TypeError
     | Some s \<Rightarrow> (let t = rstrip s in
         int2 (Some (if t \<noteq> [] \<and> last t \<in> {CHR ''L'', CHR ''l''} \<and> length t > 1 \<and> is_digit (last (butlast t)) then butlast t else s))))"

definition float2 :: "string option \<Rightarrow> pyfloat result" where
  "float2 v = (case v of None \<Rightarrow> Inl TypeError
     | Some s \<Rightarrow> if CHR ''_'' \<in> set s then Inl ValueError else (case py_float s of None \<Rightarrow> Inl ValueError | Some x \<Rightarrow> Inr x))"

text \<open>\<open>v[:-4]\<close>.\<close>

definition cut4 :: "string option \<Rightarrow> string option result" where
  "cut4 v = (case v of None \<Rightarrow> Inl TypeError | Some s \<Rightarrow> Inr (Some (take (length s - 4) s)))"

definition parse_time_ns :: "string option \<Rightarrow> int result" where
  "parse_time_ns tm = (case tm of None \<Rightarrow> Inl AttributeError
     | Some s \<Rightarrow> if endswith s ''ns'' then bindR (cut4 (Some s)) long2 else Inl ValueError)"

record five_tuple =
  sourceAddress :: "string option"
  destinationAddress :: "string option"
  sourcePort :: int
  destinationPort :: int
  protocol :: int

definition FiveTuple :: "xml \<Rightarrow> five_tuple result" where
  "FiveTuple el = bindR (int2 (xget el ''sourcePort'')) (\<lambda>sp. bindR (int2 (xget el ''destinationPort'')) (\<lambda>dp.
     bindR (int2 (xget el ''protocol'')) (\<lambda>p.
       Inr \<lparr>sourceAddress = xget el ''sourceAddress'', destinationAddress = xget el ''destinationAddress'',
         sourcePort = sp, destinationPort = dp, protocol = p\<rparr>)))"

definition Histogram :: "xml \<Rightarrow> (pyfloat \<times> pyfloat \<times> int) list result" where
  "Histogram el = mapR (\<lambda>b. bindR (float2 (xget b ''start'')) (\<lambda>s. bindR (float2 (xget b ''width'')) (\<lambda>w.
     bindR (int2 (xget b ''count'')) (\<lambda>c. Inr (s, w, c))))) (findall ''bin'' el)"

record probe_stats =
  probeId :: int
  ps_packets :: int
  ps_bytes :: int
  delayFromFirstProbe :: pyfloat

text \<open>\<open>fiveTuple\<close> is not assigned at first.\<close>

record flow =
  flowId :: int
  delayMean :: "pyfloat option"
  packetLossRatio :: "pyfloat option"
  rxBitrate :: "pyfloat option"
  txBitrate :: "pyfloat option"
  fiveTuple :: "five_tuple option"
  packetSizeMean :: "pyfloat option"
  probe_stats_unsorted :: "probe_stats list"
  hopCount :: pyfloat
  flowInterruptionsHistogram :: "(pyfloat \<times> pyfloat \<times> int) list option"
  rx_duration :: pyfloat

definition nano :: pyfloat where
  "nano = to_float (1 / 1000000000)"

text \<open>\<open>float(long(a[:-4]) - long(b[:-4])) * 1e-9\<close>.\<close>

definition duration :: "xml \<Rightarrow> string \<Rightarrow> string \<Rightarrow> pyfloat result" where
  "duration el a b = bindR (bindR (cut4 (xget el a)) long2) (\<lambda>x. bindR (bindR (cut4 (xget el b)) long2) (\<lambda>y.
     Inr (fmul (float_of_int (x - y)) nano)))"

definition bitrate :: "xml \<Rightarrow> string \<Rightarrow> pyfloat \<Rightarrow> pyfloat option result" where
  "bitrate el a d = (if flt (Fin 0) d
     then bindR (long2 (xget el a)) (\<lambda>n. bindR (fdiv (float_of_int (n * 8)) d) (\<lambda>r. Inr (Some r))) else Inr None)"

definition Flow :: "xml \<Rightarrow> flow result" where
  "Flow el = bindR (int2 (xget el ''flowId'')) (\<lambda>fid.
     bindR (long2 (xget el ''rxPackets'')) (\<lambda>rxPackets. bindR (long2 (xget el ''txPackets'')) (\<lambda>txPackets.
     bindR (duration el ''timeLastTxPacket'' ''timeFirstTxPacket'') (\<lambda>tx_duration.
     bindR (duration el ''timeLastRxPacket'' ''timeFirstRxPacket'') (\<lambda>rx_duration.
     bindR (if rxPackets \<noteq> 0 then bindR (float2 (xget el ''timesForwarded'')) (\<lambda>x. bindR (fdiv x (float_of_int rxPackets)) (\<lambda>q.
         Inr (fadd q (Fin 1)))) else Inr (Fin (- 1000))) (\<lambda>hops.
     bindR (if rxPackets \<noteq> 0 then bindR (bindR (cut4 (xget el ''delaySum'')) float2) (\<lambda>x. bindR (fdiv x (float_of_int rxPackets)) (\<lambda>q.
         bindR (float2 (xget el ''rxBytes'')) (\<lambda>b. bindR (fdiv b (float_of_int rxPackets)) (\<lambda>m.
           Inr (Some (fmul q nano), Some m))))) else Inr (None, None)) (\<lambda>(delay, mean).
     bindR (bitrate el ''rxBytes'' rx_duration) (\<lambda>rx.
     bindR (bitrate el ''txBytes'' tx_duration) (\<lambda>tx.
     bindR (float2 (xget el ''lostPackets'')) (\<lambda>lost.
     bindR (if rxPackets = 0 then Inr None
         else bindR (fdiv lost (fadd (float_of_int rxPackets) lost)) (\<lambda>r. Inr (Some r))) (\<lambda>loss.
     bindR (case find ''flowInterruptionsHistogram'' el of None \<Rightarrow> Inr None
         | Some h \<Rightarrow> bindR (Histogram h) (\<lambda>b. Inr (Some b))) (\<lambda>hist.
       Inr \<lparr>flowId = fid, delayMean = delay, packetLossRatio = loss, rxBitrate = rx, txBitrate = tx, fiveTuple = None,
         packetSizeMean = mean, probe_stats_unsorted = [], hopCount = hops, flowInterruptionsHistogram = hist,
         rx_duration = rx_duration\<rparr>))))))))))))"

subsection \<open>A simulation\<close>

type_synonym sim = "flow list \<times> (int, nat) dict"

definition add_flow :: "xml \<Rightarrow> sim \<Rightarrow> sim result" where
  "add_flow el s = (case s of (flows, flow_map) \<Rightarrow>
     bindR (Flow el) (\<lambda>f. Inr (flows @ [f], dset (flowId f) (length flows) flow_map)))"

definition change_flow :: "int \<Rightarrow> (flow \<Rightarrow> flow) \<Rightarrow> sim \<Rightarrow> sim result" where
  "change_flow fid f s = (case s of (flows, flow_map) \<Rightarrow> (case dget flow_map fid of
       None \<Rightarrow> Inl KeyError | Some i \<Rightarrow> Inr (flows[i := f (flows ! i)], flow_map)))"

definition classify :: "xml \<Rightarrow> sim \<Rightarrow> sim result" where
  "classify el s = bindR (int2 (xget el ''flowId'')) (\<lambda>fid. bindR (FiveTuple el) (\<lambda>t.
     change_flow fid (\<lambda>f. f\<lparr>fiveTuple := Some t\<rparr>) s))"

definition probe_step :: "int \<Rightarrow> xml \<Rightarrow> sim \<Rightarrow> sim result" where
  "probe_step pid el s = bindR (int2 (xget el ''flowId'')) (\<lambda>fid. bindR (int2 (xget el ''packets'')) (\<lambda>p.
     bindR (long2 (xget el ''bytes'')) (\<lambda>b.
     bindR (if 0 < p then bindR (parse_time_ns (xget el ''delayFromFirstProbeSum'')) (\<lambda>t. fdiv (float_of_int t) (float_of_int p))
         else Inr (Fin 0)) (\<lambda>d.
     change_flow fid (\<lambda>f. f\<lparr>probe_stats_unsorted := probe_stats_unsorted f @
       [\<lparr>probeId = pid, ps_packets = p, ps_bytes = b, delayFromFirstProbe = d\<rparr>]\<rparr>) s))))"

definition probe_loop :: "xml \<Rightarrow> sim \<Rightarrow> sim result" where
  "probe_loop el s = bindR (int2 (xget el ''index'')) (\<lambda>pid. foldR (probe_step pid) (findall ''FlowStats'' el) s)"

definition Simulation :: "xml \<Rightarrow> flow list result" where
  "Simulation el = bindR (case findall ''Ipv4FlowClassifier'' el of [c] \<Rightarrow> Inr c | _ \<Rightarrow> Inl ValueError) (\<lambda>c.
     bindR (foldR add_flow (findall2 ''FlowStats'' ''Flow'' el) ([], [])) (\<lambda>s.
     bindR (foldR classify (findall ''Flow'' c) s) (\<lambda>s.
     bindR (foldR probe_loop (findall2 ''FlowProbes'' ''FlowProbe'' el) s) (\<lambda>(flows, flow_map). Inr flows))))"

subsection \<open>The report\<close>

definition protocols :: "(int, string) dict" where
  "protocols = [(6, ''TCP''), (17, ''UDP'')]"

definition tab :: string where
  "tab = [char_of (9 :: nat)]"

definition rate_line :: "string \<Rightarrow> string \<Rightarrow> pyfloat \<Rightarrow> pyfloat option \<Rightarrow> string" where
  "rate_line label unit scale v = tab @ label @ (case v of None \<Rightarrow> ''None'' | Some x \<Rightarrow> fmt_fixed 2 (fmul x scale) @ unit)"

text \<open>The destination port is written with \<open>%i\<close>, the source port with \<open>%s\<close>.\<close>

definition flow_lines :: "flow \<Rightarrow> string list result" where
  "flow_lines f = (case fiveTuple f of None \<Rightarrow> Inl AttributeError
     | Some t \<Rightarrow> (case dget protocols (protocol t) of None \<Rightarrow> Inl KeyError
     | Some proto \<Rightarrow> Inr [
         ''FlowID: '' @ show_int (flowId f) @ '' ('' @ proto @ '' '' @ shown_text (sourceAddress t) @ ''/'' @ show_int (sourcePort t)
           @ '' --> '' @ shown_text (destinationAddress t) @ ''/'' @ show_int (destinationPort t) @ '')'',
         rate_line ''TX bitrate: '' '' kbit/s'' (to_float (1 / 1000)) (txBitrate f),
         rate_line ''RX bitrate: '' '' kbit/s'' (to_float (1 / 1000)) (rxBitrate f),
         rate_line ''Mean Delay: '' '' ms'' (Fin 1000) (delayMean f),
         rate_line ''Packet Loss Ratio: '' '' %'' (Fin 100) (packetLossRatio f)]))"

text \<open>The file has one element at the top; the lines printed before an exception are kept.\<close>

definition print_flow :: "flow \<Rightarrow> string list \<times> py_error option \<Rightarrow> string list \<times> py_error option" where
  "print_flow f s = (case s of (out, Some e) \<Rightarrow> s
     | (out, None) \<Rightarrow> (case flow_lines f of Inl e \<Rightarrow> (out, Some e) | Inr ls \<Rightarrow> (out @ ls, None)))"

definition flowmon_main :: "xml \<Rightarrow> (string list \<times> py_error option)" where
  "flowmon_main root_el = (let sims = (if etag root_el = ''FlowMonitor'' then mapR Simulation [root_el] else Inr []) in
     case sims of Inl e \<Rightarrow> ([''Reading XML file ''], Some e)
     | Inr sim_list \<Rightarrow> fold print_flow (concat sim_list)
         ([''Reading XML file '' @ (if sim_list = [] then '' '' else concat (map (\<lambda>_. ''.'') sim_list)) @ '' done.''], None))"

subsection \<open>Times\<close>

lemma digits_no_suffix: "0 \<le> n \<Longrightarrow> set (show_nat n) \<inter> {CHR ''_'', CHR ''L'', CHR ''l'', CHR ''n'', CHR ''s'', CHR ''.''} = {}"
proof -
  assume n: "0 \<le> n"
  have "\<not> is_digit CHR ''_''" "\<not> is_digit CHR ''L''" "\<not> is_digit CHR ''l''" "\<not> is_digit CHR ''n''" "\<not> is_digit CHR ''s''" "\<not> is_digit CHR ''.''"
    by (simp_all add: is_digit_def)
  then show ?thesis using show_nat_digits [OF n] by auto
qed

lemma plus_token: "0 \<le> n \<Longrightarrow> is_token (''+'' @ show_nat n)"
  using show_nat_digits [of n] digits_not_ws by (auto simp: is_token_def py_ws_def)

lemma rstrip_token: "is_token s \<Longrightarrow> rstrip s = s"
proof (cases s rule: rev_cases)
  case (snoc t c)
  assume "is_token s"
  then show ?thesis using snoc by (simp add: is_token_def rstrip_def)
qed (simp add: rstrip_def)

lemma py_int_plus: "0 \<le> n \<Longrightarrow> py_int (''+'' @ show_nat n) = Some n"
  using strip_token [OF plus_token [of n]] py_nat_show_nat [of n] by (simp add: py_int_def)

lemma long2_plus: "0 \<le> n \<Longrightarrow> long2 (Some (''+'' @ show_nat n)) = Inr n"
proof -
  assume n: "0 \<le> n"
  have l: "last (''+'' @ show_nat n) \<in> set (show_nat n)" by (simp add: show_nat_nonempty)
  then have "last (''+'' @ show_nat n) \<notin> {CHR ''L'', CHR ''l''}" using digits_no_suffix [OF n] by blast
  moreover have "CHR ''_'' \<notin> set (''+'' @ show_nat n)" using digits_no_suffix [OF n] by auto
  moreover have "py_int (CHR ''+'' # show_nat n) = Some n" using py_int_plus [OF n] by simp
  ultimately show ?thesis
    unfolding long2_def int2_def option.case Let_def rstrip_token [OF plus_token [OF n]] by simp
qed

text \<open>A time that is written with one decimal is read in nanoseconds. Four characters are cut off in any
  case: without a decimal the last two digits are lost, or the text is no number at all.\<close>

theorem parse_time_suffix:
  assumes "0 \<le> n"
  shows "parse_time_ns (Some (''+'' @ show_nat n @ ''.0ns'')) = Inr n
    \<and> parse_time_ns (Some (''+'' @ show_nat n @ ''ns'')) = (if n < 100 then Inl ValueError else Inr (n div 100))"
proof
  have e: "endswith (s @ ''ns'') ''ns''" for s by (simp add: endswith_def)
  show "parse_time_ns (Some (''+'' @ show_nat n @ ''.0ns'')) = Inr n"
    using long2_plus [OF assms] e [of "''+'' @ show_nat n @ ''.0''"] by (simp add: parse_time_ns_def cut4_def)
  show "parse_time_ns (Some (''+'' @ show_nat n @ ''ns'')) = (if n < 100 then Inl ValueError else Inr (n div 100))"
  proof (cases "n < 100")
    case True
    have "n < 10 \<and> show_nat n = [digit_char n] \<or> show_nat n = [digit_char (n div 10), digit_char (n mod 10)]"
      using True by (subst (1 2) show_nat.simps) (auto simp: show_nat.simps [of "n div 10"])
    then have "take (length (''+'' @ show_nat n @ ''ns'') - 4) (''+'' @ show_nat n @ ''ns'') \<in> {'''', ''+''}" by auto
    then have "long2 (Some (take (length (''+'' @ show_nat n @ ''ns'') - 4) (''+'' @ show_nat n @ ''ns''))) = Inl ValueError"
      by (elim insertE; simp add: long2_def int2_def rstrip_def py_int_def strip_def lstrip_def py_ws_def)
    then show ?thesis using e [of "''+'' @ show_nat n"] True by (simp add: parse_time_ns_def cut4_def)
  next
    case False
    have "show_nat n = show_nat (n div 100) @ [digit_char (n div 10 mod 10), digit_char (n mod 10)]"
      using False by (subst show_nat.simps, subst show_nat.simps) (simp add: zdiv_zmult2_eq [symmetric])
    then have "take (length (''+'' @ show_nat n @ ''ns'') - 4) (''+'' @ show_nat n @ ''ns'') = ''+'' @ show_nat (n div 100)" by simp
    moreover have "long2 (Some (''+'' @ show_nat (n div 100))) = Inr (n div 100)" by (rule long2_plus) (use False in simp)
    ultimately show ?thesis using e [of "''+'' @ show_nat n"] False by (simp add: parse_time_ns_def cut4_def)
  qed
qed

theorem parse_time_suffix_witness:
  "parse_time_ns (Some ''+2500.0ns'') = Inr 2500 \<and> parse_time_ns (Some ''+2500ns'') = Inr 25"
proof -
  have "show_nat 2500 = ''2500''" by code_simp
  then show ?thesis using parse_time_suffix [of 2500] by simp
qed

subsection \<open>Flows and their classification\<close>

text \<open>With distinct identifiers the map finds each flow.\<close>

definition sim_ok :: "sim \<Rightarrow> bool" where
  "sim_ok s \<longleftrightarrow> distinct (map flowId (fst s)) \<and> (\<forall>fid i. dget (snd s) fid = Some i \<longleftrightarrow> i < length (fst s) \<and> flowId (fst s ! i) = fid)"

lemma flow_at: "distinct (map flowId fs) \<Longrightarrow> i < length fs \<Longrightarrow>
    fs[i := g (fs ! i)] = map (\<lambda>f. if flowId f = flowId (fs ! i) then g f else f) fs"
  by (rule nth_equalityI) (auto simp: nth_list_update distinct_conv_nth)

lemma change_flow_map:
  assumes "sim_ok (fs, m)" "\<And>f. flowId (g f) = flowId f" "change_flow fid g (fs, m) = Inr s"
  shows "sim_ok s \<and> fst s = map (\<lambda>f. if flowId f = fid then g f else f) fs \<and> snd s = m \<and> fid \<in> flowId ` set fs"
proof -
  obtain i where i: "dget m fid = Some i" "s = (fs[i := g (fs ! i)], m)"
    using assms(3) by (auto simp: change_flow_def split: option.splits)
  then have f: "i < length fs" "flowId (fs ! i) = fid" "distinct (map flowId fs)" using assms(1) by (auto simp: sim_ok_def)
  have ids: "map flowId (fs[i := g (fs ! i)]) = map flowId fs"
    by (rule nth_equalityI) (use f(1) in \<open>auto simp: nth_list_update assms(2)\<close>)
  have "flowId (fs[i := g (fs ! i)] ! j) = flowId (fs ! j)" if "j < length fs" for j
    using that ids by (metis length_list_update nth_map)
  then have "sim_ok s" using assms(1) ids by (auto simp: i sim_ok_def)
  moreover have "fid \<in> flowId ` set fs" using f by (metis imageI nth_mem)
  ultimately show ?thesis using flow_at [OF f(3,1), of g] f(2) by (simp add: i)
qed

lemma add_flows:
  assumes "foldR add_flow els ([], []) = Inr s" "distinct (map flowId (fst s))"
  shows "sim_ok s \<and> mapR Flow els = Inr (fst s)"
  using assms
proof (induction els arbitrary: s rule: rev_induct)
  case Nil
  then show ?case by (auto simp: sim_ok_def dget_def)
next
  case (snoc el els)
  then obtain s0 where s0: "foldR add_flow els ([], []) = Inr s0" "add_flow el s0 = Inr s"
    by (auto simp: foldR_append bindR_eq_Inr)
  obtain fs m where p: "s0 = (fs, m)" by fastforce
  obtain f where f: "Flow el = Inr f" "s = (fs @ [f], dset (flowId f) (length fs) m)"
    using s0(2) by (auto simp: p add_flow_def bindR_eq_Inr)
  have ok: "sim_ok (fs, m)" "mapR Flow els = Inr fs" using snoc.IH [OF s0(1)] snoc.prems(2) f p by simp_all
  have "mapR Flow (els @ [el]) = Inr (fs @ [f])" using ok(2) f(1) by (simp add: mapR_def foldR_append)
  moreover have "flowId (fs ! i) \<noteq> flowId f" if "i < length fs" for i
    using snoc.prems(2) that by (auto simp: f) (metis image_eqI nth_mem)
  then have "sim_ok s"
    using ok(1) snoc.prems(2) unfolding f(2) sim_ok_def fst_conv snd_conv pyd.lookup_upd
    by (auto simp: nth_append less_Suc_eq_le le_less)
  ultimately show ?case by (simp add: f)
qed

lemma add_flows_map: "foldR add_flow els ([], []) = Inr s \<Longrightarrow> mapR Flow els = Inr (fst s)"
proof (induction els arbitrary: s rule: rev_induct)
  case (snoc el els)
  then obtain fs m where f: "foldR add_flow els ([], []) = Inr (fs, m)" "add_flow el (fs, m) = Inr s"
    by (auto simp: foldR_append bindR_eq_Inr)
  have "mapR Flow els = Inr fs" using snoc.IH [OF f(1)] by simp
  then show ?case using f(2) by (auto simp: add_flow_def bindR_eq_Inr mapR_def foldR_append)
qed auto

text \<open>A loop of changes: each flow is changed by the entries with its identifier, in order.\<close>

lemma change_loop:
  assumes step: "\<And>el s. h el s = bindR (k el) (\<lambda>(fid, a). change_flow fid (g a) s)" and g: "\<And>a f. flowId (g a f) = flowId f"
    and "foldR h els (fs, m) = Inr s" "sim_ok (fs, m)"
  shows "\<exists>ts. mapR k els = Inr ts \<and> sim_ok s \<and> snd s = m \<and> fst ` set ts \<subseteq> flowId ` set fs
    \<and> fst s = map (\<lambda>f. fold (\<lambda>(fid, a) f. if flowId f = fid then g a f else f) ts f) fs"
  using assms(3)
proof (induction els arbitrary: s rule: rev_induct)
  case Nil
  then show ?case using assms(4) by auto
next
  case (snoc el els)
  then obtain s0 where s0: "foldR h els (fs, m) = Inr s0" "h el s0 = Inr s" by (auto simp: foldR_append bindR_eq_Inr)
  obtain ts where ts: "mapR k els = Inr ts" "sim_ok s0" "snd s0 = m" "fst ` set ts \<subseteq> flowId ` set fs"
    "fst s0 = map (\<lambda>f. fold (\<lambda>(fid, a) f. if flowId f = fid then g a f else f) ts f) fs"
    using snoc.IH [OF s0(1)] by blast
  obtain fid a where a: "k el = Inr (fid, a)" "change_flow fid (g a) s0 = Inr s"
    using s0(2) by (auto simp: step bindR_eq_Inr)
  have id: "flowId (fold (\<lambda>(fid, a) f. if flowId f = fid then g a f else f) us f) = flowId f" for us f
    by (induction us arbitrary: f) (auto simp: g)
  have c: "sim_ok s" "fst s = map (\<lambda>f. if flowId f = fid then g a f else f) (fst s0)" "snd s = m" "fid \<in> flowId ` set (fst s0)"
    using change_flow_map [of "fst s0" "snd s0" "g a" fid s] ts(2,3) a(2) g by (cases s0; simp)+
  have "mapR k (els @ [el]) = Inr (ts @ [(fid, a)])" using ts(1) a(1) by (simp add: mapR_def foldR_append)
  moreover have "fid \<in> flowId ` set fs" using c(4) ts(5) id by auto
  ultimately show ?case using c ts id by (intro exI [of _ "ts @ [(fid, a)]"]) (auto simp: comp_def)
qed

definition entry :: "xml \<Rightarrow> (int \<times> five_tuple) result" where
  "entry el = bindR (int2 (xget el ''flowId'')) (\<lambda>fid. bindR (FiveTuple el) (\<lambda>t. Inr (fid, t)))"

lemma classify_entry: "classify el s = bindR (entry el) (\<lambda>(fid, t). change_flow fid (\<lambda>f. f\<lparr>fiveTuple := Some t\<rparr>) s)"
  by (simp add: classify_def entry_def bindR_assoc)

definition probe_entry :: "int \<Rightarrow> xml \<Rightarrow> (int \<times> probe_stats) result" where
  "probe_entry pid el = bindR (int2 (xget el ''flowId'')) (\<lambda>fid. bindR (int2 (xget el ''packets'')) (\<lambda>p.
     bindR (long2 (xget el ''bytes'')) (\<lambda>b.
     bindR (if 0 < p then bindR (parse_time_ns (xget el ''delayFromFirstProbeSum'')) (\<lambda>t. fdiv (float_of_int t) (float_of_int p))
         else Inr (Fin 0)) (\<lambda>d.
     Inr (fid, \<lparr>probeId = pid, ps_packets = p, ps_bytes = b, delayFromFirstProbe = d\<rparr>)))))"

definition add_probe :: "probe_stats \<Rightarrow> flow \<Rightarrow> flow" where
  "add_probe a f = f\<lparr>probe_stats_unsorted := probe_stats_unsorted f @ [a]\<rparr>"

lemma probe_step_entry: "probe_step pid el s = bindR (probe_entry pid el) (\<lambda>(fid, a). change_flow fid (add_probe a) s)"
  by (simp add: probe_step_def probe_entry_def bindR_assoc add_probe_def [abs_def])

lemma fold_tuples:
  "fiveTuple (fold (\<lambda>(fid, t) f. if flowId f = fid then f\<lparr>fiveTuple := Some t\<rparr> else f) ts f)
   = (case map_of (rev ts) (flowId f) of Some t \<Rightarrow> Some t | None \<Rightarrow> fiveTuple f)"
proof (induction ts arbitrary: f)
  case (Cons x ts)
  show ?case by (cases x) (auto simp: Cons map_add_def split: option.splits)
qed simp

lemma fold_bare:
  "(fold (\<lambda>(fid, t) f. if flowId f = fid then f\<lparr>fiveTuple := Some t\<rparr> else f) ts f)\<lparr>fiveTuple := None, probe_stats_unsorted := []\<rparr>
   = f\<lparr>fiveTuple := None, probe_stats_unsorted := []\<rparr>"
proof (induction ts arbitrary: f)
  case (Cons x ts)
  show ?case by (cases x) (simp add: Cons)
qed simp

text \<open>The probes leave the rest of a flow as it is.\<close>

lemma fold_probes:
  "fold (\<lambda>(fid, a) f. if flowId f = fid then add_probe a f else f) ps f
   = f\<lparr>probe_stats_unsorted := probe_stats_unsorted f @ map snd (filter (\<lambda>p. fst p = flowId f) ps)\<rparr>"
proof (induction ps arbitrary: f)
  case (Cons p ps)
  then show ?case by (cases p) (simp add: add_probe_def)
qed simp

lemma probe_loops:
  assumes "foldR probe_loop els (fs, m) = Inr s" "sim_ok (fs, m)"
  shows "sim_ok s \<and> snd s = m \<and> map (\<lambda>f. f\<lparr>probe_stats_unsorted := []\<rparr>) (fst s) = map (\<lambda>f. f\<lparr>probe_stats_unsorted := []\<rparr>) fs"
  using assms(1)
proof (induction els arbitrary: s rule: rev_induct)
  case Nil
  then show ?case using assms(2) by auto
next
  case (snoc el els)
  then obtain fs1 where s0: "foldR probe_loop els (fs, m) = Inr (fs1, m)" "probe_loop el (fs1, m) = Inr s" "sim_ok (fs1, m)"
    "map (\<lambda>f. f\<lparr>probe_stats_unsorted := []\<rparr>) fs1 = map (\<lambda>f. f\<lparr>probe_stats_unsorted := []\<rparr>) fs"
    by (fastforce simp: foldR_append bindR_eq_Inr)
  obtain pid where pid: "foldR (probe_step pid) (findall ''FlowStats'' el) (fs1, m) = Inr s"
    using s0(2) by (auto simp: probe_loop_def bindR_eq_Inr)
  have "flowId (add_probe a f) = flowId f" for a f by (simp add: add_probe_def)
  from change_loop [OF probe_step_entry this pid s0(3)] show ?case
    using s0(4) by (auto simp: fold_probes comp_def)
qed

text \<open>C34: With distinct identifiers the flows of a simulation are those of its statistics, in their order; the
  addresses of a flow are the last ones the classifier has for it, and the probes change nothing of a
  flow but its list of probes.\<close>

theorem simulation_flows:
  assumes "Simulation el = Inr flows" "mapR Flow (findall2 ''FlowStats'' ''Flow'' el) = Inr fs" "distinct (map flowId fs)"
  shows "\<exists>c ts. findall ''Ipv4FlowClassifier'' el = [c] \<and> mapR entry (findall ''Flow'' c) = Inr ts \<and> fst ` set ts \<subseteq> flowId ` set fs
    \<and> map (\<lambda>f. f\<lparr>fiveTuple := None, probe_stats_unsorted := []\<rparr>) flows = map (\<lambda>f. f\<lparr>fiveTuple := None, probe_stats_unsorted := []\<rparr>) fs
    \<and> map fiveTuple flows = map (\<lambda>f. case map_of (rev ts) (flowId f) of Some t \<Rightarrow> Some t | None \<Rightarrow> fiveTuple f) fs"
proof -
  obtain c where c: "findall ''Ipv4FlowClassifier'' el = [c]"
    using assms(1) by (auto simp: Simulation_def bindR_eq_Inr split: list.splits)
  obtain s1 s2 m where s: "foldR add_flow (findall2 ''FlowStats'' ''Flow'' el) ([], []) = Inr s1"
    "foldR classify (findall ''Flow'' c) s1 = Inr s2"
    "foldR probe_loop (findall2 ''FlowProbes'' ''FlowProbe'' el) s2 = Inr (flows, m)"
    using assms(1) by (auto simp: Simulation_def c bindR_eq_Inr)
  have fs: "fst s1 = fs" using add_flows_map [OF s(1)] assms(2) by simp
  let ?clear = "\<lambda>f :: flow. f\<lparr>probe_stats_unsorted := []\<rparr>" and ?bare = "\<lambda>f :: flow. f\<lparr>fiveTuple := None, probe_stats_unsorted := []\<rparr>"
  let ?tup = "\<lambda>ts f. fold (\<lambda>(fid, t) f. if flowId f = fid then f\<lparr>fiveTuple := Some t\<rparr> else f) ts (f :: flow)"
  have one: "sim_ok s1" using add_flows [OF s(1)] assms(3) fs by simp
  obtain ts where ts: "mapR entry (findall ''Flow'' c) = Inr ts" "sim_ok s2" "snd s2 = snd s1" "fst ` set ts \<subseteq> flowId ` set fs"
    "fst s2 = map (?tup ts) fs"
    using change_loop [of classify entry "\<lambda>t f. f\<lparr>fiveTuple := Some t\<rparr>" "findall ''Flow'' c" "fst s1" "snd s1" s2] classify_entry s(2) one fs
    by auto
  have p: "map ?clear flows = map ?clear (fst s2)"
    using probe_loops [of "findall2 ''FlowProbes'' ''FlowProbe'' el" "fst s2" "snd s2" "(flows, m)"] s(3) ts(2) by simp
  have "map fiveTuple flows = map fiveTuple (map ?clear flows)" by simp
  also have "\<dots> = map fiveTuple (fst s2)" unfolding p by simp
  finally have "map fiveTuple flows = map (\<lambda>f. case map_of (rev ts) (flowId f) of Some t \<Rightarrow> Some t | None \<Rightarrow> fiveTuple f) fs"
    by (simp add: ts(5) fold_tuples comp_def)
  moreover have "map ?bare flows = map ?bare fs"
  proof -
    have "map ?bare flows = map (\<lambda>f. f\<lparr>fiveTuple := None\<rparr>) (map ?clear flows)" by simp
    also have "\<dots> = map ?bare (fst s2)" unfolding p by simp
    also have "\<dots> = map ?bare fs" by (simp add: ts(5) fold_bare)
    finally show ?thesis .
  qed
  ultimately show ?thesis using c ts(1,4) by blast
qed

definition demo_xml :: xml where
  "demo_xml = Elem ''FlowMonitor'' [] None
     [Elem ''FlowStats'' [] None [Elem ''Flow'' [(''flowId'', ''1''), (''rxPackets'', ''0''), (''txPackets'', ''4''),
        (''timeLastTxPacket'', ''+5.0ns''), (''timeFirstTxPacket'', ''+5.0ns''), (''timeLastRxPacket'', ''+0.0ns''),
        (''timeFirstRxPacket'', ''+0.0ns''), (''lostPackets'', ''4'')] None []],
      Elem ''Ipv4FlowClassifier'' [] None [Elem ''Flow'' [(''flowId'', ''1''), (''sourceAddress'', ''10.1.1.1''),
        (''destinationAddress'', ''10.1.1.2''), (''protocol'', ''17''), (''sourcePort'', ''9''), (''destinationPort'', ''80'')] None []]]"

theorem simulation_flows_witness:
  "\<exists>flows. Simulation demo_xml = Inr flows \<and> map (\<lambda>f. map_option destinationPort (fiveTuple f)) flows = [Some 80]"
proof -
  obtain flows where f: "Simulation demo_xml = Inr flows"
  proof -
    have "isl (Simulation demo_xml) = False" by code_simp
    then show thesis using that by (cases "Simulation demo_xml") auto
  qed
  have "map_sum id (map flowId) (mapR Flow (findall2 ''FlowStats'' ''Flow'' demo_xml)) = Inr [1]" by code_simp
  then obtain fs where fs: "mapR Flow (findall2 ''FlowStats'' ''Flow'' demo_xml) = Inr fs" "map flowId fs = [1]"
    by (cases "mapR Flow (findall2 ''FlowStats'' ''Flow'' demo_xml)") auto
  obtain c ts where t: "findall ''Ipv4FlowClassifier'' demo_xml = [c]" "mapR entry (findall ''Flow'' c) = Inr ts"
    "map fiveTuple flows = map (\<lambda>f. case map_of (rev ts) (flowId f) of Some t \<Rightarrow> Some t | None \<Rightarrow> fiveTuple f) fs"
    using simulation_flows [OF f fs(1)] fs(2) by auto
  have "map_sum id (map (\<lambda>(i, t). (i, destinationPort t))) (mapR entry (findall ''Flow'' (hd (findall ''Ipv4FlowClassifier'' demo_xml)))) = Inr [(1, 80)]"
    by code_simp
  then obtain u where "ts = [(1, u)]" "destinationPort u = 80" using t(1,2) by auto
  moreover obtain f1 where "fs = [f1]" "flowId f1 = 1" using fs(2) by auto
  ultimately have "map fiveTuple flows = [Some u]" using t(3) by simp
  then have "map (map_option destinationPort) (map fiveTuple flows) = [Some 80]" using \<open>destinationPort u = 80\<close> by simp
  then show ?thesis using f by (simp add: comp_def)
qed

end
