(* ===== verification/Reports.thy ===== *)
theory Reports
  imports XmlTree
begin

text \<open>
  The text and html reports of test.py: \<open>translate_to_text\<close> and \<open>translate_to_html\<close> on the tree of the xml
  results. What the first writes is a list of strings; what the second writes is a list of tags and texts,
  whose \<open>rendered\<close> form is the file. A missing element raises an AttributeError.
\<close>

record test_info =
  ti_result :: "string option"
  ti_name :: "string option"
  ti_reason :: "string option"
  ti_time :: "string option"

definition read_test :: "xml \<Rightarrow> test_info result" where
  "read_test test = bindR (text_of ''Result'' test) (\<lambda>res. bindR (text_of ''Name'' test) (\<lambda>name.
     Inr \<lparr>ti_result = res, ti_name = name,
       ti_reason = (case find ''Reason'' test of None \<Rightarrow> Some '''' | Some k \<Rightarrow> etext k),
       ti_time = (case find ''Time'' test of None \<Rightarrow> Some '''' | Some k \<Rightarrow> xget k ''real'')\<rparr>))"

definition eol :: string where
  "eol = [char_of (10 :: nat)]"

definition quote :: string where
  "quote = [char_of (34 :: nat)]"

subsection \<open>The text report\<close>

definition detail_line :: "string \<Rightarrow> string \<Rightarrow> xml \<Rightarrow> string result" where
  "detail_line label field details = bindR (text_of field details) (\<lambda>v. Inr (label @ shown_text v @ eol))"

definition details_to_text :: "xml \<Rightarrow> string list result" where
  "details_to_text details = bindR (mapR (\<lambda>(label, field). detail_line label field details)
     [(''      Message:   '', ''Message''), (''      Condition: '', ''Condition''), (''      Actual:    '', ''Actual''),
      (''      Limit:     '', ''Limit''), (''      File:      '', ''File''), (''      Line:      '', ''Line'')])
     (\<lambda>ls. Inr ((''    Details:'' @ eol) # ls))"

definition test_line :: "test_info \<Rightarrow> string \<Rightarrow> string" where
  "test_line t test_type = (let reason = (case ti_reason t of None \<Rightarrow> ''None'' | Some [] \<Rightarrow> '''' | Some r \<Rightarrow> '' ('' @ r @ '')'') in
     shown_text (ti_result t) @ '': Test '' @ test_type @ '' '' @ quote @ shown_text (ti_name t) @ quote @ '' ('' @ shown_text (ti_time t)
       @ '')'' @ reason @ eol)"

declare mapR_cong [fundef_cong]

function node_to_text :: "xml \<Rightarrow> string \<Rightarrow> string list result" where
  "node_to_text test test_type = bindR (read_test test) (\<lambda>t.
     bindR (mapR details_to_text (findall ''FailureDetails'' test)) (\<lambda>ds.
     bindR (mapR (\<lambda>child. node_to_text child ''Case'') (findall ''Test'' test)) (\<lambda>cs.
       Inr (test_line t test_type # concat ds @ concat cs))))"
  by pat_completeness auto
termination
  by (relation "measure (\<lambda>(test, ty). size test)") (auto dest: findall_size)

declare node_to_text.simps [simp del]

definition example_line :: "xml \<Rightarrow> string result" where
  "example_line example = bindR (text_of ''Result'' example) (\<lambda>res. bindR (text_of ''Name'' example) (\<lambda>name.
     Inr (shown_text res @ '': Example '' @ quote @ shown_text name @ quote @ '' (''
       @ shown_text (case find ''Time'' example of None \<Rightarrow> Some '''' | Some k \<Rightarrow> xget k ''real'') @ '')'' @ eol)))"

definition translate_to_text :: "xml \<Rightarrow> string list result" where
  "translate_to_text et = bindR (mapR (\<lambda>test. node_to_text test ''Suite'') (findall ''Test'' et)) (\<lambda>ts.
     bindR (mapR example_line (findall ''Example'' et)) (\<lambda>es. Inr (concat ts @ es)))"

subsection \<open>The html report\<close>

datatype html = Begin string string | End string | Txt string

definition tag :: "string \<Rightarrow> html" where
  "tag t = Begin t ''''"

definition nl_txt :: html where
  "nl_txt = Txt eol"

fun render1 :: "html \<Rightarrow> string" where
  "render1 (Begin t a) = ''<'' @ t @ a @ ''>''"
| "render1 (End t) = ''</'' @ t @ ''>''"
| "render1 (Txt s) = s"

definition rendered :: "html list \<Rightarrow> string" where
  "rendered h = concat (map render1 h)"

definition colored :: "string \<Rightarrow> string" where
  "colored c = '' style='' @ quote @ ''color:'' @ c @ quote"

text \<open>A whole element with a text, and a td_cell of a table.\<close>

definition el :: "string \<Rightarrow> string \<Rightarrow> string \<Rightarrow> html list" where
  "el t a s = [Begin t a, Txt s, End t, nl_txt]"

definition td_cell :: "string option \<Rightarrow> html list" where
  "td_cell v = el ''td'' '''' (shown_text v)"

definition suite_header :: "test_info \<Rightarrow> html list" where
  "suite_header t = (let line = shown_text (ti_result t) @ '': '' @ shown_text (ti_name t) @ '' ('' @ shown_text (ti_time t) @ '')'' in
     if ti_result t = Some ''PASS'' then el ''h3'' (colored ''green'') line
     else if ti_result t = Some ''SKIP'' then el ''h3'' (colored ''#ff6600'') (line @ '' ('' @ shown_text (ti_reason t) @ '')'')
     else el ''h3'' (colored ''red'') line)"

definition details_html :: "xml \<Rightarrow> html list result" where
  "details_html details = bindR (mapR (\<lambda>(label, sep). bindR (text_of label details) (\<lambda>v.
       Inr [tag ''b'', Txt (label @ '': ''), End ''b'', Txt (shown_text v @ sep)]))
     [(''Message'', '', ''), (''Condition'', '', ''), (''Actual'', '', ''), (''Limit'', '', ''), (''File'', '', ''), (''Line'', '''')])
     (\<lambda>ls. Inr (concat ls))"

text \<open>The rows of a failed case; a row is closed with \<open></td>\<close>.\<close>

definition failure_row :: "test_info \<Rightarrow> xml \<Rightarrow> html list list \<Rightarrow> html list list result" where
  "failure_row t details rows = bindR (details_html details) (\<lambda>d.
     Inr (rows @ [[tag ''tr'', nl_txt]
       @ (if rows = [] then el ''td'' (colored ''red'') (shown_text (ti_result t)) @ td_cell (ti_name t) @ td_cell (ti_time t)
          else td_cell (Some '''') @ td_cell (Some '''') @ td_cell (Some ''''))
       @ [tag ''td''] @ d @ [End ''td'', nl_txt, End ''td'', nl_txt]]))"

definition case_rows :: "xml \<Rightarrow> html list result" where
  "case_rows test = bindR (read_test test) (\<lambda>t.
     if ti_result t = Some ''FAIL''
     then bindR (foldR (failure_row t) (findall ''FailureDetails'' test) []) (\<lambda>rows. Inr (concat rows))
     else Inr ([tag ''tr'', nl_txt] @ el ''td'' (colored ''green'') (shown_text (ti_result t)) @ td_cell (ti_name t) @ td_cell (ti_time t)
       @ td_cell (ti_reason t) @ [End ''tr'', nl_txt]))"

definition table_begin :: "html list" where
  "table_begin = [Begin ''table'' ('' border='' @ quote @ ''1'' @ quote), nl_txt]"

definition suite_html :: "xml \<Rightarrow> html list result" where
  "suite_html suite = bindR (read_test suite) (\<lambda>t.
     if ti_result t \<in> {Some ''CRASH'', Some ''SKIP'', Some ''VALGR''}
     then Inr (suite_header t @ table_begin @ el ''th'' '''' '' Result '' @ [tag ''tr'', nl_txt]
       @ el ''td'' (colored (if ti_result t = Some ''SKIP'' then ''#ff6600'' else ''red'')) (shown_text (ti_result t))
       @ [End ''tr'', nl_txt, End ''table'', nl_txt])
     else bindR (mapR case_rows (findall ''Test'' suite)) (\<lambda>rows.
       Inr (suite_header t @ table_begin @ el ''th'' '''' '' Result '' @ el ''th'' '''' ''Test Case Name'' @ el ''th'' '''' '' Time ''
         @ (if ti_result t = Some ''FAIL'' then el ''th'' '''' ''Failure Details'' else [])
         @ concat rows @ [End ''table'', nl_txt])))"

definition example_html :: "xml \<Rightarrow> html list result" where
  "example_html example = bindR (read_test example) (\<lambda>t.
     Inr ([tag ''tr'', nl_txt]
       @ (if ti_result t = Some ''PASS'' then el ''td'' (colored ''green'') (shown_text (ti_result t))
          else if ti_result t = Some ''SKIP'' then [Begin ''td'' (colored ''#ff6600''), Txt (shown_text (ti_result t)), End ''fd'', nl_txt]
          else el ''td'' (colored ''red'') (shown_text (ti_result t)))
       @ td_cell (ti_name t) @ td_cell (ti_time t) @ td_cell (ti_reason t) @ [End ''tr'', nl_txt]))"

definition translate_to_html :: "xml \<Rightarrow> html list result" where
  "translate_to_html et = bindR (mapR suite_html (findall ''Test'' et)) (\<lambda>suites.
     bindR (mapR example_html (findall ''Example'' et)) (\<lambda>examples.
       Inr ([tag ''html'', nl_txt, tag ''body'', nl_txt, tag ''center'', tag ''h1'', Txt ''ns-3 Test Results'', End ''h1'', End ''center'', nl_txt]
         @ el ''h2'' '''' ''Test Suites'' @ concat suites
         @ el ''h2'' '''' ''Examples'' @ table_begin
         @ el ''th'' '''' '' Result '' @ el ''th'' '''' ''Example Name'' @ el ''th'' '''' ''Elapsed Time'' @ el ''th'' '''' ''Details''
         @ concat examples @ [End ''table'', nl_txt, End ''body'', nl_txt, End ''html'', nl_txt])))"

subsection \<open>Nesting\<close>

text \<open>The elements still open after a list of tags; \<open>None\<close> when an end tag is not that of the innermost one.\<close>

fun nest :: "html list \<Rightarrow> string list \<Rightarrow> string list option" where
  "nest [] st = Some st"
| "nest (Begin t a # h) st = nest h (t # st)"
| "nest (End t # h) st = (case st of [] \<Rightarrow> None | s # st' \<Rightarrow> if s = t then nest h st' else None)"
| "nest (Txt s # h) st = nest h st"

lemma nest_append: "nest (a @ b) st = Option.bind (nest a st) (nest b)"
  by (induction a st rule: nest.induct) (auto split: list.splits)

text \<open>A piece that is well nested, or that no context makes well nested.\<close>

definition nested :: "html list \<Rightarrow> bool \<Rightarrow> bool" where
  "nested h b \<longleftrightarrow> (\<forall>st. nest h st = (if b then Some st else None))"

named_theorems nesting \<open>nesting of composed pieces\<close>

lemma nested_Nil [nesting]: "nested [] True"
  by (simp add: nested_def)

lemma nested_Txt [nesting]: "nested [Txt s] True"
  by (simp add: nested_def)

lemma nested_append: "nested g a \<Longrightarrow> nested h b \<Longrightarrow> nested (g @ h) (a \<and> b)"
  by (simp add: nested_def nest_append)

lemma nested_wrap: "nested h b \<Longrightarrow> nested ([Begin t a] @ h @ [End t]) b"
  by (cases b) (simp_all add: nested_def nest_append)

lemma nested_unclosed: "nested h True \<Longrightarrow> t \<noteq> u \<Longrightarrow> nested ([Begin t a] @ h @ [End u] @ g) False"
  by (simp add: nested_def nest_append)

lemma nested_concat: "list_all2 nested hs bs \<Longrightarrow> nested (concat hs) (list_all id bs)"
  by (induction rule: list_all2_induct) (simp_all add: nested_Nil nested_append)

lemma nested_concat_map:
  assumes "list_all2 (\<lambda>x h. nested h (P x)) xs hs"
  shows "nested (concat hs) (\<forall>x \<in> set xs. P x)"
  using assms by (induction rule: list_all2_induct) (simp_all add: nested_Nil nested_append)

lemma nested_el [nesting]: "nested (el t a s) True"
  by (simp add: nested_def el_def nl_txt_def)

lemma nested_cell [nesting]: "nested (td_cell v) True"
  by (simp add: td_cell_def nested_el)

lemma nested_suite_header [nesting]: "nested (suite_header t) True"
  by (simp add: suite_header_def Let_def nested_el)

lemma nested_details: "details_html d = Inr h \<Longrightarrow> nested h True"
  unfolding details_html_def
  by (auto simp: bindR_eq_Inr mapR_Cons nested_def tag_def)

lemma nested_failure_rows:
  assumes "foldR (failure_row t) ds rows = Inr rows'" "list_all (\<lambda>r. nested r False) rows"
  shows "list_all (\<lambda>r. nested r False) rows' \<and> length rows' = length rows + length ds"
  using assms
proof (induction ds arbitrary: rows)
  case (Cons d ds)
  obtain r1 where r1: "failure_row t d rows = Inr r1" "foldR (failure_row t) ds r1 = Inr rows'"
    using Cons.prems(1) by (auto simp: bindR_eq_Inr)
  obtain h where h: "details_html d = Inr h" "r1 = rows @ [[tag ''tr'', nl_txt]
       @ (if rows = [] then el ''td'' (colored ''red'') (shown_text (ti_result t)) @ td_cell (ti_name t) @ td_cell (ti_time t)
          else td_cell (Some '''') @ td_cell (Some '''') @ td_cell (Some ''''))
       @ [tag ''td''] @ h @ [End ''td'', nl_txt, End ''td'', nl_txt]]"
    using r1(1) by (auto simp: failure_row_def bindR_eq_Inr)
  have "nested h True" using nested_details [OF h(1)] .
  then have "nested ([tag ''tr'', nl_txt]
       @ (if rows = [] then el ''td'' (colored ''red'') (shown_text (ti_result t)) @ td_cell (ti_name t) @ td_cell (ti_time t)
          else td_cell (Some '''') @ td_cell (Some '''') @ td_cell (Some ''''))
       @ [tag ''td''] @ h @ [End ''td'', nl_txt, End ''td'', nl_txt]) False"
    by (simp add: nested_def nest_append tag_def nl_txt_def el_def td_cell_def)
  then show ?case using Cons.IH [OF r1(2)] Cons.prems(2) by (simp add: h(2))
qed simp

definition has_result :: "xml \<Rightarrow> string \<Rightarrow> bool" where
  "has_result x r \<longleftrightarrow> (\<exists>t. read_test x = Inr t \<and> ti_result t = Some r)"

definition shows_failure :: "xml \<Rightarrow> bool" where
  "shows_failure c \<longleftrightarrow> has_result c ''FAIL'' \<and> findall ''FailureDetails'' c \<noteq> []"

lemma nested_case: "case_rows c = Inr h \<Longrightarrow> nested h (\<not> shows_failure c)"
proof -
  assume c: "case_rows c = Inr h"
  then obtain t where t: "read_test c = Inr t" by (auto simp: case_rows_def bindR_eq_Inr)
  show ?thesis
  proof (cases "ti_result t = Some ''FAIL''")
    case True
    then obtain rows where rows: "foldR (failure_row t) (findall ''FailureDetails'' c) [] = Inr rows" "h = concat rows"
      using c t by (auto simp: case_rows_def bindR_eq_Inr)
    have "list_all (\<lambda>r. nested r False) rows" "length rows = length (findall ''FailureDetails'' c)"
      using nested_failure_rows [OF rows(1)] by simp_all
    moreover have "shows_failure c \<longleftrightarrow> findall ''FailureDetails'' c \<noteq> []" using t True by (auto simp: shows_failure_def has_result_def)
    ultimately show ?thesis using rows(2) nested_append [of "hd rows" False "concat (tl rows)"]
      by (cases rows) (auto simp: nested_def nest_append)
  next
    case False
    then have "\<not> shows_failure c" using t by (auto simp: shows_failure_def has_result_def)
    then show ?thesis using c t False
      by (auto simp: case_rows_def nested_def nest_append tag_def nl_txt_def el_def td_cell_def)
  qed
qed

definition short_suite :: "xml \<Rightarrow> bool" where
  "short_suite s \<longleftrightarrow> has_result s ''CRASH'' \<or> has_result s ''SKIP'' \<or> has_result s ''VALGR''"

lemma nested_table: "nested h b \<Longrightarrow> nested (table_begin @ h @ [End ''table'', nl_txt]) b"
  by (cases b) (simp_all add: nested_def nest_append table_begin_def nl_txt_def)

lemma nested_suite: "suite_html s = Inr h \<Longrightarrow> nested h (short_suite s \<or> (\<forall>c \<in> set (findall ''Test'' s). \<not> shows_failure c))"
proof -
  assume s: "suite_html s = Inr h"
  then obtain t where t: "read_test s = Inr t" by (auto simp: suite_html_def bindR_eq_Inr)
  have sh: "short_suite s \<longleftrightarrow> ti_result t \<in> {Some ''CRASH'', Some ''SKIP'', Some ''VALGR''}"
    using t by (auto simp: short_suite_def has_result_def)
  show ?thesis
  proof (cases "short_suite s")
    case True
    then have "ti_result t \<in> {Some ''CRASH'', Some ''SKIP'', Some ''VALGR''}" using sh by simp
    then have "h = suite_header t @ (table_begin @ (el ''th'' '''' '' Result '' @ [tag ''tr'', nl_txt]
       @ el ''td'' (colored (if ti_result t = Some ''SKIP'' then ''#ff6600'' else ''red'')) (shown_text (ti_result t)) @ [End ''tr'', nl_txt])
       @ [End ''table'', nl_txt])"
      using s t by (simp add: suite_html_def)
    moreover have "nested (el ''th'' '''' '' Result '' @ [tag ''tr'', nl_txt]
       @ el ''td'' (colored (if ti_result t = Some ''SKIP'' then ''#ff6600'' else ''red'')) (shown_text (ti_result t)) @ [End ''tr'', nl_txt]) True"
      by (simp add: nested_def nest_append tag_def nl_txt_def el_def)
    ultimately have "nested h (True \<and> True)" by (simp only:) (intro nested_append nested_suite_header nested_table)
    then show ?thesis using True by simp
  next
    case False
    then have n: "ti_result t \<notin> {Some ''CRASH'', Some ''SKIP'', Some ''VALGR''}" using sh by simp
    obtain rows where rows: "mapR case_rows (findall ''Test'' s) = Inr rows"
      "h = suite_header t @ (table_begin @ ((el ''th'' '''' '' Result '' @ el ''th'' '''' ''Test Case Name'' @ el ''th'' '''' '' Time ''
         @ (if ti_result t = Some ''FAIL'' then el ''th'' '''' ''Failure Details'' else [])) @ concat rows) @ [End ''table'', nl_txt])"
      using s t n by (auto simp: suite_html_def bindR_eq_Inr)
    have c: "nested (concat rows) (\<forall>c \<in> set (findall ''Test'' s). \<not> shows_failure c)"
      by (rule nested_concat_map) (use mapR_list_all2 [OF rows(1)] nested_case in \<open>auto elim!: list_all2_mono\<close>)
    have hd: "nested (el ''th'' '''' '' Result '' @ el ''th'' '''' ''Test Case Name'' @ el ''th'' '''' '' Time ''
         @ (if ti_result t = Some ''FAIL'' then el ''th'' '''' ''Failure Details'' else [])) True"
      by (simp add: nested_def nest_append nl_txt_def el_def)
    have "nested h (True \<and> True \<and> (\<forall>c \<in> set (findall ''Test'' s). \<not> shows_failure c))"
      unfolding rows(2) by (intro nested_append nested_suite_header nested_table hd c)
    then show ?thesis using False by simp
  qed
qed

lemma nested_example: "example_html x = Inr h \<Longrightarrow> nested h (\<not> has_result x ''SKIP'')"
  unfolding example_html_def has_result_def
  by (auto simp: bindR_eq_Inr nested_def nest_append tag_def nl_txt_def el_def td_cell_def)

text \<open>C37: The html report is well nested exactly when no example was skipped and no listed test case has
  failure details: the cell of a skipped example is closed as \<open></fd>\<close> and the row of a failure as a cell.\<close>

theorem html_nesting:
  assumes "translate_to_html et = Inr h"
  shows "nest h [] = (if (\<forall>s \<in> set (findall ''Test'' et). short_suite s \<or> (\<forall>c \<in> set (findall ''Test'' s). \<not> shows_failure c))
      \<and> (\<forall>x \<in> set (findall ''Example'' et). \<not> has_result x ''SKIP'') then Some [] else None)"
proof -
  obtain suites examples where p: "mapR suite_html (findall ''Test'' et) = Inr suites" "mapR example_html (findall ''Example'' et) = Inr examples"
    and h: "h = [tag ''html'', nl_txt, tag ''body'', nl_txt, tag ''center'', tag ''h1'', Txt ''ns-3 Test Results'', End ''h1'', End ''center'', nl_txt]
         @ el ''h2'' '''' ''Test Suites'' @ concat suites
         @ el ''h2'' '''' ''Examples'' @ table_begin
         @ el ''th'' '''' '' Result '' @ el ''th'' '''' ''Example Name'' @ el ''th'' '''' ''Elapsed Time'' @ el ''th'' '''' ''Details''
         @ concat examples @ [End ''table'', nl_txt, End ''body'', nl_txt, End ''html'', nl_txt]"
    using assms by (auto simp: translate_to_html_def bindR_eq_Inr)
  have "nested (concat suites) (\<forall>s \<in> set (findall ''Test'' et). short_suite s \<or> (\<forall>c \<in> set (findall ''Test'' s). \<not> shows_failure c))"
    by (rule nested_concat_map) (use mapR_list_all2 [OF p(1)] nested_suite in \<open>auto elim!: list_all2_mono\<close>)
  moreover have "nested (concat examples) (\<forall>x \<in> set (findall ''Example'' et). \<not> has_result x ''SKIP'')"
    by (rule nested_concat_map) (use mapR_list_all2 [OF p(2)] nested_example in \<open>auto elim!: list_all2_mono\<close>)
  ultimately show ?thesis
    by (simp add: h nested_def nest_append tag_def nl_txt_def el_def table_begin_def)
qed

definition demo_results :: xml where
  "demo_results = Elem ''Results'' [] None
     [Elem ''Test'' [] None [Elem ''Result'' [] (Some ''PASS'') [], Elem ''Name'' [] (Some ''s'') [],
        Elem ''Test'' [] None [Elem ''Result'' [] (Some ''PASS'') [], Elem ''Name'' [] (Some ''c'') []]],
      Elem ''Example'' [] None [Elem ''Result'' [] (Some ''SKIP'') [], Elem ''Name'' [] (Some ''x'') []]]"

theorem html_nesting_witness:
  "\<exists>h. translate_to_html demo_results = Inr h \<and> nest h [] = None"
proof -
  obtain h where h: "translate_to_html demo_results = Inr h"
  proof -
    have "isl (translate_to_html demo_results) = False" by code_simp
    then show thesis using that by (cases "translate_to_html demo_results") auto
  qed
  have "findall ''Example'' demo_results = [Elem ''Example'' [] None [Elem ''Result'' [] (Some ''SKIP'') [], Elem ''Name'' [] (Some ''x'') []]]"
    by code_simp
  moreover have "has_result (Elem ''Example'' [] None [Elem ''Result'' [] (Some ''SKIP'') [], Elem ''Name'' [] (Some ''x'') []]) ''SKIP''"
    by (simp add: has_result_def read_test_def text_of_def find_def)
  ultimately show ?thesis using html_nesting [OF h] h by auto
qed

end
