(* ===== verification/NsConfig.thy ===== *)
theory NsConfig
  imports PyStr
begin

text \<open>
  utils.py: the configuration file .ns3rc, which is searched for lines that mention a name, whose value is
  given to \<open>eval\<close>. Of \<open>eval\<close> the literals that such files have are modelled (truth values and lists of
  plain strings); every other expression is left to the parameter \<open>other\<close>, whose value \<open>POther b s\<close> has
  the truth value \<open>b\<close>. A file is its lines, each with its
  newline, or absent.
\<close>

subsection \<open>Literals\<close>

datatype pyval = PBool bool | PList "string list" | POther bool string

definition lit_ws :: "char \<Rightarrow> bool" where
  "lit_ws c \<longleftrightarrow> c = CHR '' '' \<or> c = char_of (9 :: nat) \<or> c = char_of (10 :: nat)"

definition is_quote_char :: "char \<Rightarrow> bool" where
  "is_quote_char c \<longleftrightarrow> c = char_of (39 :: nat) \<or> c = char_of (34 :: nat)"

datatype place = Want | Inside char string | Have

fun list_literal :: "place \<Rightarrow> string list \<Rightarrow> string \<Rightarrow> string list option" where
  "list_literal p xs [] = None"
| "list_literal Want xs (c # cs) = (if lit_ws c then list_literal Want xs cs
     else if is_quote_char c then list_literal (Inside c []) xs cs
     else if c = CHR '']'' then (if list_all lit_ws cs then Some xs else None) else None)"
| "list_literal (Inside q acc) xs (c # cs) = (if c = q then list_literal Have (xs @ [acc]) cs
     else if c = char_of (92 :: nat) \<or> c = char_of (10 :: nat) then None else list_literal (Inside q (acc @ [c])) xs cs)"
| "list_literal Have xs (c # cs) = (if lit_ws c then list_literal Have xs cs
     else if c = CHR '','' then list_literal Want xs cs
     else if c = CHR '']'' then (if list_all lit_ws cs then Some xs else None) else None)"

definition py_eval :: "(string \<Rightarrow> pyval result) \<Rightarrow> string \<Rightarrow> pyval result" where
  "py_eval other s = (if s = ''True'' then Inr (PBool True) else if s = ''False'' then Inr (PBool False)
     else (case s of [] \<Rightarrow> other s | c # cs \<Rightarrow> (case (if c = CHR ''['' then list_literal Want [] cs else None) of
         Some xs \<Rightarrow> Inr (PList xs) | None \<Rightarrow> other s)))"

fun truthy :: "pyval \<Rightarrow> bool" where
  "truthy (PBool b) = b"
| "truthy (PList xs) = (xs \<noteq> [])"
| "truthy (POther b s) = b"

subsection \<open>Looking for a name\<close>

text \<open>\<open>w in s\<close>.\<close>

fun occurs :: "string \<Rightarrow> string \<Rightarrow> bool" where
  "occurs w [] = (w = [])"
| "occurs w (c # s) = (startswith (c # s) w \<or> occurs w s)"

definition strip_comment :: "string \<Rightarrow> string" where
  "strip_comment line = (case split_once CHR ''#'' line of None \<Rightarrow> line | Some (before, comment) \<Rightarrow> before)"

text \<open>\<open>eval(text.split('=', 1)[1].strip())\<close>.\<close>

definition eval_rhs :: "(string \<Rightarrow> pyval result) \<Rightarrow> string \<Rightarrow> pyval result" where
  "eval_rhs other txt0 = (case split_once CHR ''='' txt0 of None \<Rightarrow> Inl IndexError | Some (lhs, rhs) \<Rightarrow> py_eval other (strip rhs))"

fun list_loop :: "(string \<Rightarrow> pyval result) \<Rightarrow> string \<Rightarrow> string list \<Rightarrow> string \<Rightarrow> bool \<Rightarrow> pyval result" where
  "list_loop other list_name [] list_string parsing_multiline_list = Inr (PList [])"
| "list_loop other list_name (line # lines) list_string parsing_multiline_list = (let line = strip_comment line in
     if occurs list_name line \<or> parsing_multiline_list
     then (let list_string = list_string @ line in
       if CHR '']'' \<notin> set list_string then list_loop other list_name lines list_string True
       else eval_rhs other list_string)
     else list_loop other list_name lines list_string parsing_multiline_list)"

definition get_list_from_file :: "(string \<Rightarrow> pyval result) \<Rightarrow> string list option \<Rightarrow> string \<Rightarrow> pyval result" where
  "get_list_from_file other file0 list_name = (case file0 of None \<Rightarrow> Inr (PList [])
     | Some lines \<Rightarrow> list_loop other list_name lines '''' False)"

fun bool_loop :: "(string \<Rightarrow> pyval result) \<Rightarrow> string \<Rightarrow> string list \<Rightarrow> pyval option result" where
  "bool_loop other bool_name [] = Inr None"
| "bool_loop other bool_name (line # lines) = (let line = strip_comment line in
     if occurs bool_name line then bindR (eval_rhs other line) (\<lambda>v. Inr (Some v)) else bool_loop other bool_name lines)"

text \<open>\<open>bool_found\<close> is not assigned when the file is missing.\<close>

definition get_bool_from_file :: "(string \<Rightarrow> pyval result) \<Rightarrow> string list option \<Rightarrow> string \<Rightarrow> pyval \<Rightarrow> pyval result" where
  "get_bool_from_file other file0 bool_name value_if_missing = (case file0 of None \<Rightarrow> Inl UnboundLocalError
     | Some lines \<Rightarrow> bindR (bool_loop other bool_name lines) (\<lambda>v. Inr (case v of None \<Rightarrow> value_if_missing | Some b \<Rightarrow> b)))"

record ns_config =
  config_file_exists :: bool
  modules_enabled :: pyval
  examples_enabled :: pyval
  tests_enabled :: pyval

text \<open>The file in the working directory, or else the one in the home directory.\<close>

definition read_config_file :: "(string \<Rightarrow> pyval result) \<Rightarrow> string list option \<Rightarrow> string list option \<Rightarrow> ns_config result" where
  "read_config_file other here home = (let found = (case here of None \<Rightarrow> home | Some ls \<Rightarrow> Some ls) in
     if found = None then Inr \<lparr>config_file_exists = False, modules_enabled = PList [''all_modules''],
       examples_enabled = PBool False, tests_enabled = PBool False\<rparr>
     else bindR (get_list_from_file other found ''modules_enabled'') (\<lambda>modules.
       bindR (get_bool_from_file other found ''examples_enabled'' (PBool False)) (\<lambda>examples.
       bindR (get_bool_from_file other found ''tests_enabled'' (PBool False)) (\<lambda>tests.
         Inr \<lparr>config_file_exists = True, modules_enabled = (if truthy modules then modules else PList [''all_modules'']),
           examples_enabled = examples, tests_enabled = tests\<rparr>))))"

subsection \<open>Lists are found\<close>

definition plain_name :: "char \<Rightarrow> string \<Rightarrow> bool" where
  "plain_name q m \<longleftrightarrow> list_all (\<lambda>c. c \<noteq> q \<and> c \<noteq> CHR '']'' \<and> c \<noteq> char_of (92 :: nat) \<and> c \<noteq> char_of (10 :: nat)) m"

text \<open>The lines of a list, without their comments: the beginning, an item, the end.\<close>

definition opens_list :: "string \<Rightarrow> string \<Rightarrow> bool" where
  "opens_list name line \<longleftrightarrow> occurs name line \<and> (\<exists>u v w. line = u @ ''='' @ v @ ''['' @ w \<and> CHR ''='' \<notin> set u \<and> CHR '']'' \<notin> set u
     \<and> list_all lit_ws v \<and> list_all lit_ws w)"

definition gives_item :: "string \<Rightarrow> string \<Rightarrow> bool" where
  "gives_item m line \<longleftrightarrow> (\<exists>a q b. line = a @ q # m @ q # '','' @ b \<and> list_all lit_ws a \<and> list_all lit_ws b \<and> is_quote_char q \<and> plain_name q m)"

definition closes_list :: "string \<Rightarrow> bool" where
  "closes_list line \<longleftrightarrow> (\<exists>a b. line = a @ '']'' @ b \<and> list_all lit_ws a \<and> list_all lit_ws b)"

lemma bracket_not_ws [simp]: "\<not> lit_ws CHR '']''" "\<not> lit_ws CHR ''[''" "\<not> lit_ws CHR '',''" "\<not> lit_ws CHR ''=''"
  by code_simp+

lemma bracket_not_quote [simp]: "\<not> is_quote_char CHR '']''" "\<not> is_quote_char CHR ''[''"
  by code_simp+

lemma quote_not_ws: "is_quote_char q \<Longrightarrow> \<not> lit_ws q \<and> q \<noteq> CHR '']'' \<and> q \<noteq> CHR '',''"
proof -
  assume "is_quote_char q"
  then have "q = char_of (39 :: nat) \<or> q = char_of (34 :: nat)" by (simp add: is_quote_char_def)
  then show ?thesis by (elim disjE; simp only:; code_simp)
qed

lemma ws_no_bracket: "list_all lit_ws s \<Longrightarrow> CHR '']'' \<notin> set s"
  using bracket_not_ws by (auto simp: list_all_iff)

lemma literal_ws: "list_all lit_ws a \<Longrightarrow> p = Want \<or> p = Have \<Longrightarrow> list_literal p xs (a @ s) = list_literal p xs s"
  by (induction a) auto

lemma literal_inside:
  "plain_name q m \<Longrightarrow> list_literal (Inside q acc) xs (m @ q # s) = list_literal Have (xs @ [acc @ m]) s"
  by (induction m arbitrary: acc) (auto simp: plain_name_def)

lemma literal_item: "gives_item m line \<Longrightarrow> list_literal Want xs (line @ s) = list_literal Want (xs @ [m]) s"
proof -
  assume "gives_item m line"
  then obtain a q b where l: "line = a @ q # m @ q # '','' @ b" "list_all lit_ws a" "list_all lit_ws b" "is_quote_char q" "plain_name q m"
    by (auto simp: gives_item_def)
  have "list_literal Want xs (line @ s) = list_literal Want xs (q # m @ q # '','' @ b @ s)" using l by (simp add: literal_ws)
  also have "\<dots> = list_literal (Inside q []) xs (m @ q # '','' @ b @ s)" using quote_not_ws [OF l(4)] l(4) by simp
  also have "\<dots> = list_literal Have (xs @ [m]) ('','' @ b @ s)" using literal_inside [OF l(5), of "[]"] by simp
  also have "\<dots> = list_literal Want (xs @ [m]) s" using l(3) by (simp add: literal_ws)
  finally show ?thesis .
qed

lemma literal_items: "list_all2 gives_item ms ls \<Longrightarrow> list_literal Want xs (concat ls @ s) = list_literal Want (xs @ ms) s"
  by (induction ms ls arbitrary: xs rule: list_all2_induct) (simp_all add: literal_item)

lemma literal_close: "list_all lit_ws a \<Longrightarrow> list_all lit_ws b \<Longrightarrow> list_literal Want xs (a @ '']'' @ b) = Some xs"
  by (simp add: literal_ws)

lemma ws_py: "lit_ws c \<Longrightarrow> py_ws c"
  by (auto simp: lit_ws_def py_ws_def)

lemma strip_inner: "list_all py_ws a \<Longrightarrow> list_all py_ws b \<Longrightarrow> c # s = t @ [d] \<Longrightarrow> \<not> py_ws c \<Longrightarrow> \<not> py_ws d \<Longrightarrow> strip (a @ (c # s) @ b) = c # s"
proof -
  assume h: "list_all py_ws a" "list_all py_ws b" "c # s = t @ [d]" "\<not> py_ws c" "\<not> py_ws d"
  have "lstrip (a @ (c # s) @ b) = (c # s) @ b" using h(1,4) by (induction a) (simp_all add: lstrip_def)
  moreover have "rstrip ((c # s) @ b) = c # s"
  proof -
    have "rstrip (t @ [d] @ b) = t @ [d]" using h(2,5) by (induction b rule: rev_induct) (simp_all add: rstrip_def)
    then show ?thesis using h(3) by simp
  qed
  ultimately show ?thesis by (simp add: strip_def)
qed

lemma list_loop_skip:
  "list_all (\<lambda>l. \<not> occurs name (strip_comment l)) pre \<Longrightarrow> list_loop other name (pre @ ls) '''' False = list_loop other name ls '''' False"
  by (induction pre) (simp_all add: Let_def)

lemma list_loop_collect:
  assumes "list_all2 (\<lambda>m l. gives_item m (strip_comment l)) ms items" "CHR '']'' \<notin> set acc" "closes_list (strip_comment end)"
  shows "list_loop other name (items @ end # post) acc True = eval_rhs other (acc @ concat (map strip_comment items) @ strip_comment end)"
  using assms(1,2)
proof (induction ms items arbitrary: acc rule: list_all2_induct)
  case Nil
  then show ?case using assms(3) by (auto simp: Let_def closes_list_def)
next
  case (Cons m ms l items)
  have "CHR '']'' \<notin> set (strip_comment l)"
    using Cons.hyps(1) ws_no_bracket quote_not_ws by (fastforce simp: gives_item_def plain_name_def list_all_iff)
  then show ?case using Cons by (simp add: Let_def)
qed

text \<open>A list that is written over several lines, with comments behind them and lines before it that do
  not mention its name, is read as the names in it.\<close>

theorem list_in_file:
  assumes "list_all (\<lambda>l. \<not> occurs name (strip_comment l)) pre" "opens_list name (strip_comment start)"
    and "list_all2 (\<lambda>m l. gives_item m (strip_comment l)) ms items" "closes_list (strip_comment end)"
  shows "get_list_from_file other (Some (pre @ start # items @ end # post)) name = Inr (PList ms)"
proof -
  obtain u v w where s: "strip_comment start = u @ ''='' @ v @ ''['' @ w" "CHR ''='' \<notin> set u" "CHR '']'' \<notin> set u"
    "list_all lit_ws v" "list_all lit_ws w" and o: "occurs name (strip_comment start)"
    using assms(2) by (auto simp: opens_list_def)
  obtain a b where e: "strip_comment end = a @ '']'' @ b" "list_all lit_ws a" "list_all lit_ws b"
    using assms(4) by (auto simp: closes_list_def)
  have no: "CHR '']'' \<notin> set (strip_comment start)" using s ws_no_bracket by auto
  have "get_list_from_file other (Some (pre @ start # items @ end # post)) name
      = eval_rhs other (strip_comment start @ concat (map strip_comment items) @ strip_comment end)"
    using list_loop_skip [OF assms(1)] list_loop_collect [OF assms(3) no assms(4)] o no
    by (simp add: get_list_from_file_def Let_def)
  also have "\<dots> = py_eval other (strip (v @ (CHR ''['' # w @ concat (map strip_comment items) @ a @ '']'') @ b))"
    using s(2) by (simp add: eval_rhs_def s(1) e(1) split_once_append)
  also have "strip (v @ (CHR ''['' # w @ concat (map strip_comment items) @ a @ '']'') @ b) = CHR ''['' # w @ concat (map strip_comment items) @ a @ '']''"
    by (rule strip_inner [where t = "CHR ''['' # w @ concat (map strip_comment items) @ a" and d = "CHR '']''"])
      (use s(4) e(3) ws_py in \<open>auto simp: list_all_iff py_ws_def\<close>)
  also have "list_literal Want [] (w @ concat (map strip_comment items) @ a @ '']'') = Some ms"
  proof -
    have "list_all2 gives_item ms (map strip_comment items)" using assms(3) by (simp add: list_all2_map2 list_all2_conv_all_nth)
    then show ?thesis using literal_items [of ms "map strip_comment items" "[]" "a @ '']''"] literal_close [OF e(2), of "[]"] s(5)
      by (simp add: literal_ws)
  qed
  then have "py_eval other (CHR ''['' # w @ concat (map strip_comment items) @ a @ '']'') = Inr (PList ms)" by (simp add: py_eval_def)
  finally show ?thesis .
qed

definition demo_rc :: "string list" where
  "demo_rc = [''# .ns3rc'' @ [char_of (10 :: nat)], ''modules_enabled = ['' @ [char_of (10 :: nat)],
     '' '' @ [char_of (39 :: nat)] @ ''core'' @ [char_of (39 :: nat)] @ '', # first'' @ [char_of (10 :: nat)], '']'' @ [char_of (10 :: nat)]]"

theorem list_in_file_witness: "get_list_from_file (\<lambda>s. Inl GenericError) (Some demo_rc) ''modules_enabled'' = Inr (PList [''core''])"
proof -
  have pre: "list_all (\<lambda>l. \<not> occurs ''modules_enabled'' (strip_comment l)) [demo_rc ! 0]" by code_simp
  have st: "strip_comment (demo_rc ! 1) = ''modules_enabled '' @ ''='' @ '' '' @ ''['' @ [char_of (10 :: nat)]"
    "occurs ''modules_enabled'' (''modules_enabled '' @ ''='' @ '' '' @ ''['' @ [char_of (10 :: nat)])"
    "list_all lit_ws '' ''" "list_all lit_ws [char_of (10 :: nat)]"
    "CHR ''='' \<notin> set ''modules_enabled ''" "CHR '']'' \<notin> set ''modules_enabled ''" by code_simp+
  have "opens_list ''modules_enabled'' (strip_comment (demo_rc ! 1))"
    unfolding st(1) opens_list_def using st(2-6) by blast
  moreover have it: "strip_comment (demo_rc ! 2) = '' '' @ char_of (39 :: nat) # ''core'' @ char_of (39 :: nat) # '','' @ '' ''"
    "is_quote_char (char_of (39 :: nat))" "plain_name (char_of (39 :: nat)) ''core''" by code_simp+
  have "gives_item ''core'' (strip_comment (demo_rc ! 2))" unfolding it(1) gives_item_def using it(2,3) st(3) by blast
  moreover have cl: "strip_comment (demo_rc ! 3) = [] @ '']'' @ [char_of (10 :: nat)]" by code_simp
  have no: "list_all lit_ws []" by simp
  have "closes_list (strip_comment (demo_rc ! 3))" unfolding cl closes_list_def using no st(4) by blast
  ultimately have "get_list_from_file (\<lambda>s. Inl GenericError) (Some ([demo_rc ! 0] @ demo_rc ! 1 # [demo_rc ! 2] @ demo_rc ! 3 # [])) ''modules_enabled''
      = Inr (PList [''core''])"
    using list_in_file [OF pre, of "demo_rc ! 1" "[''core'']" "[demo_rc ! 2]" "demo_rc ! 3" "\<lambda>s. Inl GenericError" "[]"] by simp
  moreover have "[demo_rc ! 0] @ demo_rc ! 1 # [demo_rc ! 2] @ demo_rc ! 3 # [] = demo_rc" by (simp add: demo_rc_def)
  ultimately show ?thesis by (simp only:)
qed

lemma eval_errors: "eval_rhs other s = Inl e \<Longrightarrow> e = IndexError \<or> (\<exists>t. other t = Inl e)"
  unfolding eval_rhs_def py_eval_def by (auto split: option.splits list.splits if_splits)

lemma list_loop_errors: "list_loop other name ls acc b = Inl e \<Longrightarrow> e = IndexError \<or> (\<exists>t. other t = Inl e)"
  by (induction other name ls acc b rule: list_loop.induct) (auto simp: Let_def split: if_splits dest: eval_errors)

lemma bool_loop_errors: "bool_loop other name ls = Inl e \<Longrightarrow> e = IndexError \<or> (\<exists>t. other t = Inl e)"
proof (induction other name ls rule: bool_loop.induct)
  case (2 other name l ls)
  show ?case
  proof (cases "occurs name (strip_comment l)")
    case True
    then show ?thesis using 2(2) eval_errors [of other "strip_comment l" e] by (cases "eval_rhs other (strip_comment l)") (auto simp: Let_def)
  next
    case False
    then show ?thesis using 2 by (simp add: Let_def)
  qed
qed simp

text \<open>Without a file the defaults are used, although \<open>get_bool_from_file\<close> raises an UnboundLocalError for a
  missing file; with one, the only exceptions are an IndexError for a line without an equals sign and
  those of the expressions in the file.\<close>

theorem read_config_errors:
  "read_config_file other None None = Inr \<lparr>config_file_exists = False, modules_enabled = PList [''all_modules''],
      examples_enabled = PBool False, tests_enabled = PBool False\<rparr>
   \<and> get_bool_from_file other None name d = Inl UnboundLocalError
   \<and> (case read_config_file other here home of
        Inl e \<Rightarrow> (here, home) \<noteq> (None, None) \<and> (e = IndexError \<or> (\<exists>t. other t = Inl e))
      | Inr c \<Rightarrow> config_file_exists c = ((here, home) \<noteq> (None, None)) \<and> truthy (modules_enabled c))"
proof -
  define found where "found = (case here of None \<Rightarrow> home | Some ls \<Rightarrow> Some ls)"
  have "case read_config_file other here home of
        Inl e \<Rightarrow> found \<noteq> None \<and> (e = IndexError \<or> (\<exists>t. other t = Inl e))
      | Inr c \<Rightarrow> config_file_exists c = (found \<noteq> None) \<and> truthy (modules_enabled c)"
  proof (cases found)
    case None
    then show ?thesis by (simp add: read_config_file_def found_def [symmetric])
  next
    case (Some ls)
    then show ?thesis
      using list_loop_errors [of other "''modules_enabled''" ls "''''" False] bool_loop_errors [of other "''examples_enabled''" ls]
        bool_loop_errors [of other "''tests_enabled''" ls]
      by (auto simp: read_config_file_def found_def [symmetric] get_list_from_file_def get_bool_from_file_def bindR_def split: sum.splits)
  qed
  moreover have "found \<noteq> None \<longleftrightarrow> (here, home) \<noteq> (None, None)" by (auto simp: found_def split: option.splits)
  ultimately show ?thesis by (auto simp: read_config_file_def get_bool_from_file_def split: sum.splits)
qed

end
