(* ===== verification/Version.thy ===== *)
theory Version
  imports Regex
begin

text \<open>
  waf-tools/versioning.py: the version fields of a build, from the tags of a git repository or from a cache
  file. What git answers is a parameter: its standard output, or an error. The two patterns have optional
  parts with groups inside, so they are matched by continuations: \<open>m_rep\<close> is a greedy repetition, longest
  first, and gives the rest of the match what it took and what is left. Digits are the ASCII ones.
\<close>

subsection \<open>The patterns\<close>

definition m_rep :: "(char \<Rightarrow> bool) \<Rightarrow> (string \<Rightarrow> string \<Rightarrow> 'a option) \<Rightarrow> string \<Rightarrow> 'a option" where
  "m_rep P k s = first_some (\<lambda>n. k (take n s) (drop n s)) (rev [1..<Suc (rep_count P None s)])"

definition m_lit :: "string \<Rightarrow> (string \<Rightarrow> 'a option) \<Rightarrow> string \<Rightarrow> 'a option" where
  "m_lit w k s = (if startswith s w then k (drop (length w) s) else None)"

definition m_dot :: "(string \<Rightarrow> 'a option) \<Rightarrow> string \<Rightarrow> 'a option" where
  "m_dot k s = (case s of [] \<Rightarrow> None | c # cs \<Rightarrow> if not_newline c then k cs else None)"

definition m_or :: "'a option \<Rightarrow> 'a option \<Rightarrow> 'a option" where
  "m_or a b = (case a of None \<Rightarrow> b | Some x \<Rightarrow> Some x)"

definition is_hash_char :: "char \<Rightarrow> bool" where
  "is_hash_char c \<longleftrightarrow> is_digit c \<or> c \<in> set ''abcdefABCDEF''"

text \<open>\<open>(?:-(RC.+))?.*\<close>: the second part matches always.\<close>

definition match_rc :: "string \<Rightarrow> string option option" where
  "match_rc s = m_or (m_lit ''-RC'' (m_rep not_newline (\<lambda>t r. Some (Some (''RC'' @ t)))) s) (Some None)"

text \<open>\<open>ns-(\d+)\.(\d+)(?:.(\d+))?(?:-(RC.+))?.*\<close>\<close>

definition match_version :: "string \<Rightarrow> (string \<times> string \<times> string option \<times> string option) option" where
  "match_version = m_lit ''ns-'' (m_rep is_digit (\<lambda>major. m_lit ''.'' (m_rep is_digit (\<lambda>minor s.
     m_or (m_dot (m_rep is_digit (\<lambda>patch r. map_option (\<lambda>rc. (major, minor, Some patch, rc)) (match_rc r))) s)
       (map_option (\<lambda>rc. (major, minor, None, rc)) (match_rc s))))))"

text \<open>\<open>(.+)-(\d+)-(g[a-fA-F0-9]+)(?:-(dirty))?\<close>\<close>

definition describe_rest :: "string \<Rightarrow> string \<Rightarrow> (string \<times> string \<times> string \<times> string option) option" where
  "describe_rest tag = m_lit ''-'' (m_rep is_digit (\<lambda>dist. m_lit ''-g'' (m_rep is_hash_char (\<lambda>hash s.
     Some (tag, dist, ''g'' @ hash, if startswith s ''-dirty'' then Some ''dirty'' else None)))))"

definition match_describe :: "string \<Rightarrow> (string \<times> string \<times> string \<times> string option) option" where
  "match_describe = m_rep not_newline describe_rest"

subsection \<open>The version task\<close>

type_synonym env = "string \<Rightarrow> string option"

definition quoted :: "string \<Rightarrow> string" where
  "quoted s = [char_of (34 :: nat)] @ s @ [char_of (34 :: nat)]"

definition or_else :: "string \<Rightarrow> string option \<Rightarrow> string" where
  "or_else d x = (case x of None \<Rightarrow> d | Some s \<Rightarrow> if s = [] then d else s)"

definition parse_version_tag :: "string \<Rightarrow> env \<Rightarrow> bool \<times> env" where
  "parse_version_tag tag fields0 = (let safe_tag = strip tag in case match_version safe_tag of
     None \<Rightarrow> (False, fields0)
   | Some (major, minor, patch, rc) \<Rightarrow> (True, fields0(''VERSION_TAG'' \<mapsto> quoted safe_tag, ''VERSION_MAJOR'' \<mapsto> major,
       ''VERSION_MINOR'' \<mapsto> minor, ''VERSION_PATCH'' \<mapsto> or_else ''0'' patch,
       ''VERSION_RELEASE_CANDIDATE'' \<mapsto> quoted (or_else '''' rc))))"

text \<open>The answers of \<open>git describe --tags --dirty --long\<close> and of \<open>git describe --tags --abbrev=0 --match 'ns-3*' HEAD\<close>;
  \<open>None\<close> when the command fails.\<close>

record git_answers =
  long_out :: "string option"
  ns3_out :: "string option"

definition find_closest_tag :: "git_answers \<Rightarrow> env \<Rightarrow> py_error + env" where
  "find_closest_tag git fields0 = (case long_out git of None \<Rightarrow> Inl GenericError
     | Some out \<Rightarrow> (case match_describe out of None \<Rightarrow> Inl ValueError
       | Some (tag, dist, hash, dirty) \<Rightarrow>
           Inr (snd (parse_version_tag tag (fields0(''CLOSEST_TAG'' \<mapsto> quoted tag, ''VERSION_TAG_DISTANCE'' \<mapsto> dist,
             ''VERSION_COMMIT_HASH'' \<mapsto> quoted hash, ''VERSION_DIRTY_FLAG'' \<mapsto> (if dirty \<noteq> None then ''1'' else ''0'')))))))"

definition find_closest_ns3_tag :: "git_answers \<Rightarrow> env \<Rightarrow> py_error + env" where
  "find_closest_ns3_tag git fields0 = (case ns3_out git of None \<Rightarrow> Inl GenericError
     | Some out \<Rightarrow> (case parse_version_tag (strip out) fields0 of (ok, fields1) \<Rightarrow> if ok then Inr fields1 else Inl ValueError))"

text \<open>The state a task changes: the environment of the build and the cache file. \<open>can_store\<close> says whether the
  cache file can be written.\<close>

record build =
  build_env :: env
  cache_content :: "env option"

definition run_version :: "git_answers \<Rightarrow> bool \<Rightarrow> build \<Rightarrow> nat \<times> build" where
  "run_version git can_store b = (case find_closest_tag git Map.empty of Inl e \<Rightarrow> (1, b)
     | Inr fields0 \<Rightarrow> (case (if fields0 ''VERSION_TAG'' = None then find_closest_ns3_tag git fields0 else Inr fields0) of
         Inl e \<Rightarrow> (1, b)
       | Inr fields1 \<Rightarrow> if can_store
           then (0, b\<lparr>cache_content := Some fields1, build_env := build_env b ++ fields1\<rparr>) else (1, b)))"

subsection \<open>Configuration\<close>

text \<open>What the configuration asks: whether git is found, the outputs of \<open>git rev-parse --show-toplevel\<close> and of
  \<open>git describe --tags --abbrev=0 --match 'ns-3.[0-9]*'\<close>, and the contents of the cache files found.\<close>

record surroundings =
  git_found :: bool
  toplevel_out :: "string option"
  tags_out :: "string option"
  cache_files :: "env list"

definition check_git_repo :: "surroundings \<Rightarrow> bool" where
  "check_git_repo w = (if git_found w then (case toplevel_out w of None \<Rightarrow> False | Some out \<Rightarrow> strip out \<noteq> []) else False)"

definition check_git_repo_has_ns3_tags :: "surroundings \<Rightarrow> bool" where
  "check_git_repo_has_ns3_tags w = (case tags_out w of None \<Rightarrow> False | Some out \<Rightarrow> strip out \<noteq> [])"

text \<open>The two flags of the environment are truth values; \<open>Inl\<close> is \<open>ctx.fatal\<close>, after the flags have been set.\<close>

record version_conf =
  have_git_repo :: "bool option"
  have_ns3_repo :: "bool option"
  conf_env :: env

definition configure :: "bool \<Rightarrow> surroundings \<Rightarrow> version_conf \<Rightarrow> version_conf + version_conf" where
  "configure enable_build_version w c = (if \<not> enable_build_version then Inr c
     else (let has_git_repo = check_git_repo w;
         has_ns3_tags = (if has_git_repo then check_git_repo_has_ns3_tags w else False);
         c = c\<lparr>have_git_repo := Some has_git_repo, have_ns3_repo := Some has_ns3_tags\<rparr> in
       if has_ns3_tags then Inr c
       else (case cache_files w of [] \<Rightarrow> Inl c | cached # others \<Rightarrow> Inr (c\<lparr>conf_env := conf_env c ++ cached\<rparr>))))"

subsection \<open>Greedy repetition\<close>

lemma first_some_rev_last:
  assumes "f b = Some y" "a \<le> b" "b < c" "\<forall>n. b < n \<and> n < c \<longrightarrow> f n = None"
  shows "first_some f (rev [a..<c]) = Some y"
  using assms(3,4)
proof (induction c)
  case (Suc c)
  then show ?case
  proof (cases "b = c")
    case True
    then show ?thesis using assms(1,2) by simp
  next
    case False
    then show ?thesis using Suc assms(2) by simp
  qed
qed simp

text \<open>The repetition ends at the last place where the rest matches.\<close>

lemma m_rep_last:
  assumes "t \<noteq> []" "list_all P t" "k t r = Some y" "\<forall>n. 0 < n \<and> n \<le> length r \<longrightarrow> k (t @ take n r) (drop n r) = None"
  shows "m_rep P k (t @ r) = Some y"
  unfolding m_rep_def
proof (rule first_some_rev_last [where b = "length t"])
  have c: "rep_count P None (t @ r) \<le> length (t @ r)" unfolding rep_count_def using length_takeWhile_le [of P "t @ r"] by simp
  show "\<forall>n. length t < n \<and> n < Suc (rep_count P None (t @ r)) \<longrightarrow> k (take n (t @ r)) (drop n (t @ r)) = None"
  proof (intro allI impI)
    fix n assume n: "length t < n \<and> n < Suc (rep_count P None (t @ r))"
    then have "n - length t \<le> length r" using c unfolding length_append by arith
    then show "k (take n (t @ r)) (drop n (t @ r)) = None" using assms(4) [rule_format, of "n - length t"] n by simp
  qed
  show "length t < Suc (rep_count P None (t @ r))" using rep_count_ge [of P t None r] assms(2) by simp
  show "1 \<le> length t" using assms(1) by (cases t) simp_all
qed (use assms(3) in simp)

definition stops :: "(char \<Rightarrow> bool) \<Rightarrow> string \<Rightarrow> bool" where
  "stops P r \<longleftrightarrow> r = [] \<or> \<not> P (hd r)"

lemma rep_count_stops: "list_all P t \<Longrightarrow> stops P r \<Longrightarrow> rep_count P None (t @ r) = length t"
  by (cases r) (simp_all add: rep_count_def stops_def list_all_iff takeWhile_append takeWhile_eq_all_conv [THEN iffD2])

lemma m_rep_stops: "t \<noteq> [] \<Longrightarrow> list_all P t \<Longrightarrow> stops P r \<Longrightarrow> k t r = Some y \<Longrightarrow> m_rep P k (t @ r) = Some y"
  unfolding m_rep_def rep_count_stops by (rule first_some_rev_last [where b = "length t"]) (auto simp: Suc_le_eq)

lemma m_rep_none: "stops P r \<Longrightarrow> m_rep P k r = None"
  using rep_count_stops [of P "[]" r] by (simp add: m_rep_def)

lemma m_lit_append [simp]: "m_lit w k (w @ s) = k s"
  by (simp add: m_lit_def)

lemma m_lit_other: "\<not> startswith s w \<Longrightarrow> m_lit w k s = None"
  by (simp add: m_lit_def)

lemma m_or_simps [simp]: "m_or (Some x) b = Some x" "m_or None b = b"
  by (simp_all add: m_or_def)

subsection \<open>The answer of git describe\<close>

definition describe_text :: "string \<Rightarrow> string \<Rightarrow> string \<Rightarrow> bool \<Rightarrow> string" where
  "describe_text tag dist hash dirty = tag @ ''-'' @ dist @ ''-g'' @ hash @ (if dirty then ''-dirty'' else '''') @ [char_of (10 :: nat)]"

definition number :: "string \<Rightarrow> bool" where
  "number s \<longleftrightarrow> s \<noteq> [] \<and> list_all is_digit s"

fun no_dash_digit :: "string \<Rightarrow> bool" where
  "no_dash_digit [] = True"
| "no_dash_digit (c # s) = (\<not> (c = CHR ''-'' \<and> s \<noteq> [] \<and> is_digit (hd s)) \<and> no_dash_digit s)"

lemma no_dash_digit_drop: "no_dash_digit s \<Longrightarrow> no_dash_digit (drop n s)"
  by (induction s arbitrary: n) (auto simp: drop_Cons split: nat.splits)

lemma no_dash_digit_append: "CHR ''-'' \<notin> set t \<Longrightarrow> no_dash_digit (t @ s) = no_dash_digit s"
  by (induction t) auto

lemma dash_number_none: "no_dash_digit s \<Longrightarrow> m_lit ''-'' (m_rep is_digit k) s = None"
proof (cases "startswith s ''-''")
  case True
  assume h: "no_dash_digit s"
  from True obtain r where "s = CHR ''-'' # r" by (cases s) (auto simp: startswith_def)
  then show ?thesis using h True by (simp add: m_lit_def m_rep_none stops_def)
qed (simp add: m_lit_def)

lemma digit_not_dash: "\<not> is_digit CHR ''-''" "\<not> is_hash_char CHR ''-''" "\<not> is_hash_char (char_of (10 :: nat))" "\<not> is_digit CHR ''g''"
  "\<not> is_digit CHR ''.''" "\<not> is_digit CHR ''R''" "\<not> is_digit CHR ''d''"
  by code_simp+

lemma no_dash: "list_all is_digit s \<Longrightarrow> CHR ''-'' \<notin> set s" "list_all is_hash_char s \<Longrightarrow> CHR ''-'' \<notin> set s"
  using digit_not_dash by (auto simp: list_all_iff)

lemma describe_tail:
  assumes "number dist" "list_all is_hash_char hash"
  shows "no_dash_digit (dist @ ''-g'' @ hash @ (if dirty then ''-dirty'' else '''') @ [char_of (10 :: nat)])"
proof -
  have "no_dash_digit ((if dirty then ''-dirty'' else '''') @ [char_of (10 :: nat)])"
    by (cases dirty) (simp_all add: digit_not_dash)
  then show ?thesis using assms no_dash by (simp add: number_def no_dash_digit_append digit_not_dash)
qed

lemma describe_rest_text:
  assumes "number dist" "hash \<noteq> []" "list_all is_hash_char hash"
  shows "describe_rest tag (''-'' @ dist @ ''-g'' @ hash @ (if dirty then ''-dirty'' else '''') @ [char_of (10 :: nat)])
    = Some (tag, dist, ''g'' @ hash, if dirty then Some ''dirty'' else None)"
proof -
  define tl where "tl = (if dirty then ''-dirty'' else '''') @ [char_of (10 :: nat)]"
  have stop: "stops is_hash_char tl" using digit_not_dash by (cases dirty) (simp_all add: tl_def stops_def)
  have "startswith (char_of (10 :: nat) # []) ''-dirty'' = False" by code_simp
  then have flag: "startswith tl ''-dirty'' = dirty" by (cases dirty) (simp_all add: tl_def startswith_def)
  have hx: "m_rep is_hash_char (\<lambda>hash s. Some (tag, dist, ''g'' @ hash, if startswith s ''-dirty'' then Some ''dirty'' else None)) (hash @ tl)
     = Some (tag, dist, ''g'' @ hash, if dirty then Some ''dirty'' else None)"
    by (rule m_rep_stops) (use assms(2,3) stop flag in simp_all)
  have "stops is_digit (''-g'' @ hash @ tl)" using digit_not_dash by (simp add: stops_def)
  then show ?thesis unfolding describe_rest_def m_lit_append tl_def [symmetric]
    by (intro m_rep_stops) (use assms(1) hx in \<open>simp_all only: number_def m_lit_append not_False_eq_True\<close>)
qed

lemma match_describe_text:
  assumes "tag \<noteq> []" "list_all not_newline tag" "number dist" "hash \<noteq> []" "list_all is_hash_char hash"
  shows "match_describe (describe_text tag dist hash dirty) = Some (tag, dist, ''g'' @ hash, if dirty then Some ''dirty'' else None)"
  unfolding match_describe_def describe_text_def
proof (rule m_rep_last, rule assms(1), rule assms(2), rule describe_rest_text [OF assms(3-5)], intro allI impI)
  fix n :: nat assume "0 < n \<and> n \<le> length (''-'' @ dist @ ''-g'' @ hash @ (if dirty then ''-dirty'' else '''') @ [char_of (10 :: nat)])"
  then obtain m where n: "n = Suc m" by (cases n) auto
  have d: "drop n (''-'' @ s) = drop m s" for s :: string by (simp add: n)
  show "describe_rest (tag @ take n (''-'' @ dist @ ''-g'' @ hash @ (if dirty then ''-dirty'' else '''') @ [char_of (10 :: nat)]))
      (drop n (''-'' @ dist @ ''-g'' @ hash @ (if dirty then ''-dirty'' else '''') @ [char_of (10 :: nat)])) = None"
    unfolding describe_rest_def d by (rule dash_number_none [OF no_dash_digit_drop [OF describe_tail [OF assms(3,5)]]])
qed

subsection \<open>A release tag\<close>

definition version_tag :: "string \<Rightarrow> string \<Rightarrow> string option \<Rightarrow> string option \<Rightarrow> string" where
  "version_tag major minor patch rc = ''ns-'' @ major @ ''.'' @ minor @ (case patch of None \<Rightarrow> '''' | Some p \<Rightarrow> ''.'' @ p)
     @ (case rc of None \<Rightarrow> '''' | Some r \<Rightarrow> ''-RC'' @ r)"

definition version_ok :: "string \<Rightarrow> string \<Rightarrow> string option \<Rightarrow> string option \<Rightarrow> bool" where
  "version_ok major minor patch rc \<longleftrightarrow> number major \<and> number minor \<and> (case patch of None \<Rightarrow> True | Some p \<Rightarrow> number p)
     \<and> (case rc of None \<Rightarrow> True | Some r \<Rightarrow> is_token r)"

lemma newline_ws: "\<not> py_ws c \<Longrightarrow> not_newline c"
  by (auto simp: not_newline_def py_ws_def)

lemma number_not_ws: "number s \<Longrightarrow> c \<in> set s \<Longrightarrow> \<not> py_ws c"
  by (auto simp: number_def list_all_iff digits_not_ws)

lemma token_pieces: "\<not> py_ws CHR ''n''" "\<not> py_ws CHR ''s''" "\<not> py_ws CHR ''-''" "\<not> py_ws CHR ''.''" "\<not> py_ws CHR ''R''" "\<not> py_ws CHR ''C''"
  by code_simp+

lemma version_tag_token: "version_ok major minor patch rc \<Longrightarrow> is_token (version_tag major minor patch rc)"
  unfolding is_token_def version_tag_def version_ok_def
  by (cases patch; cases rc) (auto simp: token_pieces number_not_ws is_token_def)

lemma match_rc_text:
  assumes "case rc of None \<Rightarrow> True | Some r \<Rightarrow> is_token r"
  shows "match_rc (case rc of None \<Rightarrow> '''' | Some r \<Rightarrow> ''-RC'' @ r) = Some (map_option (\<lambda>r. ''RC'' @ r) rc)"
proof (cases rc)
  case None
  then show ?thesis by (simp add: match_rc_def m_lit_def startswith_def)
next
  case (Some r)
  then have r: "r \<noteq> []" "list_all not_newline r" using assms newline_ws by (auto simp: is_token_def list_all_iff)
  have "m_rep not_newline (\<lambda>t s. Some (Some (''RC'' @ t))) (r @ []) = Some (Some (''RC'' @ r))"
    by (rule m_rep_stops [OF r]) (simp_all add: stops_def)
  then have "m_rep not_newline (\<lambda>t s. Some (Some (''RC'' @ t))) r = Some (Some (''RC'' @ r))" by simp
  then show ?thesis unfolding Some match_rc_def option.case m_lit_append by simp
qed

lemma match_version_tag:
  assumes "version_ok major minor patch rc"
  shows "match_version (version_tag major minor patch rc) = Some (major, minor, patch, map_option (\<lambda>r. ''RC'' @ r) rc)"
proof -
  define tl where "tl = (case rc of None \<Rightarrow> '''' | Some r \<Rightarrow> ''-RC'' @ r)"
  have n: "major \<noteq> []" "list_all is_digit major" "minor \<noteq> []" "list_all is_digit minor" using assms by (auto simp: version_ok_def number_def)
  have rc: "match_rc tl = Some (map_option (\<lambda>r. ''RC'' @ r) rc)" using assms match_rc_text by (simp add: version_ok_def tl_def)
  have st: "stops is_digit tl" using digit_not_dash by (cases rc) (simp_all add: tl_def stops_def)
  have at: "m_or (m_dot (m_rep is_digit (\<lambda>patch r. map_option (\<lambda>rc. (major, minor, Some patch, rc)) (match_rc r)))
        ((case patch of None \<Rightarrow> '''' | Some p \<Rightarrow> ''.'' @ p) @ tl))
      (map_option (\<lambda>rc. (major, minor, None, rc)) (match_rc ((case patch of None \<Rightarrow> '''' | Some p \<Rightarrow> ''.'' @ p) @ tl)))
      = Some (major, minor, patch, map_option (\<lambda>r. ''RC'' @ r) rc)"
  proof (cases patch)
    case None
    have "stops is_digit (tl_tail :: string)" if "tl = c # tl_tail" for c tl_tail
      using that digit_not_dash by (cases rc) (auto simp: tl_def stops_def)
    then have "m_dot (m_rep is_digit (\<lambda>patch r. map_option (\<lambda>rc. (major, minor, Some patch, rc)) (match_rc r))) tl = None"
      by (cases tl) (simp_all add: m_dot_def m_rep_none)
    then show ?thesis using None rc by simp
  next
    case (Some p)
    then have p: "p \<noteq> []" "list_all is_digit p" using assms by (auto simp: version_ok_def number_def)
    have "m_rep is_digit (\<lambda>patch r. map_option (\<lambda>rc. (major, minor, Some patch, rc)) (match_rc r)) (p @ tl)
       = Some (major, minor, Some p, map_option (\<lambda>r. ''RC'' @ r) rc)"
      by (rule m_rep_stops [OF p st]) (simp add: rc)
    moreover have "not_newline CHR ''.''" by code_simp
    ultimately show ?thesis using Some by (simp add: m_dot_def)
  qed
  have stm: "stops is_digit ((case patch of None \<Rightarrow> '''' | Some p \<Rightarrow> ''.'' @ p) @ tl)"
    using st digit_not_dash by (cases patch) (simp_all add: stops_def)
  have stM: "stops is_digit (''.'' @ s)" for s using digit_not_dash by (simp add: stops_def)
  have mi: "m_rep is_digit (\<lambda>minor s. m_or (m_dot (m_rep is_digit (\<lambda>patch r. map_option (\<lambda>rc. (major, minor, Some patch, rc)) (match_rc r))) s)
       (map_option (\<lambda>rc. (major, minor, None, rc)) (match_rc s))) (minor @ (case patch of None \<Rightarrow> '''' | Some p \<Rightarrow> ''.'' @ p) @ tl)
     = Some (major, minor, patch, map_option (\<lambda>r. ''RC'' @ r) rc)"
    by (rule m_rep_stops, rule n(3), rule n(4), rule stm, rule at)
  show ?thesis unfolding version_tag_def match_version_def m_lit_append tl_def [symmetric]
    by (rule m_rep_stops [OF n(1,2) stM]) (simp only: m_lit_append mi)
qed

text \<open>The fields of a release.\<close>

definition release_fields :: "string \<Rightarrow> string \<Rightarrow> string option \<Rightarrow> string option \<Rightarrow> string \<Rightarrow> string \<Rightarrow> bool \<Rightarrow> env" where
  "release_fields major minor patch rc dist hash dirty = [''CLOSEST_TAG'' \<mapsto> quoted (version_tag major minor patch rc),
     ''VERSION_TAG_DISTANCE'' \<mapsto> dist, ''VERSION_COMMIT_HASH'' \<mapsto> quoted (''g'' @ hash),
     ''VERSION_DIRTY_FLAG'' \<mapsto> (if dirty then ''1'' else ''0''), ''VERSION_TAG'' \<mapsto> quoted (version_tag major minor patch rc),
     ''VERSION_MAJOR'' \<mapsto> major, ''VERSION_MINOR'' \<mapsto> minor, ''VERSION_PATCH'' \<mapsto> (case patch of None \<Rightarrow> ''0'' | Some p \<Rightarrow> p),
     ''VERSION_RELEASE_CANDIDATE'' \<mapsto> quoted (case rc of None \<Rightarrow> '''' | Some r \<Rightarrow> ''RC'' @ r)]"

lemma closest_release:
  assumes "version_ok major minor patch rc" "number dist" "hash \<noteq> []" "list_all is_hash_char hash"
  shows "find_closest_tag (git\<lparr>long_out := Some (describe_text (version_tag major minor patch rc) dist hash dirty)\<rparr>) Map.empty
    = Inr (release_fields major minor patch rc dist hash dirty)"
proof -
  have tok: "is_token (version_tag major minor patch rc)" by (rule version_tag_token [OF assms(1)])
  then have t: "version_tag major minor patch rc \<noteq> []" "list_all not_newline (version_tag major minor patch rc)"
    using newline_ws by (auto simp: is_token_def list_all_iff)
  have "or_else ''0'' patch = (case patch of None \<Rightarrow> ''0'' | Some p \<Rightarrow> p)"
    using assms(1) by (auto simp: or_else_def version_ok_def number_def split: option.splits)
  moreover have "or_else '''' (map_option (\<lambda>r. ''RC'' @ r) rc) = (case rc of None \<Rightarrow> '''' | Some r \<Rightarrow> ''RC'' @ r)"
    by (simp add: or_else_def split: option.splits)
  ultimately show ?thesis
    by (simp add: find_closest_tag_def match_describe_text [OF t assms(2-4)] parse_version_tag_def strip_token [OF tok]
        match_version_tag [OF assms(1)] release_fields_def Let_def)
qed

text \<open>C40: In a repository whose closest tag is a release the task ends with status 0, and the environment and the
  cache file have the parts of the tag, the number of commits since it, the hash and the dirty flag.\<close>

theorem version_of_release:
  assumes "version_ok major minor patch rc" "number dist" "hash \<noteq> []" "list_all is_hash_char hash"
  shows "run_version (git\<lparr>long_out := Some (describe_text (version_tag major minor patch rc) dist hash dirty)\<rparr>) True b
    = (0, b\<lparr>cache_content := Some (release_fields major minor patch rc dist hash dirty),
           build_env := build_env b ++ release_fields major minor patch rc dist hash dirty\<rparr>)"
proof -
  have "release_fields major minor patch rc dist hash dirty ''VERSION_TAG'' \<noteq> None" by (simp add: release_fields_def)
  then show ?thesis by (auto simp: run_version_def closest_release [OF assms])
qed

theorem version_of_release_witness:
  "snd (run_version \<lparr>long_out = Some (describe_text ''ns-3.30.1-RC2'' ''14'' ''ab12'' True), ns3_out = None\<rparr> True
     \<lparr>build_env = Map.empty, cache_content = None\<rparr>)
   = \<lparr>build_env = release_fields ''3'' ''30'' (Some ''1'') (Some ''2'') ''14'' ''ab12'' True,
      cache_content = Some (release_fields ''3'' ''30'' (Some ''1'') (Some ''2'') ''14'' ''ab12'' True)\<rparr>"
proof -
  have h: "version_ok ''3'' ''30'' (Some ''1'') (Some ''2'')" "number ''14''" "list_all is_hash_char ''ab12''" by code_simp+
  have t: "version_tag ''3'' ''30'' (Some ''1'') (Some ''2'') = ''ns-3.30.1-RC2''" by code_simp
  show ?thesis
    using version_of_release [OF h(1,2) _ h(3), where git = "\<lparr>long_out = None, ns3_out = None\<rparr>" and dirty = True
        and b = "\<lparr>build_env = Map.empty, cache_content = None\<rparr>"] by (simp add: t)
qed

subsection \<open>All or nothing\<close>

definition version_names :: "string list" where
  "version_names = [''CLOSEST_TAG'', ''VERSION_TAG_DISTANCE'', ''VERSION_COMMIT_HASH'', ''VERSION_DIRTY_FLAG'', ''VERSION_TAG'',
     ''VERSION_MAJOR'', ''VERSION_MINOR'', ''VERSION_PATCH'', ''VERSION_RELEASE_CANDIDATE'']"

definition has_fields :: "env \<Rightarrow> string list \<Rightarrow> bool" where
  "has_fields e ns \<longleftrightarrow> list_all (\<lambda>n. e n \<noteq> None) ns"

lemma parse_ok:
  "fst (parse_version_tag tag e) \<Longrightarrow> has_fields (snd (parse_version_tag tag e)) (drop 4 version_names)
    \<and> (has_fields e (take 4 version_names) \<longrightarrow> has_fields (snd (parse_version_tag tag e)) (take 4 version_names))"
  by (auto simp: parse_version_tag_def Let_def has_fields_def version_names_def split: option.splits)

lemma parse_tag_set: "e ''VERSION_TAG'' = None \<Longrightarrow> fst (parse_version_tag tag e) \<longleftrightarrow> snd (parse_version_tag tag e) ''VERSION_TAG'' \<noteq> None"
  by (auto simp: parse_version_tag_def Let_def split: option.splits)

lemma parse_fails: "\<not> fst (parse_version_tag tag e) \<Longrightarrow> snd (parse_version_tag tag e) = e"
  by (auto simp: parse_version_tag_def Let_def split: option.splits)

lemma ns3_tag_parsed: "find_closest_ns3_tag git e = Inr f \<Longrightarrow> \<exists>tag. fst (parse_version_tag tag e) \<and> f = snd (parse_version_tag tag e)"
  by (auto simp: find_closest_ns3_tag_def case_prod_beta split: option.splits if_splits)

lemma has_all: "has_fields e version_names \<longleftrightarrow> has_fields e (take 4 version_names) \<and> has_fields e (drop 4 version_names)"
  unfolding has_fields_def by (metis append_take_drop_id list_all_append)

lemma closest_tag_fields:
  assumes "find_closest_tag git Map.empty = Inr e"
  shows "has_fields e (take 4 version_names) \<and> (e ''VERSION_TAG'' \<noteq> None \<longrightarrow> has_fields e version_names)"
proof -
  obtain tag dist hash dirty where e: "e = snd (parse_version_tag tag [''CLOSEST_TAG'' \<mapsto> quoted tag, ''VERSION_TAG_DISTANCE'' \<mapsto> dist,
             ''VERSION_COMMIT_HASH'' \<mapsto> quoted hash, ''VERSION_DIRTY_FLAG'' \<mapsto> dirty])"
    using assms by (auto simp: find_closest_tag_def split: option.splits)
  define e0 where "e0 = [''CLOSEST_TAG'' \<mapsto> quoted tag, ''VERSION_TAG_DISTANCE'' \<mapsto> dist,
             ''VERSION_COMMIT_HASH'' \<mapsto> quoted hash, ''VERSION_DIRTY_FLAG'' \<mapsto> dirty]"
  have e0: "has_fields e0 (take 4 version_names)" "e0 ''VERSION_TAG'' = None" by (simp_all add: e0_def has_fields_def version_names_def)
  show ?thesis
  proof (cases "fst (parse_version_tag tag e0)")
    case True
    then show ?thesis using parse_ok [OF True] e0(1) by (simp add: e e0_def [symmetric] has_all)
  next
    case False
    then show ?thesis using parse_fails [OF False] e0 by (simp add: e e0_def [symmetric])
  qed
qed

text \<open>The task is all or nothing: with status 0 all nine fields have been set, and the cache file and the
  environment agree on them; with status 1 the environment and the cache file are as before.\<close>

theorem version_all_or_nothing:
  "case run_version git can_store b of (status, b') \<Rightarrow>
     if status = 0 then can_store \<and> (\<exists>f. has_fields f version_names \<and> cache_content b' = Some f \<and> build_env b' = build_env b ++ f)
     else status = 1 \<and> b' = b"
proof (cases "find_closest_tag git Map.empty")
  case (Inl err)
  then show ?thesis by (simp add: run_version_def)
next
  case (Inr e)
  note h = closest_tag_fields [OF this]
  define step where "step = (if e ''VERSION_TAG'' = None then find_closest_ns3_tag git e else Inr e)"
  have run: "run_version git can_store b = (case step of Inl err \<Rightarrow> (1, b)
       | Inr f \<Rightarrow> if can_store then (0, b\<lparr>cache_content := Some f, build_env := build_env b ++ f\<rparr>) else (1, b))"
    by (simp add: run_version_def Inr step_def)
  have "has_fields f version_names" if "step = Inr f" for f
  proof (cases "e ''VERSION_TAG'' = None")
    case True
    then have "find_closest_ns3_tag git e = Inr f" using that by (simp add: step_def)
    then obtain tag where "f = snd (parse_version_tag tag e)" "fst (parse_version_tag tag e)" using ns3_tag_parsed by blast
    then show ?thesis using parse_ok h by (simp add: has_all)
  next
    case False
    then have "step = Inr e" unfolding step_def by (rule if_not_P)
    then have "f = e" using that by simp
    then show ?thesis using h False by simp
  qed
  then show ?thesis unfolding run by (cases step) auto
qed

text \<open>Asked for, the configuration fails exactly when there is neither a repository with a tag nor a cache
  file; it says which of the two is used, and a repository with a tag leaves the environment alone.\<close>

theorem configure_outcome:
  "case configure True w c of
     Inl c' \<Rightarrow> \<not> (check_git_repo w \<and> check_git_repo_has_ns3_tags w) \<and> cache_files w = [] \<and> have_ns3_repo c' = Some False \<and> conf_env c' = conf_env c
   | Inr c' \<Rightarrow> have_git_repo c' = Some (check_git_repo w)
       \<and> have_ns3_repo c' = Some (check_git_repo w \<and> check_git_repo_has_ns3_tags w)
       \<and> conf_env c' = (if check_git_repo w \<and> check_git_repo_has_ns3_tags w then conf_env c else conf_env c ++ hd (cache_files w))"
  by (cases "check_git_repo w"; cases "check_git_repo_has_ns3_tags w"; cases "cache_files w") (simp_all add: configure_def Let_def)

end
