(* ===== verification/ModuleBuild.thy ===== *)
theory ModuleBuild
  imports NsConfig "HOL-Library.List_Lexorder"
begin

text \<open>
  wscript and contrib/wscript: which modules are enabled, what the enabled ones need, which programs and
  scripts can be built and the file that tells test.py about them. The task generators of waf are records of
  the attributes the build looks at.
\<close>

subsection \<open>Contributed modules\<close>

text \<open>The entries of a directory, in the order of \<open>listdir\<close>. A directory is a module when it has an entry
  \<open>wscript\<close>.\<close>

datatype entry = Plain | Folder "(string \<times> entry) list"

fun entry_size :: "entry \<Rightarrow> nat" where
  "entry_size Plain = 1"
| "entry_size (Folder es) = Suc (sum_list (map (\<lambda>(n, e). entry_size e) es))"

definition ignored_entry :: "string \<Rightarrow> bool" where
  "ignored_entry n \<longleftrightarrow> n = [] \<or> hd n = CHR ''.'' \<or> endswith n ''CVS''"

definition has_wscript :: "(string \<times> entry) list \<Rightarrow> bool" where
  "has_wscript es \<longleftrightarrow> ''wscript'' \<in> set (map fst es)"

definition sub_path :: "string \<Rightarrow> string \<Rightarrow> string" where
  "sub_path parent n = (if parent = [] then n else parent @ ''/'' @ n)"

lemma entry_size_pos [simp]: "0 < entry_size e"
  by (cases e) simp_all

lemma queued_size [simp]: "sum_list (map ((\<lambda>(p, n, e). entry_size e) \<circ> Pair q) es) = sum_list (map (\<lambda>(n, e). entry_size e) es)"
  by (induction es) auto

text \<open>The entries to look at, a queue, each with the path of its parent.\<close>

function contrib_loop :: "(string \<times> string \<times> entry) list \<Rightarrow> string list \<Rightarrow> string list" where
  "contrib_loop [] found = found"
| "contrib_loop ((parent, n, e) # entries) found =
     (if ignored_entry n then contrib_loop entries found
      else (case e of Plain \<Rightarrow> contrib_loop entries found
        | Folder es \<Rightarrow> (if has_wscript es then contrib_loop entries (found @ [sub_path parent n])
            else contrib_loop (entries @ map (\<lambda>(m, e). (sub_path parent n, m, e)) es) found)))"
  by pat_completeness auto
termination
  by (relation "measure (\<lambda>(entries, found). sum_list (map (\<lambda>(p, n, e). entry_size e) entries))")
    simp_all

definition find_contrib_modules :: "(string \<times> entry) list \<Rightarrow> string list" where
  "find_contrib_modules es = sort (contrib_loop (map (\<lambda>(n, e). ('''', n, e)) es) [])"

text \<open>\<open>'ns3-' + module.split('/')[-1]\<close>\<close>

definition contrib_name :: "string \<Rightarrow> string" where
  "contrib_name path = ''ns3-'' @ last (split_char CHR ''/'' path)"

subsection \<open>Enabled modules\<close>

text \<open>\<open>shared\<close>: the list of enabled modules is the object that the list of all modules is.\<close>

record modules =
  known_modules :: "string list"
  contributed_modules :: "string list"
  enabled_modules :: "string list"
  enabled_contributed :: "string list"
  shared :: bool

definition pick_module :: "modules \<Rightarrow> string \<Rightarrow> string list \<times> string list \<Rightarrow> string list \<times> string list" where
  "pick_module m module s = (case s of (enabled, contributed) \<Rightarrow>
     if module \<in> set (known_modules m) \<and> startswith module ''ns3-'' then (enabled @ [module], contributed)
     else if ''ns3-'' @ module \<in> set (known_modules m) then (enabled @ [''ns3-'' @ module], contributed)
     else if module \<in> set (contributed_modules m) \<and> startswith module ''ns3-'' then (enabled, contributed @ [module])
     else if ''ns3-'' @ module \<in> set (contributed_modules m) then (enabled, contributed @ [''ns3-'' @ module])
     else (enabled, contributed))"

text \<open>The option \<open>--enable-modules\<close>, or else the list of the configuration file.\<close>

definition choose_modules :: "string \<Rightarrow> string list \<Rightarrow> modules \<Rightarrow> modules result" where
  "choose_modules enable_modules from_file m = (let pick = (\<lambda>wanted. case fold (pick_module m) wanted ([], []) of
       (enabled, contributed) \<Rightarrow> m\<lparr>enabled_modules := enabled, enabled_contributed := contributed, shared := False\<rparr>) in
     if enable_modules \<noteq> [] then Inr (pick (split_char CHR '','' enable_modules))
     else (case from_file of [] \<Rightarrow> Inl IndexError
       | first # others \<Rightarrow> if first = ''all_modules''
           then Inr (m\<lparr>enabled_modules := known_modules m, enabled_contributed := contributed_modules m, shared := True\<rparr>)
           else Inr (pick from_file)))"

text \<open>Modules that cannot be built. Removing from a shared list removes from both.\<close>

definition remove_step :: "string \<Rightarrow> modules \<Rightarrow> modules result" where
  "remove_step not_built m = (let n = ''ns3-'' @ not_built in
     if n \<in> set (enabled_modules m)
     then (let m = m\<lparr>enabled_modules := remove1 n (enabled_modules m),
               known_modules := (if shared m then remove1 n (known_modules m) else known_modules m)\<rparr> in
       if enabled_modules m = [] then Inl WafError else Inr m)
     else if n \<in> set (enabled_contributed m)
     then Inr (m\<lparr>enabled_contributed := remove1 n (enabled_contributed m),
               contributed_modules := (if shared m then remove1 n (contributed_modules m) else contributed_modules m)\<rparr>)
     else Inr m)"

definition remove_not_built :: "string list \<Rightarrow> modules \<Rightarrow> modules result" where
  "remove_not_built not_built m = foldR remove_step not_built m"

subsection \<open>What the enabled modules need\<close>

text \<open>\<open>uses\<close>: the \<open>use\<close> of the task generator of a module, when there is one.\<close>

type_synonym enabling = "string list \<times> string list \<times> bool"

definition need_step :: "string list \<Rightarrow> string list \<Rightarrow> string \<Rightarrow> enabling \<Rightarrow> enabling result" where
  "need_step known contributed dep s = (case s of (ms, cs, changed) \<Rightarrow>
     if \<not> startswith dep ''ns3-'' then Inr (ms, cs, changed)
     else if dep \<notin> set ms \<and> dep \<notin> set cs
     then (if dep \<in> set known then Inr (ms @ [dep], cs, True)
       else if dep \<in> set contributed then Inr (ms, cs @ [dep], True)
       else Inl (SystemExit 1))
     else Inr (ms, cs, changed))"

definition needs_of :: "(string \<Rightarrow> string list option) \<Rightarrow> string list \<Rightarrow> string list \<Rightarrow> string \<Rightarrow> enabling \<Rightarrow> enabling result" where
  "needs_of uses known contributed module s = (case uses module of None \<Rightarrow> Inl ValueError
     | Some deps \<Rightarrow> foldR (need_step known contributed) deps s)"

definition close_pass :: "(string \<Rightarrow> string list option) \<Rightarrow> string list \<Rightarrow> string list \<Rightarrow> string list \<Rightarrow> string list \<Rightarrow> enabling result" where
  "close_pass uses known contributed ms cs = foldR (needs_of uses known contributed) (ms @ cs) (ms, cs, False)"

text \<open>How a pass grows the lists: what is added is new, comes from the lists of all modules and is marked.\<close>

definition grown :: "string list \<Rightarrow> string list \<Rightarrow> enabling \<Rightarrow> enabling \<Rightarrow> bool" where
  "grown known contributed s s' = (case s of (ms, cs, ch) \<Rightarrow> case s' of (ms', cs', ch') \<Rightarrow>
     \<exists>a b. ms' = ms @ a \<and> cs' = cs @ b \<and> set a \<subseteq> set known \<and> set b \<subseteq> set contributed \<and> distinct (a @ b)
       \<and> set (a @ b) \<inter> set (ms @ cs) = {} \<and> ch' = (ch \<or> a @ b \<noteq> []))"

lemma grown_refl: "grown known contributed s s"
  by (auto simp: grown_def split: prod.splits)

lemma grown_trans: "grown known contributed s t \<Longrightarrow> grown known contributed t u \<Longrightarrow> grown known contributed s u"
proof -
  assume s: "grown known contributed s t" and t: "grown known contributed t u"
  obtain ms cs ch where s0: "s = (ms, cs, ch)" by (cases s)
  obtain a b where a: "t = (ms @ a, cs @ b, ch \<or> a @ b \<noteq> [])" "set a \<subseteq> set known" "set b \<subseteq> set contributed" "distinct (a @ b)"
    "set (a @ b) \<inter> set (ms @ cs) = {}" using s s0 by (auto simp: grown_def split: prod.splits)
  obtain c d where c: "u = (ms @ a @ c, cs @ b @ d, (ch \<or> a @ b \<noteq> []) \<or> c @ d \<noteq> [])" "set c \<subseteq> set known" "set d \<subseteq> set contributed"
    "distinct (c @ d)" "set (c @ d) \<inter> set ((ms @ a) @ cs @ b) = {}" using t a(1) by (auto simp: grown_def Un_assoc split: prod.splits)
  have "\<exists>x y. ms @ a @ c = ms @ x \<and> cs @ b @ d = cs @ y \<and> set x \<subseteq> set known \<and> set y \<subseteq> set contributed \<and> distinct (x @ y)
      \<and> set (x @ y) \<inter> set (ms @ cs) = {} \<and> ((ch \<or> a @ b \<noteq> []) \<or> c @ d \<noteq> []) = (ch \<or> x @ y \<noteq> [])"
    by (rule exI [of _ "a @ c"], rule exI [of _ "b @ d"]) (use a c in auto)
  then show ?thesis unfolding grown_def s0 c(1) by simp
qed

lemma need_step_grown: "need_step known contributed dep s = Inr s' \<Longrightarrow> grown known contributed s s'"
  by (auto simp: need_step_def grown_def split: prod.splits if_splits)

lemma foldR_grown:
  assumes "\<And>x s s'. x \<in> set xs \<Longrightarrow> f x s = Inr s' \<Longrightarrow> grown known contributed s s'"
  shows "foldR f xs s = Inr s' \<Longrightarrow> grown known contributed s s'"
  using assms
proof (induction xs arbitrary: s)
  case (Cons x xs)
  then obtain t where "f x s = Inr t" "foldR f xs t = Inr s'" by (auto simp: bindR_eq_Inr)
  then show ?case using Cons grown_trans by (metis list.set_intros)
qed (simp add: grown_refl)

lemma needs_of_grown: "needs_of uses known contributed module s = Inr s' \<Longrightarrow> grown known contributed s s'"
  by (auto simp: needs_of_def split: option.splits intro: foldR_grown need_step_grown)

lemma close_pass_grown: "close_pass uses known contributed ms cs = Inr s' \<Longrightarrow> grown known contributed (ms, cs, False) s'"
  by (auto simp: close_pass_def intro: foldR_grown needs_of_grown)

function close_modules :: "(string \<Rightarrow> string list option) \<Rightarrow> string list \<Rightarrow> string list \<Rightarrow> string list \<Rightarrow> string list \<Rightarrow>
    (string list \<times> string list) result" where
  "close_modules uses known contributed ms cs = (case close_pass uses known contributed ms cs of
     Inl e \<Rightarrow> Inl e
   | Inr (ms', cs', changed) \<Rightarrow> if changed then close_modules uses known contributed ms' cs' else Inr (ms', cs'))"
  by pat_completeness auto
termination
proof (relation "measure (\<lambda>(uses, known, contributed, ms, cs). card ((set known \<union> set contributed) - set (ms @ cs)))", simp, goal_cases)
  case (1 uses known contributed ms cs s ms' r cs' changed)
  then have "grown known contributed (ms, cs, False) (ms', cs', True)" using close_pass_grown by fastforce
  then obtain a b where ab: "ms' = ms @ a" "cs' = cs @ b" "set a \<subseteq> set known" "set b \<subseteq> set contributed" "a @ b \<noteq> []"
    "set (a @ b) \<inter> set (ms @ cs) = {}" by (auto simp: grown_def)
  then obtain x where "x \<in> set (a @ b)" by (cases "a @ b") auto
  then have "(set known \<union> set contributed) - set (ms' @ cs') \<subset> (set known \<union> set contributed) - set (ms @ cs)" using ab by auto
  then show ?case by (simp add: psubset_card_mono)
qed

declare close_modules.simps [simp del]

subsection \<open>The modules that are needed\<close>

definition needs :: "(string \<Rightarrow> string list option) \<Rightarrow> string \<Rightarrow> string \<Rightarrow> bool" where
  "needs uses m d \<longleftrightarrow> (\<exists>ds. uses m = Some ds \<and> d \<in> set ds \<and> startswith d ''ns3-'')"

definition needed :: "(string \<Rightarrow> string list option) \<Rightarrow> string list \<Rightarrow> string set" where
  "needed uses start = {d. \<exists>m \<in> set start. (needs uses)\<^sup>*\<^sup>* m d}"

definition held :: "enabling \<Rightarrow> string set" where
  "held s = (case s of (ms, cs, ch) \<Rightarrow> set ms \<union> set cs)"

lemma grown_held: "grown known contributed s s' \<Longrightarrow> held s \<subseteq> held s'"
  by (auto simp: grown_def held_def split: prod.splits)

lemma needed_start: "set start \<subseteq> needed uses start"
  by (auto simp: needed_def)

lemma needed_step: "m \<in> needed uses start \<Longrightarrow> needs uses m d \<Longrightarrow> d \<in> needed uses start"
  by (auto simp: needed_def intro: rtranclp.rtrancl_into_rtrancl)

lemma needed_least:
  assumes "set start \<subseteq> A" "\<And>m d. m \<in> A \<Longrightarrow> needs uses m d \<Longrightarrow> d \<in> A"
  shows "needed uses start \<subseteq> A"
proof
  fix d assume "d \<in> needed uses start"
  then obtain m where m: "m \<in> set start" "(needs uses)\<^sup>*\<^sup>* m d" by (auto simp: needed_def)
  from m(2) show "d \<in> A" by (induction rule: rtranclp_induct) (use m(1) assms in auto)
qed

lemma need_step_held: "need_step known contributed d s = Inr s' \<Longrightarrow> held s' = held s \<union> (if startswith d ''ns3-'' then {d} else {})"
  by (auto simp: need_step_def held_def split: prod.splits if_splits)

lemma need_steps_held: "foldR (need_step known contributed) ds s = Inr s' \<Longrightarrow> held s' = held s \<union> {d \<in> set ds. startswith d ''ns3-''}"
proof (induction ds arbitrary: s)
  case (Cons d ds)
  then obtain t where "need_step known contributed d s = Inr t" "foldR (need_step known contributed) ds t = Inr s'"
    by (auto simp: bindR_eq_Inr)
  then show ?case using Cons.IH need_step_held by auto
qed simp

lemma needs_of_held: "needs_of uses known contributed m s = Inr s' \<Longrightarrow> uses m \<noteq> None \<and> held s' = held s \<union> Collect (needs uses m)"
  by (auto simp: needs_of_def needs_def need_steps_held split: option.splits)

lemma pass_held:
  "foldR (needs_of uses known contributed) xs s = Inr s' \<Longrightarrow>
     (set xs \<subseteq> dom uses) \<and> held s' = held s \<union> (\<Union>m \<in> set xs. Collect (needs uses m))"
proof (induction xs arbitrary: s)
  case (Cons m xs)
  then obtain t where "needs_of uses known contributed m s = Inr t" "foldR (needs_of uses known contributed) xs t = Inr s'"
    by (auto simp: bindR_eq_Inr)
  then show ?case using Cons.IH [of t] needs_of_held [of uses known contributed m s t] by auto
qed simp

subsection \<open>Errors\<close>

definition missing_need :: "(string \<Rightarrow> string list option) \<Rightarrow> string list \<Rightarrow> string list \<Rightarrow> string set \<Rightarrow> string set \<Rightarrow> py_error \<Rightarrow> bool" where
  "missing_need uses known contributed H A e \<longleftrightarrow> e = ValueError \<and> \<not> A \<subseteq> dom uses
     \<or> e = SystemExit 1 \<and> (\<exists>m \<in> A. \<exists>d. needs uses m d \<and> d \<notin> H \<union> set known \<union> set contributed)"

lemma need_steps_error:
  assumes "foldR (need_step known contributed) ds s = Inl e" "H \<subseteq> held s"
  shows "e = SystemExit 1 \<and> (\<exists>d \<in> set ds. startswith d ''ns3-'' \<and> d \<notin> H \<union> set known \<union> set contributed)"
  using assms
proof (induction ds arbitrary: s)
  case (Cons d ds)
  show ?case
  proof (cases "need_step known contributed d s")
    case (Inl err)
    then show ?thesis using Cons.prems by (auto simp: need_step_def held_def split: prod.splits if_splits)
  next
    case (Inr t)
    then have "H \<subseteq> held t" using need_step_held [OF Inr] Cons.prems by auto
    then show ?thesis using Cons Inr by auto
  qed
qed simp

lemma pass_error:
  assumes "foldR (needs_of uses known contributed) xs s = Inl e" "H \<subseteq> held s"
  shows "missing_need uses known contributed H (set xs) e"
  using assms
proof (induction xs arbitrary: s)
  case (Cons m xs)
  show ?case
  proof (cases "needs_of uses known contributed m s")
    case (Inl err)
    then have err: "e = err" using Cons.prems by simp
    show ?thesis
    proof (cases "uses m")
      case None
      then show ?thesis using Inl err by (auto simp: needs_of_def missing_need_def)
    next
      case (Some ds)
      then show ?thesis using Inl err need_steps_error [of known contributed ds s e H] Cons.prems(2)
        by (auto simp: needs_of_def missing_need_def needs_def)
    qed
  next
    case (Inr t)
    then have "H \<subseteq> held t" using needs_of_held [OF Inr] Cons.prems by auto
    then have "missing_need uses known contributed H (set xs) e" using Cons Inr by simp
    then show ?thesis by (auto simp: missing_need_def)
  qed
qed simp

lemma missing_need_mono: "missing_need uses known contributed H A e \<Longrightarrow> G \<subseteq> H \<Longrightarrow> A \<subseteq> B \<Longrightarrow> missing_need uses known contributed G B e"
  unfolding missing_need_def by blast

subsection \<open>The closure\<close>

lemma close_modules_step:
  assumes "set (ms @ cs) \<subseteq> N" "\<forall>m \<in> N. Collect (needs uses m) \<subseteq> N"
  shows "case close_modules uses known contributed ms cs of
     Inl e \<Rightarrow> missing_need uses known contributed (set (ms @ cs)) N e
   | Inr (ms', cs') \<Rightarrow> set (ms' @ cs') \<subseteq> N \<and> set (ms' @ cs') \<subseteq> dom uses
       \<and> (\<forall>m \<in> set (ms' @ cs'). Collect (needs uses m) \<subseteq> set (ms' @ cs'))
       \<and> (\<exists>ch. grown known contributed (ms, cs, False) (ms', cs', ch))"
  using assms
proof (induction uses known contributed ms cs rule: close_modules.induct)
  case (1 uses known contributed ms cs)
  have start: "held (ms, cs, False) = set (ms @ cs)" by (simp add: held_def)
  show ?case
  proof (cases "close_pass uses known contributed ms cs")
    case (Inl e)
    then have "missing_need uses known contributed (set (ms @ cs)) (set (ms @ cs)) e"
      using pass_error [of uses known contributed "ms @ cs" "(ms, cs, False)" e "set (ms @ cs)"] by (simp add: close_pass_def held_def)
    then have "missing_need uses known contributed (set (ms @ cs)) N e" by (rule missing_need_mono [OF _ subset_refl 1(2)])
    then show ?thesis using Inl by (simp add: close_modules.simps [of uses known contributed ms cs])
  next
    case (Inr t)
    obtain ms' cs' changed where t: "t = (ms', cs', changed)" by (cases t)
    have pass: "close_pass uses known contributed ms cs = Inr (ms', cs', changed)" using Inr t by simp
    have held: "set (ms @ cs) \<subseteq> dom uses" "set (ms' @ cs') = set (ms @ cs) \<union> (\<Union>m \<in> set (ms @ cs). Collect (needs uses m))"
      using pass_held [OF pass [unfolded close_pass_def]] by (auto simp: held_def)
    have g: "grown known contributed (ms, cs, False) (ms', cs', changed)" by (rule close_pass_grown [OF pass])
    have sub: "set (ms' @ cs') \<subseteq> N" using held(2) 1(2,3) by blast
    show ?thesis
    proof (cases changed)
      case True
      note rec = 1(1) [OF pass refl refl True sub 1(3)]
      have eq: "close_modules uses known contributed ms cs = close_modules uses known contributed ms' cs'"
        using pass True by (simp add: close_modules.simps [of uses known contributed ms cs])
      show ?thesis
      proof (cases "close_modules uses known contributed ms' cs'")
        case (Inl e)
        then have "missing_need uses known contributed (set (ms' @ cs')) N e" using rec by simp
        then have "missing_need uses known contributed (set (ms @ cs)) N e" by (rule missing_need_mono) (use held(2) in auto)
        then show ?thesis using Inl eq by simp
      next
        case (Inr u)
        obtain ms2 cs2 where u: "u = (ms2, cs2)" by (cases u)
        have "grown known contributed (ms', cs', False) (ms2, cs2, ch) \<Longrightarrow> \<exists>ch. grown known contributed (ms, cs, False) (ms2, cs2, ch)" for ch
        proof -
          assume "grown known contributed (ms', cs', False) (ms2, cs2, ch)"
          then have "grown known contributed (ms', cs', changed) (ms2, cs2, True)" using True by (auto simp: grown_def)
          then show ?thesis using grown_trans [OF g] by blast
        qed
        then show ?thesis using rec Inr u eq by auto
      qed
    next
      case False
      then have same: "ms' = ms" "cs' = cs" using g by (auto simp: grown_def)
      have "close_modules uses known contributed ms cs = Inr (ms, cs)"
        using pass False same by (simp add: close_modules.simps [of uses known contributed ms cs])
      moreover have "\<forall>m \<in> set (ms @ cs). Collect (needs uses m) \<subseteq> set (ms @ cs)" using held(2) same by auto
      ultimately show ?thesis using 1(2) held(1) grown_refl [of known contributed "(ms, cs, False)"] by auto
    qed
  qed
qed

text \<open>C12: The loop that enables what the enabled modules need ends with exactly the modules that are needed,
  directly or through others. The ones given stay in front, each of the others is added once, to the list it
  comes from. It fails only when a needed module has no task generator or is in neither list.\<close>

theorem close_modules_exact:
  "case close_modules uses known contributed ms cs of
     Inr (ms', cs') \<Rightarrow> set ms' \<union> set cs' = needed uses (ms @ cs) \<and> needed uses (ms @ cs) \<subseteq> dom uses
       \<and> (\<exists>a b. ms' = ms @ a \<and> cs' = cs @ b \<and> set a \<subseteq> set known \<and> set b \<subseteq> set contributed
             \<and> distinct (a @ b) \<and> set (a @ b) \<inter> set (ms @ cs) = {})
   | Inl e \<Rightarrow> e = ValueError \<and> \<not> needed uses (ms @ cs) \<subseteq> dom uses
       \<or> e = SystemExit 1 \<and> \<not> needed uses (ms @ cs) \<subseteq> set (ms @ cs) \<union> set known \<union> set contributed"
proof -
  define N where "N = needed uses (ms @ cs)"
  have N: "set (ms @ cs) \<subseteq> N" "\<forall>m \<in> N. Collect (needs uses m) \<subseteq> N" unfolding N_def
    by (rule needed_start) (auto intro: needed_step)
  note step = close_modules_step [OF N, of known contributed]
  show ?thesis
  proof (cases "close_modules uses known contributed ms cs")
    case (Inl e)
    then have "missing_need uses known contributed (set (ms @ cs)) N e" using step by simp
    then show ?thesis unfolding N_def [symmetric] using Inl N(2) by (auto simp: missing_need_def)
  next
    case (Inr u)
    obtain ms' cs' where u: "u = (ms', cs')" by (cases u)
    have c: "set (ms' @ cs') \<subseteq> N" "set (ms' @ cs') \<subseteq> dom uses" "\<forall>m \<in> set (ms' @ cs'). Collect (needs uses m) \<subseteq> set (ms' @ cs')"
      and g: "\<exists>ch. grown known contributed (ms, cs, False) (ms', cs', ch)"
      using step Inr u by auto
    have "set (ms @ cs) \<subseteq> set (ms' @ cs')" using g by (auto simp: grown_def)
    then have "N \<subseteq> set (ms' @ cs')" unfolding N_def by (rule needed_least) (use c(3) in auto)
    then have "set ms' \<union> set cs' = N" "N \<subseteq> dom uses" using c(1,2) by auto
    then show ?thesis unfolding N_def [symmetric] using Inr u g by (auto simp: grown_def)
  qed
qed

subsection \<open>Contributed modules, top down\<close>

text \<open>The modules below an entry: the outermost directories with a \<open>wscript\<close>.\<close>

function modules_in :: "string \<Rightarrow> string \<Rightarrow> entry \<Rightarrow> string list" where
  "modules_in parent n e = (if ignored_entry n then [] else (case e of Plain \<Rightarrow> []
     | Folder es \<Rightarrow> if has_wscript es then [sub_path parent n] else concat (map (\<lambda>(m, e). modules_in (sub_path parent n) m e) es)))"
  by pat_completeness auto
termination
proof (relation "measure (\<lambda>(p, n, e). entry_size e)", simp, goal_cases)
  case (1 parent n e es x m e')
  then have "(m, e') \<in> set es" by simp
  then have "entry_size e' \<le> sum_list (map (\<lambda>(n, e). entry_size e) es)"
    by (intro member_le_sum_list) (auto simp: rev_image_eqI)
  then show ?case using 1 by (auto simp: less_Suc_eq_le)
qed

declare modules_in.simps [simp del]

lemma contrib_loop_mset: "mset (contrib_loop entries found) = mset found + mset (concat (map (\<lambda>(p, n, e). modules_in p n e) entries))"
proof (induction entries found rule: contrib_loop.induct)
  case (2 parent n e entries found)
  show ?case
  proof (cases e)
    case Plain
    then show ?thesis using 2 by (simp add: modules_in.simps [of parent n Plain])
  next
    case (Folder es)
    then show ?thesis using 2 by (simp add: modules_in.simps [of parent n "Folder es"] comp_def case_prod_unfold)
  qed
qed simp

theorem find_contrib_exact: "find_contrib_modules es = sort (concat (map (\<lambda>(n, e). modules_in '''' n e) es))"
proof -
  have "mset (contrib_loop (map (\<lambda>(n, e). ('''', n, e)) es) []) = mset (concat (map (\<lambda>(n, e). modules_in '''' n e) es))"
    by (simp add: contrib_loop_mset comp_def case_prod_unfold)
  then show ?thesis unfolding find_contrib_modules_def by (metis sorted_list_of_multiset_mset)
qed

subsection \<open>What is built\<close>

text \<open>A task generator: its name, the features that it has, its module, the modules a program depends on, the
  module a test library is for, the directory of what it builds relative to the launch directory, and whether
  its headers are removed instead of installed.\<close>

record tgen =
  g_name :: string
  g_features :: "string list"
  g_module :: "string option"
  g_needs :: "string list option"
  g_is_module :: bool
  g_tests :: "string option"
  g_dir :: string
  g_removes :: bool

definition is_on :: "string list \<times> string list \<Rightarrow> string \<Rightarrow> bool" where
  "is_on en n \<longleftrightarrow> n \<in> set (fst en) \<or> n \<in> set (snd en)"

text \<open>\<open>obj.module\<close>, an attribute that only some generators have.\<close>

definition module_off :: "string list \<times> string list \<Rightarrow> string \<Rightarrow> bool \<Rightarrow> tgen \<Rightarrow> bool result" where
  "module_off en before test g = (if \<not> test then Inr False
     else (case g_module g of None \<Rightarrow> Inl AttributeError | Some m \<Rightarrow> Inr (\<not> is_on en (before @ m))))"

definition has_feature :: "tgen \<Rightarrow> string \<Rightarrow> bool" where
  "has_feature g f \<longleftrightarrow> f \<in> set (g_features g)"

definition program_path :: "string \<Rightarrow> string \<Rightarrow> tgen \<Rightarrow> string" where
  "program_path app_version suffix g = path_join (g_dir g) (app_version @ ''-'' @ g_name g @ suffix)"

definition program_on :: "string list \<times> string list \<Rightarrow> tgen \<Rightarrow> bool" where
  "program_on en g = (case g_needs g of None \<Rightarrow> True | Some ds \<Rightarrow> list_all (is_on en) ds)"

text \<open>One generator: it is kept or excluded, and a program whose modules are all enabled is runnable.\<close>

definition select_step :: "string \<Rightarrow> string \<Rightarrow> bool \<Rightarrow> string list \<times> string list \<Rightarrow> tgen \<Rightarrow> tgen list \<times> string list \<Rightarrow>
    (tgen list \<times> string list) result" where
  "select_step app_version suffix enable_tests en g s = (case s of (kept, programs) \<Rightarrow>
     bindR (module_off en ''ns3-'' (has_feature g ''ns3moduleheader'') g) (\<lambda>h1.
     bindR (module_off en ''ns3-'' (has_feature g ''ns3header'') g) (\<lambda>h2.
     bindR (module_off en ''ns3-'' (has_feature g ''ns3privateheader'') g) (\<lambda>h3.
     bindR (module_off en '''' (has_feature g ''ns3pcfile'') g) (\<lambda>pc.
     bindR (module_off en ''ns3-'' (occurs ''pybindgen'' (g_name g)) g) (\<lambda>py.
     bindR (module_off en ''ns3-'' (has_feature g ''pyext'') g) (\<lambda>ext.
       let test_off = (case g_tests g of None \<Rightarrow> False | Some m \<Rightarrow> \<not> enable_tests \<or> \<not> is_on en m);
         out = (\<not> program_on en g \<or> (g_is_module g \<and> \<not> is_on en (g_name g)) \<or> test_off \<or> pc \<or> py \<or> ext);
         programs = (if g_needs g \<noteq> None \<and> program_on en g then programs @ [program_path app_version suffix g] else programs)
       in Inr (if out then kept else kept @ [g\<lparr>g_removes := g_removes g \<or> h1 \<or> h2 \<or> h3\<rparr>], programs))))))))"

text \<open>The scripts; without an enabled module the names \<open>modules\<close> and \<open>contribModules\<close> are not bound.\<close>

definition select_scripts :: "(string list \<times> string list) option \<Rightarrow> (string \<times> string list) list \<Rightarrow> string list result" where
  "select_scripts bound scripts = (case bound of
     None \<Rightarrow> if list_all (\<lambda>(script, deps). deps = []) scripts then Inr (map fst scripts) else Inl UnboundLocalError
   | Some en \<Rightarrow> Inr (map fst (filter (\<lambda>(script, deps). list_all (is_on en) deps) scripts)))"

record built =
  b_enabled :: "string list"
  b_contributed :: "string list"
  b_kept :: "tgen list"
  b_test_libraries :: "string list"
  b_programs :: "string list"
  b_scripts :: "string list"

definition build_modules :: "string \<Rightarrow> string \<Rightarrow> bool \<Rightarrow> (string \<Rightarrow> string list option) \<Rightarrow> modules \<Rightarrow> (string \<times> string) list \<Rightarrow>
    tgen list \<Rightarrow> (string \<times> string list) list \<Rightarrow> built result" where
  "build_modules app_version suffix enable_tests uses m test_libraries tgens scripts =
     (if enabled_modules m = [] \<and> enabled_contributed m = []
      then bindR (select_scripts None scripts) (\<lambda>ss.
        Inr \<lparr>b_enabled = [], b_contributed = [], b_kept = tgens, b_test_libraries = [], b_programs = [], b_scripts = ss\<rparr>)
      else bindR (close_modules uses (known_modules m) (contributed_modules m) (enabled_modules m) (enabled_contributed m)) (\<lambda>en.
        bindR (foldR (select_step app_version suffix enable_tests en) tgens ([], [])) (\<lambda>(kept, programs).
        bindR (select_scripts (Some en) scripts) (\<lambda>ss.
          Inr \<lparr>b_enabled = fst en, b_contributed = snd en, b_kept = kept,
            b_test_libraries = (if enable_tests then map snd (filter (\<lambda>(md, lib). is_on en md) test_libraries) else []),
            b_programs = programs, b_scripts = ss\<rparr>))))"

subsection \<open>The build status file\<close>

definition hex_char :: "nat \<Rightarrow> char" where
  "hex_char d = ''0123456789abcdef'' ! d"

definition repr_char :: "char \<Rightarrow> char \<Rightarrow> string" where
  "repr_char q c = (let n = (of_char c :: nat); bs = char_of (92 :: nat) in
     if c = bs \<or> c = q then [bs, c]
     else if n = 10 then [bs, CHR ''n''] else if n = 13 then [bs, CHR ''r''] else if n = 9 then [bs, CHR ''t'']
     else if n < 32 \<or> (127 \<le> n \<and> n < 161) \<or> n = 173 then [bs, CHR ''x'', hex_char (n div 16), hex_char (n mod 16)]
     else [c])"

definition py_repr_str :: "string \<Rightarrow> string" where
  "py_repr_str s = (let q = (if char_of (39 :: nat) \<in> set s \<and> char_of (34 :: nat) \<notin> set s then char_of (34 :: nat) else char_of (39 :: nat))
     in [q] @ concat (map (repr_char q) s) @ [q])"

definition py_repr_list :: "string list \<Rightarrow> string" where
  "py_repr_list xs = ''['' @ join '', '' (map py_repr_str xs) @ '']''"

definition status_line :: "string \<Rightarrow> string" where
  "status_line s = s @ [char_of (10 :: nat)]"

definition build_status :: "string list \<Rightarrow> string list \<Rightarrow> string list" where
  "build_status programs scripts = map status_line [''#! /usr/bin/env python3'', '''', ''# Programs that are runnable.'',
     ''ns3_runnable_programs = '' @ py_repr_list programs, '''', ''# Scripts that are runnable.'',
     ''ns3_runnable_scripts = '' @ py_repr_list scripts, '''']"

text \<open>The modules at the end of a build, sorted, in three columns.\<close>

fun module_columns :: "nat \<Rightarrow> string list \<Rightarrow> string" where
  "module_columns i [] = ''''"
| "module_columns i [n] = n @ [char_of (10 :: nat)]"
| "module_columns i (n # ns) = (if i mod 3 = 2 then n @ [char_of (10 :: nat)] else n @ replicate (25 - length n) CHR '' '' @ '' '')
     @ module_columns (Suc i) ns"

definition print_module_names :: "string list \<Rightarrow> string" where
  "print_module_names names = module_columns 0 (sort names)"

definition built_names :: "string list \<Rightarrow> string list \<Rightarrow> string list" where
  "built_names bindings names = map (\<lambda>n. drop 4 n @ (if n \<in> set bindings then '''' else '' (no Python)'')) names"

subsection \<open>The build is consistent\<close>

lemma module_off_True: "module_off en before test g = Inr False \<Longrightarrow> test \<Longrightarrow> \<exists>m. g_module g = Some m \<and> is_on en (before @ m)"
  by (auto simp: module_off_def split: option.splits)

definition sound_tgen :: "bool \<Rightarrow> string list \<times> string list \<Rightarrow> tgen \<Rightarrow> bool" where
  "sound_tgen enable_tests en g \<longleftrightarrow> program_on en g \<and> (if g_is_module g then is_on en (g_name g) else True)
     \<and> (case g_tests g of None \<Rightarrow> True | Some m \<Rightarrow> enable_tests \<and> is_on en m)"

lemma select_step_sound:
  assumes "select_step app_version suffix enable_tests en g (kept, programs) = Inr (kept', programs')"
  shows "list_all (sound_tgen enable_tests en) kept \<Longrightarrow> list_all (sound_tgen enable_tests en) kept'"
    and "programs' = programs @ map (program_path app_version suffix) (filter (\<lambda>g. g_needs g \<noteq> None \<and> program_on en g) [g])"
  using assms by (auto simp: select_step_def Let_def bindR_eq_Inr sound_tgen_def program_on_def split: if_splits option.splits)

lemma select_sound:
  assumes "foldR (select_step app_version suffix enable_tests en) gs (kept, programs) = Inr (kept', programs')"
  shows "list_all (sound_tgen enable_tests en) kept \<Longrightarrow> list_all (sound_tgen enable_tests en) kept'"
    and "programs' = programs @ map (program_path app_version suffix) (filter (\<lambda>g. g_needs g \<noteq> None \<and> program_on en g) gs)"
proof -
  have "(list_all (sound_tgen enable_tests en) kept \<longrightarrow> list_all (sound_tgen enable_tests en) kept')
    \<and> programs' = programs @ map (program_path app_version suffix) (filter (\<lambda>g. g_needs g \<noteq> None \<and> program_on en g) gs)"
    using assms
  proof (induction gs arbitrary: kept programs)
    case (Cons g gs)
    then obtain k p where s: "select_step app_version suffix enable_tests en g (kept, programs) = Inr (k, p)"
      "foldR (select_step app_version suffix enable_tests en) gs (k, p) = Inr (kept', programs')" by (auto simp: bindR_eq_Inr)
    show ?case using Cons.IH [OF s(2)] select_step_sound [OF s(1)] by auto
  qed simp
  then show "list_all (sound_tgen enable_tests en) kept \<Longrightarrow> list_all (sound_tgen enable_tests en) kept'"
    "programs' = programs @ map (program_path app_version suffix) (filter (\<lambda>g. g_needs g \<noteq> None \<and> program_on en g) gs)" by auto
qed

lemma close_modules_needs:
  assumes "close_modules uses known contributed ms cs = Inr en" "is_on en n"
  shows "uses n \<noteq> None \<and> Collect (needs uses n) \<subseteq> Collect (is_on en)"
proof -
  obtain ms' cs' where en: "en = (ms', cs')" by (cases en)
  have "\<forall>m \<in> needed uses (ms @ cs). Collect (needs uses m) \<subseteq> needed uses (ms @ cs)" by (auto intro: needed_step)
  then have "set (ms' @ cs') \<subseteq> dom uses \<and> (\<forall>m \<in> set (ms' @ cs'). Collect (needs uses m) \<subseteq> set (ms' @ cs'))"
    using close_modules_step [of ms cs "needed uses (ms @ cs)" uses known contributed, OF needed_start] assms(1) en by simp
  moreover have "Collect (is_on en) = set (ms' @ cs')" by (auto simp: is_on_def en)
  ultimately show ?thesis using assms(2) by (metis domD mem_Collect_eq option.distinct(1) subsetD)
qed

text \<open>C13: When the build goes through, what it builds is closed: of every module that it enables all needed
  modules are enabled; no program, no module and no test library is kept whose modules are not; and the runnable
  programs and scripts are, in order, those whose modules are all enabled.\<close>

theorem build_closed:
  assumes "build_modules app_version suffix enable_tests uses m libraries gens scripts = Inr b"
    and "enabled_modules m \<noteq> [] \<or> enabled_contributed m \<noteq> []" "en = (b_enabled b, b_contributed b)"
  shows "list_all (\<lambda>n. Collect (needs uses n) \<subseteq> Collect (is_on en)) (b_enabled b @ b_contributed b)
    \<and> list_all (sound_tgen enable_tests en) (b_kept b)
    \<and> b_programs b = map (program_path app_version suffix) (filter (\<lambda>g. g_needs g \<noteq> None \<and> program_on en g) gens)
    \<and> b_scripts b = map fst (filter (\<lambda>(script, deps). list_all (is_on en) deps) scripts)
    \<and> set (enabled_modules m) \<subseteq> set (b_enabled b)"
proof -
  obtain en' kept programs ss where
    c: "close_modules uses (known_modules m) (contributed_modules m) (enabled_modules m) (enabled_contributed m) = Inr en'"
    and f: "foldR (select_step app_version suffix enable_tests en') gens ([], []) = Inr (kept, programs)"
    and s: "select_scripts (Some en') scripts = Inr ss"
    and b: "b_enabled b = fst en'" "b_contributed b = snd en'" "b_kept b = kept" "b_programs b = programs" "b_scripts b = ss"
    using assms(1,2) by (auto simp: build_modules_def bindR_eq_Inr split: if_splits prod.splits)
  have en: "en' = en" using b(1,2) assms(3) by simp
  have "list_all (\<lambda>n. Collect (needs uses n) \<subseteq> Collect (is_on en)) (b_enabled b @ b_contributed b)"
    using close_modules_needs [OF c] b(1,2) en by (auto simp: list_all_iff is_on_def)
  moreover have "set (enabled_modules m) \<subseteq> set (b_enabled b)"
    using close_modules_step [of "enabled_modules m" "enabled_contributed m" UNIV uses "known_modules m" "contributed_modules m"] c b(1)
    by (cases en') (auto simp: grown_def)
  ultimately show ?thesis using select_sound [OF f] s b en by (simp add: select_scripts_def)
qed

definition demo_uses :: "string \<Rightarrow> string list option" where
  "demo_uses = map_of [(''ns3-core'', []), (''ns3-net'', [''ns3-core'', ''GTK'']), (''ns3-lte'', [''ns3-net''])]"

definition demo_modules :: modules where
  "demo_modules = \<lparr>known_modules = [''ns3-core'', ''ns3-lte'', ''ns3-net''], contributed_modules = [], enabled_modules = [''ns3-net''],
     enabled_contributed = [], shared = False\<rparr>"

definition demo_tgen :: "string \<Rightarrow> string list option \<Rightarrow> bool \<Rightarrow> tgen" where
  "demo_tgen n ds md = \<lparr>g_name = n, g_features = [], g_module = None, g_needs = ds, g_is_module = md, g_tests = None,
     g_dir = ''build'', g_removes = False\<rparr>"

definition demo_gens :: "tgen list" where
  "demo_gens = [demo_tgen ''ns3-lte'' None True, demo_tgen ''ns3-net'' None True, demo_tgen ''udp'' (Some [''ns3-net'']) False,
     demo_tgen ''cell'' (Some [''ns3-core'', ''ns3-lte'']) False]"

definition demo_built :: built where
  "demo_built = \<lparr>b_enabled = [''ns3-net'', ''ns3-core''], b_contributed = [],
     b_kept = [demo_tgen ''ns3-net'' None True, demo_tgen ''udp'' (Some [''ns3-net'']) False],
     b_test_libraries = [], b_programs = [''build/ns3-dev-udp''], b_scripts = [''a.py'']\<rparr>"

theorem build_closed_witness:
  "b_programs demo_built = map (program_path ''ns3-dev'' '''') (filter (\<lambda>g. g_needs g \<noteq> None
     \<and> program_on ([''ns3-net'', ''ns3-core''], []) g) demo_gens)"
proof -
  have "build_modules ''ns3-dev'' '''' True demo_uses demo_modules [] demo_gens [(''a.py'', [''ns3-core'']), (''b.py'', [''ns3-lte''])]
      = Inr demo_built" by code_simp
  moreover have "enabled_modules demo_modules \<noteq> []" "([''ns3-net'', ''ns3-core''], []) = (b_enabled demo_built, b_contributed demo_built)"
    by (simp_all add: demo_modules_def demo_built_def)
  ultimately show ?thesis using build_closed by blast
qed

subsection \<open>What the tests see\<close>

text \<open>A name whose text is itself between quotes and that the reader of the status file does not cut.\<close>

definition plain_item :: "string \<Rightarrow> bool" where
  "plain_item s \<longleftrightarrow> list_all (\<lambda>c. let n = (of_char c :: nat) in 32 \<le> n \<and> n < 127 \<and> n \<noteq> 39 \<and> n \<noteq> 92 \<and> c \<noteq> CHR '']'' \<and> c \<noteq> CHR ''#'') s"

lemma plain_char:
  assumes "32 \<le> (of_char c :: nat)" "(of_char c :: nat) < 127" "(of_char c :: nat) \<noteq> 39" "(of_char c :: nat) \<noteq> 92"
  shows "repr_char (char_of (39 :: nat)) c = [c] \<and> c \<noteq> char_of (39 :: nat) \<and> c \<noteq> char_of (92 :: nat) \<and> c \<noteq> char_of (10 :: nat)"
proof -
  have "c \<noteq> char_of (39 :: nat)" "c \<noteq> char_of (92 :: nat)" "c \<noteq> char_of (10 :: nat)" using assms by auto
  then show ?thesis using assms by (simp add: repr_char_def Let_def)
qed

lemma plain_repr: "plain_item s \<Longrightarrow> py_repr_str s = char_of (39 :: nat) # s @ [char_of (39 :: nat)]"
proof -
  assume p: "plain_item s"
  then have "char_of (39 :: nat) \<notin> set s" using plain_char by (auto simp: plain_item_def list_all_iff Let_def)
  moreover have "concat (map (repr_char (char_of (39 :: nat))) s) = s"
    using p plain_char by (induction s) (auto simp: plain_item_def Let_def)
  ultimately show ?thesis by (simp add: py_repr_str_def Let_def)
qed

lemma plain_item_name: "plain_item s \<Longrightarrow> plain_name (char_of (39 :: nat)) s"
  using plain_char by (auto simp: plain_item_def plain_name_def list_all_iff Let_def)

lemma quote_is: "is_quote_char (char_of (39 :: nat))" "\<not> lit_ws (char_of (39 :: nat))" "char_of (39 :: nat) \<noteq> CHR '']''"
  "\<not> lit_ws CHR ''['' " "lit_ws CHR '' ''"
  by code_simp+

lemma literal_first: "plain_item s \<Longrightarrow> list_literal Want xs (py_repr_str s @ t) = list_literal Have (xs @ [s]) t"
  using literal_inside [OF plain_item_name, of s "[]" xs t] quote_is by (simp add: plain_repr)

lemma literal_join: "list_all plain_item ss \<Longrightarrow> list_literal Want xs (join '', '' (map py_repr_str ss) @ '']'') = Some (xs @ ss)"
proof (induction ss arbitrary: xs rule: induct_list012)
  case (2 s)
  then show ?case using literal_first [of s xs "'']''"] by simp
next
  case (3 s t ss)
  then show ?case using literal_first [of s xs "'', '' @ join '', '' (map py_repr_str (t # ss)) @ '']''"] quote_is by simp
qed simp

lemma eval_repr_list: "list_all plain_item ss \<Longrightarrow> py_eval other (py_repr_list ss) = Inr (PList ss)"
  using literal_join [of ss "[]"] by (simp add: py_eval_def py_repr_list_def)

lemma in_join: "c \<in> set (join sep xs) \<Longrightarrow> c \<in> set sep \<or> (\<exists>x \<in> set xs. c \<in> set x)"
  by (induction sep xs rule: join.induct) auto

lemma hash_not_quote: "CHR ''#'' \<noteq> char_of (39 :: nat)"
  by code_simp

lemma plain_no_hash: "plain_item s \<Longrightarrow> CHR ''#'' \<notin> set (py_repr_str s)"
  using hash_not_quote by (auto simp: plain_repr plain_item_def list_all_iff Let_def)

lemma repr_no_hash: "list_all plain_item ss \<Longrightarrow> CHR ''#'' \<notin> set (py_repr_list ss)"
  unfolding py_repr_list_def using plain_no_hash by (auto simp: list_all_iff dest!: in_join)

lemma strip_status: "list_all plain_item ss \<Longrightarrow> CHR ''#'' \<notin> set name \<Longrightarrow>
  strip_comment (status_line (name @ '' = '' @ py_repr_list ss)) = name @ '' = '' @ py_repr_list ss @ [char_of (10 :: nat)]"
proof -
  assume p: "list_all plain_item ss" "CHR ''#'' \<notin> set name"
  have "CHR ''#'' \<noteq> char_of (10 :: nat)" by code_simp
  then have "CHR ''#'' \<notin> set (name @ '' = '' @ py_repr_list ss @ [char_of (10 :: nat)])" using p repr_no_hash by auto
  then have "split_once CHR ''#'' (name @ '' = '' @ py_repr_list ss @ [char_of (10 :: nat)]) = None" by (simp only: split_once_None not_False_eq_True)
  then show ?thesis by (simp add: strip_comment_def status_line_def)
qed

lemma eval_status: "list_all plain_item ss \<Longrightarrow> CHR ''='' \<notin> set name \<Longrightarrow>
  eval_rhs other (name @ '' = '' @ py_repr_list ss @ [char_of (10 :: nat)]) = Inr (PList ss)"
proof -
  assume p: "list_all plain_item ss" "CHR ''='' \<notin> set name"
  have "strip ('' '' @ (CHR ''['' # (join '', '' (map py_repr_str ss) @ '']'')) @ [char_of (10 :: nat)]) = CHR ''['' # (join '', '' (map py_repr_str ss) @ '']'')"
    by (rule strip_inner [where t = "CHR ''['' # join '', '' (map py_repr_str ss)" and d = "CHR '']''"]) (simp_all add: py_ws_def)
  then have st: "strip ('' '' @ py_repr_list ss @ [char_of (10 :: nat)]) = py_repr_list ss" by (simp add: py_repr_list_def)
  have "split_once CHR ''='' ((name @ '' '') @ CHR ''='' # ('' '' @ py_repr_list ss @ [char_of (10 :: nat)]))
     = Some (name @ '' '', '' '' @ py_repr_list ss @ [char_of (10 :: nat)])"
    by (rule split_once_append) (use p(2) in simp)
  then have "split_once CHR ''='' (name @ '' = '' @ py_repr_list ss @ [char_of (10 :: nat)])
     = Some (name @ '' '', '' '' @ py_repr_list ss @ [char_of (10 :: nat)])" by simp
  then show ?thesis unfolding eval_rhs_def using eval_repr_list [OF p(1)] st by simp
qed

lemma occurs_Nil [simp]: "w \<noteq> [] \<Longrightarrow> \<not> occurs w []"
  by simp

lemma startswith_cut: "startswith (a @ c # b) w \<Longrightarrow> c \<notin> set w \<Longrightarrow> startswith a w"
proof -
  assume h: "startswith (a @ c # b) w" "c \<notin> set w"
  have "length w \<le> length a"
  proof (rule ccontr)
    assume n: "\<not> length w \<le> length a"
    then have "take (length w) (a @ c # b) = a @ c # take (length w - Suc (length a)) b" by (simp add: take_Cons')
    then have "c \<in> set w" using h(1) by (metis in_set_conv_decomp startswith_def)
    then show False using h(2) by simp
  qed
  then show ?thesis using h(1) by (simp add: startswith_def)
qed

text \<open>A word does not reach over a character that it does not have.\<close>

lemma occurs_split: "occurs w (a @ c # b) \<Longrightarrow> c \<notin> set w \<Longrightarrow> w \<noteq> [] \<Longrightarrow> occurs w a \<or> occurs w b"
proof (induction a)
  case Nil
  then have "\<not> startswith ([] @ c # b) w" using startswith_cut [of "[]" c b w] by (auto simp: startswith_def)
  then show ?case using Nil by simp
next
  case (Cons x a)
  then show ?case using startswith_cut [of "x # a" c b w] by auto
qed

definition scripts_name :: string where
  "scripts_name = ''ns3_runnable_scripts''"

lemma scripts_chars: "char_of (39 :: nat) \<notin> set scripts_name" "CHR '' '' \<notin> set scripts_name" "CHR '','' \<notin> set scripts_name"
  "CHR '']'' \<notin> set scripts_name" "CHR ''['' \<notin> set scripts_name" "CHR ''='' \<notin> set scripts_name" "scripts_name \<noteq> []"
  "char_of (10 :: nat) \<notin> set scripts_name" "CHR ''#'' \<notin> set scripts_name"
  by code_simp+

lemma occurs_drop: "occurs w (c # b) \<Longrightarrow> c \<notin> set w \<Longrightarrow> w \<noteq> [] \<Longrightarrow> occurs w b"
  using occurs_split [of w "[]" c b] by auto

lemma occurs_item:
  assumes "occurs scripts_name (py_repr_str s @ t)" "plain_item s" "\<not> occurs scripts_name s"
  shows "occurs scripts_name t"
proof -
  have "occurs scripts_name (s @ char_of (39 :: nat) # t)"
    using assms(1,2) occurs_drop [of scripts_name "char_of (39 :: nat)"] scripts_chars by (simp add: plain_repr)
  then show ?thesis using occurs_split scripts_chars assms(3) by blast
qed

lemma occurs_items:
  "occurs scripts_name (join '', '' (map py_repr_str ss) @ t) \<Longrightarrow> list_all plain_item ss \<Longrightarrow> list_all (\<lambda>s. \<not> occurs scripts_name s) ss
    \<Longrightarrow> occurs scripts_name t"
proof (induction ss rule: induct_list012)
  case (2 s)
  then show ?case using occurs_item [of s t] by simp
next
  case (3 s u ss)
  have "occurs scripts_name (CHR '','' # CHR '' '' # join '', '' (map py_repr_str (u # ss)) @ t)"
    using 3 occurs_item [of s "CHR '','' # CHR '' '' # join '', '' (map py_repr_str (u # ss)) @ t"] by simp
  then have "occurs scripts_name (join '', '' (map py_repr_str (u # ss)) @ t)" using occurs_drop scripts_chars by blast
  then show ?case using 3 by simp
qed simp

lemma programs_line_other:
  assumes "list_all plain_item ss" "list_all (\<lambda>s. \<not> occurs scripts_name s) ss"
  shows "\<not> occurs scripts_name (''ns3_runnable_programs'' @ '' = '' @ py_repr_list ss @ [char_of (10 :: nat)])"
proof
  assume "occurs scripts_name (''ns3_runnable_programs'' @ '' = '' @ py_repr_list ss @ [char_of (10 :: nat)])"
  then have "occurs scripts_name (''ns3_runnable_programs'' @ CHR '' '' # (''= '' @ py_repr_list ss @ [char_of (10 :: nat)]))"
    by (simp only: append_Cons append_Nil)
  then have "occurs scripts_name ''ns3_runnable_programs'' \<or> occurs scripts_name (''= '' @ py_repr_list ss @ [char_of (10 :: nat)])"
    by (rule occurs_split) (use scripts_chars in blast)+
  moreover have "\<not> occurs scripts_name ''ns3_runnable_programs''" by code_simp
  ultimately have "occurs scripts_name (''= '' @ py_repr_list ss @ [char_of (10 :: nat)])" by blast
  then have "occurs scripts_name (CHR ''='' # CHR '' '' # CHR ''['' # join '', '' (map py_repr_str ss) @ '']'' @ [char_of (10 :: nat)])"
    by (simp only: py_repr_list_def append_Cons append_Nil append_assoc)
  then have "occurs scripts_name (join '', '' (map py_repr_str ss) @ '']'' @ [char_of (10 :: nat)])" using occurs_drop scripts_chars by blast
  then have "occurs scripts_name (CHR '']'' # char_of (10 :: nat) # [])" using occurs_items assms by fastforce
  then have "occurs scripts_name []" using occurs_drop scripts_chars by blast
  then show False using scripts_chars by simp
qed

lemma occurs_first: "w \<noteq> [] \<Longrightarrow> occurs w (w @ t)"
  by (cases w) (simp_all add: startswith_append [of "a # b" for a b, simplified])

lemma list_loop_status:
  assumes "list_all plain_item ss" "CHR ''#'' \<notin> set name" "CHR ''='' \<notin> set name" "name \<noteq> []"
  shows "list_loop other name (status_line (name @ '' = '' @ py_repr_list ss) # ls) '''' False = Inr (PList ss)"
proof -
  have "CHR '']'' \<in> set (name @ '' = '' @ py_repr_list ss @ [char_of (10 :: nat)])" by (simp add: py_repr_list_def)
  then show ?thesis using strip_status [OF assms(1,2)] eval_status [OF assms(1,3)] occurs_first [OF assms(4)] by (simp add: Let_def)
qed

lemma build_status_lists:
  assumes "list_all plain_item programs" "list_all plain_item scripts" "list_all (\<lambda>s. \<not> occurs ''ns3_runnable_scripts'' s) programs"
  shows "get_list_from_file other (Some (build_status programs scripts)) ''ns3_runnable_programs'' = Inr (PList programs)
    \<and> get_list_from_file other (Some (build_status programs scripts)) ''ns3_runnable_scripts'' = Inr (PList scripts)"
proof -
  define first where "first = map status_line [''#! /usr/bin/env python3'', '''', ''# Programs that are runnable.'']"
  define mid where "mid = map status_line ['''', ''# Scripts that are runnable.'']"
  have quiet: "list_all (\<lambda>l. \<not> occurs ''ns3_runnable_programs'' (strip_comment l)) first"
    "list_all (\<lambda>l. \<not> occurs ''ns3_runnable_scripts'' (strip_comment l)) first"
    "list_all (\<lambda>l. \<not> occurs ''ns3_runnable_scripts'' (strip_comment l)) mid"
    unfolding first_def mid_def by code_simp+
  define line where "line = (\<lambda>n xs. status_line (n @ '' = '' @ py_repr_list xs))"
  have whole: "build_status programs scripts = first @ line ''ns3_runnable_programs'' programs # (mid @ [line ''ns3_runnable_scripts'' scripts, status_line ''''])"
    by (simp add: build_status_def first_def mid_def line_def)
  have p: "get_list_from_file other (Some (build_status programs scripts)) ''ns3_runnable_programs'' = Inr (PList programs)"
    unfolding whole get_list_from_file_def option.case list_loop_skip [OF quiet(1)]
    unfolding line_def by (rule list_loop_status [OF assms(1)]) simp_all
  have "strip_comment (line ''ns3_runnable_programs'' programs) = ''ns3_runnable_programs'' @ '' = '' @ py_repr_list programs @ [char_of (10 :: nat)]"
    unfolding line_def by (rule strip_status [OF assms(1)]) simp
  then have "\<not> occurs ''ns3_runnable_scripts'' (strip_comment (line ''ns3_runnable_programs'' programs))"
    using programs_line_other [OF assms(1)] assms(3) by (simp only: scripts_name_def not_False_eq_True simp_thms)
  then have q: "list_all (\<lambda>l. \<not> occurs ''ns3_runnable_scripts'' (strip_comment l)) (first @ line ''ns3_runnable_programs'' programs # mid)"
    using quiet(2,3) by simp
  have whole2: "build_status programs scripts = (first @ line ''ns3_runnable_programs'' programs # mid) @ [line ''ns3_runnable_scripts'' scripts, status_line '''']"
    by (simp add: whole)
  have s: "get_list_from_file other (Some (build_status programs scripts)) ''ns3_runnable_scripts'' = Inr (PList scripts)"
    unfolding whole2 get_list_from_file_def option.case list_loop_skip [OF q]
    unfolding line_def by (rule list_loop_status [OF assms(2)]) simp_all
  show ?thesis using p s by simp
qed

text \<open>C39: test.py reads from the build status file exactly the programs and the scripts that the build wrote to it,
  as long as their paths are printable, have no quote, backslash, bracket or number sign, and no program's path
  mentions the name of the other list.\<close>

theorem build_status_read:
  assumes "list_all plain_item programs" "list_all plain_item scripts" "list_all (\<lambda>s. \<not> occurs ''ns3_runnable_scripts'' s) programs"
  shows "get_list_from_file other (Some (build_status programs scripts)) ''ns3_runnable_programs'' = Inr (PList programs)
    \<and> get_list_from_file other (Some (build_status programs scripts)) ''ns3_runnable_scripts'' = Inr (PList scripts)"
  using build_status_lists [OF assms] .

theorem build_status_read_witness:
  "get_list_from_file (\<lambda>s. Inl GenericError) (Some (build_status [''build/scratch/udp'', ''build/ns3-dev-tcp''] [''a.py'']))
     ''ns3_runnable_programs'' = Inr (PList [''build/scratch/udp'', ''build/ns3-dev-tcp''])"
proof -
  have h: "list_all plain_item [''build/scratch/udp'', ''build/ns3-dev-tcp'']" "list_all plain_item [''a.py'']"
    "list_all (\<lambda>s. \<not> occurs ''ns3_runnable_scripts'' s) [''build/scratch/udp'', ''build/ns3-dev-tcp'']" by code_simp+
  show ?thesis using build_status_read [OF h] by blast
qed

subsection \<open>Choice\<close>


definition separate_lists :: "modules \<Rightarrow> bool" where
  "separate_lists m \<longleftrightarrow> distinct (enabled_modules m @ enabled_contributed m)"

lemma remove_step_gone:
  assumes "remove_step n m = Inr m'" "separate_lists m"
  shows "separate_lists m' \<and> set (enabled_modules m' @ enabled_contributed m') = set (enabled_modules m @ enabled_contributed m) - {''ns3-'' @ n}"
  using assms by (auto simp: remove_step_def separate_lists_def Let_def split: if_splits dest: notin_set_remove1)

text \<open>What cannot be built is no longer enabled, and nothing else is taken away.\<close>

lemma remove_not_built_gone:
  assumes "remove_not_built ns m = Inr m'" "separate_lists m"
  shows "set (enabled_modules m' @ enabled_contributed m') = set (enabled_modules m @ enabled_contributed m) - (\<lambda>n. ''ns3-'' @ n) ` set ns"
  using assms unfolding remove_not_built_def
proof (induction ns arbitrary: m)
  case (Cons n ns)
  then obtain t where t: "remove_step n m = Inr t" "foldR remove_step ns t = Inr m'" by (auto simp: bindR_eq_Inr)
  show ?case using Cons.IH [OF t(2)] remove_step_gone [OF t(1) Cons.prems(2)] by auto
qed simp

end
