(* ===== verification/BuildRun.thy ===== *)
theory BuildRun
  imports ModuleBuild ShellCmd Runner
begin

text \<open>
  wutils.py and waf-tools/cflags.py: how the build finds and runs a program, the environment it gives to it, and
  the compiler flags of a profile. Processes run outside: their exit status and their standard error are
  parameters. A conversion of \<open>%\<close> other than \<open>%s\<close> and \<open>%%\<close> in a command template is left to the
  parameter \<open>percent\<close>.
\<close>

subsection \<open>Command templates\<close>

definition get_command_template :: "string \<Rightarrow> string list \<Rightarrow> string" where
  "get_command_template template arguments = fold (\<lambda>arg cmd. cmd @ '' '' @ arg) arguments (if template = [] then ''%s'' else template)"

text \<open>\<open>template % (path,)\<close>: \<open>None\<close> for a template with another conversion. The flag says whether the argument
  has been used; too few and too many conversions are TypeErrors.\<close>

fun percent_s :: "bool \<Rightarrow> string \<Rightarrow> string \<Rightarrow> string result option" where
  "percent_s used path [] = Some (if used then Inr [] else Inl TypeError)"
| "percent_s used path [c] = (if c = CHR ''%'' then Some (Inl ValueError) else if used then Some (Inr [c]) else Some (Inl TypeError))"
| "percent_s used path (c # d # cs) = (if c = CHR ''%''
     then (if d = CHR ''%'' then map_option (\<lambda>r. bindR r (\<lambda>s. Inr (CHR ''%'' # s))) (percent_s used path cs)
       else if d = CHR ''s'' then (if used then Some (Inl TypeError) else map_option (\<lambda>r. bindR r (\<lambda>s. Inr (path @ s))) (percent_s True path cs))
       else None)
     else map_option (\<lambda>r. bindR r (\<lambda>s. Inr (c # s))) (percent_s used path (d # cs)))"

definition format_template :: "(string \<Rightarrow> string \<Rightarrow> string result) \<Rightarrow> string \<Rightarrow> string \<Rightarrow> string result" where
  "format_template percent template path = (case percent_s False path template of None \<Rightarrow> percent template path | Some r \<Rightarrow> r)"

subsection \<open>Finding a program\<close>

record program =
  p_name :: string
  p_is_program :: bool
  p_source_dir :: string
  p_build_dir :: string
  p_relative :: string
  p_target :: string

datatype run_error = Py py_error | NotFound string "string list" | Conflicting string string | NoValgrind | Signalled int | Exited int

fun lift_error :: "'a result \<Rightarrow> run_error + 'a" where
  "lift_error (Inl e) = Inl (Py e)"
| "lift_error (Inr x) = Inr x"

definition program_names :: "program \<Rightarrow> string list" where
  "program_names p = [p_name p, path_join (p_relative p) (p_name p)]"

fun find_loop :: "string \<Rightarrow> string \<Rightarrow> program list \<Rightarrow> string list \<Rightarrow> run_error + program" where
  "find_loop launch_dir n [] found = Inl (NotFound n found)"
| "find_loop launch_dir n (p # ps) found = (if \<not> p_is_program p then find_loop launch_dir n ps found
     else if \<not> (startswith (p_source_dir p) launch_dir \<or> startswith (p_build_dir p) launch_dir) then find_loop launch_dir n ps found
     else if n \<in> set (program_names p) then Inr p
     else find_loop launch_dir n ps (found @ program_names p))"

definition find_program :: "string \<Rightarrow> program list \<Rightarrow> string \<Rightarrow> run_error + program" where
  "find_program launch_dir ps n = find_loop launch_dir n ps []"

definition strip_cc :: "string \<Rightarrow> string" where
  "strip_cc n = (if endswith n ''.cc'' then take (length n - 3) n else n)"

definition double_backslash :: "string \<Rightarrow> string" where
  "double_backslash s = concat (map (\<lambda>c. if c = backslash then [backslash, backslash] else [c]) s)"

definition get_run_program :: "(string \<Rightarrow> string \<Rightarrow> string result) \<Rightarrow> string \<Rightarrow> program list \<Rightarrow> string \<Rightarrow> string option \<Rightarrow>
    run_error + (string \<times> string list)" where
  "get_run_program percent launch_dir ps program_string command_template =
     (if command_template = None \<or> command_template = Some ''%s''
      then (case shlex_split program_string of
          Inl e \<Rightarrow> Inl (Py e)
        | Inr [] \<Rightarrow> Inl (Py IndexError)
        | Inr (name # args) \<Rightarrow> (case find_program launch_dir ps (strip_cc name) of Inl e \<Rightarrow> Inl e
            | Inr p \<Rightarrow> Inr (strip_cc name, p_target p # args)))
      else (case find_program launch_dir ps (strip_cc program_string) of Inl e \<Rightarrow> Inl e
        | Inr p \<Rightarrow> (case lift_error (bindR (format_template percent (the command_template) (p_target p))
              (\<lambda>tmpl. shlex_split (double_backslash tmpl))) of
            Inl e \<Rightarrow> Inl e | Inr execvec \<Rightarrow> Inr (strip_cc program_string, execvec))))"

subsection \<open>Running it\<close>

record run_options =
  ro_valgrind :: bool
  ro_gdb :: bool
  ro_template :: string

text \<open>The error output of valgrind is read character by character.\<close>

definition leak_reported :: "string \<Rightarrow> bool" where
  "leak_reported stderrdata \<longleftrightarrow> list_ex (\<lambda>c. occurs ''== LEAK SUMMARY'' [c]) stderrdata"

text \<open>The command that is started, and the outcome: \<open>proc\<close> gives the exit status and the error output.\<close>

definition started :: "run_options \<Rightarrow> string list \<Rightarrow> bool \<Rightarrow> string list \<Rightarrow> string list" where
  "started opts valgrind force_no_valgrind argv = (if ro_gdb opts then [''gdb'', ''--args''] @ argv
     else if ro_valgrind opts \<and> \<not> force_no_valgrind
     then [hd valgrind, ''--leak-check=full'', ''--show-reachable=yes'', ''--error-exitcode=1''] @ argv else argv)"

definition run_argv :: "run_options \<Rightarrow> string list \<Rightarrow> bool \<Rightarrow> (string list \<Rightarrow> int \<times> string) \<Rightarrow> int list \<Rightarrow> string list \<Rightarrow> run_error + int" where
  "run_argv opts valgrind force_no_valgrind proc signals argv =
     (if ro_valgrind opts \<and> ro_template opts \<noteq> [] then Inl (Conflicting ''--command-template'' ''--valgrind'')
      else if ro_gdb opts \<and> ro_template opts \<noteq> [] then Inl (Conflicting ''--command-template'' ''--gdb'')
      else if ro_gdb opts \<and> ro_valgrind opts then Inl (Conflicting ''--valgrind'' ''--gdb'')
      else (case proc (started opts valgrind force_no_valgrind argv) of (status, stderrdata) \<Rightarrow>
        if ro_gdb opts then Inr status
        else if ro_valgrind opts \<and> \<not> force_no_valgrind \<and> valgrind = [] then Inl NoValgrind
        else (let retval = (if ro_valgrind opts \<and> \<not> force_no_valgrind \<and> status = 0 \<and> leak_reported stderrdata then 1 else status) in
          if retval = 0 then Inr retval
          else if retval < 0 \<and> - retval \<in> set signals then Inl (Signalled (- retval)) else Inl (Exited retval))))"

definition visual_argument :: string where
  "visual_argument = ''--SimulatorImplementationType=ns3::VisualSimulatorImpl''"

definition run_program :: "(string \<Rightarrow> string \<Rightarrow> string result) \<Rightarrow> string \<Rightarrow> program list \<Rightarrow> run_options \<Rightarrow> string list \<Rightarrow>
    (string list \<Rightarrow> int \<times> string) \<Rightarrow> int list \<Rightarrow> string \<Rightarrow> string option \<Rightarrow> bool \<Rightarrow> run_error + int" where
  "run_program percent launch_dir ps opts valgrind proc signals program_string command_template visualize =
     (case get_run_program percent launch_dir ps program_string command_template of Inl e \<Rightarrow> Inl e
      | Inr (n, execvec) \<Rightarrow> run_argv opts valgrind False proc signals (execvec @ (if visualize then [visual_argument] else [])))"

definition run_python_program :: "string \<Rightarrow> run_options \<Rightarrow> string list \<Rightarrow> (string list \<Rightarrow> int \<times> string) \<Rightarrow> int list \<Rightarrow> string \<Rightarrow> bool \<Rightarrow>
    run_error + int" where
  "run_python_program python opts valgrind proc signals program_string visualize =
     (case shlex_split program_string of Inl e \<Rightarrow> Inl (Py e)
      | Inr execvec \<Rightarrow> run_argv opts valgrind False proc signals (python # execvec @ (if visualize then [visual_argument] else [])))"

subsection \<open>The environment of a program\<close>

definition path_variable :: "string \<Rightarrow> string" where
  "path_variable platform = (if platform = ''darwin'' then ''DYLD_LIBRARY_PATH''
     else if platform = ''win32'' \<or> platform = ''cygwin'' then ''PATH'' else ''LD_LIBRARY_PATH'')"

definition put_in_front :: "string \<Rightarrow> string \<Rightarrow> string list \<Rightarrow> (string, string) dict \<Rightarrow> (string, string) dict" where
  "put_in_front sep var paths e = (case dget e var of
     Some old \<Rightarrow> dset var (join sep (paths @ [old])) e | None \<Rightarrow> dset var (join sep paths) e)"

definition get_proc_env :: "string \<Rightarrow> string \<Rightarrow> string list \<Rightarrow> string list \<Rightarrow> string list \<Rightarrow> (string, string) dict \<Rightarrow>
    (string, string) dict option \<Rightarrow> (string, string) dict" where
  "get_proc_env platform sep module_path python_path executable_path environ os_env =
     (let proc_env = (case os_env of None \<Rightarrow> environ | Some e \<Rightarrow> fold (\<lambda>(k, v). dset k v) e environ);
          proc_env = put_in_front sep (path_variable platform) module_path proc_env;
          proc_env = put_in_front sep ''PYTHONPATH'' python_path proc_env
      in put_in_front sep ''PATH'' executable_path proc_env)"

definition uniquify_list :: "'a list \<Rightarrow> 'a list" where
  "uniquify_list xs = fst (fold (\<lambda>x (res, seen). if x \<in> seen then (res, seen) else (res @ [x], insert x seen)) xs ([], {}))"

subsection \<open>Compiler flags\<close>

datatype traits = Gcc | Icc | Msvc

definition warnings_table :: "traits \<Rightarrow> string list list" where
  "warnings_table t = (case t of Gcc \<Rightarrow> [[''-Wall''], [''-Werror''], [''-Wextra'']] | Icc \<Rightarrow> [[], [], [''-Wall'']]
     | Msvc \<Rightarrow> [[''/W2''], [''/WX''], [''/Wall'']])"

fun warnings_loop :: "string list list \<Rightarrow> nat \<Rightarrow> nat \<Rightarrow> string list \<Rightarrow> string list" where
  "warnings_loop table l 0 warnings = warnings"
| "warnings_loop table l (Suc n) warnings = (if l < length table then warnings_loop table (Suc l) n (warnings @ table ! l) else warnings)"

definition get_warnings_flags :: "traits \<Rightarrow> nat \<Rightarrow> string list" where
  "get_warnings_flags t level = warnings_loop (warnings_table t) 0 level []"

text \<open>A level above 3 has no value.\<close>

definition get_optimization_flags :: "traits \<Rightarrow> nat \<Rightarrow> string list option" where
  "get_optimization_flags t level =
     (if level = 0 then Some [if t = Msvc then ''/Od'' else ''-O0'']
      else if level = 1 then Some (if t = Msvc then [] else [''-O''])
      else if level = 2 then Some [if t = Msvc then ''/O2'' else ''-O2'']
      else if level = 3 then Some [if t = Msvc then ''/Ox'' else ''-O3'']
      else None)"

definition get_debug_flags :: "traits \<Rightarrow> nat \<Rightarrow> string list \<times> string list" where
  "get_debug_flags t level =
     (if level = 0 then (if t = Msvc then [] else [''-g0''], [''NDEBUG''])
      else if level = 1 then (if t = Msvc then [''/ZI'', ''/RTC1''] else [''-g''], [])
      else (if t = Msvc then [''/ZI'', ''/RTC1''] else [''-ggdb'', ''-g3''], [''_DEBUG'']))"

definition compiler_mapping :: "(string, traits) dict" where
  "compiler_mapping = [(''gcc'', Gcc), (''g++'', Gcc), (''msvc'', Msvc), (''icc'', Icc), (''icpc'', Icc), (''clang'', Gcc), (''clang++'', Gcc)]"

definition profiles :: "(string, nat \<times> nat \<times> nat) dict" where
  "profiles = [(''default'', 2, 1, 1), (''debug'', 0, 2, 3), (''release'', 3, 1, 0)]"

record flag_env =
  compiler_cc :: string
  compiler_cxx :: string
  ccflags :: "string list"
  ccdefines :: "string list"
  cxxflags :: "string list"
  cxxdefines :: "string list"

definition the_compiler :: "flag_env \<Rightarrow> traits option" where
  "the_compiler e = (case dget compiler_mapping (compiler_cc e) of Some t \<Rightarrow> Some t | None \<Rightarrow> dget compiler_mapping (compiler_cxx e))"

definition profile_flags :: "traits \<Rightarrow> nat \<times> nat \<times> nat \<Rightarrow> bool \<Rightarrow> string list" where
  "profile_flags t levels disable_werror = (case levels of (opt_level, warn_level, dbg_level) \<Rightarrow>
     the (get_optimization_flags t opt_level) @ fst (get_debug_flags t dbg_level)
       @ (if disable_werror then remove1 ''-Werror'' (get_warnings_flags t warn_level) else get_warnings_flags t warn_level))"

definition cflags_configure :: "string \<Rightarrow> bool \<Rightarrow> flag_env \<Rightarrow> flag_env result" where
  "cflags_configure build_profile disable_werror e =
     (if compiler_cc e = [] \<and> compiler_cxx e = [] then Inl WafError
      else (case the_compiler e of None \<Rightarrow> Inr e
       | Some t \<Rightarrow> (case dget profiles build_profile of None \<Rightarrow> Inl KeyError
         | Some levels \<Rightarrow> (let flags = profile_flags t levels disable_werror; defs = snd (get_debug_flags t (snd (snd levels)));
             e = (if compiler_cc e \<noteq> [] \<and> ccflags e = [] then e\<lparr>ccflags := flags, ccdefines := ccdefines e @ defs\<rparr> else e)
             in Inr (if compiler_cxx e \<noteq> [] \<and> cxxflags e = [] then e\<lparr>cxxflags := flags, cxxdefines := cxxdefines e @ defs\<rparr> else e)))))"

subsection \<open>Splitting plain words\<close>

lemma safe_plain: "shell_safe c \<Longrightarrow> \<not> sh_space c \<and> c \<noteq> backslash \<and> \<not> is_quote c"
proof -
  assume s: "shell_safe c"
  have "\<not> shell_safe backslash" "\<not> shell_safe (char_of (39 :: nat))" "\<not> shell_safe (char_of (34 :: nat))"
    "\<not> shell_safe CHR '' ''" "\<not> shell_safe (char_of (9 :: nat))" "\<not> shell_safe (char_of (10 :: nat))" "\<not> shell_safe (char_of (13 :: nat))"
    by code_simp+
  then show ?thesis using s by (auto simp: is_quote_def sh_space_def)
qed

lemma lex_word: "list_all shell_safe w \<Longrightarrow> sh_lex Word tok (w @ s) = sh_lex Word (tok @ w) s"
  by (induction w arbitrary: tok) (simp_all add: safe_plain)

lemma space_is: "sh_space CHR '' ''"
  by code_simp

definition plain_word :: "string \<Rightarrow> bool" where
  "plain_word w \<longleftrightarrow> list_all shell_safe w \<and> w \<noteq> []"

lemma lex_words: "list_all plain_word ws \<Longrightarrow> sh_lex Between [] (join '' '' ws) = Inr ws"
proof (induction ws rule: induct_list012)
  case (2 w)
  then show ?case using lex_word [of "tl w" "[hd w]" "[]"] by (cases w) (simp_all add: plain_word_def safe_plain)
next
  case (3 w v ws)
  then have "sh_lex Word [hd w] (tl w @ CHR '' '' # join '' '' (v # ws)) = sh_lex Word w (CHR '' '' # join '' '' (v # ws))"
    using lex_word [of "tl w" "[hd w]"] by (cases w) (simp_all add: plain_word_def)
  then show ?case using 3 space_is by (cases w) (simp_all add: plain_word_def safe_plain)
qed simp

lemma lex_quoted:
  assumes "double_quote \<notin> set s" "backslash \<notin> set s"
  shows "sh_lex (Quote double_quote) tok (s @ [double_quote]) = Inr [tok @ s]"
  using assms by (induction s arbitrary: tok) auto

subsection \<open>An experiment is run\<close>

lemma run_words_plain: "list_all plain_word (run_words args mode load sim_idx)"
  unfolding plain_word_def [abs_def] by (rule run_words_safe)

lemma run_text: "build_ns3_run_args args mode load sim_idx = join '' '' (run_words args mode load sim_idx)"
proof -
  have "map shlex_quote (run_words args mode load sim_idx) = run_words args mode load sim_idx"
    using run_words_plain [of args mode load sim_idx] by (intro map_idI) (auto simp: shlex_quote_def plain_word_def list_all_iff)
  then show ?thesis by (simp add: build_ns3_run_args_def)
qed

lemma run_text_chars: "c \<in> set (join '' '' (run_words args mode load sim_idx)) \<Longrightarrow> c = CHR '' '' \<or> shell_safe c"
  using run_words_plain [of args mode load sim_idx] by (fastforce simp: list_all_iff plain_word_def dest!: in_join)

lemma run_text_unquoted:
  "double_quote \<notin> set (join '' '' (run_words args mode load sim_idx))" "backslash \<notin> set (join '' '' (run_words args mode load sim_idx))"
proof -
  have "\<not> shell_safe double_quote" "\<not> shell_safe backslash" "double_quote \<noteq> CHR '' ''" "backslash \<noteq> CHR '' ''" by code_simp+
  then show "double_quote \<notin> set (join '' '' (run_words args mode load sim_idx))"
    "backslash \<notin> set (join '' '' (run_words args mode load sim_idx))" using run_text_chars by blast+
qed

lemma split_run_cmd:
  "shlex_split (run_cmd args (load, sim_idx, mode)) = Inr [''./waf'', ''--run'', build_ns3_run_args args mode load sim_idx]"
proof -
  define t where "t = join '' '' (run_words args mode load sim_idx)"
  have q: "sh_lex (Quote double_quote) [] (t @ [double_quote]) = Inr [t]"
    using lex_quoted [OF run_text_unquoted, of "[]"] by (simp add: t_def)
  have dq: "\<not> sh_space double_quote" "double_quote \<noteq> backslash" "is_quote double_quote" by code_simp+
  have b: "sh_lex Between [] (double_quote # t @ [double_quote]) = Inr [t]" using q dq by simp
  have w: "list_all shell_safe ''/waf''" "list_all shell_safe ''-run''" "shell_safe CHR ''.''" "shell_safe CHR ''-''" by code_simp+
  have run: "sh_lex Between [] (CHR ''-'' # ''-run'' @ CHR '' '' # double_quote # t @ [double_quote]) = Inr [''--run'', t]"
    using lex_word [OF w(2), of "''-''" "CHR '' '' # double_quote # t @ [double_quote]"] w(4) b space_is by (simp add: safe_plain)
  have "sh_lex Between [] (CHR ''.'' # ''/waf'' @ CHR '' '' # CHR ''-'' # ''-run'' @ CHR '' '' # double_quote # t @ [double_quote])
      = Inr [''./waf'', ''--run'', t]"
    using lex_word [OF w(1), of "''.''" "CHR '' '' # CHR ''-'' # ''-run'' @ CHR '' '' # double_quote # t @ [double_quote]"] w(3) run space_is
    by (simp add: safe_plain)
  then show ?thesis by (simp add: shlex_split_def run_cmd_def run_text t_def)
qed

text \<open>Once the program is found, its binary is started with exactly the remaining words, and its exit status is
  the outcome.\<close>

lemma experiment_run:
  assumes "find_program launch_dir ps ''scratch/HomaL4Protocol-paper-reproduction'' = Inr p"
    and "opts = \<lparr>ro_valgrind = False, ro_gdb = False, ro_template = ''''\<rparr>"
  shows "shlex_split (run_cmd args (load, sim_idx, mode)) = Inr [''./waf'', ''--run'', build_ns3_run_args args mode load sim_idx]
    \<and> (case run_program percent launch_dir ps opts valgrind proc signals (build_ns3_run_args args mode load sim_idx)
             (Some (get_command_template (ro_template opts) [])) False of
         Inr r \<Rightarrow> r = 0 \<and> fst (proc (p_target p # tl (run_words args mode load sim_idx))) = 0
       | Inl e \<Rightarrow> fst (proc (p_target p # tl (run_words args mode load sim_idx))) \<noteq> 0
           \<and> (e = Exited (fst (proc (p_target p # tl (run_words args mode load sim_idx))))
             \<or> e = Signalled (- fst (proc (p_target p # tl (run_words args mode load sim_idx))))))"
proof -
  let ?ws = "run_words args mode load sim_idx"
  obtain rest where ws: "?ws = ''scratch/HomaL4Protocol-paper-reproduction'' # rest" by (simp add: run_words_def)
  have "shlex_split (build_ns3_run_args args mode load sim_idx) = Inr ?ws"
    using lex_words [OF run_words_plain] by (simp add: shlex_split_def run_text)
  moreover have "strip_cc ''scratch/HomaL4Protocol-paper-reproduction'' = ''scratch/HomaL4Protocol-paper-reproduction''" by code_simp
  ultimately have "get_run_program percent launch_dir ps (build_ns3_run_args args mode load sim_idx) (Some ''%s'')
      = Inr (''scratch/HomaL4Protocol-paper-reproduction'', p_target p # tl ?ws)"
    using assms(1) by (simp add: get_run_program_def ws)
  moreover have "get_command_template (ro_template opts) [] = ''%s''" by (simp add: get_command_template_def assms(2))
  ultimately show ?thesis using split_run_cmd [of args load sim_idx mode] assms(2)
    by (cases "proc (p_target p # tl ?ws)") (simp add: run_program_def run_argv_def started_def Let_def)
qed

subsection \<open>Leaks\<close>

text \<open>The summary of valgrind is longer than a character, so it is never seen.\<close>

lemma leak_never_reported: "\<not> leak_reported s"
proof -
  have "\<not> occurs ''== LEAK SUMMARY'' [c]" for c by (simp add: startswith_def)
  then show ?thesis unfolding leak_reported_def list_ex_iff by blast
qed

text \<open>What valgrind writes has no influence on the outcome of a run, which only its exit status decides: a
  leak that does not change the exit status is not reported.\<close>

theorem leaks_unnoticed:
  "run_argv opts valgrind force_no_valgrind (\<lambda>argv. (status argv, err argv)) signals argv
   = run_argv opts valgrind force_no_valgrind (\<lambda>argv. (status argv, '''')) signals argv"
  by (simp add: run_argv_def leak_never_reported)

subsection \<open>Lists and flags\<close>


lemma uniquify_distinct:
  "distinct res \<Longrightarrow> distinct (fst (fold (\<lambda>x (res, seen). if x \<in> seen then (res, seen) else (res @ [x], insert x seen)) xs (res, set res)))
    \<and> set (fst (fold (\<lambda>x (res, seen). if x \<in> seen then (res, seen) else (res @ [x], insert x seen)) xs (res, set res))) = set res \<union> set xs"
proof (induction xs arbitrary: res)
  case (Cons x xs)
  show ?case using Cons.IH [of res] Cons.IH [of "res @ [x]"] Cons.prems by (auto simp: insert_absorb)
qed simp

lemma uniquify_list_set: "distinct (uniquify_list xs) \<and> set (uniquify_list xs) = set xs"
  using uniquify_distinct [of "[]" xs] by (simp add: uniquify_list_def)

text \<open>Flags that the user has set are left alone, and \<open>-Werror\<close> is not among the others when it is disabled.\<close>

lemma profile_without_werror: "dget profiles bp = Some levels \<Longrightarrow> ''-Werror'' \<notin> set (profile_flags t levels True)"
  by (cases t) (auto simp: profiles_def dget_def profile_flags_def get_optimization_flags_def get_debug_flags_def get_warnings_flags_def
      warnings_table_def numeral_eq_Suc split: if_splits)

lemma cflags_user_kept:
  assumes "cflags_configure bp dw e = Inr e'"
  shows "(ccflags e \<noteq> [] \<longrightarrow> ccflags e' = ccflags e) \<and> (cxxflags e \<noteq> [] \<longrightarrow> cxxflags e' = cxxflags e)"
  using assms by (auto simp: cflags_configure_def Let_def split: if_splits option.splits)

end
