(* ===== verification/TestSetup.thy ===== *)
theory TestSetup
  imports TestRunner ModuleBuild
begin

text \<open>
  test.py before its first job: the configuration of waf, the build, the environment, the programs that the
  build says can be run, the examples of all modules, and the options that only list. Python's \<open>eval\<close> and
  \<open>exec\<close> of waf's files and the programs outside are parameters; files are their lines, or absent.
\<close>

subsection \<open>Reading waf's files\<close>

definition interesting_config_items :: "string list" where
  "interesting_config_items = [''NS3_ENABLED_MODULES'', ''NS3_ENABLED_CONTRIBUTED_MODULES'', ''NS3_MODULE_PATH'', ''NSC_ENABLED'',
     ''ENABLE_REAL_TIME'', ''ENABLE_THREADING'', ''ENABLE_EXAMPLES'', ''ENABLE_TESTS'', ''EXAMPLE_DIRECTORIES'',
     ''ENABLE_PYTHON_BINDINGS'', ''NSCLICK'', ''ENABLE_BRITE'', ''ENABLE_OPENFLOW'', ''APPNAME'', ''BUILD_PROFILE'', ''VERSION'',
     ''PYTHON'', ''VALGRIND_FOUND'']"

definition read_dir :: "(string \<Rightarrow> string result) \<Rightarrow> string \<Rightarrow> string \<Rightarrow> string option \<Rightarrow> string option result" where
  "read_dir evals name line old = (if startswith line (name @ '' ='')
     then (case split_char CHR ''='' line of [k, v] \<Rightarrow> bindR (evals (strip v)) (\<lambda>d. Inr (Some d)) | _ \<Rightarrow> Inl ValueError)
     else Inr old)"

definition lock_step :: "(string \<Rightarrow> string result) \<Rightarrow> string \<Rightarrow> string option \<times> string option \<Rightarrow> (string option \<times> string option) result" where
  "lock_step evals line s = (case s of (top_dir, out_dir) \<Rightarrow>
     bindR (read_dir evals ''top_dir'' line top_dir) (\<lambda>top_dir.
     bindR (read_dir evals ''out_dir'' line out_dir) (\<lambda>out_dir. Inr (top_dir, out_dir))))"

text \<open>A line is executed once for every item it begins with.\<close>

definition exec_items :: "(string \<Rightarrow> 'g \<Rightarrow> 'g result) \<Rightarrow> string list \<Rightarrow> 'g \<Rightarrow> 'g result" where
  "exec_items exec lines g = foldR (\<lambda>(line, item) g. if startswith line item then exec line g else Inr g)
     (List.product lines interesting_config_items) g"

definition read_waf_config :: "(string \<Rightarrow> string result) \<Rightarrow> (string \<Rightarrow> 'g \<Rightarrow> 'g result) \<Rightarrow> string list option \<Rightarrow> string list option \<Rightarrow>
    (string \<Rightarrow> string list option) \<Rightarrow> 'g \<Rightarrow> (string \<times> string \<times> 'g) result" where
  "read_waf_config evals exec lock lock_linux2 files g = (case (case lock of None \<Rightarrow> lock_linux2 | Some ls \<Rightarrow> Some ls) of
     None \<Rightarrow> Inl (SystemExit 2)
   | Some ls \<Rightarrow> bindR (foldR (lock_step evals) ls (None, None)) (\<lambda>dirs. case dirs of
       (Some top_dir, Some out_dir) \<Rightarrow> (case files (out_dir @ ''/c4che/_cache.py'') of None \<Rightarrow> Inl FileNotFoundError
         | Some cache \<Rightarrow> bindR (exec_items exec cache g) (\<lambda>g. Inr (top_dir, out_dir, g)))
     | _ \<Rightarrow> Inl UnboundLocalError))"

subsection \<open>The environment\<close>

definition append_paths :: "char \<Rightarrow> string \<Rightarrow> string list \<Rightarrow> (string, string) dict \<Rightarrow> (string, string) dict" where
  "append_paths sep var paths e = (let e = (if dget e var = None then dset var [] e else e) in
     fold (\<lambda>p e. dset var (dget_default e var [] @ [sep] @ p) e) paths e)"

text \<open>\<open>PYTHONPATH\<close> is assigned before it is looked at.\<close>

definition make_paths :: "string \<Rightarrow> string \<Rightarrow> string list \<Rightarrow> (string, string) dict \<Rightarrow> (string, string) dict" where
  "make_paths platform builddir module_path e =
     (let have_PYTHONPATH = (dget e ''PYTHONPATH'' \<noteq> None);
          pypath = path_join (path_join builddir ''bindings'') ''python'';
          e = dset ''PYTHONPATH'' pypath e;
          e = (if \<not> have_PYTHONPATH then dset ''PYTHONPATH'' pypath e
            else dset ''PYTHONPATH'' (dget_default e ''PYTHONPATH'' [] @ '':'' @ pypath) e)
      in if platform = ''darwin'' then append_paths CHR '':'' ''DYLD_LIBRARY_PATH'' module_path e
         else if platform = ''win32'' then append_paths CHR '';'' ''PATH'' module_path e
         else if platform = ''cygwin'' then append_paths CHR '':'' ''PATH'' module_path e
         else append_paths CHR '':'' ''LD_LIBRARY_PATH'' module_path e)"

subsection \<open>Building first\<close>

definition core_kinds :: "string list" where
  "core_kinds = [''core'', ''performance'', ''system'', ''unit'']"

record setup_options =
  so_kinds :: bool
  so_list :: bool
  so_nowaf :: bool

definition waf_cmd :: "setup_options \<Rightarrow> test_options \<Rightarrow> string" where
  "waf_cmd so opt = (if so_kinds so \<or> so_list so \<or> t_constrain opt \<in> set core_kinds then ''./waf --target=test-runner''
     else if t_example opt \<noteq> [] then ''./waf --target='' @ basename (t_example opt)
     else ''./waf'')"

subsection \<open>Examples of all modules\<close>

text \<open>The file that lists the examples of a directory, the directory of its programs and that of its scripts.\<close>

definition example_location :: "string \<Rightarrow> string \<Rightarrow> string \<times> string" where
  "example_location parent md = (path_join (path_join (path_join parent md) ''test'') ''examples-to-run.py'',
     path_join (path_join parent md) ''examples'')"

definition example_locations :: "string list \<Rightarrow> string list \<Rightarrow> string list \<Rightarrow> (string \<times> string) list" where
  "example_locations directories modules contributed =
     map (\<lambda>d. (path_join (path_join ''examples'' d) ''examples-to-run.py'', path_join ''examples'' d)) directories
     @ map (\<lambda>m. example_location ''src'' (drop 4 m)) modules
     @ map (\<lambda>m. example_location ''contrib'' (drop 4 m)) contributed"

type_synonym examples = "(string \<times> string \<times> string \<times> string) list \<times> string list \<times> (string \<times> string) list"

text \<open>\<open>listed\<close>: the two lists in a file.\<close>

definition gather_examples :: "waf_config \<Rightarrow> (string \<Rightarrow> bool) \<Rightarrow> (string \<Rightarrow> ((string \<times> string \<times> string) list \<times> (string \<times> string) list)) \<Rightarrow>
    (string \<times> string) list \<Rightarrow> examples" where
  "gather_examples c on_disk listed locations = fold (\<lambda>(path, dir) (cpp, names, py).
     case parse_examples_to_run_file c on_disk path (path_join (w_builddir c) dir) dir dir (fst (listed path)) (snd (listed path)) of
       (cpp', names', py') \<Rightarrow> (cpp @ cpp', names @ names', py @ py')) locations ([], [], [])"

subsection \<open>Listing\<close>

text \<open>\<open>query\<close>: the return code and the output of the test runner for a command.\<close>

definition newline_char :: char where
  "newline_char = char_of (10 :: nat)"

definition list_tests :: "waf_config \<Rightarrow> test_options \<Rightarrow> (string \<Rightarrow> int \<times> string) \<Rightarrow> string list \<Rightarrow> outline list" where
  "list_tests c opt query example_names =
     (let cmd = path_join ''utils'' (test_runner_name c @ '' --print-test-name-list --print-test-types''
            @ (if t_constrain opt \<noteq> [] then '' --test-type='' @ t_constrain opt else []));
          (rc, out) = query cmd
      in if rc \<noteq> 0
         then [Out (''test.py error:  test-runner return code returned '' @ show_int rc),
           Out (''To debug, try running '' @ [CHR 0x27] @ ''./waf --run '' @ dquote @ ''test-runner --print-test-name-list'' @ dquote @ [CHR 0x27]
             @ [newline_char])]
         else [Out ''Test Type    Test Name'', Out ''---------    ---------'']
           @ map Out (filter (\<lambda>item. strip item \<noteq> []) (sort (split_char newline_char out)))
           @ map (\<lambda>n. Out (''example      '' @ n)) (sort example_names) @ [Out []])"

definition list_kinds :: "waf_config \<Rightarrow> (string \<Rightarrow> int \<times> string) \<Rightarrow> outline list" where
  "list_kinds c query = [Out (snd (query (path_join ''utils'' (test_runner_name c @ '' --print-test-type-list''))))]"

subsection \<open>The whole run\<close>

text \<open>What the program finds: the exit status of waf, the configuration that its files give (with its lists of
  example directories and modules, and the module path), the build status file, the lists of examples, the
  answers of the test runner, and the programs that are run and the number of processors. \<open>iterate\<close> gives the items of a
  value that is not a list of strings.\<close>

record 'g test_world =
  tw_lock :: "string list option"
  tw_lock_linux2 :: "string list option"
  tw_files :: "string \<Rightarrow> string list option"
  tw_evals :: "string \<Rightarrow> string result"
  tw_exec :: "string \<Rightarrow> 'g \<Rightarrow> 'g result"
  tw_globals :: 'g
  tw_config :: "string \<Rightarrow> string \<Rightarrow> 'g \<Rightarrow> waf_config"
  tw_examples :: "'g \<Rightarrow> string list \<times> string list \<times> string list"
  tw_waf :: "string \<Rightarrow> int"
  tw_literal :: "string \<Rightarrow> pyval result"
  tw_iterate :: "pyval \<Rightarrow> string list result"
  tw_listed :: "string \<Rightarrow> (string \<times> string \<times> string) list \<times> (string \<times> string) list"
  tw_on_disk :: "string \<Rightarrow> bool"
  tw_query :: "string \<Rightarrow> int \<times> string"
  tw_names :: "string option \<Rightarrow> string list"
  tw_holds :: "string \<Rightarrow> bool"
  tw_abspath :: "string \<Rightarrow> string"
  tw_output_dir :: string
  tw_popen :: "string \<Rightarrow> string \<Rightarrow> int \<times> bool \<times> bool \<times> pyfloat"
  tw_tmp_file :: "string \<Rightarrow> string option"
  tw_colors :: bool
  tw_processors :: int

fun py_items :: "(pyval \<Rightarrow> string list result) \<Rightarrow> pyval \<Rightarrow> string list result" where
  "py_items iterate (PList xs) = Inr xs"
| "py_items iterate (PBool b) = Inl TypeError"
| "py_items iterate (POther b s) = iterate (POther b s)"

text \<open>The two lists of the build status file.\<close>

definition runnables :: "'g test_world \<Rightarrow> waf_config \<Rightarrow> (string list \<times> string list) result" where
  "runnables w c = (case tw_files w (path_join (w_builddir c) ''build-status.py'') of
     None \<Rightarrow> Inl (SystemExit 2)
   | Some ls \<Rightarrow> bindR (get_list_from_file (tw_literal w) (Some ls) ''ns3_runnable_programs'') (\<lambda>ps.
       bindR (get_list_from_file (tw_literal w) (Some ls) ''ns3_runnable_scripts'') (\<lambda>ss.
       bindR (py_items (tw_iterate w) ps) (\<lambda>ps. bindR (py_items (tw_iterate w) ss) (\<lambda>ss. Inr (ps, ss))))))"

text \<open>The jobs that are put into the queue, and the number of threads that are started for them. The threads
  begin with \<open>test_pool\<close>; \<open>test_pool_end\<close> are the states in which the main thread can have all results and have joined
  them, after any interleaving, if it ever does.\<close>

definition selected_jobs :: "'g test_world \<Rightarrow> waf_config \<Rightarrow> test_options \<Rightarrow> string list \<Rightarrow> string list \<Rightarrow> examples \<Rightarrow> string list \<Rightarrow> job list" where
  "selected_jobs w c opt programs scripts ex suites = dispatched c opt (tw_holds w) (tw_abspath w) (tw_output_dir w) suites programs scripts
     (fst ex) (snd (snd ex))"

definition selected_workers :: "'g test_world \<Rightarrow> test_options \<Rightarrow> nat" where
  "selected_workers w opt = nat (fst (worker_count opt (tw_processors w)))"

definition test_pool :: "'g test_world \<Rightarrow> waf_config \<Rightarrow> test_options \<Rightarrow> string list \<Rightarrow> string list \<Rightarrow> examples \<Rightarrow> string list \<Rightarrow> pool" where
  "test_pool w c opt programs scripts ex suites = pool_init (selected_jobs w c opt programs scripts ex suites) (selected_workers w opt)"

definition test_pool_end :: "'g test_world \<Rightarrow> waf_config \<Rightarrow> test_options \<Rightarrow> string list \<Rightarrow> string list \<Rightarrow> examples \<Rightarrow> string list \<Rightarrow> pool \<Rightarrow> bool" where
  "test_pool_end w c opt programs scripts ex suites p \<longleftrightarrow>
     (pool_step (run_job c opt (tw_popen w)))\<^sup>*\<^sup>* (test_pool w c opt programs scripts ex suites) p \<and> finished p"

text \<open>\<open>p\<close>: the pool at the end of the threads, one of \<open>test_pool_end\<close>. The result is the status that \<open>main\<close> hands to
  \<open>sys.exit\<close>, which is 0 for \<open>None\<close>.\<close>

definition run_selected :: "'g test_world \<Rightarrow> waf_config \<Rightarrow> test_options \<Rightarrow> string list \<Rightarrow> string list \<Rightarrow> examples \<Rightarrow> pool \<Rightarrow> int result" where
  "run_selected w c opt programs scripts ex p = (case suite_list opt (tw_names w) of None \<Rightarrow> Inl (SystemExit 2)
     | Some suites \<Rightarrow> bindR (run_report opt (tw_colors w) (tw_tmp_file w)
           (int (length (selected_jobs w c opt programs scripts ex suites))) (collected p))
         (\<lambda>(xml, out, status). Inr status))"

definition run_tests :: "'g test_world \<Rightarrow> setup_options \<Rightarrow> test_options \<Rightarrow> pool \<Rightarrow> int result" where
  "run_tests w so opt p =
     bindR (read_waf_config (tw_evals w) (tw_exec w) (tw_lock w) (tw_lock_linux2 w) (tw_files w) (tw_globals w)) (\<lambda>(top_dir, out_dir, g).
     let c = tw_config w top_dir out_dir g; rc = (if so_nowaf so then 0 else tw_waf w (waf_cmd so opt)) in
     if rc \<noteq> 0 then Inr rc
     else bindR (runnables w c) (\<lambda>(programs, scripts).
       let ex = gather_examples c (tw_on_disk w) (tw_listed w) (case tw_examples w g of (ds, ms, cs) \<Rightarrow> example_locations ds ms cs) in
       if so_kinds so \<or> so_list so then Inr 0
       else run_selected w c opt programs scripts ex p))"

text \<open>What is printed by the options that only list: the kinds, the tests.\<close>

definition listing :: "'g test_world \<Rightarrow> waf_config \<Rightarrow> setup_options \<Rightarrow> test_options \<Rightarrow> string list \<Rightarrow> outline list" where
  "listing w c so opt example_names = (if so_kinds so then list_kinds c (tw_query w) else [])
     @ (if so_list so then list_tests c opt (tw_query w) example_names else [])"

definition exit_code :: "int result \<Rightarrow> int" where
  "exit_code r = (case r of Inr status \<Rightarrow> status | Inl (SystemExit n) \<Rightarrow> n | Inl e \<Rightarrow> 1)"

subsection \<open>The paths\<close>

lemma append_fold_others:
  "k \<noteq> var \<Longrightarrow> dget (fold (\<lambda>p e. dset var (dget_default e var [] @ sep # p) e) ps d) k = dget d k"
  by (induction ps arbitrary: d) (simp_all add: dict_simps)

lemma append_paths_others: "k \<noteq> var \<Longrightarrow> dget (append_paths sep var paths e) k = dget e k"
  by (simp add: append_paths_def Let_def append_fold_others dict_simps)

lemma append_fold_value:
  "dget e var = Some t \<Longrightarrow> dget (fold (\<lambda>p e. dset var (dget_default e var [] @ sep # p) e) ps e) var
     = Some (t @ concat (map (\<lambda>p. sep # p) ps))"
proof (induction ps arbitrary: e t)
  case (Cons p ps)
  have "dget (dset var (t @ sep # p) e) var = Some (t @ sep # p)" by (simp add: dict_simps)
  from Cons.IH [OF this] show ?case using Cons.prems by (simp add: dget_default_def)
qed simp

lemma append_paths_value:
  "dget (append_paths sep var paths e) var = Some (dget_default e var [] @ concat (map (\<lambda>p. sep # p) paths))"
proof (cases "dget e var")
  case None
  have "dget (dset var [] e) var = Some []" by (simp add: dict_simps)
  from append_fold_value [OF this] None show ?thesis by (simp add: append_paths_def Let_def dget_default_def)
next
  case (Some t)
  from append_fold_value [OF this] Some show ?thesis by (simp add: append_paths_def Let_def dget_default_def)
qed

text \<open>The modules come after what the library path was, and a \<open>PYTHONPATH\<close> of the user is lost: the path of
  the bindings takes its place, twice.\<close>

lemma make_paths_env:
  assumes "pypath = path_join (path_join builddir ''bindings'') ''python''" "platform = ''linux''"
  shows "dget (make_paths platform builddir module_path e) ''LD_LIBRARY_PATH''
      = Some (dget_default e ''LD_LIBRARY_PATH'' [] @ concat (map (\<lambda>p. CHR '':'' # p) module_path))"
    and "dget (make_paths platform builddir module_path e) ''PYTHONPATH''
      = Some (if dget e ''PYTHONPATH'' = None then pypath else pypath @ '':'' @ pypath)"
  using assms by (simp_all add: make_paths_def Let_def append_paths_others append_paths_value dget_default_def dict_simps)

subsection \<open>From the build to the exit status\<close>

lemma runnables_status:
  assumes "tw_files w (path_join (w_builddir c) ''build-status.py'') = Some (build_status programs scripts)"
    and "list_all plain_item programs" "list_all plain_item scripts" "list_all (\<lambda>s. \<not> occurs ''ns3_runnable_scripts'' s) programs"
  shows "runnables w c = Inr (programs, scripts)"
  using build_status_lists [OF assms(2-4), of "tw_literal w"] by (simp add: runnables_def assms(1))

lemma selected_fresh: "list_all fresh (selected_jobs w c opt programs scripts ex suites)"
  unfolding selected_jobs_def by (rule dispatched_fresh)

lemma collected_end:
  assumes "test_pool_end w c opt programs scripts ex suites p" "\<not> thread_exit p"
  shows "mset (collected p) = image_mset (job_done (run_job c opt (tw_popen w))) (mset (selected_jobs w c opt programs scripts ex suites))"
proof (cases "0 < selected_workers w opt")
  case True
  have "pool_inv (run_job c opt (tw_popen w)) (selected_jobs w c opt programs scripts ex suites) (selected_workers w opt) p"
    using assms(1) by (intro pool_inv_reachable [OF _ selected_fresh]) (simp add: test_pool_end_def test_pool_def)
  then show ?thesis using finished_results(2) True assms by (simp add: test_pool_end_def)
next
  case False
  then have "collected p = [] \<and> awaited p = length (selected_jobs w c opt programs scripts ex suites)"
    using assms(1) no_workers [of "run_job c opt (tw_popen w)" "selected_jobs w c opt programs scripts ex suites" p]
    by (simp add: test_pool_end_def test_pool_def)
  then show ?thesis using assms(1) by (simp add: test_pool_end_def finished_def)
qed

lemma run_selected_status:
  assumes "None \<notin> range (tw_tmp_file w)" "suite_list opt (tw_names w) = Some suites"
    and "test_pool_end w c opt programs scripts ex suites p" "\<not> thread_exit p"
  shows "run_selected w c opt programs scripts ex p
    = Inr (if \<forall>j \<in> set (selected_jobs w c opt programs scripts ex suites). j_is_skip j \<or> fst (run_job c opt (tw_popen w) j) = 0 then 0 else 1)"
proof -
  define jobs where "jobs = selected_jobs w c opt programs scripts ex suites"
  have ms: "mset (collected p) = image_mset (job_done (run_job c opt (tw_popen w))) (mset jobs)"
    unfolding jobs_def by (rule collected_end [OF assms(3,4)])
  then have len: "length (collected p) = length jobs" by (metis size_image_mset size_mset)
  have st: "set (collected p) = job_done (run_job c opt (tw_popen w)) ` set jobs" using ms by (metis set_image_mset set_mset_mset)
  obtain xml out where "run_report opt (tw_colors w) (tw_tmp_file w) (int (length jobs)) (collected p)
      = Inr (xml, out, if \<forall>j \<in> set (collected p). good j then 0 else 1)"
    using report_status [OF assms(1), of opt "tw_colors w" "collected p"] len by auto
  moreover have "good (job_done (run_job c opt (tw_popen w)) j) \<longleftrightarrow> j_is_skip j \<or> fst (run_job c opt (tw_popen w) j) = 0" if "j \<in> set jobs" for j
    using selected_fresh [of w c opt programs scripts ex suites] that by (auto simp: jobs_def good_def job_done_def fresh_def list_all_iff)
  ultimately show ?thesis using assms(2) st by (simp add: run_selected_def jobs_def [symmetric])
qed

text \<open>C31: After a build that succeeded, or that is not asked for, test.py exits with 0 when it is only asked to list,
  whatever the test runner answers; with 2 for a suite that nobody knows; and otherwise, when its threads come to
  their end without a control-C, in whatever interleaving, with 0 or 1: 0 exactly when every suite and every example that
  the status file of the build lets it run was skipped or returned 0. The threads can come to an end exactly when there is
  a worker or nothing to do; a negative \<open>--jobs\<close> gives no worker, and the main thread waits forever. The names in the
  status file are plain words, no program has the name of the list of scripts in it, and the suites leave their result
  files.\<close>

theorem tests_after_build:
  assumes "read_waf_config (tw_evals w) (tw_exec w) (tw_lock w) (tw_lock_linux2 w) (tw_files w) (tw_globals w) = Inr (top_dir, out_dir, g)"
    and "c = tw_config w top_dir out_dir g" "so_nowaf so \<or> tw_waf w (waf_cmd so opt) = 0"
    and "tw_files w (path_join (w_builddir c) ''build-status.py'') = Some (build_status programs scripts)"
    and "list_all plain_item programs" "list_all plain_item scripts" "list_all (\<lambda>s. \<not> occurs ''ns3_runnable_scripts'' s) programs"
    and "None \<notin> range (tw_tmp_file w)"
    and "ex = gather_examples c (tw_on_disk w) (tw_listed w) (case tw_examples w g of (ds, ms, cs) \<Rightarrow> example_locations ds ms cs)"
  shows "if so_kinds so \<or> so_list so then exit_code (run_tests w so opt p) = 0
    else (case suite_list opt (tw_names w) of None \<Rightarrow> exit_code (run_tests w so opt p) = 2
      | Some suites \<Rightarrow> (test_pool_end w c opt programs scripts ex suites p \<and> \<not> thread_exit p \<longrightarrow> exit_code (run_tests w so opt p)
            = (if \<forall>j \<in> set (selected_jobs w c opt programs scripts ex suites). j_is_skip j \<or> fst (run_job c opt (tw_popen w) j) = 0 then 0 else 1))
          \<and> ((\<exists>q. test_pool_end w c opt programs scripts ex suites q)
             \<longleftrightarrow> 0 < selected_workers w opt \<or> selected_jobs w c opt programs scripts ex suites = [])
          \<and> (t_process_limit opt < 0 \<and> 0 \<le> tw_processors w \<longrightarrow> selected_workers w opt = 0))"
proof -
  have r: "runnables w c = Inr (programs, scripts)" by (rule runnables_status [OF assms(4-7)])
  have t: "run_tests w so opt p = (if so_kinds so \<or> so_list so then Inr 0 else run_selected w c opt programs scripts ex p)"
    using assms(1,3) r assms(2,9) by (auto simp: run_tests_def Let_def)
  have ends: "(\<exists>q. test_pool_end w c opt programs scripts ex suites q)
      \<longleftrightarrow> 0 < selected_workers w opt \<or> selected_jobs w c opt programs scripts ex suites = []" for suites
    unfolding test_pool_end_def test_pool_def by (rule run_ends_iff [OF selected_fresh])
  have neg: "t_process_limit opt < 0 \<and> 0 \<le> tw_processors w \<Longrightarrow> selected_workers w opt = 0"
    by (simp add: selected_workers_def worker_count_def)
  show ?thesis
  proof (cases "suite_list opt (tw_names w)")
    case None
    then show ?thesis unfolding t by (simp add: run_selected_def exit_code_def)
  next
    case (Some suites)
    then show ?thesis unfolding t using run_selected_status [OF assms(8) Some, of c programs scripts ex p] ends [of suites] neg
      by (auto simp: exit_code_def)
  qed
qed

definition demo_world :: "int \<Rightarrow> string list test_world" where
  "demo_world rc = \<lparr>tw_lock = None,
     tw_lock_linux2 = Some [''top_dir = '' @ py_repr_str ''/n'', ''out_dir = '' @ py_repr_str ''/n/build''],
     tw_files = (\<lambda>p. if p = ''/n/build/c4che/_cache.py'' then Some [''NSC_ENABLED = True'', ''CC = 1'']
       else if p = ''/n/build/build-status.py'' then Some (build_status [] []) else None),
     tw_evals = (\<lambda>s. Inr (butlast (tl s))), tw_exec = (\<lambda>line g. Inr (g @ [line])), tw_globals = [],
     tw_config = (\<lambda>top_dir out_dir g. demo_config\<lparr>w_basedir := top_dir, w_builddir := out_dir,
       w_nsc_enabled := (g = [''NSC_ENABLED = True''])\<rparr>),
     tw_examples = (\<lambda>g. ([], [], [])), tw_waf = (\<lambda>cmd. if cmd = ''./waf'' then 0 else 1),
     tw_literal = (\<lambda>s. Inl GenericError), tw_iterate = (\<lambda>v. Inl TypeError), tw_listed = (\<lambda>p. ([], [])),
     tw_on_disk = (\<lambda>p. True), tw_query = (\<lambda>cmd. (0, [])), tw_names = (\<lambda>kind. [''core'']), tw_holds = (\<lambda>s. True),
     tw_abspath = id, tw_output_dir = ''t'', tw_popen = (\<lambda>cmd dir. (rc, True, True, Fin 1)),
     tw_tmp_file = (\<lambda>f. Some ''<Test/>''), tw_colors = False, tw_processors = 4\<rparr>"

definition demo_setup :: setup_options where
  "demo_setup = \<lparr>so_kinds = False, so_list = False, so_nowaf = False\<rparr>"

lemma demo_config_again: "tw_config (demo_world rc) ''/n'' ''/n/build'' [''NSC_ENABLED = True''] = demo_config"
  by (simp add: demo_world_def demo_config_def)

lemma demo_world_config:
  "read_waf_config (tw_evals (demo_world rc)) (tw_exec (demo_world rc)) (tw_lock (demo_world rc)) (tw_lock_linux2 (demo_world rc))
     (tw_files (demo_world rc)) (tw_globals (demo_world rc)) = Inr (''/n'', ''/n/build'', [''NSC_ENABLED = True''])"
  by code_simp

theorem tests_after_build_witness:
  "exit_code (run_tests (demo_world 0) demo_setup demo_options (demo_end 0)) = 0
   \<and> exit_code (run_tests (demo_world 1) demo_setup demo_options (demo_end 1)) = 1"
proof -
  have "exit_code (run_tests (demo_world rc) demo_setup demo_options (demo_end rc)) = (if rc = 0 then 0 else 1)" for rc
  proof -
    have h: "so_nowaf demo_setup \<or> tw_waf (demo_world rc) (waf_cmd demo_setup demo_options) = 0" by code_simp
    have f: "tw_files (demo_world rc) (path_join (w_builddir demo_config) ''build-status.py'') = Some (build_status [] [])" by code_simp
    have t: "None \<notin> range (tw_tmp_file (demo_world rc))" by (simp add: demo_world_def)
    have s: "suite_list demo_options (tw_names (demo_world rc)) = Some [''core'']" by code_simp
    have j: "demo_jobs = [suite_job demo_config demo_options ''t'' ''core'']" by code_simp
    have r: "fst (run_job demo_config demo_options (\<lambda>cmd dir. (rc, True, True, Fin 1)) (suite_job demo_config demo_options ''t'' ''core'')) = rc"
      "\<not> j_is_skip (suite_job demo_config demo_options ''t'' ''core'')" by code_simp+
    have g: "gather_examples demo_config (tw_on_disk (demo_world rc)) (tw_listed (demo_world rc))
        (case tw_examples (demo_world rc) [''NSC_ENABLED = True''] of (ds, ms, cs) \<Rightarrow> example_locations ds ms cs) = ([], [], [])"
      by (simp add: demo_world_def example_locations_def gather_examples_def)
    have d: "selected_jobs (demo_world rc) demo_config demo_options [] [] ([], [], []) [''core''] = demo_jobs"
      by (simp add: demo_jobs_def demo_world_def selected_jobs_def)
    have p: "tw_popen (demo_world rc) = (\<lambda>cmd dir. (rc, True, True, Fin 1))" by (simp add: demo_world_def)
    have n: "selected_workers (demo_world rc) demo_options = 1" by (simp add: selected_workers_def worker_count_def demo_world_def demo_options_def)
    have e: "test_pool_end (demo_world rc) demo_config demo_options [] [] ([], [], []) [''core''] (demo_end rc)" "\<not> thread_exit (demo_end rc)"
      using demo_run [of rc] by (simp_all add: test_pool_end_def test_pool_def d n p) (simp_all add: finished_def demo_end_def)
    show ?thesis
      using tests_after_build [OF demo_world_config demo_config_again [symmetric] h f _ _ _ t g [symmetric], of "demo_end rc"] s e
      by (simp add: d j p r demo_setup_def)
  qed
  then show ?thesis by simp
qed

end
