(* ===== verification/ModuleFiles.thy ===== *)
theory ModuleFiles
  imports BuildRun TestRunner
begin

text \<open>
  What the build creates before \<open>ModuleBuild\<close> selects: src/wscript (the modules of src, their libraries, test
  libraries, headers and pkg-config files) and the programs of wscript, with the profile that wscript reads back
  from waf's lock file. What waf's nodes answer (relative paths, the pattern of a shared library, the formats of
  the compiler's options) is given by parameters; compiler flags are left out but for the name of a library.
\<close>

subsection \<open>Modules\<close>

definition src_modules :: "(string \<times> entry) list \<Rightarrow> string list" where
  "src_modules es = sort (map fst (filter (\<lambda>(n, e). \<not> startswith n ''.'' \<and> n \<noteq> ''CVS''
     \<and> (case e of Plain \<Rightarrow> False | Folder ds \<Rightarrow> has_wscript ds)) es))"

text \<open>The modules that are read: those that cannot be built are taken out.\<close>

definition without_not_built :: "string list \<Rightarrow> string list \<Rightarrow> string list" where
  "without_not_built not_built all_modules = fold (\<lambda>n all. let n = (if n = ''ns3tcp'' \<or> n = ''ns3wifi'' then ''test/'' @ n else n)
     in if n \<in> set all then remove1 n all else all) not_built all_modules"

record build_settings =
  bs_app :: string
  bs_version :: string
  bs_suffix :: string
  bs_static :: bool
  bs_cxx_name :: string
  bs_soname :: bool
  bs_shlib :: "string \<Rightarrow> string"

record ns3_module =
  nm_name :: string
  nm_features :: string
  nm_target :: string
  nm_use :: "string list"
  nm_deps :: "string list"
  nm_linkflags :: "string list"
  nm_test :: bool
  nm_is_module :: bool
  nm_tests :: "string option"

text \<open>\<open>to_src\<close>: the path from the directory of the module to the root of the sources.\<close>

definition create_ns3_module :: "build_settings \<Rightarrow> string \<Rightarrow> string \<Rightarrow> string list \<Rightarrow> bool \<Rightarrow> ns3_module" where
  "create_ns3_module st to_src name dependencies test = (let target = to_src @ ''/lib/ns'' @ bs_version st @ ''-'' @ name @ bs_suffix st in
     \<lparr>nm_name = ''ns3-'' @ name, nm_features = (if bs_static st then ''cxx cxxstlib ns3module'' else ''cxx cxxshlib ns3module''),
      nm_target = target, nm_use = map (\<lambda>dep. ''ns3-'' @ dep) dependencies, nm_deps = dependencies,
      nm_linkflags = (if \<not> bs_static st \<and> bs_cxx_name st \<in> {''gcc'', ''icc''} \<and> bs_soname st
        then [''-Wl,--soname='' @ bs_shlib st (basename target)] else []),
      nm_test = test, nm_is_module = True, nm_tests = None\<rparr>)"

text \<open>A test library and its entry in the list of test libraries.\<close>

definition create_ns3_module_test_library :: "build_settings \<Rightarrow> string \<Rightarrow> string \<Rightarrow> ns3_module \<times> (string \<times> string)" where
  "create_ns3_module_test_library st to_src name = (let lib = create_ns3_module st to_src (name @ ''-test'') [name] True;
       lib = lib\<lparr>nm_features := nm_features lib @ '' ns3testlib'', nm_is_module := False, nm_tests := Some (''ns3-'' @ name)\<rparr>
     in (lib, (''ns3-'' @ name, nm_name lib)))"

subsection \<open>Programs\<close>

text \<open>A program is a task generator and its target.\<close>

definition create_ns3_program :: "build_settings \<Rightarrow> string \<Rightarrow> string \<Rightarrow> string list \<Rightarrow> tgen \<times> string" where
  "create_ns3_program st dir name dependencies =
     (\<lparr>g_name = name, g_features = [''cxx'', ''cxxprogram''], g_module = None, g_needs = Some (map (\<lambda>dep. ''ns3-'' @ dep) dependencies),
       g_is_module = False, g_tests = None, g_dir = dir, g_removes = False\<rparr>, bs_app st @ bs_version st @ ''-'' @ name @ bs_suffix st)"

definition register_ns3_script :: "string \<Rightarrow> string list \<Rightarrow> (string \<times> string list) list \<Rightarrow> (string \<times> string list) list" where
  "register_ns3_script name dependencies scripts = scripts @ [(name, map (\<lambda>dep. ''ns3-'' @ dep) dependencies)]"

text \<open>The programs in scratch need all enabled modules; their target is their name. \<open>None\<close>: there is no scratch.\<close>

definition scratch_program :: "build_settings \<Rightarrow> string \<Rightarrow> string list \<Rightarrow> string \<times> entry \<Rightarrow> (tgen \<times> string) list" where
  "scratch_program st dir all_modules entry = (case entry of (filename, e) \<Rightarrow>
     if startswith filename ''.'' \<or> filename = ''CVS'' then []
     else (case e of
         Folder es \<Rightarrow> [(fst (create_ns3_program st (path_join dir filename) filename all_modules), filename)]
       | Plain \<Rightarrow> if endswith filename ''.cc''
           then (let name = take (length filename - 3) filename in [(fst (create_ns3_program st dir name all_modules), name)]) else []))"

definition add_scratch_programs :: "build_settings \<Rightarrow> string \<Rightarrow> string list \<times> string list \<Rightarrow> (string \<times> entry) list option \<Rightarrow> (tgen \<times> string) list" where
  "add_scratch_programs st dir en scratch = (case scratch of None \<Rightarrow> []
     | Some es \<Rightarrow> concat (map (scratch_program st dir (map (drop 4) (fst en @ snd en))) es))"

text \<open>The directories of examples that are read.\<close>

definition add_examples_programs :: "bool \<Rightarrow> (string \<times> entry) list option \<Rightarrow> string list" where
  "add_examples_programs enable_examples examples = (case examples of None \<Rightarrow> []
     | Some es \<Rightarrow> if enable_examples then map (\<lambda>(n, e). path_join ''examples'' n)
         (filter (\<lambda>(n, e). \<not> (startswith n ''.'' \<or> n = ''CVS'') \<and> (case e of Plain \<Rightarrow> False | Folder ds \<Rightarrow> True)) es) else [])"

definition find_ns3_module :: "tgen list \<Rightarrow> string \<Rightarrow> tgen result" where
  "find_ns3_module gens name = (case filter (\<lambda>g. g_is_module g \<and> g_name g = name) gens of [] \<Rightarrow> Inl KeyError | g # gs \<Rightarrow> Inr g)"

subsection \<open>Module headers\<close>

record header_gen =
  hg_module :: string
  hg_headers :: "string list"

text \<open>The headers of a module, from all generators that declare some for it; the headers of a generator are a set.\<close>

definition module_headers :: "string \<Rightarrow> header_gen list \<Rightarrow> string list result" where
  "module_headers module_id gens = (let mine = filter (\<lambda>g. hg_module g = module_id) gens in
     if mine = [] then Inl WafError else Inr (concat (map (\<lambda>g. map basename (sort (remdups (hg_headers g)))) mine)))"

definition module_header :: "string \<Rightarrow> string list \<Rightarrow> string list" where
  "module_header module_id headers = ['''', ''#ifdef NS3_MODULE_COMPILATION'',
     ''# error '' @ dquote @ ''Do not include ns3 module aggregator headers from other modules; these are meant only for end user scripts.'' @ dquote,
     ''#endif'', '''', ''#ifndef NS3_MODULE_'' @ replace ''-'' ''_'' (py_upper module_id), ''    '', '''', ''// Module headers:'']
     @ map (\<lambda>h. ''#include '' @ dquote @ h @ dquote) (sort headers) @ [''#endif'']"

subsection \<open>Package files\<close>

text \<open>The variables of the environment that are looked up, the formats of the compiler's options and the rest.\<close>

record pc_env =
  pe_libpath :: "string \<Rightarrow> string list"
  pe_linkflags :: "string \<Rightarrow> string list"
  pe_lib :: "string \<Rightarrow> string list"
  pe_flags :: "string \<Rightarrow> string list"
  pe_defines :: "string \<Rightarrow> string list"
  pe_includes :: "string \<Rightarrow> string list"
  pe_exports :: "string list"
  pe_libs :: "string list"
  pe_markers :: "string option"
  pe_libpath_st :: "string \<Rightarrow> string"
  pe_own_path_st :: "string \<Rightarrow> string"
  pe_lib_st :: "string \<Rightarrow> string"
  pe_own_st :: "string \<Rightarrow> string"
  pe_define_st :: "string \<Rightarrow> string"
  pe_include_st :: "string \<Rightarrow> string"
  pe_prefix :: string
  pe_libdir :: string
  pe_includedir :: string

definition pc_self_libs :: "pc_env \<Rightarrow> string \<Rightarrow> string list" where
  "pc_self_libs e name = [pe_own_path_st e ''${libdir}''] @ (case pe_markers e of None \<Rightarrow> [] | Some m \<Rightarrow> [m]) @ [pe_own_st e name]"

definition pc_lib :: "pc_env \<Rightarrow> string \<Rightarrow> string list" where
  "pc_lib e dep = concat (map (\<lambda>p. pe_libpath_st e p # pe_linkflags e dep) (pe_libpath e dep)) @ map (pe_lib_st e) (pe_lib e dep)"

text \<open>The texts of \<open>LIBS\<close> are added to a list, that is, their characters are.\<close>

definition pc_libs :: "build_settings \<Rightarrow> pc_env \<Rightarrow> string \<Rightarrow> string list \<Rightarrow> string list" where
  "pc_libs st e name deps = pc_self_libs e (bs_app st @ bs_version st @ ''-'' @ drop 4 name @ bs_suffix st)
     @ concat (map (pc_lib e) deps) @ map (\<lambda>c. [c]) (concat (map (pe_lib_st e) (pe_libs e)))"

definition pc_cflags :: "pc_env \<Rightarrow> string list \<Rightarrow> string list" where
  "pc_cflags e deps = pe_include_st e ''${includedir}'' # map (pe_include_st e) (pe_exports e) @ concat (map (\<lambda>d. pe_flags e d @ map (pe_define_st e) (pe_defines e d)
     @ map (pe_include_st e) (pe_includes e d)) deps)"

definition pc_requires :: "build_settings \<Rightarrow> string list \<Rightarrow> string list" where
  "pc_requires st deps = map (\<lambda>d. ''libns'' @ bs_version st @ ''-'' @ drop 4 d @ bs_suffix st) (filter (\<lambda>d. startswith d ''ns3-'') deps)"

definition generate_pcfile :: "build_settings \<Rightarrow> pc_env \<Rightarrow> string \<Rightarrow> string list \<Rightarrow> string list" where
  "generate_pcfile st e name deps = [''prefix='' @ pe_prefix e, ''libdir='' @ pe_libdir e, ''includedir='' @ pe_includedir e, '''',
     ''Name: lib'' @ name, ''Description: ns-3 module '' @ name, ''Version: '' @ bs_version st, ''Libs: '' @ join '' '' (pc_libs st e name deps),
     ''Cflags: '' @ join '' '' (pc_cflags e deps), ''Requires: '' @ join '' '' (pc_requires st deps)]"

subsection \<open>The profile in the lock file\<close>

fun profile_items :: "string list \<Rightarrow> string option result" where
  "profile_items [] = Inr None"
| "profile_items (x # xs) = (case split_char CHR '':'' x of
     [optkey, optval] \<Rightarrow> if lstrip optkey = [CHR 0x27] @ ''build_profile'' @ [CHR 0x27]
       then Inr (Some (replace [CHR 0x27] '''' (lstrip optval))) else profile_items xs
   | _ \<Rightarrow> Inl ValueError)"

fun profile_lines :: "string list \<Rightarrow> string result" where
  "profile_lines [] = Inr ''not found''"
| "profile_lines (l # ls) = (if startswith l ''options =''
     then (case split_once CHR ''='' l of None \<Rightarrow> Inl ValueError | Some (k, v) \<Rightarrow>
       (case profile_items (split_char CHR '','' v) of Inl e \<Rightarrow> Inl e | Inr (Some p) \<Rightarrow> Inr p | Inr None \<Rightarrow> profile_lines ls))
     else profile_lines ls)"

text \<open>\<open>lock\<close>: the lines of the lock file, when there is one; \<open>given\<close>: the option, when an environment is passed.\<close>

definition get_build_profile :: "string option \<Rightarrow> string list option \<Rightarrow> string result" where
  "get_build_profile given lock = (case given of Some p \<Rightarrow> Inr p
     | None \<Rightarrow> (case lock of None \<Rightarrow> Inl FileNotFoundError | Some ls \<Rightarrow> profile_lines ls))"

subsection \<open>Programs in scratch\<close>

definition scratch_name :: "string \<times> entry \<Rightarrow> string option" where
  "scratch_name entry = (case entry of (n, e) \<Rightarrow> if startswith n ''.'' \<or> n = ''CVS'' then None
     else (case e of Folder es \<Rightarrow> Some n | Plain \<Rightarrow> if endswith n ''.cc'' then Some (take (length n - 3) n) else None))"

text \<open>What a generator made for scratch is like.\<close>

definition scratch_gen :: "string list \<times> string list \<Rightarrow> tgen \<times> string \<Rightarrow> bool" where
  "scratch_gen en p = (case p of (g, target) \<Rightarrow> g_needs g = Some (map (\<lambda>dep. ''ns3-'' @ dep) (map (drop 4) (fst en @ snd en)))
     \<and> g_features g = [''cxx'', ''cxxprogram''] \<and> \<not> g_is_module g \<and> g_tests g = None \<and> \<not> g_removes g \<and> target = g_name g)"

lemma scratch_program_gen: "list_all (scratch_gen en) (scratch_program st dir (map (drop 4) (fst en @ snd en)) entry)"
  by (auto simp: scratch_program_def scratch_gen_def create_ns3_program_def Let_def split: prod.splits entry.splits)

lemma scratch_gens: "list_all (scratch_gen en) (add_scratch_programs st dir en scratch)"
proof -
  have "list_all (scratch_gen en) (concat (map (scratch_program st dir (map (drop 4) (fst en @ snd en))) es))" for es
    using scratch_program_gen by (auto simp: list_all_iff)
  then show ?thesis unfolding add_scratch_programs_def by (cases scratch) auto
qed

definition ns3_names :: "string list \<times> string list \<Rightarrow> bool" where
  "ns3_names en \<longleftrightarrow> list_all (\<lambda>m. startswith m ''ns3-'') (fst en @ snd en)"

lemma ns3_drop: "startswith m ''ns3-'' \<Longrightarrow> ''ns3-'' @ drop 4 m = m"
proof -
  assume s: "startswith m ''ns3-''"
  have "length ''ns3-'' = 4" by simp
  then have "take 4 m = ''ns3-''" using s by (simp only: startswith_def)
  then show ?thesis by (metis append_take_drop_id)
qed

lemma scratch_needs: "ns3_names en \<Longrightarrow> map (\<lambda>dep. ''ns3-'' @ dep) (map (drop 4) (fst en @ snd en)) = fst en @ snd en"
  using ns3_drop by (auto simp: ns3_names_def list_all_iff intro!: map_idI)

lemma scratch_step:
  assumes "scratch_gen en (g, target)" "ns3_names en" "\<not> occurs ''pybindgen'' (g_name g)"
  shows "select_step app_version suffix enable_tests en g (kept, programs) = Inr (kept @ [g], programs @ [program_path app_version suffix g])"
proof -
  have needs: "g_needs g = Some (fst en @ snd en)" using assms scratch_needs [OF assms(2)] by (simp add: scratch_gen_def)
  then have on: "program_on en g" by (simp add: program_on_def is_on_def list_all_iff)
  show ?thesis using assms needs on
    by (simp add: select_step_def scratch_gen_def module_off_def has_feature_def Let_def)
qed

lemma scratch_fold:
  assumes "list_all (scratch_gen en) ps" "ns3_names en" "list_all (\<lambda>(g, target). \<not> occurs ''pybindgen'' (g_name g)) ps"
  shows "foldR (select_step app_version suffix enable_tests en) (map fst ps) (kept, programs)
    = Inr (kept @ map fst ps, programs @ map (program_path app_version suffix) (map fst ps))"
  using assms(1,3)
proof (induction ps arbitrary: kept programs)
  case (Cons p ps)
  obtain g target where p: "p = (g, target)" by (cases p)
  show ?case using Cons scratch_step [OF _ assms(2), of g target] by (simp add: p)
qed simp

text \<open>The list of runnable programs gives a program of scratch the prefix and the suffix of the other programs, which the
  file that is built does not have.\<close>

lemma scratch_listed_elsewhere:
  assumes "(g, target) \<in> set (add_scratch_programs st dir en scratch)"
  shows "target = g_name g \<and> program_path app_version suffix g = path_join (g_dir g) (app_version @ ''-'' @ target @ suffix)"
  using scratch_gens [of en st dir scratch] assms by (auto simp: list_all_iff scratch_gen_def program_path_def)

text \<open>C38: Whatever modules a build enables, it builds every program of scratch: the programs that scratch adds to the
  task generators, made for the modules that the build has enabled, are all kept, and the rest of the build is what it is
  without them. They are all listed as runnable when some module is enabled; with none, nothing is listed, and
  they are built all the same. The enabled modules have names with the prefix \<open>ns3-\<close>, as configure gives them, and
  no program has pybindgen in its name, which the build takes for python bindings.\<close>

theorem scratch_always_built:
  assumes "build_modules app_version suffix enable_tests uses m test_libraries tgens scripts = Inr b"
    and "ps = add_scratch_programs st dir (b_enabled b, b_contributed b) scratch" "ns3_names (b_enabled b, b_contributed b)"
    and "list_all (\<lambda>(g, target). \<not> occurs ''pybindgen'' (g_name g)) ps"
  shows "build_modules app_version suffix enable_tests uses m test_libraries (tgens @ map fst ps) scripts
    = Inr (b\<lparr>b_kept := b_kept b @ map fst ps,
        b_programs := (if enabled_modules m = [] \<and> enabled_contributed m = [] then []
          else b_programs b @ map (program_path app_version suffix) (map fst ps))\<rparr>)"
proof (cases "enabled_modules m = [] \<and> enabled_contributed m = []")
  case True
  then show ?thesis using assms(1) by (auto simp: build_modules_def bindR_eq_Inr)
next
  case False
  have gens: "list_all (scratch_gen (b_enabled b, b_contributed b)) ps" unfolding assms(2) by (rule scratch_gens)
  obtain e c kept programs ss where run: "close_modules uses (known_modules m) (contributed_modules m) (enabled_modules m) (enabled_contributed m) = Inr (e, c)"
      "foldR (select_step app_version suffix enable_tests (e, c)) tgens ([], []) = Inr (kept, programs)" "select_scripts (Some (e, c)) scripts = Inr ss"
    and b: "b = \<lparr>b_enabled = e, b_contributed = c, b_kept = kept,
        b_test_libraries = (if enable_tests then map snd (filter (\<lambda>(md, lib). is_on (e, c) md) test_libraries) else []),
        b_programs = programs, b_scripts = ss\<rparr>"
    using assms(1) False by (auto simp: build_modules_def bindR_eq_Inr)
  have "foldR (select_step app_version suffix enable_tests (e, c)) (map fst ps) (kept, programs)
      = Inr (kept @ map fst ps, programs @ map (program_path app_version suffix) (map fst ps))"
    using scratch_fold [OF gens assms(3,4)] by (simp add: b)
  then show ?thesis using False by (auto simp: build_modules_def run foldR_append b simp del: map_map)
qed

definition demo_settings :: build_settings where
  "demo_settings = \<lparr>bs_app = ''ns'', bs_version = ''3.32'', bs_suffix = ''-debug'', bs_static = False, bs_cxx_name = ''gcc'', bs_soname = True,
     bs_shlib = (\<lambda>n. ''lib'' @ n @ ''.so'')\<rparr>"

theorem scratch_always_built_witness:
  "map_sum id b_programs (build_modules ''ns3.32'' ''-debug'' True (\<lambda>n. Some [])
       \<lparr>known_modules = [''ns3-core''], contributed_modules = [], enabled_modules = [''ns3-core''], enabled_contributed = [], shared = False\<rparr> []
       ([] @ map fst (add_scratch_programs demo_settings ''build/scratch'' ([''ns3-core''], []) (Some [(''sim.cc'', Plain), (''notes.txt'', Plain)]))) [])
     = Inr [''build/scratch/ns3.32-sim-debug'']"
proof -
  define m where "m = \<lparr>known_modules = [''ns3-core''], contributed_modules = [], enabled_modules = [''ns3-core''], enabled_contributed = [], shared = False\<rparr>"
  define ps where "ps = add_scratch_programs demo_settings ''build/scratch'' ([''ns3-core''], []) (Some [(''sim.cc'', Plain), (''notes.txt'', Plain)])"
  define b where "b = \<lparr>b_enabled = [''ns3-core''], b_contributed = [], b_kept = [], b_test_libraries = [], b_programs = [], b_scripts = []\<rparr>"
  have h: "build_modules ''ns3.32'' ''-debug'' True (\<lambda>n. Some []) m [] [] [] = Inr b"
    "ps = add_scratch_programs demo_settings ''build/scratch'' (b_enabled b, b_contributed b) (Some [(''sim.cc'', Plain), (''notes.txt'', Plain)])"
    "ns3_names (b_enabled b, b_contributed b)" "list_all (\<lambda>(g, target). \<not> occurs ''pybindgen'' (g_name g)) ps"
    "map (program_path ''ns3.32'' ''-debug'') (map fst ps) = [''build/scratch/ns3.32-sim-debug'']"
    unfolding ps_def m_def b_def by code_simp+
  show ?thesis using scratch_always_built [OF h(1-4)] h(5) by (simp add: m_def b_def ps_def)
qed

subsection \<open>A program of scratch can be run\<close>

text \<open>What \<open>find_program\<close> sees of a program: \<open>src_root\<close> is the root of the sources, where waf is launched, and the
  results go to build below it.\<close>

definition seen_as :: "string \<Rightarrow> tgen \<times> string \<Rightarrow> program" where
  "seen_as src_root p = (case p of (g, target) \<Rightarrow> let rel = drop (length ''build/'') (g_dir g) in
     \<lparr>p_name = g_name g, p_is_program = True, p_source_dir = path_join src_root rel, p_build_dir = path_join src_root (g_dir g),
      p_relative = rel, p_target = path_join (path_join src_root (g_dir g)) target\<rparr>)"

lemma find_loop_unique:
  assumes "p \<in> set ps" "p_is_program p" "startswith (p_source_dir p) launch_dir" "q \<in> set (program_names p)"
    and "\<forall>p' \<in> set ps. q \<in> set (program_names p') \<longrightarrow> p' = p"
  shows "find_loop launch_dir q ps found = Inr p"
  using assms
proof (induction ps arbitrary: found)
  case (Cons p' ps)
  show ?case
  proof (cases "p' = p")
    case True
    then show ?thesis using Cons.prems(2-4) by simp
  next
    case False
    have other: "q \<notin> set (program_names p')" using Cons.prems(5) False by (meson list.set_intros(1))
    have there: "p \<in> set ps" using Cons.prems(1) False by simp
    have only: "\<forall>p' \<in> set ps. q \<in> set (program_names p') \<longrightarrow> p' = p" using Cons.prems(5) by (meson list.set_intros(2))
    show ?thesis using Cons.IH [OF there Cons.prems(2-4) only] other by simp
  qed
next
  case Nil
  from Nil.prems(1) show ?case by simp
qed

definition scratch_file :: "build_settings \<Rightarrow> string list \<times> string list \<Rightarrow> string \<Rightarrow> tgen \<times> string" where
  "scratch_file st en n = (fst (create_ns3_program st ''build/scratch'' n (map (drop 4) (fst en @ snd en))), n)"

lemma scratch_file_in:
  assumes "(n @ ''.cc'', Plain) \<in> set es" "\<not> startswith n ''.''" "n \<noteq> []"
  shows "scratch_file st en n \<in> set (add_scratch_programs st ''build/scratch'' en (Some es))"
proof -
  have "scratch_file st en n \<in> set (scratch_program st ''build/scratch'' (map (drop 4) (fst en @ snd en)) (n @ ''.cc'', Plain))"
    using assms(2,3) by (cases n) (auto simp: scratch_program_def scratch_file_def startswith_def endswith_def Let_def)
  then show ?thesis using assms(1) by (auto simp: add_scratch_programs_def)
qed

lemma ends_last: "s \<noteq> [] \<Longrightarrow> endswith s [c] \<longleftrightarrow> last s = c"
  by (cases s rule: rev_cases) (simp_all add: endswith_def)

text \<open>A program of scratch has the name that is asked for only when it is the one.\<close>

lemma scratch_file_only:
  assumes "p \<in> set (add_scratch_programs st ''build/scratch'' en (Some es))" "list_all (\<lambda>(f, e). CHR ''/'' \<notin> set f \<and> f \<noteq> []) es"
    and "''scratch/'' @ n \<in> set (program_names (seen_as src_root p))" "CHR ''/'' \<notin> set n"
  shows "p = scratch_file st en n"
proof -
  obtain f e where fe: "(f, e) \<in> set es" "p \<in> set (scratch_program st ''build/scratch'' (map (drop 4) (fst en @ snd en)) (f, e))"
    using assms(1) by (auto simp: add_scratch_programs_def)
  have f: "CHR ''/'' \<notin> set f" "f \<noteq> []" using fe(1) assms(2) by (auto simp: list_all_iff)
  have nl: "CHR ''/'' \<notin> set (take k f)" for k using f(1) by (meson in_set_takeD)
  show ?thesis
  proof (cases e)
    case (Folder ds)
    then have p: "p = (fst (create_ns3_program st (path_join ''build/scratch'' f) f (map (drop 4) (fst en @ snd en))), f)"
      using fe(2) by (auto simp: scratch_program_def split: if_splits)
    have "\<not> startswith f ''/''" using f by (cases f) (auto simp: startswith_def)
    moreover have "last f \<noteq> CHR ''/''" using f last_in_set by metis
    ultimately have "program_names (seen_as src_root p) = [f, ''scratch/'' @ f @ ''/'' @ f]"
      using f by (simp add: p seen_as_def create_ns3_program_def program_names_def path_join_def ends_last Let_def)
    then have "f = ''scratch/'' @ n \<or> n = f @ ''/'' @ f" using assms(3) by auto
    then show ?thesis using f(1) assms(4) by auto
  next
    case Plain
    define m where "m = take (length f - 3) f"
    have p: "p = scratch_file st en m"
      using fe(2) Plain by (auto simp: scratch_program_def scratch_file_def m_def Let_def split: if_splits)
    have m: "CHR ''/'' \<notin> set m" using nl by (simp add: m_def)
    have "program_names (seen_as src_root p) = [m, ''scratch/'' @ m]"
      using m by (cases m) (auto simp: p scratch_file_def seen_as_def create_ns3_program_def program_names_def path_join_def endswith_def
          startswith_def Let_def)
    then have "m = ''scratch/'' @ n \<or> n = m" using assms(3) by auto
    then show ?thesis using m p by auto
  qed
qed

lemma scratch_found:
  assumes "(n @ ''.cc'', Plain) \<in> set es" "\<not> startswith n ''.''" "n \<noteq> []" "CHR ''/'' \<notin> set n"
    and "list_all (\<lambda>(f, e). CHR ''/'' \<notin> set f \<and> f \<noteq> []) es"
    and "ps = others @ map (seen_as src_root) (add_scratch_programs st ''build/scratch'' en (Some es))"
    and "list_all (\<lambda>p. ''scratch/'' @ n \<notin> set (program_names p)) others"
  shows "find_program src_root ps (''scratch/'' @ n) = Inr (seen_as src_root (scratch_file st en n))
    \<and> p_target (seen_as src_root (scratch_file st en n)) = path_join (path_join src_root ''build/scratch'') n"
proof
  have n: "\<not> startswith n ''/''" using assms(4) by (cases n) (auto simp: startswith_def)
  show "p_target (seen_as src_root (scratch_file st en n)) = path_join (path_join src_root ''build/scratch'') n"
    by (simp add: seen_as_def scratch_file_def create_ns3_program_def Let_def)
  show "find_program src_root ps (''scratch/'' @ n) = Inr (seen_as src_root (scratch_file st en n))"
    unfolding find_program_def
  proof (rule find_loop_unique)
    show "seen_as src_root (scratch_file st en n) \<in> set ps" using scratch_file_in [OF assms(1-3)] assms(6) by auto
    show "\<forall>p' \<in> set ps. ''scratch/'' @ n \<in> set (program_names p') \<longrightarrow> p' = seen_as src_root (scratch_file st en n)"
    proof (intro ballI impI)
      fix p' assume p': "p' \<in> set ps" "''scratch/'' @ n \<in> set (program_names p')"
      then have "p' \<notin> set others" using assms(7) by (auto simp: list_all_iff)
      then obtain p where "p \<in> set (add_scratch_programs st ''build/scratch'' en (Some es))" "p' = seen_as src_root p"
        using p'(1) assms(6) by auto
      then show "p' = seen_as src_root (scratch_file st en n)" using scratch_file_only [OF _ assms(5) _ assms(4)] p'(2) by blast
    qed
    show "''scratch/'' @ n \<in> set (program_names (seen_as src_root (scratch_file st en n)))"
      using n by (simp add: scratch_file_def seen_as_def create_ns3_program_def program_names_def path_join_def endswith_def Let_def)
    show "startswith (p_source_dir (seen_as src_root (scratch_file st en n))) src_root"
      by (simp add: scratch_file_def seen_as_def create_ns3_program_def path_join_def startswith_def Let_def)
  qed (simp add: seen_as_def scratch_file_def Let_def)
qed

text \<open>C21: A source file in scratch is a program that the build finds by its path, as the experiments ask for it, and
  what is started is the file that is built from it, whatever else scratch holds; programs elsewhere must not have
  its name.\<close>

theorem scratch_program_found:
  assumes "(n @ ''.cc'', Plain) \<in> set es" "\<not> startswith n ''.''" "n \<noteq> []" "CHR ''/'' \<notin> set n"
    and "list_all (\<lambda>(f, e). CHR ''/'' \<notin> set f \<and> f \<noteq> []) es"
    and "ps = others @ map (seen_as src_root) (add_scratch_programs st ''build/scratch'' en (Some es))"
    and "list_all (\<lambda>p. ''scratch/'' @ n \<notin> set (program_names p)) others"
  shows "find_program src_root ps (''scratch/'' @ n) = Inr (seen_as src_root (scratch_file st en n))
    \<and> p_target (seen_as src_root (scratch_file st en n)) = path_join (path_join src_root ''build/scratch'') n"
  by (rule scratch_found [OF assms])

theorem scratch_program_found_witness:
  "p_target (seen_as ''/ns'' (scratch_file demo_settings ([''ns3-core''], []) ''HomaL4Protocol-paper-reproduction''))
     = ''/ns/build/scratch/HomaL4Protocol-paper-reproduction''
   \<and> find_program ''/ns'' (map (seen_as ''/ns'') (add_scratch_programs demo_settings ''build/scratch'' ([''ns3-core''], [])
       (Some [(''subdir'', Folder []), (''HomaL4Protocol-paper-reproduction.cc'', Plain)]))) ''scratch/HomaL4Protocol-paper-reproduction''
     = Inr (seen_as ''/ns'' (scratch_file demo_settings ([''ns3-core''], []) ''HomaL4Protocol-paper-reproduction''))"
proof -
  let ?n = "''HomaL4Protocol-paper-reproduction''"
  have h: "(?n @ ''.cc'', Plain) \<in> set [(''subdir'', Folder []), (''HomaL4Protocol-paper-reproduction.cc'', Plain)]"
    "\<not> startswith ?n ''.''" "?n \<noteq> []" "CHR ''/'' \<notin> set ?n"
    "list_all (\<lambda>(f, e). CHR ''/'' \<notin> set f \<and> f \<noteq> []) [(''subdir'', Folder []), (''HomaL4Protocol-paper-reproduction.cc'', Plain)]"
    by (simp, code_simp, simp, simp, simp)
  have t: "path_join (path_join ''/ns'' ''build/scratch'') ?n = ''/ns/build/scratch/HomaL4Protocol-paper-reproduction''" by code_simp
  show ?thesis
    using scratch_program_found [OF h, where others = "[]" and src_root = "''/ns''" and st = demo_settings and en = "([''ns3-core''], [])"] t
    by simp
qed

definition demo_args :: run_args where
  "demo_args = \<lparr>ra_duration = Fin 1, ra_disable_rtx = False, ra_trace_queues = True, ra_trace_sird_grant = False, ra_bdp_pkts = 7,
    ra_inbound_rtx_timeout_us = 1, ra_outbound_rtx_timeout_us = 2, ra_sird_credit_budget_pkts = 3, ra_sird_unsch_threshold_pkts = 4,
    ra_sird_ecn_md_factor = Fin 1, ra_sird_ecn_ai_step = Fin 1, ra_sird_sender_md_factor = Fin 1, ra_sird_sender_ai_step = Fin 1,
    ra_sird_ecn_alpha_gain = Fin 1, ra_sird_sender_csn_threshold_us = 5\<rparr>"

subsection \<open>An experiment is run\<close>

text \<open>C20: The command of an experiment reaches the simulation as it was meant. The shell gives the words to waf as one
  argument; when scratch holds the source of the simulation, waf finds the program whatever else scratch holds, and
  with no debugger and no template starts the binary built from that file with exactly the remaining words; the
  run succeeds when the binary exits with 0 and is an error, never a value, otherwise. Programs outside scratch
  must not have its name.\<close>

theorem experiment_started:
  assumes "n = ''HomaL4Protocol-paper-reproduction''" "(n @ ''.cc'', Plain) \<in> set es"
    and "list_all (\<lambda>(f, e). CHR ''/'' \<notin> set f \<and> f \<noteq> []) es"
    and "ps = others @ map (seen_as src_root) (add_scratch_programs st ''build/scratch'' en (Some es))"
    and "list_all (\<lambda>p. ''scratch/'' @ n \<notin> set (program_names p)) others"
    and "opts = \<lparr>ro_valgrind = False, ro_gdb = False, ro_template = ''''\<rparr>"
    and "argv = path_join (path_join src_root ''build/scratch'') n # tl (run_words args mode load sim_idx)"
  shows "shlex_split (run_cmd args (load, sim_idx, mode)) = Inr [''./waf'', ''--run'', build_ns3_run_args args mode load sim_idx]
    \<and> (case run_program percent src_root ps opts valgrind proc signals (build_ns3_run_args args mode load sim_idx)
             (Some (get_command_template (ro_template opts) [])) False of
         Inr r \<Rightarrow> r = 0 \<and> fst (proc argv) = 0
       | Inl e \<Rightarrow> fst (proc argv) \<noteq> 0 \<and> (e = Exited (fst (proc argv)) \<or> e = Signalled (- fst (proc argv))))"
proof -
  have n: "\<not> startswith n ''.''" "n \<noteq> []" "CHR ''/'' \<notin> set n" using assms(1) by (simp_all add: startswith_def)
  have f: "find_program src_root ps ''scratch/HomaL4Protocol-paper-reproduction'' = Inr (seen_as src_root (scratch_file st en n))"
    and t: "p_target (seen_as src_root (scratch_file st en n)) = path_join (path_join src_root ''build/scratch'') n"
    using scratch_found [OF assms(2) n assms(3-5)] assms(1) by simp_all
  show ?thesis by (rule experiment_run [OF f assms(6), where args = args and load = load and sim_idx = sim_idx and mode = mode,
        unfolded t, folded assms(7)])
qed

theorem experiment_started_witness:
  "run_program (\<lambda>t s. Inl TypeError) ''/ns'' (map (seen_as ''/ns'') (add_scratch_programs demo_settings ''build/scratch'' ([''ns3-core''], [])
       (Some [(''subdir'', Folder []), (''HomaL4Protocol-paper-reproduction.cc'', Plain)])))
     \<lparr>ro_valgrind = False, ro_gdb = False, ro_template = ''''\<rparr> [] (\<lambda>argv. (0, '''')) []
     (build_ns3_run_args demo_args ''homa'' (Fin 1) 7) (Some ''%s'') False = Inr 0"
proof -
  let ?n = "''HomaL4Protocol-paper-reproduction''"
  have h: "(?n @ ''.cc'', Plain) \<in> set [(''subdir'', Folder []), (''HomaL4Protocol-paper-reproduction.cc'', Plain)]"
    "list_all (\<lambda>(f, e). CHR ''/'' \<notin> set f \<and> f \<noteq> []) [(''subdir'', Folder []), (''HomaL4Protocol-paper-reproduction.cc'', Plain)]"
    by simp_all
  have t: "get_command_template '''' [] = ''%s''" by (simp add: get_command_template_def)
  show ?thesis
    using experiment_started [OF refl h refl _ refl refl, where others = "[]" and src_root = "''/ns''" and st = demo_settings
        and en = "([''ns3-core''], [])" and args = demo_args and load = "Fin 1" and sim_idx = 7 and mode = "''homa''"
        and percent = "\<lambda>t s. Inl TypeError" and valgrind = "[]" and proc = "\<lambda>argv. (0, '''')" and signals = "[]"] t
    by (simp split: sum.splits)
qed

subsection \<open>The profile is read back\<close>

text \<open>The line of the options as waf writes it: a dictionary, each value as its text.\<close>

definition quote_text :: "string \<Rightarrow> string" where
  "quote_text s = [CHR 0x27] @ s @ [CHR 0x27]"

definition option_item :: "string \<times> string \<Rightarrow> string" where
  "option_item kv = (case kv of (k, v) \<Rightarrow> quote_text k @ '': '' @ v)"

definition options_line :: "(string \<times> string) list \<Rightarrow> string" where
  "options_line opts = ''options = {'' @ join '', '' (map option_item opts) @ ''}'' @ [char_of (10 :: nat)]"

definition clean :: "string \<Rightarrow> bool" where
  "clean s \<longleftrightarrow> list_all (\<lambda>c. c \<noteq> CHR '','' \<and> c \<noteq> CHR '':'') s"

definition clean_option :: "string \<times> string \<Rightarrow> bool" where
  "clean_option kv \<longleftrightarrow> clean (fst kv) \<and> clean (snd kv)"

lemma split_join_comma:
  "list_all (\<lambda>x. CHR '','' \<notin> set x) (x # xs) \<Longrightarrow> CHR '','' \<notin> set z \<Longrightarrow> CHR '','' \<notin> set y \<Longrightarrow>
     split_char CHR '','' (z @ join '', '' (x # xs) @ y)
       = (if xs = [] then [z @ x @ y] else (z @ x) # map (\<lambda>x. '' '' @ x) (butlast xs) @ ['' '' @ last xs @ y])"
proof (induction xs arbitrary: x z)
  case Nil
  then show ?case by (simp add: split_char_token)
next
  case (Cons x' xs)
  have "split_char CHR '','' ((z @ x) @ CHR '','' # ('' '' @ join '', '' (x' # xs) @ y))
      = (z @ x) # split_char CHR '','' ('' '' @ join '', '' (x' # xs) @ y)"
    by (rule split_char_append) (use Cons.prems in simp)
  then show ?case using Cons.IH [of x' "'' ''"] Cons.prems by simp
qed

lemma clean_chars: "clean s \<longleftrightarrow> CHR '','' \<notin> set s \<and> CHR '':'' \<notin> set s"
  by (induction s) (auto simp: clean_def)

lemma clean_item: "clean_option kv \<Longrightarrow> CHR '','' \<notin> set (option_item kv)"
  by (cases kv) (simp add: clean_option_def clean_chars option_item_def quote_text_def)

lemma item_split:
  assumes "clean_option (k, v)" "CHR '':'' \<notin> set z" "CHR '':'' \<notin> set y"
  shows "split_char CHR '':'' (z @ option_item (k, v) @ y) = [z @ quote_text k, '' '' @ v @ y]"
proof -
  have c: "CHR '':'' \<notin> set (z @ quote_text k)" "CHR '':'' \<notin> set ('' '' @ v @ y)"
    using assms by (simp_all add: clean_option_def clean_chars quote_text_def)
  have "split_char CHR '':'' ((z @ quote_text k) @ CHR '':'' # ('' '' @ v @ y)) = (z @ quote_text k) # ['' '' @ v @ y]"
    unfolding split_char_append [OF c(1)] split_char_token [OF c(2)] ..
  then show ?thesis by (simp add: option_item_def)
qed

text \<open>An item in the middle is looked at as it is, the first one with a brace before it, the last one with one behind it.\<close>

lemma spaces: "lstrip (CHR '' '' # s) = lstrip s" "lstrip (quote_text s) = quote_text s" "lstrip (CHR ''{'' # s) = CHR ''{'' # s"
proof -
  have "py_ws CHR '' ''" "\<not> py_ws (CHR 0x27)" "\<not> py_ws CHR ''{''" by code_simp+
  then show "lstrip (CHR '' '' # s) = lstrip s" "lstrip (quote_text s) = quote_text s" "lstrip (CHR ''{'' # s) = CHR ''{'' # s"
    by (simp_all add: lstrip_def quote_text_def)
qed

lemma profile_item:
  "clean_option (k, v) \<Longrightarrow> CHR '':'' \<notin> set y \<Longrightarrow> profile_items (('' '' @ option_item (k, v) @ y) # xs)
     = (if k = ''build_profile'' then Inr (Some (replace [CHR 0x27] '''' (lstrip (v @ y)))) else profile_items xs)"
  using item_split [of k v "'' ''" y] by (simp add: spaces) (simp add: quote_text_def)

lemma profile_first: "clean_option (k, v) \<Longrightarrow> profile_items (('' {'' @ option_item (k, v)) # xs) = profile_items xs"
  using item_split [of k v "'' {''" "[]"] by (simp add: spaces quote_text_def)

lemma profile_skip:
  "list_all clean_option opts \<Longrightarrow> ''build_profile'' \<notin> fst ` set opts \<Longrightarrow>
     profile_items (map (\<lambda>x. '' '' @ x) (map option_item opts) @ xs) = profile_items xs"
proof (induction opts)
  case (Cons kv opts)
  then show ?case using profile_item [of "fst kv" "snd kv" "[]"] by (auto simp: image_iff)
qed simp

lemma unquote_text: "CHR 0x27 \<notin> set p \<Longrightarrow> CHR 0x27 \<notin> set y \<Longrightarrow> replace [CHR 0x27] [] (quote_text p @ y) = p @ y"
proof -
  have u: "CHR 0x27 \<notin> set s \<Longrightarrow> concat (map (\<lambda>c. if c = CHR 0x27 then [] else [c]) s) = s" for s by (induction s) auto
  show "CHR 0x27 \<notin> set p \<Longrightarrow> CHR 0x27 \<notin> set y \<Longrightarrow> ?thesis" unfolding replace_char using u [of p] u [of y] by (simp add: quote_text_def)
qed

lemma lstrip_quoted: "lstrip (quote_text p @ y) = quote_text p @ y"
proof -
  have "\<not> py_ws (CHR 0x27)" by code_simp
  then show ?thesis by (simp add: lstrip_def quote_text_def)
qed

lemma profile_lines_skip:
  "list_all (\<lambda>l. \<not> startswith l ''options ='') ls \<Longrightarrow> profile_lines (ls @ r) = profile_lines r"
  by (induction ls) simp_all

definition dict_end :: string where
  "dict_end = ''}'' @ [char_of (10 :: nat)]"

lemma dict_end_chars: "CHR '','' \<notin> set dict_end" "CHR '':'' \<notin> set dict_end" "CHR 0x27 \<notin> set dict_end"
  by code_simp+

lemma options_line_items:
  assumes "list_all clean_option (kv # opts)" "opts \<noteq> []"
  shows "profile_lines (options_line (kv # opts) # ls) = (case profile_items (('' {'' @ option_item kv)
      # map (\<lambda>x. '' '' @ x) (map option_item (butlast opts)) @ ['' '' @ option_item (last opts) @ dict_end]) of
    Inl e \<Rightarrow> Inl e | Inr (Some p) \<Rightarrow> Inr p | Inr None \<Rightarrow> profile_lines ls)"
proof -
  have line: "options_line (kv # opts) = ''options '' @ CHR ''='' # ('' {'' @ join '', '' (option_item kv # map option_item opts) @ dict_end)"
    by (simp add: options_line_def dict_end_def)
  have at: "split_once CHR ''='' (options_line (kv # opts)) = Some (''options '', '' {'' @ join '', '' (option_item kv # map option_item opts) @ dict_end)"
    unfolding line by (rule split_once_append) simp
  have begins: "startswith (options_line (kv # opts)) ''options =''" unfolding line by (simp add: startswith_def)
  have pieces: "split_char CHR '','' ('' {'' @ join '', '' (option_item kv # map option_item opts) @ dict_end)
      = ('' {'' @ option_item kv) # map (\<lambda>x. '' '' @ x) (map option_item (butlast opts)) @ ['' '' @ option_item (last opts) @ dict_end]"
    using split_join_comma [of "option_item kv" "map option_item opts" "'' {''" dict_end] assms clean_item dict_end_chars
    by (simp add: list_all_iff map_butlast last_map comp_def)
  show ?thesis unfolding profile_lines.simps(2) at option.case prod.case pieces using begins by (simp only: if_True)
qed

text \<open>The build profile is read back from the options that waf stores, wherever they stand in the lock file, if it
  is neither their first nor their last one. The first one is never found, and the last one keeps the brace that
  closes the dictionary.\<close>

theorem profile_read_back:
  assumes "opts = before @ (''build_profile'', quote_text p) # behind" "list_all clean_option opts" "CHR 0x27 \<notin> set p"
    and "''build_profile'' \<notin> fst ` set (before @ behind)" "before @ behind \<noteq> []"
    and "list_all (\<lambda>l. \<not> startswith l ''options ='') (ls @ ls')"
  shows "get_build_profile None (Some (ls @ options_line opts # ls'))
    = Inr (if before = [] then ''not found'' else if behind = [] then p @ ''}'' @ [char_of (10 :: nat)] else p)"
proof -
  have none: "profile_lines ls' = Inr ''not found''" using profile_lines_skip [of ls' "[]"] assms(6) by simp
  have skip: "get_build_profile None (Some (ls @ options_line opts # ls')) = profile_lines (options_line opts # ls')"
    using profile_lines_skip [of ls] assms(6) by (simp add: get_build_profile_def)
  have bp: "clean_option (''build_profile'', quote_text p)" using assms(1,2) by simp
  have found: "profile_items (('' '' @ option_item (''build_profile'', quote_text p) @ y) # xs) = Inr (Some (p @ y))"
    if "CHR '':'' \<notin> set y" "CHR 0x27 \<notin> set y" for y xs
    using profile_item [OF bp that(1)] unquote_text [OF assms(3) that(2)] lstrip_quoted [of p y] by simp
  show ?thesis
  proof (cases before)
    case Nil
    then have b: "behind \<noteq> []" "list_all clean_option behind" "''build_profile'' \<notin> fst ` set behind" using assms by auto
    have l: "list_all clean_option (butlast behind)" "''build_profile'' \<notin> fst ` set (butlast behind)"
      "clean_option (last behind)" "fst (last behind) \<noteq> ''build_profile''"
      using b by (auto simp: list_all_iff dest: in_set_butlastD) (metis image_eqI last_in_set)
    have "profile_items ['' '' @ option_item (last behind) @ dict_end] = Inr None"
      using profile_item [of "fst (last behind)" "snd (last behind)" dict_end "[]"] l(3,4) dict_end_chars(2) by simp
    then have "profile_lines (options_line opts # ls') = profile_lines ls'"
      using options_line_items [of "(''build_profile'', quote_text p)" behind ls'] b bp assms(1) Nil profile_skip [OF l(1,2)] profile_first [OF bp]
      by simp
    then show ?thesis using skip none Nil by simp
  next
    case (Cons kv mid)
    have m: "clean_option kv" "list_all clean_option mid" "''build_profile'' \<notin> fst ` set mid" using assms Cons by auto
    have first: "profile_items (('' {'' @ option_item kv) # xs) = profile_items xs" for xs
      using profile_first [of "fst kv" "snd kv"] m(1) by simp
    have opts: "opts = kv # (mid @ (''build_profile'', quote_text p) # behind)" using assms(1) Cons by simp
    note line = options_line_items [OF assms(2) [unfolded opts], of ls', folded opts, simplified]
    show ?thesis
    proof (cases "behind = []")
      case True
      then show ?thesis using skip Cons line found [OF dict_end_chars(2,3)] profile_skip [OF m(2,3)] first
        by (simp add: butlast_append dict_end_def)
    next
      case False
      have "profile_items (map (\<lambda>x. '' '' @ x) (map option_item (mid @ (''build_profile'', quote_text p) # butlast behind)) @ xs) = Inr (Some p)" for xs
        using profile_skip [OF m(2,3)] found [of "[]"] by simp
      then show ?thesis using skip Cons line False first by (simp add: butlast_append)
    qed
  qed
qed

theorem profile_read_back_witness:
  "get_build_profile None (Some [''launch_dir = x'', options_line [(''jobs'', ''4''), (''build_profile'', quote_text ''debug''), (''keep'', ''0'')]]) = Inr ''debug''
   \<and> get_build_profile None (Some [options_line [(''build_profile'', quote_text ''debug''), (''keep'', ''0'')]]) = Inr ''not found''"
proof -
  let ?o = "[(''jobs'', ''4''), (''build_profile'', quote_text ''debug''), (''keep'', ''0'')]"
  let ?o2 = "[(''build_profile'', quote_text ''debug''), (''keep'', ''0'')]"
  have h: "list_all clean_option ?o" "list_all clean_option ?o2" "CHR 0x27 \<notin> set ''debug''"
    "list_all (\<lambda>l. \<not> startswith l ''options ='') ([''launch_dir = x''] @ [])" by code_simp+
  show ?thesis
    using profile_read_back [of ?o "[(''jobs'', ''4'')]" "''debug''" "[(''keep'', ''0'')]" "[''launch_dir = x'']" "[]"]
      profile_read_back [of ?o2 "[]" "''debug''" "[(''keep'', ''0'')]" "[]" "[]"] h by simp
qed

end
