(* ===== verification/Scaffold.thy ===== *)
theory Scaffold
  imports ModuleFiles
begin

text \<open>
  utils/create-module.py: the skeleton of a new module. A directory tree is a value; every operation on it
  gives the tree that it leaves, also when it raises. The operating system may refuse to create a file or a
  directory: \<open>denied\<close> says which. Paths are lists of names below the directory the script is started in.
\<close>

subsection \<open>Directory trees\<close>

datatype tree = TextFile string | Dir "(string, tree) dict"

type_synonym path = "string list"

type_synonym 'a fs_op = "tree \<Rightarrow> 'a result \<times> tree"

definition bindS :: "'a fs_op \<Rightarrow> ('a \<Rightarrow> 'b fs_op) \<Rightarrow> 'b fs_op" where
  "bindS m f s = (case m s of (Inl e, s') \<Rightarrow> (Inl e, s') | (Inr x, s') \<Rightarrow> f x s')"

fun locate :: "path \<Rightarrow> tree \<Rightarrow> tree result" where
  "locate [] t = Inr t"
| "locate (n # ns) (TextFile s) = Inl NotADirectoryError"
| "locate (n # ns) (Dir es) = (case dget es n of None \<Rightarrow> Inl FileNotFoundError | Some t \<Rightarrow> locate ns t)"

definition present :: "path \<Rightarrow> tree \<Rightarrow> bool" where
  "present p s \<longleftrightarrow> (case locate p s of Inr t \<Rightarrow> True | Inl e \<Rightarrow> False)"

fun set_at :: "path \<Rightarrow> tree \<Rightarrow> tree \<Rightarrow> tree" where
  "set_at [] u t = u"
| "set_at (n # ns) u (TextFile s) = TextFile s"
| "set_at (n # ns) u (Dir es) = Dir (dset n (set_at ns u (case dget es n of None \<Rightarrow> Dir [] | Some t \<Rightarrow> t)) es)"

text \<open>\<open>shutil.rmtree\<close>\<close>

fun remove_at :: "path \<Rightarrow> tree \<Rightarrow> tree" where
  "remove_at [] t = t"
| "remove_at (n # ns) (TextFile s) = TextFile s"
| "remove_at (n # ns) (Dir es) = (if ns = [] then Dir (dpop n es)
     else (case dget es n of None \<Rightarrow> Dir es | Some t \<Rightarrow> Dir (dset n (remove_at ns t) es)))"

text \<open>\<open>os.mkdir\<close>, and \<open>Path.mkdir(parents=True)\<close>\<close>

definition make_dir :: "(path \<Rightarrow> bool) \<Rightarrow> path \<Rightarrow> unit fs_op" where
  "make_dir denied p s = (if p = [] then (Inl FileExistsError, s)
     else (case locate (butlast p) s of
         Inl e \<Rightarrow> (Inl e, s)
       | Inr (TextFile t) \<Rightarrow> (Inl NotADirectoryError, s)
       | Inr (Dir es) \<Rightarrow> if dget es (last p) \<noteq> None then (Inl FileExistsError, s)
           else if denied p then (Inl PermissionError, s)
           else (Inr (), set_at p (Dir []) s)))"

definition is_dir :: "path \<Rightarrow> tree \<Rightarrow> bool" where
  "is_dir p s \<longleftrightarrow> (case locate p s of Inr (Dir es) \<Rightarrow> True | _ \<Rightarrow> False)"

definition unless_there :: "bool \<Rightarrow> path \<Rightarrow> unit result \<times> tree \<Rightarrow> unit result \<times> tree" where
  "unless_there exist_ok p r = (case r of
     (Inl e, s) \<Rightarrow> if e \<noteq> FileNotFoundError \<and> exist_ok \<and> is_dir p s then (Inr (), s) else (Inl e, s)
   | (Inr u, s) \<Rightarrow> (Inr u, s))"

function make_dirs :: "(path \<Rightarrow> bool) \<Rightarrow> bool \<Rightarrow> path \<Rightarrow> unit fs_op" where
  "make_dirs denied exist_ok p s = (case make_dir denied p s of
     (Inl e, s') \<Rightarrow> if e = FileNotFoundError \<and> p \<noteq> []
       then bindS (make_dirs denied True (butlast p)) (\<lambda>_ s. unless_there exist_ok p (make_dir denied p s)) s'
       else unless_there exist_ok p (Inl e, s')
   | (Inr u, s') \<Rightarrow> (Inr u, s'))"
  by pat_completeness auto
termination
  by (relation "measure (\<lambda>(denied, exist_ok, p, s). length p)") (auto simp: less_eq_Suc_le[symmetric])

declare make_dirs.simps [simp del]

definition open_file :: "(path \<Rightarrow> bool) \<Rightarrow> path \<Rightarrow> unit fs_op" where
  "open_file denied p s = (if p = [] then (Inl IsADirectoryError, s)
     else (case locate (butlast p) s of
         Inl e \<Rightarrow> (Inl e, s)
       | Inr (TextFile t) \<Rightarrow> (Inl NotADirectoryError, s)
       | Inr (Dir es) \<Rightarrow> (case dget es (last p) of
           Some (Dir ds) \<Rightarrow> (Inl IsADirectoryError, s)
         | _ \<Rightarrow> if denied p then (Inl PermissionError, s) else (Inr (), set_at p (TextFile []) s))))"

subsection \<open>Formatting\<close>

text \<open>\<open>str.format\<close>. The fields of the templates are names and names with the conversion \<open>!r\<close>. What is wrong
  is raised when it is reached.\<close>

datatype piece = Lit char | Field string | Bad

datatype format_mode = Plainly | Opened | Closed | Naming string

fun pieces :: "format_mode \<Rightarrow> string \<Rightarrow> piece list" where
  "pieces Plainly [] = []"
| "pieces m [] = [Bad]"
| "pieces Plainly (c # s) = (if c = CHR ''{'' then pieces Opened s else if c = CHR ''}'' then pieces Closed s
     else Lit c # pieces Plainly s)"
| "pieces Opened (c # s) = (if c = CHR ''{'' then Lit c # pieces Plainly s
     else if c = CHR ''}'' then Field [] # pieces Plainly s else pieces (Naming [c]) s)"
| "pieces Closed (c # s) = (if c = CHR ''}'' then Lit c # pieces Plainly s else [Bad])"
| "pieces (Naming f) (c # s) = (if c = CHR ''}'' then Field f # pieces Plainly s else pieces (Naming (f @ [c])) s)"

definition field_value :: "(string, string) dict \<Rightarrow> string \<Rightarrow> string option" where
  "field_value args f = (if endswith f ''!r'' then map_option py_repr_str (dget args (take (length f - 2) f)) else dget args f)"

fun fill :: "(string, string) dict \<Rightarrow> piece list \<Rightarrow> string result" where
  "fill args [] = Inr []"
| "fill args (Lit c # ps) = bindR (fill args ps) (\<lambda>s. Inr (c # s))"
| "fill args (Field f # ps) = (case field_value args f of None \<Rightarrow> Inl KeyError
     | Some v \<Rightarrow> bindR (fill args ps) (\<lambda>s. Inr (v @ s)))"
| "fill args (Bad # ps) = Inl ValueError"

definition py_format :: "string \<Rightarrow> (string, string) dict \<Rightarrow> string result" where
  "py_format template args = fill args (pieces Plainly template)"

definition create_file :: "(path \<Rightarrow> bool) \<Rightarrow> path \<Rightarrow> string \<Rightarrow> (string, string) dict \<Rightarrow> bool fs_op" where
  "create_file denied p template args = bindS (open_file denied p) (\<lambda>_ s. case py_format template args of
     Inl e \<Rightarrow> (Inl e, s) | Inr text \<Rightarrow> (Inr True, set_at p (TextFile text) s))"

subsection \<open>The templates\<close>

definition text_of :: "string list \<Rightarrow> string" where
  "text_of ls = concat (map (\<lambda>l. l @ [char_of (10 :: nat)]) ls)"

definition WSCRIPT_TEMPLATE :: string where
  \<open>WSCRIPT_TEMPLATE = text_of [
    ''# -*- Mode: python; py-indent-offset: 4; indent-tabs-mode: nil; coding: utf-8; -*-'', '''',
    ''# def options(opt):'', ''#     pass'', '''', ''# def configure(conf):'',
    ''#     conf.check_nonfatal(header_name=\'stdint.h\', define_name=\'HAVE_STDINT_H\')'', '''',
    ''def build(bld):'', ''    module = bld.create_ns3_module({MODULE!r}, [\'core\'])'', ''    module.source = ['',
    ''        \'model/{MODULE}.cc\','', ''        \'helper/{MODULE}-helper.cc\','', ''        ]'', '''',
    ''    module_test = bld.create_ns3_module_test_library(\'{MODULE}\')'', ''    module_test.source = ['',
    ''        \'test/{MODULE}-test-suite.cc\','', ''        ]'',
    ''    # Tests encapsulating example programs should be listed here'', ''    if (bld.env[\'ENABLE_EXAMPLES\']):'',
    ''        module_test.source.extend(['', ''        #    \'test/{MODULE}-examples-test-suite.cc\','',
    ''             ])'', '''', ''    headers = bld(features=\'ns3header\')'', ''    headers.module = {MODULE!r}'',
    ''    headers.source = ['', ''        \'model/{MODULE}.h\','', ''        \'helper/{MODULE}-helper.h\','',
    ''        ]'', '''', ''    if bld.env.ENABLE_EXAMPLES:'', ''        bld.recurse(\'examples\')'', '''',
    ''    # bld.ns3_python_bindings()'', '''']\<close>

definition MODEL_CC_TEMPLATE :: string where
  \<open>MODEL_CC_TEMPLATE = text_of [
    ''/* -*- Mode:C++; c-file-style:"gnu"; indent-tabs-mode:nil; -*- */'', '''', ''#include "{MODULE}.h"'', '''',
    ''namespace ns3 {{'', '''', ''/* ... */'', '''', '''', ''}}'', '''']\<close>

definition MODEL_H_TEMPLATE :: string where
  \<open>MODEL_H_TEMPLATE = text_of [
    ''/* -*- Mode:C++; c-file-style:"gnu"; indent-tabs-mode:nil; -*- */'', ''#ifndef {INCLUDE_GUARD}'',
    ''#define {INCLUDE_GUARD}'', '''', ''namespace ns3 {{'', '''', ''/* ... */'', '''', ''}}'', '''',
    ''#endif /* {INCLUDE_GUARD} */'', '''']\<close>

definition HELPER_CC_TEMPLATE :: string where
  \<open>HELPER_CC_TEMPLATE = text_of [
    ''/* -*- Mode:C++; c-file-style:"gnu"; indent-tabs-mode:nil; -*- */'', '''', ''#include "{MODULE}-helper.h"'',
    '''', ''namespace ns3 {{'', '''', ''/* ... */'', '''', '''', ''}}'', '''']\<close>

definition HELPER_H_TEMPLATE :: string where
  \<open>HELPER_H_TEMPLATE = text_of [
    ''/* -*- Mode:C++; c-file-style:"gnu"; indent-tabs-mode:nil; -*- */'', ''#ifndef {INCLUDE_GUARD}'',
    ''#define {INCLUDE_GUARD}'', '''', ''#include "ns3/{MODULE}.h"'', '''', ''namespace ns3 {{'', '''',
    ''/* ... */'', '''', ''}}'', '''', ''#endif /* {INCLUDE_GUARD} */'', '''']\<close>

definition EXAMPLES_WSCRIPT_TEMPLATE :: string where
  \<open>EXAMPLES_WSCRIPT_TEMPLATE = text_of [
    ''# -*- Mode: python; py-indent-offset: 4; indent-tabs-mode: nil; coding: utf-8; -*-'', '''',
    ''def build(bld):'', ''    obj = bld.create_ns3_program(\'{MODULE}-example\', [{MODULE!r}])'',
    ''    obj.source = \'{MODULE}-example.cc'' @ [CHR 0x27], '''']\<close>

definition EXAMPLE_CC_TEMPLATE :: string where
  \<open>EXAMPLE_CC_TEMPLATE = text_of [
    ''/* -*- Mode:C++; c-file-style:"gnu"; indent-tabs-mode:nil; -*- */'', '''', ''#include "ns3/core-module.h"'',
    ''#include "ns3/{MODULE}-helper.h"'', '''', ''using namespace ns3;'', '''', '''', ''int '',
    ''main (int argc, char *argv[])'', ''{{'', ''  bool verbose = true;'', '''', ''  CommandLine cmd (__FILE__);'',
    ''  cmd.AddValue ("verbose", "Tell application to log if true", verbose);'', '''', ''  cmd.Parse (argc,argv);'',
    '''', ''  /* ... */'', '''', ''  Simulator::Run ();'', ''  Simulator::Destroy ();'', ''  return 0;'', ''}}'',
    '''', '''']\<close>

definition TEST_CC_TEMPLATE :: string where
  \<open>TEST_CC_TEMPLATE = text_of [
    ''/* -*- Mode:C++; c-file-style:"gnu"; indent-tabs-mode:nil; -*- */'', '''',
    ''// Include a header file from your module to test.'', ''#include "ns3/{MODULE}.h"'', '''',
    ''// An essential include is test.h'', ''#include "ns3/test.h"'', '''',
    ''// Do not put your test classes in namespace ns3.  You may find it useful'',
    ''// to use the using directive to access the ns3 namespace directly'', ''using namespace ns3;'', '''',
    ''// This is an example TestCase.'', ''class {CAPITALIZED}TestCase1 : public TestCase'', ''{{'', ''public:'',
    ''  {CAPITALIZED}TestCase1 ();'', ''  virtual ~{CAPITALIZED}TestCase1 ();'', '''', ''private:'',
    ''  virtual void DoRun (void);'', ''}};'', '''',
    ''// Add some help text to this case to describe what it is intended to test'',
    ''{CAPITALIZED}TestCase1::{CAPITALIZED}TestCase1 ()'',
    ''  : TestCase ("{CAPITALIZED} test case (does nothing)")'', ''{{'', ''}}'', '''',
    ''// This destructor does nothing but we include it as a reminder that'',
    ''// the test case should clean up after itself'', ''{CAPITALIZED}TestCase1::~{CAPITALIZED}TestCase1 ()'',
    ''{{'', ''}}'', '''', ''//'', ''// This method is the pure virtual method from class TestCase that every'',
    ''// TestCase must implement'', ''//'', ''void'', ''{CAPITALIZED}TestCase1::DoRun (void)'', ''{{'',
    ''  // A wide variety of test macros are available in src/core/test.h'',
    ''  NS_TEST_ASSERT_MSG_EQ (true, true, "true doesn\'t equal true for some reason");'',
    ''  // Use this one for floating point comparisons'',
    ''  NS_TEST_ASSERT_MSG_EQ_TOL (0.01, 0.01, 0.001, "Numbers are not equal within tolerance");'', ''}}'', '''',
    ''// The TestSuite class names the TestSuite, identifies what type of TestSuite,'',
    ''// and enables the TestCases to be run.  Typically, only the constructor for'',
    ''// this class must be defined'', ''//'', ''class {CAPITALIZED}TestSuite : public TestSuite'', ''{{'',
    ''public:'', ''  {CAPITALIZED}TestSuite ();'', ''}};'', '''',
    ''{CAPITALIZED}TestSuite::{CAPITALIZED}TestSuite ()'', ''  : TestSuite ("{MODULE}", UNIT)'', ''{{'',
    ''  // TestDuration for TestCase can be QUICK, EXTENSIVE or TAKES_FOREVER'',
    ''  AddTestCase (new {CAPITALIZED}TestCase1, TestCase::QUICK);'', ''}}'', '''',
    ''// Do not forget to allocate an instance of this TestSuite'',
    ''static {CAPITALIZED}TestSuite s{COMPOUND}TestSuite;'', '''']\<close>

definition DOC_RST_TEMPLATE :: string where
  \<open>DOC_RST_TEMPLATE = text_of [
    ''Example Module Documentation'', ''----------------------------'', '''', ''.. include:: replace.txt'',
    ''.. highlight:: cpp'', '''', ''.. heading hierarchy:'', ''   ------------- Chapter'',
    ''   ************* Section (#.#)'', ''   ============= Subsection (#.#.#)'',
    ''   ############# Paragraph (no number)'', '''',
    ''This is a suggested outline for adding new module documentation to |ns3|.'',
    ''See ``src/click/doc/click.rst`` for an example.'', '''',
    ''The introductory paragraph is for describing what this code is trying to'', ''model.'', '''',
    ''For consistency (italicized formatting), please use |ns3| to refer to'',
    ''ns-3 in the documentation (and likewise, |ns2| for ns-2).  These macros'',
    ''are defined in the file ``replace.txt``.'', '''', ''Model Description'', ''*****************'', '''',
    ''The source code for the new module lives in the directory ``{MODULE_DIR}``.'', '''',
    ''Add here a basic description of what is being modeled.'', '''', ''Design'', ''======'', '''',
    ''Briefly describe the software design of the model and how it fits into '',
    ''the existing ns-3 architecture. '', '''', ''Scope and Limitations'', ''====================='', '''',
    ''What can the model do?  What can it not do?  Please use this section to'',
    ''describe the scope and limitations of the model.'', '''', ''References'', ''=========='', '''',
    ''Add academic citations here, such as if you published a paper on this'',
    ''model, or if readers should read a particular specification or other work.'', '''', ''Usage'', ''*****'', '''',
    ''This section is principally concerned with the usage of your model, using'',
    ''the public API.  Focus first on most common usage patterns, then go'', ''into more advanced topics.'', '''',
    ''Building New Module'', ''==================='', '''',
    ''Include this subsection only if there are special build instructions or'', ''platform limitations.'', '''',
    ''Helpers'', ''======='', '''', ''What helper API will users typically use?  Describe it here.'', '''',
    ''Attributes'', ''=========='', '''',
    ''What classes hold attributes, and what are the key ones worth mentioning?'', '''', ''Output'', ''======'',
    '''', ''What kind of data does the model generate?  What are the key trace'',
    ''sources?   What kind of logging output can be enabled?'', '''', ''Advanced Usage'', ''=============='', '''',
    ''Go into further details (such as using the API outside of the helpers)'',
    ''in additional sections, as needed.'', '''', ''Examples'', ''========'', '''',
    ''What examples using this new code are available?  Describe them here.'', '''', ''Troubleshooting'',
    ''==============='', '''', ''Add any tips for avoiding pitfalls, etc.'', '''', ''Validation'', ''**********'',
    '''', ''Describe how the model has been tested/validated.  What tests run in the'',
    ''test suite?  How much API and code is covered by the tests?  Again, '',
    ''references to outside published work may help here.'']\<close>

subsection \<open>The parts of a module\<close>

text \<open>\<open>Path.with_suffix\<close>: another suffix, or a first one.\<close>

definition with_suffix :: "string \<Rightarrow> string \<Rightarrow> string" where
  "with_suffix n suffix = (let stem = butlast (rev (dropWhile (\<lambda>c. c \<noteq> CHR ''.'') (rev n)))
     in if CHR ''.'' \<in> set n \<and> stem \<noteq> [] \<and> last n \<noteq> CHR ''.'' then stem @ suffix else n @ suffix)"

text \<open>The case of ASCII letters.\<close>

definition py_lower :: "string \<Rightarrow> string" where
  "py_lower s = map (\<lambda>c. if CHR ''A'' \<le> c \<and> c \<le> CHR ''Z'' then char_of ((of_char c :: nat) + 32) else c) s"

definition capitalize :: "string \<Rightarrow> string" where
  "capitalize w = py_upper (take 1 w) @ py_lower (drop 1 w)"

definition guard_name :: "string \<Rightarrow> string" where
  "guard_name modname = py_upper (replace ''-'' ''_'' modname)"

definition make_wscript :: "(path \<Rightarrow> bool) \<Rightarrow> path \<Rightarrow> string \<Rightarrow> bool fs_op" where
  "make_wscript denied moduledir modname =
     create_file denied (moduledir @ [''wscript'']) WSCRIPT_TEMPLATE [(''MODULE'', modname)]"

definition make_model :: "(path \<Rightarrow> bool) \<Rightarrow> path \<Rightarrow> string \<Rightarrow> bool fs_op" where
  "make_model denied moduledir modname = (let modelpath = moduledir @ [''model''] in
     bindS (make_dirs denied False modelpath) (\<lambda>_.
     bindS (create_file denied (modelpath @ [with_suffix modname ''.cc'']) MODEL_CC_TEMPLATE [(''MODULE'', modname)]) (\<lambda>_.
     create_file denied (modelpath @ [with_suffix modname ''.h'']) MODEL_H_TEMPLATE
       [(''MODULE'', modname), (''INCLUDE_GUARD'', guard_name modname @ ''_H'')])))"

definition make_test :: "(path \<Rightarrow> bool) \<Rightarrow> path \<Rightarrow> string \<Rightarrow> bool fs_op" where
  "make_test denied moduledir modname = (let testpath = moduledir @ [''test'']; name_parts = split_char CHR ''-'' modname in
     bindS (make_dirs denied False testpath) (\<lambda>_.
     create_file denied (testpath @ [with_suffix (modname @ ''-test-suite'') ''.cc'']) TEST_CC_TEMPLATE
       [(''MODULE'', modname), (''CAPITALIZED'', concat (map capitalize name_parts)),
        (''COMPOUND'', hd name_parts @ concat (map capitalize (tl name_parts)))]))"

definition make_helper :: "(path \<Rightarrow> bool) \<Rightarrow> path \<Rightarrow> string \<Rightarrow> bool fs_op" where
  "make_helper denied moduledir modname = (let helperpath = moduledir @ [''helper''] in
     bindS (make_dirs denied False helperpath) (\<lambda>_.
     bindS (create_file denied (helperpath @ [with_suffix (modname @ ''-helper'') ''.cc'']) HELPER_CC_TEMPLATE [(''MODULE'', modname)]) (\<lambda>_.
     create_file denied (helperpath @ [with_suffix (modname @ ''-helper'') ''.h'']) HELPER_H_TEMPLATE
       [(''MODULE'', modname), (''INCLUDE_GUARD'', guard_name modname @ ''_HELPER_H'')])))"

definition make_examples :: "(path \<Rightarrow> bool) \<Rightarrow> path \<Rightarrow> string \<Rightarrow> bool fs_op" where
  "make_examples denied moduledir modname = (let examplespath = moduledir @ [''examples''] in
     bindS (make_dirs denied False examplespath) (\<lambda>_.
     bindS (create_file denied (examplespath @ [''wscript'']) EXAMPLES_WSCRIPT_TEMPLATE [(''MODULE'', modname)]) (\<lambda>_.
     create_file denied (examplespath @ [with_suffix (modname @ ''-example'') ''.cc'']) EXAMPLE_CC_TEMPLATE [(''MODULE'', modname)])))"

definition make_doc :: "(path \<Rightarrow> bool) \<Rightarrow> path \<Rightarrow> string \<Rightarrow> bool fs_op" where
  "make_doc denied moduledir modname = (let docpath = moduledir @ [''doc''] in
     bindS (make_dirs denied False docpath) (\<lambda>_.
     create_file denied (docpath @ [modname @ ''.rst'']) DOC_RST_TEMPLATE
       [(''MODULE'', modname), (''MODULE_DIR'', join ''/'' moduledir)]))"

fun all_of :: "bool fs_op list \<Rightarrow> bool fs_op" where
  "all_of [] = (\<lambda>s. (Inr True, s))"
| "all_of (m # ms) = bindS m (\<lambda>b. if b then all_of ms else (\<lambda>s. (Inr False, s)))"

datatype notice = Says string | Fails string py_error

definition module_parts :: "(path \<Rightarrow> bool) \<Rightarrow> path \<Rightarrow> string \<Rightarrow> bool fs_op" where
  "module_parts denied modulepath modname = all_of (map (\<lambda>f. f denied modulepath modname)
     [make_wscript, make_model, make_test, make_helper, make_examples, make_doc])"

text \<open>\<open>base\<close>: the directory the script is started in, for the messages.\<close>

definition make_module :: "(path \<Rightarrow> bool) \<Rightarrow> string \<Rightarrow> path \<Rightarrow> string \<Rightarrow> tree \<Rightarrow> (bool \<times> notice list) \<times> tree" where
  "make_module denied base modpath modname s = (let modulepath = modpath @ [modname] in
     if present modulepath s then ((False, [Says (''Module '' @ py_repr_str modname @ '' already exists'')]), s)
     else (let creating = Says (''Creating module '' @ join ''/'' (base # modulepath)) in
       case bindS (make_dirs denied False modulepath) (\<lambda>_. module_parts denied modulepath modname) s of
         (Inr True, s') \<Rightarrow> ((True, [creating]), s')
       | (r, s') \<Rightarrow> ((False, [creating, Fails modname (case r of Inl e \<Rightarrow> e | Inr b \<Rightarrow> ValueError)]),
           if present modulepath s' then remove_at modulepath s' else s')))"

subsection \<open>The arguments\<close>

text \<open>\<open>Path(s).parts\<close>\<close>

definition path_root :: "string \<Rightarrow> string list" where
  "path_root s = (if startswith s ''/'' then [if startswith s ''//'' \<and> \<not> startswith s ''///'' then ''//'' else ''/''] else [])"

definition path_parts :: "string \<Rightarrow> string list" where
  "path_parts s = path_root s @ filter (\<lambda>c. c \<noteq> [] \<and> c \<noteq> ''.'') (split_char CHR ''/'' s)"

definition name_char :: "char \<Rightarrow> bool" where
  "name_char c = (c = CHR ''-'' \<or> re_word c)"

text \<open>The pattern \<open>^(\w|-)+$\<close>, whose end may be before a last line feed.\<close>

definition allowed_name :: "string \<Rightarrow> bool" where
  "allowed_name n = (let m = (if n \<noteq> [] \<and> last n = char_of (10 :: nat) then butlast n else n) in m \<noteq> [] \<and> list_all name_char m)"

definition project_parts :: "string \<Rightarrow> string list option result" where
  "project_parts project = (if project = [] then Inr None
     else bindR (if path_root project = [] then Inr (path_parts project)
         else if path_root project = [''/''] then Inr (tl (path_parts project)) else Inl ValueError)
       (\<lambda>ps. if list_all allowed_name ps then Inr (Some ps) else Inl (SystemExit 2)))"

definition strip_sep :: "string \<Rightarrow> string" where
  "strip_sep s = rev (dropWhile (\<lambda>c. c = CHR ''/'') (rev (dropWhile (\<lambda>c. c = CHR ''/'') s)))"

text \<open>A name is skipped with a message or without, or adds a module.\<close>

definition module_step :: "string list option \<Rightarrow> string \<Rightarrow> (notice list \<times> (path \<times> string) list) result" where
  "module_step project arg = (let name = strip_sep arg; ps = path_parts name in
     if name = [] then Inr ([], [])
     else if length ps > 2 then Inr ([Says (''Skipping '' @ name @ '': module name can not be a path'')], [])
     else if ps = [] then Inl IndexError
     else if hd ps = ''src'' \<and> project \<noteq> None then Inl (SystemExit 2)
     else (let modpath = (case project of Some q \<Rightarrow> ''contrib'' # q | None \<Rightarrow> if hd ps = ''src'' then [''src''] else [''contrib'']);
             ps = (if hd ps = ''src'' \<or> hd ps = ''contrib'' then tl ps else ps) in
       if ps = [] then Inl IndexError
       else if \<not> allowed_name (hd ps)
       then Inr ([Says (''Skipping '' @ hd ps @ '': module name may only contain the characters [a-zA-Z0-9_-]'')], [])
       else Inr ([], [(modpath, hd ps)])))"

fun name_loop :: "string list option \<Rightarrow> string list \<Rightarrow> (path \<times> string) list \<Rightarrow> notice list \<Rightarrow> (path \<times> string) list result \<times> notice list" where
  "name_loop project [] ms notices = (Inr ms, notices)"
| "name_loop project (arg # args) ms notices = (case module_step project arg of Inl e \<Rightarrow> (Inl e, notices)
     | Inr (ns, new) \<Rightarrow> name_loop project args (ms @ new) (notices @ ns))"

text \<open>Creation ends with the first module that is not created.\<close>

fun make_modules :: "(path \<Rightarrow> bool) \<Rightarrow> string \<Rightarrow> (path \<times> string) list \<Rightarrow> tree \<Rightarrow> (bool \<times> notice list) \<times> tree" where
  "make_modules denied base [] s = ((True, []), s)"
| "make_modules denied base ((modpath, modname) # ms) s = (case make_module denied base modpath modname s of
     ((ok, notices), s') \<Rightarrow> if ok then (case make_modules denied base ms s' of ((ok, rest), s2) \<Rightarrow> ((ok, notices @ rest), s2))
       else ((False, notices), s'))"

definition scaffold_main :: "(path \<Rightarrow> bool) \<Rightarrow> string \<Rightarrow> string \<Rightarrow> string list \<Rightarrow> tree \<Rightarrow> int result \<times> notice list \<times> tree" where
  "scaffold_main denied base project modnames s =
     (if \<not> is_dir [''src''] s \<or> \<not> is_dir [''contrib''] s then (Inl (SystemExit 2), [], s)
      else (case project_parts project of Inl e \<Rightarrow> (Inl e, [], s)
        | Inr pp \<Rightarrow> (case name_loop pp modnames [] [] of
            (Inl e, skipped) \<Rightarrow> (Inl e, skipped, s)
          | (Inr ms, skipped) \<Rightarrow> (case make_modules denied base ms s of ((ok, notices), s') \<Rightarrow>
              (Inr 0, skipped @ notices @ (if ok then map Says [[], ''Successfully created new modules'',
                 ''Run './waf configure' to include them in the build''] else []), s')))))"

text \<open>The status of the process.\<close>

definition scaffold_status :: "int result \<Rightarrow> int" where
  "scaffold_status r = (case r of Inr n \<Rightarrow> n | Inl (SystemExit n) \<Rightarrow> n | Inl e \<Rightarrow> 1)"

subsection \<open>The templates are well formed\<close>

text \<open>A line that a scan takes from text to text, with the names of its fields among \<open>keys\<close>.\<close>

fun scan :: "string list \<Rightarrow> format_mode \<Rightarrow> string \<Rightarrow> format_mode option" where
  "scan keys m [] = Some m"
| "scan keys Plainly (c # s) = (if c = CHR ''{'' then scan keys Opened s else if c = CHR ''}'' then scan keys Closed s
     else scan keys Plainly s)"
| "scan keys Opened (c # s) = (if c = CHR ''{'' then scan keys Plainly s
     else if c = CHR ''}'' then None else scan keys (Naming [c]) s)"
| "scan keys Closed (c # s) = (if c = CHR ''}'' then scan keys Plainly s else None)"
| "scan keys (Naming f) (c # s) = (if c = CHR ''}'' then (if f \<in> set keys then scan keys Plainly s else None)
     else scan keys (Naming (f @ [c])) s)"

lemma scan_append: "scan keys m s = Some m' \<Longrightarrow> scan keys m (s @ t) = scan keys m' t"
  by (induction keys m s rule: scan.induct) (auto split: if_splits)

lemma newline_scan: "scan keys Plainly [char_of (10 :: nat)] = Some Plainly"
  by code_simp

lemma scan_lines: "list_all (\<lambda>l. scan keys Plainly l = Some Plainly) ls \<Longrightarrow> scan keys Plainly (text_of ls) = Some Plainly"
proof (induction ls)
  case (Cons l ls)
  then show ?case using scan_append [of keys Plainly l Plainly "[char_of (10 :: nat)] @ text_of ls"]
      scan_append [OF newline_scan, of keys "text_of ls"] by (simp add: text_of_def)
qed (simp add: text_of_def)

lemma WSCRIPT_scan: "scan [''MODULE'', ''MODULE!r''] Plainly WSCRIPT_TEMPLATE = Some Plainly"
  unfolding WSCRIPT_TEMPLATE_def by (rule scan_lines) code_simp

lemma MODEL_CC_scan: "scan [''MODULE''] Plainly MODEL_CC_TEMPLATE = Some Plainly"
  unfolding MODEL_CC_TEMPLATE_def by (rule scan_lines) code_simp

lemma MODEL_H_scan: "scan [''INCLUDE_GUARD''] Plainly MODEL_H_TEMPLATE = Some Plainly"
  unfolding MODEL_H_TEMPLATE_def by (rule scan_lines) code_simp

lemma HELPER_CC_scan: "scan [''MODULE''] Plainly HELPER_CC_TEMPLATE = Some Plainly"
  unfolding HELPER_CC_TEMPLATE_def by (rule scan_lines) code_simp

lemma HELPER_H_scan: "scan [''INCLUDE_GUARD'', ''MODULE''] Plainly HELPER_H_TEMPLATE = Some Plainly"
  unfolding HELPER_H_TEMPLATE_def by (rule scan_lines) code_simp

lemma EXAMPLES_WSCRIPT_scan: "scan [''MODULE'', ''MODULE!r''] Plainly EXAMPLES_WSCRIPT_TEMPLATE = Some Plainly"
  unfolding EXAMPLES_WSCRIPT_TEMPLATE_def by (rule scan_lines) code_simp

lemma EXAMPLE_CC_scan: "scan [''MODULE''] Plainly EXAMPLE_CC_TEMPLATE = Some Plainly"
  unfolding EXAMPLE_CC_TEMPLATE_def by (rule scan_lines) code_simp

lemma TEST_CC_scan: "scan [''MODULE'', ''CAPITALIZED'', ''COMPOUND''] Plainly TEST_CC_TEMPLATE = Some Plainly"
  unfolding TEST_CC_TEMPLATE_def by (rule scan_lines) code_simp

lemma DOC_RST_scan: "scan [''MODULE_DIR''] Plainly DOC_RST_TEMPLATE = Some Plainly"
  unfolding DOC_RST_TEMPLATE_def by (rule scan_lines) code_simp

lemma scan_fill:
  "scan keys m s = Some Plainly \<Longrightarrow> list_all (\<lambda>f. field_value args f \<noteq> None) keys \<Longrightarrow> \<exists>t. fill args (pieces m s) = Inr t"
proof (induction keys m s rule: scan.induct)
  case (2 keys c s)
  then show ?case by (auto split: if_splits)
next
  case (3 keys c s)
  then show ?case by (auto split: if_splits)
next
  case (4 keys c s)
  then show ?case by (auto split: if_splits)
next
  case (5 keys f c s)
  then show ?case by (auto simp: list_all_iff split: if_splits)
qed auto

lemma scan_format: "scan keys Plainly s = Some Plainly \<Longrightarrow> list_all (\<lambda>f. field_value args f \<noteq> None) keys \<Longrightarrow> \<exists>t. py_format s args = Inr t"
  unfolding py_format_def by (rule scan_fill)

subsection \<open>Trees and files\<close>

lemma locate_append: "locate (p @ q) s = bindR (locate p s) (locate q)"
  by (induction p s rule: locate.induct) (auto split: option.splits)

lemma locate_set_at:
  "p \<noteq> [] \<Longrightarrow> locate (butlast p) s = Inr (Dir es) \<Longrightarrow> locate (p @ q) (set_at p u s) = locate q u"
proof (induction p u s rule: set_at.induct)
  case (3 n ns u ds)
  then show ?case by (cases "ns = []") (auto simp: dict_simps split: option.splits)
qed (auto split: if_splits)

text \<open>What is not below the place of a change keeps its files.\<close>

definition same_files :: "path \<Rightarrow> tree \<Rightarrow> tree \<Rightarrow> bool" where
  "same_files p s s' \<longleftrightarrow> (\<forall>q t. take (length p) q \<noteq> p \<longrightarrow> (locate q s' = Inr (TextFile t)) = (locate q s = Inr (TextFile t)))"

lemma same_files_refl [simp]: "same_files p s s"
  by (simp add: same_files_def)

lemma same_files_trans: "same_files p s t \<Longrightarrow> same_files p t u \<Longrightarrow> same_files p s u"
  by (simp add: same_files_def)

lemma same_files_longer: "same_files (p @ r) s s' \<Longrightarrow> same_files p s s'"
  unfolding same_files_def by (metis append_eq_conv_conj append_take_drop_id length_append take_add take_take min.absorb1 le_add1)

lemma set_at_same_files:
  "p \<noteq> [] \<Longrightarrow> locate (butlast p) s = Inr (Dir es) \<Longrightarrow> same_files p s (set_at p u s)"
  unfolding same_files_def
proof (intro allI impI, goal_cases)
  case (1 q t)
  then show ?case
  proof (induction p u s arbitrary: q rule: set_at.induct)
    case (3 n ns u ds)
    show ?case
    proof (cases q)
      case (Cons m ms)
      show ?thesis
      proof (cases "m = n \<and> ns \<noteq> []")
        case True
        then obtain s' where s': "dget ds n = Some s'" using 3 by (auto split: option.splits)
        then show ?thesis using 3 True Cons by (auto simp: dict_simps)
      qed (use 3 Cons in \<open>auto simp: dict_simps\<close>)
    qed simp
  qed auto
qed

lemma remove_at_gone: "p \<noteq> [] \<Longrightarrow> \<not> present p (remove_at p s)"
  unfolding present_def by (induction p s rule: remove_at.induct) (auto simp: dict_simps split: option.splits)

lemma remove_at_same_files: "same_files p s (remove_at p s)"
  unfolding same_files_def
proof (intro allI impI, goal_cases)
  case (1 q t)
  then show ?case
  proof (induction p s arbitrary: q rule: remove_at.induct)
    case (3 n ns es)
    then show ?case by (cases q) (auto simp: dict_simps split: option.splits if_splits)
  qed auto
qed

subsection \<open>A module is created\<close>

text \<open>An operation that turns the tree \<open>u\<close> at a place into \<open>u'\<close>, with the result \<open>r\<close>, unless it is refused
  something.\<close>

definition turns :: "(path \<Rightarrow> bool) \<Rightarrow> path \<Rightarrow> tree \<Rightarrow> 'a fs_op \<Rightarrow> 'a \<Rightarrow> tree \<Rightarrow> bool" where
  "turns denied p u m r u' \<longleftrightarrow> (\<forall>s. locate p s = Inr u \<longrightarrow> same_files p s (snd (m s)) \<and> (case m s of
     (Inr x, s') \<Rightarrow> x = r \<and> locate p s' = Inr u' | (Inl e, s') \<Rightarrow> \<exists>q. denied q))"

lemma turns_bind [intro]: "turns denied p u m r u' \<Longrightarrow> turns denied p u' (f r) r' v \<Longrightarrow> turns denied p u (bindS m f) r' v"
proof -
  assume m: "turns denied p u m r u'" and f: "turns denied p u' (f r) r' v"
  show ?thesis unfolding turns_def
  proof (intro allI impI, goal_cases)
    case (1 s)
    obtain x t where ms: "m s = (x, t)" by (cases "m s")
    have g: "same_files p s t" "case x of Inr y \<Rightarrow> y = r \<and> locate p t = Inr u' | Inl e \<Rightarrow> \<exists>q. denied q"
      using m 1 ms by (auto simp: turns_def split: sum.splits)
    then show ?case using f ms by (cases x) (auto simp: turns_def bindS_def intro: same_files_trans)
  qed
qed

lemma locate_set_at_above: "locate p s = Inr u \<Longrightarrow> locate p (set_at (p @ r) x s) = Inr (set_at r x u)"
  by (induction p s rule: locate.induct) (auto simp: dict_simps split: option.splits)

lemma dset_again: "dset k v (dset k w d) = dset k v d"
  by (simp add: dset_def)

lemma set_at_again: "locate (butlast r) u = Inr (Dir es) \<Longrightarrow> set_at r x (set_at r y u) = set_at r x u"
proof (induction r y u rule: set_at.induct)
  case (3 n ns y ds)
  then show ?case by (cases "ns = []") (auto simp: dict_simps dset_again split: option.splits)
qed (auto split: if_splits)

lemma make_dirs_there:
  assumes "locate (butlast r) u = Inr (Dir es)" "dget es (last r) = None" "r \<noteq> []"
  shows "turns denied p u (make_dirs denied False (p @ r)) () (set_at r (Dir []) u)"
  unfolding turns_def
proof (intro allI impI, goal_cases)
  case (1 s)
  then have parent: "locate (butlast (p @ r)) s = Inr (Dir es)" using assms by (simp add: butlast_append locate_append)
  have "same_files p s (set_at (p @ r) (Dir []) s)"
    by (rule same_files_longer) (rule set_at_same_files [OF _ parent], use assms(3) in simp)
  then show ?case using parent assms 1
    by (auto simp: make_dirs.simps [of denied False "p @ r"] make_dir_def unless_there_def locate_set_at_above)
qed

lemma create_file_there:
  assumes "locate (butlast r) u = Inr (Dir es)" "dget es (last r) = None" "r \<noteq> []" "py_format template args = Inr text"
  shows "turns denied p u (create_file denied (p @ r) template args) True (set_at r (TextFile text) u)"
  unfolding turns_def
proof (intro allI impI, goal_cases)
  case (1 s)
  have parent: "locate (butlast (p @ r)) s = Inr (Dir es)" using assms 1 by (simp add: butlast_append locate_append)
  have pr: "p @ r \<noteq> []" using assms(3) by simp
  have same: "same_files p s (set_at (p @ r) x s)" for x
    by (rule same_files_longer) (rule set_at_same_files [OF pr parent])
  have again: "set_at (p @ r) x (set_at (p @ r) y s) = set_at (p @ r) x s" for x y by (rule set_at_again [OF parent])
  show ?case using parent assms 1 same
    by (auto simp: create_file_def bindS_def open_file_def locate_set_at_above again)
qed

lemma all_of_turns: "turns denied p u m True u' \<Longrightarrow> turns denied p u' (all_of ms) True v \<Longrightarrow> turns denied p u (all_of (m # ms)) True v"
  by (auto intro: turns_bind)

lemma all_of_Nil: "turns denied p u (all_of []) True u"
  by (simp add: turns_def)

lemma with_suffix_plain: "CHR ''.'' \<notin> set n \<Longrightarrow> with_suffix n suffix = n @ suffix"
  by (simp add: with_suffix_def)

text \<open>The files of a module.\<close>

definition text_for :: "string \<Rightarrow> (string, string) dict \<Rightarrow> tree" where
  "text_for template args = TextFile (case py_format template args of Inr t \<Rightarrow> t | Inl e \<Rightarrow> [])"

definition module_tree :: "path \<Rightarrow> string \<Rightarrow> tree" where
  "module_tree modulepath n = (let m = (''MODULE'', n); words = split_char CHR ''-'' n in Dir
     [(''wscript'', text_for WSCRIPT_TEMPLATE [m]),
      (''model'', Dir [(n @ ''.cc'', text_for MODEL_CC_TEMPLATE [m]),
        (n @ ''.h'', text_for MODEL_H_TEMPLATE [m, (''INCLUDE_GUARD'', guard_name n @ ''_H'')])]),
      (''test'', Dir [(n @ ''-test-suite.cc'', text_for TEST_CC_TEMPLATE [m, (''CAPITALIZED'', concat (map capitalize words)),
        (''COMPOUND'', hd words @ concat (map capitalize (tl words)))])]),
      (''helper'', Dir [(n @ ''-helper.cc'', text_for HELPER_CC_TEMPLATE [m]),
        (n @ ''-helper.h'', text_for HELPER_H_TEMPLATE [m, (''INCLUDE_GUARD'', guard_name n @ ''_HELPER_H'')])]),
      (''examples'', Dir [(''wscript'', text_for EXAMPLES_WSCRIPT_TEMPLATE [m]), (n @ ''-example.cc'', text_for EXAMPLE_CC_TEMPLATE [m])]),
      (''doc'', Dir [(n @ ''.rst'', text_for DOC_RST_TEMPLATE [m, (''MODULE_DIR'', join ''/'' modulepath)])])])"

text \<open>Creating a file from a template that can be filled.\<close>

lemma template_there:
  assumes "scan keys Plainly template = Some Plainly" "list_all (\<lambda>f. field_value args f \<noteq> None) keys"
    and "locate (butlast r) u = Inr (Dir es)" "dget es (last r) = None" "r \<noteq> []"
  shows "turns denied p u (create_file denied (p @ r) template args) True (set_at r (text_for template args) u)"
proof -
  obtain t where t: "py_format template args = Inr t" using scan_format [OF assms(1,2)] by blast
  show ?thesis using create_file_there [OF assms(3-5) t, of denied p] by (simp add: text_for_def t)
qed

lemma known_field: "field_value args f = (if endswith f ''!r'' then map_option py_repr_str (map_of args (take (length f - 2) f)) else map_of args f)"
  by (simp add: field_value_def dget_def)

text \<open>A new directory with one file or two.\<close>

lemma first_file:
  assumes "scan keys Plainly template = Some Plainly" "list_all (\<lambda>f. field_value args f \<noteq> None) keys"
  shows "turns denied p (Dir (dset d (Dir []) es)) (create_file denied (p @ [d, a]) template args) True
      (Dir (dset d (Dir [(a, text_for template args)]) es))"
  using template_there [OF assms, of "[d, a]" "Dir (dset d (Dir []) es)" "[]" denied p]
  by (simp add: dict_simps dset_again)

lemma folder_one:
  assumes "dget es d = None" "scan keys Plainly template = Some Plainly" "list_all (\<lambda>f. field_value args f \<noteq> None) keys"
  shows "turns denied p (Dir es) (bindS (make_dirs denied False (p @ [d])) (\<lambda>_. create_file denied (p @ [d, a]) template args)) True
      (Dir (dset d (Dir [(a, text_for template args)]) es))"
  using make_dirs_there [of "[d]" "Dir es" es denied p] assms by (auto intro!: turns_bind first_file)

lemma folder_two:
  assumes "dget es d = None" "a \<noteq> b" "scan keys Plainly template = Some Plainly" "list_all (\<lambda>f. field_value args f \<noteq> None) keys"
    and "scan keys' Plainly template' = Some Plainly" "list_all (\<lambda>f. field_value args' f \<noteq> None) keys'"
  shows "turns denied p (Dir es) (bindS (make_dirs denied False (p @ [d])) (\<lambda>_. bindS (create_file denied (p @ [d, a]) template args)
      (\<lambda>_. create_file denied (p @ [d, b]) template' args'))) True
      (Dir (dset d (Dir [(a, text_for template args), (b, text_for template' args')]) es))"
proof -
  have "turns denied p (Dir (dset d (Dir [(a, text_for template args)]) es)) (create_file denied (p @ [d, b]) template' args') True
      (Dir (dset d (Dir [(a, text_for template args), (b, text_for template' args')]) es))"
    using template_there [OF assms(5,6), of "[d, b]" "Dir (dset d (Dir [(a, text_for template args)]) es)" "[(a, text_for template args)]" denied p] assms(2)
    by (simp add: dict_simps dset_again) (simp add: dset_def dget_def)
  then show ?thesis using make_dirs_there [of "[d]" "Dir es" es denied p] assms(1) first_file [OF assms(3,4)]
    by (auto intro!: turns_bind)
qed

lemma make_wscript_turns:
  "dget es ''wscript'' = None \<Longrightarrow> turns denied p (Dir es) (make_wscript denied p n) True
     (Dir (dset ''wscript'' (text_for WSCRIPT_TEMPLATE [(''MODULE'', n)]) es))"
  unfolding make_wscript_def
  using template_there [OF WSCRIPT_scan, of "[(''MODULE'', n)]" "[''wscript'']" "Dir es" es denied p]
  by (simp add: known_field endswith_def)

lemma last_dash: "n @ ''-example.cc'' \<noteq> ''wscript''"
  using arg_cong [of "n @ ''-example.cc''" "''wscript''" last] by auto

lemma make_parts_turn:
  assumes "CHR ''.'' \<notin> set n"
  shows "dget es ''model'' = None \<Longrightarrow> turns denied p (Dir es) (make_model denied p n) True
      (Dir (dset ''model'' (Dir [(n @ ''.cc'', text_for MODEL_CC_TEMPLATE [(''MODULE'', n)]),
        (n @ ''.h'', text_for MODEL_H_TEMPLATE [(''MODULE'', n), (''INCLUDE_GUARD'', guard_name n @ ''_H'')])]) es))"
    and "dget es ''test'' = None \<Longrightarrow> turns denied p (Dir es) (make_test denied p n) True
      (Dir (dset ''test'' (Dir [(n @ ''-test-suite.cc'', text_for TEST_CC_TEMPLATE [(''MODULE'', n),
        (''CAPITALIZED'', concat (map capitalize (split_char CHR ''-'' n))),
        (''COMPOUND'', hd (split_char CHR ''-'' n) @ concat (map capitalize (tl (split_char CHR ''-'' n))))])]) es))"
    and "dget es ''helper'' = None \<Longrightarrow> turns denied p (Dir es) (make_helper denied p n) True
      (Dir (dset ''helper'' (Dir [(n @ ''-helper.cc'', text_for HELPER_CC_TEMPLATE [(''MODULE'', n)]),
        (n @ ''-helper.h'', text_for HELPER_H_TEMPLATE [(''MODULE'', n), (''INCLUDE_GUARD'', guard_name n @ ''_HELPER_H'')])]) es))"
    and "dget es ''examples'' = None \<Longrightarrow> turns denied p (Dir es) (make_examples denied p n) True
      (Dir (dset ''examples'' (Dir [(''wscript'', text_for EXAMPLES_WSCRIPT_TEMPLATE [(''MODULE'', n)]),
        (n @ ''-example.cc'', text_for EXAMPLE_CC_TEMPLATE [(''MODULE'', n)])]) es))"
    and "dget es ''doc'' = None \<Longrightarrow> turns denied p (Dir es) (make_doc denied p n) True
      (Dir (dset ''doc'' (Dir [(n @ ''.rst'', text_for DOC_RST_TEMPLATE [(''MODULE'', n), (''MODULE_DIR'', join ''/'' p)])]) es))"
  using assms last_dash [of n]
    folder_two [OF _ _ MODEL_CC_scan _ MODEL_H_scan, of es "''model''" "n @ ''.cc''" "n @ ''.h''" "[(''MODULE'', n)]"
      "[(''MODULE'', n), (''INCLUDE_GUARD'', guard_name n @ ''_H'')]" denied p]
    folder_one [OF _ TEST_CC_scan, of es "''test''" "[(''MODULE'', n), (''CAPITALIZED'', concat (map capitalize (split_char CHR ''-'' n))),
        (''COMPOUND'', hd (split_char CHR ''-'' n) @ concat (map capitalize (tl (split_char CHR ''-'' n))))]" denied p "n @ ''-test-suite.cc''"]
    folder_two [OF _ _ HELPER_CC_scan _ HELPER_H_scan, of es "''helper''" "n @ ''-helper.cc''" "n @ ''-helper.h''" "[(''MODULE'', n)]"
      "[(''MODULE'', n), (''INCLUDE_GUARD'', guard_name n @ ''_HELPER_H'')]" denied p]
    folder_two [OF _ _ EXAMPLES_WSCRIPT_scan _ EXAMPLE_CC_scan, of es "''examples''" "''wscript''" "n @ ''-example.cc''" "[(''MODULE'', n)]"
      "[(''MODULE'', n)]" denied p]
    folder_one [OF _ DOC_RST_scan, of es "''doc''" "[(''MODULE'', n), (''MODULE_DIR'', join ''/'' p)]" denied p "n @ ''.rst''"]
  by (simp_all add: make_model_def make_test_def make_helper_def make_examples_def make_doc_def Let_def with_suffix_plain known_field
      endswith_def)

lemma module_parts_turn:
  assumes "CHR ''.'' \<notin> set n"
  shows "turns denied p (Dir []) (module_parts denied p n) True (module_tree p n)"
proof -
  have w: "turns denied p (Dir []) (make_wscript denied p n) True (Dir (dset ''wscript'' (text_for WSCRIPT_TEMPLATE [(''MODULE'', n)]) []))"
    by (rule make_wscript_turns) (simp add: dget_def)
  show ?thesis unfolding module_parts_def list.map
    by (rule all_of_turns [OF w])
      ((rule all_of_turns, rule make_parts_turn [OF assms], simp add: dget_def dset_def)+,
        use all_of_Nil in \<open>simp add: module_tree_def Let_def dset_def\<close>)
qed

text \<open>Making a directory with those above it changes no file.\<close>

definition files_kept :: "tree \<Rightarrow> tree \<Rightarrow> bool" where
  "files_kept s s' \<longleftrightarrow> (\<forall>q t. (locate q s' = Inr (TextFile t)) = (locate q s = Inr (TextFile t)))"

lemma files_kept_same: "files_kept s s' \<Longrightarrow> same_files p s s'"
  by (simp add: files_kept_def same_files_def)

lemma locate_error: "locate p s = Inl e \<Longrightarrow> e = FileNotFoundError \<or> e = NotADirectoryError"
  by (induction p s rule: locate.induct) (auto split: option.splits)

lemma locate_last: "p \<noteq> [] \<Longrightarrow> locate p s = bindR (locate (butlast p) s) (locate [last p])"
  using locate_append [of "butlast p" "[last p]" s] by simp

lemma new_dir_kept:
  assumes "p \<noteq> []" "locate (butlast p) s = Inr (Dir es)" "dget es (last p) = None"
  shows "files_kept s (set_at p (Dir []) s)"
  unfolding files_kept_def
proof (intro allI)
  fix q t
  show "(locate q (set_at p (Dir []) s) = Inr (TextFile t)) = (locate q s = Inr (TextFile t))"
  proof (cases "take (length p) q = p")
    case True
    then have q: "q = p @ drop (length p) q" by (metis append_take_drop_id)
    have new: "locate q (set_at p (Dir []) s) = locate (drop (length p) q) (Dir [])"
      using locate_set_at [OF assms(1,2), of "drop (length p) q" "Dir []"] q by simp
    have "locate p s = Inl FileNotFoundError" using locate_last [OF assms(1), of s] assms(2,3) by simp
    then have "locate q s = Inl FileNotFoundError" using locate_append [of p "drop (length p) q" s] q by simp
    then show ?thesis unfolding new by (cases "drop (length p) q") (simp_all add: dict_simps)
  next
    case False
    then show ?thesis using set_at_same_files [OF assms(1,2), of "Dir []"] by (simp add: same_files_def)
  qed
qed

lemma make_dir_new:
  assumes "\<not> present p s" "make_dir denied p s = (r, s')" "is_dir (butlast p) s"
  shows "files_kept s s' \<and> (case r of Inr u \<Rightarrow> locate p s' = Inr (Dir []) | Inl e \<Rightarrow> e = PermissionError \<and> s' = s \<and> (\<exists>q. denied q))"
proof -
  have p: "p \<noteq> []" using assms(1) by (auto simp: present_def)
  obtain es where es: "locate (butlast p) s = Inr (Dir es)" using assms(3) by (auto simp: is_dir_def split: sum.splits tree.splits)
  have d: "dget es (last p) = None" using assms(1) locate_last [OF p, of s] es by (auto simp: present_def split: option.splits)
  show ?thesis using assms(2) p es d new_dir_kept [OF p es d] locate_set_at [OF p es, of "[]" "Dir []"]
    by (auto simp: make_dir_def files_kept_def split: if_splits)
qed

lemma make_dirs_new:
  assumes "\<not> present p s" "make_dirs denied exist_ok p s = (r, s')"
  shows "files_kept s s' \<and> (case r of Inr u \<Rightarrow> locate p s' = Inr (Dir []) | Inl e \<Rightarrow> (\<exists>q. denied q) \<or> locate p s = Inl NotADirectoryError)"
  using assms
proof (induction "length p" arbitrary: p exist_ok r s')
  case 0
  then show ?case by (simp add: present_def)
next
  case (Suc k)
  have p: "p \<noteq> []" using Suc(2) by auto
  note step = Suc(4) [unfolded make_dirs.simps [of denied exist_ok p s]]
  have absent: "\<not> is_dir p s" using Suc(3) by (auto simp: present_def is_dir_def split: sum.splits)
  have at: "locate p s = bindR (locate (butlast p) s) (locate [last p])" by (rule locate_last [OF p])
  show ?case
  proof (cases "locate (butlast p) s")
    case (Inr t)
    show ?thesis
    proof (cases t)
      case (TextFile x)
      then show ?thesis using step Inr p at absent by (auto simp: make_dir_def unless_there_def files_kept_def)
    next
      case (Dir es)
      obtain r1 s1 where one: "make_dir denied p s = (r1, s1)" by (cases "make_dir denied p s")
      have "is_dir (butlast p) s" using Inr Dir by (simp add: is_dir_def)
      note new = make_dir_new [OF Suc(3) one this]
      show ?thesis using step new one absent by (cases r1) (auto simp: unless_there_def)
    qed
  next
    case (Inl e)
    then have one: "make_dir denied p s = (Inl e, s)" using p by (simp add: make_dir_def)
    show ?thesis
    proof (cases "e = FileNotFoundError")
      case False
      then show ?thesis using step one locate_error [OF Inl] Inl at absent by (auto simp: unless_there_def files_kept_def)
    next
      case True
      obtain r1 s1 where up: "make_dirs denied True (butlast p) s = (r1, s1)" by (cases "make_dirs denied True (butlast p) s")
      have "files_kept s s1 \<and> (case r1 of Inr u \<Rightarrow> locate (butlast p) s1 = Inr (Dir [])
          | Inl e \<Rightarrow> (\<exists>q. denied q) \<or> locate (butlast p) s = Inl NotADirectoryError)"
        by (rule Suc(1) [OF _ _ up]) (use Suc(2) Inl in \<open>auto simp: present_def\<close>)
      then have ih: "files_kept s s1" "case r1 of Inr u \<Rightarrow> locate (butlast p) s1 = Inr (Dir []) | Inl e \<Rightarrow> \<exists>q. denied q"
        using Inl True by (auto split: sum.splits)
      show ?thesis
      proof (cases r1)
        case (Inl e1)
        then show ?thesis using step one True p up ih by (auto simp: bindS_def)
      next
        case (Inr u)
        then have dir: "locate (butlast p) s1 = Inr (Dir [])" using ih by simp
        obtain r2 s2 where two: "make_dir denied p s1 = (r2, s2)" by (cases "make_dir denied p s1")
        have gone: "\<not> present p s1" using locate_last [OF p, of s1] dir by (simp add: present_def dict_simps)
        have "is_dir (butlast p) s1" using dir by (simp add: is_dir_def)
        note new = make_dir_new [OF gone two this]
        have "\<not> is_dir p s1" using gone by (auto simp: present_def is_dir_def split: sum.splits)
        then have res: "(r, s') = (r2, s2)" using step one True p up Inr two new by (cases r2) (auto simp: bindS_def unless_there_def)
        have "files_kept s s2" using ih(1) new by (simp add: files_kept_def)
        then show ?thesis using new res by (cases r2) auto
      qed
    qed
  qed
qed

lemma make_module_outcome:
  assumes "make_module denied base modpath n s = ((ok, notices), s')" "CHR ''.'' \<notin> set n"
  shows "(ok \<longrightarrow> \<not> present (modpath @ [n]) s \<and> locate (modpath @ [n]) s' = Inr (module_tree (modpath @ [n]) n))
    \<and> (\<not> ok \<longrightarrow> (if present (modpath @ [n]) s then s' = s else \<not> present (modpath @ [n]) s'))
    \<and> same_files (modpath @ [n]) s s'
    \<and> (locate (modpath @ [n]) s = Inl FileNotFoundError \<and> range denied = {False} \<longrightarrow> ok)"
proof -
  let ?p = "modpath @ [n]"
  show ?thesis
  proof (cases "present ?p s")
    case True
    then have "s' = s" "\<not> ok" using assms(1) by (simp_all add: make_module_def)
    moreover have "locate ?p s \<noteq> Inl FileNotFoundError" using True by (auto simp: present_def)
    ultimately show ?thesis using True by simp
  next
    case False
    obtain r1 s1 where dirs: "make_dirs denied False ?p s = (r1, s1)" by (cases "make_dirs denied False ?p s")
    note d = make_dirs_new [OF False dirs]
    obtain r2 s2 where all: "bindS (make_dirs denied False ?p) (\<lambda>_. module_parts denied ?p n) s = (r2, s2)"
      by (cases "bindS (make_dirs denied False ?p) (\<lambda>_. module_parts denied ?p n) s")
    have b: "same_files ?p s s2 \<and> (case r2 of Inr x \<Rightarrow> x \<and> locate ?p s2 = Inr (module_tree ?p n)
        | Inl e \<Rightarrow> (\<exists>q. denied q) \<or> locate ?p s = Inl NotADirectoryError)"
    proof (cases r1)
      case (Inl e)
      then show ?thesis using all dirs d files_kept_same [of s s1 ?p] by (auto simp: bindS_def)
    next
      case (Inr u)
      then have "module_parts denied ?p n s1 = (r2, s2)" "locate ?p s1 = Inr (Dir [])" using all dirs d by (auto simp: bindS_def)
      then have "same_files ?p s1 s2 \<and> (case r2 of Inr x \<Rightarrow> x \<and> locate ?p s2 = Inr (module_tree ?p n) | Inl e \<Rightarrow> \<exists>q. denied q)"
        using module_parts_turn [OF assms(2), of denied ?p] by (auto simp: turns_def split: sum.splits)
      then show ?thesis using d files_kept_same [of s s1 ?p] same_files_trans by (auto split: sum.splits)
    qed
    show ?thesis
    proof (cases r2)
      case (Inr x)
      then have x: "r2 = Inr True" "locate ?p s2 = Inr (module_tree ?p n)" "same_files ?p s s2" using b by simp_all
      have "ok" "s' = s2" using assms(1) all [unfolded x(1)] False by (simp_all add: make_module_def Let_def)
      then show ?thesis using False x by simp
    next
      case (Inl e)
      then have res: "\<not> ok" "s' = (if present ?p s2 then remove_at ?p s2 else s2)"
        using assms(1) all [unfolded Inl] False by (simp_all add: make_module_def Let_def)
      have "\<not> present ?p s'" using res remove_at_gone [of ?p s2] by (cases "present ?p s2") simp_all
      moreover have "same_files ?p s s'" using res b remove_at_same_files [of ?p s2] same_files_trans by (cases "present ?p s2") auto
      moreover have "\<not> (locate ?p s = Inl FileNotFoundError \<and> range denied = {False})"
      proof
        assume h: "locate ?p s = Inl FileNotFoundError \<and> range denied = {False}"
        then have "\<not> denied q" for q using rangeI [of denied q] by auto
        then show False using b Inl h by auto
      qed
      ultimately show ?thesis using res False by simp
    qed
  qed
qed

text \<open>C14: A module is created as a whole or not at all: when it is reported as created it is exactly the nine files
  of the templates in their five directories; otherwise there is nothing in its place, or what was there is
  untouched. No file outside of it changes. Only a refusal of the operating system, a file where a directory is
  needed or something in its place keeps it from being created.\<close>

theorem make_module_whole:
  assumes "make_module denied base modpath n s = ((ok, notices), s')" "CHR ''.'' \<notin> set n"
  shows "(ok \<longrightarrow> \<not> present (modpath @ [n]) s \<and> locate (modpath @ [n]) s' = Inr (module_tree (modpath @ [n]) n))
    \<and> (\<not> ok \<longrightarrow> (if present (modpath @ [n]) s then s' = s else \<not> present (modpath @ [n]) s'))
    \<and> same_files (modpath @ [n]) s s'
    \<and> (locate (modpath @ [n]) s = Inl FileNotFoundError \<and> range denied = {False} \<longrightarrow> ok)"
  by (rule make_module_outcome [OF assms])

definition demo_repo :: tree where
  "demo_repo = Dir [(''src'', Dir [(''core'', Dir [(''wscript'', TextFile [])])]), (''contrib'', Dir [(''wscript'', TextFile [])])]"

theorem make_module_whole_witness:
  "locate [''contrib'', ''tools'', ''x-y''] (snd (make_module (\<lambda>p. False) ''/ns'' [''contrib'', ''tools''] ''x-y'' demo_repo))
     = Inr (module_tree [''contrib'', ''tools'', ''x-y''] ''x-y'')"
proof -
  obtain ok notices s' where m: "make_module (\<lambda>p. False) ''/ns'' [''contrib'', ''tools''] ''x-y'' demo_repo = ((ok, notices), s')"
    by (metis surj_pair)
  have d: "CHR ''.'' \<notin> set ''x-y''" "locate [''contrib'', ''tools'', ''x-y''] demo_repo = Inl FileNotFoundError" by code_simp+
  show ?thesis using make_module_whole [OF m d(1)] d(2) m by simp
qed

subsection \<open>The build finds it\<close>

text \<open>What src/wscript and contrib/wscript see of the tree below their directory.\<close>

fun entry_of :: "tree \<Rightarrow> entry" where
  "entry_of (TextFile t) = Plain"
| "entry_of (Dir es) = Folder (map (\<lambda>(n, t). (n, entry_of t)) es)"

definition entries_in :: "string \<Rightarrow> tree \<Rightarrow> (string \<times> entry) list" where
  "entries_in place s = (case locate [place] s of Inr (Dir es) \<Rightarrow> map (\<lambda>(n, t). (n, entry_of t)) es | _ \<Rightarrow> [])"

lemma dget_set: "dget es n = Some t \<Longrightarrow> (n, t) \<in> set es"
  by (simp add: dget_def map_of_SomeD)

lemma has_wscript_dget: "has_wscript (map (\<lambda>(n, t). (n, entry_of t)) es) \<longleftrightarrow> dget es ''wscript'' \<noteq> None"
  by (induction es) (auto simp: has_wscript_def dget_def)

lemma modules_in_tree:
  assumes "locate ns t = Inr (Dir ds)" "dget ds ''wscript'' \<noteq> None" "list_all (\<lambda>m. \<not> ignored_entry m) (n # ns)"
    and "\<forall>k < length ns. \<not> present (take k ns @ [''wscript'']) t"
  shows "fold (\<lambda>m path. sub_path path m) (n # ns) parent \<in> set (modules_in parent n (entry_of t))"
  using assms
proof (induction ns arbitrary: t n parent)
  case Nil
  then show ?case by (simp add: modules_in.simps [of parent n] has_wscript_dget)
next
  case (Cons m ms)
  obtain es where es: "t = Dir es" using Cons.prems(1) by (cases t) auto
  obtain t' where t': "dget es m = Some t'" "locate ms t' = Inr (Dir ds)" using Cons.prems(1) es by (auto split: option.splits)
  have "\<not> present (take 0 (m # ms) @ [''wscript'']) t" using Cons.prems(4) by blast
  then have no: "dget es ''wscript'' = None" by (auto simp: es present_def split: option.splits)
  have "\<forall>k < length ms. \<not> present (take k ms @ [''wscript'']) t'"
  proof (intro allI impI)
    fix k assume "k < length ms"
    then have "\<not> present (take (Suc k) (m # ms) @ [''wscript'']) t" using Cons.prems(4) by (metis Suc_less_eq length_Cons)
    then show "\<not> present (take k ms @ [''wscript'']) t'" by (simp add: present_def es t')
  qed
  then have "fold (\<lambda>m path. sub_path path m) (m # ms) (sub_path parent n) \<in> set (modules_in (sub_path parent n) m (entry_of t'))"
    by (intro Cons.IH [OF t'(2) Cons.prems(2)]) (use Cons.prems(3) in simp)
  then show ?case using dget_set [OF t'(1)] Cons.prems(3) no
    by (auto simp: modules_in.simps [of parent n] es has_wscript_dget intro!: bexI [of _ "(m, t')"])
qed

lemma sub_paths: "list_all (\<lambda>m. m \<noteq> []) ms \<Longrightarrow> p \<noteq> [] \<Longrightarrow> fold (\<lambda>m path. sub_path path m) ms p = join ''/'' (p # ms)"
proof (induction ms arbitrary: p)
  case (Cons m ms)
  have "join ''/'' ((p @ ''/'' @ m) # ms) = join ''/'' (p # m # ms)" by (cases ms) simp_all
  then show ?case using Cons by (simp add: sub_path_def)
qed simp

lemma join_from_root: "list_all (\<lambda>m. m \<noteq> []) (m # ms) \<Longrightarrow> fold (\<lambda>m path. sub_path path m) (m # ms) [] = join ''/'' (m # ms)"
  using sub_paths [of ms m] by (simp add: sub_path_def)

lemma split_last: "c \<notin> set n \<Longrightarrow> \<exists>xs. xs \<noteq> [] \<and> split_char c (a @ c # n) = xs @ [n]"
proof (induction a)
  case (Cons x a)
  then obtain y ys where "split_char c (a @ c # n) = (y # ys) @ [n]" by (metis list.exhaust)
  then show ?case by (cases "x = c") (auto intro: exI [of _ "[] # y # ys"])
qed (simp add: split_char_token exI [of _ "[[]]"])

lemma last_split: "c \<notin> set n \<Longrightarrow> last (split_char c (a @ c # n)) = n"
  using split_last [of c n a] by auto

lemma join_last: "\<exists>a. join ''/'' (ms @ [n]) = a @ ''/'' @ n \<or> (ms = [] \<and> join ''/'' (ms @ [n]) = n)"
proof (induction ms rule: induct_list012)
  case (3 x y zs)
  then obtain a where "join ''/'' ((y # zs) @ [n]) = a @ ''/'' @ n" by auto
  then have "join ''/'' ((x # y # zs) @ [n]) = (x @ ''/'' @ a) @ ''/'' @ n" by simp
  then show ?case by blast
qed auto

lemma contrib_name_join: "CHR ''/'' \<notin> set n \<Longrightarrow> contrib_name (join ''/'' (ms @ [n])) = ''ns3-'' @ n"
  using join_last [of ms n] last_split [of "CHR ''/''" n] split_char_token [of "CHR ''/''" n] by (auto simp: contrib_name_def)

lemma name_chars: "\<not> name_char CHR ''.''" "\<not> name_char CHR ''/''"
  by code_simp+

lemma allowed_chars: "allowed_name n \<Longrightarrow> n \<noteq> [] \<and> CHR ''.'' \<notin> set n \<and> CHR ''/'' \<notin> set n"
proof -
  assume a: "allowed_name n"
  have no: "CHR ''.'' \<noteq> char_of (10 :: nat)" "CHR ''/'' \<noteq> char_of (10 :: nat)" by code_simp+
  show ?thesis
  proof (cases "n \<noteq> [] \<and> last n = char_of (10 :: nat)")
    case True
    then have l: "list_all name_char (butlast n)" "butlast n @ [char_of (10 :: nat)] = n"
      using a append_butlast_last_id [of n] by (simp_all add: allowed_name_def Let_def)
    have "CHR ''.'' \<notin> set (butlast n @ [char_of (10 :: nat)]) \<and> CHR ''/'' \<notin> set (butlast n @ [char_of (10 :: nat)])"
      using l(1) name_chars no by (auto simp: list_all_iff)
    then show ?thesis unfolding l(2) using True by simp
  next
    case False
    then have "n \<noteq> []" "list_all name_char n" using a by (auto simp: allowed_name_def Let_def split: if_splits)
    then show ?thesis using name_chars by (auto simp: list_all_iff)
  qed
qed

lemma allowed_ignored: "allowed_name n \<Longrightarrow> ignored_entry n \<longleftrightarrow> endswith n ''CVS''"
  using allowed_chars [of n] by (cases n) (auto simp: ignored_entry_def)

lemma found_in_contrib:
  assumes "make_module denied base (''contrib'' # project) n s = ((True, notices), s')"
    and "list_all (\<lambda>m. allowed_name m \<and> \<not> endswith m ''CVS'') (project @ [n])"
    and "\<forall>k \<le> length project. 0 < k \<longrightarrow> \<not> present (''contrib'' # take k project @ [''wscript'']) s'"
  shows "join ''/'' (project @ [n]) \<in> set (find_contrib_modules (entries_in ''contrib'' s'))
    \<and> contrib_name (join ''/'' (project @ [n])) = ''ns3-'' @ n"
proof -
  have n: "CHR ''.'' \<notin> set n" "CHR ''/'' \<notin> set n" using assms(2) allowed_chars by auto
  have ig: "list_all (\<lambda>m. \<not> ignored_entry m \<and> m \<noteq> []) (project @ [n])"
    using assms(2) allowed_ignored allowed_chars by (auto simp: list_all_iff)
  have "locate (''contrib'' # project @ [n]) s' = Inr (module_tree ((''contrib'' # project) @ [n]) n)"
    using make_module_outcome [OF assms(1) n(1)] by simp
  then obtain es ds where top: "s' = Dir es" "dget es ''contrib'' = Some (Dir ds)" and
      at: "locate (project @ [n]) (Dir ds) = Inr (module_tree ((''contrib'' # project) @ [n]) n)"
    by (cases s'; cases "project @ [n]") (auto split: option.splits tree.splits elim: locate.elims)
  obtain m ms where ms: "project @ [n] = m # ms" by (cases "project @ [n]") auto
  obtain t where t: "dget ds m = Some t" "locate ms t = Inr (module_tree ((''contrib'' # project) @ [n]) n)"
    using at ms by (auto split: option.splits)
  have no: "\<forall>k < length ms. \<not> present (take k ms @ [''wscript'']) t"
  proof (intro allI impI)
    fix k assume k: "k < length ms"
    then have len: "Suc k \<le> length project" using arg_cong [OF ms, of length] by simp
    then have "take (Suc k) project = m # take k ms" using arg_cong [OF ms, of "take (Suc k)"] by simp
    then have "\<not> present (''contrib'' # m # take k ms @ [''wscript'']) s'" using assms(3) len by (metis append_Cons zero_less_Suc)
    then show "\<not> present (take k ms @ [''wscript'']) t" by (simp add: present_def top t)
  qed
  have "fold (\<lambda>m path. sub_path path m) (m # ms) [] \<in> set (modules_in [] m (entry_of t))"
    by (rule modules_in_tree [OF t(2) [unfolded module_tree_def Let_def] _ _ no])
      (use ig ms in \<open>auto simp: dget_def list_all_iff\<close>)
  moreover have "fold (\<lambda>m path. sub_path path m) (m # ms) [] = join ''/'' (project @ [n])"
    unfolding ms by (rule join_from_root) (use ig ms in \<open>auto simp: list_all_iff\<close>)
  moreover have "entries_in ''contrib'' s' = map (\<lambda>(n, t). (n, entry_of t)) ds" by (simp add: entries_in_def top)
  ultimately have "join ''/'' (project @ [n]) \<in> set (find_contrib_modules (entries_in ''contrib'' s'))"
    using dget_set [OF t(1)] by (auto simp: find_contrib_exact intro!: bexI [of _ "(m, t)"])
  then show ?thesis using contrib_name_join [OF n(2)] by simp
qed

lemma found_in_src:
  assumes "make_module denied base [''src''] n s = ((True, notices), s')" "allowed_name n"
  shows "n \<in> set (src_modules (entries_in ''src'' s')) \<longleftrightarrow> n \<noteq> ''CVS''"
proof -
  have n: "CHR ''.'' \<notin> set n" "n \<noteq> []" using assms(2) allowed_chars by auto
  have "locate [''src'', n] s' = Inr (module_tree ([''src''] @ [n]) n)"
    using make_module_outcome [OF assms(1) n(1)] by simp
  then obtain es ds where top: "s' = Dir es" "dget es ''src'' = Some (Dir ds)" "dget ds n = Some (module_tree ([''src''] @ [n]) n)"
    by (cases s') (auto split: option.splits tree.splits elim: locate.elims)
  have e: "entries_in ''src'' s' = map (\<lambda>(n, t). (n, entry_of t)) ds" by (simp add: entries_in_def top)
  obtain parts where p: "module_tree ([''src''] @ [n]) n = Dir parts" "dget parts ''wscript'' \<noteq> None"
    by (rule that [OF module_tree_def [unfolded Let_def, of "[''src''] @ [n]" n]]) (simp add: dget_def)
  have "(n, entry_of (Dir parts)) \<in> set (entries_in ''src'' s')" using dget_set [OF top(3)] unfolding e p(1) by force
  moreover have "entry_of (Dir parts) = Folder (map (\<lambda>(n, t). (n, entry_of t)) parts)" "has_wscript (map (\<lambda>(n, t). (n, entry_of t)) parts)"
    using p(2) by (simp_all only: entry_of.simps has_wscript_dget not_False_eq_True)
  ultimately have there: "(n, Folder (map (\<lambda>(n, t). (n, entry_of t)) parts)) \<in> set (entries_in ''src'' s')" by simp
  have "\<not> startswith n ''.''" using n by (cases n) (auto simp: startswith_def)
  then show ?thesis using there \<open>has_wscript _\<close> by (force simp: src_modules_def)
qed

text \<open>C15: A module that create-module.py reports as created is found by the build. One in src is in the list of
  src/wscript, unless its name is CVS, and one in contrib or a project of contrib is found by contrib/wscript
  under its name, unless a directory on the way ends in CVS or holds a wscript itself. These are the two places where
  create-module.py puts a module, with the characters that it allows in its name and those of the project.\<close>

theorem module_found:
  assumes "make_module denied base modpath n s = ((True, notices), s')" "allowed_name n"
    and "modpath = [''src''] \<or> modpath = ''contrib'' # project \<and> list_all (\<lambda>m. allowed_name m \<and> \<not> endswith m ''CVS'') (project @ [n])
      \<and> (\<forall>k \<le> length project. 0 < k \<longrightarrow> \<not> present (''contrib'' # take k project @ [''wscript'']) s')"
  shows "if modpath = [''src''] then n \<in> set (src_modules (entries_in ''src'' s')) \<longleftrightarrow> n \<noteq> ''CVS''
    else join ''/'' (project @ [n]) \<in> set (find_contrib_modules (entries_in ''contrib'' s'))
      \<and> contrib_name (join ''/'' (project @ [n])) = ''ns3-'' @ n"
proof (cases "modpath = [''src'']")
  case True
  then show ?thesis using found_in_src [OF _ assms(2)] assms(1) by simp
next
  case False
  then show ?thesis using found_in_contrib [of denied base project n s notices s'] assms(1,3) by simp
qed

theorem module_found_witness:
  "''x-y'' \<in> set (find_contrib_modules (entries_in ''contrib'' (snd (make_module (\<lambda>p. False) ''/ns'' [''contrib''] ''x-y'' demo_repo))))
   \<and> ''x-y'' \<in> set (src_modules (entries_in ''src'' (snd (make_module (\<lambda>p. False) ''/ns'' [''src''] ''x-y'' demo_repo))))"
proof -
  obtain ok notices s' where m: "make_module (\<lambda>p. False) ''/ns'' [''contrib''] ''x-y'' demo_repo = ((ok, notices), s')"
    by (metis surj_pair)
  obtain ok2 notices2 s2 where m2: "make_module (\<lambda>p. False) ''/ns'' [''src''] ''x-y'' demo_repo = ((ok2, notices2), s2)"
    by (metis surj_pair)
  have d: "CHR ''.'' \<notin> set ''x-y''" "allowed_name ''x-y''" "\<not> endswith ''x-y'' ''CVS''" "''x-y'' \<noteq> ''CVS''"
    "locate [''contrib'', ''x-y''] demo_repo = Inl FileNotFoundError" "locate [''src'', ''x-y''] demo_repo = Inl FileNotFoundError"
    by code_simp+
  have ok: ok ok2 using make_module_outcome [OF m d(1)] make_module_outcome [OF m2 d(1)] d(5,6) by auto
  have "''x-y'' \<in> set (find_contrib_modules (entries_in ''contrib'' s'))"
    using module_found [OF _ d(2), of "\<lambda>p. False" "''/ns''" "[''contrib'']" demo_repo notices s' "[]"] m ok(1) d(2,3) by simp
  moreover have "''x-y'' \<in> set (src_modules (entries_in ''src'' s2))"
    using module_found [OF _ d(2), of "\<lambda>p. False" "''/ns''" "[''src'']" demo_repo notices2 s2 "[]"] m2 ok(2) d(4) by simp
  ultimately show ?thesis using m m2 by simp
qed

subsection \<open>All modules\<close>

text \<open>create-module.py exits with 0, 1 or 2. With 0 its arguments were valid, which says nothing about the modules:
  a module that is there already or cannot be created ends the run with status 0 too. With 1 or 2 nothing has been
  created, nor changed.\<close>

theorem scaffold_exit:
  "case scaffold_main denied base project modnames s of (r, notices, s') \<Rightarrow>
     scaffold_status r \<in> {0, 1, 2} \<and> (if scaffold_status r = 0 then is_dir [''src''] s \<and> is_dir [''contrib''] s else s' = s)"
proof -
  have sys: "module_step pp arg = Inl (SystemExit k) \<Longrightarrow> k = 2" for pp arg k
    by (auto simp: module_step_def Let_def split: if_splits)
  have loop: "name_loop pp args ms notices = (Inl e, skipped) \<Longrightarrow> scaffold_status (Inl e) \<in> {1, 2}" for pp args ms notices e skipped
  proof (induction pp args ms notices rule: name_loop.induct)
    case (2 pp arg args ms notices)
    then show ?case using sys [of pp arg] by (cases e) (auto simp: scaffold_status_def split: sum.splits prod.splits)
  qed simp
  have proj: "project_parts project = Inl e \<Longrightarrow> scaffold_status (Inl e) \<in> {1, 2}" for e
    by (auto simp: project_parts_def scaffold_status_def bindR_def split: if_splits)
  show ?thesis
  proof (cases "is_dir [''src''] s \<and> is_dir [''contrib''] s")
    case False
    then show ?thesis by (auto simp: scaffold_main_def scaffold_status_def)
  next
    case True
    show ?thesis
    proof (cases "project_parts project")
      case (Inl e)
      then show ?thesis using True proj [OF Inl] by (auto simp: scaffold_main_def)
    next
      case (Inr pp)
      obtain r skipped where n: "name_loop pp modnames [] [] = (r, skipped)" by (metis surj_pair)
      obtain ok notices s' where m: "\<And>ms. r = Inr ms \<Longrightarrow> make_modules denied base ms s = ((ok, notices), s')"
        by (cases r) (auto, metis surj_pair)
      show ?thesis
      proof (cases r)
        case (Inl e)
        then show ?thesis using True Inr n loop [of pp modnames "[]" "[]" e skipped] by (auto simp: scaffold_main_def)
      next
        case (Inr ms)
        then show ?thesis using True \<open>project_parts project = Inr pp\<close> n m by (auto simp: scaffold_main_def scaffold_status_def)
      qed
    qed
  qed
qed

end
