(* ===== verification/CommandTask.thy ===== *)
theory CommandTask
  imports ShellCmd
begin

text \<open>
  waf-tools/command.py: a build task that runs a command of \<open>ShellCmd\<close> after the substitution of
  \<open>${VARIABLE}\<close> and \<open>$$\<close> in its words, its redirections, its environment and its directories. What the text of a
  variable evaluates to is a parameter.
\<close>

subsection \<open>Substitution\<close>

text \<open>After \<open>${\<close>: the variable, the code behind it and the rest of the text.\<close>

definition match_subst :: "string \<Rightarrow> (string \<times> string \<times> string) option" where
  "match_subst s = (let var = takeWhile re_word s in
     if var = [] then None
     else (case split_once CHR ''}'' (dropWhile re_word s) of None \<Rightarrow> None
       | Some (code, rest) \<Rightarrow> if char_of (10 :: nat) \<in> set code then None else Some (var, code, rest)))"

lemma match_subst_shorter: "match_subst (tl s) = Some (var, code, rest) \<Longrightarrow> length rest < length s"
proof -
  assume "match_subst (tl s) = Some (var, code, rest)"
  then have "dropWhile re_word (tl s) = code @ CHR ''}'' # rest"
    by (auto simp: match_subst_def Let_def split_once_Some split: if_splits option.splits)
  then have "length (dropWhile re_word (tl s)) = length code + Suc (length rest)" by simp
  then show ?thesis using length_dropWhile_le [of re_word "tl s"] by (cases s) auto
qed

text \<open>A value: a node with its source path and its absolute path in the build, the list of the inputs or of the
  outputs of the task itself, another list, a text, nothing, or something else.\<close>

datatype subst_value = SNode string string | SInputs | SOutputs | SList "string list" | SText string | SNone | SOther

record task_nodes =
  tn_inputs :: "string list"
  tn_outputs :: "string list"

text \<open>\<open>None\<close> in the result: a value that is no text, for which the regular expression raises at the end.\<close>

fun subst_repl :: "task_nodes \<Rightarrow> string \<Rightarrow> subst_value \<Rightarrow> string option result" where
  "subst_repl t var (SNode src bld) = (if var = ''TGT'' then Inr (Some bld) else if var = ''SRC'' then Inr (Some src) else Inl ValueError)"
| "subst_repl t var SInputs = (case tn_inputs t of [p] \<Rightarrow> Inr (Some p) | _ \<Rightarrow> Inl ValueError)"
| "subst_repl t var SOutputs = (case tn_outputs t of [p] \<Rightarrow> Inr (Some p) | _ \<Rightarrow> Inl ValueError)"
| "subst_repl t var (SList xs) = (case xs of [x] \<Rightarrow> Inr (Some x) | _ \<Rightarrow> Inl AssertionError)"
| "subst_repl t var (SText s) = Inr (Some s)"
| "subst_repl t var SNone = Inr (Some [])"
| "subst_repl t var SOther = Inr None"

function subst_parts :: "(string \<Rightarrow> subst_value result) \<Rightarrow> task_nodes \<Rightarrow> string \<Rightarrow> string option list result" where
  "subst_parts evals t [] = Inr []"
| "subst_parts evals t (c # s) =
     (if startswith (c # s) ''$$'' then bindR (subst_parts evals t (tl s)) (\<lambda>ps. Inr (Some ''$'' # ps))
      else (case (if startswith (c # s) ''${'' then match_subst (tl s) else None) of
          None \<Rightarrow> bindR (subst_parts evals t s) (\<lambda>ps. Inr (Some [c] # ps))
        | Some (var, code, rest) \<Rightarrow> bindR (bindR (evals (var @ code)) (subst_repl t var))
            (\<lambda>p. bindR (subst_parts evals t rest) (\<lambda>ps. Inr (p # ps)))))"
  by pat_completeness auto
termination
  by (relation "measure (\<lambda>(evals, t, s). length s)") (auto simp: less_Suc_eq dest: match_subst_shorter split: if_splits)

definition subst_arg :: "(string \<Rightarrow> subst_value result) \<Rightarrow> task_nodes \<Rightarrow> string \<Rightarrow> string result" where
  "subst_arg evals t arg = bindR (subst_parts evals t arg) (\<lambda>ps. if None \<in> set ps then Inl TypeError else Inr (concat (map the ps)))"

subsection \<open>The task\<close>

fun subst_redirect :: "(string \<Rightarrow> string result) \<Rightarrow> redirect option \<Rightarrow> redirect option result" where
  "subst_redirect f (Some (File n)) = bindR (f n) (\<lambda>n. Inr (Some (File n)))"
| "subst_redirect f r = Inr r"

definition subst_command :: "(string \<Rightarrow> string result) \<Rightarrow> command \<Rightarrow> command result" where
  "subst_command f c =
     bindR (case c_stdin c of None \<Rightarrow> Inr None | Some n \<Rightarrow> bindR (f n) (\<lambda>n. Inr (Some n))) (\<lambda>stdin.
     bindR (subst_redirect f (c_stdout c)) (\<lambda>stdout.
     bindR (subst_redirect f (c_stderr c)) (\<lambda>stderr.
     bindR (mapR f (c_argv c)) (\<lambda>argv.
     bindR (mapR (\<lambda>(k, v). bindR (f v) (\<lambda>v. Inr (k, v))) (c_env_vars c)) (\<lambda>env_vars.
       Inr (c\<lparr>c_stdin := stdin, c_stdout := stdout, c_stderr := stderr, c_argv := argv, c_env_vars := env_vars\<rparr>))))))"

fun subst_node :: "(string \<Rightarrow> string result) \<Rightarrow> node \<Rightarrow> node result" where
  "subst_node f (Command c) = bindR (subst_command f c) (\<lambda>c. Inr (Command c))"
| "subst_node f (Chdir None) = Inl TypeError"
| "subst_node f (Chdir (Some d)) = bindR (f d) (\<lambda>d. Inr (Chdir (Some d)))"
| "subst_node f n = Inr n"

text \<open>\<open>tokens\<close>: the command as a list of words; a text is split first, as \<open>parse_text\<close> does.\<close>

definition command_run :: "(string \<Rightarrow> subst_value result) \<Rightarrow> task_nodes \<Rightarrow> (nat \<Rightarrow> spawn \<Rightarrow> int) \<Rightarrow> bool \<Rightarrow> string list \<Rightarrow>
    spawn list \<times> outline list \<times> int option result" where
  "command_run evals t status verbose tokens =
     (case bindR (parse tokens) (mapR (subst_node (subst_arg evals t))) of
        Inl e \<Rightarrow> ([], [], Inl e)
      | Inr pipeline \<Rightarrow> run_pipeline status verbose pipeline)"

text \<open>The text that waf shows for the task; \<open>srcs\<close> and \<open>tgts\<close> are the paths of its nodes.\<close>

definition command_str :: "string list \<Rightarrow> string list \<Rightarrow> string list \<Rightarrow> string result" where
  "command_str srcs tgts tokens = bindR (parse tokens) (\<lambda>pipeline. Inr (''command ('' @ get_abbreviated_command pipeline @ ''): ''
     @ join '' '' srcs @ (if tgts \<noteq> [] then '' -> '' else '''') @ join '' '' tgts))"

subsection \<open>Escaping\<close>

definition escape :: "string \<Rightarrow> string" where
  "escape s = concat (map (\<lambda>c. if c = CHR ''$'' then ''$$'' else [c]) s)"

lemma starts_two: "startswith (c # s) [a, b] \<longleftrightarrow> c = a \<and> (\<exists>r. s = b # r)"
  by (cases s) (auto simp: startswith_def)

lemma escape_parts: "subst_parts evals t (escape s) = Inr (map (\<lambda>c. Some [c]) s)"
  by (induction s) (auto simp: escape_def starts_two)

lemma subst_escape: "subst_arg evals t (escape s) = Inr s"
proof -
  have "concat (map (the \<circ> (\<lambda>c. Some [c])) s) = s" by (induction s) auto
  then show ?thesis by (auto simp: subst_arg_def escape_parts comp_def)
qed

lemma subst_plain: "CHR ''$'' \<notin> set s \<Longrightarrow> subst_arg evals t s = Inr s"
proof -
  assume "CHR ''$'' \<notin> set s"
  then have "escape s = s" by (induction s) (auto simp: escape_def)
  then show ?thesis using subst_escape [of evals t s] by simp
qed

text \<open>A variable that stands alone gives its value, whatever characters that has.\<close>

lemma subst_variable:
  assumes "list_all re_word v" "v \<noteq> []" "evals v = Inr (SText w)"
  shows "subst_arg evals t (''${'' @ v @ ''}'') = Inr w"
proof -
  have nb: "\<not> re_word CHR ''}''" by code_simp
  have "takeWhile re_word (v @ ''}'') = v" "dropWhile re_word (v @ ''}'') = ''}''"
    using assms(1) nb by (simp_all add: takeWhile_append dropWhile_append list_all_iff)
  then have "match_subst (v @ ''}'') = Some (v, [], [])" using assms(2) by (simp add: match_subst_def Let_def)
  then show ?thesis using assms(3) by (simp add: subst_arg_def starts_two)
qed

subsection \<open>Substitution and execution\<close>

text \<open>The same change made on the words of a node and on a process.\<close>

definition map_redirect :: "(string \<Rightarrow> string) \<Rightarrow> redirect option \<Rightarrow> redirect option" where
  "map_redirect g r = (case r of Some (File n) \<Rightarrow> Some (File (g n)) | _ \<Rightarrow> r)"

definition map_command :: "(string \<Rightarrow> string) \<Rightarrow> command \<Rightarrow> command" where
  "map_command g c = c\<lparr>c_stdin := map_option g (c_stdin c), c_stdout := map_redirect g (c_stdout c), c_stderr := map_redirect g (c_stderr c),
     c_argv := map g (c_argv c), c_env_vars := map (\<lambda>(k, v). (k, g v)) (c_env_vars c)\<rparr>"

fun map_words :: "(string \<Rightarrow> string) \<Rightarrow> node \<Rightarrow> node" where
  "map_words g (Command c) = Command (map_command g c)"
| "map_words g (Chdir d) = Chdir (map_option g d)"
| "map_words g n = n"

definition map_spawn :: "(string \<Rightarrow> string) \<Rightarrow> string option \<Rightarrow> spawn \<Rightarrow> spawn" where
  "map_spawn g cwd sp = sp\<lparr>sp_argv := map g (sp_argv sp),
     sp_stdin := (case sp_stdin sp of FromFile f \<Rightarrow> FromFile (g f) | i \<Rightarrow> i),
     sp_stdout := map_redirect g (sp_stdout sp), sp_stderr := map_redirect g (sp_stderr sp),
     sp_env := map (\<lambda>(k, v). (k, g v)) (sp_env sp), sp_cwd := cwd\<rparr>"

text \<open>The directories that the command changes to before its \<open>n\<close>-th process, and where that leads.\<close>

fun dirs_before :: "node list \<Rightarrow> nat \<Rightarrow> string list" where
  "dirs_before [] n = []"
| "dirs_before (Command c # ns) 0 = []"
| "dirs_before (Command c # ns) (Suc n) = dirs_before ns n"
| "dirs_before (Chdir (Some d) # ns) n = d # dirs_before ns n"
| "dirs_before (_ # ns) n = dirs_before ns n"

definition walk :: "string list \<Rightarrow> string \<Rightarrow> string" where
  "walk ds cwd = fold (\<lambda>d cwd. path_join cwd d) ds cwd"

definition start_dir :: "string \<Rightarrow> string option" where
  "start_dir cwd = (if cwd = ''.'' then None else Some cwd)"

lemma start_map: "start (map_command g c) piped cwd = map_spawn g (start_dir cwd) (start c piped cwd')"
  by (simp add: start_def map_command_def map_spawn_def start_dir_def split: option.splits)

text \<open>The processes of a run one by one, by their position.\<close>

definition each :: "(nat \<Rightarrow> 'a \<Rightarrow> 'b) \<Rightarrow> nat \<Rightarrow> 'a list \<Rightarrow> 'b list" where
  "each h k xs = map (\<lambda>(n, x). h n x) (enumerate k xs)"

lemma each_append: "each h k (xs @ ys) = each h k xs @ each h (k + length xs) ys"
  by (simp add: each_def enumerate_append_eq)

lemma each_simps [simp]: "each h k [] = []" "each h k (x # xs) = h k x # each h (Suc k) xs" "length (each h k xs) = length xs"
  by (simp_all add: each_def)

lemma nth_each: "i < length xs \<Longrightarrow> each h k xs ! i = h (k + i) (xs ! i)"
  by (simp add: each_def nth_enumerate_eq)

definition map_state :: "(nat \<Rightarrow> spawn \<Rightarrow> spawn) \<Rightarrow> string \<Rightarrow> string list \<Rightarrow> run_state \<Rightarrow> run_state" where
  "map_state h cwd shown s = s\<lparr>r_started := each h 0 (r_started s), r_group := each h (length (r_started s)) (r_group s),
     r_cwd := cwd, r_display := shown\<rparr>"

lemma statuses_map: "statuses status (map_state h cwd shown s) = statuses (\<lambda>n sp. status n (h n sp)) s"
  by (simp add: statuses_def map_state_def nth_each)

lemma next_group_map: "next_group (map_state h cwd shown s) = map_state h cwd [] (next_group s)"
  by (simp add: next_group_def map_state_def each_append)

lemma map_state_fields [simp]:
  "r_piped (map_state h cwd shown s) = r_piped s" "r_cwd (map_state h cwd shown s) = cwd" "r_display (map_state h cwd shown s) = shown"
  "r_started (map_state h cwd shown s) = each h 0 (r_started s)" "r_group (map_state h cwd shown s) = each h (length (r_started s)) (r_group s)"
  by (simp_all add: map_state_def)

text \<open>What a run starts and returns, without the lines that it prints.\<close>

definition outcome :: "spawn list \<times> outline list \<times> int option result \<Rightarrow> spawn list \<times> int option result" where
  "outcome r = (fst r, snd (snd r))"

definition same_outcome :: "(nat \<Rightarrow> spawn \<Rightarrow> spawn) \<Rightarrow> spawn list \<times> outline list \<times> int option result \<Rightarrow>
    spawn list \<times> outline list \<times> int option result \<Rightarrow> bool" where
  "same_outcome h r r' \<longleftrightarrow> fst r' = each h 0 (fst r) \<and> snd (snd r') = snd (snd r)"

lemma same_outcome_all [simp]:
  "same_outcome h (r_started s @ r_group s, out, r) (each h 0 (r_started s) @ each h (length (r_started s)) (r_group s), out', r)"
  by (simp add: same_outcome_def each_append)

text \<open>\<open>h\<close> is right for the commands of \<open>ns\<close> when \<open>k\<close> processes have been started before them.\<close>

definition right_for :: "(nat \<Rightarrow> spawn \<Rightarrow> spawn) \<Rightarrow> (string \<Rightarrow> string) \<Rightarrow> string \<Rightarrow> node list \<Rightarrow> nat \<Rightarrow> bool" where
  "right_for h g cwd ns k \<longleftrightarrow> (\<forall>i sp. h (k + i) sp = map_spawn g (start_dir (walk (map g (dirs_before ns i)) cwd)) sp)"

lemma right_for_first: "right_for h g cwd (Command c # ns) k \<Longrightarrow> h k (start c piped cwd') = start (map_command g c) piped cwd"
  using start_map [of g c piped cwd cwd'] by (auto simp: right_for_def walk_def dest: spec [of _ 0])

lemma right_for_rest: "right_for h g cwd (Command c # ns) k \<Longrightarrow> right_for h g cwd ns (Suc k)"
proof -
  assume r: "right_for h g cwd (Command c # ns) k"
  show ?thesis unfolding right_for_def
  proof (intro allI)
    fix i sp
    show "h (Suc k + i) sp = map_spawn g (start_dir (walk (map g (dirs_before ns i)) cwd)) sp"
      using r [unfolded right_for_def, rule_format, of "Suc i" sp] by simp
  qed
qed

lemma right_for_cd: "right_for h g cwd (Chdir (Some d) # ns) k \<Longrightarrow> right_for h g (path_join cwd (g d)) ns k"
  by (simp add: right_for_def walk_def)

lemma right_for_op: "op = Pipe \<or> op = And \<or> op = Or \<Longrightarrow> right_for h g cwd (op # ns) k \<Longrightarrow> right_for h g cwd ns k"
  by (auto simp: right_for_def)

lemma right_for_no_dir: "right_for h g cwd (Chdir None # ns) k \<Longrightarrow> right_for h g cwd ns k"
  by (simp add: right_for_def)

text \<open>A run goes on from the state after a command was started.\<close>

definition after_start :: "bool \<Rightarrow> command \<Rightarrow> run_state \<Rightarrow> run_state" where
  "after_start verbose c s = s\<lparr>r_group := r_group s @ [start c (r_piped s) (r_cwd s)],
     r_display := (if verbose then r_display s @ command_display c (r_piped s) else r_display s)\<rparr>"

lemma run_last: "\<exists>out. run status verbose [Command c] s = (r_started s @ r_group (after_start verbose c s), out,
    Inr (Some (exec_piped_commands (statuses status (after_start verbose c s)))))"
  by (simp add: after_start_def Let_def)

lemma run_pipe_next: "run status verbose (Command c # Pipe # rest) s = run status verbose rest
    ((after_start verbose c s)\<lparr>r_piped := True, r_display := r_display (after_start verbose c s) @ [''|'']\<rparr>)"
  by (simp add: after_start_def Let_def)

lemma run_op_next:
  assumes "op = And \<or> op = Or" "s1 = after_start verbose c s" "v = exec_piped_commands (statuses status s1)"
  shows "run status verbose (Command c # op # rest) s =
    (if verbose then (r_started s1 @ r_group s1, [], Inl UnboundLocalError)
     else if (op = Or) = (v = 0) then (r_started s1 @ r_group s1, [], Inr (Some v))
     else run status verbose rest (next_group s1))"
  using assms(1) unfolding assms(2,3) by (auto simp: after_start_def Let_def)

lemma run_cd_next: "run status verbose (Chdir (Some d) # And # rest) s = run status verbose rest (s\<lparr>r_cwd := path_join (r_cwd s) d,
    r_display := (if verbose then r_display s @ [''cd '' @ d @ '' &&''] else r_display s)\<rparr>)"
  by simp

lemma after_start_map:
  assumes "right_for h g cwd (Command c # ns) (length (r_started s) + length (r_group s))"
  shows "\<exists>shown'. after_start verbose (map_command g c) (map_state h cwd shown s) = map_state h cwd shown' (after_start verbose c s)"
proof (intro exI run_state.equality)
  show "r_display (after_start verbose (map_command g c) (map_state h cwd shown s)) = r_display (map_state h cwd
      (if verbose then shown @ command_display (map_command g c) (r_piped s) else shown) (after_start verbose c s))"
    by (simp add: after_start_def)
qed (use right_for_first [OF assms, of "r_piped s" "r_cwd s"] in \<open>simp_all add: after_start_def map_state_def each_append\<close>)

lemma after_start_count: "length (r_started (after_start verbose c s)) + length (r_group (after_start verbose c s)) = Suc (length (r_started s) + length (r_group s))"
  by (simp add: after_start_def)

lemma next_group_count: "length (r_started (next_group s)) + length (r_group (next_group s)) = length (r_started s) + length (r_group s)"
  by (simp add: next_group_def)

lemma next_group_shown: "map_state h cwd [] (next_group s) = next_group (map_state h cwd shown s)"
  by (simp add: next_group_map)

lemma piped_map: "(map_state h cwd shown s)\<lparr>r_piped := True, r_display := d\<rparr> = map_state h cwd d (s\<lparr>r_piped := True, r_display := d'\<rparr>)"
  by (simp add: map_state_def)

lemma run_map:
  "wf_pipeline ns \<Longrightarrow> right_for h g cwd ns (length (r_started s) + length (r_group s)) \<Longrightarrow>
   same_outcome h (run (\<lambda>n sp. status n (h n sp)) verbose ns s) (run status verbose (map (map_words g) ns) (map_state h cwd shown s))"
proof (induction ns arbitrary: s cwd shown rule: wf_pipeline.induct)
  case (wf_last c)
  obtain shown' where a: "after_start verbose (map_command g c) (map_state h cwd shown s) = map_state h cwd shown' (after_start verbose c s)"
    using after_start_map [OF wf_last(2)] by blast
  obtain out where o: "run (\<lambda>n sp. status n (h n sp)) verbose [Command c] s = (r_started s @ r_group (after_start verbose c s), out,
      Inr (Some (exec_piped_commands (statuses (\<lambda>n sp. status n (h n sp)) (after_start verbose c s)))))" using run_last by blast
  obtain out' where o': "run status verbose [Command (map_command g c)] (map_state h cwd shown s) = (r_started (map_state h cwd shown s)
      @ r_group (map_state h cwd shown' (after_start verbose c s)), out',
      Inr (Some (exec_piped_commands (statuses status (map_state h cwd shown' (after_start verbose c s))))))" unfolding a [symmetric] using run_last by blast
  have "r_started (after_start verbose c s) = r_started s" by (simp add: after_start_def)
  then show ?case by (simp add: o o' same_outcome_def statuses_map each_append del: run.simps)
next
  case (wf_cd_last d)
  then show ?case by simp
next
  case (wf_pipe c rest)
  let ?s1 = "after_start verbose c s"
  obtain shown' where a: "after_start verbose (map_command g c) (map_state h cwd shown s) = map_state h cwd shown' ?s1"
    using after_start_map [OF wf_pipe(4)] by blast
  have r: "right_for h g cwd rest (Suc (length (r_started s) + length (r_group s)))"
    by (rule right_for_op [of Pipe, OF _ right_for_rest [OF wf_pipe(4)]]) simp
  have "run status verbose (map (map_words g) (Command c # Pipe # rest)) (map_state h cwd shown s)
      = run status verbose (map (map_words g) rest) (map_state h cwd (shown' @ [''|'']) (?s1\<lparr>r_piped := True, r_display := r_display ?s1 @ [''|'']\<rparr>))"
    by (simp only: list.map map_words.simps run_pipe_next a map_state_fields piped_map [where s = ?s1 and d' = "r_display ?s1 @ [''|'']"])
  moreover have "same_outcome h (run (\<lambda>n sp. status n (h n sp)) verbose rest (?s1\<lparr>r_piped := True, r_display := r_display ?s1 @ [''|'']\<rparr>))
      (run status verbose (map (map_words g) rest) (map_state h cwd (shown' @ [''|'']) (?s1\<lparr>r_piped := True, r_display := r_display ?s1 @ [''|'']\<rparr>)))"
    by (rule wf_pipe.IH) (use r after_start_count [of verbose c s] in simp)
  ultimately show ?case by (simp only: run_pipe_next)
next
  case (wf_op c op rest)
  let ?s1 = "after_start verbose c s"
  obtain shown' where a: "after_start verbose (map_command g c) (map_state h cwd shown s) = map_state h cwd shown' ?s1"
    using after_start_map [OF wf_op(5)] by blast
  have r: "right_for h g cwd rest (Suc (length (r_started s) + length (r_group s)))"
    by (rule right_for_op [of op, OF _ right_for_rest [OF wf_op(5)]]) (use wf_op(2) in blast)
  have ih: "same_outcome h (run (\<lambda>n sp. status n (h n sp)) verbose rest (next_group ?s1))
      (run status verbose (map (map_words g) rest) (map_state h cwd [] (next_group ?s1)))"
    by (rule wf_op.IH) (use r after_start_count [of verbose c s] next_group_count [of ?s1] in simp)
  have op: "map_words g op = op" using wf_op(2) by auto
  show ?case
    using ih unfolding list.map map_words.simps op run_op_next [OF wf_op(2) refl refl] a statuses_map next_group_map
    by (cases verbose) simp_all
next
  case (wf_cd rest d)
  show ?case
  proof (cases d)
    case None
    then show ?thesis by simp
  next
    case (Some dir)
    have r: "right_for h g (path_join cwd (g dir)) rest (length (r_started s) + length (r_group s))"
      using right_for_op [of And, OF _ right_for_cd] wf_cd(3) Some by blast
    define s2 where "s2 = s\<lparr>r_cwd := path_join (r_cwd s) dir, r_display := (if verbose then r_display s @ [''cd '' @ dir @ '' &&''] else r_display s)\<rparr>"
    define shown2 where "shown2 = (if verbose then shown @ [''cd '' @ g dir @ '' &&''] else shown)"
    have m: "(map_state h cwd shown s)\<lparr>r_cwd := path_join cwd (g dir), r_display := shown2\<rparr> = map_state h (path_join cwd (g dir)) shown2 s2"
      by (simp add: map_state_def s2_def)
    have "same_outcome h (run (\<lambda>n sp. status n (h n sp)) verbose rest s2)
        (run status verbose (map (map_words g) rest) (map_state h (path_join cwd (g dir)) shown2 s2))"
      by (rule wf_cd.IH) (use r in \<open>simp add: s2_def\<close>)
    then show ?thesis
      by (simp only: Some list.map map_words.simps option.map run_cd_next map_state_fields m [unfolded shown2_def] s2_def [symmetric] shown2_def)
  qed
qed

subsection \<open>The task runs what the command says\<close>

lemma mapR_map: "mapR f xs = Inr ys \<Longrightarrow> (\<And>x y. f x = Inr y \<Longrightarrow> y = g x) \<Longrightarrow> ys = map g xs"
proof (induction xs arbitrary: ys)
  case (Cons x xs)
  then obtain z zs where "ys = z # zs" "f x = Inr z" "mapR f xs = Inr zs" by (auto simp: mapR_Cons bindR_eq_Inr)
  then show ?case using Cons by auto
qed simp

definition value_of :: "(string \<Rightarrow> string result) \<Rightarrow> string \<Rightarrow> string" where
  "value_of f w = (case f w of Inr v \<Rightarrow> v | Inl e \<Rightarrow> [])"

lemma subst_redirect_value: "subst_redirect f r = Inr r' \<Longrightarrow> r' = map_redirect (value_of f) r"
  by (induction f r rule: subst_redirect.induct) (auto simp: map_redirect_def value_of_def bindR_eq_Inr)

lemma subst_command_value:
  assumes "subst_command f c = Inr c'"
  shows "c' = map_command (value_of f) c"
proof -
  obtain i out err argv env_vars where
    i: "(case c_stdin c of None \<Rightarrow> Inr None | Some n \<Rightarrow> bindR (f n) (\<lambda>n. Inr (Some n))) = Inr i"
    and out: "subst_redirect f (c_stdout c) = Inr out" and err: "subst_redirect f (c_stderr c) = Inr err"
    and argv: "mapR f (c_argv c) = Inr argv" and env: "mapR (\<lambda>(k, v). bindR (f v) (\<lambda>v. Inr (k, v))) (c_env_vars c) = Inr env_vars"
    and c': "c' = c\<lparr>c_stdin := i, c_stdout := out, c_stderr := err, c_argv := argv, c_env_vars := env_vars\<rparr>"
    using assms by (auto simp: subst_command_def bindR_eq_Inr)
  have "i = map_option (value_of f) (c_stdin c)" using i by (auto simp: value_of_def bindR_eq_Inr split: option.splits)
  moreover have "env_vars = map (\<lambda>(k, v). (k, value_of f v)) (c_env_vars c)"
    by (rule mapR_map [OF env]) (auto simp: value_of_def bindR_eq_Inr)
  ultimately show ?thesis
    using mapR_map [OF argv, of "value_of f"] subst_redirect_value [OF out] subst_redirect_value [OF err] c' by (simp add: map_command_def value_of_def)
qed

lemma subst_node_value: "subst_node f n = Inr n' \<Longrightarrow> n' = map_words (value_of f) n"
  by (induction f n rule: subst_node.induct) (auto simp: bindR_eq_Inr value_of_def dest: subst_command_value)

lemma mapR_node: "mapR (subst_node f) ns = Inr ns' \<Longrightarrow> ns' = map (map_words (value_of f)) ns"
  by (erule mapR_map) (rule subst_node_value)

text \<open>C24: When the words of a command can be substituted, the task starts the processes that the command itself says,
  one for one, with or without \<open>verbose\<close>, and returns or raises what it does: the arguments, files, variables of the
  \<open>n\<close>-th process are replaced by their values, its directory is the one that the values of the directories before
  it lead to, every word stays one word, whatever its value contains, and no value becomes an operator, a redirection or
  another command. (The lines that \<open>verbose\<close> prints are not compared.)\<close>

theorem substituted_command:
  assumes "parse tokens = Inr ns" "mapR (subst_node (subst_arg evals t)) ns = Inr ns'" "g = value_of (subst_arg evals t)"
    and "h = (\<lambda>n. map_spawn g (start_dir (walk (map g (dirs_before ns n)) ''.'')))"
    and "run_pipeline (\<lambda>n sp. status n (h n sp)) verbose ns = (sps, out, r)"
  shows "\<exists>out'. command_run evals t status verbose tokens = (map (\<lambda>(n, sp). h n sp) (enumerate 0 sps), out', r)"
proof -
  have "map_state h ''.'' [] run_init = run_init" by (simp add: run_init_def map_state_def)
  moreover have "right_for h g ''.'' ns (length (r_started run_init) + length (r_group run_init))"
    by (simp add: right_for_def assms(4) run_init_def)
  ultimately have "same_outcome h (sps, out, r) (run status verbose (map (map_words g) ns) run_init)"
    using run_map [OF parse_Inr_wf [OF assms(1)], of h g "''.''" run_init status verbose "[]"] assms(5) by (simp add: run_pipeline_def)
  then show ?thesis using mapR_node [OF assms(2)] assms(1,2,3)
    by (cases "run status verbose (map (map_words g) ns) run_init")
      (simp add: command_run_def run_pipeline_def same_outcome_def each_def)
qed

definition demo_evals :: "string \<Rightarrow> subst_value result" where
  "demo_evals v = (if v = ''MSG'' then Inr (SText ''a && rm b'') else if v = ''TGT[0]'' then Inr (SNode ''out.txt'' ''/ns/build/out.txt'')
     else Inl GenericError)"

definition demo_task :: task_nodes where
  "demo_task = \<lparr>tn_inputs = [], tn_outputs = [''/ns/build/out.txt'']\<rparr>"

theorem substituted_command_witness:
  "case command_run demo_evals demo_task (\<lambda>n sp. 0) False [''cd'', ''${MSG}'', ''&&'', ''echo'', ''${MSG}'', ''|'', ''sort'', ''>'', ''${TGT[0]}''] of
     (sps, out, r) \<Rightarrow> map sp_argv sps = [[''echo'', ''a && rm b''], [''sort'']] \<and> map sp_cwd sps = [Some ''./a && rm b'', Some ''./a && rm b'']
       \<and> map sp_stdout sps = [Some PIPE, Some (File ''/ns/build/out.txt'')] \<and> r = Inr (Some 0)"
proof -
  define f where "f = subst_arg demo_evals demo_task"
  have f: "f ''echo'' = Inr ''echo''" "f ''sort'' = Inr ''sort''" "f ''${MSG}'' = Inr ''a && rm b''" "f ''${TGT[0]}'' = Inr ''/ns/build/out.txt''"
    unfolding f_def by code_simp+
  define c1 where "c1 = (new_command ''echo'' [])\<lparr>c_argv := [''echo'', ''${MSG}''], c_stdout := Some PIPE\<rparr>"
  define c2 where "c2 = (new_command ''sort'' [])\<lparr>c_stdout := Some (File ''${TGT[0]}'')\<rparr>"
  define ns where "ns = [Chdir (Some ''${MSG}''), And, Command c1, Pipe, Command c2]"
  have p: "parse [''cd'', ''${MSG}'', ''&&'', ''echo'', ''${MSG}'', ''|'', ''sort'', ''>'', ''${TGT[0]}''] = Inr ns"
    unfolding ns_def c1_def c2_def by code_simp
  have m: "mapR (subst_node f) ns = Inr (map (map_words (value_of f)) ns)"
    by (simp add: ns_def mapR_Cons subst_command_def c1_def c2_def new_command_def f value_of_def map_command_def map_redirect_def)
  have r: "run_pipeline (\<lambda>n sp. 0) False ns = ([start c1 False ''./${MSG}'', start c2 True ''./${MSG}''], [], Inr (Some 0))"
    by (simp add: ns_def run_pipeline_def run_init_def Let_def exec_piped_commands_def statuses_def upt_rec path_join_def startswith_def endswith_def)
  have w: "path_join ''.'' ''a && rm b'' = ''./a && rm b''" by code_simp
  show ?thesis using substituted_command [OF p m [unfolded f_def] refl refl, of "\<lambda>n sp. 0" False] r unfolding f_def [symmetric]
    by (auto simp: start_def map_spawn_def c1_def c2_def ns_def new_command_def f value_of_def map_redirect_def start_dir_def walk_def w)
qed

end
