(* ===== verification/VizLoop.thy ===== *)
theory VizLoop
  imports PyFloat
begin

text \<open>
  The two threads of src/visualizer/visualizer/core.py. The thread of the simulator waits for the event \<open>go\<close>, takes the
  lock, runs to the target time and leaves a callback that collects the samples (\<open>update_model\<close>). The main thread runs
  the event loop of GTK: a timer redraws the view (\<open>update_view_timeout\<close>), sets the next target and wakes the simulator;
  buttons start and stop the timer; closing the window ends the thread. While the timer's callback waits for the lock it
  runs the event loop itself, so other callbacks can come in between. The threads are interleaved at what they do with
  the lock, the event and the flags. Handlers that only read under the lock are left out, as are the lengths of the
  timers: a timer may fire at any moment.
\<close>

subsection \<open>The state\<close>

datatype viz_holder = View | Simulator

text \<open>The simulator thread is before the test of its loop, before \<open>go.wait()\<close>, before \<open>go.clear()\<close>, before the
  second test of \<open>quit\<close>, before it takes the lock, inside of it, or at its end.\<close>

datatype sim_point = AtLoop | AtWait | AtClear | AtCheck | AtLock | InRun | Ended

text \<open>The main thread handles events; or it redraws for a timer with the pause messages it took, under the lock and
  after it; or it is in \<open>_quit\<close> before \<open>go.set()\<close> and before the end of \<open>join()\<close>; or it left the event loop.\<close>

datatype view_point = Events | Drawing nat "string list" | Drawn nat "string list" | Quitting | Joining | Outside

text \<open>\<open>v_sources\<close>: the timers GLib has; \<open>v_waiting\<close>: those whose callback waits for the lock, the innermost first.
  The numbers of runs and of wake-ups are counted, and \<open>v_samples\<close> says for each sample of which run it is.\<close>

record viz =
  v_sources :: "nat list"
  v_next_source :: nat
  v_timer :: "nat option"
  v_waiting :: "nat list"
  v_view :: view_point
  v_playing :: bool
  v_sample_period :: pyfloat
  v_go :: bool
  v_quit :: bool
  v_lock :: "viz_holder option"
  v_sim :: sim_point
  v_now :: pyfloat
  v_target_time :: pyfloat
  v_pause_messages :: "string list"
  v_shown :: "pyfloat list"
  v_dialogs :: "string list list"
  v_pending :: nat
  v_runs :: nat
  v_wakes :: nat
  v_samples :: "nat list"

definition SAMPLE_PERIOD :: pyfloat where
  "SAMPLE_PERIOD = to_float (1 / 10)"

subsection \<open>The steps\<close>

definition start_update_timer :: "viz \<Rightarrow> viz" where
  "start_update_timer s = s\<lparr>v_sources := (case v_timer s of None \<Rightarrow> v_sources s | Some i \<Rightarrow> removeAll i (v_sources s)) @ [v_next_source s],
     v_timer := Some (v_next_source s), v_next_source := Suc (v_next_source s)\<rparr>"

definition remove_timer :: "viz \<Rightarrow> viz" where
  "remove_timer s = (case v_timer s of None \<Rightarrow> s | Some i \<Rightarrow> s\<lparr>v_sources := removeAll i (v_sources s)\<rparr>)"

definition on_play_button_toggled :: "viz \<Rightarrow> viz" where
  "on_play_button_toggled s = (if v_playing s then start_update_timer s else remove_timer s)"

definition speed_changed :: "pyfloat \<Rightarrow> viz \<Rightarrow> viz" where
  "speed_changed speed s = start_update_timer (s\<lparr>v_sample_period := fmul SAMPLE_PERIOD speed\<rparr>)"

text \<open>\<open>update_view_timeout\<close>: with the lock, after it, and what it returns.\<close>

definition take_messages :: "nat \<Rightarrow> viz \<Rightarrow> viz" where
  "take_messages i s = s\<lparr>v_lock := Some View, v_view := Drawing i (v_pause_messages s), v_pause_messages := []\<rparr>"

definition draw_view :: "nat \<Rightarrow> string list \<Rightarrow> viz \<Rightarrow> viz" where
  "draw_view i messages s = s\<lparr>v_shown := v_shown s @ [v_now s], v_target_time := fadd (v_now s) (v_sample_period s),
     v_lock := None, v_view := Drawn i messages\<rparr>"

definition show_messages :: "string list \<Rightarrow> viz \<Rightarrow> viz" where
  "show_messages messages s = (if messages = [] then s
     else (let s = s\<lparr>v_dialogs := v_dialogs s @ [messages]\<rparr> in
       if v_playing s then on_play_button_toggled (s\<lparr>v_playing := False\<rparr>) else s))"

definition end_timeout :: "nat \<Rightarrow> string list \<Rightarrow> viz \<Rightarrow> viz" where
  "end_timeout i messages s =
     (let s = (show_messages messages s)\<lparr>v_view := if v_quit s then Outside else Events\<rparr> in
      if \<not> v_playing s then s\<lparr>v_timer := None, v_sources := removeAll i (v_sources s)\<rparr>
      else s\<lparr>v_go := True, v_wakes := Suc (v_wakes s)\<rparr>)"

text \<open>\<open>_quit\<close> up to \<open>go.set()\<close>.\<close>

definition quit_view :: "viz \<Rightarrow> viz" where
  "quit_view s = (remove_timer s)\<lparr>v_timer := None, v_quit := True, v_view := Quitting\<rparr>"

text \<open>What happens next: the user presses the play button, changes the speed or closes the window; a timer fires; the
  callback on top takes the lock and goes on; an idle callback runs \<open>update_model\<close>; \<open>_quit\<close> or the simulator goes on.\<close>

datatype viz_action = Toggle | Speed pyfloat | Close | Fire nat | Acquire | ViewGoesOn | UpdateModel | SimGoesOn

type_synonym run_until = "nat \<Rightarrow> pyfloat \<Rightarrow> pyfloat \<Rightarrow> pyfloat \<times> string list"

definition view_goes_on :: "viz \<Rightarrow> viz option" where
  "view_goes_on s = (case v_view s of
     Drawing i messages \<Rightarrow> Some (draw_view i messages s)
   | Drawn i messages \<Rightarrow> Some (end_timeout i messages s)
   | Quitting \<Rightarrow> Some (s\<lparr>v_go := True, v_view := Joining\<rparr>)
   | Joining \<Rightarrow> if v_sim s = Ended then Some (s\<lparr>v_view := Outside\<rparr>) else None
   | _ \<Rightarrow> None)"

text \<open>\<open>run\<close> of the simulator thread; \<open>run_until n now target\<close> is the time at the end of the \<open>n\<close>-th run and its messages.\<close>

definition sim_goes_on :: "run_until \<Rightarrow> viz \<Rightarrow> viz option" where
  "sim_goes_on run_until s = (case v_sim s of
     AtLoop \<Rightarrow> Some (s\<lparr>v_sim := if v_quit s then Ended else AtWait\<rparr>)
   | AtWait \<Rightarrow> if v_go s then Some (s\<lparr>v_sim := AtClear\<rparr>) else None
   | AtClear \<Rightarrow> Some (s\<lparr>v_go := False, v_sim := AtCheck\<rparr>)
   | AtCheck \<Rightarrow> Some (s\<lparr>v_sim := if v_quit s then Ended else AtLock\<rparr>)
   | AtLock \<Rightarrow> if v_lock s = None then Some (s\<lparr>v_lock := Some Simulator, v_sim := InRun\<rparr>) else None
   | InRun \<Rightarrow> (case run_until (v_runs s) (v_now s) (v_target_time s) of (now, messages) \<Rightarrow>
       Some (s\<lparr>v_now := now, v_pause_messages := v_pause_messages s @ messages, v_runs := Suc (v_runs s),
         v_pending := Suc (v_pending s), v_lock := None, v_sim := AtLoop\<rparr>))
   | Ended \<Rightarrow> None)"

fun act :: "run_until \<Rightarrow> viz_action \<Rightarrow> viz \<Rightarrow> viz option" where
  "act run_until Toggle s = (if v_view s = Events then Some (on_play_button_toggled (s\<lparr>v_playing := \<not> v_playing s\<rparr>)) else None)"
| "act run_until (Speed speed) s = (if v_view s = Events then Some (speed_changed speed s) else None)"
| "act run_until Close s = (if v_view s = Events then Some (quit_view s) else None)"
| "act run_until (Fire i) s = (if v_view s = Events \<and> i \<in> set (v_sources s) \<and> i \<notin> set (v_waiting s)
     then Some (s\<lparr>v_waiting := i # v_waiting s\<rparr>) else None)"
| "act run_until Acquire s = (case v_waiting s of [] \<Rightarrow> None
   | i # is \<Rightarrow> if (v_view s = Events \<or> v_view s = Outside) \<and> v_lock s = None then Some (take_messages i (s\<lparr>v_waiting := is\<rparr>)) else None)"
| "act run_until ViewGoesOn s = view_goes_on s"
| "act run_until UpdateModel s = (if v_view s = Events \<and> v_pending s \<noteq> 0 \<and> v_lock s = None
     then Some (s\<lparr>v_pending := v_pending s - 1, v_samples := v_samples s @ [v_runs s]\<rparr>) else None)"
| "act run_until SimGoesOn s = sim_goes_on run_until s"

definition viz_step :: "run_until \<Rightarrow> viz \<Rightarrow> viz \<Rightarrow> bool" where
  "viz_step run_until s s' \<longleftrightarrow> (\<exists>a. act run_until a s = Some s')"

fun viz_acts :: "run_until \<Rightarrow> viz_action list \<Rightarrow> viz \<Rightarrow> viz option" where
  "viz_acts run_until [] s = Some s"
| "viz_acts run_until (a # as) s = (case act run_until a s of None \<Rightarrow> None | Some s' \<Rightarrow> viz_acts run_until as s')"

text \<open>After \<open>start\<close>: \<open>create_gui\<close> set the speed to 1, which starts a timer.\<close>

definition viz_start :: viz where
  "viz_start = speed_changed (Fin 1) \<lparr>v_sources = [], v_next_source = 0, v_timer = None, v_waiting = [], v_view = Events, v_playing = False,
     v_sample_period = SAMPLE_PERIOD, v_go = False, v_quit = False, v_lock = None, v_sim = AtLoop, v_now = Fin 0, v_target_time = Fin 0,
     v_pause_messages = [], v_shown = [], v_dialogs = [], v_pending = 0, v_runs = 0, v_wakes = 0, v_samples = []\<rparr>"

lemma acts_steps: "viz_acts run_until as s = Some s' \<Longrightarrow> (viz_step run_until)\<^sup>*\<^sup>* s s'"
proof (induction as arbitrary: s)
  case (Cons a as)
  then show ?case by (auto simp: viz_step_def split: option.splits intro: converse_rtranclp_into_rtranclp)
qed simp

subsection \<open>The invariant\<close>

definition lock_ok :: "viz \<Rightarrow> bool" where
  "lock_ok s \<longleftrightarrow> (v_lock s = Some Simulator \<longleftrightarrow> v_sim s = InRun) \<and> (v_lock s = Some View \<longleftrightarrow> (\<exists>i messages. v_view s = Drawing i messages))"

definition quit_ok :: "viz \<Rightarrow> bool" where
  "quit_ok s \<longleftrightarrow> (v_quit s \<longrightarrow> v_view s \<noteq> Events \<and> (v_sim s = AtWait \<and> v_view s \<noteq> Quitting \<longrightarrow> v_go s)
       \<and> (v_view s \<noteq> Quitting \<and> v_view s \<noteq> Joining \<longrightarrow> v_sim s = Ended))
     \<and> (\<not> v_quit s \<longrightarrow> v_view s \<noteq> Quitting \<and> v_view s \<noteq> Joining \<and> v_view s \<noteq> Outside \<and> v_sim s \<noteq> Ended)"

definition asked :: "viz \<Rightarrow> nat" where
  "asked s = (if v_sim s \<in> {AtLock, InRun} \<or> (v_sim s = AtCheck \<and> \<not> v_quit s) then 1 else 0) + (if v_go s \<and> \<not> v_quit s then 1 else 0)"

definition runs_ok :: "viz \<Rightarrow> bool" where
  "runs_ok s \<longleftrightarrow> v_runs s + asked s \<le> v_wakes s \<and> (v_sim s = AtClear \<longrightarrow> v_go s)"

definition samples_ok :: "viz \<Rightarrow> bool" where
  "samples_ok s \<longleftrightarrow> length (v_samples s) + v_pending s = v_runs s \<and> sorted (v_samples s)
     \<and> (\<forall>k < length (v_samples s). k < v_samples s ! k \<and> v_samples s ! k \<le> v_runs s)
     \<and> (v_pending s = 0 \<and> v_runs s \<noteq> 0 \<longrightarrow> last (v_samples s) = v_runs s)"

definition viz_inv :: "viz \<Rightarrow> bool" where
  "viz_inv s \<longleftrightarrow> lock_ok s \<and> quit_ok s \<and> runs_ok s \<and> samples_ok s"

text \<open>What the parts do not touch.\<close>

definition same_threads :: "viz \<Rightarrow> viz \<Rightarrow> bool" where
  "same_threads s s' \<longleftrightarrow> v_lock s' = v_lock s \<and> v_sim s' = v_sim s \<and> v_view s' = v_view s \<and> v_quit s' = v_quit s \<and> v_go s' = v_go s
     \<and> v_runs s' = v_runs s \<and> v_wakes s' = v_wakes s \<and> v_pending s' = v_pending s \<and> v_samples s' = v_samples s
     \<and> v_waiting s' = v_waiting s \<and> v_now s' = v_now s \<and> v_target_time s' = v_target_time s \<and> v_shown s' = v_shown s"

lemma same_threads_parts:
  "same_threads s (start_update_timer s)" "same_threads s (remove_timer s)" "same_threads s (on_play_button_toggled s)"
  "same_threads s (speed_changed speed s)" "same_threads s (show_messages messages s)"
  by (auto simp: same_threads_def start_update_timer_def remove_timer_def on_play_button_toggled_def speed_changed_def
      show_messages_def Let_def split: option.splits)

lemmas same_threads_simps [simp] = same_threads_parts [unfolded same_threads_def]

lemma inv_start: "viz_inv viz_start"
  by (simp add: viz_inv_def lock_ok_def quit_ok_def runs_ok_def samples_ok_def asked_def viz_start_def)

text \<open>The steps one by one.\<close>

lemma act_cases [consumes 1, case_names user speed close fire acquire draw finish quit_go joined model loop_end loop wait clear
    check_end check lock run]:
  assumes "act run_until a s = Some s'"
    and "v_view s = Events \<Longrightarrow> s' = on_play_button_toggled (s\<lparr>v_playing := \<not> v_playing s\<rparr>) \<Longrightarrow> P"
    and "\<And>speed. v_view s = Events \<Longrightarrow> s' = speed_changed speed s \<Longrightarrow> P"
    and "v_view s = Events \<Longrightarrow> s' = quit_view s \<Longrightarrow> P"
    and "\<And>i. v_view s = Events \<Longrightarrow> i \<in> set (v_sources s) \<Longrightarrow> i \<notin> set (v_waiting s) \<Longrightarrow> s' = s\<lparr>v_waiting := i # v_waiting s\<rparr> \<Longrightarrow> P"
    and "\<And>i is. v_waiting s = i # is \<Longrightarrow> v_view s = Events \<or> v_view s = Outside \<Longrightarrow> v_lock s = None \<Longrightarrow>
      s' = take_messages i (s\<lparr>v_waiting := is\<rparr>) \<Longrightarrow> P"
    and "\<And>i messages. v_view s = Drawing i messages \<Longrightarrow> s' = draw_view i messages s \<Longrightarrow> P"
    and "\<And>i messages. v_view s = Drawn i messages \<Longrightarrow> s' = end_timeout i messages s \<Longrightarrow> P"
    and "v_view s = Quitting \<Longrightarrow> s' = s\<lparr>v_go := True, v_view := Joining\<rparr> \<Longrightarrow> P"
    and "v_view s = Joining \<Longrightarrow> v_sim s = Ended \<Longrightarrow> s' = s\<lparr>v_view := Outside\<rparr> \<Longrightarrow> P"
    and "\<And>n. v_view s = Events \<Longrightarrow> v_pending s = Suc n \<Longrightarrow> v_lock s = None \<Longrightarrow>
      s' = s\<lparr>v_pending := n, v_samples := v_samples s @ [v_runs s]\<rparr> \<Longrightarrow> P"
    and "v_sim s = AtLoop \<Longrightarrow> v_quit s \<Longrightarrow> s' = s\<lparr>v_sim := Ended\<rparr> \<Longrightarrow> P"
    and "v_sim s = AtLoop \<Longrightarrow> \<not> v_quit s \<Longrightarrow> s' = s\<lparr>v_sim := AtWait\<rparr> \<Longrightarrow> P"
    and "v_sim s = AtWait \<Longrightarrow> v_go s \<Longrightarrow> s' = s\<lparr>v_sim := AtClear\<rparr> \<Longrightarrow> P"
    and "v_sim s = AtClear \<Longrightarrow> s' = s\<lparr>v_go := False, v_sim := AtCheck\<rparr> \<Longrightarrow> P"
    and "v_sim s = AtCheck \<Longrightarrow> v_quit s \<Longrightarrow> s' = s\<lparr>v_sim := Ended\<rparr> \<Longrightarrow> P"
    and "v_sim s = AtCheck \<Longrightarrow> \<not> v_quit s \<Longrightarrow> s' = s\<lparr>v_sim := AtLock\<rparr> \<Longrightarrow> P"
    and "v_sim s = AtLock \<Longrightarrow> v_lock s = None \<Longrightarrow> s' = s\<lparr>v_lock := Some Simulator, v_sim := InRun\<rparr> \<Longrightarrow> P"
    and "\<And>now messages. v_sim s = InRun \<Longrightarrow> run_until (v_runs s) (v_now s) (v_target_time s) = (now, messages) \<Longrightarrow>
      s' = s\<lparr>v_now := now, v_pause_messages := v_pause_messages s @ messages, v_runs := Suc (v_runs s),
         v_pending := Suc (v_pending s), v_lock := None, v_sim := AtLoop\<rparr> \<Longrightarrow> P"
  shows P
proof (cases a)
  case Toggle
  then show ?thesis using assms(1) by (intro assms(2)) (simp_all split: if_splits)
next
  case (Speed speed)
  then show ?thesis using assms(1) by (intro assms(3) [of speed]) (simp_all split: if_splits)
next
  case Close
  then show ?thesis using assms(1) by (intro assms(4)) (simp_all split: if_splits)
next
  case (Fire i)
  then show ?thesis using assms(1) by (intro assms(5) [of i]) (simp_all split: if_splits)
next
  case Acquire
  then show ?thesis using assms(1) by (cases "v_waiting s") (auto intro!: assms(6) split: if_splits)
next
  case UpdateModel
  then show ?thesis using assms(1) by (cases "v_pending s") (auto intro!: assms(11) split: if_splits)
next
  case ViewGoesOn
  then have v: "view_goes_on s = Some s'" using assms(1) by simp
  show ?thesis
  proof (cases "v_view s")
    case (Drawing i messages)
    then show ?thesis using v by (intro assms(7) [OF Drawing]) (simp_all add: view_goes_on_def)
  next
    case (Drawn i messages)
    then show ?thesis using v by (intro assms(8) [OF Drawn]) (simp_all add: view_goes_on_def)
  next
    case Quitting
    then show ?thesis using v by (intro assms(9)) (simp_all add: view_goes_on_def)
  next
    case Joining
    then show ?thesis using v by (intro assms(10)) (simp_all add: view_goes_on_def split: if_splits)
  qed (use v in \<open>simp_all add: view_goes_on_def\<close>)
next
  case SimGoesOn
  then have v: "sim_goes_on run_until s = Some s'" using assms(1) by simp
  show ?thesis
  proof (cases "v_sim s")
    case AtLoop
    then show ?thesis using v assms(12,13) by (cases "v_quit s") (simp_all add: sim_goes_on_def)
  next
    case AtWait
    then show ?thesis using v by (intro assms(14)) (simp_all add: sim_goes_on_def split: if_splits)
  next
    case AtClear
    then show ?thesis using v by (intro assms(15)) (simp_all add: sim_goes_on_def)
  next
    case AtCheck
    then show ?thesis using v assms(16,17) by (cases "v_quit s") (simp_all add: sim_goes_on_def)
  next
    case AtLock
    then show ?thesis using v by (intro assms(18)) (simp_all add: sim_goes_on_def split: if_splits)
  next
    case InRun
    obtain now messages where r: "run_until (v_runs s) (v_now s) (v_target_time s) = (now, messages)" by fastforce
    show ?thesis using v InRun r by (intro assms(19) [OF InRun r]) (simp add: sim_goes_on_def)
  qed (use v in \<open>simp add: sim_goes_on_def\<close>)
qed

lemmas viz_parts = take_messages_def draw_view_def end_timeout_def quit_view_def Let_def

lemma lock_step: "act run_until a s = Some s' \<Longrightarrow> lock_ok s \<Longrightarrow> lock_ok s'"
  by (erule act_cases) (auto simp: lock_ok_def viz_parts)

lemma quit_step: "act run_until a s = Some s' \<Longrightarrow> quit_ok s \<Longrightarrow> quit_ok s'"
  by (erule act_cases) (auto simp: quit_ok_def viz_parts)

lemma samples_step:
  assumes "act run_until a s = Some s'" "samples_ok s"
  shows "samples_ok s'"
  using assms(1)
proof (cases rule: act_cases)
  case (model n)
  have "x \<le> v_runs s" if "x \<in> set (v_samples s)" for x using that assms(2) by (auto simp: samples_ok_def in_set_conv_nth)
  then show ?thesis using model assms(2) by (auto simp: samples_ok_def sorted_append nth_append less_Suc_eq)
next
  case (run now messages)
  then show ?thesis using assms(2) by (auto simp: samples_ok_def le_SucI)
qed (use assms(2) in \<open>auto simp: samples_ok_def viz_parts\<close>)

lemma runs_step:
  assumes "act run_until a s = Some s'" "runs_ok s" "quit_ok s"
  shows "runs_ok s'"
  using assms(1)
proof (cases rule: act_cases)
  case close
  then show ?thesis using assms(2) by (cases "v_sim s") (simp_all add: runs_ok_def asked_def quit_view_def)
next
  case (finish i messages)
  then show ?thesis using assms(2) by (cases "v_go s"; cases "v_playing (show_messages messages s)"; cases "v_sim s"; cases "v_quit s")
      (simp_all add: runs_ok_def asked_def end_timeout_def Let_def)
next
  case quit_go
  then have "v_quit s" using assms(3) by (simp add: quit_ok_def)
  then show ?thesis using quit_go assms(2) by (simp add: runs_ok_def asked_def)
next
  case clear
  then show ?thesis using assms(2) by (cases "v_quit s"; cases "v_go s") (simp_all add: runs_ok_def asked_def)
next
  case (run now messages)
  then show ?thesis using assms(2) by (simp add: runs_ok_def asked_def)
qed (use assms(2) in \<open>simp_all add: runs_ok_def asked_def viz_parts\<close>)

lemma inv_reachable: "(viz_step run_until)\<^sup>*\<^sup>* viz_start s \<Longrightarrow> viz_inv s"
proof (induction rule: rtranclp_induct)
  case (step s s')
  then obtain a where "act run_until a s = Some s'" by (auto simp: viz_step_def)
  then show ?case using step.IH lock_step quit_step runs_step samples_step unfolding viz_inv_def by metis
qed (rule inv_start)

subsection \<open>What the two threads guarantee\<close>

text \<open>C30: The simulated time stands still while the view is drawn: the simulator does not run then. Every run was asked
  for by a redraw of the view. Every run asks for one collection of its samples, and as many were collected as runs have
  ended, but for those that still wait: the collections see the runs in their order, the \<open>k\<close>-th of them no run before
  the \<open>k\<close>-th, and when none waits the last one saw the latest run. (A collection may see a later run than the one
  that asked for it, whose samples are then lost: lemma \<open>sample_lost\<close>.)\<close>

theorem viz_threads:
  assumes "(viz_step run_until)\<^sup>*\<^sup>* viz_start s"
  shows "(v_view s = Drawing i messages \<and> viz_step run_until s s' \<longrightarrow> v_now s' = v_now s)
    \<and> v_runs s \<le> v_wakes s \<and> length (v_samples s) + v_pending s = v_runs s \<and> sorted (v_samples s)
    \<and> (\<forall>k < length (v_samples s). k < v_samples s ! k \<and> v_samples s ! k \<le> v_runs s)
    \<and> (v_pending s = 0 \<and> v_runs s \<noteq> 0 \<longrightarrow> last (v_samples s) = v_runs s)"
proof -
  have inv: "viz_inv s" by (rule inv_reachable [OF assms])
  have "v_now s' = v_now s" if d: "v_view s = Drawing i messages" and st: "viz_step run_until s s'"
  proof -
    have "v_sim s \<noteq> InRun" using inv d by (auto simp: viz_inv_def lock_ok_def)
    moreover obtain a where "act run_until a s = Some s'" using st by (auto simp: viz_step_def)
    ultimately show ?thesis using d by (elim act_cases) (simp_all add: viz_parts)
  qed
  then show ?thesis using inv by (simp add: viz_inv_def runs_ok_def samples_ok_def)
qed

definition demo_sim :: run_until where
  "demo_sim n now target = (target, [])"

definition one_tick :: "nat \<Rightarrow> viz_action list" where
  "one_tick i = [Fire i, Acquire, ViewGoesOn, ViewGoesOn]"

lemmas demo_steps = one_tick_def viz_start_def viz_parts demo_sim_def numeral_eq_Suc start_update_timer_def speed_changed_def
  on_play_button_toggled_def show_messages_def view_goes_on_def sim_goes_on_def remove_timer_def

text \<open>One run after another: the view is redrawn, the simulator runs, its sample is collected.\<close>

theorem viz_threads_witness:
  "\<exists>s. viz_acts demo_sim ([Toggle] @ one_tick 1 @ replicate 6 SimGoesOn @ [UpdateModel]) viz_start = Some s
     \<and> v_samples s = [1] \<and> v_wakes s = 1 \<and> v_runs s \<le> v_wakes s"
proof -
  obtain s where s: "viz_acts demo_sim ([Toggle] @ one_tick 1 @ replicate 6 SimGoesOn @ [UpdateModel]) viz_start = Some s"
    and v: "v_samples s = [1]" "v_wakes s = 1"
    by (simp add: demo_steps)
  show ?thesis using s v viz_threads [OF acts_steps [OF s]] by blast
qed

subsection \<open>Closing the window\<close>

fun view_weight :: "view_point \<Rightarrow> nat" where
  "view_weight (Drawing i messages) = 2"
| "view_weight (Drawn i messages) = 1"
| "view_weight Quitting = 2"
| "view_weight Joining = 1"
| "view_weight v = 0"

fun sim_weight :: "sim_point \<Rightarrow> nat" where
  "sim_weight AtLoop = 1"
| "sim_weight AtWait = 3"
| "sim_weight AtClear = 2"
| "sim_weight AtCheck = 1"
| "sim_weight AtLock = 3"
| "sim_weight InRun = 2"
| "sim_weight Ended = 0"

definition viz_weight :: "viz \<Rightarrow> nat" where
  "viz_weight s = view_weight (v_view s) + sim_weight (v_sim s) + 3 * length (v_waiting s)"

definition both_ended :: "viz \<Rightarrow> bool" where
  "both_ended s \<longleftrightarrow> v_view s = Outside \<and> v_sim s = Ended \<and> v_waiting s = []"

lemma quit_weight:
  assumes "act run_until a s = Some s'" "v_quit s" "quit_ok s"
  shows "viz_weight s' < viz_weight s \<and> v_quit s'"
  using assms(1)
proof (cases rule: act_cases)
  case (finish i messages)
  then show ?thesis using assms(2) by (cases "v_playing (show_messages messages s)") (simp_all add: viz_weight_def end_timeout_def Let_def)
next
  case (acquire i "is")
  then show ?thesis using assms(2) by (auto simp: viz_weight_def take_messages_def)
qed (use assms(2,3) in \<open>simp_all add: viz_weight_def quit_ok_def draw_view_def\<close>)

lemma quit_steps:
  "(viz_step run_until ^^ k) s s' \<Longrightarrow> v_quit s \<Longrightarrow> quit_ok s \<Longrightarrow> k + viz_weight s' \<le> viz_weight s \<and> v_quit s' \<and> quit_ok s'"
proof (induction k arbitrary: s')
  case (Suc k)
  then obtain q where q: "(viz_step run_until ^^ k) s q" "viz_step run_until q s'" by auto
  then obtain a where a: "act run_until a q = Some s'" by (auto simp: viz_step_def)
  have "k + viz_weight q \<le> viz_weight s \<and> v_quit q \<and> quit_ok q" using Suc q(1) by blast
  then show ?case using quit_weight [OF a] quit_step [OF a] by auto
qed simp

lemma quit_progress:
  assumes "viz_inv s" "v_quit s"
  shows "both_ended s \<or> (\<exists>s'. viz_step run_until s s')"
proof -
  have step: "act run_until a s = Some s' \<Longrightarrow> \<exists>s'. viz_step run_until s s'" for a s' by (auto simp: viz_step_def)
  have free: "v_lock s = None" if "v_sim s = AtLock \<or> v_sim s = Ended" "\<And>i messages. v_view s \<noteq> Drawing i messages"
    using assms(1) that by (cases "v_lock s") (auto simp: viz_inv_def lock_ok_def intro: viz_holder.exhaust)
  have view: "\<exists>s'. act run_until ViewGoesOn s = Some s'" if "v_view s = Quitting \<or> v_view s = Joining \<and> v_sim s = Ended
      \<or> (\<exists>i messages. v_view s = Drawing i messages \<or> v_view s = Drawn i messages)"
    using that by (auto simp: view_goes_on_def)
  show ?thesis
  proof (cases "v_view s")
    case Joining
    then have "(v_sim s = AtWait \<longrightarrow> v_go s) \<and> (v_sim s = AtLock \<longrightarrow> v_lock s = None)"
      using assms free by (auto simp: viz_inv_def quit_ok_def)
    then have "v_sim s = Ended \<or> (\<exists>s'. act run_until SimGoesOn s = Some s')"
      by (cases "v_sim s") (auto simp: sim_goes_on_def split: prod.splits)
    then show ?thesis using Joining view step by blast
  next
    case Outside
    then have e: "v_sim s = Ended" "v_lock s = None" using assms free by (auto simp: viz_inv_def quit_ok_def)
    show ?thesis
    proof (cases "v_waiting s")
      case (Cons i "is")
      then have "act run_until Acquire s = Some (take_messages i (s\<lparr>v_waiting := is\<rparr>))" using Outside e by simp
      then show ?thesis using step by blast
    qed (simp add: both_ended_def Outside e)
  next
    case Events
    then show ?thesis using assms by (simp add: viz_inv_def quit_ok_def)
  qed (use view step in \<open>blast+\<close>)
qed

text \<open>C29: When the window is closed, at any moment, both threads end: the simulator ends its run if it is in one, is
  woken if it waits, and leaves its loop; the main thread joins it and leaves the event loop. No interleaving gets
  stuck or goes on for longer than the callbacks that still wait.\<close>

theorem viz_quits:
  assumes "(viz_step run_until)\<^sup>*\<^sup>* viz_start s" "v_quit s" "(viz_step run_until ^^ k) s s'"
  shows "k \<le> 5 + 3 * length (v_waiting s) \<and> (both_ended s' \<or> (\<exists>s''. viz_step run_until s' s''))"
proof -
  have inv: "viz_inv s" by (rule inv_reachable [OF assms(1)])
  then have "k + viz_weight s' \<le> viz_weight s \<and> v_quit s' \<and> quit_ok s'" by (intro quit_steps [OF assms(3,2)]) (simp add: viz_inv_def)
  moreover have "viz_inv s'" using inv_reachable [of run_until s'] assms(1,3) by (meson relpowp_imp_rtranclp rtranclp_trans)
  moreover have "view_weight (v_view s) \<le> 2" "sim_weight (v_sim s) \<le> 3" by (cases "v_view s"; simp) (cases "v_sim s"; simp)
  ultimately show ?thesis using quit_progress [of s' run_until] by (auto simp: viz_weight_def)
qed

theorem viz_quits_witness:
  "\<exists>s. viz_acts demo_sim ([Toggle] @ one_tick 1 @ [SimGoesOn, Close]) viz_start = Some s
     \<and> (\<exists>s'. viz_acts demo_sim ([ViewGoesOn] @ replicate 3 SimGoesOn @ [ViewGoesOn]) s = Some s' \<and> both_ended s')
     \<and> (\<exists>s''. viz_step demo_sim s s'')"
proof -
  have "\<exists>s. viz_acts demo_sim ([Toggle] @ one_tick 1 @ [SimGoesOn, Close]) viz_start = Some s \<and> v_quit s \<and> \<not> both_ended s
     \<and> (\<exists>s'. viz_acts demo_sim ([ViewGoesOn] @ replicate 3 SimGoesOn @ [ViewGoesOn]) s = Some s' \<and> both_ended s')"
    by (simp add: demo_steps both_ended_def)
  then obtain s where s: "viz_acts demo_sim ([Toggle] @ one_tick 1 @ [SimGoesOn, Close]) viz_start = Some s" "v_quit s" "\<not> both_ended s"
    "\<exists>s'. viz_acts demo_sim ([ViewGoesOn] @ replicate 3 SimGoesOn @ [ViewGoesOn]) s = Some s' \<and> both_ended s'" by blast
  have "(viz_step demo_sim ^^ 0) s s" by simp
  then show ?thesis using s viz_quits [OF acts_steps [OF s(1)] s(2)] by blast
qed

subsection \<open>What they do not\<close>

text \<open>A sample can be lost: when the timer's callback gets the lock before \<open>update_model\<close> is called, the next run may end
  before it, and the sample of that run is collected twice, the one before it never.\<close>

lemma sample_lost:
  "\<exists>s. (viz_step demo_sim)\<^sup>*\<^sup>* viz_start s \<and> v_runs s = 2 \<and> v_samples s = [2, 2]"
proof -
  have "\<exists>s. viz_acts demo_sim ([Toggle] @ one_tick 1 @ replicate 6 SimGoesOn @ one_tick 1 @ replicate 6 SimGoesOn
      @ [UpdateModel, UpdateModel]) viz_start = Some s \<and> v_runs s = 2 \<and> v_samples s = [2, 2]"
    by (simp add: demo_steps)
  then show ?thesis using acts_steps by blast
qed

text \<open>Two timers can run at once, which doubles the speed: a callback that waits for the lock while the user presses pause
  and changes the speed forgets the new timer when it returns.\<close>

lemma two_timers:
  "\<exists>s. (viz_step demo_sim)\<^sup>*\<^sup>* viz_start s \<and> v_playing s \<and> v_view s = Events \<and> v_waiting s = [] \<and> length (v_sources s) = 2"
proof -
  have "\<exists>s. viz_acts demo_sim ([Toggle, Fire 1, Toggle, Speed (Fin 2), Acquire, ViewGoesOn, ViewGoesOn, Toggle]) viz_start = Some s
      \<and> v_playing s \<and> v_view s = Events \<and> v_waiting s = [] \<and> length (v_sources s) = 2"
    by (simp add: demo_steps)
  then show ?thesis using acts_steps by blast
qed

text \<open>While the play button is up and nothing woke the simulator before, the simulated time stands still.\<close>

lemma paused_still:
  assumes "act run_until a s = Some s'" "\<not> v_playing s" "\<not> v_playing s'" "\<not> v_quit s" "v_view s \<noteq> Quitting" "\<not> v_go s" "v_sim s \<in> {AtLoop, AtWait}"
  shows "v_now s' = v_now s \<and> \<not> v_go s' \<and> v_sim s' \<in> {AtLoop, AtWait}"
  using assms(1)
proof (cases rule: act_cases)
  case (finish i messages)
  have "\<not> v_playing (show_messages messages s)" using assms(2) by (simp add: show_messages_def Let_def)
  then show ?thesis using finish assms by (simp add: end_timeout_def Let_def)
qed (use assms in \<open>auto simp: viz_parts\<close>)

end
