(* ===== verification/VizData.thy ===== *)
theory VizData
  imports Stats
begin

text \<open>
  What the visualizer of src/visualizer/visualizer shows of the simulation: the interface statistics of
  plugins/interface_statistics.py, the arrows for transmissions and drops of core.py, and the packet types and the
  capture filter of plugins/show_last_packets.py. The samples come from the simulator and are parameters; drawing is
  left out.
\<close>

subsection \<open>The last samples\<close>

text \<open>\<open>while len(xs) > n: xs.pop(0)\<close>\<close>

function keep_last :: "nat \<Rightarrow> 'a list \<Rightarrow> 'a list" where
  "keep_last n xs = (if n < length xs then keep_last n (tl xs) else xs)"
  by auto
termination
  by (relation "measure (\<lambda>(n, xs). length xs)") auto

declare keep_last.simps [simp del]

lemma keep_last_drop: "keep_last n xs = drop (length xs - n) xs"
proof (induction n xs rule: keep_last.induct)
  case (1 n xs)
  show ?case
  proof (cases "n < length xs")
    case True
    then obtain x ys where "xs = x # ys" by (cases xs) auto
    then show ?thesis using 1 True by (subst keep_last.simps) (simp add: Suc_diff_le less_Suc_eq_le)
  qed (simp add: keep_last.simps [of n xs])
qed

lemma keep_last_snoc: "0 < n \<Longrightarrow> keep_last n (keep_last n xs @ [x]) = keep_last n (xs @ [x])"
proof -
  assume "0 < n"
  then have "length xs - n + (length xs - (length xs - n) + 1 - n) = length xs + 1 - n" by linarith
  then show ?thesis by (simp add: keep_last_drop Suc_diff_le) (cases "length xs \<le> n"; simp)
qed

subsection \<open>Interface statistics\<close>

record raw_stats =
  rs_transmittedBytes :: int
  rs_receivedBytes :: int
  rs_transmittedPackets :: int
  rs_receivedPackets :: int

record net_dev_stats =
  nd_txPackets :: int
  nd_txBytes :: int
  nd_rxPackets :: int
  nd_rxBytes :: int
  nd_txPacketRate :: pyfloat
  nd_rxPacketRate :: pyfloat
  nd_txBitRate :: pyfloat
  nd_rxBitRate :: pyfloat

definition NODE_STATISTICS_MEMORY :: nat where
  "NODE_STATISTICS_MEMORY = 10"

text \<open>One update has the statistics of each node, one per interface.\<close>

type_synonym nodes_statistics = "(nat \<times> raw_stats list) list"

definition collect_node :: "nat \<times> raw_stats list \<Rightarrow> (nat, raw_stats list list) dict \<Rightarrow> (nat, raw_stats list list) dict" where
  "collect_node st d = (case st of (nodeId, statistics) \<Rightarrow>
     dset nodeId (keep_last NODE_STATISTICS_MEMORY (dget_default d nodeId [] @ [statistics])) d)"

definition collect_statistics :: "nodes_statistics \<Rightarrow> (nat, raw_stats list list) dict \<Rightarrow> (nat, raw_stats list list) dict" where
  "collect_statistics sts d = fold collect_node sts d"

definition interface_stats :: "pyfloat \<Rightarrow> raw_stats list \<Rightarrow> nat \<times> raw_stats \<Rightarrow> net_dev_stats result" where
  "interface_stats k olds p = (case p of (iface, st) \<Rightarrow>
     if length olds \<le> iface then Inl IndexError
     else (let old = olds ! iface in
       bindR (fdiv (float_of_int (rs_transmittedPackets st - rs_transmittedPackets old)) k) (\<lambda>tp.
       bindR (fdiv (float_of_int (rs_receivedPackets st - rs_receivedPackets old)) k) (\<lambda>rp.
       bindR (fdiv (float_of_int ((rs_transmittedBytes st - rs_transmittedBytes old) * 8)) k) (\<lambda>tb.
       bindR (fdiv (float_of_int ((rs_receivedBytes st - rs_receivedBytes old) * 8)) k) (\<lambda>rb.
         Inr \<lparr>nd_txPackets = rs_transmittedPackets st, nd_txBytes = rs_transmittedBytes st, nd_rxPackets = rs_receivedPackets st,
           nd_rxBytes = rs_receivedBytes st, nd_txPacketRate = tp, nd_rxPacketRate = rp, nd_txBitRate = tb, nd_rxBitRate = rb\<rparr>))))))"

definition get_interface_statistics :: "pyfloat \<Rightarrow> (nat, raw_stats list list) dict \<Rightarrow> nat \<Rightarrow> net_dev_stats list result" where
  "get_interface_statistics sample_period d nodeId = (case dget d nodeId of None \<Rightarrow> Inr []
     | Some raws \<Rightarrow> if length raws < NODE_STATISTICS_MEMORY then Inr []
         else if length raws \<noteq> NODE_STATISTICS_MEMORY then Inl AssertionError
         else mapR (interface_stats (fmul sample_period (float_of_int (int NODE_STATISTICS_MEMORY - 1))) (hd raws)) (enumerate 0 (last raws)))"

lemma collect_nodes_other: "n \<notin> fst ` set sts \<Longrightarrow> dget (fold collect_node sts d) n = dget d n"
  by (induction sts arbitrary: d) (auto simp: collect_node_def dict_simps split: prod.splits)

lemma collect_nodes_one:
  "distinct (map fst sts) \<Longrightarrow> dget sts n = Some xs \<Longrightarrow>
     dget (fold collect_node sts d) n = Some (keep_last NODE_STATISTICS_MEMORY (dget_default d n [] @ [xs]))"
proof (induction sts arbitrary: d)
  case (Cons st sts)
  obtain m ys where st: "st = (m, ys)" by fastforce
  show ?case
  proof (cases "m = n")
    case True
    then have "n \<notin> fst ` set sts" "ys = xs" using Cons.prems by (auto simp: st dget_def)
    then show ?thesis using True by (simp add: st collect_nodes_other) (simp add: collect_node_def dict_simps)
  next
    case False
    then have "dget sts n = Some xs" using Cons.prems by (simp add: st dget_def)
    then show ?thesis using Cons False by (simp add: st collect_node_def)
  qed
qed (simp add: dget_def)

lemma collected_last:
  assumes "list_all (\<lambda>u. distinct (map fst u) \<and> dget u n \<noteq> None) us"
  shows "dget_default (fold collect_statistics us []) n [] = keep_last NODE_STATISTICS_MEMORY (map (\<lambda>u. the (dget u n)) us)
    \<and> (us \<noteq> [] \<longrightarrow> dget (fold collect_statistics us []) n \<noteq> None)"
  using assms
proof (induction us rule: rev_induct)
  case (snoc u us)
  then obtain xs where xs: "dget u n = Some xs" by auto
  have "dget (fold collect_statistics (us @ [u]) []) n
      = Some (keep_last NODE_STATISTICS_MEMORY (keep_last NODE_STATISTICS_MEMORY (map (\<lambda>u. the (dget u n)) us) @ [xs]))"
    using collect_nodes_one [OF _ xs, of "fold collect_statistics us []"] snoc by (simp add: collect_statistics_def [of u])
  then show ?case using xs by (simp add: dget_default_def keep_last_snoc NODE_STATISTICS_MEMORY_def)
qed (simp add: keep_last_drop)

lemma mapR_fails: "x \<in> set xs \<Longrightarrow> \<forall>y \<in> set xs. f y = Inl e \<or> f y = Inr (g y) \<Longrightarrow> f x = Inl e \<Longrightarrow> mapR f xs = Inl e"
  by (induction xs) (auto simp: mapR_Cons bindR_def split: sum.splits)

text \<open>The rates over nine periods, of one interface.\<close>

definition stats_between :: "pyfloat \<Rightarrow> raw_stats \<Rightarrow> raw_stats \<Rightarrow> net_dev_stats" where
  "stats_between k old new = \<lparr>nd_txPackets = rs_transmittedPackets new, nd_txBytes = rs_transmittedBytes new,
     nd_rxPackets = rs_receivedPackets new, nd_rxBytes = rs_receivedBytes new,
     nd_txPacketRate = fquot (float_of_int (rs_transmittedPackets new - rs_transmittedPackets old)) k,
     nd_rxPacketRate = fquot (float_of_int (rs_receivedPackets new - rs_receivedPackets old)) k,
     nd_txBitRate = fquot (float_of_int ((rs_transmittedBytes new - rs_transmittedBytes old) * 8)) k,
     nd_rxBitRate = fquot (float_of_int ((rs_receivedBytes new - rs_receivedBytes old) * 8)) k\<rparr>"

lemma interface_stats_between:
  "k \<noteq> Fin 0 \<Longrightarrow> interface_stats k olds (i, st) = (if length olds \<le> i then Inl IndexError else Inr (stats_between k (olds ! i) st))"
  by (simp add: interface_stats_def stats_between_def fdiv_def Let_def)

text \<open>C35: The statistics of a node compare its last sample with the one nine periods earlier, interface by interface,
  as soon as there are ten samples, and are empty before. An interface that was added in between raises an
  IndexError.\<close>

theorem interface_rates:
  assumes "list_all (\<lambda>u. distinct (map fst u) \<and> dget u n \<noteq> None) us" "us \<noteq> []" "fmul sample_period (float_of_int 9) \<noteq> Fin 0"
    and "new = the (dget (last us) n)" "old = the (dget (us ! (length us - 10)) n)"
  shows "get_interface_statistics sample_period (fold collect_statistics us []) n
    = (if length us < 10 then Inr []
       else if length old < length new then Inl IndexError
       else Inr (map2 (stats_between (fmul sample_period (float_of_int 9))) old new))"
proof -
  let ?k = "fmul sample_period (float_of_int 9)" and ?xs = "map (\<lambda>u. the (dget u n)) us"
  have raws: "dget (fold collect_statistics us []) n = Some (drop (length us - 10) ?xs)"
    using collected_last [OF assms(1)] assms(2)
    by (auto simp: dget_default_def keep_last_drop NODE_STATISTICS_MEMORY_def)
  show ?thesis
  proof (cases "length us < 10")
    case True
    then show ?thesis using raws by (simp add: get_interface_statistics_def NODE_STATISTICS_MEMORY_def)
  next
    case False
    then have hl: "hd (drop (length us - 10) ?xs) = old" "last (drop (length us - 10) ?xs) = new"
      using assms(2,4,5) by (simp_all add: hd_drop_conv_nth last_map)
    have r: "get_interface_statistics sample_period (fold collect_statistics us []) n = mapR (interface_stats ?k old) (enumerate 0 new)"
      using raws False hl by (simp add: get_interface_statistics_def NODE_STATISTICS_MEMORY_def)
    show ?thesis
    proof (cases "length old < length new")
      case True
      have "(length old, new ! length old) \<in> set (enumerate 0 new)" using True by (auto simp: in_set_enumerate_eq)
      then have "mapR (interface_stats ?k old) (enumerate 0 new) = Inl IndexError"
        by (rule mapR_fails [where g = "\<lambda>(i, st). stats_between ?k (old ! i) st"]) (auto simp: interface_stats_between [OF assms(3)] split: if_splits)
      then show ?thesis using r True False by simp
    next
      case le: False
      have "mapR (interface_stats ?k old) (enumerate 0 new) = Inr (map (\<lambda>(i, st). stats_between ?k (old ! i) st) (enumerate 0 new))"
        using le by (intro mapR_Inr) (auto simp: interface_stats_between [OF assms(3)] in_set_enumerate_eq)
      moreover have "map (\<lambda>(i, st). stats_between ?k (old ! i) st) (enumerate 0 new) = map2 (stats_between ?k) old new"
        using le by (intro nth_equalityI) (auto simp: nth_enumerate_eq)
      ultimately show ?thesis using r le False by simp
    qed
  qed
qed

definition demo_stats :: "nat \<Rightarrow> raw_stats" where
  "demo_stats i = \<lparr>rs_transmittedBytes = 1000 * int i, rs_receivedBytes = 0, rs_transmittedPackets = int i, rs_receivedPackets = 0\<rparr>"

theorem interface_rates_witness:
  "get_interface_statistics (Fin 1) (fold collect_statistics (map (\<lambda>i. [(0, [demo_stats i]), (1, [])]) [0..<20]) []) 0
     = Inr [stats_between (fmul (Fin 1) (float_of_int 9)) (demo_stats 10) (demo_stats 19)]
   \<and> get_interface_statistics (Fin 1) (fold collect_statistics [[(0, [demo_stats 1])]] []) 0 = Inr []"
proof -
  let ?us = "map (\<lambda>i. [(0 :: nat, [demo_stats i]), (1, [])]) [0..<20]"
  have k: "fmul (Fin 1) (float_of_int 9) \<noteq> Fin 0" by code_simp
  have a: "list_all (\<lambda>u. distinct (map fst u) \<and> dget u 0 \<noteq> None) ?us" "list_all (\<lambda>u. distinct (map fst u) \<and> dget u 0 \<noteq> None) [[(0 :: nat, [demo_stats 1])]]"
    by (simp_all add: list_all_iff dget_def)
  have "the (dget (last ?us) 0) = [demo_stats 19]" "the (dget (?us ! (length ?us - 10)) 0) = [demo_stats 10]"
    by (simp_all add: last_map dget_def)
  then show ?thesis
    using interface_rates [OF a(1) _ k refl refl] interface_rates [OF a(2) _ k refl refl] by simp
qed

subsection \<open>Arrows\<close>

text \<open>A sample has a key, the pair of its nodes for a transmission and the transmitter for a drop, and its bytes. The
  samples of the last periods are summed up and counted by key.\<close>

definition remember :: "nat \<Rightarrow> ('k \<times> int) list \<Rightarrow> ('k \<times> int) list list \<Rightarrow> ('k \<times> int) list list" where
  "remember smooth_factor samples lasts = keep_last smooth_factor (lasts @ [samples])"

definition average_step :: "'k \<times> int \<Rightarrow> ('k, int \<times> int) dict \<Rightarrow> ('k, int \<times> int) dict" where
  "average_step sample d = (case sample of (key, bytes) \<Rightarrow>
     case dget_default d key (0, 0) of (rx_bytes, rx_count) \<Rightarrow> dset key (rx_bytes + bytes, rx_count + 1) d)"

definition averages :: "('k \<times> int) list list \<Rightarrow> ('k, int \<times> int) dict" where
  "averages lasts = fold (fold average_step) lasts []"

text \<open>An arrow with its label on the canvas: \<open>ar_item\<close> tells the items apart.\<close>

record ('k, 'p) arrow =
  ar_item :: nat
  ar_visible :: bool
  ar_key :: "'k option"
  ar_points :: "'p option"
  ar_width :: pyfloat
  ar_kbps :: pyfloat

definition new_arrow :: "nat \<Rightarrow> ('k, 'p) arrow" where
  "new_arrow n = \<lparr>ar_item = n, ar_visible = True, ar_key = None, ar_points = None, ar_width = Fin 2, ar_kbps = Fin 0\<rparr>"

text \<open>\<open>math.log\<close>; \<open>logarithm\<close> is its value on positive numbers.\<close>

definition py_log :: "(pyfloat \<Rightarrow> pyfloat) \<Rightarrow> pyfloat \<Rightarrow> pyfloat result" where
  "py_log logarithm x = (if fle x (Fin 0) then Inl ValueError else Inr (logarithm x))"

definition arrow_width :: "(pyfloat \<Rightarrow> pyfloat) \<Rightarrow> pyfloat \<Rightarrow> pyfloat \<Rightarrow> int \<times> int \<Rightarrow> pyfloat result" where
  "arrow_width logarithm k sample_period tot = (case tot of (bytes, cnt) \<Rightarrow>
     bindR (fdiv (float_of_int bytes) (float_of_int cnt)) (\<lambda>x.
     bindR (fdiv x sample_period) (\<lambda>x.
     bindR (py_log logarithm x) (\<lambda>x. Inr (fmax (to_float (1 / 10)) (fmul x k))))))"

definition arrow_kbps :: "pyfloat \<Rightarrow> int \<times> int \<Rightarrow> pyfloat result" where
  "arrow_kbps sample_period tot = (case tot of (bytes, cnt) \<Rightarrow>
     bindR (fdiv (float_of_int (bytes * 8)) (Fin 1000)) (\<lambda>x.
     bindR (fdiv x (float_of_int cnt)) (\<lambda>x. fdiv x sample_period)))"

text \<open>The arrows on the canvas, those that were dropped by an update that raised, and the next new item.\<close>

record ('k, 'p) arrows =
  as_list :: "('k, 'p) arrow list"
  as_lost :: "('k, 'p) arrow list"
  as_next :: nat

fun draw_arrows :: "('k \<Rightarrow> 'p) \<Rightarrow> (int \<times> int \<Rightarrow> pyfloat result) \<Rightarrow> (int \<times> int \<Rightarrow> pyfloat result) \<Rightarrow> ('k \<times> int \<times> int) list \<Rightarrow>
    ('k, 'p) arrow list \<Rightarrow> ('k, 'p) arrow list \<Rightarrow> ('k, 'p) arrows \<Rightarrow> unit result \<times> ('k, 'p) arrows" where
  "draw_arrows points width kbps [] old new s = (Inr (), s\<lparr>as_list := new @ old\<rparr>)"
| "draw_arrows points width kbps ((key, tot) # items) old new s =
     (let a = (if old = [] then new_arrow (as_next s) else (last old)\<lparr>ar_visible := True\<rparr>);
          s = (if old = [] then s\<lparr>as_next := Suc (as_next s)\<rparr> else s);
          old = butlast old in
      case width tot of
        Inl e \<Rightarrow> (Inl e, s\<lparr>as_list := old, as_lost := as_lost s @ new @ [a]\<rparr>)
      | Inr w \<Rightarrow> (let a = a\<lparr>ar_key := Some key, ar_points := Some (points key), ar_width := w\<rparr> in
          case kbps tot of
            Inl e \<Rightarrow> (Inl e, s\<lparr>as_list := old, as_lost := as_lost s @ new @ [a]\<rparr>)
          | Inr r \<Rightarrow> draw_arrows points width kbps items old (new @ [a\<lparr>ar_kbps := r\<rparr>]) s))"

text \<open>\<open>_update_transmissions_view\<close> and \<open>_update_drops_view\<close>: they differ in the key and in the points.\<close>

definition update_arrows :: "(pyfloat \<Rightarrow> pyfloat) \<Rightarrow> ('k \<Rightarrow> 'p) \<Rightarrow> pyfloat \<Rightarrow> pyfloat \<Rightarrow> ('k \<times> int) list list \<Rightarrow>
    ('k, 'p) arrows \<Rightarrow> unit result \<times> ('k, 'p) arrows" where
  "update_arrows logarithm points node_size sample_period lasts s =
     (let k = fquot node_size (Fin 5); old = map (\<lambda>a. a\<lparr>ar_visible := False\<rparr>) (as_list s) in
      draw_arrows points (arrow_width logarithm k sample_period) (arrow_kbps sample_period) (averages lasts) old [] s)"

definition transmission_points :: "(nat \<Rightarrow> 'c \<times> 'c) \<Rightarrow> nat \<times> nat \<Rightarrow> ('c \<times> 'c) \<times> ('c \<times> 'c)" where
  "transmission_points position key = (position (fst key), position (snd key))"

definition drop_points :: "(nat \<Rightarrow> 'c \<times> 'c) \<Rightarrow> 'c \<Rightarrow> nat \<Rightarrow> ('c \<times> 'c) \<times> ('c \<times> 'c)" where
  "drop_points position edge_y key = (position key, (fst (position key), edge_y))"

text \<open>The totals.\<close>

lemma averages_fold: "averages lasts = fold average_step (concat lasts) []"
proof -
  have "fold (fold average_step) lasts d = fold average_step (concat lasts) d" for d by (induction lasts arbitrary: d) simp_all
  then show ?thesis by (simp add: averages_def)
qed

lemma average_fold:
  "dget_default (fold average_step xs d) key (0, 0)
     = (fst (dget_default d key (0, 0)) + sum_list (map snd (filter (\<lambda>x. fst x = key) xs)),
        snd (dget_default d key (0, 0)) + int (length (filter (\<lambda>x. fst x = key) xs)))
   \<and> (dict_wf d \<longrightarrow> dict_wf (fold average_step xs d)) \<and> set (dkeys (fold average_step xs d)) = set (dkeys d) \<union> fst ` set xs"
proof (induction xs arbitrary: d)
  case (Cons x xs)
  obtain k b where x: "x = (k, b)" by fastforce
  obtain rb c where rc: "dget_default d k (0, 0) = (rb, c)" by fastforce
  have st: "average_step x d = dset k (rb + b, c + 1) d" by (simp add: x average_step_def rc)
  show ?case using Cons [of "average_step x d"] rc unfolding st fold_simps by (auto simp: x pyd.wf_upd pyd.keys_upd)
qed simp

text \<open>Every item that was ever made is in one place, in the list or among the lost ones.\<close>

definition arrows_ok :: "('k, 'p) arrows \<Rightarrow> bool" where
  "arrows_ok s \<longleftrightarrow> mset (map ar_item (as_list s @ as_lost s)) = mset [0..<as_next s]"

definition arrow_for :: "('k \<Rightarrow> 'p) \<Rightarrow> (int \<times> int \<Rightarrow> pyfloat result) \<Rightarrow> (int \<times> int \<Rightarrow> pyfloat result) \<Rightarrow> ('k, 'p) arrow \<Rightarrow> 'k \<times> int \<times> int \<Rightarrow> bool" where
  "arrow_for points width kbps a item = (case item of (key, tot) \<Rightarrow> ar_visible a \<and> ar_key a = Some key \<and> ar_points a = Some (points key)
     \<and> width tot = Inr (ar_width a) \<and> kbps tot = Inr (ar_kbps a))"

definition outcome_ok :: "('k \<Rightarrow> 'p) \<Rightarrow> (int \<times> int \<Rightarrow> pyfloat result) \<Rightarrow> (int \<times> int \<Rightarrow> pyfloat result) \<Rightarrow> ('k \<times> int \<times> int) list \<Rightarrow>
    ('k, 'p) arrow list \<Rightarrow> ('k, 'p) arrow list \<Rightarrow> ('k, 'p) arrows \<Rightarrow> unit result \<Rightarrow> ('k, 'p) arrows \<Rightarrow> bool" where
  "outcome_ok points width kbps items old new s r s' \<longleftrightarrow> arrows_ok s' \<and> (case r of
     Inr u \<Rightarrow> as_lost s' = as_lost s \<and> (\<exists>drawn. as_list s' = new @ drawn @ take (length old - length items) old
       \<and> list_all2 (arrow_for points width kbps) drawn items)
   | Inl e \<Rightarrow> (\<exists>lost. as_lost s' = as_lost s @ new @ lost \<and> lost \<noteq> [] \<and> list_all ar_visible lost))"

lemma take_butlast_le: "n < length xs \<Longrightarrow> take n (butlast xs) = take n xs"
  by (simp add: butlast_conv_take)

lemma draw_arrows_outcome:
  "mset (map ar_item (old @ new @ as_lost s)) = mset [0..<as_next s] \<Longrightarrow> draw_arrows points width kbps items old new s = (r, s') \<Longrightarrow>
     outcome_ok points width kbps items old new s r s'"
proof (induction items arbitrary: old new s)
  case Nil
  then show ?case by (auto simp: outcome_ok_def arrows_ok_def ac_simps)
next
  case (Cons item items)
  obtain key tot where item: "item = (key, tot)" by (cases item) auto
  define a where "a = (if old = [] then new_arrow (as_next s) else (last old)\<lparr>ar_visible := True\<rparr>)"
  define s1 where "s1 = (if old = [] then s\<lparr>as_next := Suc (as_next s)\<rparr> else s)"
  have vis: "ar_visible a" by (simp add: a_def new_arrow_def)
  have ids: "mset (map ar_item (butlast old @ new @ as_lost s)) + {#ar_item a#} = mset [0..<as_next s1]"
  proof (cases "old = []")
    case True
    then show ?thesis using Cons.prems(1) by (simp add: a_def s1_def new_arrow_def)
  next
    case False
    then have "old = butlast old @ [last old]" by simp
    then have "mset (map ar_item old) = mset (map ar_item (butlast old)) + {#ar_item (last old)#}"
      by (metis map_append list.simps(8,9) mset_append mset_single_iff_right)
    then show ?thesis using Cons.prems(1) False by (simp add: a_def s1_def)
  qed
  have lost: "as_lost s1 = as_lost s" by (simp add: s1_def)
  have d: "draw_arrows points width kbps ((key, tot) # items) old new s = (case width tot of
      Inl e \<Rightarrow> (Inl e, s1\<lparr>as_list := butlast old, as_lost := as_lost s1 @ new @ [a]\<rparr>)
    | Inr w \<Rightarrow> (let a = a\<lparr>ar_key := Some key, ar_points := Some (points key), ar_width := w\<rparr> in case kbps tot of
        Inl e \<Rightarrow> (Inl e, s1\<lparr>as_list := butlast old, as_lost := as_lost s1 @ new @ [a]\<rparr>)
      | Inr r \<Rightarrow> draw_arrows points width kbps items (butlast old) (new @ [a\<lparr>ar_kbps := r\<rparr>]) s1))"
    unfolding a_def s1_def draw_arrows.simps Let_def ..
  show ?case
  proof (cases "width tot")
    case (Inl e)
    then have "r = Inl e" "s' = s1\<lparr>as_list := butlast old, as_lost := as_lost s1 @ new @ [a]\<rparr>"
      using Cons.prems(2) unfolding item d by simp_all
    moreover have "mset (map ar_item (butlast old @ (as_lost s1 @ new @ [a]))) = mset [0..<as_next s1]" unfolding lost ids [symmetric] by simp
    ultimately show ?thesis using lost vis by (simp add: outcome_ok_def arrows_ok_def del: mset_map mset_append mset_upt)
  next
    case w: (Inr w)
    show ?thesis
    proof (cases "kbps tot")
      case (Inl e)
      let ?b = "a\<lparr>ar_key := Some key, ar_points := Some (points key), ar_width := w\<rparr>"
      have "r = Inl e" "s' = s1\<lparr>as_list := butlast old, as_lost := as_lost s1 @ new @ [?b]\<rparr>"
        using Inl Cons.prems(2) w unfolding item d by (simp_all add: Let_def)
      moreover have "mset (map ar_item (butlast old @ (as_lost s1 @ new @ [?b]))) = mset [0..<as_next s1]" unfolding lost ids [symmetric] by simp
      ultimately show ?thesis using lost vis by (simp add: outcome_ok_def arrows_ok_def del: mset_map mset_append mset_upt)
    next
      case k: (Inr k)
      let ?a = "a\<lparr>ar_key := Some key, ar_points := Some (points key), ar_width := w, ar_kbps := k\<rparr>"
      have run: "draw_arrows points width kbps items (butlast old) (new @ [?a]) s1 = (r, s')"
        using Cons.prems(2) d w k by (simp add: item Let_def)
      have o: "outcome_ok points width kbps items (butlast old) (new @ [?a]) s1 r s'"
        by (rule Cons.IH [OF _ run]) (use ids lost in simp)
      have shows_it: "arrow_for points width kbps ?a (key, tot)" using vis w k by (simp add: arrow_for_def)
      have rest: "take (length (butlast old) - length items) (butlast old) = take (length old - Suc (length items)) old"
        by (cases "old = []") (simp_all add: take_butlast_le)
      show ?thesis
      proof (cases r)
        case (Inl e)
        then show ?thesis using o lost vis by (auto simp: outcome_ok_def item)
      next
        case (Inr u)
        then obtain drawn where "as_list s' = new @ (?a # drawn) @ take (length old - Suc (length items)) old"
            "list_all2 (arrow_for points width kbps) drawn items"
          using o rest by (auto simp: outcome_ok_def)
        then show ?thesis using o shows_it Inr lost by (auto simp: outcome_ok_def item intro!: exI [of _ "?a # drawn"])
      qed
    qed
  qed
qed

text \<open>C36: An update shows one arrow for each key of the remembered samples, with the width and the rate of its total,
  and hides all others; it makes a new item only when there are too few. When it raises, which a total of zero bytes
  makes it do, the arrows drawn so far are lost: they stay visible and no later update changes them.\<close>

theorem arrows_drawn:
  assumes "arrows_ok s" "update_arrows logarithm points node_size sample_period lasts s = (r, s')"
  shows "arrows_ok s' \<and> (case r of
      Inr u \<Rightarrow> as_lost s' = as_lost s \<and> length (as_list s') = max (length (as_list s)) (length (averages lasts))
        \<and> list_all2 (arrow_for points (arrow_width logarithm (fquot node_size (Fin 5)) sample_period) (arrow_kbps sample_period))
            (filter ar_visible (as_list s')) (averages lasts)
    | Inl e \<Rightarrow> \<exists>lost. as_lost s' = as_lost s @ lost \<and> lost \<noteq> [] \<and> list_all ar_visible lost)"
proof -
  define old where "old = map (\<lambda>a. a\<lparr>ar_visible := False\<rparr>) (as_list s)"
  have "map ar_item old = map ar_item (as_list s)" by (simp add: old_def comp_def)
  then have "mset (map ar_item (old @ [] @ as_lost s)) = mset [0..<as_next s]" using assms(1) by (simp only: arrows_ok_def map_append append_Nil)
  note ids = draw_arrows_outcome [OF this]
  have hidden: "filter ar_visible (take n old) = []" for n by (auto simp: old_def filter_empty_conv take_map)
  have o: "outcome_ok points (arrow_width logarithm (fquot node_size (Fin 5)) sample_period) (arrow_kbps sample_period) (averages lasts) old [] s r s'"
    by (rule ids) (use assms(2) in \<open>simp add: update_arrows_def old_def Let_def\<close>)
  have shown: "filter ar_visible drawn = drawn" if "list_all2 (arrow_for p w k) drawn items" for p w k drawn items
    using that by (induction rule: list_all2_induct) (auto simp: arrow_for_def)
  show ?thesis
  proof (cases r)
    case (Inl e)
    then show ?thesis using o by (auto simp: outcome_ok_def)
  next
    case (Inr u)
    then obtain drawn where d: "arrows_ok s'" "as_lost s' = as_lost s" "as_list s' = drawn @ take (length old - length (averages lasts)) old"
        "list_all2 (arrow_for points (arrow_width logarithm (fquot node_size (Fin 5)) sample_period) (arrow_kbps sample_period)) drawn (averages lasts)"
      using o by (auto simp: outcome_ok_def)
    moreover have "length old = length (as_list s)" by (simp add: old_def)
    ultimately show ?thesis using Inr shown [OF d(4)] hidden list_all2_lengthD [OF d(4)] by (simp add: max_def)
  qed
qed

text \<open>The total of a key: the bytes of its remembered samples and their number.\<close>

lemma average_totals:
  "(key, tot) \<in> set (averages lasts) \<Longrightarrow> tot = (sum_list (map snd (filter (\<lambda>x. fst x = key) (concat lasts))),
     int (length (filter (\<lambda>x. fst x = key) (concat lasts))))"
proof -
  assume "(key, tot) \<in> set (averages lasts)"
  moreover have "dict_wf (averages lasts)" using average_fold [of "concat lasts" "[]"] by (simp add: averages_fold pyd.wf_emp)
  ultimately have "dget (averages lasts) key = Some tot" by (simp add: dget_def dict_wf_def)
  then show ?thesis using average_fold [of "concat lasts" "[]" key] by (simp add: averages_fold dget_default_def [of _ key] dict_simps)
qed

theorem arrows_drawn_witness:
  "let s = \<lparr>as_list = [new_arrow 0, new_arrow 1], as_lost = [], as_next = 2\<rparr>;
       r = update_arrows (\<lambda>x. Fin 1) (drop_points (\<lambda>i. (i, i)) 9) (Fin 5) (Fin 1) [[(3, 8)]] s;
       r' = update_arrows (\<lambda>x. Fin 1) (drop_points (\<lambda>i. (i, i)) 9) (Fin 5) (Fin 1) [[(3, 0)]] s in
   fst r = Inr () \<and> length (as_list (snd r)) = 2 \<and> arrows_ok (snd r)
   \<and> fst r' = Inl ValueError \<and> (\<exists>a. as_lost (snd r') = a \<and> a \<noteq> [] \<and> list_all ar_visible a) \<and> arrows_ok (snd r')"
proof -
  define s :: "(nat, (nat \<times> nat) \<times> (nat \<times> nat)) arrows" where "s = \<lparr>as_list = [new_arrow 0, new_arrow 1], as_lost = [], as_next = 2\<rparr>"
  define r where "r = update_arrows (\<lambda>x. Fin 1) (drop_points (\<lambda>i. (i, i)) 9) (Fin 5) (Fin 1) [[(3, 8)]] s"
  define r' where "r' = update_arrows (\<lambda>x. Fin 1) (drop_points (\<lambda>i. (i, i)) 9) (Fin 5) (Fin 1) [[(3, 0)]] s"
  have ok: "arrows_ok s" by (simp add: arrows_ok_def s_def new_arrow_def numeral_2_eq_2 add_mset_commute)
  have v: "fst r = Inr ()" "fst r' = Inl ValueError" "length (averages [[(3 :: nat, 8)]]) = 1"
    unfolding r_def r'_def s_def by code_simp+
  have l: "as_lost s = []" "length (as_list s) = 2" by (simp_all add: s_def)
  have "arrows_ok (snd r) \<and> length (as_list (snd r)) = 2"
    using arrows_drawn [OF ok, where r = "fst r" and s' = "snd r", folded surjective_pairing, OF r_def [symmetric]] v l by simp
  moreover have "arrows_ok (snd r') \<and> (\<exists>a. as_lost (snd r') = a \<and> a \<noteq> [] \<and> list_all ar_visible a)"
    using arrows_drawn [OF ok, where r = "fst r'" and s' = "snd r'", folded surjective_pairing, OF r'_def [symmetric]] v l by auto
  ultimately show ?thesis using v by (simp add: r_def r'_def s_def Let_def)
qed

subsection \<open>The packets that are captured\<close>

text \<open>The loop over the parents of a type, which ends when it meets one of \<open>goals\<close> or a type without a parent.\<close>

partial_function (option) has_ancestor :: "(nat \<Rightarrow> nat option) \<Rightarrow> nat list \<Rightarrow> nat \<Rightarrow> bool option" where
  "has_ancestor parent goals t = (if t \<in> set goals then Some True
     else (case parent t of None \<Rightarrow> Some False | Some u \<Rightarrow> has_ancestor parent goals u))"

record type_config =
  tc_name :: string
  tc_selected :: bool
  tc_typeid :: nat

fun packet_filter_list :: "(nat \<Rightarrow> nat option) \<Rightarrow> (nat \<Rightarrow> string) \<Rightarrow> nat \<Rightarrow> nat \<Rightarrow> nat list \<Rightarrow> type_config list option" where
  "packet_filter_list parent name header trailer [] = Some []"
| "packet_filter_list parent name header trailer (t # registered) =
     (case has_ancestor parent [header, trailer] t of None \<Rightarrow> None
      | Some good \<Rightarrow> (case packet_filter_list parent name header trailer registered of None \<Rightarrow> None
        | Some cs \<Rightarrow> Some (if good \<and> t \<notin> {header, trailer} then \<lparr>tc_name = name t, tc_selected = True, tc_typeid = t\<rparr> # cs else cs)))"

datatype capture_mode = HEADERS_AND | HEADERS_OR

record capture_options =
  co_mode :: capture_mode
  co_numLastPackets :: nat
  co_headers :: "nat list"

definition update_capture_options :: "bool \<Rightarrow> type_config list \<Rightarrow> capture_options" where
  "update_capture_options op_AND cs = \<lparr>co_mode = if op_AND then HEADERS_AND else HEADERS_OR, co_numLastPackets = 100,
     co_headers = map tc_typeid (filter tc_selected cs)\<rparr>"

definition select_all :: "bool \<Rightarrow> type_config list \<Rightarrow> type_config list" where
  "select_all on cs = map (\<lambda>c. c\<lparr>tc_selected := on\<rparr>) cs"

definition is_child :: "(nat \<Rightarrow> nat option) \<Rightarrow> nat \<Rightarrow> nat \<Rightarrow> bool" where
  "is_child parent t u \<longleftrightarrow> parent t = Some u"

lemma has_ancestor_exact:
  assumes "wfP (\<lambda>u t. is_child parent t u)"
  shows "has_ancestor parent goals t = Some (\<exists>g \<in> set goals. (is_child parent)\<^sup>*\<^sup>* t g)"
  using assms
proof (induction t rule: wfp_induct_rule)
  case (less t)
  show ?case
  proof (cases "t \<in> set goals")
    case True
    then show ?thesis by (subst has_ancestor.simps) auto
  next
    case False
    show ?thesis
    proof (cases "parent t")
      case None
      then have "\<not> (is_child parent)\<^sup>*\<^sup>* t g" if "g \<in> set goals" for g
        using False that by (auto simp: is_child_def elim: converse_rtranclpE)
      then show ?thesis using None False by (subst has_ancestor.simps) auto
    next
      case (Some u)
      have "(is_child parent)\<^sup>*\<^sup>* t g \<longleftrightarrow> (is_child parent)\<^sup>*\<^sup>* u g" if "g \<in> set goals" for g
        using False that Some by (auto simp: is_child_def elim: converse_rtranclpE intro: converse_rtranclp_into_rtranclp)
      moreover have "has_ancestor parent goals u = Some (\<exists>g \<in> set goals. (is_child parent)\<^sup>*\<^sup>* u g)"
        by (rule less) (simp add: is_child_def Some)
      ultimately show ?thesis using Some False by (subst has_ancestor.simps) auto
    qed
  qed
qed

lemma own_parent:
  assumes "parent t = Some t" "t \<notin> set goals"
  shows "has_ancestor parent goals t = None"
proof (cases "has_ancestor parent goals t")
  case (Some b)
  have "parent t = Some t \<longrightarrow> t \<in> set goals"
    by (rule has_ancestor.raw_induct [where P = "\<lambda>parent goals t b. parent t = Some t \<longrightarrow> t \<in> set goals", OF _ Some])
      (auto split: if_splits)
  then show ?thesis using assms by blast
qed

text \<open>The search for packet types ends when no type is its own ancestor, with the registered types below the header or
  the trailer type in the order of registration, all of them selected, so that all of them are captured at first. A type
  that is its own parent and neither of the two would make it loop forever.\<close>

theorem packet_types_listed:
  assumes "wfP (\<lambda>u t. is_child parent t u)"
  shows "packet_filter_list parent name header trailer registered
      = Some (map (\<lambda>t. \<lparr>tc_name = name t, tc_selected = True, tc_typeid = t\<rparr>)
          (filter (\<lambda>t. t \<notin> {header, trailer} \<and> ((is_child parent)\<^sup>*\<^sup>* t header \<or> (is_child parent)\<^sup>*\<^sup>* t trailer)) registered))
    \<and> (p t = Some t \<and> t \<notin> {header, trailer} \<and> t \<in> set registered \<longrightarrow> packet_filter_list p name header trailer registered = None)"
proof
  show "packet_filter_list parent name header trailer registered
      = Some (map (\<lambda>t. \<lparr>tc_name = name t, tc_selected = True, tc_typeid = t\<rparr>)
          (filter (\<lambda>t. t \<notin> {header, trailer} \<and> ((is_child parent)\<^sup>*\<^sup>* t header \<or> (is_child parent)\<^sup>*\<^sup>* t trailer)) registered))"
    by (induction registered) (auto simp: has_ancestor_exact [OF assms])
  show "p t = Some t \<and> t \<notin> {header, trailer} \<and> t \<in> set registered \<longrightarrow> packet_filter_list p name header trailer registered = None"
    by (induction registered) (auto simp: own_parent split: option.splits)
qed

definition demo_parent :: "nat \<Rightarrow> nat option" where
  "demo_parent t = (if t < 2 then None else if t < 4 then Some 0 else if t < 9 then Some (t - 2) else None)"

theorem packet_types_listed_witness:
  "map_option (map tc_typeid) (packet_filter_list demo_parent (\<lambda>t. []) 2 3 [0, 1, 2, 3, 4, 5, 6, 9]) = Some [4, 5, 6]
   \<and> wfP (\<lambda>u t. is_child demo_parent t u)
   \<and> packet_filter_list (\<lambda>t. Some t) (\<lambda>t. []) 2 3 [2, 3, 7] = None"
proof -
  have "wfP (\<lambda>u t. is_child demo_parent t u)"
    by (rule wfp_if_convertible_to_nat [of _ "\<lambda>t. t"]) (auto simp: is_child_def demo_parent_def split: if_splits)
  note l = packet_types_listed [OF this, where name = "\<lambda>t. []" and header = 2 and trailer = 3]
  have anc: "has_ancestor demo_parent [2, 3] t = Some (t \<in> {2, 3, 4, 5, 6})" if "t \<in> {0, 1, 2, 3, 4, 5, 6, 9}" for t
    using that by (elim insertE emptyE; hypsubst) (simp_all add: has_ancestor.simps [of demo_parent] demo_parent_def)
  let ?reach = "\<lambda>t. t \<notin> {2, 3} \<and> ((is_child demo_parent)\<^sup>*\<^sup>* t 2 \<or> (is_child demo_parent)\<^sup>*\<^sup>* t 3)"
  have reach: "?reach t \<longleftrightarrow> t \<in> {4, 5, 6}" if "t \<in> {0, 1, 2, 3, 4, 5, 6, 9}" for t
    using anc [OF that] has_ancestor_exact [OF \<open>wfP (\<lambda>u t. is_child demo_parent t u)\<close>, of "[2, 3]" t] that by auto
  have f: "filter ?reach [0, 1, 2, 3, 4, 5, 6, 9] = filter (\<lambda>t. t \<in> {4, 5, 6}) [0, 1, 2, 3, 4, 5, 6, 9]"
    using reach by (intro filter_cong) (simp_all only: list.set insert_iff empty_iff)
  have "map_option (map tc_typeid) (packet_filter_list demo_parent (\<lambda>t. []) 2 3 [0, 1, 2, 3, 4, 5, 6, 9]) = Some [4, 5, 6]"
    unfolding l [THEN conjunct1] f by (simp add: comp_def)
  moreover have "packet_filter_list (\<lambda>t. Some t) (\<lambda>t. []) 2 3 [2, 3, 7] = None"
    by (rule l [where t = 7, THEN conjunct2, THEN mp]) simp
  ultimately show ?thesis using \<open>wfP (\<lambda>u t. is_child demo_parent t u)\<close> by blast
qed

end
