(* ===== verification/Spec2Isabelle.thy ===== *)
theory Spec2Isabelle
  imports T2t2 Sim1 FindCycles Microbench Runner PosixShell PatchSet TestRunner RadUtil
    GridView FlowMon Reports NsConfig Version BuildRun TestSetup Scaffold CommandTask ModuleFiles
    VizLoop VizData
begin

text \<open>
  A verification of the Python programs of this repository, an ns-3 tree with the Homa and SIRD
  transports. The simulator itself is C++ and is not part of the development. Its Python is of
  three kinds: the SIRD scripts, which run simulations and turn their text traces into figures and
  summaries; the tools of the build and the tests; generated bindings. The development models the
  first kind in full and of the second the parts named below.

  \<^bold>\<open>How the parts interact.\<close> scripts/sird-figures/run_sird_experiments.py starts simulations one
  after the other (\<open>Runner\<close>). A simulation writes trace files: message traces (a \<open>+\<close> line when a
  message starts, a \<open>-\<close> line when it finishes), credit and grant traces, queue, throughput and RTT
  samples, as key=value words or as columns. Each analysis script reads some of them: a line parser
  (\<open>TraceKV\<close>) gives fields; row loaders and event folds (\<open>TraceRows\<close>, \<open>MsgTrace\<close>, \<open>CreditSeries\<close>)
  give records and time series; statistics (\<open>Stats\<close>) and the \<open>main\<close> of each script (\<open>Lab1\<close>,
  \<open>Lab2\<close>, \<open>T2t2\<close>, \<open>Sim1\<close>, \<open>Figs\<close>, \<open>Microbench\<close>) give the data of the figures, the tables, what is
  printed and the exit status. The scripts do not import one another: each has its own copy of
  the parsers and the statistics. Every copy is modelled from its own source, and the theorems say
  which copies agree and where they differ.

  \<^bold>\<open>The theories.\<close>

  \<^item> \<open>Prelude\<close>: results (\<open>Inl\<close> an exception, \<open>Inr\<close> a value, \<open>bindR\<close>, \<open>mapR\<close>, \<open>foldR\<close>) and Python's
    insertion-ordered dictionaries as association lists with distinct keys; the locales
    \<open>ordered_dict\<close>, \<open>list_dict\<close> (dictionaries of lists that are appended to) and \<open>counter_dict\<close>
    (counters) state the laws the scripts rely on, and are interpreted on that model.
  \<^item> \<open>PyStr\<close>, \<open>PyInt\<close>, \<open>PyFloat\<close>, \<open>PyFloatProps\<close>, \<open>Regex\<close>: strings, decimal integers, binary64
    floats and regular expressions as the scripts use them.
  \<^item> \<open>TraceKV\<close>, \<open>TraceRows\<close>: the key=value parsers of all scripts;
    scripts/count_sird_pkt_state.py, scripts/plot_link_throughput.py and
    scripts/sird-scenarios/plot_2t1_sender_bucket.py as wholes; the row loaders.
  \<^item> \<open>Stats\<close>: distribution functions, percentiles, means, moving averages.
  \<^item> \<open>MsgTrace\<close>: the parsers of message traces. The contract of the table of pending messages is the
    locale \<open>pending_table\<close>, interpreted once for the scripts that keep the latest start of a key
    (lab1, 2t2, paper figures, microbenchmark) and once for those that keep a queue (sim1, figures).
  \<^item> \<open>Lab1\<close>, \<open>Lab2\<close>, \<open>T2t2\<close>, \<open>Sim1\<close>: scripts/lab1_plot.py, scripts/lab2_plot.py,
    scripts/plot_2t2_traces.py and scripts/sim1_plot.py; \<open>CreditSeries\<close> has the credit state and the
    sampling loops of lab2 and of plot_paper_fig3_fig4.py, whose figures are in \<open>Lab2\<close>.
  \<^item> \<open>Figs\<close>, \<open>Microbench\<close>, \<open>Runner\<close>: plot_sird_figures.py, plot_sird_microbench.py and
    run_sird_experiments.py.
  \<^item> \<open>TopSort\<close>, \<open>FindCycles\<close>: bindings/python/topsort.py and \<open>is_rotated\<close> of rad_util.py;
    \<open>RadUtil\<close>: the number and list utilities of rad_util.py, on integers.
  \<^item> \<open>ShellCmd\<close>: waf-tools/shellcmd.py, the parser and the interpreter of command pipelines; \<open>PosixShell\<close>: a
    semantics of simple commands, pipelines and and-or lists of a POSIX shell, independent of it, and the comparison of the two.
  \<^item> \<open>PatchSet\<close>: utils/check-style.py, patches and the style check.
  \<^item> \<open>JobQueue\<close>, \<open>TestRunner\<close>: test.py. The first has the jobs and the interleaving of the main thread,
    the workers and control-C as a step relation, the second what is run and what is reported;
    \<open>Reports\<close>: the text and html reports that test.py makes of its xml results.
  \<^item> \<open>PyNum\<close>, \<open>Grid\<close>, \<open>GridView\<close>: utils/grid.py, the viewer of timelines. \<open>PyNum\<close> has the numbers of
    Python 2 (integers and floats with its division), \<open>Grid\<close> the data with their searches and the reader of
    the log, \<open>GridView\<close> what is laid out and drawn and the drawing area as a state machine over the events
    of the mouse. What the lists of a timeline share is the locale \<open>named_list\<close>, interpreted for timelines,
    ranges and events.
  \<^item> \<open>XmlTree\<close>, \<open>FlowMon\<close>: element trees, and flowmon-parse-results.py of the flow monitor (Python 2).
  \<^item> \<open>NsConfig\<close>, \<open>Version\<close>: utils.py, the configuration file of the build; waf-tools/versioning.py, the
    version fields from git's tags or a cache file.
  \<^item> \<open>ModuleBuild\<close>: wscript and contrib/wscript, the modules a build finds, enables and needs, the programs and
    scripts that can then be run, and the build status file; \<open>BuildRun\<close>: wutils.py and waf-tools/cflags.py, how a
    program is found and run, with which environment, and the flags it is compiled with; \<open>TestSetup\<close>: test.py
    from waf's files and the build status file to its first job, the pool of threads that it starts, and the exit status of the
    whole.
  \<^item> \<open>ModuleFiles\<close>: src/wscript, the libraries, headers and pkg-config files of the modules, and of wscript the programs
    that are registered (those in scratch among them) and the build profile kept in the lock file, and the way of an
    experiment from its command to the binary that is started; \<open>Scaffold\<close>:
    utils/create-module.py, the skeleton of a new module on a directory tree; \<open>CommandTask\<close>: waf-tools/command.py, the
    substitution of variables in a command of \<open>ShellCmd\<close> that is run as a build task.
  \<^item> \<open>VizLoop\<close>, \<open>VizData\<close>: src/visualizer/visualizer. The first has the thread of the simulator and the event loop of
    the view (core.py), interleaved at their lock, their event and their flags; the second the interface statistics
    (plugins/interface_statistics.py), the arrows of core.py and the packet types of plugins/show_last_packets.py.

  \<^bold>\<open>State and operations.\<close> A loop over the lines of a file is a fold of a step function (\<open>count_step\<close>,
  \<open>credit_step\<close>, \<open>share_step\<close>, \<open>parse_step\<close>, ...), the variables of the loop are a tuple or a
  record, and each branch, \<open>continue\<close> and raise of the source is a branch of the step. Names are
  those of the source, with the script in front where several scripts share one
  (\<open>lab1_percentile\<close>, \<open>figs_percentile\<close>). A script's \<open>main\<close> maps the files it reads to its figures,
  its printed lines and its exit status.

  \<^bold>\<open>What the lemmas show.\<close> Text formats are read back (\<open>parse_kv_line_render\<close>,
  \<open>grant_line_roundtrip\<close>, \<open>trace_file_names\<close>, \<open>parse_tag_roundtrip\<close>, \<open>run_args_words\<close>, \<open>read_data_roundtrip\<close>,
  \<open>list_in_file\<close>, \<open>version_of_release\<close>); the event
  folds implement what they are for (pairing of starts and finishes, by the latest start or first in first out; the credit state as balance of
  the trace; windows that partition the events); sampling loops give the state at the multiples of
  the step; a percentile is the value at its rank, up to a rounding error that is stated; thinning keeps the curve;
  the copies of a routine agree, or the difference is a theorem; errors are exactly those stated;
  loops end, or the input for which they do not is given; the graph algorithms are correct for every
  order of the dictionary; on lists of one operator the command interpreter runs what a POSIX shell runs, with the
  redirections that the theorem names; patches are read back;
  every interleaving of the test run ends when there is a worker, with the report of a sequential run; the window of the
  timeline viewer never starts before the data nor ends after them, whatever the user does, and it turns around exactly when
  a range behind or before all data is asked for; reports are well nested but for two named mistakes; the version task sets all fields or changes nothing;
  a build enables exactly what is needed, and what it lists as runnable is what the tests read; the command of
  an experiment reaches the binary of the simulation word by word, when its source is in scratch, and that binary is the one
  built from it; what is in scratch is always built; a module is created as a whole or not at all, and is then found by the
  build, in src and in contrib; substitution in a command never splits a word, and changes the directories of the
  processes only by the values of the directories; the build profile is read back from the lock file, with two exceptions; the
  visualizer never draws while the simulator runs, collects samples as often as the simulator has run, though not always
  those of the run that asks for it, and ends whenever its window is closed.

  \<^bold>\<open>Bounds and fuel.\<close> No model uses fuel. Recursion is structural or has a measure; the sampling
  loop of figure 4, which does not end for a step below a nanosecond, is a partial function whose
  value is \<open>None\<close> then. Theorems about running float sums and counts take at most \<open>2 ^ 33\<close>
  messages or \<open>2 ^ 40\<close> lines, or sums up to \<open>2 ^ 53\<close>: up to there binary64 is exact on integers, and
  no trace of this repository is near it. Where a hypothesis is not of this kind it is a
  condition on the file that the theorem names.

  \<^bold>\<open>What is abstracted.\<close> Strings are lists of 8-bit characters and digits are ASCII. Floats
  are exact binary64 but for the sign of zero; an integer too large for a float becomes infinity
  instead of an OverflowError; \<open>sum\<close> of floats adds from the left. A trace file is its list of
  lines, or absent; a directory is a function from names to traces, or its list of names. A figure is its
  name and its labelled curves: sizes, axes and colours of matplotlib are left out, as are argparse
  (its results are an arguments record) and the rendering of CSV files (their rows are kept).
  Processes run outside: their exit statuses, and what git answers, are parameters. The task generators of waf are
  records; the lines of waf's files, which test.py executes, are executed by a parameter; waf reloads its lists
  between configuration and build, so lists that were one object are separate then. A directory tree is a value, of which
  the operating system may refuse to create files and directories (the parameter \<open>denied\<close>), but not to remove them;
  upper and lower case are those of ASCII; what an expression \<open>${...}\<close> of a command evaluates to is a parameter. In the
  visualizer the runs of the simulator and its samples are parameters and a timer may fire at any moment. In the timeline viewer
  the extents of a text are a parameter and the strokes of cairo are left out; a handler that raises keeps
  what it had changed, since GTK goes on. The loop that looks for the power of ten nearest to a scale
  (\<open>closest_loop\<close>) ends because the power grows while it is below the length of the scale.

  \<^bold>\<open>Not modelled.\<close> The generated bindings (src/*/bindings), which only register classes; the glue to
  pybindgen, pygccxml, waf and GTK, libraries that are not in the repository; of rad_util.py the
  formatting of numbers, outliers, random vectors and introspection; of test.py verbose
  messages and the removal of its temporary files; of wscript the options, the checks of the compiler and the
  tasks for documentation, coverage and suid programs, which only call waf and other programs; of the visualizer its
  widgets and drawing, the scan of the topology and the other plugins; of src/wscript the python bindings of a module, its compiler flags and the
  tasks that copy and remove headers; of grid.py the main window
  with its widgets and the writing of pictures.
\<close>

end
